(* ===== verification/Titan_Prelude.thy ===== *)
theory Titan_Prelude
  imports Main "HOL-Library.Word" "HOL-Library.Sublist"
begin

text \<open>
  Shared vocabulary of the TitanDNS development: the machine integers of the
  Rust code, the part of Rust's string and slice library that the sources use,
  big- and little-endian encodings, saturating subtraction, and the lemmas on
  them that several components need.

  Rust strings are UTF-8 byte strings; here a string is a HOL \<open>string\<close>
  (a list of 8-bit characters).  Case conversion and white space are those of
  ASCII: every name the resolver handles is in the ASCII presentation form of
  DNS names, and rule files are taken to be ASCII.
\<close>

unbundle bit_operations_syntax

type_synonym u8 = "8 word"
type_synonym u16 = "16 word"
type_synonym u32 = "32 word"
type_synonym u64 = "64 word"
type_synonym bytes = "u8 list"

text \<open>
  A fallible function returns \<open>'a result\<close>.  \<open>Error msg\<close> is an \<open>Err\<close>
  of the code, with its message text (the values formatted into a message are
  left out).  \<open>Panic\<close> is a Rust panic, such as an index or a slice out of
  range; the release profile aborts the process on one.
\<close>

datatype rust_error = Error string | Panic

type_synonym 'a result = "rust_error + 'a"

text \<open>The \<open>?\<close> operator: continue with the value of an \<open>Ok\<close>, stop at an error.\<close>

definition andthen :: "'a result \<Rightarrow> ('a \<Rightarrow> 'b result) \<Rightarrow> 'b result" where
  "andthen r f = (case r of Inl e \<Rightarrow> Inl e | Inr x \<Rightarrow> f x)"

lemma andthen_simps [simp]:
  "andthen (Inr x) f = f x"
  "andthen (Inl e) f = Inl e"
  by (simp_all add: andthen_def)

lemma andthen_eq_Inr: "andthen r f = Inr y \<longleftrightarrow> (\<exists>x. r = Inr x \<and> f x = Inr y)"
  by (cases r) auto

text \<open>Indexing and slicing panic out of range.\<close>

definition index :: "'a list \<Rightarrow> nat \<Rightarrow> 'a result" where
  "index xs i = (if i < length xs then Inr (xs ! i) else Inl Panic)"

definition slice :: "'a list \<Rightarrow> nat \<Rightarrow> nat \<Rightarrow> 'a list result" where
  "slice xs a b = (if a \<le> b \<and> b \<le> length xs then Inr (take (b - a) (drop a xs)) else Inl Panic)"

lemma index_in_range [simp]: "i < length xs \<Longrightarrow> index xs i = Inr (xs ! i)"
  by (simp add: index_def)

lemma slice_in_range [simp]:
  "a \<le> b \<Longrightarrow> b \<le> length xs \<Longrightarrow> slice xs a b = Inr (take (b - a) (drop a xs))"
  by (simp add: slice_def)

named_theorems byte_simps \<open>evaluation of byte-level encodings\<close>
named_theorems str_simps \<open>evaluation of the string library\<close>

text \<open>A bounded deque: drop the oldest when full, then append.\<close>

definition push_bounded :: "nat \<Rightarrow> 'a \<Rightarrow> 'a list \<Rightarrow> 'a list" where
  "push_bounded limit x xs = (if limit \<le> length xs then drop 1 xs else xs) @ [x]"

lemma length_push_bounded: "length (push_bounded n x xs) = (if n \<le> length xs \<and> xs \<noteq> [] then length xs else length xs + 1)"
  by (cases xs) (auto simp: push_bounded_def)

lemma push_bounded_le: "length xs \<le> max 1 n \<Longrightarrow> length (push_bounded n x xs) \<le> max 1 n"
  by (cases xs) (auto simp: push_bounded_def)

lemma push_bounded_mono:
  "length xs \<le> max 1 n \<Longrightarrow> k \<le> n \<Longrightarrow> length (push_bounded k x xs) \<le> max 1 n"
  by (cases xs) (auto simp: push_bounded_def)

text \<open>Pushing a list of values keeps the last ones.\<close>

lemma fold_push_bounded:
  assumes "0 < n" and "length acc \<le> n"
  shows "fold (push_bounded n) xs acc = drop (length acc + length xs - n) (acc @ xs)"
  using assms(2)
proof (induction xs arbitrary: acc)
  case (Cons x xs)
  show ?case
  proof (cases "n \<le> length acc")
    case True
    with Cons.prems have l: "length acc = n" by simp
    then have p: "push_bounded n x acc = drop 1 acc @ [x]" by (simp add: push_bounded_def)
    have "fold (push_bounded n) (x # xs) acc = drop (length xs) ((drop 1 acc @ [x]) @ xs)"
      using Cons.IH [of "drop 1 acc @ [x]"] l assms(1) by (simp add: p)
    also have "\<dots> = drop (length xs) (drop 1 (acc @ x # xs))"
      using l assms(1) by (cases acc) auto
    also have "\<dots> = drop (length acc + length (x # xs) - n) (acc @ x # xs)"
      unfolding drop_drop using l by (intro arg_cong [where f = "\<lambda>k. drop k (acc @ x # xs)"]) simp
    finally show ?thesis .
  next
    case False
    then have p: "push_bounded n x acc = acc @ [x]" by (simp add: push_bounded_def)
    from False Cons.IH [of "acc @ [x]"] show ?thesis by (simp add: p)
  qed
qed simp

text \<open>\<open>read_exact n\<close>: the next \<open>n\<close> bytes, if they arrive.\<close>

definition read_exact :: "nat \<Rightarrow> bytes \<Rightarrow> (bytes \<times> bytes) option" where
  "read_exact n stream = (if n \<le> length stream then Some (take n stream, drop n stream) else None)"

lemma read_exact_append [simp]: "length a = n \<Longrightarrow> read_exact n (a @ b) = Some (a, b)"
  by (simp add: read_exact_def)

section \<open>Machine integers\<close>

text \<open>Rust's \<open>saturating_sub\<close> on unsigned integers.\<close>

definition sat_sub :: "'a::len word \<Rightarrow> 'a word \<Rightarrow> 'a word" where
  "sat_sub a b = (if a < b then 0 else a - b)"

lemma unat_sat_sub [simp]: "unat (sat_sub a b) = unat a - unat b"
  by (auto simp: sat_sub_def word_less_nat_alt unat_sub_if_size)

lemma sat_sub_le: "sat_sub a b \<le> a"
  by (simp add: word_le_nat_alt)

lemma sat_sub_self [simp]: "sat_sub a a = 0"
  by (simp add: sat_sub_def)

lemma sat_sub_eq_0_iff: "sat_sub a b = 0 \<longleftrightarrow> a \<le> b"
proof -
  have "sat_sub a b = 0 \<longleftrightarrow> unat (sat_sub a b) = 0" by (simp only: unat_eq_zero)
  then show ?thesis by (simp add: word_le_nat_alt)
qed

lemma unat_plus_one: "a < b \<Longrightarrow> unat (a + 1) = unat a + 1" for a b :: "'a::len word"
proof -
  assume "a < b"
  then have "unat a < unat b" by (simp add: word_less_nat_alt)
  moreover have "unat b < 2 ^ LENGTH('a)" by (rule unsigned_less)
  ultimately have "unat a + 1 < 2 ^ LENGTH('a)" by linarith
  then show ?thesis by (simp add: unat_word_ariths(1))
qed

lemma unat_word_of_nat: "n < 2 ^ LENGTH('a::len) \<Longrightarrow> unat (word_of_nat n :: 'a word) = n"
  by (simp add: unat_of_nat take_bit_nat_eq_self)

lemma unat_ucast_up:
  "LENGTH('a::len) \<le> LENGTH('b::len) \<Longrightarrow> unat (ucast (w :: 'a word) :: 'b word) = unat w"
proof -
  assume l: "LENGTH('a) \<le> LENGTH('b)"
  have "unat w < 2 ^ LENGTH('a)" by (rule unsigned_less)
  also have "\<dots> \<le> 2 ^ LENGTH('b)" using l by (rule power_increasing) simp
  finally show ?thesis by (simp add: unsigned_ucast_eq take_bit_nat_eq_self)
qed

section \<open>Instants and durations\<close>

text \<open>Natural numbers of nanoseconds.  \<open>t.elapsed()\<close> at the instant \<open>now\<close> is \<open>now - t\<close>,
  which is zero when \<open>t\<close> lies in the future, as in the standard library.\<close>

definition from_secs :: "nat \<Rightarrow> nat" where
  "from_secs n = n * 1000000000"

definition from_millis :: "nat \<Rightarrow> nat" where
  "from_millis n = n * 1000000"

definition as_secs :: "nat \<Rightarrow> nat" where
  "as_secs d = d div 1000000000"

definition as_millis :: "nat \<Rightarrow> nat" where
  "as_millis d = d div 1000000"

lemma as_from [simp]: "as_secs (from_secs n) = n" "as_millis (from_millis n) = n"
  by (simp_all add: as_secs_def from_secs_def as_millis_def from_millis_def)

lemma from_secs_less_iff [simp]: "from_secs a < from_secs b \<longleftrightarrow> a < b"
  by (simp add: from_secs_def)

section \<open>Byte encodings\<close>

text \<open>\<open>le_bytes n w\<close> are the \<open>n\<close> low bytes of \<open>w\<close>, least significant first
  (\<open>to_le_bytes\<close>); \<open>from_le\<close> reads such a list back (\<open>from_le_bytes\<close>).\<close>

primrec le_bytes :: "nat \<Rightarrow> 'a::len word \<Rightarrow> bytes" where
  "le_bytes 0 w = []"
| "le_bytes (Suc n) w = ucast w # le_bytes n (drop_bit 8 w)"

primrec from_le :: "bytes \<Rightarrow> 'a::len word" where
  "from_le [] = 0"
| "from_le (b # bs) = ucast b OR push_bit 8 (from_le bs)"

definition be_bytes :: "nat \<Rightarrow> 'a::len word \<Rightarrow> bytes" where
  "be_bytes n w = rev (le_bytes n w)"

definition from_be :: "bytes \<Rightarrow> 'a::len word" where
  "from_be bs = from_le (rev bs)"

lemma length_le_bytes [simp]: "length (le_bytes n w) = n"
  by (induction n arbitrary: w) auto

lemma length_be_bytes [simp]: "length (be_bytes n w) = n"
  by (simp add: be_bytes_def)

lemma from_le_le_bytes_take: "from_le (le_bytes n w) = take_bit (8 * n) w"
proof (induction n arbitrary: w)
  case 0
  show ?case by simp
next
  case (Suc n)
  have "ucast (ucast w :: u8) OR push_bit 8 (take_bit (8 * n) (drop_bit 8 w))
        = take_bit (8 * Suc n) w"
    by (rule bit_word_eqI) (auto simp: bit_simps)
  then show ?case by (simp add: Suc.IH)
qed

lemma from_le_le_bytes [simp]:
  "LENGTH('a) \<le> 8 * n \<Longrightarrow> from_le (le_bytes n w) = (w :: 'a::len word)"
  by (simp add: from_le_le_bytes_take take_bit_word_eq_self)

lemma from_be_be_bytes [simp]:
  "LENGTH('a) \<le> 8 * n \<Longrightarrow> from_be (be_bytes n w) = (w :: 'a::len word)"
  by (simp add: from_be_def be_bytes_def)

lemma be_bytes_2 [byte_simps]: "be_bytes 2 w = [ucast (drop_bit 8 w), ucast w]"
  by (simp add: be_bytes_def numeral_2_eq_2)

lemma from_be_2 [byte_simps]: "from_be [a, b] = ucast b OR push_bit 8 (ucast a)"
  by (simp add: from_be_def)

lemma be_bytes_from_be_2 [simp]:
  "be_bytes 2 (from_be [a, b] :: u16) = [a, b]"
proof -
  have "ucast (drop_bit 8 (ucast b OR push_bit 8 (ucast a) :: u16)) = a"
    by (rule bit_word_eqI) (auto simp: bit_simps dest: bit_imp_le_length)
  moreover have "ucast (ucast b OR push_bit 8 (ucast a) :: u16) = b"
    by (rule bit_word_eqI) (auto simp: bit_simps)
  ultimately show ?thesis by (simp add: be_bytes_2 from_be_2)
qed

text \<open>Bytes that fit the word are read back as they were.\<close>

lemma bit_from_le: "bit (from_le bs :: 'a::len word) i \<Longrightarrow> i < 8 * length bs"
proof (induction bs arbitrary: i)
  case (Cons b bs)
  show ?case
  proof (cases "i < 8")
    case False
    with Cons.prems have "bit (from_le bs :: 'a word) (i - 8)"
      by (auto simp: bit_simps dest: bit_imp_le_length)
    from Cons.IH [OF this] show ?thesis by simp
  qed simp
qed simp

lemma le_bytes_from_le:
  "8 * length bs \<le> LENGTH('a) \<Longrightarrow> le_bytes (length bs) (from_le bs :: 'a::len word) = bs"
proof (induction bs)
  case (Cons b bs)
  let ?w = "from_le bs :: 'a word"
  have "ucast (ucast b OR push_bit 8 ?w) = b"
    using Cons.prems by (intro bit_word_eqI) (auto simp: bit_simps)
  moreover have "drop_bit 8 (ucast b OR push_bit 8 ?w) = ?w"
    using Cons.prems
    by (intro bit_word_eqI) (auto simp: bit_simps dest: bit_from_le bit_imp_le_length)
  ultimately show ?case using Cons by simp
qed simp

lemma be_bytes_from_be:
  "length bs = n \<Longrightarrow> 8 * n \<le> LENGTH('a) \<Longrightarrow> be_bytes n (from_be bs :: 'a::len word) = bs"
  using le_bytes_from_le [of "rev bs", where 'a = 'a] by (simp add: be_bytes_def from_be_def)

text \<open>A list that holds at least the indices asked for, written out.\<close>

lemma take_2_nth: "2 \<le> length xs \<Longrightarrow> take 2 xs = [xs ! 0, xs ! 1]"
  by (cases xs; cases "tl xs") auto

section \<open>Characters and strings\<close>

definition char_lower :: "char \<Rightarrow> char" where
  "char_lower c = (let n = (of_char c :: nat) in
     if 65 \<le> n \<and> n \<le> 90 then char_of (n + 32) else c)"

definition is_upper :: "char \<Rightarrow> bool" where
  "is_upper c = (let n = (of_char c :: nat) in 65 \<le> n \<and> n \<le> 90)"

definition to_lower :: "string \<Rightarrow> string" where
  "to_lower s = map char_lower s"

definition is_ws :: "char \<Rightarrow> bool" where
  "is_ws c = (let n = (of_char c :: nat) in n = 32 \<or> (9 \<le> n \<and> n \<le> 13))"

definition is_alnum :: "char \<Rightarrow> bool" where
  "is_alnum c = (let n = (of_char c :: nat) in
     (48 \<le> n \<and> n \<le> 57) \<or> (65 \<le> n \<and> n \<le> 90) \<or> (97 \<le> n \<and> n \<le> 122))"

definition trim_start_if :: "(char \<Rightarrow> bool) \<Rightarrow> string \<Rightarrow> string" where
  "trim_start_if P s = dropWhile P s"

definition trim_end_if :: "(char \<Rightarrow> bool) \<Rightarrow> string \<Rightarrow> string" where
  "trim_end_if P s = rev (dropWhile P (rev s))"

definition trim_start_matches :: "char \<Rightarrow> string \<Rightarrow> string" where
  "trim_start_matches c = trim_start_if (\<lambda>x. x = c)"

definition trim_end_matches :: "char \<Rightarrow> string \<Rightarrow> string" where
  "trim_end_matches c = trim_end_if (\<lambda>x. x = c)"

definition trim :: "string \<Rightarrow> string" where
  "trim s = trim_end_if is_ws (trim_start_if is_ws s)"

definition starts_with :: "string \<Rightarrow> string \<Rightarrow> bool" where
  "starts_with s p = (take (length p) s = p)"

definition ends_with :: "string \<Rightarrow> string \<Rightarrow> bool" where
  "ends_with s p = starts_with (rev s) (rev p)"

definition strip_prefix :: "string \<Rightarrow> string \<Rightarrow> string option" where
  "strip_prefix s p = (if starts_with s p then Some (drop (length p) s) else None)"

fun contains_str :: "string \<Rightarrow> string \<Rightarrow> bool" where
  "contains_str [] p = (p = [])"
| "contains_str (c # s) p = (starts_with (c # s) p \<or> contains_str s p)"

text \<open>\<open>split c s\<close> of Rust's \<open>str::split\<close>: always at least one part.\<close>

fun split_on :: "char \<Rightarrow> string \<Rightarrow> string list" where
  "split_on c [] = [[]]"
| "split_on c (x # xs) =
     (if x = c then [] # split_on c xs
      else (case split_on c xs of [] \<Rightarrow> [[x]] | p # ps \<Rightarrow> (x # p) # ps))"

definition rsplit_on :: "char \<Rightarrow> string \<Rightarrow> string list" where
  "rsplit_on c s = rev (split_on c s)"

fun split_once :: "char \<Rightarrow> string \<Rightarrow> (string \<times> string) option" where
  "split_once c [] = None"
| "split_once c (x # xs) =
     (if x = c then Some ([], xs)
      else map_option (\<lambda>(a, b). (x # a, b)) (split_once c xs))"

text \<open>\<open>str::lines\<close>: the last, empty part of a text that ends in a newline is
  dropped, and one carriage return at the end of a line.\<close>

definition strip_cr :: "string \<Rightarrow> string" where
  "strip_cr l = (if l \<noteq> [] \<and> last l = CHR 0x0D then butlast l else l)"

definition str_lines :: "string \<Rightarrow> string list" where
  "str_lines s = (let ps = split_on CHR 0x0A s
                  in map strip_cr (if last ps = [] then butlast ps else ps))"

definition split_whitespace :: "string \<Rightarrow> string list" where
  "split_whitespace s =
     filter (\<lambda>p. p \<noteq> []) (split_on CHR '' '' (map (\<lambda>c. if is_ws c then CHR '' '' else c) s))"

text \<open>\<open>trim_start_matches\<close>, \<open>replace\<close> with the empty string, and \<open>rfind\<close> with the slices
  around the position found.\<close>

lemma starts_with_prefix_length: "starts_with s p \<Longrightarrow> length p \<le> length s"
  unfolding starts_with_def by (metis length_take min.cobounded1)

function trim_start_str :: "string \<Rightarrow> string \<Rightarrow> string" where
  "trim_start_str p s = (if p \<noteq> [] \<and> starts_with s p then trim_start_str p (drop (length p) s) else s)"
  by pat_completeness auto

termination trim_start_str
proof (relation "measure (\<lambda>(p, s). length s)")
  fix p s :: string
  assume "p \<noteq> [] \<and> starts_with s p"
  then have "p \<noteq> []" "length p \<le> length s" by (auto simp: starts_with_prefix_length)
  then show "((p, drop (length p) s), (p, s)) \<in> measure (\<lambda>(p, s). length s)" by (cases p) auto
qed simp

declare trim_start_str.simps [simp del]

function remove_str :: "string \<Rightarrow> string \<Rightarrow> string" where
  "remove_str p [] = []"
| "remove_str p (c # s) =
     (if p \<noteq> [] \<and> starts_with (c # s) p then remove_str p (drop (length p) (c # s)) else c # remove_str p s)"
  by pat_completeness auto

termination remove_str
proof (relation "measure (\<lambda>(p, s). length s)")
  fix p s :: string and c
  assume "p \<noteq> [] \<and> starts_with (c # s) p"
  then show "((p, drop (length p) (c # s)), (p, c # s)) \<in> measure (\<lambda>(p, s). length s)" by (cases p) auto
qed auto

definition rsplit_once :: "char \<Rightarrow> string \<Rightarrow> (string \<times> string) option" where
  "rsplit_once c s = map_option (\<lambda>(a, b). (rev b, rev a)) (split_once c (rev s))"

text \<open>Decimal and hexadecimal forms of numbers, and \<open>parse\<close> of an unsigned integer below \<open>limit\<close>.\<close>

definition digit_char :: "nat \<Rightarrow> char" where
  "digit_char d = char_of (if d < 10 then 48 + d else 87 + d)"

fun show_base :: "nat \<Rightarrow> nat \<Rightarrow> string" where
  "show_base b n = (if b < 2 \<or> n < b then [digit_char n] else show_base b (n div b) @ [digit_char (n mod b)])"

declare show_base.simps [simp del]

definition show_nat :: "nat \<Rightarrow> string" where
  "show_nat n = show_base 10 n"

definition is_digit :: "char \<Rightarrow> bool" where
  "is_digit c = (let n = (of_char c :: nat) in 48 \<le> n \<and> n \<le> 57)"

definition digits_value :: "string \<Rightarrow> nat" where
  "digits_value s = foldl (\<lambda>v c. v * 10 + (of_char c - 48)) 0 s"

definition parse_uint :: "nat \<Rightarrow> string \<Rightarrow> nat option" where
  "parse_uint limit s =
     (let ds = (case s of c # cs \<Rightarrow> if c = CHR ''+'' then cs else s | [] \<Rightarrow> [])
      in if ds \<noteq> [] \<and> list_all is_digit ds \<and> digits_value ds < limit then Some (digits_value ds) else None)"

subsection \<open>Lemmas on strings\<close>

lemma of_char_less_256 [simp]: "(of_char c :: nat) < 256"
proof -
  have "(of_char c :: nat) mod 256 = of_char c" by simp
  then show ?thesis by (metis mod_less_divisor zero_less_numeral)
qed

lemma char_lower_eq_iff: "\<not> is_upper d \<Longrightarrow> \<not> is_upper (char_lower d)"
  by (simp add: char_lower_def is_upper_def Let_def)

lemma char_lower_not_upper [simp]: "\<not> is_upper (char_lower c)"
proof (cases "65 \<le> (of_char c :: nat) \<and> (of_char c :: nat) \<le> 90")
  case True
  then have "(of_char (char_lower c) :: nat) = of_char c + 32"
    by (simp add: char_lower_def Let_def)
  with True show ?thesis by (simp add: is_upper_def Let_def)
next
  case False
  then show ?thesis by (simp add: char_lower_def is_upper_def Let_def)
qed

lemma char_lower_id: "\<not> is_upper c \<Longrightarrow> char_lower c = c"
  by (auto simp: char_lower_def is_upper_def Let_def)

lemma char_lower_idem [simp]: "char_lower (char_lower c) = char_lower c"
  by (rule char_lower_id) simp

lemma to_lower_idem [simp]: "to_lower (to_lower s) = to_lower s"
  by (simp add: to_lower_def)

lemma length_to_lower [simp]: "length (to_lower s) = length s"
  by (simp add: to_lower_def)

lemma to_lower_append [simp]: "to_lower (s @ t) = to_lower s @ to_lower t"
  by (simp add: to_lower_def)

lemma to_lower_Nil [simp]: "to_lower [] = []"
  by (simp add: to_lower_def)

lemma to_lower_id: "\<not> list_ex is_upper s \<Longrightarrow> to_lower s = s"
  by (induction s) (auto simp: to_lower_def char_lower_id)

lemma char_lower_dot [simp]: "char_lower c = CHR ''.'' \<longleftrightarrow> c = CHR ''.''"
proof
  assume l: "char_lower c = CHR ''.''"
  show "c = CHR ''.''"
  proof (cases "is_upper c")
    case True
    then have "(of_char (char_lower c) :: nat) = of_char c + 32"
      by (simp add: char_lower_def is_upper_def Let_def)
    with l True show ?thesis by (simp add: is_upper_def Let_def)
  next
    case False
    with l show ?thesis by (simp add: char_lower_id)
  qed
qed (simp add: char_lower_def Let_def)

lemma starts_with_prefix: "starts_with s p \<longleftrightarrow> prefix p s"
  by (metis append_eq_conv_conj append_take_drop_id prefix_def starts_with_def)

lemma ends_with_suffix: "ends_with s p \<longleftrightarrow> suffix p s"
  by (simp add: ends_with_def starts_with_prefix suffix_to_prefix)

lemma strip_prefix_append [simp]: "strip_prefix (p @ s) p = Some s"
  by (simp add: strip_prefix_def starts_with_def)

lemma contains_str_iff: "contains_str s p \<longleftrightarrow> sublist p s"
proof (induction s)
  case Nil
  show ?case by simp
next
  case (Cons c s)
  then show ?case by (auto simp: starts_with_prefix sublist_Cons_right)
qed

lemma split_on_nonempty [simp]: "split_on c s \<noteq> []"
  by (induction s) (auto split: list.splits)

lemma split_on_no_sep: "c \<notin> set s \<Longrightarrow> split_on c s = [s]"
  by (induction s) auto

lemma split_on_append_sep:
  "c \<notin> set a \<Longrightarrow> split_on c (a @ c # b) = a # split_on c b"
  by (induction a) auto

lemma split_on_append:
  "split_on c (a @ c # b) = split_on c a @ split_on c b"
  by (induction a) (auto split: list.splits)

lemma split_on_parts: "p \<in> set (split_on c s) \<Longrightarrow> c \<notin> set p"
  by (induction s arbitrary: p) (auto split: list.splits if_splits)

lemma split_on_join:
  "concat (map (\<lambda>p. p @ [c]) (split_on c s)) = s @ [c]"
  by (induction s) (auto split: list.splits)

lemma trim_end_matches_snoc [simp]:
  "trim_end_matches c (s @ [c]) = trim_end_matches c s"
  by (simp add: trim_end_matches_def trim_end_if_def)

lemma trim_end_matches_id:
  "s = [] \<or> last s \<noteq> c \<Longrightarrow> trim_end_matches c s = s"
  by (cases s rule: rev_cases) (auto simp: trim_end_matches_def trim_end_if_def)

lemma trim_end_matches_cases:
  obtains n where "s = trim_end_matches c s @ replicate n c"
proof -
  have "rev s = takeWhile (\<lambda>x. x = c) (rev s) @ dropWhile (\<lambda>x. x = c) (rev s)" by simp
  then have "s = rev (dropWhile (\<lambda>x. x = c) (rev s)) @ rev (takeWhile (\<lambda>x. x = c) (rev s))"
    by (metis rev_append rev_rev_ident)
  moreover have "takeWhile (\<lambda>x. x = c) (rev s) = replicate (length (takeWhile (\<lambda>x. x = c) (rev s))) c"
    by (metis (full_types) replicate_length_same set_takeWhileD)
  ultimately have "s = trim_end_matches c s @ replicate (length (takeWhile (\<lambda>x. x = c) (rev s))) c"
    by (metis rev_replicate trim_end_matches_def trim_end_if_def)
  then show ?thesis by (rule that)
qed

lemma trim_end_matches_last: "trim_end_matches c s = [] \<or> last (trim_end_matches c s) \<noteq> c"
  using hd_dropWhile [of "\<lambda>x. x = c" "rev s"]
  by (cases "\<exists>x\<in>set s. x \<noteq> c") (auto simp: trim_end_matches_def trim_end_if_def last_rev)

end
