(* ===== verification/Dns_Types.thy ===== *)
theory Dns_Types
  imports Titan_Prelude
begin

text \<open>
  The data that the resolver passes around: IP addresses (\<open>std::net\<close>) and the
  DNS messages of the external crate \<open>hickory_proto\<close>.  A message is a record
  of the values that the crate's accessors return; a setter (\<open>set_id\<close>,
  \<open>set_response_code\<close>, \<open>add_answer\<close>, ...) is an update of the field it sets.
  A domain name is its presentation form, the string \<open>Name::to_string\<close> gives.
  Record types, query classes and response codes are their numbers.

  What the crate computes (parsing, serialising, the value of
  \<open>Message::new()\<close>, name encodings) is not defined here: it is the parameter
  \<open>dns_lib\<close> of every definition that needs it, and the laws the code relies on
  are the named predicates below.
\<close>

section \<open>Addresses\<close>

datatype ip_addr = V4 u32 | V6 "128 word"

type_synonym sock_addr = "ip_addr \<times> u16"

definition v4_octets :: "u32 \<Rightarrow> bytes" where
  "v4_octets a = be_bytes 4 a"

definition v6_octets :: "128 word \<Rightarrow> bytes" where
  "v6_octets a = be_bytes 16 a"

definition v4_from_octets :: "bytes \<Rightarrow> u32" where
  "v4_from_octets bs = from_be bs"

definition v6_from_octets :: "bytes \<Rightarrow> 128 word" where
  "v6_from_octets bs = from_be bs"

fun is_loopback :: "ip_addr \<Rightarrow> bool" where
  "is_loopback (V4 a) = (drop_bit 24 a = 127)"
| "is_loopback (V6 a) = (a = 1)"

fun is_unspecified :: "ip_addr \<Rightarrow> bool" where
  "is_unspecified (V4 a) = (a = 0)"
| "is_unspecified (V6 a) = (a = 0)"

lemma length_octets [simp]:
  "length (v4_octets a) = 4" "length (v6_octets b) = 16"
  by (simp_all add: v4_octets_def v6_octets_def)

lemma octets_roundtrip [simp]:
  "v4_from_octets (v4_octets a) = a" "v6_from_octets (v6_octets b) = b"
  by (simp_all add: v4_octets_def v6_octets_def v4_from_octets_def v6_from_octets_def)

lemma octets_from_octets:
  "length bs = 4 \<Longrightarrow> v4_octets (v4_from_octets bs) = bs"
  "length bs = 16 \<Longrightarrow> v6_octets (v6_from_octets bs) = bs"
  by (simp_all add: v4_octets_def v6_octets_def v4_from_octets_def v6_from_octets_def be_bytes_from_be)

section \<open>Messages\<close>

datatype rdata = RD_A u32 | RD_AAAA "128 word" | RD_CNAME string | RD_Other u16 bytes

abbreviation (input) T_NULL :: u16 where "T_NULL \<equiv> 10"
abbreviation (input) T_A :: u16 where "T_A \<equiv> 1"
abbreviation (input) T_NS :: u16 where "T_NS \<equiv> 2"
abbreviation (input) T_CNAME :: u16 where "T_CNAME \<equiv> 5"
abbreviation (input) T_MX :: u16 where "T_MX \<equiv> 15"
abbreviation (input) T_TXT :: u16 where "T_TXT \<equiv> 16"
abbreviation (input) T_AAAA :: u16 where "T_AAAA \<equiv> 28"
abbreviation (input) T_DS :: u16 where "T_DS \<equiv> 43"
abbreviation (input) T_RRSIG :: u16 where "T_RRSIG \<equiv> 46"
abbreviation (input) T_NSEC :: u16 where "T_NSEC \<equiv> 47"
abbreviation (input) T_DNSKEY :: u16 where "T_DNSKEY \<equiv> 48"
abbreviation (input) T_NSEC3 :: u16 where "T_NSEC3 \<equiv> 50"

abbreviation (input) NoError :: u16 where "NoError \<equiv> 0"
abbreviation (input) FormErr :: u16 where "FormErr \<equiv> 1"
abbreviation (input) ServFail :: u16 where "ServFail \<equiv> 2"
abbreviation (input) NXDomain :: u16 where "NXDomain \<equiv> 3"
abbreviation (input) Refused :: u16 where "Refused \<equiv> 5"

fun rdata_type :: "rdata \<Rightarrow> u16" where
  "rdata_type (RD_A _) = T_A"
| "rdata_type (RD_AAAA _) = T_AAAA"
| "rdata_type (RD_CNAME _) = T_CNAME"
| "rdata_type (RD_Other t _) = t"

record rr =
  rr_name :: string
  rr_ttl :: u32
  rr_data :: rdata

abbreviation rr_type :: "rr \<Rightarrow> u16" where
  "rr_type r \<equiv> rdata_type (rr_data r)"

text \<open>The address in a record, as \<open>as_a\<close> and \<open>as_aaaa\<close> give it.\<close>

fun rdata_ip :: "rdata \<Rightarrow> ip_addr option" where
  "rdata_ip (RD_A a) = Some (V4 a)"
| "rdata_ip (RD_AAAA a) = Some (V6 a)"
| "rdata_ip _ = None"

record query =
  q_name :: string
  q_type :: u16
  q_class :: u16

datatype msg_type = QueryMsg | ResponseMsg

type_synonym client_subnet = "ip_addr \<times> u8 \<times> u8"

record edns =
  ed_subnet :: "client_subnet option"
  ed_other :: bytes

record message =
  m_id :: u16
  m_type :: msg_type
  m_opcode :: u8
  m_aa :: bool
  m_tc :: bool
  m_rd :: bool
  m_ra :: bool
  m_ad :: bool
  m_cd :: bool
  m_rcode :: u16
  m_queries :: "query list"
  m_answers :: "rr list"
  m_authority :: "rr list"
  m_additionals :: "rr list"
  m_edns :: "edns option"

abbreviation (input) OpQuery :: u8 where "OpQuery \<equiv> 0"

text \<open>\<open>Message::query()\<close> is the first question, if there is one.\<close>

definition msg_query :: "message \<Rightarrow> query option" where
  "msg_query m = (case m_queries m of [] \<Rightarrow> None | q # _ \<Rightarrow> Some q)"

text \<open>The list updates behind \<open>add_query\<close> and \<open>add_answer\<close>, and \<open>Record::from_rdata\<close>.\<close>

definition add_query :: "query \<Rightarrow> message \<Rightarrow> message" where
  "add_query q m = m\<lparr>m_queries := m_queries m @ [q]\<rparr>"

definition add_answer :: "rr \<Rightarrow> message \<Rightarrow> message" where
  "add_answer r m = m\<lparr>m_answers := m_answers m @ [r]\<rparr>"

definition from_rdata :: "string \<Rightarrow> u32 \<Rightarrow> rdata \<Rightarrow> rr" where
  "from_rdata n t d = \<lparr>rr_name = n, rr_ttl = t, rr_data = d\<rparr>"

section \<open>The external crate\<close>

record dns_lib =
  lib_new :: message                              \<comment> \<open>\<open>Message::new()\<close>\<close>
  lib_new_edns :: edns                            \<comment> \<open>\<open>Edns::new()\<close>\<close>
  lib_to_vec :: "message \<Rightarrow> bytes option"        \<comment> \<open>\<open>Message::to_vec\<close>\<close>
  lib_from_vec :: "bytes \<Rightarrow> message option"      \<comment> \<open>\<open>Message::from_vec\<close>\<close>
  lib_emit_name :: "string \<Rightarrow> bytes option"      \<comment> \<open>\<open>Name::emit\<close>\<close>
  lib_name_from_ascii :: "string \<Rightarrow> string option" \<comment> \<open>\<open>Name::from_ascii\<close>\<close>
  lib_parse_ip :: "string \<Rightarrow> ip_addr option"     \<comment> \<open>\<open>IpAddr::from_str\<close>\<close>

text \<open>\<open>Message::new()\<close> is documented as an empty message.\<close>

definition new_is_empty :: "dns_lib \<Rightarrow> bool" where
  "new_is_empty L \<longleftrightarrow> m_queries (lib_new L) = [] \<and> m_answers (lib_new L) = []
     \<and> m_authority (lib_new L) = [] \<and> m_additionals (lib_new L) = []"

text \<open>A serialised message starts with the twelve octets of its header, the
  first two of which hold the ID (RFC 1035, 4.1.1).\<close>

definition serial_header :: "dns_lib \<Rightarrow> bool" where
  "serial_header L \<longleftrightarrow> (\<forall>m bs. lib_to_vec L m = Some bs \<longrightarrow>
     12 \<le> length bs \<and> take 2 bs = be_bytes 2 (m_id m))"

text \<open>What \<open>to_vec\<close> writes, \<open>from_vec\<close> reads back.\<close>

definition serial_roundtrip :: "dns_lib \<Rightarrow> bool" where
  "serial_roundtrip L \<longleftrightarrow> (\<forall>m bs. lib_to_vec L m = Some bs \<longrightarrow> lib_from_vec L bs = Some m)"

lemma msg_query_simps [simp]:
  "m_queries m = [] \<Longrightarrow> msg_query m = None"
  "m_queries m = q # qs \<Longrightarrow> msg_query m = Some q"
  by (simp_all add: msg_query_def)

lemma add_simps [simp]:
  "m_queries (add_query q m) = m_queries m @ [q]"
  "m_answers (add_query q m) = m_answers m"
  "m_id (add_query q m) = m_id m"
  "m_rcode (add_query q m) = m_rcode m"
  "m_type (add_query q m) = m_type m"
  "m_queries (add_answer r m) = m_queries m"
  "m_answers (add_answer r m) = m_answers m @ [r]"
  "m_id (add_answer r m) = m_id m"
  "m_rcode (add_answer r m) = m_rcode m"
  "m_type (add_answer r m) = m_type m"
  by (simp_all add: add_query_def add_answer_def)

lemma from_rdata_simps [simp]:
  "rr_name (from_rdata n t d) = n"
  "rr_ttl (from_rdata n t d) = t"
  "rr_data (from_rdata n t d) = d"
  by (simp_all add: from_rdata_def)

section \<open>A concrete instance\<close>

text \<open>A message and an instance of the crate that satisfy the laws above, for
  the witnesses: the serialised form of every message is its ID and ten zero
  octets, and the one message \<open>sample_msg\<close> is parsed back.\<close>

definition sample_msg :: message where
  "sample_msg = \<lparr>m_id = 0, m_type = QueryMsg, m_opcode = 0, m_aa = False, m_tc = False,
     m_rd = False, m_ra = False, m_ad = False, m_cd = False, m_rcode = 0, m_queries = [],
     m_answers = [], m_authority = [], m_additionals = [], m_edns = None\<rparr>"

definition sample_lib :: dns_lib where
  "sample_lib = \<lparr>lib_new = sample_msg, lib_new_edns = \<lparr>ed_subnet = None, ed_other = []\<rparr>,
     lib_to_vec = (\<lambda>m. Some (be_bytes 2 (m_id m) @ replicate 10 0)),
     lib_from_vec = (\<lambda>bs. Some (sample_msg\<lparr>m_id := from_be (take 2 bs)\<rparr>)),
     lib_emit_name = (\<lambda>n. Some []),
     lib_name_from_ascii = Some,
     lib_parse_ip = (\<lambda>s. if s = ''127.0.0.1'' then Some (V4 0x7F000001)
                       else if s = ''::1'' then Some (V6 1) else None)\<rparr>"

lemma sample_lib_header: "serial_header sample_lib"
  by (simp add: serial_header_def sample_lib_def)

lemma sample_lib_new: "new_is_empty sample_lib"
  by (simp add: new_is_empty_def sample_lib_def sample_msg_def)

lemma sample_msg_fields [simp]:
  "m_queries sample_msg = []" "m_answers sample_msg = []" "m_id sample_msg = 0"
  by (simp_all add: sample_msg_def)

end
