(* ===== verification/Zero_Copy.thy ===== *)
theory Zero_Copy
  imports Dns_Types
begin

text \<open>
  \<open>src/core/zerocopy.rs\<close>: a DNS message kept as raw bytes with its header
  fields decoded once, a lazily parsed view, the ID patch used to answer from
  the cache, and the zero-copy question parser.  Indexing and slicing are
  written with \<open>index\<close> and \<open>slice\<close>, so that a panic of the Rust code is a
  value of the model.
\<close>

record zc_message =
  zc_raw :: bytes
  zc_parsed :: "message option"
  zc_id :: u16
  zc_flags :: u16
  zc_qdcount :: u16
  zc_ancount :: u16

record zc_question =
  zq_data :: bytes
  zq_name_end :: nat
  zq_qtype :: u16
  zq_qclass :: u16

section \<open>Construction and header access\<close>

definition zc_from_bytes :: "bytes \<Rightarrow> zc_message result" where
  "zc_from_bytes data =
     (if length data < 12 then Inl (Error ''DNS message too short'')
      else Inr \<lparr>zc_raw = data, zc_parsed = None,
                zc_id = from_be [data ! 0, data ! 1],
                zc_flags = from_be [data ! 2, data ! 3],
                zc_qdcount = from_be [data ! 4, data ! 5],
                zc_ancount = from_be [data ! 6, data ! 7]\<rparr>)"

definition zc_from_vec :: "bytes \<Rightarrow> zc_message result" where
  "zc_from_vec data = zc_from_bytes data"

definition zc_from_message :: "dns_lib \<Rightarrow> message \<Rightarrow> zc_message result" where
  "zc_from_message L msg =
     (case lib_to_vec L msg of
        None \<Rightarrow> Inl (Error ''serialize'')
      | Some bs \<Rightarrow> zc_from_bytes bs)"

definition zc_is_query :: "zc_message \<Rightarrow> bool" where
  "zc_is_query z = (zc_flags z AND 0x8000 = 0)"

definition zc_is_response :: "zc_message \<Rightarrow> bool" where
  "zc_is_response z = (\<not> zc_is_query z)"

definition zc_rcode :: "zc_message \<Rightarrow> u8" where
  "zc_rcode z = ucast (zc_flags z AND 0x000F)"

text \<open>The lazy parse: the first successful call fills the cell, later calls read it.\<close>

definition zc_as_message :: "dns_lib \<Rightarrow> zc_message \<Rightarrow> message result \<times> zc_message" where
  "zc_as_message L z =
     (case zc_parsed z of
        Some m \<Rightarrow> (Inr m, z)
      | None \<Rightarrow> (case lib_from_vec L (zc_raw z) of
          None \<Rightarrow> (Inl (Error ''Parse error''), z)
        | Some m \<Rightarrow> (Inr m, z\<lparr>zc_parsed := Some m\<rparr>)))"

definition zc_query_name :: "dns_lib \<Rightarrow> zc_message \<Rightarrow> string result \<times> zc_message" where
  "zc_query_name L z =
     (case zc_as_message L z of
        (Inl e, z') \<Rightarrow> (Inl e, z')
      | (Inr m, z') \<Rightarrow> (Inr (case msg_query m of None \<Rightarrow> ''.'' | Some q \<Rightarrow> q_name q), z'))"

definition zc_query_type :: "dns_lib \<Rightarrow> zc_message \<Rightarrow> u16 result \<times> zc_message" where
  "zc_query_type L z =
     (case zc_as_message L z of
        (Inl e, z') \<Rightarrow> (Inl e, z')
      | (Inr m, z') \<Rightarrow> (Inr (case msg_query m of None \<Rightarrow> T_A | Some q \<Rightarrow> q_type q), z'))"

text \<open>The response with another ID; indexing the first two bytes panics on
  a shorter buffer.\<close>

definition zc_with_id :: "u16 \<Rightarrow> zc_message \<Rightarrow> zc_message result" where
  "zc_with_id new_id z =
     (if length (zc_raw z) < 2 then Inl Panic
      else Inr \<lparr>zc_raw = (zc_raw z)[0 := ucast (drop_bit 8 new_id), 1 := ucast (new_id AND 0xFF)],
                zc_parsed = None, zc_id = new_id, zc_flags = zc_flags z,
                zc_qdcount = zc_qdcount z, zc_ancount = zc_ancount z\<rparr>)"

section \<open>The question parser\<close>

text \<open>The loop of \<open>find_name_end\<close> from position \<open>pos\<close>.\<close>

function find_name_end_from :: "bytes \<Rightarrow> nat \<Rightarrow> nat option" where
  "find_name_end_from data pos =
     (if length data \<le> pos then None
      else let len = data ! pos in
        if len AND 0xC0 = 0xC0 then Some (pos + 2)
        else if len = 0 then Some (pos + 1)
        else let pos' = pos + (unat len + 1) in
          if 255 < pos' then None else find_name_end_from data pos')"
  by pat_completeness auto
termination
  by (relation "measure (\<lambda>(data, pos). length data - pos)") auto

definition find_name_end :: "bytes \<Rightarrow> nat option" where
  "find_name_end data = find_name_end_from data 0"

definition parse_question :: "zc_message \<Rightarrow> zc_question option result" where
  "parse_question z =
     (if zc_qdcount z = 0 \<or> length (zc_raw z) < 17 then Inr None
      else andthen (slice (zc_raw z) 12 (length (zc_raw z))) (\<lambda>data.
        case find_name_end data of
          None \<Rightarrow> Inr None
        | Some name_end \<Rightarrow>
            if length data < name_end + 4 then Inr None
            else
              andthen (index data name_end) (\<lambda>t0.
              andthen (index data (name_end + 1)) (\<lambda>t1.
              andthen (index data (name_end + 2)) (\<lambda>c0.
              andthen (index data (name_end + 3)) (\<lambda>c1.
                Inr (Some \<lparr>zq_data = data, zq_name_end = name_end,
                           zq_qtype = from_be [t0, t1], zq_qclass = from_be [c0, c1]\<rparr>)))))))"

definition zq_name_bytes :: "zc_question \<Rightarrow> bytes result" where
  "zq_name_bytes q = slice (zq_data q) 0 (zq_name_end q)"

section \<open>Invariant\<close>

text \<open>The fields agree with the bytes; every constructor establishes it, and
  nothing else builds a message (the fields are private).\<close>

definition zc_ok :: "zc_message \<Rightarrow> bool" where
  "zc_ok z \<longleftrightarrow> 12 \<le> length (zc_raw z)
     \<and> zc_id z = from_be [zc_raw z ! 0, zc_raw z ! 1]
     \<and> zc_flags z = from_be [zc_raw z ! 2, zc_raw z ! 3]
     \<and> zc_qdcount z = from_be [zc_raw z ! 4, zc_raw z ! 5]
     \<and> zc_ancount z = from_be [zc_raw z ! 6, zc_raw z ! 7]"

lemma zc_from_bytes_Inr:
  "zc_from_bytes data = Inr z \<longleftrightarrow> 12 \<le> length data \<and>
     z = \<lparr>zc_raw = data, zc_parsed = None,
          zc_id = from_be [data ! 0, data ! 1], zc_flags = from_be [data ! 2, data ! 3],
          zc_qdcount = from_be [data ! 4, data ! 5], zc_ancount = from_be [data ! 6, data ! 7]\<rparr>"
  by (auto simp: zc_from_bytes_def)

lemma zc_from_bytes_ok: "zc_from_bytes data = Inr z \<Longrightarrow> zc_ok z \<and> zc_raw z = data"
  by (auto simp: zc_from_bytes_Inr zc_ok_def)

lemma id_bytes: "[ucast (drop_bit 8 i), ucast (i AND 0xFF)] = be_bytes 2 (i :: u16)"
proof -
  have "(ucast (i AND 0xFF) :: u8) = ucast i"
    by (rule bit_word_eqI) (auto simp: bit_simps bit_numeral_rec numeral_eq_Suc less_Suc_eq)
  then show ?thesis by (simp add: be_bytes_2)
qed

lemma zc_with_id_ok:
  assumes "zc_ok z"
  shows "\<exists>z'. zc_with_id i z = Inr z' \<and> zc_ok z' \<and> zc_id z' = i
     \<and> take 2 (zc_raw z') = be_bytes 2 i \<and> drop 2 (zc_raw z') = drop 2 (zc_raw z)
     \<and> length (zc_raw z') = length (zc_raw z)"
proof -
  have l: "12 \<le> length (zc_raw z)" using assms by (simp add: zc_ok_def)
  have two: "from_be [ucast (drop_bit 8 i), ucast (i AND 0xFF)] = i"
    unfolding id_bytes by simp
  have "0 < length (zc_raw z)" "Suc 0 < length (zc_raw z)" using l by linarith+
  then show ?thesis
    using assms l two
    by (auto simp: zc_with_id_def zc_ok_def nth_list_update take_2_nth id_bytes [symmetric])
qed

text \<open>Patching the ID of a well-formed raw message never panics; the result
  is well formed, starts with the two bytes of the new ID and differs from the
  old message in those two bytes only.\<close>

theorem zc_with_id_patches_id_only:
  assumes "zc_from_bytes data = Inr z"
  shows "\<exists>z'. zc_with_id i z = Inr z' \<and> zc_ok z' \<and> zc_id z' = i
     \<and> zc_raw z' = be_bytes 2 i @ drop 2 data \<and> zc_rcode z' = zc_rcode z"
proof -
  from assms have ok: "zc_ok z" "zc_raw z = data"
    by (auto dest: zc_from_bytes_ok)
  from zc_with_id_ok [OF ok(1), of i] obtain z' where z': "zc_with_id i z = Inr z'" "zc_ok z'"
    "zc_id z' = i" "take 2 (zc_raw z') = be_bytes 2 i" "drop 2 (zc_raw z') = drop 2 data"
    using ok(2) by auto
  have "zc_raw z' = be_bytes 2 i @ drop 2 data"
    using z'(4,5) by (metis append_take_drop_id)
  moreover have "zc_rcode z' = zc_rcode z"
    using z'(1) by (auto simp: zc_with_id_def zc_rcode_def split: if_splits)
  ultimately show ?thesis using z' by blast
qed

text \<open>The witness: a twelve-byte header with ID 0x1234 patched to 0xABCD.\<close>

theorem zc_with_id_patches_id_only_witness:
  "\<exists>z. zc_from_bytes [0x12, 0x34, 1, 0, 0, 1, 0, 0, 0, 0, 0, 0] = Inr z \<and>
     (\<exists>z'. zc_with_id 0xABCD z = Inr z' \<and> zc_ok z' \<and> zc_id z' = 0xABCD
      \<and> zc_raw z' = be_bytes 2 (0xABCD :: u16) @ [1, 0, 0, 1, 0, 0, 0, 0, 0, 0] \<and> zc_rcode z' = zc_rcode z)"
proof -
  let ?d = "[0x12, 0x34, 1, 0, 0, 1, 0, 0, 0, 0, 0, 0] :: bytes"
  obtain z where z: "zc_from_bytes ?d = Inr z" by (simp add: zc_from_bytes_def)
  from zc_with_id_patches_id_only [OF z, of "0xABCD"] z show ?thesis by auto
qed

section \<open>Correctness of the question parser\<close>

declare find_name_end_from.simps [simp del]

lemma find_name_end_from_bounds:
  "find_name_end_from data pos = Some e \<Longrightarrow> pos \<le> 255 \<Longrightarrow> pos < e \<and> e \<le> 257"
proof (induction data pos rule: find_name_end_from.induct)
  case (1 data pos)
  show ?case
    using "1.prems" "1.IH" [OF _ refl]
    by (subst (asm) find_name_end_from.simps)
       (fastforce simp: Let_def split: if_splits)
qed

text \<open>C4: The question parser is total: on any message, whatever its bytes, it
  does not index or slice out of range; when it returns a question, the name
  and the four octets after it lie inside the packet, and reading the name
  back does not panic either.\<close>

theorem parse_question_in_bounds:
  "\<exists>r. parse_question z = Inr r \<and>
     (case r of None \<Rightarrow> True
      | Some q \<Rightarrow> zq_name_end q \<le> 257 \<and> 12 + zq_name_end q + 4 \<le> length (zc_raw z)
          \<and> zq_name_bytes q = Inr (take (zq_name_end q) (drop 12 (zc_raw z))))"
proof (cases "zc_qdcount z = 0 \<or> length (zc_raw z) < 17")
  case True
  then show ?thesis by (auto simp: parse_question_def)
next
  case False
  then have s: "slice (zc_raw z) 12 (length (zc_raw z)) = Inr (drop 12 (zc_raw z))"
    by simp
  show ?thesis
  proof (cases "find_name_end (drop 12 (zc_raw z))")
    case None
    with False s show ?thesis by (simp add: parse_question_def)
  next
    case (Some e)
    then have "e \<le> 257"
      by (auto simp: find_name_end_def dest: find_name_end_from_bounds)
    with False s Some show ?thesis
      by (auto simp: parse_question_def zq_name_bytes_def)
  qed
qed

text \<open>A name in wire form (RFC 1035, 3.1), and the parser on it.\<close>

definition wire_labels :: "bytes list \<Rightarrow> bytes" where
  "wire_labels ls = concat (map (\<lambda>l. of_nat (length l) # l) ls)"

definition wire_name :: "bytes list \<Rightarrow> bytes" where
  "wire_name ls = wire_labels ls @ [0]"

lemma not_pointer: "unat (b :: u8) < 192 \<Longrightarrow> b AND 0xC0 \<noteq> 0xC0"
proof
  assume "unat b < 192" and "b AND 0xC0 = 0xC0"
  from this(2) have "(0xC0 :: u8) \<le> b" by (metis word_and_le2)
  with \<open>unat b < 192\<close> show False by (simp add: word_le_nat_alt)
qed

lemma find_name_end_labels:
  assumes "\<forall>l \<in> set ls. 0 < length l \<and> length l < 64"
    and "length pre + length (wire_labels ls) \<le> 255"
  shows "find_name_end_from (pre @ wire_labels ls @ 0 # rest) (length pre)
         = Some (length pre + length (wire_labels ls) + 1)"
  using assms
proof (induction ls arbitrary: pre)
  case Nil
  then show ?case
    by (subst find_name_end_from.simps) (simp add: wire_labels_def nth_append)
next
  case (Cons l ls)
  let ?b = "of_nat (length l) :: u8"
  have ub: "unat ?b = length l" using Cons.prems(1) by (simp add: unat_of_nat)
  then have nz: "?b \<noteq> 0" using Cons.prems(1) by (metis length_greater_0_conv list.set_intros(1) unat_0 less_numeral_extra(3))
  have np: "?b AND 0xC0 \<noteq> 0xC0" using Cons.prems(1) ub by (intro not_pointer) simp
  have split: "pre @ wire_labels (l # ls) @ 0 # rest
      = (pre @ ?b # l) @ wire_labels ls @ 0 # rest"
    by (simp add: wire_labels_def)
  have at: "(pre @ wire_labels (l # ls) @ 0 # rest) ! length pre = ?b"
    by (simp add: wire_labels_def nth_append)
  have len: "length pre + (length l + 1) + length (wire_labels ls) \<le> 255"
    using Cons.prems(2) by (simp add: wire_labels_def)
  have "find_name_end_from (pre @ wire_labels (l # ls) @ 0 # rest) (length pre)
      = find_name_end_from ((pre @ ?b # l) @ wire_labels ls @ 0 # rest) (length (pre @ ?b # l))"
    using nz np at ub len
    by (subst find_name_end_from.simps) (simp add: Let_def split)
  also have "\<dots> = Some (length (pre @ ?b # l) + length (wire_labels ls) + 1)"
    using Cons.prems(1) len by (intro Cons.IH) simp_all
  finally show ?case by (simp add: wire_labels_def)
qed

lemma find_name_end_wire:
  assumes "\<forall>l \<in> set ls. 0 < length l \<and> length l < 64" and "length (wire_name ls) \<le> 256"
  shows "find_name_end (wire_name ls @ rest) = Some (length (wire_name ls))"
  using find_name_end_labels [of ls "[]" rest] assms
  by (simp add: find_name_end_def wire_name_def)

text \<open>C3: On a packet that holds an encoded question the parser returns exactly
  that question: the name octets, the type and the class.\<close>

theorem parse_question_correct:
  assumes hdr: "length hdr = 12" and raw: "zc_raw z = hdr @ wire_name ls @ be_bytes 2 t @ be_bytes 2 c @ rest"
    and qd: "zc_qdcount z \<noteq> 0"
    and ls: "\<forall>l \<in> set ls. 0 < length l \<and> length l < 64" and len: "length (wire_name ls) \<le> 256"
  shows "\<exists>q. parse_question z = Inr (Some q) \<and> zq_qtype q = t \<and> zq_qclass q = c
      \<and> zq_name_bytes q = Inr (wire_name ls)"
proof -
  define D where "D = drop 12 (zc_raw z)"
  let ?n = "length (wire_name ls)"
  have n1: "1 \<le> ?n" by (simp add: wire_name_def)
  have d: "D = wire_name ls @ be_bytes 2 t @ be_bytes 2 c @ rest"
    using hdr raw by (simp add: D_def)
  have l: "17 \<le> length (zc_raw z)" using hdr raw n1 by simp
  then have s: "slice (zc_raw z) 12 (length (zc_raw z)) = Inr D" by (simp add: D_def)
  have e: "find_name_end D = Some ?n"
    unfolding d using find_name_end_wire [OF ls len] by simp
  have nth: "D ! (?n + k) = (be_bytes 2 t @ be_bytes 2 c @ rest) ! k" for k
    unfolding d by (simp add: nth_append)
  have t: "from_be [D ! ?n, D ! (?n + 1)] = t"
    using nth [of 0] nth [of 1] from_be_be_bytes [of 2 t] by (simp add: be_bytes_2)
  have c: "from_be [D ! (?n + 2), D ! (?n + 3)] = c"
    using nth [of 2] nth [of 3] from_be_be_bytes [of 2 c] by (simp add: be_bytes_2)
  have enough: "?n + 4 \<le> length D" unfolding d by simp
  have name: "slice D 0 ?n = Inr (wire_name ls)" unfolding d by simp
  show ?thesis
    using qd l s e t c enough name
    by (simp add: parse_question_def zq_name_bytes_def del: slice_in_range)
qed

theorem parse_question_correct_witness:
  "\<exists>z. zc_from_bytes ([0, 7, 1, 0, 0, 1, 0, 0, 0, 0, 0, 0] @ wire_name [[97], [98, 99]]
        @ be_bytes 2 (28 :: u16) @ be_bytes 2 (1 :: u16) @ []) = Inr z \<and>
     (\<exists>q. parse_question z = Inr (Some q) \<and> zq_qtype q = 28 \<and> zq_qclass q = 1
        \<and> zq_name_bytes q = Inr (wire_name [[97], [98, 99]]))"
proof -
  let ?hdr = "[0, 7, 1, 0, 0, 1, 0, 0, 0, 0, 0, 0] :: bytes"
  let ?ls = "[[97], [98, 99]] :: bytes list"
  let ?d = "?hdr @ wire_name ?ls @ be_bytes 2 (28 :: u16) @ be_bytes 2 (1 :: u16) @ []"
  obtain z where z: "zc_from_bytes ?d = Inr z" by (simp add: zc_from_bytes_def)
  then have raw: "zc_raw z = ?d" and qd: "zc_qdcount z \<noteq> 0"
    by (auto simp: zc_from_bytes_Inr byte_simps)
  have "\<exists>q. parse_question z = Inr (Some q) \<and> zq_qtype q = 28 \<and> zq_qclass q = 1
      \<and> zq_name_bytes q = Inr (wire_name ?ls)"
    by (rule parse_question_correct [OF _ raw qd]) (simp_all add: wire_name_def wire_labels_def)
  with z show ?thesis by blast
qed

end
