(* ===== verification/Dns_Context.thy ===== *)
theory Dns_Context
  imports Zero_Copy
begin

text \<open>
  \<open>src/core/context.rs\<close>: the packet context that flows through the plugin
  pipeline.  The type of hooks is a parameter, because the plugins that become
  hooks are themselves defined over contexts.

  The four cells at the end are \<open>OnceCell\<close>s.  A read (\<open>qname_ref\<close>, \<open>qtype\<close>, ...)
  returns the cell's value, or computes it when the cell is empty; the write of
  a computed value into its cell is \<open>precompute\<close>, which the server runs before
  the first plugin.  \<open>cells_ok\<close> says that filled cells hold the computed
  values, and the lemmas show that filling them changes no read.
\<close>

record 'h ctx =
  client_addr :: sock_addr
  request :: message
  raw_request :: "zc_message option"
  response :: "message option"
  raw_response :: "zc_message option"
  tags :: "string set"
  ctx_abort :: bool
  ctx_min_ttl :: u32
  start_ts :: nat
  post_process_hooks :: "'h list"
  qname_cache :: "string option"
  qname_lower :: "string option"
  qname_parts :: "(nat \<times> nat) list option"
  qtype_cache :: "u16 option"

section \<open>Construction\<close>

definition ctx_new :: "message \<Rightarrow> sock_addr \<Rightarrow> nat \<Rightarrow> 'h ctx" where
  "ctx_new req addr now =
     \<lparr>client_addr = addr, request = req, raw_request = None, response = None,
      raw_response = None, tags = {}, ctx_abort = False, ctx_min_ttl = 0,
      start_ts = now, post_process_hooks = [], qname_cache = None,
      qname_lower = None, qname_parts = None, qtype_cache = None\<rparr>"

definition ctx_from_bytes :: "dns_lib \<Rightarrow> bytes \<Rightarrow> sock_addr \<Rightarrow> nat \<Rightarrow> 'h ctx result" where
  "ctx_from_bytes L data addr now =
     andthen (zc_from_bytes data) (\<lambda>zc_msg.
       case lib_from_vec L data of
         None \<Rightarrow> Inl (Error ''parse'')
       | Some req \<Rightarrow> Inr ((ctx_new req addr now)\<lparr>raw_request := Some zc_msg\<rparr>))"

section \<open>Cached reads of the question\<close>

definition compute_qname :: "message \<Rightarrow> string" where
  "compute_qname req = (case msg_query req of Some q \<Rightarrow> q_name q | None \<Rightarrow> ''.'')"

definition qname_ref :: "'h ctx \<Rightarrow> string" where
  "qname_ref c = (case qname_cache c of Some s \<Rightarrow> s | None \<Rightarrow> compute_qname (request c))"

definition qname_lower_ref :: "'h ctx \<Rightarrow> string" where
  "qname_lower_ref c = (case qname_lower c of
       Some s \<Rightarrow> s
     | None \<Rightarrow> (let name = qname_ref c in if list_ex is_upper name then to_lower name else name))"

text \<open>The loop over the bytes of the lower-case name: \<open>i\<close> is the index of the
  first byte of the list, \<open>start\<close> the start of the current label.\<close>

fun label_ranges_from :: "string \<Rightarrow> nat \<Rightarrow> nat \<Rightarrow> (nat \<times> nat) list" where
  "label_ranges_from [] i start = (if start < i then [(start, i)] else [])"
| "label_ranges_from (b # bs) i start =
     (if b = CHR ''.''
      then (if start < i then [(start, i)] else []) @ label_ranges_from bs (i + 1) (i + 1)
      else label_ranges_from bs (i + 1) start)"

definition label_ranges :: "string \<Rightarrow> (nat \<times> nat) list" where
  "label_ranges s = label_ranges_from s 0 0"

definition qname_parts_ranges :: "'h ctx \<Rightarrow> (nat \<times> nat) list" where
  "qname_parts_ranges c = (case qname_parts c of
       Some rs \<Rightarrow> rs | None \<Rightarrow> label_ranges (qname_lower_ref c))"

text \<open>The iterator yields the slices of the lower-case name, in order.\<close>

fun slices :: "string \<Rightarrow> (nat \<times> nat) list \<Rightarrow> string list result" where
  "slices s [] = Inr []"
| "slices s ((a, b) # rs) =
     andthen (slice s a b) (\<lambda>p. andthen (slices s rs) (\<lambda>ps. Inr (p # ps)))"

definition qname_parts_iter :: "'h ctx \<Rightarrow> string list result" where
  "qname_parts_iter c = slices (qname_lower_ref c) (qname_parts_ranges c)"

definition compute_qtype :: "message \<Rightarrow> u16" where
  "compute_qtype req = (case msg_query req of Some q \<Rightarrow> q_type q | None \<Rightarrow> T_NULL)"

definition qtype :: "'h ctx \<Rightarrow> u16" where
  "qtype c = (case qtype_cache c of Some t \<Rightarrow> t | None \<Rightarrow> compute_qtype (request c))"

definition precompute :: "'h ctx \<Rightarrow> 'h ctx" where
  "precompute c =
     c\<lparr>qname_cache := Some (qname_ref c),
       qname_lower := Some (qname_lower_ref c),
       qname_parts := Some (qname_parts_ranges c),
       qtype_cache := Some (qtype c)\<rparr>"

definition request_bytes :: "'h ctx \<Rightarrow> bytes option" where
  "request_bytes c = map_option zc_raw (raw_request c)"

section \<open>Tags\<close>

text \<open>The global intern table returns a shared copy of the tag's text.\<close>

definition intern_tag :: "(string \<rightharpoonup> string) \<Rightarrow> string \<Rightarrow> string \<times> (string \<rightharpoonup> string)" where
  "intern_tag tbl tag =
     (case tbl tag of Some existing \<Rightarrow> (existing, tbl) | None \<Rightarrow> (tag, tbl(tag \<mapsto> tag)))"

definition has_tag :: "string \<Rightarrow> 'h ctx \<Rightarrow> bool" where
  "has_tag tag c = (tag \<in> tags c)"

definition add_tag :: "string \<Rightarrow> 'h ctx \<Rightarrow> 'h ctx" where
  "add_tag tag c = c\<lparr>tags := insert tag (tags c)\<rparr>"

definition intern_ok :: "(string \<rightharpoonup> string) \<Rightarrow> bool" where
  "intern_ok tbl \<longleftrightarrow> (\<forall>k v. tbl k = Some v \<longrightarrow> v = k)"

lemma intern_tag_text:
  "intern_ok tbl \<Longrightarrow> fst (intern_tag tbl tag) = tag \<and> intern_ok (snd (intern_tag tbl tag))"
  by (auto simp: intern_tag_def intern_ok_def split: option.splits)

section \<open>Responses\<close>

definition raise_ttl :: "u32 \<Rightarrow> rr \<Rightarrow> rr" where
  "raise_ttl m r = (if rr_ttl r < m then r\<lparr>rr_ttl := m\<rparr> else r)"

definition set_response :: "message \<Rightarrow> bool \<Rightarrow> 'h ctx \<Rightarrow> 'h ctx" where
  "set_response msg stop_sequence c =
     (let msg = (if 0 < ctx_min_ttl c
                 then msg\<lparr>m_answers := map (raise_ttl (ctx_min_ttl c)) (m_answers msg)\<rparr> else msg);
          msg = msg\<lparr>m_id := m_id (request c)\<rparr>;
          c = c\<lparr>response := Some msg, raw_response := None\<rparr>
      in if stop_sequence then c\<lparr>ctx_abort := True\<rparr> else c)"

definition set_raw_response :: "zc_message \<Rightarrow> bool \<Rightarrow> 'h ctx \<Rightarrow> 'h ctx result" where
  "set_raw_response raw stop_sequence c =
     andthen (zc_with_id (m_id (request c)) raw) (\<lambda>raw.
       let c = c\<lparr>raw_response := Some raw, response := None\<rparr>
       in Inr (if stop_sequence then c\<lparr>ctx_abort := True\<rparr> else c))"

definition response_bytes :: "dns_lib \<Rightarrow> 'h ctx \<Rightarrow> bytes option" where
  "response_bytes L c =
     (case raw_response c of
        Some raw \<Rightarrow> Some (zc_raw raw)
      | None \<Rightarrow> (case response c of Some resp \<Rightarrow> lib_to_vec L resp | None \<Rightarrow> None))"

definition has_response :: "'h ctx \<Rightarrow> bool" where
  "has_response c = (response c \<noteq> None \<or> raw_response c \<noteq> None)"

definition rcode_to_string :: "u8 \<Rightarrow> string" where
  "rcode_to_string rcode =
     (if rcode = 0 then ''NOERROR'' else if rcode = 1 then ''FORMERR''
      else if rcode = 2 then ''SERVFAIL'' else if rcode = 3 then ''NXDOMAIN''
      else if rcode = 4 then ''NOTIMP'' else if rcode = 5 then ''REFUSED''
      else if rcode = 6 then ''YXDOMAIN'' else if rcode = 7 then ''YXRRSET''
      else if rcode = 8 then ''NXRRSET'' else if rcode = 9 then ''NOTAUTH''
      else if rcode = 10 then ''NOTZONE'' else if rcode = 11 then ''DSOTYPENI''
      else if rcode = 16 then ''BADVERS'' else if rcode = 17 then ''BADKEY''
      else if rcode = 18 then ''BADTIME'' else if rcode = 19 then ''BADMODE''
      else if rcode = 20 then ''BADNAME'' else if rcode = 21 then ''BADALG''
      else if rcode = 22 then ''BADTRUNC'' else if rcode = 23 then ''BADCOOKIE''
      else ''UNKNOWN'')"

text \<open>\<open>rcode_str\<close> is the crate's \<open>Display\<close> of a response code.\<close>

definition get_rcode_as_string :: "(u16 \<Rightarrow> string) \<Rightarrow> 'h ctx \<Rightarrow> string" where
  "get_rcode_as_string rcode_str c =
     (case response c of
        Some resp \<Rightarrow> rcode_str (m_rcode resp)
      | None \<Rightarrow> (case raw_response c of
          Some raw \<Rightarrow> rcode_to_string (zc_rcode raw)
        | None \<Rightarrow> ''NO_RES''))"

section \<open>The cells are transparent\<close>

definition cells_ok :: "'h ctx \<Rightarrow> bool" where
  "cells_ok c \<longleftrightarrow>
     qname_cache c \<in> {None, Some (compute_qname (request c))}
   \<and> qname_lower c \<in> {None, Some (to_lower (compute_qname (request c)))}
   \<and> qname_parts c \<in> {None, Some (label_ranges (to_lower (compute_qname (request c))))}
   \<and> qtype_cache c \<in> {None, Some (compute_qtype (request c))}"

lemma cells_ok_new [simp]: "cells_ok (ctx_new req addr now)"
  by (simp add: cells_ok_def ctx_new_def)

lemma cells_reads:
  assumes "cells_ok c"
  shows "qname_ref c = compute_qname (request c)"
    and "qname_lower_ref c = to_lower (compute_qname (request c))"
    and "qname_parts_ranges c = label_ranges (to_lower (compute_qname (request c)))"
    and "qtype c = compute_qtype (request c)"
  using assms
  by (auto simp: cells_ok_def qname_ref_def qname_lower_ref_def qname_parts_ranges_def
      qtype_def Let_def to_lower_id split: option.splits)

lemma precompute_ok:
  assumes "cells_ok c"
  shows "cells_ok (precompute c)"
  by (simp add: cells_ok_def precompute_def cells_reads [OF assms])

lemma precompute_reads [simp]:
  "qname_ref (precompute c) = qname_ref c"
  "qname_lower_ref (precompute c) = qname_lower_ref c"
  "qname_parts_ranges (precompute c) = qname_parts_ranges c"
  "qtype (precompute c) = qtype c"
  "request (precompute c) = request c"
  by (simp_all add: precompute_def qname_ref_def qname_lower_ref_def qname_parts_ranges_def qtype_def)

lemma precompute_idem [simp]: "precompute (precompute c) = precompute c"
proof -
  have "precompute (precompute c) =
      (precompute c)\<lparr>qname_cache := Some (qname_ref c), qname_lower := Some (qname_lower_ref c),
        qname_parts := Some (qname_parts_ranges c), qtype_cache := Some (qtype c)\<rparr>"
    by (subst precompute_def) simp
  also have "\<dots> = precompute c" by (simp add: precompute_def)
  finally show ?thesis .
qed

text \<open>Writes to the other fields keep the cells.\<close>

lemma cells_ok_set_response [simp]:
  "cells_ok (set_response m b c) = cells_ok c" "cells_ok (add_tag t c) = cells_ok c"
  by (simp_all add: cells_ok_def set_response_def add_tag_def Let_def)

section \<open>Label ranges\<close>

lemma slices_append:
  "slices s (xs @ ys) = andthen (slices s xs) (\<lambda>ps. andthen (slices s ys) (\<lambda>qs. Inr (ps @ qs)))"
proof (induction xs)
  case Nil
  show ?case by (cases "slices s ys") auto
next
  case (Cons r rs)
  show ?case
  proof (cases r)
    case (Pair a b)
    then show ?thesis
      using Cons.IH
      by (cases "slice s a b"; cases "slices s rs"; cases "slices s ys") auto
  qed
qed

lemma slices_label_ranges_from:
  assumes "CHR ''.'' \<notin> set cur"
  shows "slices (pre @ cur @ bs) (label_ranges_from bs (length pre + length cur) (length pre))
     = Inr (filter (\<lambda>p. p \<noteq> []) (split_on CHR ''.'' (cur @ bs)))"
  using assms
proof (induction bs arbitrary: pre cur)
  case Nil
  then show ?case by (simp add: split_on_no_sep)
next
  case (Cons b bs)
  show ?case
  proof (cases "b = CHR ''.''")
    case True
    from Cons.IH [of "[]" "pre @ cur @ [b]"]
    have "slices (pre @ cur @ b # bs) (label_ranges_from bs (Suc (length pre + length cur))
            (Suc (length pre + length cur)))
        = Inr (filter (\<lambda>p. p \<noteq> []) (split_on CHR ''.'' bs))" by simp
    then show ?thesis
      using Cons.prems True
      by (cases cur) (auto simp: slices_append split_on_append_sep)
  next
    case False
    with Cons.prems have "CHR ''.'' \<notin> set (cur @ [b])" by simp
    from Cons.IH [OF this, of pre] False show ?thesis by simp
  qed
qed

lemma slices_label_ranges:
  "slices s (label_ranges s) = Inr (filter (\<lambda>p. p \<noteq> []) (split_on CHR ''.'' s))"
  using slices_label_ranges_from [of "[]" "[]" s] by (simp add: label_ranges_def)

text \<open>The precomputed label ranges are in range: iterating over them never
  panics and yields exactly the non-empty labels of the lower-case name of the
  first question, from left to right.\<close>

lemma qname_parts_iter_labels:
  "cells_ok c \<Longrightarrow> qname_parts_iter c =
     Inr (filter (\<lambda>p. p \<noteq> []) (split_on CHR ''.'' (to_lower (compute_qname (request c)))))"
  by (simp add: qname_parts_iter_def cells_reads slices_label_ranges)

theorem qname_parts_iter_labels_witness:
  "qname_parts_iter (precompute (ctx_new
      (sample_msg\<lparr>m_queries := [\<lparr>q_name = ''Www..QQ.com.'', q_type = 1, q_class = 1\<rparr>]\<rparr>) (V4 1, 53) 0)
      :: unit ctx) = Inr [''www'', ''qq'', ''com'']"
proof -
  let ?c = "precompute (ctx_new
      (sample_msg\<lparr>m_queries := [\<lparr>q_name = ''Www..QQ.com.'', q_type = 1, q_class = 1\<rparr>]\<rparr>) (V4 1, 53) 0) :: unit ctx"
  have ok: "cells_ok ?c" by (rule precompute_ok) simp
  have q: "compute_qname (request ?c) = ''Www..QQ.com.''"
    by (simp add: ctx_new_def compute_qname_def)
  have "filter (\<lambda>p. p \<noteq> []) (split_on CHR ''.'' (to_lower ''Www..QQ.com.'')) = [''www'', ''qq'', ''com'']"
    by code_simp
  with qname_parts_iter_labels [OF ok] q show ?thesis by (simp only:)
qed

section \<open>Replies carry the ID of the request\<close>

text \<open>The contract between the plugins and the server: whatever reply a context
  holds, parsed or raw, answers the request's ID.\<close>

definition reply_ok :: "'h ctx \<Rightarrow> bool" where
  "reply_ok c \<longleftrightarrow>
     (\<forall>m. response c = Some m \<longrightarrow> m_id m = m_id (request c))
   \<and> (\<forall>z. raw_response c = Some z \<longrightarrow> zc_ok z \<and> zc_id z = m_id (request c)
        \<and> take 2 (zc_raw z) = be_bytes 2 (m_id (request c)))"

lemma reply_ok_new [simp]: "reply_ok (ctx_new req addr now)"
  by (simp add: reply_ok_def ctx_new_def)

lemma reply_ok_no_response:
  "response c = None \<Longrightarrow> raw_response c = None \<Longrightarrow> reply_ok c"
  by (simp add: reply_ok_def)

lemma set_response_fields [simp]:
  "request (set_response m b c) = request c"
  "raw_response (set_response m b c) = None"
  "tags (set_response m b c) = tags c"
  "client_addr (set_response m b c) = client_addr c"
  "post_process_hooks (set_response m b c) = post_process_hooks c"
  "ctx_min_ttl (set_response m b c) = ctx_min_ttl c"
  "ctx_abort (set_response m b c) = (b \<or> ctx_abort c)"
  "response (set_response m b c) = Some ((if 0 < ctx_min_ttl c
      then m\<lparr>m_answers := map (raise_ttl (ctx_min_ttl c)) (m_answers m)\<rparr> else m)\<lparr>m_id := m_id (request c)\<rparr>)"
  by (simp_all add: set_response_def Let_def)

lemma add_tag_fields [simp]:
  "request (add_tag t c) = request c"
  "response (add_tag t c) = response c"
  "raw_response (add_tag t c) = raw_response c"
  "ctx_abort (add_tag t c) = ctx_abort c"
  "post_process_hooks (add_tag t c) = post_process_hooks c"
  "client_addr (add_tag t c) = client_addr c"
  "ctx_min_ttl (add_tag t c) = ctx_min_ttl c"
  "tags (add_tag t c) = insert t (tags c)"
  by (simp_all add: add_tag_def)

lemma set_response_reply_ok [simp]: "reply_ok (set_response m b c)"
  by (simp add: reply_ok_def)

lemma add_tag_reply_ok [simp]: "reply_ok (add_tag t c) = reply_ok c"
  by (simp add: reply_ok_def)

lemma reply_ok_put:
  "reply_ok c \<Longrightarrow> m_id m = m_id (request c) \<Longrightarrow> reply_ok (c\<lparr>response := Some m\<rparr>)"
  by (simp add: reply_ok_def)

lemma reply_ok_response:
  "reply_ok c \<Longrightarrow> response c = Some m \<Longrightarrow> m_id m = m_id (request c)"
  by (simp add: reply_ok_def)

lemma set_raw_response_total:
  assumes "zc_ok z"
  shows "\<exists>c'. set_raw_response z b c = Inr c' \<and> reply_ok c' \<and> request c' = request c
     \<and> (\<exists>z'. raw_response c' = Some z' \<and> zc_raw z' = be_bytes 2 (m_id (request c)) @ drop 2 (zc_raw z))
     \<and> response c' = None \<and> ctx_abort c' = (b \<or> ctx_abort c)
     \<and> tags c' = tags c \<and> post_process_hooks c' = post_process_hooks c"
proof -
  from zc_with_id_ok [OF assms, of "m_id (request c)"]
  obtain z' where z': "zc_with_id (m_id (request c)) z = Inr z'" "zc_ok z'"
    "zc_id z' = m_id (request c)" "take 2 (zc_raw z') = be_bytes 2 (m_id (request c))"
    "drop 2 (zc_raw z') = drop 2 (zc_raw z)" by blast
  have "zc_raw z' = be_bytes 2 (m_id (request c)) @ drop 2 (zc_raw z)"
    using z'(4,5) by (metis append_take_drop_id)
  with z' show ?thesis
    by (auto simp: set_raw_response_def Let_def reply_ok_def)
qed

text \<open>Whatever a plugin answers, through \<open>set_response\<close> or through
  \<open>set_raw_response\<close>, the bytes that leave the server start with the ID of
  the request, as a UDP client requires.\<close>

lemma response_bytes_id:
  assumes "reply_ok c" and "serial_header L" and "response_bytes L c = Some bs"
  shows "take 2 bs = be_bytes 2 (m_id (request c)) \<and> 12 \<le> length bs"
proof (cases "raw_response c")
  case (Some z)
  with assms(1,3) show ?thesis by (auto simp: reply_ok_def response_bytes_def zc_ok_def)
next
  case None
  with assms(3) obtain m where m: "response c = Some m" "lib_to_vec L m = Some bs"
    by (auto simp: response_bytes_def split: option.splits)
  with assms(1,2) show ?thesis by (simp add: reply_ok_def serial_header_def)
qed

text \<open>\<open>set_response\<close> enforces the context's minimum TTL: no answer of the
  stored response is below it, TTLs above it are kept, and the records are
  otherwise unchanged and in order.\<close>

theorem set_response_min_ttl:
  assumes "response (set_response m b c) = Some m'"
  shows "map rr_ttl (m_answers m') = map (\<lambda>r. max (rr_ttl r) (ctx_min_ttl c)) (m_answers m)
     \<and> map rr_data (m_answers m') = map rr_data (m_answers m)
     \<and> m_rcode m' = m_rcode m \<and> m_queries m' = m_queries m"
proof (cases "0 < ctx_min_ttl c")
  case True
  have "rr_ttl (raise_ttl t r) = max (rr_ttl r) t" "rr_data (raise_ttl t r) = rr_data r" for t r
    by (auto simp: raise_ttl_def)
  with True assms show ?thesis by auto
next
  case False
  then have "ctx_min_ttl c = 0" by (simp add: word_greater_zero_iff)
  with assms show ?thesis by (auto simp: max_def)
qed

section \<open>What plugins keep of a query\<close>

text \<open>The part of a context that identifies the query: the client, the ID and the
  questions of the request, and the cells that cache reads of them.\<close>

definition query_ident ::
  "'h ctx \<Rightarrow> sock_addr \<times> u16 \<times> query list \<times> string option \<times> string option \<times> (nat \<times> nat) list option \<times> u16 option" where
  "query_ident c = (client_addr c, m_id (request c), m_queries (request c), qname_cache c, qname_lower c,
     qname_parts c, qtype_cache c)"

lemma query_ident_writes [simp]:
  "query_ident (set_response m b c) = query_ident c"
  "query_ident (add_tag t c) = query_ident c"
  "query_ident (c\<lparr>response := r\<rparr>) = query_ident c"
  by (simp_all add: query_ident_def set_response_def add_tag_def Let_def)

lemma query_ident_id: "query_ident c' = query_ident c \<Longrightarrow> m_id (request c') = m_id (request c)"
  by (simp add: query_ident_def)

lemma query_ident_cells: "query_ident c' = query_ident c \<Longrightarrow> cells_ok c' = cells_ok c"
  by (simp add: query_ident_def cells_ok_def compute_qname_def compute_qtype_def msg_query_def)

lemma set_raw_response_ident:
  "set_raw_response z b c = Inr c' \<Longrightarrow> query_ident c' = query_ident c"
  by (auto simp: set_raw_response_def andthen_eq_Inr query_ident_def Let_def)

theorem set_response_min_ttl_witness:
  "\<exists>m'. response (set_response (sample_msg\<lparr>m_answers := [from_rdata ''a.'' 5 (RD_A 1), from_rdata ''a.'' 900 (RD_A 2)]\<rparr>)
        True ((ctx_new sample_msg (V4 1, 53) 0)\<lparr>ctx_min_ttl := 60\<rparr>) :: unit ctx) = Some m'
     \<and> map rr_ttl (m_answers m') = [60, 900]"
proof -
  let ?m = "sample_msg\<lparr>m_answers := [from_rdata ''a.'' 5 (RD_A 1), from_rdata ''a.'' 900 (RD_A 2)]\<rparr>"
  let ?c = "(ctx_new sample_msg (V4 1, 53) 0)\<lparr>ctx_min_ttl := 60\<rparr> :: unit ctx"
  obtain m' where m': "response (set_response ?m True ?c) = Some m'" by simp
  from set_response_min_ttl [OF this] m' show ?thesis by (auto simp: max_def)
qed

end
