(* ===== verification/Rate_Limit.thy ===== *)
theory Rate_Limit
  imports Dns_Context
begin

text \<open>
  \<open>src/plugins/ratelimit.rs\<close>: a fixed-window query counter per client address.
  An \<open>Instant\<close> is a number of nanoseconds; \<open>duration_since\<close> saturates at zero,
  as subtraction of natural numbers does.  The counter is a \<open>u32\<close> whose
  increment wraps in the release profile.  The table is a map from addresses;
  each operation on an entry holds the lock of its shard, so an operation is
  one step.
\<close>

record rl_entry =
  rl_count :: u32
  rl_window_start :: nat

record rate_limit =
  rl_max_queries :: u32
  rl_window_secs :: u64
  rl_limits :: "ip_addr \<rightharpoonup> rl_entry"
  rl_cleanup_started :: bool

definition rl_window :: "rate_limit \<Rightarrow> nat" where
  "rl_window p = unat (rl_window_secs p) * 10 ^ 9"

text \<open>The background task is started once, and only inside a runtime.  The
  first component tells whether a task was spawned by this call.\<close>

definition start_cleanup_task :: "bool \<Rightarrow> rate_limit \<Rightarrow> bool \<times> rate_limit" where
  "start_cleanup_task in_runtime p =
     (if rl_cleanup_started p then (False, p)
      else if \<not> in_runtime then (False, p\<lparr>rl_cleanup_started := False\<rparr>)
      else (True, p\<lparr>rl_cleanup_started := True\<rparr>))"

definition rl_new :: "bool \<Rightarrow> u32 \<Rightarrow> u64 \<Rightarrow> rate_limit" where
  "rl_new in_runtime max_queries window_secs =
     snd (start_cleanup_task in_runtime
       \<lparr>rl_max_queries = max_queries, rl_window_secs = window_secs, rl_limits = Map.empty,
        rl_cleanup_started = False\<rparr>)"

definition should_limit :: "nat \<Rightarrow> ip_addr \<Rightarrow> rate_limit \<Rightarrow> bool \<times> rate_limit" where
  "should_limit now client_ip p =
     (case rl_limits p client_ip of
        Some entry \<Rightarrow>
          if rl_window p \<le> now - rl_window_start entry
          then (False, p\<lparr>rl_limits := (rl_limits p)(client_ip \<mapsto>
                          entry\<lparr>rl_count := 1, rl_window_start := now\<rparr>)\<rparr>)
          else (let count = rl_count entry + 1
                in (rl_max_queries p < count,
                    p\<lparr>rl_limits := (rl_limits p)(client_ip \<mapsto> entry\<lparr>rl_count := count\<rparr>)\<rparr>))
      | None \<Rightarrow>
          (False, p\<lparr>rl_limits := (rl_limits p)(client_ip \<mapsto> \<lparr>rl_count = 1, rl_window_start = now\<rparr>)\<rparr>))"

text \<open>\<open>Duration * 2\<close> panics when the seconds overflow; \<open>retain\<close> evaluates it
  only when the table has an entry.\<close>

definition rl_cleanup :: "nat \<Rightarrow> rate_limit \<Rightarrow> rate_limit result" where
  "rl_cleanup now p =
     (if rl_limits p \<noteq> Map.empty \<and> 2 ^ 64 \<le> unat (rl_window_secs p) * 2 then Inl Panic
      else Inr (p\<lparr>rl_limits := (\<lambda>ip. case rl_limits p ip of
          Some entry \<Rightarrow> if now - rl_window_start entry < rl_window p * 2 then Some entry else None
        | None \<Rightarrow> None)\<rparr>))"

definition rl_handle :: "dns_lib \<Rightarrow> nat \<Rightarrow> rate_limit \<Rightarrow> 'h ctx \<Rightarrow> rate_limit \<times> 'h ctx" where
  "rl_handle L now p c =
     (let p = snd (start_cleanup_task True p);
          (limited, p) = should_limit now (fst (client_addr c)) p
      in (p, if limited
             then set_response ((lib_new L)\<lparr>m_id := m_id (request c), m_type := ResponseMsg,
                                   m_rcode := Refused\<rparr>) True c
             else c))"

section \<open>Runs of the limiter\<close>

datatype rl_event = Query_From ip_addr nat | Clean nat

fun rl_time :: "rl_event \<Rightarrow> nat" where
  "rl_time (Query_From ip t) = t"
| "rl_time (Clean t) = t"

text \<open>The decisions of a run, with the address each was made for; a cleanup that
  panics ends the run.\<close>

fun rl_run :: "rl_event list \<Rightarrow> rate_limit \<Rightarrow> (ip_addr \<times> bool) list result" where
  "rl_run [] p = Inr []"
| "rl_run (Query_From ip t # es) p =
     (let (d, p') = should_limit t ip p
      in andthen (rl_run es p') (\<lambda>ds. Inr ((ip, d) # ds)))"
| "rl_run (Clean t # es) p = andthen (rl_cleanup t p) (rl_run es)"

lemma should_limit_fields [simp]:
  "rl_max_queries (snd (should_limit t ip p)) = rl_max_queries p"
  "rl_window_secs (snd (should_limit t ip p)) = rl_window_secs p"
  "rl_window (snd (should_limit t ip p)) = rl_window p"
  by (auto simp: should_limit_def Let_def rl_window_def split: option.splits)

lemma should_limit_other:
  "ip' \<noteq> ip \<Longrightarrow> rl_limits (snd (should_limit t ip p)) ip' = rl_limits p ip'"
  by (auto simp: should_limit_def Let_def split: option.splits)

text \<open>What a query decides and stores, as a function of the entry of its address.\<close>

definition rl_step :: "nat \<Rightarrow> u32 \<Rightarrow> nat \<Rightarrow> rl_entry option \<Rightarrow> bool \<times> rl_entry" where
  "rl_step w m t e =
     (case e of None \<Rightarrow> (False, \<lparr>rl_count = 1, rl_window_start = t\<rparr>)
      | Some e \<Rightarrow> if w \<le> t - rl_window_start e then (False, \<lparr>rl_count = 1, rl_window_start = t\<rparr>)
                 else (m < rl_count e + 1, \<lparr>rl_count = rl_count e + 1, rl_window_start = rl_window_start e\<rparr>))"

lemma should_limit_step:
  "fst (should_limit t ip p) = fst (rl_step (rl_window p) (rl_max_queries p) t (rl_limits p ip))"
  "rl_limits (snd (should_limit t ip p)) ip
     = Some (snd (rl_step (rl_window p) (rl_max_queries p) t (rl_limits p ip)))"
  by (auto simp: should_limit_def rl_step_def Let_def split: option.splits)

section \<open>Cleanup is transparent\<close>

text \<open>Two limiters with the same parameters, where the second may lack entries
  whose window is over at time \<open>now\<close>.\<close>

definition rl_sim :: "nat \<Rightarrow> rate_limit \<Rightarrow> rate_limit \<Rightarrow> bool" where
  "rl_sim now p q \<longleftrightarrow> rl_max_queries q = rl_max_queries p \<and> rl_window_secs q = rl_window_secs p
     \<and> (\<forall>ip. rl_limits q ip = rl_limits p ip
          \<or> (rl_limits q ip = None \<and> (\<exists>e. rl_limits p ip = Some e \<and> rl_window p \<le> now - rl_window_start e)))"

lemma rl_sim_refl [simp]: "rl_sim now p p"
  by (simp add: rl_sim_def)

lemma rl_sim_mono: "rl_sim now p q \<Longrightarrow> now \<le> t \<Longrightarrow> rl_sim t p q"
  unfolding rl_sim_def by (meson diff_le_mono le_trans)

lemma rl_sim_query:
  assumes "rl_sim t p q"
  shows "fst (should_limit t ip q) = fst (should_limit t ip p)
    \<and> rl_sim t (snd (should_limit t ip p)) (snd (should_limit t ip q))"
proof -
  have w: "rl_window q = rl_window p" "rl_max_queries q = rl_max_queries p"
    "rl_window_secs q = rl_window_secs p"
    using assms by (simp_all add: rl_sim_def rl_window_def)
  have step: "rl_step (rl_window p) (rl_max_queries p) t (rl_limits q ip)
      = rl_step (rl_window p) (rl_max_queries p) t (rl_limits p ip)"
    using assms unfolding rl_sim_def rl_step_def by (auto split: option.splits dest: spec [of _ ip])
  have "rl_sim t (snd (should_limit t ip p)) (snd (should_limit t ip q))"
    unfolding rl_sim_def
  proof (intro conjI allI)
    fix ip'
    show "rl_limits (snd (should_limit t ip q)) ip' = rl_limits (snd (should_limit t ip p)) ip'
      \<or> rl_limits (snd (should_limit t ip q)) ip' = None
        \<and> (\<exists>e. rl_limits (snd (should_limit t ip p)) ip' = Some e
              \<and> rl_window (snd (should_limit t ip p)) \<le> t - rl_window_start e)"
      using assms by (cases "ip' = ip") (auto simp: should_limit_step step w should_limit_other rl_sim_def)
  qed (simp_all add: w)
  with step w show ?thesis by (simp add: should_limit_step)
qed

lemma rl_sim_cleanup:
  assumes "rl_sim t p q" and "rl_cleanup t q = Inr q'"
  shows "rl_sim t p q'"
proof -
  have w: "rl_window q = rl_window p" using assms(1) by (simp add: rl_sim_def rl_window_def)
  have l: "rl_limits q' ip = (case rl_limits q ip of
          Some e \<Rightarrow> if t - rl_window_start e < rl_window p * 2 then Some e else None
        | None \<Rightarrow> None)" for ip
    using assms(2) by (auto simp: rl_cleanup_def w split: if_splits option.splits)
  have "rl_max_queries q' = rl_max_queries q" "rl_window_secs q' = rl_window_secs q"
    using assms(2) by (auto simp: rl_cleanup_def split: if_splits)
  moreover have "rl_limits q' ip = rl_limits p ip
      \<or> rl_limits q' ip = None \<and> (\<exists>e. rl_limits p ip = Some e \<and> rl_window p \<le> t - rl_window_start e)" for ip
    using assms(1) unfolding rl_sim_def l
    by (cases "rl_limits q ip") (auto dest!: spec [of _ ip])
  ultimately show ?thesis using assms(1) by (simp add: rl_sim_def)
qed

lemma rl_run_sim:
  assumes "rl_sim now p q" and "sorted (now # map rl_time es)" and "rl_run es q = Inr ds"
  shows "rl_run (filter (\<lambda>e. \<exists>ip t. e = Query_From ip t) es) p = Inr ds"
  using assms
proof (induction es q arbitrary: now p ds rule: rl_run.induct)
  case (1 q)
  then show ?case by simp
next
  case (2 ip t es q)
  have s: "rl_sim t p q" using 2 by (auto intro: rl_sim_mono)
  obtain d q' where q': "should_limit t ip q = (d, q')" by force
  obtain d' p' where p': "should_limit t ip p = (d', p')" by force
  from rl_sim_query [OF s, of ip] q' p' have d: "d' = d" "rl_sim t p' q'" by auto
  from 2(4) q' obtain ds' where ds': "rl_run es q' = Inr ds'" "ds = (ip, d) # ds'"
    by (auto simp: andthen_eq_Inr)
  from 2(1) [OF q' [symmetric] refl d(2) _ ds'(1)] 2(3) have
    "rl_run (filter (\<lambda>e. \<exists>ip t. e = Query_From ip t) es) p' = Inr ds'" by simp
  with p' d(1) ds'(2) show ?case by simp
next
  case (3 t es q)
  then obtain q' where q': "rl_cleanup t q = Inr q'" "rl_run es q' = Inr ds"
    by (auto simp: andthen_eq_Inr)
  have "rl_sim t p q" using 3 by (auto intro: rl_sim_mono)
  from rl_sim_cleanup [OF this q'(1)] q' 3 show ?case by auto
qed

text \<open>The cleanup task never changes a decision: at any points of a run in
  time order it may be interleaved with the queries, and the decisions are
  those of the run without it.\<close>

lemma rl_cleanup_transparent:
  assumes "sorted (map rl_time es)" and "rl_run es p = Inr ds"
  shows "rl_run (filter (\<lambda>e. \<exists>ip t. e = Query_From ip t) es) p = Inr ds"
  using rl_run_sim [of 0 p p es ds] assms by simp

theorem rl_cleanup_transparent_witness:
  "\<exists>ds. rl_run [Query_From (V4 1) 0, Query_From (V4 1) 5, Clean (3 * 10 ^ 9), Query_From (V4 1) (3 * 10 ^ 9)]
        (rl_new True 1 1) = Inr ds
     \<and> rl_run [Query_From (V4 1) 0, Query_From (V4 1) 5, Query_From (V4 1) (3 * 10 ^ 9)] (rl_new True 1 1) = Inr ds"
proof -
  let ?es = "[Query_From (V4 1) 0, Query_From (V4 1) 5, Clean (3 * 10 ^ 9), Query_From (V4 1) (3 * 10 ^ 9)]"
  obtain ds where ds: "rl_run ?es (rl_new True 1 1) = Inr ds"
    by (simp add: rl_new_def start_cleanup_task_def should_limit_def rl_cleanup_def rl_window_def Let_def)
  from rl_cleanup_transparent [OF _ ds] ds show ?thesis by simp
qed

section \<open>Admission per window\<close>

text \<open>The decisions for one address in a run of queries from any addresses.\<close>

fun rl_step_run :: "nat \<Rightarrow> u32 \<Rightarrow> nat list \<Rightarrow> rl_entry option \<Rightarrow> bool list" where
  "rl_step_run w m [] e = []"
| "rl_step_run w m (t # ts) e =
     (let (d, e') = rl_step w m t e in d # rl_step_run w m ts (Some e'))"

definition rl_queries :: "(ip_addr \<times> nat) list \<Rightarrow> rl_event list" where
  "rl_queries qs = map (\<lambda>(ip, t). Query_From ip t) qs"

text \<open>Clients are independent: the decisions for an address depend on the
  queries of this address only.\<close>

lemma rl_run_queries:
  "\<exists>ds. rl_run (rl_queries qs) p = Inr ds \<and> map fst ds = map fst qs \<and>
     map snd (filter (\<lambda>d. fst d = ip) ds)
       = rl_step_run (rl_window p) (rl_max_queries p) (map snd (filter (\<lambda>q. fst q = ip) qs)) (rl_limits p ip)"
proof (induction qs arbitrary: p)
  case Nil
  show ?case by (simp add: rl_queries_def)
next
  case (Cons q qs)
  obtain a t where q: "q = (a, t)" by force
  obtain d p' where p': "should_limit t a p = (d, p')" by force
  from Cons.IH [of p'] obtain ds where ds: "rl_run (rl_queries qs) p' = Inr ds" "map fst ds = map fst qs"
    "map snd (filter (\<lambda>d. fst d = ip) ds)
       = rl_step_run (rl_window p') (rl_max_queries p') (map snd (filter (\<lambda>q. fst q = ip) qs)) (rl_limits p' ip)"
    by blast
  have "rl_window p' = rl_window p" "rl_max_queries p' = rl_max_queries p"
    using p' by (metis should_limit_fields(3) snd_conv, metis should_limit_fields(1) snd_conv)
  moreover have "a \<noteq> ip \<Longrightarrow> rl_limits p' ip = rl_limits p ip"
    using p' by (metis should_limit_other snd_conv)
  moreover have "d = fst (rl_step (rl_window p) (rl_max_queries p) t (rl_limits p a))"
    "rl_limits p' a = Some (snd (rl_step (rl_window p) (rl_max_queries p) t (rl_limits p a)))"
    using should_limit_step [of t a p] p' by auto
  ultimately show ?case
    using ds p' q by (auto simp: rl_queries_def Let_def split_beta)
qed

lemma rl_step_run_window:
  assumes "\<forall>t \<in> set ts. t - s < w" and "k + length ts < 2 ^ 32" and "rl_count e = of_nat k"
    and "rl_window_start e = s"
  shows "rl_step_run w m ts (Some e)
     = map (\<lambda>i. unat m < k + 1 + i) [0 ..< length ts]"
  using assms
proof (induction ts arbitrary: k e)
  case Nil
  then show ?case by simp
next
  case (Cons t ts)
  let ?e' = "\<lparr>rl_count = of_nat (Suc k), rl_window_start = s\<rparr>"
  have cnt: "rl_count e + 1 = of_nat (Suc k)" using Cons.prems(3) by simp
  have "unat (of_nat (Suc k) :: u32) = Suc k"
    using Cons.prems(2) by (simp add: unat_of_nat del: of_nat_Suc)
  then have step: "rl_step w m t (Some e) = (unat m < k + 1, ?e')"
    using Cons.prems(1,4) by (simp add: rl_step_def word_less_nat_alt cnt del: of_nat_Suc)
  have "rl_step_run w m ts (Some ?e') = map (\<lambda>i. unat m < Suc k + 1 + i) [0 ..< length ts]"
    using Cons.prems by (intro Cons.IH) auto
  moreover have "map f [0 ..< Suc n] = f 0 # map (\<lambda>i. f (Suc i)) [0 ..< n]" for f :: "nat \<Rightarrow> bool" and n
    by (simp add: upt_conv_Cons map_Suc_upt [symmetric] del: upt_Suc)
  ultimately show ?case using step by (simp del: upt_Suc)
qed

text \<open>The limiter admits, in the window that a client's first query opens,
  exactly the first \<open>max_queries\<close> queries of this client and refuses the rest,
  whatever the other clients send.  The first query is admitted even when
  \<open>max_queries\<close> is zero.\<close>

lemma rl_window_quota:
  assumes fresh: "rl_limits p ip = None"
    and mine: "map snd (filter (\<lambda>q. fst q = ip) qs) = t0 # ts"
    and win: "\<forall>t \<in> set ts. t - t0 < rl_window p"
    and wrap: "length ts < 2 ^ 32 - 1"
  shows "\<exists>ds. rl_run (rl_queries qs) p = Inr ds \<and>
     map snd (filter (\<lambda>d. fst d = ip) ds)
       = False # map (\<lambda>i. unat (rl_max_queries p) < 2 + i) [0 ..< length ts]"
proof -
  have "rl_step_run (rl_window p) (rl_max_queries p) ts (Some \<lparr>rl_count = 1, rl_window_start = t0\<rparr>)
     = map (\<lambda>i. unat (rl_max_queries p) < 1 + 1 + i) [0 ..< length ts]"
    using win wrap by (intro rl_step_run_window [where s = t0]) auto
  with rl_run_queries [of qs p ip] fresh mine show ?thesis by (auto simp: rl_step_def)
qed

text \<open>Three queries of one client around one of another, with a quota of two.\<close>

theorem rl_window_quota_witness:
  "\<exists>ds. rl_run (rl_queries [(V4 1, 10), (V4 2, 11), (V4 1, 12), (V4 1, 13)]) (rl_new True 2 60) = Inr ds
     \<and> map snd (filter (\<lambda>d. fst d = V4 1) ds) = [False, False, True]"
proof -
  have "\<exists>ds. rl_run (rl_queries [(V4 1, 10), (V4 2, 11), (V4 1, 12), (V4 1, 13)]) (rl_new True 2 60) = Inr ds
     \<and> map snd (filter (\<lambda>d. fst d = V4 1) ds)
       = False # map (\<lambda>i. unat (rl_max_queries (rl_new True 2 60)) < 2 + i) [0 ..< length [12, 13 :: nat]]"
    by (rule rl_window_quota [where ?t0.0 = 10])
       (simp_all add: rl_new_def start_cleanup_task_def rl_window_def)
  then show ?thesis by (simp add: rl_new_def start_cleanup_task_def upt_rec)
qed

section \<open>The handler\<close>

lemma rl_handle_reply_ok: "reply_ok c \<Longrightarrow> reply_ok (snd (rl_handle L now p c))"
  by (simp add: rl_handle_def Let_def split_beta)

lemma rl_handle_request [simp]: "request (snd (rl_handle L now p c)) = request c"
  by (simp add: rl_handle_def Let_def split_beta)

text \<open>A limited client gets REFUSED and the sequence stops; other clients pass
  through unchanged.\<close>

lemma rl_handle_cases:
  "if fst (should_limit now (fst (client_addr c)) p)
   then ctx_abort (snd (rl_handle L now p c))
        \<and> (\<exists>m. response (snd (rl_handle L now p c)) = Some m \<and> m_rcode m = Refused)
   else snd (rl_handle L now p c) = c"
proof -
  have "fst (should_limit now ip (snd (start_cleanup_task b p))) = fst (should_limit now ip p)" for b ip
    by (simp add: should_limit_step start_cleanup_task_def rl_window_def)
  then show ?thesis by (simp add: rl_handle_def Let_def split_beta)
qed

end
