(* ===== verification/Memo_Cache.thy ===== *)
theory Memo_Cache
  imports Titan_Prelude
begin

text \<open>
  The interface of the result caches that several plugins keep in front of an
  immutable rule set (\<open>matcher.rs\<close>, \<open>geosite.rs\<close>, \<open>geoip.rs\<close>): a hit returns the
  stored value, a miss computes it and may store it.
\<close>

locale memoised =
  fixes cached :: "'s \<Rightarrow> 'k \<Rightarrow> bool option"
    and compute :: "'s \<Rightarrow> 'k \<Rightarrow> bool"
    and query :: "'s \<Rightarrow> 'k \<Rightarrow> bool \<times> 's"
  assumes hit_value: "cached s k = Some v \<Longrightarrow> fst (query s k) = v"
    and miss_value: "cached s k = None \<Longrightarrow> fst (query s k) = compute s k"
    and cached_query: "cached (snd (query s k)) = cached s
          \<or> (cached s k = None \<and> cached (snd (query s k)) = (cached s)(k \<mapsto> compute s k))"
    and rules_kept: "compute (snd (query s k)) = compute s"
begin

definition sound :: "'s \<Rightarrow> bool" where
  "sound s \<longleftrightarrow> (\<forall>k v. cached s k = Some v \<longrightarrow> v = compute s k)"

lemma query_value: "sound s \<Longrightarrow> fst (query s k) = compute s k"
  using hit_value [of s k] miss_value [of s k] by (cases "cached s k") (auto simp: sound_def)

lemma query_sound: "sound s \<Longrightarrow> sound (snd (query s k))"
  using cached_query [of s k] by (auto simp: sound_def rules_kept split: if_splits)

text \<open>Entries may be evicted at any time: fewer entries are as sound.\<close>

lemma evict_sound:
  assumes "sound s" and "compute s' = compute s" and "\<forall>k. cached s' k \<in> {None, cached s k}"
  shows "sound s'"
  using assms unfolding sound_def by (metis empty_iff insert_iff option.distinct(1))

end

end
