(* ===== verification/Label_Trie.thy ===== *)
theory Label_Trie
  imports Dns_Context Memo_Cache
begin

text \<open>
  The interface behind the domain matchers \<open>src/plugins/matcher.rs\<close> and
  \<open>src/plugins/geosite.rs\<close>: a trie over the labels of a domain, from the right.
  It is a locale, which the node types of the two matchers interpret.
\<close>

section \<open>Label tries\<close>

locale label_trie =
  fixes empty :: 'n
    and child :: "'n \<Rightarrow> string \<Rightarrow> 'n option"
    and marked :: "'n \<Rightarrow> bool"
    and insert_path :: "string list \<Rightarrow> 'n \<Rightarrow> 'n"
    and walk :: "'n \<Rightarrow> string list \<Rightarrow> bool"
    and walk_ranges :: "'n \<Rightarrow> string \<Rightarrow> (nat \<times> nat) list \<Rightarrow> bool result"
  assumes child_empty: "child empty p = None"
    and marked_empty: "\<not> marked empty"
    and insert_Nil: "child (insert_path [] n) p = child n p" "marked (insert_path [] n)"
    and insert_Cons:
      "child (insert_path (q # qs) n) p =
         (if p = q then Some (insert_path qs (case child n q of None \<Rightarrow> empty | Some c \<Rightarrow> c)) else child n p)"
      "marked (insert_path (q # qs) n) = marked n"
    and walk_Nil: "\<not> walk n []"
    and walk_Cons: "walk n (p # ps) =
         (case child n p of None \<Rightarrow> False | Some c \<Rightarrow> marked c \<or> walk c ps)"
    and walk_ranges_Nil: "walk_ranges n d [] = Inr False"
    and walk_ranges_Cons: "walk_ranges n d ((a, b) # rs) =
         (if length d < b then walk_ranges n d rs
          else andthen (slice d a b) (\<lambda>part.
            case child n part of None \<Rightarrow> Inr False
            | Some c \<Rightarrow> if marked c then Inr True else walk_ranges c d rs))"
begin

lemma walk_empty: "\<not> walk empty ps"
  by (cases ps) (simp_all add: walk_Nil walk_Cons child_empty)

lemma walk_insert_Nil: "walk (insert_path [] n) ps = walk n ps"
  by (cases ps) (simp_all add: walk_Nil walk_Cons insert_Nil)

lemma walk_insert:
  "walk (insert_path ps n) qs \<longleftrightarrow> walk n qs \<or> (ps \<noteq> [] \<and> prefix ps qs)"
proof (induction qs arbitrary: ps n)
  case Nil
  show ?case by (auto simp: walk_Nil)
next
  case (Cons q qs)
  show ?case
  proof (cases ps)
    case Nil
    then show ?thesis by (simp add: walk_insert_Nil)
  next
    case (Cons p ps')
    have m: "marked (insert_path ps' c) \<longleftrightarrow> ps' = [] \<or> marked c" for c
      by (cases ps') (simp_all add: insert_Nil insert_Cons)
    show ?thesis
    proof (cases "q = p")
      case True
      with Cons show ?thesis
        by (cases "child n p"; cases "ps' = []")
           (auto simp: walk_Cons insert_Cons insert_Nil m Cons.IH walk_empty marked_empty walk_insert_Nil)
    next
      case False
      with Cons show ?thesis by (simp add: walk_Cons insert_Cons)
    qed
  qed
qed

lemma walk_fold_insert:
  "walk (fold insert_path pss n) qs \<longleftrightarrow> walk n qs \<or> (\<exists>ps \<in> set pss. ps \<noteq> [] \<and> prefix ps qs)"
  by (induction pss arbitrary: n) (auto simp: walk_insert)

text \<open>The walk over precomputed ranges is the walk over the labels they cut out.\<close>

lemma walk_ranges_slices:
  "slices d rs = Inr ps \<Longrightarrow> walk_ranges n d rs = Inr (walk n ps)"
proof (induction rs arbitrary: n ps)
  case Nil
  then show ?case by (simp add: walk_ranges_Nil walk_Nil)
next
  case (Cons r rs)
  obtain a b where r: "r = (a, b)" by force
  with Cons.prems obtain p ps' where *: "slice d a b = Inr p" "slices d rs = Inr ps'" "ps = p # ps'"
    by (auto simp: andthen_eq_Inr)
  then have "\<not> length d < b" by (auto simp: slice_def split: if_splits)
  with * r Cons.IH show ?case
    by (auto simp: walk_ranges_Cons walk_Cons split: option.splits)
qed

end

subsection \<open>Ranges of a name with trailing dots\<close>

lemma label_ranges_from_snoc_dot:
  "label_ranges_from (xs @ [CHR ''.'']) i j = label_ranges_from xs i j"
  by (induction xs i j rule: label_ranges_from.induct) auto

lemma label_ranges_dots: "label_ranges (s @ replicate k CHR ''.'') = label_ranges s"
proof (induction k)
  case (Suc k)
  then show ?case
    using label_ranges_from_snoc_dot [of "s @ replicate k CHR ''.''" 0 0]
    by (simp add: label_ranges_def replicate_append_same [symmetric] del: replicate_append_same)
qed simp

lemma slices_rev: "slices s rs = Inr ps \<Longrightarrow> slices s (rev rs) = Inr (rev ps)"
proof (induction rs arbitrary: ps)
  case (Cons r rs)
  obtain a b where "r = (a, b)" by force
  with Cons show ?case by (auto simp: slices_append andthen_eq_Inr)
qed simp

text \<open>Labels from the right, empty ones left out.\<close>

definition rlabels :: "string \<Rightarrow> string list" where
  "rlabels s = rev (filter (\<lambda>p. p \<noteq> []) (split_on CHR ''.'' s))"

lemma rlabels_nonempty: "p \<in> set (rlabels s) \<Longrightarrow> p \<noteq> []"
  by (auto simp: rlabels_def)

lemma rlabels_rsplit: "rlabels s = filter (\<lambda>p. p \<noteq> []) (rsplit_on CHR ''.'' s)"
  by (simp add: rlabels_def rsplit_on_def rev_filter)

lemma slices_rev_ranges:
  "slices d (rev (label_ranges (d @ replicate k CHR ''.''))) = Inr (rlabels d)"
  unfolding label_ranges_dots rlabels_def by (rule slices_rev [OF slices_label_ranges])

end
