(* ===== verification/Matcher.thy ===== *)
theory Matcher
  imports Label_Trie
begin

text \<open>
  \<open>src/plugins/matcher.rs\<close>: rule files are parsed into exact domains, a label
  trie of suffixes and keywords; a query is decided once and then served from a
  bounded result cache.  The content of a file is a parameter: \<open>None\<close> when it
  does not exist or cannot be opened, else its lines, where \<open>None\<close> is a line
  that cannot be read.  The interned \<open>Arc<str>\<close> labels are their text.
\<close>

datatype suffix_node =
  SuffixNode (sn_children: "string \<Rightarrow> suffix_node option") (sn_is_match: bool)

datatype rule_kind = Exact | Suffix | Keyword

record parsed_rule =
  rule_kind :: rule_kind
  rule_value :: string

record matcher =
  mp_domains :: "string set"
  mp_suffix_root :: suffix_node
  mp_keywords :: "string set"
  mp_mark :: "string option"
  mp_cache :: "string \<rightharpoonup> bool"
  mp_total_rules :: nat

definition sn_default :: suffix_node where
  "sn_default = SuffixNode (\<lambda>_. None) False"

section \<open>Parsing rules\<close>

definition parse_rule :: "string \<Rightarrow> parsed_rule option" where
  "parse_rule line =
     (let line = to_lower line in
      if starts_with line ''regexp:'' then None
      else
        let parsed =
          (if starts_with line ''keyword:'' then map_option (Pair Keyword) (strip_prefix line ''keyword:'')
           else if starts_with line ''domain:'' then map_option (Pair Exact) (strip_prefix line ''domain:'')
           else if starts_with line ''full:'' then map_option (Pair Exact) (strip_prefix line ''full:'')
           else if starts_with line ''suffix:'' then map_option (Pair Suffix) (strip_prefix line ''suffix:'')
           else if CHR '':'' \<in> set line then None
           else Some (Exact, line))
        in case parsed of
             None \<Rightarrow> None
           | Some (kind, value) \<Rightarrow>
               let value = trim_end_matches CHR ''.'' (trim value) in
               if value = [] then None
               else
                 let (kind, value) =
                   (if kind \<noteq> Keyword \<and> starts_with value ''.''
                    then (Suffix, trim_start_matches CHR ''.'' value) else (kind, value))
                 in if kind = Suffix
                    then let value = trim_start_matches CHR ''.'' value
                         in if value = [] then None else Some \<lparr>rule_kind = kind, rule_value = value\<rparr>
                    else Some \<lparr>rule_kind = kind, rule_value = value\<rparr>)"

section \<open>Loading\<close>

definition intern_label :: "string set \<Rightarrow> string \<Rightarrow> string \<times> string set" where
  "intern_label interner label =
     (if label \<in> interner then (label, interner) else (label, insert label interner))"

text \<open>The loop that descends along the labels of a suffix rule and marks the
  node it ends at.\<close>

fun suffix_insert :: "string set \<Rightarrow> string list \<Rightarrow> suffix_node \<Rightarrow> string set \<times> suffix_node" where
  "suffix_insert interner [] node = (interner, SuffixNode (sn_children node) True)"
| "suffix_insert interner (part # parts) node =
     (if part = [] then suffix_insert interner parts node
      else
        let (key, interner) = intern_label interner part;
            child = (case sn_children node key of Some c \<Rightarrow> c | None \<Rightarrow> sn_default);
            (interner, child) = suffix_insert interner parts child
        in (interner, SuffixNode ((sn_children node)(key \<mapsto> child)) (sn_is_match node)))"

record rule_store =
  st_domains :: "string set"
  st_suffix_root :: suffix_node
  st_keywords :: "string set"
  st_interner :: "string set"

definition add_rule :: "parsed_rule \<Rightarrow> rule_store \<Rightarrow> rule_store" where
  "add_rule rule st =
     (case rule_kind rule of
        Suffix \<Rightarrow>
          let clean = trim_end_matches CHR ''.'' (trim_start_matches CHR ''.'' (rule_value rule)) in
          if clean = [] then st
          else
            let (interner, root) =
                  suffix_insert (st_interner st) (rsplit_on CHR ''.'' clean) (st_suffix_root st);
                (key, interner) = intern_label interner clean
            in st\<lparr>st_suffix_root := root, st_interner := interner, st_domains := insert key (st_domains st)\<rparr>
      | Exact \<Rightarrow>
          let (key, interner) = intern_label (st_interner st) (rule_value rule)
          in st\<lparr>st_interner := interner, st_domains := insert key (st_domains st)\<rparr>
      | Keyword \<Rightarrow>
          let (key, interner) = intern_label (st_interner st) (rule_value rule)
          in st\<lparr>st_interner := interner, st_keywords := insert key (st_keywords st)\<rparr>)"

text \<open>The loop over the lines; an unreadable line stops it with an error, and the
  rules before it stay loaded.\<close>

fun load_lines :: "string option list \<Rightarrow> nat \<Rightarrow> rule_store \<Rightarrow> nat result \<times> rule_store" where
  "load_lines [] count st = (Inr count, st)"
| "load_lines (None # ls) count st = (Inl (Error ''read''), st)"
| "load_lines (Some line # ls) count st =
     (let line = trim line in
      if line = [] \<or> starts_with line ''#'' \<or> starts_with line ''//'' then load_lines ls count st
      else case parse_rule line of
             None \<Rightarrow> load_lines ls count st
           | Some rule \<Rightarrow> load_lines ls (count + 1) (add_rule rule st))"

definition load_file :: "string option list option \<Rightarrow> rule_store \<Rightarrow> nat result \<times> rule_store" where
  "load_file content st =
     (case content of None \<Rightarrow> (Inl (Error ''File not found''), st) | Some ls \<Rightarrow> load_lines ls 0 st)"

fun load_files :: "string option list option list \<Rightarrow> nat \<Rightarrow> rule_store \<Rightarrow> nat \<times> rule_store" where
  "load_files [] tot st = (tot, st)"
| "load_files (f # fs) tot st =
     (case load_file f st of
        (Inr count, st') \<Rightarrow> load_files fs (tot + count) st'
      | (Inl _, st') \<Rightarrow> load_files fs tot st')"

definition empty_store :: rule_store where
  "empty_store = \<lparr>st_domains = {}, st_suffix_root = sn_default, st_keywords = {}, st_interner = {}\<rparr>"

definition matcher_new :: "string option list option list \<Rightarrow> string option \<Rightarrow> matcher" where
  "matcher_new files mark =
     (let (total_rules, st) = load_files files 0 empty_store
      in \<lparr>mp_domains = st_domains st, mp_suffix_root = st_suffix_root st,
          mp_keywords = st_keywords st, mp_mark = mark, mp_cache = Map.empty,
          mp_total_rules = total_rules\<rparr>)"

section \<open>Matching\<close>

definition normalize_domain :: "string \<Rightarrow> string" where
  "normalize_domain domain =
     (let d = trim_end_matches CHR ''.'' domain
      in if list_ex is_upper d then to_lower d else d)"

definition clean_domain :: "string \<Rightarrow> string" where
  "clean_domain d = (if d \<noteq> [] \<and> last d = CHR ''.'' then butlast d else d)"

fun sn_walk :: "suffix_node \<Rightarrow> string list \<Rightarrow> bool" where
  "sn_walk node [] = False"
| "sn_walk node (part # parts) =
     (case sn_children node part of
        Some child \<Rightarrow> if sn_is_match child then True else sn_walk child parts
      | None \<Rightarrow> False)"

fun sn_walk_ranges :: "suffix_node \<Rightarrow> string \<Rightarrow> (nat \<times> nat) list \<Rightarrow> bool result" where
  "sn_walk_ranges node d [] = Inr False"
| "sn_walk_ranges node d ((a, b) # rs) =
     (if length d < b then sn_walk_ranges node d rs
      else andthen (slice d a b) (\<lambda>part.
        case sn_children node part of
          Some child \<Rightarrow> if sn_is_match child then Inr True else sn_walk_ranges child d rs
        | None \<Rightarrow> Inr False))"

definition mp_store_result :: "string \<Rightarrow> bool \<Rightarrow> matcher \<Rightarrow> bool \<times> matcher" where
  "mp_store_result d r m = (r, m\<lparr>mp_cache := (mp_cache m)(d \<mapsto> r)\<rparr>)"

definition keyword_match :: "matcher \<Rightarrow> string \<Rightarrow> bool" where
  "keyword_match m d = (\<exists>k \<in> mp_keywords m. contains_str d k)"

definition matches_lower :: "string \<Rightarrow> matcher \<Rightarrow> bool \<times> matcher" where
  "matches_lower domain_lower m =
     (let d = clean_domain domain_lower in
      case mp_cache m d of
        Some r \<Rightarrow> (r, m)
      | None \<Rightarrow>
          if d \<in> mp_domains m then mp_store_result d True m
          else if sn_walk (mp_suffix_root m) (rsplit_on CHR ''.'' d) then mp_store_result d True m
          else if keyword_match m d then mp_store_result d True m
          else mp_store_result d False m)"

definition mp_matches :: "string \<Rightarrow> matcher \<Rightarrow> bool \<times> matcher" where
  "mp_matches domain m = matches_lower (normalize_domain domain) m"

definition matches_lower_with_parts :: "string \<Rightarrow> (nat \<times> nat) list \<Rightarrow> matcher \<Rightarrow> bool result \<times> matcher" where
  "matches_lower_with_parts domain_lower ranges m =
     (let d = clean_domain domain_lower in
      case mp_cache m d of
        Some r \<Rightarrow> (Inr r, m)
      | None \<Rightarrow>
          if d \<in> mp_domains m then apfst Inr (mp_store_result d True m)
          else case sn_walk_ranges (mp_suffix_root m) d (rev ranges) of
                 Inl e \<Rightarrow> (Inl e, m)
               | Inr r \<Rightarrow>
                   if r then apfst Inr (mp_store_result d True m)
                   else if keyword_match m d then apfst Inr (mp_store_result d True m)
                   else apfst Inr (mp_store_result d False m))"

definition mp_handle :: "matcher \<Rightarrow> 'h ctx \<Rightarrow> 'h ctx result \<times> matcher" where
  "mp_handle m c =
     (if msg_query (request c) = None then (Inr c, m)
      else case matches_lower_with_parts (qname_lower_ref c) (qname_parts_ranges c) m of
             (Inl e, m') \<Rightarrow> (Inl e, m')
           | (Inr matched, m') \<Rightarrow>
               (Inr (if matched
                     then (case mp_mark m of Some mark \<Rightarrow> add_tag mark c | None \<Rightarrow> c)
                     else c), m'))"

section \<open>What a rule means\<close>

text \<open>The specification of a rule on a normalised domain.  A suffix rule compares
  whole labels.\<close>

definition rule_matches :: "parsed_rule \<Rightarrow> string \<Rightarrow> bool" where
  "rule_matches rule d =
     (case rule_kind rule of
        Exact \<Rightarrow> d = rule_value rule
      | Keyword \<Rightarrow> sublist (rule_value rule) d
      | Suffix \<Rightarrow>
          let v = trim_end_matches CHR ''.'' (trim_start_matches CHR ''.'' (rule_value rule))
          in v \<noteq> [] \<and> (d = v \<or> (rlabels v \<noteq> [] \<and> prefix (rlabels v) (rsplit_on CHR ''.'' d))))"

fun line_rules :: "string option list \<Rightarrow> parsed_rule list" where
  "line_rules [] = []"
| "line_rules (None # ls) = []"
| "line_rules (Some line # ls) =
     (let line = trim line in
      if line = [] \<or> starts_with line ''#'' \<or> starts_with line ''//'' then line_rules ls
      else case parse_rule line of None \<Rightarrow> line_rules ls | Some r \<Rightarrow> r # line_rules ls)"

definition file_rules :: "string option list option list \<Rightarrow> parsed_rule list" where
  "file_rules files = concat (map (\<lambda>f. case f of None \<Rightarrow> [] | Some ls \<Rightarrow> line_rules ls) files)"

lemma file_rules_simps [simp]:
  "file_rules [] = []"
  "file_rules (f # fs) = (case f of None \<Rightarrow> [] | Some ls \<Rightarrow> line_rules ls) @ file_rules fs"
  by (simp_all add: file_rules_def)

text \<open>For a suffix without empty labels this is the domain itself or a domain
  below it; \<open>notexample.com\<close> is not below \<open>example.com\<close>.\<close>

lemma split_suffix_iff:
  "suffix (split_on CHR ''.'' v) (split_on CHR ''.'' d) \<longleftrightarrow> d = v \<or> suffix (CHR ''.'' # v) d"
proof
  assume "suffix (split_on CHR ''.'' v) (split_on CHR ''.'' d)"
  then obtain xs where xs: "split_on CHR ''.'' d = xs @ split_on CHR ''.'' v"
    by (auto simp: suffix_def)
  have "d @ ''.'' = concat (map (\<lambda>p. p @ ''.'') xs) @ (v @ ''.'')"
    using split_on_join [of "CHR ''.''" d] split_on_join [of "CHR ''.''" v] xs by simp
  then have d: "d = concat (map (\<lambda>p. p @ ''.'') xs) @ v" by simp
  show "d = v \<or> suffix (CHR ''.'' # v) d"
  proof (cases xs rule: rev_cases)
    case Nil
    with d show ?thesis by simp
  next
    case (snoc ys y)
    with d show ?thesis by (auto simp: suffix_def)
  qed
next
  assume "d = v \<or> suffix (CHR ''.'' # v) d"
  then show "suffix (split_on CHR ''.'' v) (split_on CHR ''.'' d)"
    by (auto simp: suffix_def split_on_append)
qed

lemma prefix_rlabels:
  "[] \<notin> set (split_on CHR ''.'' v) \<Longrightarrow>
     rlabels v \<noteq> [] \<and> prefix (rlabels v) (rsplit_on CHR ''.'' d) \<longleftrightarrow> d = v \<or> suffix (CHR ''.'' # v) d"
proof -
  assume "[] \<notin> set (split_on CHR ''.'' v)"
  then have "filter (\<lambda>p. p \<noteq> []) (split_on CHR ''.'' v) = split_on CHR ''.'' v"
    by (intro filter_True) auto
  then show ?thesis
    using split_suffix_iff [of v d] by (simp add: rlabels_def rsplit_on_def suffix_to_prefix)
qed

section \<open>The suffix trie\<close>

fun sn_insert :: "string list \<Rightarrow> suffix_node \<Rightarrow> suffix_node" where
  "sn_insert [] n = SuffixNode (sn_children n) True"
| "sn_insert (p # ps) n =
     SuffixNode ((sn_children n)(p \<mapsto> sn_insert ps (case sn_children n p of None \<Rightarrow> sn_default | Some c \<Rightarrow> c)))
       (sn_is_match n)"

interpretation sn: label_trie sn_default sn_children sn_is_match sn_insert sn_walk sn_walk_ranges
proof
  fix n p ps
  show "sn_walk n (p # ps) = (case sn_children n p of None \<Rightarrow> False | Some c \<Rightarrow> sn_is_match c \<or> sn_walk c ps)"
    by (auto split: option.split)
  show "sn_children sn_default p = None" "\<not> sn_is_match sn_default" by (simp_all add: sn_default_def)
next
  fix n d a b rs
  show "sn_walk_ranges n d ((a, b) # rs) =
         (if length d < b then sn_walk_ranges n d rs
          else andthen (slice d a b) (\<lambda>part.
            case sn_children n part of None \<Rightarrow> Inr False
            | Some c \<Rightarrow> if sn_is_match c then Inr True else sn_walk_ranges c d rs))"
    by (auto intro!: arg_cong [where f = "andthen (slice d a b)"] split: option.split)
qed simp_all

lemma intern_label_text [simp]: "fst (intern_label I l) = l"
  by (simp add: intern_label_def)

lemma intern_label_eq: "intern_label I l = (l, insert l I)"
  by (auto simp: intern_label_def)

lemma suffix_insert_node:
  "snd (suffix_insert I ps n) = sn_insert (filter (\<lambda>p. p \<noteq> []) ps) n"
proof (induction I ps n rule: suffix_insert.induct)
  case (1 I n)
  show ?case by simp
next
  case (2 I p ps n)
  then show ?case
    by (simp add: intern_label_eq Let_def split_beta cong: option.case_cong)
qed

definition store_matches :: "rule_store \<Rightarrow> string \<Rightarrow> bool" where
  "store_matches st d \<longleftrightarrow> d \<in> st_domains st
     \<or> sn_walk (st_suffix_root st) (rsplit_on CHR ''.'' d)
     \<or> (\<exists>k \<in> st_keywords st. contains_str d k)"

lemma add_rule_matches:
  "store_matches (add_rule r st) d \<longleftrightarrow> store_matches st d \<or> rule_matches r d"
proof (cases "rule_kind r")
  case Exact
  then show ?thesis by (auto simp: add_rule_def rule_matches_def store_matches_def intern_label_eq)
next
  case Keyword
  then show ?thesis
    by (auto simp: add_rule_def rule_matches_def store_matches_def intern_label_eq contains_str_iff)
next
  case Suffix
  let ?v = "trim_end_matches CHR ''.'' (trim_start_matches CHR ''.'' (rule_value r))"
  obtain I root where i: "suffix_insert (st_interner st) (rsplit_on CHR ''.'' ?v) (st_suffix_root st) = (I, root)"
    by force
  then have "root = sn_insert (rlabels ?v) (st_suffix_root st)"
    using suffix_insert_node by (metis rlabels_rsplit snd_conv)
  with Suffix i show ?thesis
    by (auto simp: add_rule_def rule_matches_def store_matches_def intern_label_eq Let_def sn.walk_insert)
qed

lemma load_lines_matches:
  "store_matches (snd (load_lines ls k st)) d
     \<longleftrightarrow> store_matches st d \<or> (\<exists>r \<in> set (line_rules ls). rule_matches r d)"
  by (induction ls k st rule: load_lines.induct)
     (auto simp: Let_def add_rule_matches split: option.splits)

lemma load_files_matches:
  "store_matches (snd (load_files fs k st)) d
     \<longleftrightarrow> store_matches st d \<or> (\<exists>r \<in> set (file_rules fs). rule_matches r d)"
proof (induction fs arbitrary: k st)
  case Nil
  show ?case by simp
next
  case (Cons f fs)
  have "store_matches (snd (load_file f st)) d
     \<longleftrightarrow> store_matches st d \<or> (\<exists>r \<in> set (case f of None \<Rightarrow> [] | Some ls \<Rightarrow> line_rules ls). rule_matches r d)"
    by (auto simp: load_file_def load_lines_matches split: option.split)
  with Cons show ?case
    by (auto split: prod.splits sum.splits)
qed

section \<open>Correctness of the matcher\<close>

definition mp_compute :: "matcher \<Rightarrow> string \<Rightarrow> bool" where
  "mp_compute m d \<longleftrightarrow> d \<in> mp_domains m \<or> sn_walk (mp_suffix_root m) (rsplit_on CHR ''.'' d) \<or> keyword_match m d"

lemma mp_store_result_simps [simp]:
  "fst (mp_store_result d r m) = r"
  "mp_cache (snd (mp_store_result d r m)) = (mp_cache m)(d \<mapsto> r)"
  "mp_domains (snd (mp_store_result d r m)) = mp_domains m"
  "mp_suffix_root (snd (mp_store_result d r m)) = mp_suffix_root m"
  "mp_keywords (snd (mp_store_result d r m)) = mp_keywords m"
  "mp_mark (snd (mp_store_result d r m)) = mp_mark m"
  "mp_compute (snd (mp_store_result d r m)) = mp_compute m"
  by (simp_all add: mp_store_result_def mp_compute_def keyword_match_def fun_eq_iff)

text \<open>The lookup on a cleaned domain, as the cached function it is.\<close>

definition mp_query :: "matcher \<Rightarrow> string \<Rightarrow> bool \<times> matcher" where
  "mp_query m d = (case mp_cache m d of Some r \<Rightarrow> (r, m) | None \<Rightarrow> mp_store_result d (mp_compute m d) m)"

interpretation mp: memoised mp_cache mp_compute mp_query
  by unfold_locales (auto simp: mp_query_def split: option.splits)

lemma matches_lower_query: "matches_lower d m = mp_query m (clean_domain d)"
  by (auto simp: matches_lower_def mp_query_def mp_compute_def Let_def split: option.splits)

lemma trim_end_matches_append_replicate:
  "trim_end_matches c (s @ replicate k c) = trim_end_matches c s"
proof -
  have "dropWhile (\<lambda>x. x = c) (replicate k c @ rev s) = dropWhile (\<lambda>x. x = c) (rev s)"
    by (rule dropWhile_append2) simp
  then show ?thesis by (simp add: trim_end_matches_def trim_end_if_def)
qed

lemma clean_domain_dots: obtains k where "d = clean_domain d @ replicate k CHR ''.''"
proof (cases "d \<noteq> [] \<and> last d = CHR ''.''")
  case True
  then have "d = clean_domain d @ replicate 1 CHR ''.''"
    by (simp add: clean_domain_def) (metis append_butlast_last_id)
  then show ?thesis by (rule that)
next
  case False
  then have "d = clean_domain d @ replicate 0 CHR ''.''" by (auto simp: clean_domain_def)
  then show ?thesis by (rule that)
qed

text \<open>With the precomputed ranges the trie is walked over the non-empty labels.\<close>

definition mp_compute_parts :: "matcher \<Rightarrow> string \<Rightarrow> bool" where
  "mp_compute_parts m d \<longleftrightarrow> d \<in> mp_domains m \<or> sn_walk (mp_suffix_root m) (rlabels d) \<or> keyword_match m d"

lemma matches_parts_eq:
  "matches_lower_with_parts d (label_ranges d) m =
     (let k = clean_domain d in
      case mp_cache m k of Some r \<Rightarrow> (Inr r, m)
      | None \<Rightarrow> apfst Inr (mp_store_result k (mp_compute_parts m k) m))"
proof -
  obtain j where d: "d = clean_domain d @ replicate j CHR ''.''" by (rule clean_domain_dots)
  have "slices (clean_domain d) (rev (label_ranges d)) = Inr (rlabels (clean_domain d))"
    by (subst (2) d) (rule slices_rev_ranges)
  from sn.walk_ranges_slices [OF this] show ?thesis
    by (auto simp: matches_lower_with_parts_def mp_compute_parts_def Let_def split: option.splits)
qed

lemma rsplit_rlabels: "[] \<notin> set (split_on CHR ''.'' d) \<Longrightarrow> rlabels d = rsplit_on CHR ''.'' d"
  unfolding rlabels_rsplit by (rule filter_True) (auto simp: rsplit_on_def)

text \<open>The states of a matcher: after loading, any queries, by name or from the
  pipeline, and evictions from the cache.\<close>

inductive mp_reachable :: "string option list option list \<Rightarrow> string option \<Rightarrow> matcher \<Rightarrow> bool"
  for files mark where
  mp_loaded: "mp_reachable files mark (matcher_new files mark)"
| mp_asked: "mp_reachable files mark m \<Longrightarrow> mp_reachable files mark (snd (mp_matches q m))"
| mp_handled: "mp_reachable files mark m \<Longrightarrow> [] \<notin> set (split_on CHR ''.'' (clean_domain (to_lower q))) \<Longrightarrow>
     mp_reachable files mark (snd (matches_lower_with_parts (to_lower q) (label_ranges (to_lower q)) m))"
| mp_evicted: "mp_reachable files mark m \<Longrightarrow> \<forall>k. c k \<in> {None, mp_cache m k} \<Longrightarrow>
     mp_reachable files mark (m\<lparr>mp_cache := c\<rparr>)"

lemma mp_reachable_inv:
  "mp_reachable files mark m \<Longrightarrow> mp.sound m \<and> mp_compute m = mp_compute (matcher_new files mark)"
proof (induction rule: mp_reachable.induct)
  case mp_loaded
  show ?case by (simp add: mp.sound_def matcher_new_def split_beta Let_def)
next
  case (mp_asked m q)
  then show ?case
    by (simp add: mp_matches_def matches_lower_query mp.query_sound mp.rules_kept)
next
  case (mp_handled m q)
  let ?k = "clean_domain (to_lower q)"
  have "snd (matches_lower_with_parts (to_lower q) (label_ranges (to_lower q)) m) = snd (mp_query m ?k)"
    using mp_handled(2)
    by (simp add: matches_parts_eq Let_def mp_query_def mp_compute_parts_def mp_compute_def rsplit_rlabels
        split: option.split)
  with mp_handled show ?case by (simp add: mp.query_sound mp.rules_kept)
next
  case (mp_evicted m c)
  have "mp_compute (m\<lparr>mp_cache := c\<rparr>) = mp_compute m"
    by (simp add: mp_compute_def keyword_match_def fun_eq_iff)
  with mp_evicted mp.evict_sound [of m "m\<lparr>mp_cache := c\<rparr>"] show ?case by simp
qed

lemma mp_compute_rules:
  "mp_compute (matcher_new files mark) d \<longleftrightarrow> (\<exists>r \<in> set (file_rules files). rule_matches r d)"
proof -
  have e: "\<not> store_matches empty_store d"
    by (simp add: store_matches_def empty_store_def sn.walk_empty)
  have "mp_compute (matcher_new files mark) d = store_matches (snd (load_files files 0 empty_store)) d"
    by (simp add: mp_compute_def matcher_new_def store_matches_def keyword_match_def split_beta Let_def)
  with load_files_matches [of files 0 empty_store d] e show ?thesis by simp
qed

lemma normalize_clean: "clean_domain (normalize_domain q) = normalize_domain q"
proof -
  let ?t = "trim_end_matches CHR ''.'' q"
  have "normalize_domain q = to_lower ?t"
    by (simp add: normalize_domain_def Let_def to_lower_id)
  moreover have "?t = [] \<or> last (to_lower ?t) \<noteq> CHR ''.''"
    using trim_end_matches_last [of "CHR ''.''" q] by (auto simp: to_lower_def last_map)
  ultimately show ?thesis by (auto simp: clean_domain_def)
qed

text \<open>C11: The matcher decides its rule files: in every state, after any queries
  and cache evictions, a domain matches exactly when one of the parsed rules
  matches it, an exact rule by equality, a keyword as a substring, a suffix
  label by label.  Files that cannot be read add no rules.\<close>

theorem matcher_decides:
  assumes "mp_reachable files mark m"
  shows "fst (mp_matches q m) \<longleftrightarrow> (\<exists>r \<in> set (file_rules files). rule_matches r (normalize_domain q))"
  using mp_reachable_inv [OF assms]
  by (simp add: mp_matches_def matches_lower_query normalize_clean mp.query_value mp_compute_rules)

text \<open>C12: The allocation-free path of the pipeline agrees with \<open>matches\<close>: for a
  name without empty labels, walking the precomputed label ranges never
  slices out of range and gives the result of matching the name itself.\<close>

theorem matches_with_parts_agrees:
  assumes "mp_reachable files mark m"
    and labels: "[] \<notin> set (split_on CHR ''.'' (clean_domain (to_lower q)))"
  shows "fst (matches_lower_with_parts (to_lower q) (label_ranges (to_lower q)) m)
       = Inr (fst (mp_matches q m))"
proof -
  let ?k = "clean_domain (to_lower q)"
  have ne: "last ?k \<noteq> CHR ''.'' \<and> ?k \<noteq> []"
  proof
    show n: "?k \<noteq> []" using labels by auto
    show "last ?k \<noteq> CHR ''.''"
    proof
      assume "last ?k = CHR ''.''"
      with n have "?k = butlast ?k @ [CHR ''.'']" by (metis append_butlast_last_id)
      then have "[] \<in> set (split_on CHR ''.'' ?k)"
        using split_on_append [of "CHR ''.''" "butlast ?k" "[]"] by simp
      with labels show False by simp
    qed
  qed
  obtain j where d: "to_lower q = ?k @ replicate j CHR ''.''" by (rule clean_domain_dots)
  have "normalize_domain q = to_lower (trim_end_matches CHR ''.'' q)"
    by (simp add: normalize_domain_def Let_def to_lower_id)
  also have "\<dots> = trim_end_matches CHR ''.'' (to_lower q)"
    by (simp add: trim_end_matches_def trim_end_if_def to_lower_def rev_map dropWhile_map o_def)
  also have "\<dots> = ?k"
    using ne by (subst d) (simp add: trim_end_matches_append_replicate trim_end_matches_id)
  finally have k: "normalize_domain q = ?k" .
  then have kk: "clean_domain ?k = ?k" using normalize_clean [of q] by simp
  from labels show ?thesis
    by (simp add: matches_parts_eq mp_matches_def matches_lower_query k kk
        mp_query_def mp_compute_parts_def mp_compute_def rsplit_rlabels Let_def split: option.split)
qed


text \<open>The handler only adds the configured tag, and adds it exactly on a match.\<close>

lemma mp_handle_cases:
  assumes "msg_query (request c) \<noteq> None"
    and "fst (matches_lower_with_parts (qname_lower_ref c) (qname_parts_ranges c) m) = Inr r"
  shows "fst (mp_handle m c) = Inr (if r then (case mp_mark m of Some mark \<Rightarrow> add_tag mark c | None \<Rightarrow> c) else c)"
  using assms by (auto simp: mp_handle_def split: prod.splits sum.splits)

lemma mp_handle_reply_ok:
  "fst (mp_handle m c) = Inr c' \<Longrightarrow> request c' = request c \<and> (reply_ok c \<longrightarrow> reply_ok c')"
  by (auto simp: mp_handle_def split: if_splits prod.splits sum.splits option.splits)

section \<open>Witnesses\<close>

text \<open>One file with a suffix, a keyword, a comment and an exact rule, and one that
  does not exist.\<close>

definition sample_files :: "string option list option list" where
  "sample_files = [Some [Some ''# ads'', Some '' suffix:QQ.com. '', Some ''keyword:track'', Some ''full:a.b'',
     Some ''regexp:x''], None]"

lemma sample_rules: "file_rules sample_files =
   [\<lparr>rule_kind = Suffix, rule_value = ''qq.com''\<rparr>, \<lparr>rule_kind = Keyword, rule_value = ''track''\<rparr>,
    \<lparr>rule_kind = Exact, rule_value = ''a.b''\<rparr>]"
  by code_simp

theorem matcher_decides_witness:
  "fst (mp_matches ''WWW.qq.com.'' (matcher_new sample_files None))
   \<and> \<not> fst (mp_matches ''notqq.com.'' (matcher_new sample_files None))"
proof -
  have "\<exists>r \<in> set (file_rules sample_files). rule_matches r (normalize_domain ''WWW.qq.com.'')"
    unfolding sample_rules by code_simp
  moreover have "\<not> (\<exists>r \<in> set (file_rules sample_files). rule_matches r (normalize_domain ''notqq.com.''))"
    unfolding sample_rules by code_simp
  ultimately show ?thesis using matcher_decides [OF mp_loaded] by blast
qed

theorem matches_with_parts_agrees_witness:
  "fst (matches_lower_with_parts (to_lower ''WWW.qq.com.'') (label_ranges (to_lower ''WWW.qq.com.''))
      (matcher_new sample_files None)) = Inr (fst (mp_matches ''WWW.qq.com.'' (matcher_new sample_files None)))"
proof (rule matches_with_parts_agrees [OF mp_loaded])
  show "[] \<notin> set (split_on CHR ''.'' (clean_domain (to_lower ''WWW.qq.com.'')))" by code_simp
qed

end
