(* ===== verification/Geo_Site.thy ===== *)
theory Geo_Site
  imports Label_Trie
begin

text \<open>
  \<open>src/plugins/geosite.rs\<close> with the message types of
  \<open>src/core/geosite_proto.rs\<close>: domain categories loaded from text or from
  decoded V2Ray lists into a label trie and a list of substrings, with a result
  cache per category.  Reading a file and decoding the protobuf are parameters.
\<close>

datatype trie_node = TrieNode (tn_children: "string \<Rightarrow> trie_node option") (tn_is_match: bool)

record domain_set =
  ds_root :: trie_node
  ds_plain :: "string list"
  ds_cache :: "string \<rightharpoonup> bool"

datatype domain_type = Plain | Regex | RootDomain | Full

record geosite_entry =
  country_code :: string
  ge_domains :: "(int \<times> string) list"

record geosite =
  gs_categories :: "string \<rightharpoonup> domain_set"
  gs_target_category :: string
  gs_mark :: "string option"

definition tn_default :: trie_node where
  "tn_default = TrieNode (\<lambda>_. None) False"

definition ds_default :: domain_set where
  "ds_default = \<lparr>ds_root = tn_default, ds_plain = [], ds_cache = Map.empty\<rparr>"

section \<open>Domain sets\<close>

fun tn_insert_parts :: "string list \<Rightarrow> trie_node \<Rightarrow> trie_node" where
  "tn_insert_parts [] node = TrieNode (tn_children node) True"
| "tn_insert_parts (part # parts) node =
     (if part = [] then tn_insert_parts parts node
      else TrieNode ((tn_children node)(part \<mapsto>
             tn_insert_parts parts (case tn_children node part of Some c \<Rightarrow> c | None \<Rightarrow> tn_default)))
           (tn_is_match node))"

definition ds_add_plain :: "string \<Rightarrow> domain_set \<Rightarrow> domain_set" where
  "ds_add_plain p s = s\<lparr>ds_plain := ds_plain s @ [to_lower p]\<rparr>"

definition ds_add_domain :: "string \<Rightarrow> domain_set \<Rightarrow> domain_set" where
  "ds_add_domain domain s =
     (if domain = [] then s
      else let domain_clean = trim_end_matches CHR ''.'' (to_lower domain)
           in s\<lparr>ds_root := tn_insert_parts (rsplit_on CHR ''.'' domain_clean) (ds_root s)\<rparr>)"

definition ds_normalize :: "string \<Rightarrow> string" where
  "ds_normalize domain =
     (let d = trim_end_matches CHR ''.'' domain
      in if list_ex is_upper d then to_lower d else d)"

fun tn_walk :: "trie_node \<Rightarrow> string list \<Rightarrow> bool" where
  "tn_walk node [] = False"
| "tn_walk node (part # parts) =
     (case tn_children node part of
        Some child \<Rightarrow> if tn_is_match child then True else tn_walk child parts
      | None \<Rightarrow> False)"

fun tn_walk_ranges :: "trie_node \<Rightarrow> string \<Rightarrow> (nat \<times> nat) list \<Rightarrow> bool result" where
  "tn_walk_ranges node d [] = Inr False"
| "tn_walk_ranges node d ((a, b) # rs) =
     (if length d < b then tn_walk_ranges node d rs
      else andthen (slice d a b) (\<lambda>part.
        case tn_children node part of
          Some child \<Rightarrow> if tn_is_match child then Inr True else tn_walk_ranges child d rs
        | None \<Rightarrow> Inr False))"

definition ds_store :: "string \<Rightarrow> bool \<Rightarrow> domain_set \<Rightarrow> bool \<times> domain_set" where
  "ds_store d r s = (r, s\<lparr>ds_cache := (ds_cache s)(d \<mapsto> r)\<rparr>)"

definition ds_matches :: "string \<Rightarrow> domain_set \<Rightarrow> bool \<times> domain_set" where
  "ds_matches domain s =
     (let d = ds_normalize domain in
      case ds_cache s d of
        Some r \<Rightarrow> (r, s)
      | None \<Rightarrow>
          if tn_walk (ds_root s) (rsplit_on CHR ''.'' d) then ds_store d True s
          else if list_ex (contains_str d) (ds_plain s) then ds_store d True s
          else ds_store d False s)"

definition ds_matches_lower_with_parts :: "string \<Rightarrow> (nat \<times> nat) list \<Rightarrow> domain_set \<Rightarrow> bool result \<times> domain_set" where
  "ds_matches_lower_with_parts domain_lower ranges s =
     (let d = trim_end_matches CHR ''.'' domain_lower in
      case ds_cache s d of
        Some r \<Rightarrow> (Inr r, s)
      | None \<Rightarrow>
          (case tn_walk_ranges (ds_root s) d (rev ranges) of
             Inl e \<Rightarrow> (Inl e, s)
           | Inr r \<Rightarrow>
               if r then apfst Inr (ds_store d True s)
               else if list_ex (contains_str d) (ds_plain s) then apfst Inr (ds_store d True s)
               else apfst Inr (ds_store d False s)))"

section \<open>The plugin\<close>

definition gs_new :: "string \<Rightarrow> geosite" where
  "gs_new target = \<lparr>gs_categories = Map.empty, gs_target_category = to_lower target, gs_mark = None\<rparr>"

definition gs_with_mark :: "string \<Rightarrow> geosite \<Rightarrow> geosite" where
  "gs_with_mark mark g = g\<lparr>gs_mark := Some mark\<rparr>"

definition gs_add_domain :: "string \<Rightarrow> string \<Rightarrow> domain_type \<Rightarrow> geosite \<Rightarrow> geosite" where
  "gs_add_domain category domain t g =
     (let category = to_lower category;
          s = (case gs_categories g category of Some s \<Rightarrow> s | None \<Rightarrow> ds_default);
          s = (case t of Plain \<Rightarrow> ds_add_plain domain s | _ \<Rightarrow> ds_add_domain domain s)
      in g\<lparr>gs_categories := (gs_categories g)(category \<mapsto> s)\<rparr>)"

text \<open>The loops over the entries of a decoded list whose code is the target.\<close>

fun add_entry_domains :: "(int \<times> string) list \<Rightarrow> geosite \<Rightarrow> geosite" where
  "add_entry_domains [] g = g"
| "add_entry_domains ((t, value) # ds) g =
     add_entry_domains ds
       (gs_add_domain (gs_target_category g) value (if t = 0 then Plain else RootDomain) g)"

fun add_entries :: "string \<Rightarrow> geosite_entry list \<Rightarrow> geosite \<Rightarrow> geosite" where
  "add_entries target [] g = g"
| "add_entries target (e # es) g =
     add_entries target es
       (if to_lower (country_code e) = target then add_entry_domains (ge_domains e) g else g)"

definition load_binary_category :: "geosite_entry list result \<Rightarrow> string \<Rightarrow> geosite \<Rightarrow> geosite result" where
  "load_binary_category decoded target_tag g =
     andthen decoded (\<lambda>list. Inr (add_entries (to_lower target_tag) list g))"

definition load_binary :: "geosite_entry list result \<Rightarrow> geosite \<Rightarrow> geosite result" where
  "load_binary decoded g = andthen decoded (\<lambda>list. Inr (add_entries (gs_target_category g) list g))"

fun add_text_lines :: "string list \<Rightarrow> geosite \<Rightarrow> geosite" where
  "add_text_lines [] g = g"
| "add_text_lines (line # ls) g =
     (let line = trim line in
      if line = [] \<or> starts_with line ''#'' then add_text_lines ls g
      else add_text_lines ls
        (case split_once CHR '':'' line of
           Some (category, domain) \<Rightarrow> gs_add_domain (trim category) (trim domain) RootDomain g
         | None \<Rightarrow> gs_add_domain (gs_target_category g) (trim line) RootDomain g))"

definition load_text :: "string result \<Rightarrow> geosite \<Rightarrow> geosite result" where
  "load_text content g = andthen content (\<lambda>content. Inr (add_text_lines (str_lines content) g))"

text \<open>\<open>Path::extension\<close>: what follows the last dot of the file name, unless the
  name has no dot but a leading one.\<close>

definition path_extension :: "string \<Rightarrow> string" where
  "path_extension path =
     (let name = hd (rsplit_on CHR ''/'' (trim_end_matches CHR ''/'' path));
          ps = split_on CHR ''.'' name
      in if length ps < 2 \<or> (length ps = 2 \<and> hd ps = []) \<or> name = ''..'' then [] else last ps)"

text \<open>\<open>fs_text\<close> and \<open>fs_decode\<close> read a file, and read and decode one.\<close>

definition gs_load_from_file ::
  "(string \<Rightarrow> string result) \<Rightarrow> (string \<Rightarrow> geosite_entry list result) \<Rightarrow> string \<Rightarrow> geosite \<Rightarrow> geosite result" where
  "gs_load_from_file fs_text fs_decode path g =
     (case split_once CHR '':'' path of
        Some (file_path, tag) \<Rightarrow>
          if path_extension file_path = ''dat''
          then load_binary_category (fs_decode file_path) tag g
          else load_text (fs_text file_path) g
      | None \<Rightarrow>
          if path_extension path = ''dat'' then load_binary (fs_decode path) g
          else load_text (fs_text path) g)"

definition gs_matches :: "string \<Rightarrow> geosite \<Rightarrow> bool \<times> geosite" where
  "gs_matches domain g =
     (case gs_categories g (gs_target_category g) of
        Some s \<Rightarrow> (let (r, s) = ds_matches domain s
                   in (r, g\<lparr>gs_categories := (gs_categories g)(gs_target_category g \<mapsto> s)\<rparr>))
      | None \<Rightarrow> (False, g))"

definition gs_matches_with_parts :: "string \<Rightarrow> (nat \<times> nat) list \<Rightarrow> geosite \<Rightarrow> bool result \<times> geosite" where
  "gs_matches_with_parts domain_lower ranges g =
     (case gs_categories g (gs_target_category g) of
        Some s \<Rightarrow> (let (r, s) = ds_matches_lower_with_parts domain_lower ranges s
                   in (r, g\<lparr>gs_categories := (gs_categories g)(gs_target_category g \<mapsto> s)\<rparr>))
      | None \<Rightarrow> (Inr False, g))"

definition gs_handle :: "geosite \<Rightarrow> 'h ctx \<Rightarrow> 'h ctx result \<times> geosite" where
  "gs_handle g c =
     (if m_queries (request c) = [] then (Inr c, g)
      else case gs_matches_with_parts (qname_lower_ref c) (qname_parts_ranges c) g of
             (Inl e, g') \<Rightarrow> (Inl e, g')
           | (Inr matched, g') \<Rightarrow>
               (Inr (if matched
                     then (case gs_mark g of Some mark \<Rightarrow> add_tag mark c | None \<Rightarrow> c)
                     else c), g'))"

section \<open>The trie and the cache\<close>

fun tn_insert :: "string list \<Rightarrow> trie_node \<Rightarrow> trie_node" where
  "tn_insert [] n = TrieNode (tn_children n) True"
| "tn_insert (p # ps) n =
     TrieNode ((tn_children n)(p \<mapsto> tn_insert ps (case tn_children n p of None \<Rightarrow> tn_default | Some c \<Rightarrow> c)))
       (tn_is_match n)"

interpretation tn: label_trie tn_default tn_children tn_is_match tn_insert tn_walk tn_walk_ranges
proof
  fix n p ps
  show "tn_walk n (p # ps) = (case tn_children n p of None \<Rightarrow> False | Some c \<Rightarrow> tn_is_match c \<or> tn_walk c ps)"
    by (auto split: option.split)
  show "tn_children tn_default p = None" "\<not> tn_is_match tn_default" by (simp_all add: tn_default_def)
next
  fix n d a b rs
  show "tn_walk_ranges n d ((a, b) # rs) =
         (if length d < b then tn_walk_ranges n d rs
          else andthen (slice d a b) (\<lambda>part.
            case tn_children n part of None \<Rightarrow> Inr False
            | Some c \<Rightarrow> if tn_is_match c then Inr True else tn_walk_ranges c d rs))"
    by (auto intro!: arg_cong [where f = "andthen (slice d a b)"] split: option.split)
qed simp_all

lemma tn_insert_parts_eq: "tn_insert_parts ps n = tn_insert (filter (\<lambda>p. p \<noteq> []) ps) n"
  by (induction ps n rule: tn_insert_parts.induct) (auto cong: option.case_cong)

definition ds_compute :: "domain_set \<Rightarrow> string \<Rightarrow> bool" where
  "ds_compute s d \<longleftrightarrow> tn_walk (ds_root s) (rsplit_on CHR ''.'' d) \<or> list_ex (contains_str d) (ds_plain s)"

definition ds_query :: "domain_set \<Rightarrow> string \<Rightarrow> bool \<times> domain_set" where
  "ds_query s d = (case ds_cache s d of Some r \<Rightarrow> (r, s) | None \<Rightarrow> ds_store d (ds_compute s d) s)"

lemma ds_store_simps [simp]:
  "fst (ds_store d r s) = r"
  "ds_cache (snd (ds_store d r s)) = (ds_cache s)(d \<mapsto> r)"
  "ds_compute (snd (ds_store d r s)) = ds_compute s"
  by (simp_all add: ds_store_def ds_compute_def fun_eq_iff)

interpretation ds: memoised ds_cache ds_compute ds_query
  by unfold_locales (auto simp: ds_query_def split: option.splits)

lemma ds_matches_query: "ds_matches q s = ds_query s (ds_normalize q)"
  by (auto simp: ds_matches_def ds_query_def ds_compute_def Let_def split: option.splits)

lemma ds_normalize_lower: "ds_normalize q = trim_end_matches CHR ''.'' (to_lower q)"
proof -
  have "ds_normalize q = to_lower (trim_end_matches CHR ''.'' q)"
    by (simp add: ds_normalize_def Let_def to_lower_id)
  then show ?thesis
    by (simp add: trim_end_matches_def trim_end_if_def to_lower_def rev_map dropWhile_map o_def)
qed

lemma ds_parts_query:
  assumes "[] \<notin> set (split_on CHR ''.'' (ds_normalize q))"
  shows "ds_matches_lower_with_parts (to_lower q) (label_ranges (to_lower q)) s
       = apfst Inr (ds_query s (ds_normalize q))"
proof -
  obtain j where d: "to_lower q = ds_normalize q @ replicate j CHR ''.''"
    unfolding ds_normalize_lower by (rule trim_end_matches_cases)
  have "slices (ds_normalize q) (rev (label_ranges (to_lower q))) = Inr (rlabels (ds_normalize q))"
    by (subst d) (rule slices_rev_ranges)
  moreover have "rlabels (ds_normalize q) = rsplit_on CHR ''.'' (ds_normalize q)"
    using assms unfolding rlabels_rsplit by (intro filter_True) (auto simp: rsplit_on_def)
  ultimately have "tn_walk_ranges n (ds_normalize q) (rev (label_ranges (to_lower q)))
      = Inr (tn_walk n (rsplit_on CHR ''.'' (ds_normalize q)))" for n
    using tn.walk_ranges_slices by metis
  then show ?thesis
    by (auto simp: ds_matches_lower_with_parts_def ds_query_def ds_compute_def ds_normalize_lower
        Let_def split: option.splits)
qed

section \<open>What a category means\<close>

text \<open>A rule as it is added: category, text and type.  A plain rule is a
  substring; every other type is a suffix, compared label by label.\<close>

type_synonym gs_rule = "string \<times> string \<times> domain_type"

fun gs_rule_matches :: "gs_rule \<Rightarrow> string \<Rightarrow> string \<Rightarrow> bool" where
  "gs_rule_matches (category, domain, t) target d =
     (to_lower category = target \<and>
       (if t = Plain then sublist (to_lower domain) d
        else (let ps = rlabels (trim_end_matches CHR ''.'' (to_lower domain))
              in domain \<noteq> [] \<and> ps \<noteq> [] \<and> prefix ps (rsplit_on CHR ''.'' d))))"

definition gs_add_rules :: "gs_rule list \<Rightarrow> geosite \<Rightarrow> geosite" where
  "gs_add_rules rs g = fold (\<lambda>(c, d, t). gs_add_domain c d t) rs g"

lemma gs_add_rules_simps [simp]:
  "gs_add_rules [] g = g"
  "gs_add_rules ((c, d, t) # rs) g = gs_add_rules rs (gs_add_domain c d t g)"
  "gs_add_rules (rs @ rs') g = gs_add_rules rs' (gs_add_rules rs g)"
  by (simp_all add: gs_add_rules_def)

definition cat_compute :: "geosite \<Rightarrow> string \<Rightarrow> string \<Rightarrow> bool" where
  "cat_compute g cat d = (case gs_categories g cat of None \<Rightarrow> False | Some s \<Rightarrow> ds_compute s d)"

lemma ds_compute_default: "\<not> ds_compute ds_default d"
  by (simp add: ds_compute_def ds_default_def tn.walk_empty)

lemma ds_compute_add_plain:
  "ds_compute (ds_add_plain p s) d \<longleftrightarrow> ds_compute s d \<or> sublist (to_lower p) d"
  by (auto simp: ds_compute_def ds_add_plain_def contains_str_iff)

lemma ds_compute_add_domain:
  "ds_compute (ds_add_domain p s) d \<longleftrightarrow> ds_compute s d \<or>
     (let ps = rlabels (trim_end_matches CHR ''.'' (to_lower p))
      in p \<noteq> [] \<and> ps \<noteq> [] \<and> prefix ps (rsplit_on CHR ''.'' d))"
  by (auto simp: ds_compute_def ds_add_domain_def tn_insert_parts_eq rlabels_rsplit [symmetric]
      tn.walk_insert Let_def)

lemma cat_compute_add_domain:
  "cat_compute (gs_add_domain c p t g) cat d \<longleftrightarrow> cat_compute g cat d \<or> gs_rule_matches (c, p, t) cat d"
  by (cases t; cases "gs_categories g (to_lower c)")
     (auto simp: cat_compute_def gs_add_domain_def ds_compute_add_plain ds_compute_add_domain
       ds_compute_default Let_def)

lemma cat_compute_add_rules:
  "cat_compute (gs_add_rules rs g) cat d \<longleftrightarrow> cat_compute g cat d \<or> (\<exists>r \<in> set rs. gs_rule_matches r cat d)"
proof (induction rs arbitrary: g)
  case (Cons r rs)
  then show ?case by (cases r) (auto simp: cat_compute_add_domain)
qed simp

text \<open>Loading is adding the rules of the source.\<close>

fun text_rules :: "string \<Rightarrow> string list \<Rightarrow> gs_rule list" where
  "text_rules target [] = []"
| "text_rules target (line # ls) =
     (let line = trim line in
      if line = [] \<or> starts_with line ''#'' then text_rules target ls
      else (case split_once CHR '':'' line of
              Some (category, domain) \<Rightarrow> (trim category, trim domain, RootDomain)
            | None \<Rightarrow> (target, trim line, RootDomain)) # text_rules target ls)"

definition entry_rules :: "string \<Rightarrow> string \<Rightarrow> geosite_entry list \<Rightarrow> gs_rule list" where
  "entry_rules target tag es =
     concat (map (\<lambda>e. if to_lower (country_code e) = tag
        then map (\<lambda>(t, v). (target, v, if t = 0 then Plain else RootDomain)) (ge_domains e) else []) es)"

lemma gs_add_domain_target [simp]:
  "gs_target_category (gs_add_domain c d t g) = gs_target_category g"
  "gs_mark (gs_add_domain c d t g) = gs_mark g"
  by (simp_all add: gs_add_domain_def Let_def)

lemma gs_add_rules_target [simp]:
  "gs_target_category (gs_add_rules rs g) = gs_target_category g"
  "gs_mark (gs_add_rules rs g) = gs_mark g"
  by (induction rs arbitrary: g) (auto simp: gs_add_rules_def)

lemma add_text_lines_rules:
  "add_text_lines ls g = gs_add_rules (text_rules (gs_target_category g) ls) g"
  by (induction ls g rule: add_text_lines.induct) (auto simp: Let_def split: option.splits)

lemma add_entry_domains_rules:
  "add_entry_domains ds g =
     gs_add_rules (map (\<lambda>(t, v). (gs_target_category g, v, if t = 0 then Plain else RootDomain)) ds) g"
  by (induction ds g rule: add_entry_domains.induct) auto

lemma add_entry_domains_target [simp]:
  "gs_target_category (add_entry_domains ds g) = gs_target_category g"
  by (simp add: add_entry_domains_rules)

lemma entry_rules_Cons:
  "entry_rules target tag (e # es) =
     (if to_lower (country_code e) = tag
      then map (\<lambda>(t, v). (target, v, if t = 0 then Plain else RootDomain)) (ge_domains e) else [])
     @ entry_rules target tag es"
  by (simp add: entry_rules_def)

lemma add_entries_rules:
  "add_entries tag es g = gs_add_rules (entry_rules (gs_target_category g) tag es) g"
proof (induction es arbitrary: g)
  case (Cons e es)
  have "add_entries tag es (add_entry_domains (ge_domains e) g)
      = gs_add_rules (entry_rules (gs_target_category g) tag es) (add_entry_domains (ge_domains e) g)"
    by (simp add: Cons.IH)
  with Cons.IH show ?case
    by (simp add: entry_rules_Cons) (simp add: add_entry_domains_rules)
qed (simp add: entry_rules_def)

section \<open>Correctness\<close>

definition gs_sound :: "geosite \<Rightarrow> bool" where
  "gs_sound g \<longleftrightarrow> (\<forall>cat s. gs_categories g cat = Some s \<longrightarrow> ds.sound s)"

definition gs_cold :: "geosite \<Rightarrow> bool" where
  "gs_cold g \<longleftrightarrow> (\<forall>cat s. gs_categories g cat = Some s \<longrightarrow> ds_cache s = Map.empty)"

lemma gs_cold_sound: "gs_cold g \<Longrightarrow> gs_sound g"
  by (simp add: gs_cold_def gs_sound_def ds.sound_def)

lemma gs_cold_add_rules: "gs_cold g \<Longrightarrow> gs_cold (gs_add_rules rs g)"
proof (induction rs arbitrary: g)
  case (Cons r rs)
  obtain c d t where r: "r = (c, d, t)" by (cases r)
  have "gs_cold (gs_add_domain c d t g)"
    using Cons.prems
    by (cases t; cases "gs_categories g (to_lower c)")
       (auto simp: gs_cold_def gs_add_domain_def ds_add_plain_def ds_add_domain_def ds_default_def Let_def)
  with Cons r show ?case by simp
qed simp

text \<open>A plugin after loading, with any queries by name or from the pipeline.\<close>

inductive gs_reachable :: "gs_rule list \<Rightarrow> string \<Rightarrow> geosite \<Rightarrow> bool" for rules target where
  gs_loaded: "gs_reachable rules target (gs_add_rules rules (gs_new target))"
| gs_marked: "gs_reachable rules target g \<Longrightarrow> gs_reachable rules target (gs_with_mark mark g)"
| gs_asked: "gs_reachable rules target g \<Longrightarrow> gs_reachable rules target (snd (gs_matches q g))"
| gs_handled: "gs_reachable rules target g \<Longrightarrow> [] \<notin> set (split_on CHR ''.'' (ds_normalize q)) \<Longrightarrow>
     gs_reachable rules target (snd (gs_matches_with_parts (to_lower q) (label_ranges (to_lower q)) g))"

lemma gs_matches_snd:
  assumes "gs_sound g"
  shows "gs_sound (snd (gs_matches q g)) \<and> cat_compute (snd (gs_matches q g)) = cat_compute g
     \<and> gs_target_category (snd (gs_matches q g)) = gs_target_category g"
  using assms
  by (auto simp: gs_matches_def gs_sound_def cat_compute_def fun_eq_iff ds_matches_query split_beta
      ds.query_sound ds.rules_kept split: option.splits)

lemma gs_parts_eq:
  assumes "[] \<notin> set (split_on CHR ''.'' (ds_normalize q))"
  shows "gs_matches_with_parts (to_lower q) (label_ranges (to_lower q)) g = apfst Inr (gs_matches q g)"
  using ds_parts_query [OF assms]
  by (auto simp: gs_matches_with_parts_def gs_matches_def ds_matches_query split_beta split: option.splits)

lemma gs_reachable_inv:
  "gs_reachable rules target g \<Longrightarrow> gs_sound g \<and> gs_target_category g = to_lower target
     \<and> cat_compute g = cat_compute (gs_add_rules rules (gs_new target))"
proof (induction rule: gs_reachable.induct)
  case gs_loaded
  have "gs_cold (gs_new target)" by (simp add: gs_cold_def gs_new_def)
  then show ?case by (simp add: gs_cold_sound gs_cold_add_rules) (simp add: gs_new_def)
next
  case (gs_marked g mark)
  then show ?case by (simp add: gs_with_mark_def gs_sound_def cat_compute_def fun_eq_iff)
next
  case (gs_asked g q)
  with gs_matches_snd [of g q] show ?case by simp
next
  case (gs_handled g q)
  with gs_matches_snd [of g q] show ?case by (simp add: gs_parts_eq)
qed

text \<open>C13: A GeoSite plugin decides its rules: after loading and any number of
  queries, by name or from the pipeline, a domain matches exactly when a rule
  of the target category applies to it, and the allocation-free path gives the
  same answer on names without empty labels.\<close>

theorem geosite_decides:
  assumes "gs_reachable rules target g"
  shows "(fst (gs_matches q g) \<longleftrightarrow>
            (\<exists>r \<in> set rules. gs_rule_matches r (to_lower target) (ds_normalize q)))
     \<and> ([] \<notin> set (split_on CHR ''.'' (ds_normalize q)) \<longrightarrow>
          fst (gs_matches_with_parts (to_lower q) (label_ranges (to_lower q)) g) = Inr (fst (gs_matches q g)))"
proof
  from gs_reachable_inv [OF assms] have s: "gs_sound g" and t: "gs_target_category g = to_lower target"
    and c: "cat_compute g = cat_compute (gs_add_rules rules (gs_new target))" by simp_all
  have "fst (gs_matches q g) = cat_compute g (to_lower target) (ds_normalize q)"
    using s t by (auto simp: gs_matches_def cat_compute_def gs_sound_def ds_matches_query split_beta
        ds.query_value split: option.splits)
  also have "\<dots> \<longleftrightarrow> (\<exists>r \<in> set rules. gs_rule_matches r (to_lower target) (ds_normalize q))"
    unfolding c cat_compute_add_rules by (simp add: cat_compute_def gs_new_def)
  finally show "fst (gs_matches q g) \<longleftrightarrow>
      (\<exists>r \<in> set rules. gs_rule_matches r (to_lower target) (ds_normalize q))" .
qed (simp add: gs_parts_eq)

text \<open>The text loader, and a query of a subdomain in other letter case.\<close>

theorem geosite_decides_witness:
  "\<exists>g. load_text (Inr ''# list\<newline>cn:QQ.com\<newline>us:x.org'') (gs_new ''CN'') = Inr g
     \<and> fst (gs_matches ''im.qq.COM.'' g) \<and> \<not> fst (gs_matches ''x.org.'' g)"
proof -
  let ?rs = "[(''cn'', ''QQ.com'', RootDomain), (''us'', ''x.org'', RootDomain)]"
  let ?g = "gs_add_rules ?rs (gs_new ''CN'')"
  have r: "text_rules ''cn'' (str_lines ''# list\<newline>cn:QQ.com\<newline>us:x.org'') = ?rs" by code_simp
  have "gs_target_category (gs_new ''CN'') = ''cn''" by code_simp
  with r have "load_text (Inr ''# list\<newline>cn:QQ.com\<newline>us:x.org'') (gs_new ''CN'') = Inr ?g"
    by (simp add: load_text_def add_text_lines_rules)
  moreover have "(\<exists>r \<in> set ?rs. gs_rule_matches r (to_lower ''CN'') (ds_normalize ''im.qq.COM.''))
      \<and> \<not> (\<exists>r \<in> set ?rs. gs_rule_matches r (to_lower ''CN'') (ds_normalize ''x.org.''))"
    by code_simp
  ultimately show ?thesis using geosite_decides [OF gs_loaded] by blast
qed

lemma gs_handle_reply_ok:
  "fst (gs_handle g c) = Inr c' \<Longrightarrow> request c' = request c \<and> (reply_ok c \<longrightarrow> reply_ok c')"
  by (auto simp: gs_handle_def split: if_splits prod.splits sum.splits option.splits)

text \<open>The result cache is not invalidated when a rule is added: a name that was
  asked before keeps its old answer.  The factory adds all rules before the
  first query.\<close>

lemma gs_add_after_query_stale:
  "let g = snd (gs_matches ''a.b'' (gs_add_domain ''cn'' ''x.y'' Full (gs_new ''cn'')))
   in \<not> fst (gs_matches ''a.b'' (gs_add_domain ''cn'' ''a.b'' Full g))"
  by code_simp

end
