(* ===== verification/Local_Answers.thy ===== *)
theory Local_Answers
  imports Dns_Context
begin

text \<open>
  The plugins that answer by themselves: \<open>src/plugins/reject.rs\<close>,
  \<open>src/plugins/hosts.rs\<close>, \<open>src/plugins/adblock.rs\<close> and
  \<open>src/plugins/ipv6_filter.rs\<close>.  Reading a file is a parameter, its content or an
  error; parsing an address is the library parameter.
\<close>

section \<open>Reject\<close>

datatype reject_type =
  RjNxDomain | RjRefused | RjServFail | RjNoError | RjBlackholeV4 | RjBlackholeV6 | RjCustomIp string

definition reject_answer :: "dns_lib \<Rightarrow> reject_type \<Rightarrow> string \<Rightarrow> u16 \<Rightarrow> message \<Rightarrow> message" where
  "reject_answer L rcode qname qt resp =
     (case rcode of
        RjNxDomain \<Rightarrow> resp\<lparr>m_rcode := NXDomain\<rparr>
      | RjRefused \<Rightarrow> resp\<lparr>m_rcode := Refused\<rparr>
      | RjServFail \<Rightarrow> resp\<lparr>m_rcode := ServFail\<rparr>
      | RjNoError \<Rightarrow> resp\<lparr>m_rcode := NoError\<rparr>
      | RjBlackholeV4 \<Rightarrow>
          let resp = resp\<lparr>m_rcode := NoError\<rparr>
          in if qt = T_A then add_answer (from_rdata qname 300 (RD_A 0)) resp else resp
      | RjBlackholeV6 \<Rightarrow>
          let resp = resp\<lparr>m_rcode := NoError\<rparr>
          in if qt = T_AAAA then add_answer (from_rdata qname 300 (RD_AAAA 0)) resp else resp
      | RjCustomIp ip_str \<Rightarrow>
          let resp = resp\<lparr>m_rcode := NoError\<rparr>
          in (case lib_parse_ip L ip_str of
               Some (V4 v4) \<Rightarrow> if qt = T_A then add_answer (from_rdata qname 300 (RD_A v4)) resp else resp
             | Some (V6 v6) \<Rightarrow> if qt = T_AAAA then add_answer (from_rdata qname 300 (RD_AAAA v6)) resp else resp
             | None \<Rightarrow> resp))"

definition reject_handle :: "dns_lib \<Rightarrow> reject_type \<Rightarrow> 'h ctx \<Rightarrow> 'h ctx" where
  "reject_handle L rcode c =
     (case msg_query (request c) of
        None \<Rightarrow> c
      | Some query \<Rightarrow>
          let resp = (lib_new L)\<lparr>m_id := m_id (request c), m_type := ResponseMsg, m_opcode := OpQuery,
                            m_aa := False, m_rd := True, m_ra := True\<rparr>;
              resp = add_query query resp;
              resp = reject_answer L rcode (q_name query) (q_type query) resp
          in set_response resp True c)"

text \<open>The address a reject rule answers with, if it has one for this type.\<close>

definition reject_ip :: "dns_lib \<Rightarrow> reject_type \<Rightarrow> u16 \<Rightarrow> rdata option" where
  "reject_ip L rcode t =
     (case (if rcode = RjBlackholeV4 then Some (V4 0) else if rcode = RjBlackholeV6 then Some (V6 0)
            else case rcode of RjCustomIp s \<Rightarrow> lib_parse_ip L s | _ \<Rightarrow> None) of
        Some (V4 a) \<Rightarrow> if t = T_A then Some (RD_A a) else None
      | Some (V6 a) \<Rightarrow> if t = T_AAAA then Some (RD_AAAA a) else None
      | None \<Rightarrow> None)"

definition reject_rcode :: "reject_type \<Rightarrow> u16" where
  "reject_rcode r = (case r of RjNxDomain \<Rightarrow> NXDomain | RjRefused \<Rightarrow> Refused | RjServFail \<Rightarrow> ServFail | _ \<Rightarrow> NoError)"

lemma reject_answer_fields:
  assumes "m_answers r = []"
  shows "m_rcode (reject_answer L rc n t r) = reject_rcode rc"
    and "m_queries (reject_answer L rc n t r) = m_queries r"
    and "m_answers (reject_answer L rc n t r)
       = (case reject_ip L rc t of None \<Rightarrow> [] | Some d \<Rightarrow> [from_rdata n 300 d])"
  using assms
  by (cases rc; auto simp: reject_answer_def reject_rcode_def reject_ip_def Let_def
      split: option.splits ip_addr.splits)+

text \<open>A rejected query is answered at once with the configured code, the
  question echoed, and at most the one configured address, given only for the
  matching query type; the sequence stops.\<close>

theorem reject_answers:
  assumes "new_is_empty L" and "msg_query (request c) = Some q" and "ctx_min_ttl c = 0"
  shows "\<exists>m. response (reject_handle L rc c) = Some m \<and> ctx_abort (reject_handle L rc c)
     \<and> m_rcode m = reject_rcode rc \<and> m_queries m = [q] \<and> m_id m = m_id (request c)
     \<and> m_answers m = (case reject_ip L rc (q_type q) of None \<Rightarrow> [] | Some d \<Rightarrow> [from_rdata (q_name q) 300 d])"
  using assms
  by (simp add: reject_handle_def Let_def reject_answer_fields new_is_empty_def)

theorem reject_answers_witness:
  "\<exists>m. response (reject_handle sample_lib (RjCustomIp ''127.0.0.1'')
        (ctx_new (sample_msg\<lparr>m_queries := [\<lparr>q_name = ''a.'', q_type = 1, q_class = 1\<rparr>]\<rparr>) (V4 1, 53) 0 :: unit ctx))
     = Some m \<and> m_rcode m = 0 \<and> m_answers m = [from_rdata ''a.'' 300 (RD_A 0x7F000001)]"
proof -
  let ?q = "\<lparr>q_name = ''a.'', q_type = 1, q_class = 1\<rparr>"
  let ?c = "ctx_new (sample_msg\<lparr>m_queries := [?q]\<rparr>) (V4 1, 53) 0 :: unit ctx"
  have ip: "reject_ip sample_lib (RjCustomIp ''127.0.0.1'') 1 = Some (RD_A 0x7F000001)"
    by (simp add: reject_ip_def sample_lib_def)
  have "msg_query (request ?c) = Some ?q" "ctx_min_ttl ?c = 0"
    by (simp_all add: ctx_new_def)
  from reject_answers [OF sample_lib_new this, of "RjCustomIp ''127.0.0.1''"] ip show ?thesis
    by (auto simp: reject_rcode_def)
qed

lemma reject_handle_reply_ok [simp]:
  "request (reject_handle L rc c) = request c" "reply_ok c \<Longrightarrow> reply_ok (reject_handle L rc c)"
  by (simp_all add: reject_handle_def Let_def split: option.split)

section \<open>Hosts\<close>

type_synonym hosts_table = "string \<rightharpoonup> ip_addr list"

definition hosts_normalized :: "string \<Rightarrow> string" where
  "hosts_normalized hostname =
     (if ends_with hostname ''.'' then to_lower hostname else to_lower hostname @ ''.'')"

definition hosts_add :: "string \<Rightarrow> ip_addr \<Rightarrow> hosts_table \<Rightarrow> hosts_table" where
  "hosts_add hostname ip h =
     h(hosts_normalized hostname \<mapsto>
         (case h (hosts_normalized hostname) of Some ips \<Rightarrow> ips | None \<Rightarrow> []) @ [ip])"

definition has_host :: "string \<Rightarrow> hosts_table \<Rightarrow> bool" where
  "has_host hostname h = (h (hosts_normalized hostname) \<noteq> None)"

definition get_ips :: "string \<Rightarrow> hosts_table \<Rightarrow> ip_addr list option" where
  "get_ips hostname h = h (hosts_normalized hostname)"

fun hosts_add_names :: "string list \<Rightarrow> ip_addr \<Rightarrow> hosts_table \<Rightarrow> hosts_table" where
  "hosts_add_names [] ip h = h"
| "hosts_add_names (n # ns) ip h = hosts_add_names ns ip (hosts_add n ip h)"

fun hosts_load_lines :: "dns_lib \<Rightarrow> string list \<Rightarrow> hosts_table \<Rightarrow> hosts_table" where
  "hosts_load_lines L [] h = h"
| "hosts_load_lines L (line # ls) h =
     (let line = trim line in
      if line = [] \<or> starts_with line ''#'' then hosts_load_lines L ls h
      else
        let parts = split_whitespace line in
        if length parts < 2 then hosts_load_lines L ls h
        else case lib_parse_ip L (parts ! 0) of
               None \<Rightarrow> hosts_load_lines L ls h
             | Some ip \<Rightarrow> hosts_load_lines L ls (hosts_add_names (drop 1 parts) ip h))"

definition hosts_load_from_file :: "dns_lib \<Rightarrow> string result \<Rightarrow> hosts_table result" where
  "hosts_load_from_file L content =
     andthen content (\<lambda>content. Inr (hosts_load_lines L (str_lines content) Map.empty))"

text \<open>The loop over the addresses; the flag tells whether a record was added.\<close>

fun hosts_records :: "string \<Rightarrow> u16 \<Rightarrow> ip_addr list \<Rightarrow> message \<Rightarrow> bool \<Rightarrow> message \<times> bool" where
  "hosts_records name t [] resp added = (resp, added)"
| "hosts_records name t (V4 a # ips) resp added =
     (if t = T_A then hosts_records name t ips (add_answer (from_rdata name 300 (RD_A a)) resp) True
      else hosts_records name t ips resp added)"
| "hosts_records name t (V6 a # ips) resp added =
     (if t = T_AAAA then hosts_records name t ips (add_answer (from_rdata name 300 (RD_AAAA a)) resp) True
      else hosts_records name t ips resp added)"

definition hosts_create_response :: "'h ctx \<Rightarrow> u16 \<Rightarrow> hosts_table \<Rightarrow> message option" where
  "hosts_create_response c record_type h =
     (case msg_query (request c) of
        None \<Rightarrow> None
      | Some query \<Rightarrow>
          (case get_ips (qname_ref c) h of
             None \<Rightarrow> None
           | Some ips \<Rightarrow>
               let response = (request c)\<lparr>m_type := ResponseMsg, m_rcode := NoError, m_aa := True\<rparr>;
                   (response, added) = hosts_records (q_name query) record_type ips response False
               in if added then Some response else None))"

definition hosts_handle :: "hosts_table \<Rightarrow> 'h ctx \<Rightarrow> 'h ctx" where
  "hosts_handle h c =
     (case msg_query (request c) of
        None \<Rightarrow> c
      | Some query \<Rightarrow>
          if \<not> has_host (qname_ref c) h then c
          else if q_type query = T_A \<or> q_type query = T_AAAA
          then (case hosts_create_response c (q_type query) h of
                  Some resp \<Rightarrow> set_response resp True c
                | None \<Rightarrow> c)
          else c)"

subsection \<open>The table of a hosts file\<close>

text \<open>The entries of a file in order, one per name of a line.\<close>

fun hosts_entries :: "dns_lib \<Rightarrow> string list \<Rightarrow> (string \<times> ip_addr) list" where
  "hosts_entries L [] = []"
| "hosts_entries L (line # ls) =
     (let parts = split_whitespace (trim line) in
      (if trim line = [] \<or> starts_with (trim line) ''#'' \<or> length parts < 2 then []
       else case lib_parse_ip L (parts ! 0) of None \<Rightarrow> [] | Some ip \<Rightarrow> map (\<lambda>n. (n, ip)) (drop 1 parts))
      @ hosts_entries L ls)"

definition lookup_entries :: "string \<Rightarrow> (string \<times> ip_addr) list \<Rightarrow> ip_addr list" where
  "lookup_entries host es = map snd (filter (\<lambda>e. hosts_normalized (fst e) = hosts_normalized host) es)"

definition ips_of :: "string \<Rightarrow> hosts_table \<Rightarrow> ip_addr list" where
  "ips_of host h = (case get_ips host h of Some ips \<Rightarrow> ips | None \<Rightarrow> [])"

text \<open>No name has an empty list of addresses.\<close>

definition hosts_ok :: "hosts_table \<Rightarrow> bool" where
  "hosts_ok h \<longleftrightarrow> (\<forall>n. h n \<noteq> Some [])"

lemma hosts_add_names_ips:
  "hosts_ok h \<Longrightarrow> hosts_ok (hosts_add_names ns ip h)
     \<and> ips_of host (hosts_add_names ns ip h) = ips_of host h @ lookup_entries host (map (\<lambda>n. (n, ip)) ns)"
proof (induction ns arbitrary: h)
  case Nil
  then show ?case by (simp add: lookup_entries_def)
next
  case (Cons n ns)
  have "hosts_ok (hosts_add n ip h)" using Cons.prems by (simp add: hosts_ok_def hosts_add_def)
  moreover have "ips_of host (hosts_add n ip h) =
      ips_of host h @ (if hosts_normalized n = hosts_normalized host then [ip] else [])"
    by (simp add: ips_of_def get_ips_def hosts_add_def split: option.split)
  ultimately show ?case using Cons.IH by (simp add: lookup_entries_def)
qed

lemma lookup_entries_append [simp]:
  "lookup_entries host (es @ es') = lookup_entries host es @ lookup_entries host es'"
  by (simp add: lookup_entries_def)

lemma hosts_load_lines_ips:
  "hosts_ok h \<Longrightarrow> hosts_ok (hosts_load_lines L ls h)
     \<and> ips_of host (hosts_load_lines L ls h) = ips_of host h @ lookup_entries host (hosts_entries L ls)"
proof (induction L ls h rule: hosts_load_lines.induct)
  case (1 L h)
  then show ?case by (simp add: lookup_entries_def)
next
  case (2 L line ls h)
  show ?case
  proof (cases "trim line = [] \<or> starts_with (trim line) ''#'' \<or> length (split_whitespace (trim line)) < 2")
    case True
    with 2 show ?thesis by (auto simp: Let_def lookup_entries_def)
  next
    case False
    then show ?thesis
      using 2 hosts_add_names_ips [OF "2.prems"]
      by (cases "lib_parse_ip L (split_whitespace (trim line) ! 0)")
         (simp_all add: Let_def lookup_entries_def)
  qed
qed

lemma hosts_loaded:
  assumes "hosts_load_from_file L (Inr content) = Inr h"
  shows "get_ips host h = (let ips = lookup_entries host (hosts_entries L (str_lines content))
                           in if ips = [] then None else Some ips)"
proof -
  have h: "h = hosts_load_lines L (str_lines content) Map.empty"
    using assms by (simp add: hosts_load_from_file_def)
  have "hosts_ok Map.empty" "ips_of host Map.empty = []"
    by (simp_all add: hosts_ok_def ips_of_def get_ips_def)
  with hosts_load_lines_ips [of Map.empty L "str_lines content" host] h
  have "hosts_ok h" "ips_of host h = lookup_entries host (hosts_entries L (str_lines content))" by simp_all
  then show ?thesis
    by (cases "get_ips host h") (auto simp: ips_of_def hosts_ok_def get_ips_def Let_def)
qed

definition rdata_of :: "ip_addr \<Rightarrow> rdata" where
  "rdata_of ip = (case ip of V4 a \<Rightarrow> RD_A a | V6 a \<Rightarrow> RD_AAAA a)"

lemma hosts_records_eq:
  "t = T_A \<or> t = T_AAAA \<Longrightarrow> hosts_records n t ips r b =
     (let ds = filter (\<lambda>d. rdata_type d = t) (map rdata_of ips)
      in (r\<lparr>m_answers := m_answers r @ map (from_rdata n 300) ds\<rparr>, b \<or> ds \<noteq> []))"
  by (induction n t ips r b rule: hosts_records.induct) (auto simp: rdata_of_def add_answer_def)

subsection \<open>Answers\<close>

text \<open>A query for a name of the hosts file is answered with exactly the
  addresses that the file gives this name, of the family asked for, in file
  order, each under the name of the question; a name or a family without
  addresses passes through unchanged.\<close>

lemma hosts_answers:
  assumes "hosts_load_from_file L (Inr content) = Inr h"
    and "msg_query (request c) = Some q" and "q_type q = T_A \<or> q_type q = T_AAAA"
    and "ctx_min_ttl c = 0"
    and ds: "ds = filter (\<lambda>d. rdata_type d = q_type q)
               (map rdata_of (lookup_entries (qname_ref c) (hosts_entries L (str_lines content))))"
  shows "if ds = [] then hosts_handle h c = c
     else \<exists>m. response (hosts_handle h c) = Some m \<and> ctx_abort (hosts_handle h c)
        \<and> m_answers m = m_answers (request c) @ map (from_rdata (q_name q) 300) ds
        \<and> m_type m = ResponseMsg \<and> m_rcode m = NoError \<and> m_queries m = m_queries (request c)"
proof -
  let ?ips = "lookup_entries (qname_ref c) (hosts_entries L (str_lines content))"
  have g: "get_ips (qname_ref c) h = (if ?ips = [] then None else Some ?ips)"
    using hosts_loaded [OF assms(1)] by (simp add: Let_def)
  then have hh: "has_host (qname_ref c) h \<longleftrightarrow> ?ips \<noteq> []" by (simp add: has_host_def get_ips_def)
  show ?thesis
  proof (cases "?ips = []")
    case True
    with hh assms(2) ds show ?thesis by (simp add: hosts_handle_def)
  next
    case False
    with hh g assms(2,3,4) ds show ?thesis
      by (auto simp: hosts_handle_def hosts_create_response_def hosts_records_eq Let_def)
  qed
qed

theorem hosts_answers_witness:
  "\<exists>h m. hosts_load_from_file sample_lib (Inr ''127.0.0.1 localhost Box.lan\<newline>::1 box.lan.'') = Inr h
     \<and> response (hosts_handle h
        (ctx_new (sample_msg\<lparr>m_queries := [\<lparr>q_name = ''BOX.lan.'', q_type = 28, q_class = 1\<rparr>]\<rparr>) (V4 1, 53) 0 :: unit ctx))
       = Some m \<and> m_answers m = [from_rdata ''BOX.lan.'' 300 (RD_AAAA 1)]"
proof -
  let ?t = "''127.0.0.1 localhost Box.lan\<newline>::1 box.lan.''"
  let ?q = "\<lparr>q_name = ''BOX.lan.'', q_type = 28, q_class = 1\<rparr>"
  let ?c = "ctx_new (sample_msg\<lparr>m_queries := [?q]\<rparr>) (V4 1, 53) 0 :: unit ctx"
  obtain h where h: "hosts_load_from_file sample_lib (Inr ?t) = Inr h"
    by (simp add: hosts_load_from_file_def)
  have q: "msg_query (request ?c) = Some ?q" "ctx_min_ttl ?c = 0" "qname_ref ?c = ''BOX.lan.''"
    "m_answers (request ?c) = []"
    by (simp_all add: ctx_new_def qname_ref_def compute_qname_def)
  have l: "str_lines ?t = [''127.0.0.1 localhost Box.lan'', ''::1 box.lan.'']"
    "split_whitespace ''127.0.0.1 localhost Box.lan'' = [''127.0.0.1'', ''localhost'', ''Box.lan'']"
    "split_whitespace ''::1 box.lan.'' = [''::1'', ''box.lan.'']"
    "trim ''127.0.0.1 localhost Box.lan'' = ''127.0.0.1 localhost Box.lan''"
    "trim ''::1 box.lan.'' = ''::1 box.lan.''"
    "hosts_normalized ''BOX.lan.'' = ''box.lan.''" "hosts_normalized ''Box.lan'' = ''box.lan.''"
    "hosts_normalized ''box.lan.'' = ''box.lan.''" "hosts_normalized ''localhost'' = ''localhost.''"
    by code_simp+
  have p: "lib_parse_ip sample_lib ''127.0.0.1'' = Some (V4 0x7F000001)" "lib_parse_ip sample_lib ''::1'' = Some (V6 1)"
    by (simp_all add: sample_lib_def)
  have "filter (\<lambda>d. rdata_type d = q_type ?q)
      (map rdata_of (lookup_entries (qname_ref ?c) (hosts_entries sample_lib (str_lines ?t)))) = [RD_AAAA 1]"
    by (simp add: q l p lookup_entries_def rdata_of_def starts_with_def Let_def)
  with hosts_answers [OF h q(1) _ q(2) refl] h q(4) show ?thesis by auto
qed

lemma hosts_handle_reply_ok [simp]:
  "request (hosts_handle h c) = request c" "reply_ok c \<Longrightarrow> reply_ok (hosts_handle h c)"
  by (simp_all add: hosts_handle_def split: option.split)

section \<open>Ad blocking\<close>

record rule_set =
  rs_exact :: "string set"
  rs_suffix :: "string set"

definition rs_new :: rule_set where
  "rs_new = \<lparr>rs_exact = {}, rs_suffix = {}\<rparr>"

definition rs_insert :: "string \<Rightarrow> rule_set \<Rightarrow> rule_set" where
  "rs_insert pattern rs =
     (let clean = trim pattern in
      if clean = [] \<or> starts_with clean ''!'' \<or> starts_with clean ''['' \<or> contains_str clean ''##'' then rs
      else case strip_prefix clean ''||'' of
             Some domain \<Rightarrow>
               let domain = trim_end_if (\<lambda>c. \<not> is_alnum c \<and> c \<noteq> CHR ''.'' \<and> c \<noteq> CHR ''-'') domain
               in rs\<lparr>rs_suffix := insert (to_lower domain) (rs_suffix rs)\<rparr>
           | None \<Rightarrow>
               let domain = (if starts_with clean ''127.0.0.1 '' \<or> starts_with clean ''0.0.0.0 ''
                             then (let parts = split_whitespace clean
                                   in if 1 < length parts then parts ! 1 else [])
                             else clean)
               in rs\<lparr>rs_exact := insert (to_lower domain) (rs_exact rs)\<rparr>)"

text \<open>The loop that strips one label after the other.\<close>

fun after_dot :: "string \<Rightarrow> string option" where
  "after_dot [] = None"
| "after_dot (c # cs) = (if c = CHR ''.'' then Some cs else after_dot cs)"

lemma after_dot_length [termination_simp]: "after_dot d = Some d' \<Longrightarrow> length d' < length d"
  by (induction d) (auto split: if_splits)

fun rs_suffix_loop :: "string set \<Rightarrow> string \<Rightarrow> bool" where
  "rs_suffix_loop S d =
     (if d = [] then False
      else if d \<in> S then True
      else case after_dot d of Some d' \<Rightarrow> rs_suffix_loop S d' | None \<Rightarrow> False)"

definition rs_matches :: "rule_set \<Rightarrow> string \<Rightarrow> bool" where
  "rs_matches rs domain =
     (let domain_lower = to_lower domain
      in if domain_lower \<in> rs_exact rs then True else rs_suffix_loop (rs_suffix rs) domain_lower)"

record adblock =
  ab_blacklist :: rule_set
  ab_whitelist :: rule_set

fun adblock_load_lines :: "string list \<Rightarrow> adblock \<Rightarrow> adblock" where
  "adblock_load_lines [] ab = ab"
| "adblock_load_lines (line # ls) ab =
     (let line = trim line
      in adblock_load_lines ls
          (if starts_with line ''@@''
           then ab\<lparr>ab_whitelist := rs_insert (drop 2 line) (ab_whitelist ab)\<rparr>
           else ab\<lparr>ab_blacklist := rs_insert line (ab_blacklist ab)\<rparr>))"

text \<open>A file that cannot be read is skipped.\<close>

definition adblock_new :: "string result list \<Rightarrow> adblock" where
  "adblock_new files =
     fold (\<lambda>f ab. case f of Inr content \<Rightarrow> adblock_load_lines (str_lines content) ab | Inl _ \<Rightarrow> ab)
       files \<lparr>ab_blacklist = rs_new, ab_whitelist = rs_new\<rparr>"

text \<open>The handler; the second component is the name recorded in the statistics.\<close>

definition adblock_handle :: "dns_lib \<Rightarrow> adblock \<Rightarrow> 'h ctx \<Rightarrow> 'h ctx \<times> string option" where
  "adblock_handle L ab c =
     (if response c \<noteq> None then (c, None)
      else case msg_query (request c) of
             None \<Rightarrow> (c, None)
           | Some query \<Rightarrow>
               let hostname = trim_end_matches CHR ''.'' (qname_ref c) in
               if rs_matches (ab_whitelist ab) hostname then (c, None)
               else if rs_matches (ab_blacklist ab) hostname
               then (c\<lparr>response := Some (add_query query
                        ((lib_new L)\<lparr>m_id := m_id (request c), m_opcode := OpQuery, m_type := ResponseMsg,
                            m_rcode := NXDomain, m_ra := True\<rparr>))\<rparr>, Some hostname)
               else (c, None))"

subsection \<open>What the rules mean\<close>

declare rs_suffix_loop.simps [simp del]

lemma after_dot_None: "after_dot d = None \<longleftrightarrow> CHR ''.'' \<notin> set d"
  by (induction d) auto

lemma after_dot_Some: "after_dot d = Some d' \<longleftrightarrow> (\<exists>l. CHR ''.'' \<notin> set l \<and> d = l @ CHR ''.'' # d')"
proof (induction d)
  case (Cons c d)
  then show ?case by (auto simp: Cons_eq_append_conv)
qed simp

lemma dot_suffix_after:
  assumes "CHR ''.'' \<notin> set l"
  shows "suffix (CHR ''.'' # s) (l @ CHR ''.'' # d) \<longleftrightarrow> s = d \<or> suffix (CHR ''.'' # s) d"
  using assms
proof (induction l)
  case Nil
  show ?case by (auto simp: suffix_Cons)
next
  case (Cons c l)
  then show ?case by (auto simp: suffix_Cons)
qed

lemma rs_suffix_loop_iff:
  "rs_suffix_loop S d \<longleftrightarrow> (\<exists>s \<in> S. s \<noteq> [] \<and> (d = s \<or> suffix (CHR ''.'' # s) d))"
proof (induction S d rule: rs_suffix_loop.induct)
  case (1 S d)
  show ?case
  proof (cases "d = [] \<or> d \<in> S")
    case True
    then show ?thesis by (subst rs_suffix_loop.simps) auto
  next
    case False
    show ?thesis
    proof (cases "after_dot d")
      case None
      then have "\<not> suffix (CHR ''.'' # s) d" for s
        by (metis after_dot_None list.set_intros(1) set_mono_suffix subsetD)
      with False None show ?thesis by (subst rs_suffix_loop.simps) auto
    next
      case (Some d')
      then obtain l where l: "CHR ''.'' \<notin> set l" "d = l @ CHR ''.'' # d'"
        by (auto simp: after_dot_Some)
      have "rs_suffix_loop S d = rs_suffix_loop S d'"
        using False Some by (subst rs_suffix_loop.simps) simp
      also have "\<dots> \<longleftrightarrow> (\<exists>s \<in> S. s \<noteq> [] \<and> (d' = s \<or> suffix (CHR ''.'' # s) d'))"
        using 1 False Some by simp
      also have "\<dots> \<longleftrightarrow> (\<exists>s \<in> S. s \<noteq> [] \<and> (d = s \<or> suffix (CHR ''.'' # s) d))"
        using False dot_suffix_after [OF l(1)] l(2) by auto
      finally show ?thesis .
    qed
  qed
qed

text \<open>What a rule set covers: a name by equality with an exact rule, or the name
  of a suffix rule or one below it at a label boundary.\<close>

definition rs_covers :: "rule_set \<Rightarrow> string \<Rightarrow> bool" where
  "rs_covers rs d \<longleftrightarrow> d \<in> rs_exact rs
     \<or> (\<exists>s \<in> rs_suffix rs. s \<noteq> [] \<and> (d = s \<or> suffix (CHR ''.'' # s) d))"

lemma rs_matches_iff: "rs_matches rs domain \<longleftrightarrow> rs_covers rs (to_lower domain)"
  by (simp add: rs_matches_def rs_covers_def Let_def rs_suffix_loop_iff)

text \<open>C14: The blocker's decision: a query without a response is answered NXDOMAIN
  exactly when a blacklist rule covers its name and no whitelist rule does,
  whatever the letter case; otherwise the context is unchanged, and a response
  that is already there is kept.\<close>

theorem adblock_blocks:
  assumes "msg_query (request c) = Some q"
    and "d = to_lower (trim_end_matches CHR ''.'' (qname_ref c))"
  shows "if response c = None \<and> rs_covers (ab_blacklist ab) d \<and> \<not> rs_covers (ab_whitelist ab) d
     then \<exists>m. response (fst (adblock_handle L ab c)) = Some m \<and> m_rcode m = NXDomain
        \<and> m_id m = m_id (request c) \<and> m_answers m = m_answers (lib_new L)
        \<and> snd (adblock_handle L ab c) = Some (trim_end_matches CHR ''.'' (qname_ref c))
     else adblock_handle L ab c = (c, None)"
  using assms by (auto simp: adblock_handle_def rs_matches_iff Let_def)

text \<open>A list that blocks a domain and allows one below it.\<close>

definition sample_blocklist :: string where
  "sample_blocklist = ''! title\<newline>||Ads.example.com^\<newline>@@||ok.ads.example.com^\<newline>0.0.0.0 track.net''"

lemma sample_blocklist_rules:
  "adblock_new [Inr sample_blocklist] =
     \<lparr>ab_blacklist = \<lparr>rs_exact = {''track.net''}, rs_suffix = {''ads.example.com''}\<rparr>,
      ab_whitelist = \<lparr>rs_exact = {}, rs_suffix = {''ok.ads.example.com''}\<rparr>\<rparr>"
  by code_simp

definition sample_query_ctx :: "string \<Rightarrow> u16 \<Rightarrow> unit ctx" where
  "sample_query_ctx n t =
     ctx_new (sample_msg\<lparr>m_id := 7, m_queries := [\<lparr>q_name = n, q_type = t, q_class = 1\<rparr>]\<rparr>) (V4 0x0A000001, 53) 0"

lemma sample_query_ctx_simps [simp]:
  "msg_query (request (sample_query_ctx n t)) = Some \<lparr>q_name = n, q_type = t, q_class = 1\<rparr>"
  "qname_ref (sample_query_ctx n t) = n" "ctx_min_ttl (sample_query_ctx n t) = 0"
  "response (sample_query_ctx n t) = None" "m_id (request (sample_query_ctx n t)) = 7"
  by (simp_all add: sample_query_ctx_def ctx_new_def qname_ref_def compute_qname_def)

theorem adblock_blocks_witness:
  "(\<exists>m. response (fst (adblock_handle sample_lib (adblock_new [Inr sample_blocklist])
        (sample_query_ctx ''X.ads.Example.com.'' 1))) = Some m \<and> m_rcode m = 3 \<and> m_id m = 7)
   \<and> adblock_handle sample_lib (adblock_new [Inr sample_blocklist]) (sample_query_ctx ''ok.ads.example.com.'' 1)
       = (sample_query_ctx ''ok.ads.example.com.'' 1, None)"
proof -
  let ?ab = "adblock_new [Inr sample_blocklist]"
  have d: "to_lower (trim_end_matches CHR ''.'' ''X.ads.Example.com.'') = ''x.ads.example.com''"
    "to_lower (trim_end_matches CHR ''.'' ''ok.ads.example.com.'') = ''ok.ads.example.com''"
    by code_simp+
  have c: "rs_covers (ab_blacklist ?ab) ''x.ads.example.com''" "\<not> rs_covers (ab_whitelist ?ab) ''x.ads.example.com''"
    "rs_covers (ab_whitelist ?ab) ''ok.ads.example.com''"
    by (simp_all add: sample_blocklist_rules rs_covers_def suffix_def)
  note b = adblock_blocks [OF sample_query_ctx_simps(1) refl, of "''X.ads.Example.com.''" 1 ?ab sample_lib]
    and w = adblock_blocks [OF sample_query_ctx_simps(1) refl, of "''ok.ads.example.com.''" 1 ?ab sample_lib]
  from b d c have "\<exists>m. response (fst (adblock_handle sample_lib ?ab (sample_query_ctx ''X.ads.Example.com.'' 1)))
      = Some m \<and> m_rcode m = 3 \<and> m_id m = 7"
    by auto
  moreover from w d c have "adblock_handle sample_lib ?ab (sample_query_ctx ''ok.ads.example.com.'' 1)
      = (sample_query_ctx ''ok.ads.example.com.'' 1, None)"
    by simp
  ultimately show ?thesis by blast
qed

section \<open>IPv6 filter\<close>

datatype ipv6_filter_mode = PreferIpv4 | PreferIpv6 | DisableIpv6 | Disabled

record ipv6_filter =
  vf_mode :: ipv6_filter_mode
  vf_delay_aaaa_ms :: u64

definition ipv6_filter_new :: "string \<Rightarrow> u64 \<Rightarrow> ipv6_filter" where
  "ipv6_filter_new mode delay =
     \<lparr>vf_mode = (let m = to_lower mode in
        if m = ''prefer_ipv4'' then PreferIpv4 else if m = ''prefer_ipv6'' then PreferIpv6
        else if m = ''disable_ipv6'' then DisableIpv6 else Disabled),
      vf_delay_aaaa_ms = delay\<rparr>"

text \<open>The handler; the second component is the time it sleeps, in milliseconds.\<close>

definition ipv6_filter_handle :: "dns_lib \<Rightarrow> ipv6_filter \<Rightarrow> 'h ctx \<Rightarrow> 'h ctx \<times> nat" where
  "ipv6_filter_handle L p c =
     (if response c \<noteq> None \<or> vf_mode p = Disabled then (c, 0)
      else case msg_query (request c) of
             None \<Rightarrow> (c, 0)
           | Some query \<Rightarrow>
               (case vf_mode p of
                  DisableIpv6 \<Rightarrow>
                    if q_type query = T_AAAA
                    then (c\<lparr>response := Some (add_query query
                            ((lib_new L)\<lparr>m_id := m_id (request c), m_opcode := OpQuery, m_type := ResponseMsg,
                               m_rcode := NoError, m_ra := True\<rparr>))\<rparr>, 0)
                    else (c, 0)
                | PreferIpv4 \<Rightarrow>
                    (c, if q_type query = T_AAAA \<and> 0 < vf_delay_aaaa_ms p then unat (vf_delay_aaaa_ms p) else 0)
                | PreferIpv6 \<Rightarrow>
                    (c, if q_type query = T_A \<and> 0 < vf_delay_aaaa_ms p then unat (vf_delay_aaaa_ms p) else 0)
                | Disabled \<Rightarrow> (c, 0)))"

text \<open>Only the disabling mode answers, and only AAAA questions; the two preferring
  modes delay the other family and change nothing.\<close>

lemma ipv6_filter_cases:
  assumes "msg_query (request c) = Some q"
  shows "if response c = None \<and> vf_mode p = DisableIpv6 \<and> q_type q = T_AAAA
     then \<exists>m. response (fst (ipv6_filter_handle L p c)) = Some m \<and> m_rcode m = NoError
        \<and> m_answers m = m_answers (lib_new L) \<and> m_id m = m_id (request c)
     else fst (ipv6_filter_handle L p c) = c"
  using assms by (cases "vf_mode p") (auto simp: ipv6_filter_handle_def)

text \<open>Neither the blocker nor the filter calls \<open>set_response\<close>: they set the ID
  themselves, do not stop the sequence, and leave a raw response that is
  already there in place, which takes priority when the reply is sent.\<close>

lemma adblock_handle_reply_ok:
  "reply_ok c \<Longrightarrow> reply_ok (fst (adblock_handle L ab c))"
  "request (fst (adblock_handle L ab c)) = request c"
  "ctx_abort (fst (adblock_handle L ab c)) = ctx_abort c"
  by (simp_all add: adblock_handle_def reply_ok_put Let_def split: option.split)

lemma ipv6_filter_handle_reply_ok:
  "reply_ok c \<Longrightarrow> reply_ok (fst (ipv6_filter_handle L p c))"
  "request (fst (ipv6_filter_handle L p c)) = request c"
  "ctx_abort (fst (ipv6_filter_handle L p c)) = ctx_abort c"
  by (simp_all add: ipv6_filter_handle_def reply_ok_put split: option.split ipv6_filter_mode.split)

end
