(* ===== verification/Response_Rewrite.thy ===== *)
theory Response_Rewrite
  imports Dns_Context Memo_Cache
begin

text \<open>
  The plugins that inspect or rewrite a message on its way: \<open>src/plugins/ttl.rs\<close>,
  \<open>dns64.rs\<close>, \<open>dnssec.rs\<close>, \<open>ecs.rs\<close>, \<open>fakeip.rs\<close>, \<open>geoip.rs\<close> and \<open>ip_matcher.rs\<close>.
  They see parsed responses only: a raw response passes through all of them.
  The MaxMind reader and the parsers of addresses and networks are parameters.
\<close>

section \<open>TTL\<close>

record ttl_plugin =
  tp_fixed :: "u32 option"
  tp_min :: "u32 option"
  tp_max :: "u32 option"

definition ttl_of :: "ttl_plugin \<Rightarrow> u32 \<Rightarrow> u32" where
  "ttl_of p original_ttl =
     (case tp_fixed p of
        Some fixed_ttl \<Rightarrow> fixed_ttl
      | None \<Rightarrow>
          let new_ttl = (case tp_min p of Some m \<Rightarrow> if original_ttl < m then m else original_ttl | None \<Rightarrow> original_ttl)
          in (case tp_max p of Some m \<Rightarrow> if m < new_ttl then m else new_ttl | None \<Rightarrow> new_ttl))"

definition set_ttl_of :: "ttl_plugin \<Rightarrow> rr \<Rightarrow> rr" where
  "set_ttl_of p r = (if ttl_of p (rr_ttl r) \<noteq> rr_ttl r then r\<lparr>rr_ttl := ttl_of p (rr_ttl r)\<rparr> else r)"

definition apply_ttl :: "ttl_plugin \<Rightarrow> 'h ctx \<Rightarrow> 'h ctx" where
  "apply_ttl p c =
     (case response c of
        None \<Rightarrow> c
      | Some resp \<Rightarrow> c\<lparr>response := Some (resp\<lparr>m_answers := map (set_ttl_of p) (m_answers resp)\<rparr>)\<rparr>)"

text \<open>Without a fixed value and with \<open>min \<le> max\<close> every TTL lands in the interval, and
  one that is already there is kept; data and order never change.\<close>

lemma ttl_of_clamp:
  assumes "tp_fixed p = None" "tp_min p = Some lo" "tp_max p = Some hi" "lo \<le> hi"
  shows "lo \<le> ttl_of p t \<and> ttl_of p t \<le> hi \<and> (lo \<le> t \<and> t \<le> hi \<longrightarrow> ttl_of p t = t)"
  using assms by (auto simp: ttl_of_def Let_def not_less)

lemma apply_ttl_response:
  "response c = Some m \<Longrightarrow> \<exists>m'. response (apply_ttl p c) = Some m'
     \<and> map rr_data (m_answers m') = map rr_data (m_answers m)
     \<and> map rr_ttl (m_answers m') = map (\<lambda>r. ttl_of p (rr_ttl r)) (m_answers m)"
  by (auto simp: apply_ttl_def set_ttl_of_def)

lemma apply_ttl_reply_ok:
  assumes "reply_ok c"
  shows "request (apply_ttl p c) = request c \<and> reply_ok (apply_ttl p c)"
proof (cases "response c")
  case None
  with assms show ?thesis by (simp add: apply_ttl_def)
next
  case (Some m)
  have "reply_ok (c\<lparr>response := Some (m\<lparr>m_answers := as\<rparr>)\<rparr>)" for as
    using reply_ok_response [OF assms Some] by (intro reply_ok_put [OF assms]) simp
  with Some show ?thesis by (simp add: apply_ttl_def)
qed

section \<open>DNS64\<close>

record dns64 =
  d64_prefix :: "128 word"
  d64_prefix_len :: u8
  d64_only_if_no_aaaa :: bool

text \<open>\<open>parse_v6\<close> and \<open>parse_u8\<close> are the parsers of the standard library.\<close>

definition parse_prefix ::
  "(string \<Rightarrow> (128 word) option) \<Rightarrow> (string \<Rightarrow> u8 option) \<Rightarrow> string \<Rightarrow> (128 word \<times> u8) result" where
  "parse_prefix parse_v6 parse_u8 s =
     (let parts = split_on CHR ''/'' s in
      case parse_v6 (hd parts) of
        None \<Rightarrow> Inl (Error ''Invalid IPv6 prefix'')
      | Some addr \<Rightarrow>
          let len = (if 1 < length parts
                     then (case parse_u8 (parts ! 1) of Some l \<Rightarrow> l | None \<Rightarrow> 96) else 96)
          in if len \<noteq> 96 \<and> len \<noteq> 64 \<and> len \<noteq> 56 \<and> len \<noteq> 48 \<and> len \<noteq> 40 \<and> len \<noteq> 32
             then Inl (Error ''DNS64 prefix length must be 32, 40, 48, 56, 64, or 96'')
             else Inr (addr, len))"

definition dns64_new ::
  "(string \<Rightarrow> (128 word) option) \<Rightarrow> (string \<Rightarrow> u8 option) \<Rightarrow> string option \<Rightarrow> bool \<Rightarrow> dns64 result" where
  "dns64_new parse_v6 parse_u8 pfx only_if_no_aaaa =
     andthen (case pfx of
                Some p \<Rightarrow> parse_prefix parse_v6 parse_u8 p
              | None \<Rightarrow> Inr (v6_from_octets ([0, 0x64, 0xff, 0x9b] @ replicate 12 0), 96))
       (\<lambda>(addr, len). Inr \<lparr>d64_prefix = addr, d64_prefix_len = len, d64_only_if_no_aaaa = only_if_no_aaaa\<rparr>)"

definition synthesize_ipv6 :: "dns64 \<Rightarrow> u32 \<Rightarrow> 128 word" where
  "synthesize_ipv6 p ipv4 =
     (let v4 = v4_octets ipv4; pre = v6_octets (d64_prefix p)
      in if d64_prefix_len p = 96 then v6_from_octets (take 12 pre @ v4)
         else if d64_prefix_len p = 64
         then v6_from_octets (take 8 pre @ [0] @ v4 @ [0, 0, 0])
         else v6_from_octets (take 12 pre @ v4))"

definition has_aaaa_records :: "message \<Rightarrow> bool" where
  "has_aaaa_records m = list_ex (\<lambda>r. rr_type r = T_AAAA) (m_answers m)"

text \<open>An \<open>A\<close> record is one whose data is an address; a record of that type
  number with other data is dropped.\<close>

fun a_record :: "rr \<Rightarrow> (string \<times> u32 \<times> u32) option" where
  "a_record r = (case rr_data r of RD_A a \<Rightarrow> Some (rr_name r, rr_ttl r, a) | _ \<Rightarrow> None)"

definition get_a_records :: "message \<Rightarrow> (string \<times> u32 \<times> u32) list" where
  "get_a_records m = List.map_filter a_record (m_answers m)"

definition dns64_handle :: "dns_lib \<Rightarrow> dns64 \<Rightarrow> 'h ctx \<Rightarrow> 'h ctx" where
  "dns64_handle L p c =
     (case msg_query (request c) of
        None \<Rightarrow> c
      | Some query \<Rightarrow>
          if q_type query \<noteq> T_AAAA then c
          else case response c of
                 None \<Rightarrow> c
               | Some resp \<Rightarrow>
                   if d64_only_if_no_aaaa p \<and> has_aaaa_records resp then c
                   else
                     let a_records = get_a_records resp in
                     if a_records = [] then c
                     else
                       let new = (lib_new L)\<lparr>m_id := m_id (request c), m_type := ResponseMsg,
                                   m_opcode := m_opcode resp, m_rcode := NoError, m_rd := True, m_ra := True\<rparr>;
                           new = add_query query new;
                           new = fold (\<lambda>(name, ttl, ipv4).
                                   add_answer (from_rdata name ttl (RD_AAAA (synthesize_ipv6 p ipv4)))) a_records new;
                           new = new\<lparr>m_authority := m_authority new @ m_authority resp,
                                     m_additionals := m_additionals new @ m_additionals resp\<rparr>
                       in c\<lparr>response := Some new\<rparr>)"

text \<open>The IPv4 address embedded in a synthesized one.\<close>

definition embedded_ipv4 :: "u8 \<Rightarrow> 128 word \<Rightarrow> u32" where
  "embedded_ipv4 len a =
     v4_from_octets (if len = 64 then take 4 (drop 9 (v6_octets a)) else drop 12 (v6_octets a))"

lemma synthesize_octets:
  "v6_octets (synthesize_ipv6 p a) =
     (if d64_prefix_len p = 64 then take 8 (v6_octets (d64_prefix p)) @ [0] @ v4_octets a @ [0, 0, 0]
      else take 12 (v6_octets (d64_prefix p)) @ v4_octets a)"
  by (simp add: synthesize_ipv6_def Let_def octets_from_octets)

lemma fold_add_answers:
  "fold (\<lambda>(n, t, a). add_answer (from_rdata n t (f a))) rs m =
     m\<lparr>m_answers := m_answers m @ map (\<lambda>(n, t, a). from_rdata n t (f a)) rs\<rparr>"
  by (induction rs arbitrary: m) (auto simp: add_answer_def)

text \<open>DNS64 answers an AAAA question that got only IPv4 addresses: the answer
  section is the list of its A records in order, with owner and TTL kept, each
  address the configured prefix with the IPv4 address embedded in it, from
  which the IPv4 address can be read back; ID and question are the request's,
  and the authority records are kept.\<close>

lemma dns64_synthesizes:
  assumes "new_is_empty L" and "msg_query (request c) = Some q" and "q_type q = T_AAAA"
    and "response c = Some m" and "\<not> has_aaaa_records m" and "get_a_records m \<noteq> []"
  shows "\<exists>m'. response (dns64_handle L p c) = Some m'
     \<and> m_answers m' = map (\<lambda>(n, t, a). from_rdata n t (RD_AAAA (synthesize_ipv6 p a))) (get_a_records m)
     \<and> (\<forall>(n, t, a) \<in> set (get_a_records m).
          embedded_ipv4 (d64_prefix_len p) (synthesize_ipv6 p a) = a
          \<and> take 8 (v6_octets (synthesize_ipv6 p a)) = take 8 (v6_octets (d64_prefix p)))
     \<and> m_id m' = m_id (request c) \<and> m_queries m' = [q] \<and> m_authority m' = m_authority m"
proof -
  have e: "embedded_ipv4 (d64_prefix_len p) (synthesize_ipv6 p a) = a
      \<and> take 8 (v6_octets (synthesize_ipv6 p a)) = take 8 (v6_octets (d64_prefix p))" for a
    by (simp add: embedded_ipv4_def synthesize_octets)
  have "m_authority (add_query q x) = m_authority x" for x by (simp add: add_query_def)
  with assms e show ?thesis
    by (simp add: dns64_handle_def Let_def fold_add_answers new_is_empty_def)
qed

lemma dns64_handle_reply_ok:
  assumes "reply_ok c"
  shows "request (dns64_handle L p c) = request c \<and> reply_ok (dns64_handle L p c)"
proof (cases "response c")
  case None
  with assms show ?thesis by (simp add: dns64_handle_def split: option.split)
next
  case (Some m)
  with assms show ?thesis
    by (simp add: dns64_handle_def fold_add_answers Let_def reply_ok_put split: option.split)
qed

text \<open>Records that are not addresses are not copied to the new answer section: the
  CNAME chain that leads from the question to an address is lost.\<close>

lemma dns64_drops_cname:
  assumes "new_is_empty L" and "msg_query (request c) = Some q" and "q_type q = T_AAAA"
    and "response c = Some m" and "get_a_records m \<noteq> []" and "\<not> has_aaaa_records m"
  shows "\<exists>m'. response (dns64_handle L p c) = Some m' \<and> (\<forall>r \<in> set (m_answers m'). rr_type r = T_AAAA)"
  using assms
  by (auto simp: dns64_handle_def Let_def fold_add_answers new_is_empty_def)

section \<open>DNSSEC\<close>

datatype dnssec_mode = Strict | Permissive | LogOnly

datatype dnssec_status = Secure | Insecure | Bogus string | Indeterminate

definition dnssec_mode_of :: "string \<Rightarrow> dnssec_mode" where
  "dnssec_mode_of mode =
     (let m = to_lower mode
      in if m = ''strict'' then Strict else if m = ''permissive'' then Permissive
         else if m = ''log'' \<or> m = ''log_only'' then LogOnly else Permissive)"

definition has_dnssec_records :: "message \<Rightarrow> bool" where
  "has_dnssec_records m =
     (list_ex (\<lambda>r. rr_type r \<in> {T_RRSIG, T_DNSKEY, T_DS}) (m_answers m)
      \<or> list_ex (\<lambda>r. rr_type r \<in> {T_RRSIG, T_DNSKEY, T_DS, T_NSEC, T_NSEC3}) (m_authority m))"

definition validate_response :: "message \<Rightarrow> dnssec_status" where
  "validate_response m =
     (if m_ad m then Secure else if has_dnssec_records m then Indeterminate else Insecure)"

definition dnssec_apply :: "dns_lib \<Rightarrow> dnssec_mode \<Rightarrow> dnssec_status \<Rightarrow> 'h ctx \<Rightarrow> 'h ctx" where
  "dnssec_apply L mode status c =
     (case status of
        Secure \<Rightarrow> add_tag ''dnssec_secure'' c
      | Insecure \<Rightarrow> add_tag ''dnssec_insecure'' c
      | Bogus reason \<Rightarrow>
          if mode = Strict
          then (add_tag ''dnssec_bogus'' c)
                 \<lparr>response := Some ((lib_new L)\<lparr>m_id := m_id (request c), m_rcode := ServFail\<rparr>)\<rparr>
          else add_tag ''dnssec_bogus'' c
      | Indeterminate \<Rightarrow> add_tag ''dnssec_indeterminate'' c)"

definition dnssec_on_response :: "dns_lib \<Rightarrow> dnssec_mode \<Rightarrow> 'h ctx \<Rightarrow> 'h ctx" where
  "dnssec_on_response L mode c =
     (case response c of None \<Rightarrow> c | Some resp \<Rightarrow> dnssec_apply L mode (validate_response resp) c)"

text \<open>The DNSSEC hook never changes a response, in any mode: it adds exactly one
  status tag.  No response is classified bogus, so the rejection of the
  strict mode is never taken.\<close>

theorem dnssec_only_tags:
  assumes "response c = Some m"
  shows "dnssec_on_response L mode c =
     add_tag (if m_ad m then ''dnssec_secure'' else if has_dnssec_records m then ''dnssec_indeterminate''
              else ''dnssec_insecure'') c"
  using assms by (simp add: dnssec_on_response_def dnssec_apply_def validate_response_def)

theorem dnssec_only_tags_witness:
  "dnssec_on_response sample_lib Strict ((ctx_new sample_msg (V4 1, 53) 0 :: unit ctx)
        \<lparr>response := Some (sample_msg\<lparr>m_authority := [from_rdata ''.'' 9 (RD_Other 47 [])]\<rparr>)\<rparr>)
   = add_tag ''dnssec_indeterminate'' ((ctx_new sample_msg (V4 1, 53) 0 :: unit ctx)
        \<lparr>response := Some (sample_msg\<lparr>m_authority := [from_rdata ''.'' 9 (RD_Other 47 [])]\<rparr>)\<rparr>)"
proof -
  let ?m = "sample_msg\<lparr>m_authority := [from_rdata ''.'' 9 (RD_Other 47 [])]\<rparr>"
  have "\<not> m_ad ?m" "has_dnssec_records ?m"
    by (simp_all add: sample_msg_def has_dnssec_records_def)
  with dnssec_only_tags [of "(ctx_new sample_msg (V4 1, 53) 0 :: unit ctx)\<lparr>response := Some ?m\<rparr>" ?m]
  show ?thesis by simp
qed

lemma dnssec_on_response_reply_ok [simp]:
  "request (dnssec_on_response L mode c) = request c"
  "reply_ok (dnssec_on_response L mode c) = reply_ok c"
  by (simp_all add: dnssec_on_response_def dnssec_apply_def validate_response_def split: option.split)

text \<open>A single address behind the well-known prefix.\<close>

lemma dns64_synthesizes_witness:
  "\<exists>p m'. dns64_new (\<lambda>_. None) (\<lambda>_. None) None True = Inr p
     \<and> response (dns64_handle sample_lib p ((ctx_new (sample_msg\<lparr>m_queries := [\<lparr>q_name = ''a.'', q_type = 28, q_class = 1\<rparr>]\<rparr>)
          (V4 1, 53) 0 :: unit ctx)\<lparr>response := Some (sample_msg\<lparr>m_answers := [from_rdata ''a.'' 60 (RD_A 0xC0000201)]\<rparr>)\<rparr>)) = Some m'
     \<and> m_answers m' = [from_rdata ''a.'' 60 (RD_AAAA 0x0064FF9B0000000000000000C0000201)]"
proof -
  let ?q = "\<lparr>q_name = ''a.'', q_type = 28, q_class = 1\<rparr>"
  let ?m = "sample_msg\<lparr>m_answers := [from_rdata ''a.'' 60 (RD_A 0xC0000201)]\<rparr>"
  let ?c = "(ctx_new (sample_msg\<lparr>m_queries := [?q]\<rparr>) (V4 1, 53) 0 :: unit ctx)\<lparr>response := Some ?m\<rparr>"
  obtain p where p: "dns64_new (\<lambda>_. None) (\<lambda>_. None) None True = Inr p"
    and s: "synthesize_ipv6 p 0xC0000201 = 0x0064FF9B0000000000000000C0000201"
  proof -
    let ?p = "\<lparr>d64_prefix = v6_from_octets ([0, 0x64, 0xff, 0x9b] @ replicate 12 0), d64_prefix_len = 96,
        d64_only_if_no_aaaa = True\<rparr>"
    have "synthesize_ipv6 ?p 0xC0000201 = 0x0064FF9B0000000000000000C0000201"
      by code_simp
    then show ?thesis using that by (simp add: dns64_new_def)
  qed
  have a: "get_a_records ?m = [(''a.'', 60, 0xC0000201)]" "\<not> has_aaaa_records ?m"
    by (simp_all add: get_a_records_def has_aaaa_records_def map_filter_simps)
  have q: "msg_query (request ?c) = Some ?q" "response ?c = Some ?m" by (simp_all add: ctx_new_def)
  from dns64_synthesizes [OF sample_lib_new q(1) _ q(2) a(2), of p] a(1) p s show ?thesis
    by auto
qed

section \<open>EDNS client subnet\<close>

record ecs =
  ecs_auto :: bool
  ecs_v4_mask :: u8
  ecs_v6_mask :: u8
  ecs_force_subnet :: "ip_addr option"

definition ecs_new :: "dns_lib \<Rightarrow> bool \<Rightarrow> u8 option \<Rightarrow> u8 option \<Rightarrow> string option \<Rightarrow> ecs" where
  "ecs_new L auto v4 v6 force =
     \<lparr>ecs_auto = auto,
      ecs_v4_mask = (case v4 of Some m \<Rightarrow> m | None \<Rightarrow> 24),
      ecs_v6_mask = (case v6 of Some m \<Rightarrow> m | None \<Rightarrow> 56),
      ecs_force_subnet = (case force of None \<Rightarrow> None | Some s \<Rightarrow> lib_parse_ip L (hd (split_on CHR ''/'' s)))\<rparr>"

definition apply_ecs :: "dns_lib \<Rightarrow> ecs \<Rightarrow> ip_addr \<Rightarrow> 'h ctx \<Rightarrow> 'h ctx" where
  "apply_ecs L p ip c =
     (let edns = (case m_edns (request c) of Some e \<Rightarrow> e | None \<Rightarrow> lib_new_edns L);
          mask = (case ip of V4 _ \<Rightarrow> ecs_v4_mask p | V6 _ \<Rightarrow> ecs_v6_mask p)
      in c\<lparr>request := (request c)\<lparr>m_edns := Some (edns\<lparr>ed_subnet := Some (ip, mask, 0)\<rparr>)\<rparr>\<rparr>)"

definition ecs_handle :: "dns_lib \<Rightarrow> ecs \<Rightarrow> 'h ctx \<Rightarrow> 'h ctx" where
  "ecs_handle L p c =
     (let target_ip =
        (case ecs_force_subnet p of
           Some ip \<Rightarrow> Some ip
         | None \<Rightarrow>
             if ecs_auto p
             then (let client_ip = fst (client_addr c) in if is_loopback client_ip then None else Some client_ip)
             else None)
      in case target_ip of Some ip \<Rightarrow> apply_ecs L p ip c | None \<Rightarrow> c)"

text \<open>The subnet is the forced one or, in automatic mode, that of the client; a
  loopback client is never disclosed.  Nothing but the subnet option of the
  request changes.\<close>

lemma ecs_handle_cases:
  "case (case ecs_force_subnet p of Some ip \<Rightarrow> Some ip
         | None \<Rightarrow> if ecs_auto p \<and> \<not> is_loopback (fst (client_addr c)) then Some (fst (client_addr c)) else None) of
     None \<Rightarrow> ecs_handle L p c = c
   | Some ip \<Rightarrow> \<exists>e mask. ecs_handle L p c = c\<lparr>request := (request c)\<lparr>m_edns := Some e\<rparr>\<rparr>
        \<and> ed_subnet e = Some (ip, mask, 0)
        \<and> ed_other e = (case m_edns (request c) of Some e' \<Rightarrow> ed_other e' | None \<Rightarrow> ed_other (lib_new_edns L))"
proof -
  have a: "\<exists>e. apply_ecs L p ip c = c\<lparr>request := (request c)\<lparr>m_edns := Some e\<rparr>\<rparr>
        \<and> (\<exists>mask. ed_subnet e = Some (ip, mask, 0))
        \<and> ed_other e = (case m_edns (request c) of Some e' \<Rightarrow> ed_other e' | None \<Rightarrow> ed_other (lib_new_edns L))" for ip
    unfolding apply_ecs_def Let_def
    by (intro exI conjI, rule refl) (simp_all split: option.split)
  show ?thesis
    by (cases "ecs_force_subnet p"; cases "ecs_auto p"; cases "is_loopback (fst (client_addr c))")
       (simp_all add: ecs_handle_def a)
qed

lemma ecs_handle_reply_ok:
  "m_id (request (ecs_handle L p c)) = m_id (request c)
     \<and> m_queries (request (ecs_handle L p c)) = m_queries (request c)
     \<and> (reply_ok (ecs_handle L p c) \<longleftrightarrow> reply_ok c)"
  by (simp add: ecs_handle_def apply_ecs_def Let_def reply_ok_def split: option.split)

section \<open>Fake IP\<close>

text \<open>A placeholder: it warns once and changes nothing.  The flag is whether it has
  warned; the second result is whether this call did.\<close>

definition fakeip_handle :: "bool \<Rightarrow> 'h ctx \<Rightarrow> 'h ctx \<times> bool \<times> bool" where
  "fakeip_handle warned c = (c, \<not> warned, True)"

section \<open>GeoIP\<close>

datatype geoip_mode = GeoClient | GeoResponse

text \<open>The reader maps an address to its ISO code, if the database has one; it is
  \<open>None\<close> until the database is loaded.\<close>

record geoip =
  gi_reader :: "(ip_addr \<Rightarrow> string option) option"
  gi_mode :: geoip_mode
  gi_country_code :: string
  gi_tag :: string
  gi_invert :: bool
  gi_cache :: "ip_addr \<rightharpoonup> bool"
  gi_hits :: u64
  gi_misses :: u64

definition geoip_new ::
  "(ip_addr \<Rightarrow> string option) option \<Rightarrow> string \<Rightarrow> string \<Rightarrow> geoip_mode \<Rightarrow> geoip" where
  "geoip_new reader code tag mode =
     \<lparr>gi_reader = reader, gi_mode = mode, gi_country_code = to_lower code, gi_tag = tag,
      gi_invert = False, gi_cache = Map.empty, gi_hits = 0, gi_misses = 0\<rparr>"

definition geoip_with_invert :: "bool \<Rightarrow> geoip \<Rightarrow> geoip" where
  "geoip_with_invert b g = g\<lparr>gi_invert := b\<rparr>"

text \<open>The background load sets the cell once.\<close>

definition geoip_loaded :: "(ip_addr \<Rightarrow> string option) \<Rightarrow> geoip \<Rightarrow> geoip" where
  "geoip_loaded r g = (if gi_reader g = None then g\<lparr>gi_reader := Some r\<rparr> else g)"

definition check_ip :: "ip_addr \<Rightarrow> geoip \<Rightarrow> bool \<times> geoip" where
  "check_ip ip g =
     (case gi_cache g ip of
        Some cached \<Rightarrow> (cached, g\<lparr>gi_hits := gi_hits g + 1\<rparr>)
      | None \<Rightarrow>
          let g = g\<lparr>gi_misses := gi_misses g + 1\<rparr> in
          case gi_reader g of
            None \<Rightarrow> (False, g)
          | Some reader \<Rightarrow>
              let r = (case reader ip of Some iso_code \<Rightarrow> to_lower iso_code = gi_country_code g | None \<Rightarrow> False)
              in (r, g\<lparr>gi_cache := (gi_cache g)(ip \<mapsto> r)\<rparr>))"

fun check_answers :: "rr list \<Rightarrow> geoip \<Rightarrow> bool \<times> geoip" where
  "check_answers [] g = (False, g)"
| "check_answers (ans # rest) g =
     (case rdata_ip (rr_data ans) of
        None \<Rightarrow> check_answers rest g
      | Some ip \<Rightarrow> (let (found, g) = check_ip ip g in if found then (True, g) else check_answers rest g))"

definition geoip_handle :: "geoip \<Rightarrow> 'h ctx \<Rightarrow> 'h ctx \<times> geoip" where
  "geoip_handle g c =
     (let (matched, g') =
        (case gi_mode g of
           GeoClient \<Rightarrow> check_ip (fst (client_addr c)) g
         | GeoResponse \<Rightarrow>
             (case response c of Some resp \<Rightarrow> check_answers (m_answers resp) g | None \<Rightarrow> (False, g)))
      in ((if (matched \<and> \<not> gi_invert g) \<or> (\<not> matched \<and> gi_invert g) then add_tag (gi_tag g) c else c), g'))"

definition gi_compute :: "geoip \<Rightarrow> ip_addr \<Rightarrow> bool" where
  "gi_compute g ip = (case gi_reader g of None \<Rightarrow> False
     | Some reader \<Rightarrow> (case reader ip of Some code \<Rightarrow> to_lower code = gi_country_code g | None \<Rightarrow> False))"

lemma check_ip_kept [simp]:
  "gi_reader (snd (check_ip ip g)) = gi_reader g" "gi_country_code (snd (check_ip ip g)) = gi_country_code g"
  by (simp_all add: check_ip_def Let_def split: option.split)

interpretation gi: memoised gi_cache gi_compute "\<lambda>g ip. check_ip ip g"
  by unfold_locales
     (auto simp: check_ip_def gi_compute_def fun_eq_iff Let_def split: option.splits)

text \<open>The states of a plugin: loads, in the background or before, and checks.
  Nothing is cached before the database is there.\<close>

inductive gi_reachable :: "geoip \<Rightarrow> bool" where
  "gi_reachable (geoip_new r code tag mode)"
| "gi_reachable g \<Longrightarrow> gi_reachable (geoip_with_invert b g)"
| "gi_reachable g \<Longrightarrow> gi_reachable (geoip_loaded r g)"
| "gi_reachable g \<Longrightarrow> gi_reachable (snd (check_ip ip g))"

lemma gi_reachable_sound:
  "gi_reachable g \<Longrightarrow> gi.sound g \<and> (gi_reader g = None \<longrightarrow> gi_cache g = Map.empty)"
proof (induction rule: gi_reachable.induct)
  case (1 r code tag mode)
  show ?case by (simp add: gi.sound_def geoip_new_def)
next
  case (2 g b)
  have "gi_compute (geoip_with_invert b g) = gi_compute g"
    by (simp add: geoip_with_invert_def gi_compute_def fun_eq_iff split: option.split)
  moreover have "gi_cache (geoip_with_invert b g) = gi_cache g" "gi_reader (geoip_with_invert b g) = gi_reader g"
    by (simp_all add: geoip_with_invert_def)
  ultimately show ?case using 2 by (simp add: gi.sound_def)
next
  case (3 g r)
  then show ?case by (cases "gi_reader g") (simp_all add: geoip_loaded_def gi.sound_def)
next
  case (4 g ip)
  then show ?case
    using gi.query_sound [of g ip] by (auto simp: check_ip_def Let_def split: option.splits)
qed

lemma gi_reachable_check: "gi_reachable g \<Longrightarrow> fst (check_ip ip g) = gi_compute g ip"
  using gi.query_value gi_reachable_sound by blast

lemma check_answers_any:
  "gi_reachable g \<Longrightarrow> fst (check_answers rs g)
     \<longleftrightarrow> (\<exists>r \<in> set rs. \<exists>ip. rdata_ip (rr_data r) = Some ip \<and> gi_compute g ip)"
proof (induction rs arbitrary: g)
  case (Cons r rs)
  show ?case
  proof (cases "rdata_ip (rr_data r)")
    case None
    with Cons show ?thesis by simp
  next
    case (Some ip)
    have "gi_compute (snd (check_ip ip g)) = gi_compute g" by (rule gi.rules_kept)
    with Some Cons gi_reachable_check [of g ip] gi_reachable.intros(4) [of g ip] show ?thesis
      by (auto simp: split_beta)
  qed
qed simp

text \<open>The GeoIP plugin tags a context exactly when the client's address, or in
  response mode one of the addresses of the parsed response, is in the
  configured country, inverted when configured so; the address cache and a
  database that is still loading never change that: before it is loaded, no
  address matches.\<close>

theorem geoip_tags:
  assumes "gi_reachable g"
    and "m = (case gi_mode g of
         GeoClient \<Rightarrow> gi_compute g (fst (client_addr c))
       | GeoResponse \<Rightarrow> (case response c of None \<Rightarrow> False
           | Some resp \<Rightarrow> \<exists>r \<in> set (m_answers resp). \<exists>ip. rdata_ip (rr_data r) = Some ip \<and> gi_compute g ip))"
  shows "fst (geoip_handle g c) = (if m \<noteq> gi_invert g then add_tag (gi_tag g) c else c)"
  using assms gi_reachable_check [OF assms(1)] check_answers_any [OF assms(1)]
  by (cases "gi_mode g") (auto simp: geoip_handle_def split_beta Let_def split: option.split)

theorem geoip_tags_witness:
  "fst (geoip_handle (geoip_new (Some (\<lambda>ip. if ip = V4 0x01020304 then Some ''CN'' else None)) ''cn'' ''domestic'' GeoClient)
       (ctx_new sample_msg (V4 0x01020304, 53) 0 :: unit ctx))
   = add_tag ''domestic'' (ctx_new sample_msg (V4 0x01020304, 53) 0)"
proof -
  let ?g = "geoip_new (Some (\<lambda>ip. if ip = V4 0x01020304 then Some ''CN'' else None)) ''cn'' ''domestic'' GeoClient"
  let ?c = "ctx_new sample_msg (V4 0x01020304, 53) 0 :: unit ctx"
  have "to_lower ''CN'' = ''cn''" "to_lower ''cn'' = ''cn''" by code_simp+
  then have "gi_compute ?g (fst (client_addr ?c))" "gi_mode ?g = GeoClient" "\<not> gi_invert ?g" "gi_tag ?g = ''domestic''"
    by (simp_all add: gi_compute_def geoip_new_def ctx_new_def)
  with geoip_tags [OF gi_reachable.intros(1) refl, of "Some (\<lambda>ip. if ip = V4 0x01020304 then Some ''CN'' else None)"
      "''cn''" "''domestic''" GeoClient ?c] show ?thesis by simp
qed

section \<open>IP matcher\<close>

text \<open>\<open>parse_net\<close>, \<open>host_net\<close> and \<open>net_contains\<close> are the crate \<open>ipnet\<close>: parsing a
  network, the network of one address, and membership.\<close>

record 'n ipnet_lib =
  parse_net :: "string \<Rightarrow> 'n option"
  host_net :: "ip_addr \<Rightarrow> 'n option"
  net_contains :: "'n \<Rightarrow> ip_addr \<Rightarrow> bool"

fun im_load_lines :: "dns_lib \<Rightarrow> 'n ipnet_lib \<Rightarrow> string option list \<Rightarrow> nat \<Rightarrow> 'n list \<Rightarrow> nat result \<times> 'n list" where
  "im_load_lines L N [] count cidrs = (Inr count, cidrs)"
| "im_load_lines L N (None # ls) count cidrs = (Inl (Error ''read''), cidrs)"
| "im_load_lines L N (Some line # ls) count cidrs =
     (let line = trim line in
      if line = [] \<or> starts_with line ''#'' \<or> starts_with line ''//'' then im_load_lines L N ls count cidrs
      else case parse_net N line of
             Some net \<Rightarrow> im_load_lines L N ls (count + 1) (cidrs @ [net])
           | None \<Rightarrow>
               (case Option.bind (lib_parse_ip L line) (host_net N) of
                  Some net \<Rightarrow> im_load_lines L N ls (count + 1) (cidrs @ [net])
                | None \<Rightarrow> im_load_lines L N ls count cidrs))"

definition im_load_file ::
  "dns_lib \<Rightarrow> 'n ipnet_lib \<Rightarrow> string option list option \<Rightarrow> 'n list \<Rightarrow> nat result \<times> 'n list" where
  "im_load_file L N content cidrs =
     (case content of None \<Rightarrow> (Inl (Error ''File not found''), cidrs) | Some ls \<Rightarrow> im_load_lines L N ls 0 cidrs)"

fun im_new :: "dns_lib \<Rightarrow> 'n ipnet_lib \<Rightarrow> string option list option list \<Rightarrow> nat \<Rightarrow> 'n list \<Rightarrow> nat \<times> 'n list" where
  "im_new L N [] total_rules cidrs = (total_rules, cidrs)"
| "im_new L N (f # fs) total_rules cidrs =
     (case im_load_file L N f cidrs of
        (Inr count, cidrs') \<Rightarrow> im_new L N fs (total_rules + count) cidrs'
      | (Inl _, cidrs') \<Rightarrow> im_new L N fs total_rules cidrs')"

definition im_matches :: "'n ipnet_lib \<Rightarrow> 'n list \<Rightarrow> ip_addr \<Rightarrow> bool" where
  "im_matches N cidrs ip = list_ex (\<lambda>net. net_contains N net ip) cidrs"

fun im_scan :: "'n ipnet_lib \<Rightarrow> 'n list \<Rightarrow> string option \<Rightarrow> rr list \<Rightarrow> 'h ctx \<Rightarrow> 'h ctx" where
  "im_scan N cidrs mark [] c = c"
| "im_scan N cidrs mark (ans # rest) c =
     (case rdata_ip (rr_data ans) of
        None \<Rightarrow> im_scan N cidrs mark rest c
      | Some ip \<Rightarrow>
          if im_matches N cidrs ip
          then (case mark of Some m \<Rightarrow> add_tag m c | None \<Rightarrow> c)
          else im_scan N cidrs mark rest c)"

definition im_handle :: "'n ipnet_lib \<Rightarrow> 'n list \<Rightarrow> string option \<Rightarrow> 'h ctx \<Rightarrow> 'h ctx" where
  "im_handle N cidrs mark c =
     (case response c of None \<Rightarrow> c | Some resp \<Rightarrow> im_scan N cidrs mark (m_answers resp) c)"

text \<open>The tag is added exactly when an address of the parsed response lies in one of
  the loaded networks.\<close>

lemma im_handle_cases:
  assumes "response c = Some m"
  shows "im_handle N cidrs (Some mark) c =
     (if \<exists>r \<in> set (m_answers m). \<exists>ip. rdata_ip (rr_data r) = Some ip \<and> (\<exists>net \<in> set cidrs. net_contains N net ip)
      then add_tag mark c else c)"
proof -
  have "im_scan N cidrs (Some mark) rs c =
     (if \<exists>r \<in> set rs. \<exists>ip. rdata_ip (rr_data r) = Some ip \<and> (\<exists>net \<in> set cidrs. net_contains N net ip)
      then add_tag mark c else c)" for rs
    by (induction rs) (auto simp: im_matches_def list_ex_iff split: option.split)
  with assms show ?thesis by (simp add: im_handle_def)
qed

end
