(* ===== verification/Dga_Filter.thy ===== *)
theory Dga_Filter
  imports Dns_Context Complex_Main
begin

text \<open>
  \<open>src/plugins/dga.rs\<close>: names whose longest label has a high Shannon entropy are
  answered NXDOMAIN.  The \<open>f64\<close> arithmetic of the entropy is modelled in the
  reals, without rounding; the definitions are the code's otherwise.
\<close>

definition byte_count :: "string \<Rightarrow> nat \<Rightarrow> nat" where
  "byte_count s b = count_list (map of_char s) b"

definition calculate_entropy :: "string \<Rightarrow> real" where
  "calculate_entropy s =
     (let len = real (length s) in
      if len = 0 then 0
      else (\<Sum>b \<leftarrow> filter (\<lambda>b. 0 < byte_count s b) [0 ..< 256].
              let p = real (byte_count s b) / len in - (p * log 2 p)))"

record dga =
  dga_entropy_threshold :: real
  dga_min_len :: nat
  dga_dry_run :: bool

text \<open>The longest label, the first one of that length.\<close>

definition longest :: "string list \<Rightarrow> string" where
  "longest parts = fold (\<lambda>part best. if length best < length part then part else best) parts []"

definition get_main_part :: "'h ctx \<Rightarrow> string result" where
  "get_main_part c =
     andthen (qname_parts_iter c) (\<lambda>parts.
       let best = longest parts in Inr (if best = [] then qname_lower_ref c else best))"

text \<open>The handler; the second component is the name recorded in the statistics, as
  blocked and under the strategy \<open>Blocked_DGA\<close>.\<close>

definition dga_handle :: "dga \<Rightarrow> 'h ctx \<Rightarrow> ('h ctx \<times> string option) result" where
  "dga_handle p c =
     (let clean_name = trim_end_matches CHR ''.'' (qname_ref c) in
      andthen (get_main_part c) (\<lambda>target_label.
        if length target_label < dga_min_len p then Inr (c, None)
        else if dga_entropy_threshold p < calculate_entropy target_label
        then (if dga_dry_run p then Inr (c, None)
              else Inr (set_response ((request c)\<lparr>m_type := ResponseMsg, m_rcode := NXDomain\<rparr>) True c,
                        Some clean_name))
        else Inr (c, None)))"

section \<open>Bounds on the entropy\<close>

lemma byte_count_le: "byte_count s b \<le> length s"
  using count_le_length [of "map of_char s" b] by (simp add: byte_count_def)

lemma sum_byte_count: "(\<Sum>b \<leftarrow> [0 ..< 256]. byte_count s b) = length s"
proof -
  have "(\<Sum>b \<leftarrow> [0 ..< 256]. count_list xs b) = length xs" if "\<forall>x \<in> set xs. x < (256 :: nat)" for xs
    using that
  proof (induction xs)
    case (Cons x xs)
    have "(\<Sum>b \<leftarrow> [0 ..< 256]. count_list (x # xs) b)
        = (\<Sum>b \<leftarrow> [0 ..< 256]. count_list xs b) + (\<Sum>b \<leftarrow> [0 ..< 256]. if x = b then 1 else 0)"
      unfolding sum_list_addf [symmetric] by (intro arg_cong [where f = sum_list] map_cong) auto
    moreover have "(\<Sum>b \<leftarrow> [0 ..< 256]. if x = b then 1 else 0) = (1 :: nat)"
      using Cons.prems by (simp add: sum_list_distinct_conv_sum_set)
    ultimately show ?case using Cons by simp
  qed simp
  moreover have "\<forall>x \<in> set (map of_char s). x < (256 :: nat)" by auto
  ultimately show ?thesis by (simp add: byte_count_def)
qed

lemma sum_byte_count_filter:
  "(\<Sum>b \<leftarrow> filter (\<lambda>b. 0 < byte_count s b) [0 ..< 256]. real (byte_count s b)) = real (length s)"
proof -
  have "(\<Sum>b \<leftarrow> filter (\<lambda>b. 0 < byte_count s b) xs. real (byte_count s b)) = real (\<Sum>b \<leftarrow> xs. byte_count s b)" for xs
    by (induction xs) auto
  then show ?thesis by (simp only: sum_byte_count)
qed

lemma entropy_term_bounds:
  assumes "0 < k" and "k \<le> n"
  shows "0 \<le> - (real k / real n * log 2 (real k / real n))"
    and "- (real k / real n * log 2 (real k / real n)) \<le> real k / real n * log 2 (real n)"
proof -
  let ?p = "real k / real n"
  have p: "0 < ?p" "?p \<le> 1" "1 / real n \<le> ?p" using assms by (auto simp: divide_simps)
  have "?p * log 2 ?p \<le> 0"
    by (rule mult_nonneg_nonpos) (use p in auto)
  then show "0 \<le> - (?p * log 2 ?p)" by linarith
  have "log 2 (1 / real n) \<le> log 2 ?p" using p assms by (intro log_mono) auto
  then have "- log 2 ?p \<le> log 2 (real n)" using assms by (simp add: log_divide)
  then have "?p * (- log 2 ?p) \<le> ?p * log 2 (real n)" using p(1) by (intro mult_left_mono) auto
  then show "- (?p * log 2 ?p) \<le> ?p * log 2 (real n)" by simp
qed

lemma sum_list_scale:
  "(\<Sum>x \<leftarrow> xs. f x / a * b) = (\<Sum>x \<leftarrow> xs. f x) / a * (b :: real)"
  by (induction xs) (simp_all add: add_divide_distrib distrib_right)

lemma entropy_bounds:
  assumes "s \<noteq> []"
  shows "0 \<le> calculate_entropy s" and "calculate_entropy s \<le> log 2 (real (length s))"
proof -
  let ?bs = "filter (\<lambda>b. 0 < byte_count s b) [0 ..< 256]"
  let ?n = "real (length s)"
  let ?t = "\<lambda>b. - (real (byte_count s b) / ?n * log 2 (real (byte_count s b) / ?n))"
  have e: "calculate_entropy s = (\<Sum>b \<leftarrow> ?bs. ?t b)"
    using assms by (simp add: calculate_entropy_def Let_def)
  show "0 \<le> calculate_entropy s"
    unfolding e
  proof (rule sum_list_nonneg)
    fix x assume "x \<in> set (map ?t ?bs)"
    then obtain b where "x = ?t b" "0 < byte_count s b" by auto
    with entropy_term_bounds(1) [OF this(2) byte_count_le] show "0 \<le> x" by simp
  qed
  have "(\<Sum>b \<leftarrow> ?bs. ?t b) \<le> (\<Sum>b \<leftarrow> ?bs. real (byte_count s b) / ?n * log 2 ?n)"
  proof (rule sum_list_mono)
    fix b assume "b \<in> set ?bs"
    then show "?t b \<le> real (byte_count s b) / ?n * log 2 ?n"
      by (intro entropy_term_bounds(2) byte_count_le) simp
  qed
  also have "\<dots> = (\<Sum>b \<leftarrow> ?bs. real (byte_count s b)) / ?n * log 2 ?n"
    by (rule sum_list_scale)
  also have "\<dots> = log 2 ?n" using assms by (simp only: sum_byte_count_filter) simp
  finally show "calculate_entropy s \<le> log 2 ?n" unfolding e .
qed

text \<open>The length of the label bounds what the filter can see: with a threshold of
  at least \<open>log 2 63\<close>, that is 5.98, no DNS label is ever blocked.\<close>

lemma dga_blocks_bound:
  assumes "dga_handle p c = Inr (c', Some n)" and "get_main_part c = Inr l"
  shows "l = [] \<or> dga_entropy_threshold p < log 2 (real (length l))"
proof (cases "l = []")
  case False
  from assms have "dga_entropy_threshold p < calculate_entropy l"
    by (auto simp: dga_handle_def Let_def split: if_splits)
  with entropy_bounds(2) [OF False] show ?thesis by linarith
qed simp

lemma get_main_part_total: "cells_ok c \<Longrightarrow> \<exists>l. get_main_part c = Inr l"
  using slices_label_ranges [of "qname_lower_ref c"]
  by (simp add: get_main_part_def qname_parts_iter_def cells_reads Let_def)

lemma dga_handle_cases:
  assumes "dga_handle p c = Inr (c', n)"
  shows "c' = c \<or> c' = set_response ((request c)\<lparr>m_type := ResponseMsg, m_rcode := NXDomain\<rparr>) True c"
  using assms by (auto simp: dga_handle_def Let_def andthen_eq_Inr split: if_splits)

lemma dga_handle_reply_ok:
  assumes "dga_handle p c = Inr (c', n)" and "reply_ok c"
  shows "reply_ok c' \<and> request c' = request c"
  using dga_handle_cases [OF assms(1)] assms(2) by auto

end
