(* ===== verification/Query_Log.thy ===== *)
theory Query_Log
  imports Titan_Prelude
begin

text \<open>
  \<open>src/query_log.rs\<close>: the in-memory log of the last queries, a ring buffer behind
  a lock.  The size and the switch can change at run time.
\<close>

record query_log_entry =
  ql_timestamp :: string
  ql_client_ip :: string
  ql_domain :: string
  ql_qtype :: string
  ql_strategy :: string
  ql_upstream :: "string option"
  ql_latency_ms :: u64
  ql_rcode :: string

record query_log =
  ql_max_size :: nat
  ql_enabled :: bool
  ql_buffer :: "query_log_entry list"

definition ql_default :: query_log where
  "ql_default = \<lparr>ql_max_size = 5000, ql_enabled = True, ql_buffer = []\<rparr>"

definition init_query_log :: "bool \<Rightarrow> nat \<Rightarrow> query_log \<Rightarrow> query_log" where
  "init_query_log enabled max_size q = q\<lparr>ql_enabled := enabled, ql_max_size := max_size\<rparr>"

definition log_request :: "query_log_entry \<Rightarrow> query_log \<Rightarrow> query_log" where
  "log_request entry q =
     (if \<not> ql_enabled q then q
      else q\<lparr>ql_buffer := push_bounded (ql_max_size q) entry (ql_buffer q)\<rparr>)"

definition get_recent_logs :: "nat \<Rightarrow> query_log \<Rightarrow> query_log_entry list" where
  "get_recent_logs limit q = (if \<not> ql_enabled q then [] else take limit (rev (ql_buffer q)))"

lemma log_requests_buffer:
  "ql_enabled q \<Longrightarrow> fold log_request es q = q\<lparr>ql_buffer := fold (push_bounded (ql_max_size q)) es (ql_buffer q)\<rparr>"
  by (induction es arbitrary: q) (auto simp: log_request_def)

text \<open>The log is a window on the traffic: after any queries, \<open>get_recent_logs\<close>
  gives the newest of them, newest first, as many as asked for and kept.\<close>

lemma recent_logs_newest_first:
  assumes "0 < n"
  shows "get_recent_logs limit (fold log_request es (init_query_log True n ql_default))
     = take (min limit n) (rev es)"
proof -
  have "fold (push_bounded n) es [] = drop (length es - n) es"
    using fold_push_bounded [OF assms, of "[]" es] by simp
  moreover have "take limit (rev (drop (length es - n) es)) = take (min limit n) (rev es)"
    by (simp add: rev_drop min.commute) (metis min.commute diff_diff_cancel diff_is_0_eq' drop_0 length_rev nat_le_linear rev_take take_all take_take)
  ultimately show ?thesis
    by (simp add: get_recent_logs_def log_requests_buffer init_query_log_def ql_default_def)
qed

definition sample_entry :: "string \<Rightarrow> query_log_entry" where
  "sample_entry d = \<lparr>ql_timestamp = ''t'', ql_client_ip = ''10.0.0.1'', ql_domain = d, ql_qtype = ''A'',
     ql_strategy = ''Default'', ql_upstream = None, ql_latency_ms = 1, ql_rcode = ''NOERROR''\<rparr>"

theorem recent_logs_newest_first_witness:
  "get_recent_logs 10 (fold log_request [sample_entry ''a'', sample_entry ''b'', sample_entry ''c'']
      (init_query_log True 2 ql_default)) = [sample_entry ''c'', sample_entry ''b'']"
  using recent_logs_newest_first [of 2 10 "[sample_entry ''a'', sample_entry ''b'', sample_entry ''c'']"]
  by simp

end
