(* ===== verification/Stats.thy ===== *)
theory Stats
  imports Titan_Prelude "HOL-Library.AList"
begin

text \<open>
  \<open>src/stats.rs\<close>: the global counters.  A concurrent map is an association list
  with distinct keys, changed entry by entry; counters are \<open>u64\<close> and wrap.
  \<open>try_write\<close> may fail when another task holds the lock: whether it succeeds is
  an argument.  The snapshot for the dashboard, with its percentages and averages,
  is in \<open>Stats_Report\<close>.
\<close>

type_synonym counts = "(string \<times> u64) list"

record dns_stats =
  total_queries :: u64
  cache_hits :: u64
  cache_misses :: u64
  blocked_count :: u64
  xdp_hits :: u64
  latency_samples :: "u64 list"
  domain_counts :: counts
  client_counts :: counts
  rcode_counts :: counts
  qtype_counts :: counts
  strategy_counts :: counts
  recent_blocked :: "(string \<times> string) list"
  blocked_limit :: nat

definition stats_new :: dns_stats where
  "stats_new = \<lparr>total_queries = 0, cache_hits = 0, cache_misses = 0, blocked_count = 0, xdp_hits = 0,
     latency_samples = [], domain_counts = [], client_counts = [], rcode_counts = [], qtype_counts = [],
     strategy_counts = [], recent_blocked = [], blocked_limit = 100\<rparr>"

text \<open>\<open>entry(k).and_modify(+1).or_insert(1)\<close>.\<close>

definition bump :: "string \<Rightarrow> counts \<Rightarrow> counts" where
  "bump k m = AList.update k (case map_of m k of Some c \<Rightarrow> c + 1 | None \<Rightarrow> 1) m"

definition set_blocked_limit :: "nat \<Rightarrow> dns_stats \<Rightarrow> dns_stats" where
  "set_blocked_limit limit s = s\<lparr>blocked_limit := limit\<rparr>"

definition set_xdp_hits :: "u64 \<Rightarrow> dns_stats \<Rightarrow> dns_stats" where
  "set_xdp_hits count s = s\<lparr>xdp_hits := count\<rparr>"

definition record_query :: "bool \<Rightarrow> string \<Rightarrow> string \<Rightarrow> u64 \<Rightarrow> dns_stats \<Rightarrow> dns_stats" where
  "record_query locked domain client_ip latency_us s =
     (let s = s\<lparr>total_queries := total_queries s + 1\<rparr>;
          s = s\<lparr>domain_counts := bump domain (domain_counts s)\<rparr>;
          s = s\<lparr>client_counts := bump client_ip (client_counts s)\<rparr>;
          s = (if locked then s\<lparr>latency_samples := push_bounded 1000 latency_us (latency_samples s)\<rparr> else s);
          s = (if 50000 < length (domain_counts s) then s\<lparr>domain_counts := []\<rparr> else s)
      in if 10000 < length (client_counts s) then s\<lparr>client_counts := []\<rparr> else s)"

definition record_cache_hit :: "dns_stats \<Rightarrow> dns_stats" where
  "record_cache_hit s = s\<lparr>cache_hits := cache_hits s + 1\<rparr>"

definition record_cache_miss :: "dns_stats \<Rightarrow> dns_stats" where
  "record_cache_miss s = s\<lparr>cache_misses := cache_misses s + 1\<rparr>"

definition record_strategy :: "string \<Rightarrow> dns_stats \<Rightarrow> dns_stats" where
  "record_strategy strategy s = s\<lparr>strategy_counts := bump strategy (strategy_counts s)\<rparr>"

definition record_blocked :: "bool \<Rightarrow> string \<Rightarrow> string \<Rightarrow> dns_stats \<Rightarrow> dns_stats" where
  "record_blocked locked timestamp domain s =
     (let s = s\<lparr>blocked_count := blocked_count s + 1\<rparr>;
          s = (if locked
               then s\<lparr>recent_blocked := push_bounded (blocked_limit s) (domain, timestamp) (recent_blocked s)\<rparr>
               else s)
      in record_strategy ''Blocked'' s)"

definition record_details :: "string \<Rightarrow> string \<Rightarrow> dns_stats \<Rightarrow> dns_stats" where
  "record_details qtype rcode s =
     s\<lparr>qtype_counts := bump qtype (qtype_counts s), rcode_counts := bump rcode (rcode_counts s)\<rparr>"

section \<open>Bounds\<close>

lemma bump_lookup: "map_of (bump k m) j = (if j = k then Some (case map_of m k of Some c \<Rightarrow> c + 1 | None \<Rightarrow> 1) else map_of m j)"
  by (simp add: bump_def update_conv')

lemma bump_distinct: "distinct (map fst m) \<Longrightarrow> distinct (map fst (bump k m))"
  by (simp add: bump_def distinct_update)

lemma length_bump: "length (bump k m) \<le> length m + 1"
  unfolding bump_def by (induction m) auto

text \<open>The operations on the statistics, as steps.\<close>

datatype stats_op =
    Query bool string string u64 | Hit | Miss | Blocked bool string string | Strategy string
  | Details string string | Limit nat | Xdp u64

fun stats_step :: "stats_op \<Rightarrow> dns_stats \<Rightarrow> dns_stats" where
  "stats_step (Query l d c t) s = record_query l d c t s"
| "stats_step Hit s = record_cache_hit s"
| "stats_step Miss s = record_cache_miss s"
| "stats_step (Blocked l t d) s = record_blocked l t d s"
| "stats_step (Strategy x) s = record_strategy x s"
| "stats_step (Details q r) s = record_details q r s"
| "stats_step (Limit n) s = set_blocked_limit n s"
| "stats_step (Xdp n) s = set_xdp_hits n s"

definition stats_run :: "stats_op list \<Rightarrow> dns_stats \<Rightarrow> dns_stats" where
  "stats_run ops s = fold stats_step ops s"

lemma stats_run_simps [simp]:
  "stats_run [] s = s" "stats_run (op # ops) s = stats_run ops (stats_step op s)"
  by (simp_all add: stats_run_def)

definition stats_bounded :: "nat \<Rightarrow> dns_stats \<Rightarrow> bool" where
  "stats_bounded n s \<longleftrightarrow> length (latency_samples s) \<le> 1000 \<and> length (domain_counts s) \<le> 50000
     \<and> length (client_counts s) \<le> 10000 \<and> length (recent_blocked s) \<le> max 1 n \<and> blocked_limit s \<le> n
     \<and> distinct (map fst (domain_counts s)) \<and> distinct (map fst (client_counts s))"

fun op_limit :: "stats_op \<Rightarrow> nat" where
  "op_limit (Limit n) = n"
| "op_limit _ = 0"

lemma stats_step_bounded:
  assumes "stats_bounded n s" and "op_limit op \<le> n"
  shows "stats_bounded n (stats_step op s)"
proof (cases op)
  case (Query l d c t)
  have "length (push_bounded 1000 t (latency_samples s)) \<le> 1000"
    using assms push_bounded_le [of "latency_samples s" 1000] by (simp add: stats_bounded_def)
  with Query assms show ?thesis
    by (simp add: stats_bounded_def record_query_def Let_def bump_distinct)
next
  case (Blocked l t d)
  have "length (push_bounded (blocked_limit s) x (recent_blocked s)) \<le> max 1 n" for x
    using assms by (intro push_bounded_mono) (simp_all add: stats_bounded_def)
  with Blocked assms show ?thesis
    by (simp add: stats_bounded_def record_blocked_def record_strategy_def Let_def)
qed (use assms in \<open>simp_all add: stats_bounded_def record_cache_hit_def record_cache_miss_def
       record_strategy_def record_details_def set_blocked_limit_def set_xdp_hits_def\<close>)

text \<open>Memory of the statistics is bounded whatever the traffic: after any run of
  operations at most 1000 latency samples, 50000 domains and 10000 clients are
  kept, and at most as many blocked names as the largest limit configured,
  100 by default, but always room for one.\<close>

lemma stats_memory_bounded:
  "stats_bounded (Max (insert 100 (op_limit ` set ops))) (stats_run ops stats_new)"
proof -
  let ?n = "Max (insert 100 (op_limit ` set ops))"
  have "stats_bounded n s \<Longrightarrow> \<forall>op \<in> set ops'. op_limit op \<le> n \<Longrightarrow> stats_bounded n (stats_run ops' s)" for ops' s n
    by (induction ops' arbitrary: s) (auto simp: stats_step_bounded)
  moreover have n: "100 \<le> ?n" "\<forall>op \<in> set ops. op_limit op \<le> ?n" by auto
  moreover have "stats_bounded ?n stats_new"
    using n(1) by (simp add: stats_bounded_def stats_new_def)
  ultimately show ?thesis by blast
qed

text \<open>Lowering the limit does not shrink the list of blocked names: it stays at
  its length, one name is dropped for each new one.\<close>

lemma lower_limit_keeps:
  "0 < length (recent_blocked s) \<Longrightarrow> k \<le> length (recent_blocked s) \<Longrightarrow>
     length (recent_blocked (record_blocked True t d (set_blocked_limit k s))) = length (recent_blocked s)"
  by (auto simp: record_blocked_def set_blocked_limit_def record_strategy_def length_push_bounded Let_def)

end
