(* ===== verification/Domain_Hash.thy ===== *)
theory Domain_Hash
  imports Titan_Prelude
begin

text \<open>
  The hashes that key the caches: \<open>src/core/simd_hash.rs\<close> (the key of the answer
  cache), and the hash of the kernel cache, which exists twice, in \<open>src/bpf.rs\<close> and
  as \<open>calculate_xdp_hash\<close> in \<open>src/plugins/cache.rs\<close>; and the entries of the kernel
  cache.  Bytes are read in the order of a little-endian machine.
\<close>

definition str_bytes :: "string \<Rightarrow> bytes" where
  "str_bytes s = map (\<lambda>c. word_of_nat (of_char c)) s"

section \<open>FxHash of a domain\<close>

definition fx_init :: u64 where
  "fx_init = 0xcbf29ce484222325"

definition fx_mix :: "u64 \<Rightarrow> u64 \<Rightarrow> u64" where
  "fx_mix hash n = (word_rotl 5 hash XOR n) * 0x517cc1b727220a95"

function hash_fx :: "bytes \<Rightarrow> u64 \<Rightarrow> u64" where
  "hash_fx bs hash =
     (if 8 \<le> length bs then hash_fx (drop 8 bs) (fx_mix hash (from_le (take 8 bs)))
      else fold (\<lambda>byte hash. fx_mix hash (ucast byte)) bs hash)"
  by pat_completeness auto
termination
  by (relation "measure (\<lambda>(bs, hash). length bs)") auto

declare hash_fx.simps [simp del]

text \<open>A fresh hasher for every domain.\<close>

definition hash_domain :: "string \<Rightarrow> u64" where
  "hash_domain domain = hash_fx (str_bytes domain) fx_init"

section \<open>The hash of the kernel cache\<close>

definition djb2_byte :: "u64 \<Rightarrow> u8 \<Rightarrow> u64" where
  "djb2_byte hash byte =
     (let b = (if 65 \<le> byte \<and> byte \<le> 90 then byte + 32 else byte)
      in push_bit 5 hash + hash + ucast b)"

definition calculate_xdp_hash :: "bytes \<Rightarrow> u16 \<Rightarrow> u16 \<Rightarrow> u64" where
  "calculate_xdp_hash qname_raw qt qclass =
     (let hash = foldl djb2_byte 5381 qname_raw;
          hash = foldl djb2_byte hash (be_bytes 2 qt)
      in foldl djb2_byte hash (be_bytes 2 qclass))"

fun djb2_hash_bytes_incremental :: "u64 \<Rightarrow> bytes \<Rightarrow> u64" where
  "djb2_hash_bytes_incremental hash [] = hash"
| "djb2_hash_bytes_incremental hash (byte # data) =
     (let b = (if 65 \<le> byte \<and> byte \<le> 90 then byte + 32 else byte)
      in djb2_hash_bytes_incremental (push_bit 5 hash + hash + ucast b) data)"

definition djb2_hash_bytes :: "bytes \<Rightarrow> u64" where
  "djb2_hash_bytes data = djb2_hash_bytes_incremental 5381 data"

section \<open>The kernel cache\<close>

record dns_cache_entry =
  xe_len :: u16
  xe_rcode :: u16
  xe_last_refresh_ts :: u32
  xe_expire_ns :: u64
  xe_response :: bytes

text \<open>The filter holds the maps of the loaded program, or \<open>None\<close> before it is loaded.\<close>

record bpf_filter = bpf_maps :: "(u64 \<rightharpoonup> dns_cache_entry) option"

definition bpf_qhash :: "bytes \<Rightarrow> u16 \<Rightarrow> u16 \<Rightarrow> u64" where
  "bpf_qhash qname_raw qt qclass =
     djb2_hash_bytes_incremental
       (djb2_hash_bytes_incremental (djb2_hash_bytes qname_raw) (be_bytes 2 qt)) (be_bytes 2 qclass)"

definition kernel_entry :: "u64 \<Rightarrow> bytes \<Rightarrow> u64 \<Rightarrow> dns_cache_entry" where
  "kernel_entry now_ns resp ttl_secs =
     (let copy_len = min (length resp) 768
      in \<lparr>xe_len = word_of_nat copy_len,
          xe_rcode = (if 4 \<le> length resp then ucast (resp ! 3 AND 0x0F) else 0),
          xe_last_refresh_ts = ucast (now_ns div 1000000000),
          xe_expire_ns = now_ns + (ttl_secs + 60) * 1000000000,
          xe_response = take copy_len resp @ replicate (768 - copy_len) 0\<rparr>)"

text \<open>\<open>inserted\<close> is whether the kernel takes the entry.\<close>

definition update_cache ::
  "u64 \<Rightarrow> bool \<Rightarrow> bytes \<Rightarrow> u16 \<Rightarrow> u16 \<Rightarrow> bytes \<Rightarrow> u64 \<Rightarrow> bpf_filter \<Rightarrow> bpf_filter result" where
  "update_cache now_ns inserted qname_raw qt qclass resp ttl_secs f =
     (case bpf_maps f of
        None \<Rightarrow> Inl (Error ''BPF not loaded'')
      | Some dns_cache \<Rightarrow>
          let qhash = bpf_qhash qname_raw qt qclass; entry = kernel_entry now_ns resp ttl_secs
          in if inserted then Inr (f\<lparr>bpf_maps := Some (dns_cache(qhash \<mapsto> entry))\<rparr>)
             else Inl (Error ''Failed to insert cache entry''))"

section \<open>The two hashes agree\<close>

lemma djb2_incremental_foldl: "djb2_hash_bytes_incremental hash data = foldl djb2_byte hash data"
  by (induction data arbitrary: hash) (simp_all add: djb2_byte_def Let_def)

definition byte_lower :: "u8 \<Rightarrow> u8" where
  "byte_lower b = (if 65 \<le> b \<and> b \<le> 90 then b + 32 else b)"

lemma djb2_byte_lower: "djb2_byte hash (byte_lower b) = djb2_byte hash b"
proof (cases "65 \<le> b \<and> b \<le> 90")
  case True
  then have "65 \<le> unat b \<and> unat b \<le> 90" by (simp add: word_le_nat_alt)
  then have "unat (b + 32) = unat b + 32" by (simp add: unat_plus_if_size word_size)
  with \<open>65 \<le> unat b \<and> _\<close> have "\<not> (b + 32 \<le> 90)" by (simp add: word_le_nat_alt)
  with True show ?thesis by (simp add: djb2_byte_def byte_lower_def)
qed (auto simp: byte_lower_def)

lemma djb2_foldl_lower:
  "map byte_lower xs = map byte_lower ys \<Longrightarrow> foldl djb2_byte hash xs = foldl djb2_byte hash ys"
proof (induction xs arbitrary: ys hash)
  case (Cons x xs)
  then obtain y ys' where ys: "ys = y # ys'" "byte_lower x = byte_lower y" "map byte_lower xs = map byte_lower ys'"
    by (cases ys) auto
  then have "djb2_byte hash x = djb2_byte hash y" by (metis djb2_byte_lower)
  with ys Cons.IH show ?case by simp
qed simp

text \<open>C10: The reverse map of the cache plugin and the kernel cache use the same key:
  the two implementations of the hash agree on every question, and letter case
  in the name does not change it.\<close>

theorem kernel_hash_agrees:
  assumes "map byte_lower q1 = map byte_lower q2"
  shows "calculate_xdp_hash q1 qt qclass = bpf_qhash q2 qt qclass"
  using djb2_foldl_lower [OF assms]
  by (simp add: calculate_xdp_hash_def bpf_qhash_def djb2_hash_bytes_def djb2_incremental_foldl Let_def)

theorem kernel_hash_agrees_witness:
  "calculate_xdp_hash [2, 0x51, 0x71, 0] 1 1 = bpf_qhash [2, 0x71, 0x51, 0] 1 1"
  by (rule kernel_hash_agrees) (simp add: byte_lower_def)

section \<open>What the kernel cache holds\<close>

text \<open>A reply of up to 768 bytes is stored whole; of a longer one only the first 768
  bytes are kept, with its header unchanged, so the TC bit does not tell.\<close>

lemma kernel_entry_whole:
  "length resp \<le> 768 \<Longrightarrow>
     take (unat (xe_len (kernel_entry now resp ttl))) (xe_response (kernel_entry now resp ttl)) = resp"
  by (simp add: kernel_entry_def Let_def unat_of_nat)

lemma kernel_entry_truncates:
  "768 < length resp \<Longrightarrow>
     unat (xe_len (kernel_entry now resp ttl)) = 768 \<and> xe_response (kernel_entry now resp ttl) = take 768 resp"
  by (simp add: kernel_entry_def Let_def)

lemma update_cache_lookup:
  "update_cache now True q qt qclass resp ttl f = Inr f' \<Longrightarrow>
     \<exists>m. bpf_maps f' = Some m \<and> m (bpf_qhash q qt qclass) = Some (kernel_entry now resp ttl)"
  by (auto simp: update_cache_def Let_def split: option.splits)

end
