(* ===== verification/Cache_Plugin.thy ===== *)
theory Cache_Plugin
  imports Dns_Context Stats Domain_Hash
begin

text \<open>
  \<open>src/plugins/cache.rs\<close>: the answer cache, with stale serving, prefetch,
  persistence and the synchronisation to the kernel cache.

  The \<open>moka\<close> cache is a map; that it may drop an entry at any time, for its
  capacity or its own time to live, is the step \<open>cache_evict\<close>.  The Unix time in
  seconds is an argument.  A background task is split at its await: the handler
  returns the job it spawns, and \<open>refresh_done\<close> is the job's end with the answers
  that the upstreams gave.
\<close>

section \<open>Keys\<close>

record query_key =
  name_hash :: u64
  key_qtype :: u16
  key_qclass :: u16
  key_subnet :: "(ip_addr \<times> u8) option"

definition subnet_bytes :: "ip_addr \<times> u8 \<Rightarrow> bytes" where
  "subnet_bytes net =
     (case net of
        (V4 a, prefix_len) \<Rightarrow> v4_octets a @ [prefix_len, 0, 0, 0]
      | (V6 a, prefix_len) \<Rightarrow> take 7 (v6_octets a) @ [prefix_len])"

definition qk_to_bytes :: "query_key \<Rightarrow> bytes" where
  "qk_to_bytes k =
     le_bytes 8 (name_hash k) @ le_bytes 2 (key_qtype k) @ le_bytes 2 (key_qclass k)
       @ (case key_subnet k of Some net \<Rightarrow> subnet_bytes net | None \<Rightarrow> replicate 8 0)"

definition qk_from_bytes :: "bytes \<Rightarrow> query_key" where
  "qk_from_bytes bs =
     \<lparr>name_hash = from_le (take 8 bs), key_qtype = from_le (take 2 (drop 8 bs)),
      key_qclass = from_le (take 2 (drop 10 bs)), key_subnet = None\<rparr>"

section \<open>Entries\<close>

record cached_entry =
  ce_message :: message
  ce_raw_bytes :: "bytes option"
  ce_timestamp :: u64
  ce_ttl :: u64

definition ce_new :: "dns_lib \<Rightarrow> u64 \<Rightarrow> message \<Rightarrow> u64 \<Rightarrow> cached_entry" where
  "ce_new L now m ttl =
     \<lparr>ce_message = m, ce_raw_bytes = lib_to_vec L m, ce_timestamp = now, ce_ttl = ttl\<rparr>"

definition ce_new_with_bytes :: "u64 \<Rightarrow> message \<Rightarrow> u64 \<Rightarrow> bytes \<Rightarrow> cached_entry" where
  "ce_new_with_bytes now m ttl raw =
     \<lparr>ce_message = m, ce_raw_bytes = Some raw, ce_timestamp = now, ce_ttl = ttl\<rparr>"

definition ce_to_bytes :: "dns_lib \<Rightarrow> cached_entry \<Rightarrow> bytes option" where
  "ce_to_bytes L e =
     (case (case ce_raw_bytes e of Some raw \<Rightarrow> Some raw | None \<Rightarrow> lib_to_vec L (ce_message e)) of
        None \<Rightarrow> None
      | Some msg_bytes \<Rightarrow>
          Some (le_bytes 8 (ce_timestamp e) @ le_bytes 8 (ce_ttl e)
                @ le_bytes 4 (word_of_nat (length msg_bytes) :: u32) @ msg_bytes))"

definition ce_from_bytes :: "dns_lib \<Rightarrow> bytes \<Rightarrow> (cached_entry \<times> nat) result" where
  "ce_from_bytes L bs =
     (if length bs < 20 then Inl (Error ''Entry too short'')
      else
        let timestamp = from_le (take 8 bs); ttl = from_le (take 8 (drop 8 bs));
            len = unat (from_le (take 4 (drop 16 bs)) :: u32)
        in if length bs < 20 + len then Inl (Error ''Buffer underflow'')
           else (case lib_from_vec L (take len (drop 20 bs)) of
                   None \<Rightarrow> Inl (Error ''parse'')
                 | Some m \<Rightarrow> Inr (\<lparr>ce_message = m, ce_raw_bytes = Some (take len (drop 20 bs)),
                                 ce_timestamp = timestamp, ce_ttl = ttl\<rparr>, 20 + len)))"

section \<open>The plugin\<close>

record cache_tuning =
  ct_min_ttl :: u64
  ct_max_ttl :: u64
  ct_moka_ttl_secs :: u64
  ct_xdp_hash_ttl_secs :: u64
  ct_prefetch_concurrent :: nat
  ct_prefetch_timeout_ms :: u64

definition cache_tuning_default :: cache_tuning where
  "cache_tuning_default = \<lparr>ct_min_ttl = 0, ct_max_ttl = 86400, ct_moka_ttl_secs = 86400 * 7,
     ct_xdp_hash_ttl_secs = 7200, ct_prefetch_concurrent = 2, ct_prefetch_timeout_ms = 2000\<rparr>"

text \<open>The two sources of a refresh are flags here: what they answer is an argument of
  \<open>refresh_done\<close>.\<close>

record cache_plugin =
  cp_cache :: "query_key \<rightharpoonup> cached_entry"
  cp_min_ttl :: u64
  cp_max_ttl :: u64
  cp_fakeip_protection :: bool
  cp_prefetch_forwarder :: bool
  cp_prefetch_recursive :: bool
  cp_prefetch_threshold :: u64
  cp_serve_stale_ttl :: u64
  cp_persist_file :: "string option"
  cp_persist_interval :: u64
  cp_xdp_filter :: "bpf_filter option"
  cp_xdp_cache_enabled :: bool
  cp_xdp_hash_map :: "u64 \<rightharpoonup> string \<times> u16 \<times> u16"

text \<open>\<open>prefetch\<close> is the number of upstreams, the threshold and the stale time.\<close>

definition cache_new ::
  "(nat \<times> u32 \<times> u32) option \<Rightarrow> bool \<Rightarrow> string option \<Rightarrow> u64 \<Rightarrow> cache_tuning \<Rightarrow> cache_plugin" where
  "cache_new prefetch recursive persist_file persist_interval tuning =
     (let (forwarder, threshold, stale_ttl) =
        (case prefetch of
           Some (upstreams, th, st) \<Rightarrow> if 0 < upstreams then (True, ucast th, ucast st) else (False, 0, 0)
         | None \<Rightarrow> (False, 0, 0))
      in \<lparr>cp_cache = Map.empty, cp_min_ttl = ct_min_ttl tuning, cp_max_ttl = ct_max_ttl tuning,
          cp_fakeip_protection = False, cp_prefetch_forwarder = forwarder,
          cp_prefetch_recursive = recursive, cp_prefetch_threshold = threshold,
          cp_serve_stale_ttl = stale_ttl, cp_persist_file = persist_file,
          cp_persist_interval = persist_interval, cp_xdp_filter = None,
          cp_xdp_cache_enabled = False, cp_xdp_hash_map = Map.empty\<rparr>)"

definition cache_insert :: "query_key \<Rightarrow> cached_entry \<Rightarrow> cache_plugin \<Rightarrow> cache_plugin" where
  "cache_insert k e p = p\<lparr>cp_cache := (cp_cache p)(k \<mapsto> e)\<rparr>"

definition cache_evict :: "query_key \<Rightarrow> cache_plugin \<Rightarrow> cache_plugin" where
  "cache_evict k p = p\<lparr>cp_cache := (cp_cache p)(k := None)\<rparr>"

definition cache_purge :: "cache_plugin \<Rightarrow> cache_plugin" where
  "cache_purge p = p\<lparr>cp_cache := Map.empty\<rparr>"

definition get_key :: "'h ctx \<Rightarrow> query_key option" where
  "get_key c =
     (case msg_query (request c) of
        None \<Rightarrow> None
      | Some query \<Rightarrow>
          Some \<lparr>name_hash = hash_domain (qname_ref c), key_qtype = q_type query,
                key_qclass = q_class query, key_subnet = None\<rparr>)"

definition build_key_for_domain :: "string \<Rightarrow> u16 \<Rightarrow> u16 \<Rightarrow> query_key" where
  "build_key_for_domain domain qt qclass =
     \<lparr>name_hash = hash_domain domain, key_qtype = qt, key_qclass = qclass, key_subnet = None\<rparr>"

fun lower_ttl :: "rr list \<Rightarrow> u64 \<Rightarrow> u64" where
  "lower_ttl [] ttl = ttl"
| "lower_ttl (ans # rest) ttl = lower_ttl rest (if ucast (rr_ttl ans) < ttl then ucast (rr_ttl ans) else ttl)"

definition calculate_ttl :: "cache_plugin \<Rightarrow> message \<Rightarrow> u64" where
  "calculate_ttl p resp =
     (let ttl = lower_ttl (m_answers resp) (cp_max_ttl p)
      in if ttl < cp_min_ttl p then cp_min_ttl p else ttl)"

section \<open>The kernel cache\<close>

text \<open>\<open>now_ns\<close> and \<open>inserted\<close> are the kernel's time and whether it takes the entry.\<close>

definition sync_to_xdp ::
  "u64 \<Rightarrow> bool \<Rightarrow> bytes \<Rightarrow> u16 \<Rightarrow> u16 \<Rightarrow> string \<Rightarrow> bytes \<Rightarrow> u64 \<Rightarrow> cache_plugin \<Rightarrow> cache_plugin" where
  "sync_to_xdp now_ns inserted qname_raw qt qclass domain resp_bytes ttl p =
     (if \<not> cp_xdp_cache_enabled p then p
      else case cp_xdp_filter p of
             None \<Rightarrow> p
           | Some filt \<Rightarrow>
               let qhash = calculate_xdp_hash qname_raw qt qclass in
               if cp_xdp_hash_map p qhash \<noteq> None then p
               else case update_cache now_ns inserted qname_raw qt qclass resp_bytes ttl filt of
                      Inl e \<Rightarrow> p
                    | Inr filt \<Rightarrow>
                        p\<lparr>cp_xdp_filter := Some filt,
                          cp_xdp_hash_map := (cp_xdp_hash_map p)(qhash \<mapsto> (domain, qt, qclass))\<rparr>)"
definition enable_xdp_cache :: "bool \<Rightarrow> cache_plugin \<Rightarrow> cache_plugin" where
  "enable_xdp_cache enabled p = p\<lparr>cp_xdp_cache_enabled := enabled\<rparr>"

text \<open>The warm-up of the kernel cache goes over an enumeration of the cache.\<close>

definition warm_entry :: "dns_lib \<Rightarrow> u64 \<Rightarrow> u64 \<Rightarrow> bool \<Rightarrow> cached_entry \<Rightarrow> cache_plugin \<Rightarrow> cache_plugin" where
  "warm_entry L now now_ns inserted e p =
     (let elapsed = sat_sub now (ce_timestamp e); remaining_ttl = sat_sub (ce_ttl e) elapsed in
      if remaining_ttl = 0 then p
      else case msg_query (ce_message e) of
             None \<Rightarrow> p
           | Some query \<Rightarrow>
               (case lib_emit_name L (q_name query) of
                  None \<Rightarrow> p
                | Some qname_raw \<Rightarrow>
                    (case (case ce_raw_bytes e of Some raw \<Rightarrow> Some raw | None \<Rightarrow> lib_to_vec L (ce_message e)) of
                       None \<Rightarrow> p
                     | Some resp_bytes \<Rightarrow>
                         (case cp_xdp_filter p of
                            None \<Rightarrow> p
                          | Some filt \<Rightarrow>
                              (case update_cache now_ns inserted qname_raw (q_type query) (q_class query)
                                      resp_bytes remaining_ttl filt of
                                 Inl err \<Rightarrow> p
                               | Inr filt \<Rightarrow>
                                   p\<lparr>cp_xdp_filter := Some filt,
                                     cp_xdp_hash_map := (cp_xdp_hash_map p)
                                       (calculate_xdp_hash qname_raw (q_type query) (q_class query)
                                          \<mapsto> (q_name query, q_type query, q_class query))\<rparr>)))))"

definition warm_xdp_cache ::
  "dns_lib \<Rightarrow> u64 \<Rightarrow> u64 \<Rightarrow> bool \<Rightarrow> cached_entry list \<Rightarrow> cache_plugin \<Rightarrow> cache_plugin" where
  "warm_xdp_cache L now now_ns inserted entries p = fold (warm_entry L now now_ns inserted) entries p"

definition set_xdp_filter ::
  "dns_lib \<Rightarrow> u64 \<Rightarrow> u64 \<Rightarrow> bool \<Rightarrow> bpf_filter \<Rightarrow> cached_entry list \<Rightarrow> cache_plugin \<Rightarrow> cache_plugin" where
  "set_xdp_filter L now now_ns inserted filt entries p =
     (let p = p\<lparr>cp_xdp_filter := Some filt\<rparr>
      in if cp_xdp_cache_enabled p then warm_xdp_cache L now now_ns inserted entries p else p)"

section \<open>Lookup\<close>

datatype refresh_job =
    Recursive_Refresh query_key string u16 "message option"
  | Forward_Prefetch query_key message

definition ce_elapsed :: "u64 \<Rightarrow> cached_entry \<Rightarrow> u64" where
  "ce_elapsed now e = sat_sub now (ce_timestamp e)"

definition ce_remaining :: "u64 \<Rightarrow> cached_entry \<Rightarrow> u64" where
  "ce_remaining now e = sat_sub (ce_ttl e) (ce_elapsed now e)"

text \<open>The reply of a hit: the stored bytes when they have a header, else the message.\<close>

definition cache_reply :: "cached_entry \<Rightarrow> 'h ctx \<Rightarrow> 'h ctx result" where
  "cache_reply e c =
     (case ce_raw_bytes e of
        Some raw \<Rightarrow>
          (case zc_from_bytes raw of
             Inr zc_msg \<Rightarrow> set_raw_response zc_msg True c
           | Inl _ \<Rightarrow> Inr (set_response ((ce_message e)\<lparr>m_id := m_id (request c)\<rparr>) True c))
      | None \<Rightarrow> Inr (set_response ((ce_message e)\<lparr>m_id := m_id (request c)\<rparr>) True c))"

definition refresh_of :: "query_key \<Rightarrow> bool \<Rightarrow> cache_plugin \<Rightarrow> 'h ctx \<Rightarrow> refresh_job option" where
  "refresh_of key need_prefetch p c =
     (if \<not> need_prefetch then None
      else if cp_prefetch_recursive p
      then (case msg_query (request c) of
              Some query \<Rightarrow>
                Some (Recursive_Refresh key (q_name query) (q_type query)
                        (if cp_prefetch_forwarder p then Some (request c) else None))
            | None \<Rightarrow> None)
      else if cp_prefetch_forwarder p then Some (Forward_Prefetch key (request c))
      else None)"

text \<open>The hook that a miss registers is the plugin itself.\<close>

definition cache_miss :: "'h \<Rightarrow> cache_plugin \<Rightarrow> dns_stats \<Rightarrow> 'h ctx
    \<Rightarrow> ('h ctx \<times> cache_plugin \<times> dns_stats \<times> refresh_job option) result" where
  "cache_miss hook p s c =
     Inr (c\<lparr>post_process_hooks := post_process_hooks c @ [hook]\<rparr>, p, record_cache_miss s, None)"

definition cache_handle :: "'h \<Rightarrow> u64 \<Rightarrow> cache_plugin \<Rightarrow> dns_stats \<Rightarrow> 'h ctx
    \<Rightarrow> ('h ctx \<times> cache_plugin \<times> dns_stats \<times> refresh_job option) result" where
  "cache_handle hook now p s c =
     (case get_key c of
        None \<Rightarrow> Inr (c, p, s, None)
      | Some key \<Rightarrow>
          (case cp_cache p key of
             None \<Rightarrow> cache_miss hook p s c
           | Some e \<Rightarrow>
               let s = record_cache_hit s;
                   elapsed = ce_elapsed now e;
                   remaining = ce_remaining now e;
                   is_stale = (remaining = 0);
                   can_serve_stale = (is_stale \<and> elapsed < ce_ttl e + cp_serve_stale_ttl p)
               in if cp_fakeip_protection p \<and> is_stale then cache_miss hook p s c
                  else if 0 < remaining \<or> can_serve_stale
                  then andthen (cache_reply e c) (\<lambda>c'.
                         let need_prefetch = ((0 < remaining \<and> remaining < cp_prefetch_threshold p) \<or> is_stale)
                         in Inr (c', p, s, refresh_of key need_prefetch p c'))
                  else cache_miss hook (cache_evict key p) s c))"

section \<open>Stores\<close>

definition max_entry_size :: nat where
  "max_entry_size = 4096"

definition sync_query :: "dns_lib \<Rightarrow> u64 \<Rightarrow> bool \<Rightarrow> 'h ctx \<Rightarrow> bytes \<Rightarrow> u64 \<Rightarrow> cache_plugin \<Rightarrow> cache_plugin" where
  "sync_query L now_ns inserted c raw ttl p =
     (case msg_query (request c) of
        None \<Rightarrow> p
      | Some query \<Rightarrow>
          (case lib_emit_name L (q_name query) of
             None \<Rightarrow> p
           | Some qname_raw \<Rightarrow>
               sync_to_xdp now_ns inserted qname_raw (q_type query) (q_class query) (q_name query) raw ttl p))"

definition cache_on_response ::
  "dns_lib \<Rightarrow> u64 \<Rightarrow> u64 \<Rightarrow> bool \<Rightarrow> 'h ctx \<Rightarrow> cache_plugin \<Rightarrow> cache_plugin" where
  "cache_on_response L now now_ns inserted c p =
     (case get_key c of
        None \<Rightarrow> p
      | Some key \<Rightarrow>
          (case response c of
             None \<Rightarrow> p
           | Some resp \<Rightarrow>
               let response_bytes = (case lib_to_vec L resp of Some b \<Rightarrow> b | None \<Rightarrow> []) in
               if max_entry_size < length response_bytes then p
               else let ttl = calculate_ttl p resp in
                    if 0 < ttl
                    then sync_query L now_ns inserted c response_bytes ttl
                           (cache_insert key (ce_new_with_bytes now resp ttl response_bytes) p)
                    else p))"

definition insert_response_for_domain ::
  "dns_lib \<Rightarrow> u64 \<Rightarrow> u64 \<Rightarrow> bool \<Rightarrow> string \<Rightarrow> u16 \<Rightarrow> u16 \<Rightarrow> message \<Rightarrow> cache_plugin
     \<Rightarrow> u64 option \<times> cache_plugin" where
  "insert_response_for_domain L now now_ns inserted domain qt qclass resp p =
     (let response_bytes = (case lib_to_vec L resp of Some b \<Rightarrow> b | None \<Rightarrow> []) in
      if max_entry_size < length response_bytes then (None, p)
      else let ttl = calculate_ttl p resp in
           if ttl = 0 then (None, p)
           else let p = cache_insert (build_key_for_domain domain qt qclass)
                          (ce_new_with_bytes now resp ttl response_bytes) p;
                    p = (case lib_name_from_ascii L domain of
                           None \<Rightarrow> p
                         | Some name \<Rightarrow>
                             (case lib_emit_name L name of
                                None \<Rightarrow> p
                              | Some qname_raw \<Rightarrow>
                                  sync_to_xdp now_ns inserted qname_raw qt qclass domain response_bytes ttl p))
                in (Some ttl, p))"

text \<open>The end of a background refresh: the upstreams' answers, or \<open>None\<close> for an error.\<close>

definition refresh_store :: "dns_lib \<Rightarrow> u64 \<Rightarrow> query_key \<Rightarrow> message \<Rightarrow> cache_plugin \<Rightarrow> cache_plugin" where
  "refresh_store L now key msg p =
     (let ttl = calculate_ttl p msg in
      if 0 < ttl
      then (case lib_to_vec L msg of
              None \<Rightarrow> p
            | Some raw \<Rightarrow> cache_insert key (ce_new_with_bytes now msg ttl raw) p)
      else p)"

definition refresh_done ::
  "dns_lib \<Rightarrow> u64 \<Rightarrow> refresh_job \<Rightarrow> message option \<Rightarrow> message option \<Rightarrow> cache_plugin \<Rightarrow> cache_plugin" where
  "refresh_done L now job recursive_answer forward_answer p =
     (case job of
        Recursive_Refresh key name qt backup \<Rightarrow>
          (case recursive_answer of
             Some msg \<Rightarrow> refresh_store L now key msg p
           | None \<Rightarrow>
               (case backup of
                  None \<Rightarrow> p
                | Some req \<Rightarrow>
                    (case forward_answer of Some resp \<Rightarrow> refresh_store L now key resp p | None \<Rightarrow> p)))
      | Forward_Prefetch key req \<Rightarrow>
          (case forward_answer of Some resp \<Rightarrow> refresh_store L now key resp p | None \<Rightarrow> p))"

text \<open>The refresh that the kernel asks for by hash; its TTL is the least of the answer.\<close>

fun least_ttl :: "rr list \<Rightarrow> u32 option" where
  "least_ttl [] = None"
| "least_ttl (ans # rest) =
     (case least_ttl rest of None \<Rightarrow> Some (rr_ttl ans) | Some t \<Rightarrow> Some (min (rr_ttl ans) t))"

definition shadow_refresh ::
  "dns_lib \<Rightarrow> u64 \<Rightarrow> u64 \<Rightarrow> bool \<Rightarrow> u64 \<Rightarrow> message option \<Rightarrow> cache_plugin \<Rightarrow> cache_plugin" where
  "shadow_refresh L now now_ns inserted qhash answer p =
     (case cp_xdp_hash_map p qhash of
        None \<Rightarrow> p
      | Some (domain, qt, qclass) \<Rightarrow>
          if \<not> cp_prefetch_recursive p then p
          else case answer of
                 None \<Rightarrow> p
               | Some resp \<Rightarrow>
                   let ttl = (case least_ttl (m_answers resp) of Some t \<Rightarrow> t | None \<Rightarrow> 300) in
                   (case lib_to_vec L resp of
                      None \<Rightarrow> p
                    | Some raw \<Rightarrow>
                        let p = cache_insert (build_key_for_domain domain qt qclass)
                                  (ce_new_with_bytes now resp (ucast ttl) raw) p in
                        if \<not> cp_xdp_cache_enabled p then p
                        else case cp_xdp_filter p of
                               None \<Rightarrow> p
                             | Some filt \<Rightarrow>
                                 (case (case m_queries resp of q # _ \<Rightarrow> lib_emit_name L (q_name q) | [] \<Rightarrow> None) of
                                    None \<Rightarrow> p
                                  | Some qname_raw \<Rightarrow>
                                      (case update_cache now_ns inserted qname_raw qt qclass raw (ucast ttl) filt of
                                         Inl err \<Rightarrow> p
                                       | Inr filt \<Rightarrow>
                                           p\<lparr>cp_xdp_filter := Some filt,
                                             cp_xdp_hash_map := (cp_xdp_hash_map p)
                                               (calculate_xdp_hash qname_raw qt qclass \<mapsto> (domain, qt, qclass))\<rparr>))))"

text \<open>The poller of the kernel's events drops a hash that it handled less than five
  seconds before, and thins its memory above 1000 hashes.  What it starts for a
  hash that passes is the refresh above, without the entry in the reverse map, and with
  the flag that was set when the filter was attached.\<close>

definition poll_event :: "u64 \<Rightarrow> u64 \<Rightarrow> (u64 \<times> u64) list \<Rightarrow> bool \<times> (u64 \<times> u64) list" where
  "poll_event now_epoch qhash dedup =
     (if (case map_of dedup qhash of Some last_epoch \<Rightarrow> now_epoch < last_epoch + 5 | None \<Rightarrow> False)
      then (False, dedup)
      else let dedup = AList.update qhash now_epoch dedup;
               dedup = (if 1000 < length dedup then filter (\<lambda>(_, v). now_epoch < v + 60) dedup else dedup)
           in (True, dedup))"

definition poll_refresh ::
  "dns_lib \<Rightarrow> u64 \<Rightarrow> u64 \<Rightarrow> bool \<Rightarrow> bool \<Rightarrow> u64 \<Rightarrow> message option \<Rightarrow> cache_plugin \<Rightarrow> cache_plugin" where
  "poll_refresh L now now_ns inserted xdp_enabled qhash answer p =
     (shadow_refresh L now now_ns inserted qhash answer (p\<lparr>cp_xdp_cache_enabled := xdp_enabled\<rparr>))
       \<lparr>cp_xdp_cache_enabled := cp_xdp_cache_enabled p, cp_xdp_hash_map := cp_xdp_hash_map p\<rparr>"

text \<open>Within five seconds of a handled event, the same hash is not handled again.\<close>

lemma poll_event_dedup:
  assumes "poll_event t1 qhash dedup = (True, dedup1)" "t1 \<le> t2" "t2 < t1 + 5" "t1 < t1 + 60"
    and "distinct (map fst dedup)"
  shows "poll_event t2 qhash dedup1 = (False, dedup1)"
proof -
  have "map_of (AList.update qhash t1 dedup) qhash = Some t1" by (simp add: update_conv')
  moreover have "distinct (map fst (AList.update qhash t1 dedup))" using assms(5) by (rule distinct_update)
  ultimately have "map_of (filter (\<lambda>(_, v). t1 < v + 60) (AList.update qhash t1 dedup)) qhash = Some t1"
    using assms(4) by (auto simp: map_of_eq_Some_iff distinct_map_filter)
  with \<open>map_of (AList.update qhash t1 dedup) qhash = Some t1\<close> have "map_of dedup1 qhash = Some t1"
    using assms(1) by (auto simp: poll_event_def Let_def split: if_splits)
  with assms(3) show ?thesis by (simp add: poll_event_def)
qed

section \<open>Persistence\<close>

text \<open>The file is the concatenation of the records; an entry that cannot be encoded is
  left out.  \<open>entries\<close> is the enumeration of the cache.\<close>

definition disk_record :: "dns_lib \<Rightarrow> query_key \<times> cached_entry \<Rightarrow> bytes" where
  "disk_record L ke =
     (case ce_to_bytes L (snd ke) of
        None \<Rightarrow> []
      | Some entry_bytes \<Rightarrow>
          qk_to_bytes (fst ke) @ le_bytes 4 (word_of_nat (length entry_bytes) :: u32) @ entry_bytes)"

definition save_to_disk :: "dns_lib \<Rightarrow> (query_key \<times> cached_entry) list \<Rightarrow> bytes" where
  "save_to_disk L entries = concat (map (disk_record L) entries)"

definition restore_entry :: "u64 \<Rightarrow> u64 \<Rightarrow> query_key \<Rightarrow> cached_entry \<Rightarrow> cache_plugin \<Rightarrow> cache_plugin" where
  "restore_entry now grace key e p =
     (if ce_elapsed now e < ce_ttl e + cp_serve_stale_ttl p + grace then cache_insert key e p else p)"

function load_from_disk :: "dns_lib \<Rightarrow> u64 \<Rightarrow> bytes \<Rightarrow> cache_plugin \<Rightarrow> cache_plugin" where
  "load_from_disk L now file p =
     (case read_exact 20 file of
        None \<Rightarrow> p
      | Some (key_buf, file) \<Rightarrow>
          (case read_exact 4 file of
             None \<Rightarrow> p
           | Some (len_buf, file) \<Rightarrow>
               (case read_exact (unat (from_le len_buf :: u32)) file of
                  None \<Rightarrow> p
                | Some (entry_buf, file) \<Rightarrow>
                    load_from_disk L now file
                      (case ce_from_bytes L entry_buf of
                         Inr (e, _) \<Rightarrow> restore_entry now 3600 (qk_from_bytes key_buf) e p
                       | Inl _ \<Rightarrow> p))))"
  by pat_completeness auto
termination
  by (relation "measure (\<lambda>(L, now, file, p). length file)") (auto simp: read_exact_def split: if_splits)

declare load_from_disk.simps [simp del]

text \<open>The other pair, without the length field; the first entry that does not encode
  is an error.\<close>

fun dump_to_file :: "dns_lib \<Rightarrow> (query_key \<times> cached_entry) list \<Rightarrow> bytes result" where
  "dump_to_file L [] = Inr []"
| "dump_to_file L ((key, e) # entries) =
     (case ce_to_bytes L e of
        None \<Rightarrow> Inl (Error ''encode'')
      | Some entry_bytes \<Rightarrow>
          andthen (dump_to_file L entries) (\<lambda>rest. Inr (qk_to_bytes key @ entry_bytes @ rest)))"

function load_from_file :: "dns_lib \<Rightarrow> u64 \<Rightarrow> bytes \<Rightarrow> cache_plugin \<Rightarrow> cache_plugin" where
  "load_from_file L now buf p =
     (if length buf < 20 then p
      else case ce_from_bytes L (drop 20 buf) of
             Inl _ \<Rightarrow> p
           | Inr (e, consumed) \<Rightarrow>
               load_from_file L now (drop (20 + consumed) buf)
                 (restore_entry now 0 (qk_from_bytes (take 20 buf)) e p))"
  by pat_completeness auto
termination
  by (relation "measure (\<lambda>(L, now, buf, p). length buf)") auto

declare load_from_file.simps [simp del]

definition snapshot_entries :: "nat \<Rightarrow> (query_key \<times> cached_entry) list
    \<Rightarrow> (query_key \<times> message \<times> u64 \<times> u64) list" where
  "snapshot_entries limit entries =
     (let out = map (\<lambda>(k, e). (k, ce_message e, ce_timestamp e, ce_ttl e)) entries
      in if 0 < limit then take limit out else out)"
section \<open>Codecs\<close>

lemma take_drop_append:
  "length a = n \<Longrightarrow> take n (a @ b) = a" "length a = n \<Longrightarrow> drop n (a @ b) = b"
  by simp_all

lemma length_qk_to_bytes [simp]: "length (qk_to_bytes k) = 20"
  by (auto simp: qk_to_bytes_def subnet_bytes_def split: option.split prod.split ip_addr.split)

text \<open>A key is written back as it is, without its subnet.\<close>

lemma qk_roundtrip: "qk_from_bytes (qk_to_bytes k) = k\<lparr>key_subnet := None\<rparr>"
proof -
  obtain s where s: "qk_to_bytes k = le_bytes 8 (name_hash k) @ le_bytes 2 (key_qtype k) @ le_bytes 2 (key_qclass k) @ s"
    by (auto simp: qk_to_bytes_def)
  have "take 8 (qk_to_bytes k) = le_bytes 8 (name_hash k)" by (simp add: s)
  moreover have "take 2 (drop 8 (qk_to_bytes k)) = le_bytes 2 (key_qtype k)" by (simp add: s)
  moreover have "take 2 (drop 10 (qk_to_bytes k)) = le_bytes 2 (key_qclass k)" by (simp add: s)
  ultimately show ?thesis by (simp add: qk_from_bytes_def)
qed

text \<open>An entry whose bytes are the serialised form of its message.\<close>

definition ce_ok :: "dns_lib \<Rightarrow> cached_entry \<Rightarrow> bool" where
  "ce_ok L e \<longleftrightarrow> (\<exists>raw. ce_raw_bytes e = Some raw \<and> lib_from_vec L raw = Some (ce_message e)
     \<and> length raw + 20 < 2 ^ 32)"

lemma ce_to_bytes_ok:
  assumes "ce_ok L e"
  obtains bs where "ce_to_bytes L e = Some bs" "length bs < 2 ^ 32" "20 \<le> length bs"
    "\<And>rest. ce_from_bytes L (bs @ rest) = Inr (e, length bs)"
proof -
  from assms obtain raw where raw: "ce_raw_bytes e = Some raw" "lib_from_vec L raw = Some (ce_message e)"
    "length raw + 20 < 2 ^ 32" unfolding ce_ok_def by blast
  define l :: u32 where "l = word_of_nat (length raw)"
  define bs where "bs = le_bytes 8 (ce_timestamp e) @ le_bytes 8 (ce_ttl e) @ le_bytes 4 l @ raw"
  have l: "unat l = length raw" using raw(3) by (simp add: l_def unat_of_nat)
  have t: "take 8 (bs @ rest) = le_bytes 8 (ce_timestamp e)" "take 8 (drop 8 (bs @ rest)) = le_bytes 8 (ce_ttl e)"
    "take 4 (drop 16 (bs @ rest)) = le_bytes 4 l" "drop 20 (bs @ rest) = raw @ rest" "length bs = 20 + length raw" for rest
    by (simp_all add: bs_def)
  have t': "take (length raw) (drop 20 (bs @ rest)) = raw" for rest
    unfolding t(4) by simp
  show thesis
  proof (rule that [of bs])
    show "ce_to_bytes L e = Some bs" by (simp add: ce_to_bytes_def raw(1) bs_def l_def)
    show "length bs < 2 ^ 32" "20 \<le> length bs" using raw(3) by (simp_all add: t)
    have "e = \<lparr>ce_message = ce_message e, ce_raw_bytes = Some raw, ce_timestamp = ce_timestamp e, ce_ttl = ce_ttl e\<rparr>"
      by (cases e) (use raw(1) in simp)
    then show "ce_from_bytes L (bs @ rest) = Inr (e, length bs)" for rest
      using raw(2) by (simp add: ce_from_bytes_def Let_def t(1-3,5) t' l del: take_append drop_append)
  qed
qed

section \<open>TTLs\<close>

lemma lower_ttl_min: "lower_ttl rs t = fold (\<lambda>r t. min (ucast (rr_ttl r)) t) rs t"
  by (induction rs t rule: lower_ttl.induct) (auto simp: min_def not_less)

lemma unat_min: "unat (min a b) = min (unat a) (unat (b :: 'a::len word))"
  by (simp add: min_def word_le_nat_alt)

lemma unat_max: "unat (max a b) = max (unat a) (unat (b :: 'a::len word))"
  by (simp add: max_def word_le_nat_alt)

lemma unat_lower_ttl: "unat (lower_ttl rs t) = Min (insert (unat t) ((\<lambda>r. unat (rr_ttl r)) ` set rs))"
proof (induction rs arbitrary: t)
  case (Cons r rs)
  have "unat (ucast (rr_ttl r) :: u64) = unat (rr_ttl r)" by (simp add: unat_ucast_up)
  then have "unat (if ucast (rr_ttl r) < t then ucast (rr_ttl r) else t) = min (unat (rr_ttl r)) (unat t)"
    by (auto simp: word_less_nat_alt)
  moreover have "Min (insert (min a b) S) = min b (Min (insert a S))" if "finite S" for a b :: nat and S
    using that by (cases "S = {}") (simp_all add: min.commute min.left_commute)
  ultimately show ?case
    using Cons by (simp only: lower_ttl.simps) (simp add: insert_commute)
qed simp
lemma unat_calculate_ttl:
  "unat (calculate_ttl p m) =
     max (unat (cp_min_ttl p)) (Min (insert (unat (cp_max_ttl p)) ((\<lambda>r. unat (rr_ttl r)) ` set (m_answers m))))"
proof -
  have "calculate_ttl p m = max (cp_min_ttl p) (lower_ttl (m_answers m) (cp_max_ttl p))"
    by (auto simp: calculate_ttl_def Let_def max_def not_less)
  then show ?thesis by (simp add: unat_max unat_lower_ttl)
qed

text \<open>Every response without an answer record is cached for the longest time that
  is configured, one day by default, whatever its code is: a failure of the
  upstream (SERVFAIL), a refusal and a negative answer alike, and the negative
  TTL of the authority section is not looked at.\<close>

lemma failures_cached_longest:
  assumes "get_key c = Some key" "response c = Some m" "m_answers m = []"
    and "lib_to_vec L m = Some raw" "length raw \<le> 4096" "0 < cp_max_ttl p"
    and "\<not> cp_xdp_cache_enabled p"
  shows "cp_cache (cache_on_response L now now_ns inserted c p) key =
     Some (ce_new_with_bytes now m (max (cp_min_ttl p) (cp_max_ttl p)) raw)"
proof -
  have t: "calculate_ttl p m = max (cp_min_ttl p) (cp_max_ttl p)"
    using assms(3) by (auto simp: calculate_ttl_def max_def Let_def)
  moreover have "0 < max (cp_min_ttl p) (cp_max_ttl p)" using assms(6) by (simp add: less_max_iff_disj)
  ultimately show ?thesis
    using assms(1,2,4,5,7)
    by (simp add: cache_on_response_def max_entry_size_def sync_query_def sync_to_xdp_def cache_insert_def Let_def
        split: option.split)
qed

section \<open>What the cache can hold\<close>

text \<open>The operations on a plugin, from the empty cache.  The set records what was
  stored: the key, the message, the time and the TTL.\<close>

type_synonym stored = "query_key \<times> message \<times> u64 \<times> u64"

fun job_key :: "refresh_job \<Rightarrow> query_key" where
  "job_key (Recursive_Refresh key _ _ _) = key"
| "job_key (Forward_Prefetch key _) = key"

inductive cache_reach :: "'h \<Rightarrow> dns_lib \<Rightarrow> stored set \<Rightarrow> cache_plugin \<Rightarrow> bool" for hook L where
  cr_start: "cp_cache p = Map.empty \<Longrightarrow> cache_reach hook L {} p"
| cr_handle: "cache_reach hook L H p \<Longrightarrow> cache_handle hook now p s c = Inr (c', p', s', job) \<Longrightarrow> cache_reach hook L H p'"
| cr_response: "cache_reach hook L H p \<Longrightarrow> get_key (c :: 'h ctx) = Some key \<Longrightarrow> response c = Some m \<Longrightarrow>
    cache_reach hook L (insert (key, m, now, calculate_ttl p m) H) (cache_on_response L now now_ns inserted c p)"
| cr_insert: "cache_reach hook L H p \<Longrightarrow>
    cache_reach hook L (insert (build_key_for_domain domain qt qclass, m, now, calculate_ttl p m) H)
      (snd (insert_response_for_domain L now now_ns inserted domain qt qclass m p))"
| cr_refresh: "cache_reach hook L H p \<Longrightarrow>
    cache_reach hook L (H \<union> (\<lambda>m. (job_key job, m, now, calculate_ttl p m)) ` {m. Some m = ra \<or> Some m = fa})
      (refresh_done L now job ra fa p)"
| cr_shadow: "cache_reach hook L H p \<Longrightarrow> cp_xdp_hash_map p qhash = Some (domain, qt, qclass) \<Longrightarrow>
    cache_reach hook L (insert (build_key_for_domain domain qt qclass, m, now,
        ucast (case least_ttl (m_answers m) of Some t \<Rightarrow> t | None \<Rightarrow> 300)) H)
      (shadow_refresh L now now_ns inserted qhash (Some m) p)"
| cr_evict: "cache_reach hook L H p \<Longrightarrow> cache_reach hook L H (cache_evict key p)"
| cr_purge: "cache_reach hook L H p \<Longrightarrow> cache_reach hook L H (cache_purge p)"
| cr_enable: "cache_reach hook L H p \<Longrightarrow> cache_reach hook L H (enable_xdp_cache b p)"

definition raw_of :: "dns_lib \<Rightarrow> message \<Rightarrow> bytes" where
  "raw_of L m = (case lib_to_vec L m of Some raw \<Rightarrow> raw | None \<Rightarrow> [])"

definition entry_of :: "dns_lib \<Rightarrow> stored \<Rightarrow> query_key \<times> cached_entry" where
  "entry_of L = (\<lambda>(key, m, t, ttl). (key, ce_new_with_bytes t m ttl (raw_of L m)))"

definition cache_sound :: "dns_lib \<Rightarrow> stored set \<Rightarrow> cache_plugin \<Rightarrow> bool" where
  "cache_sound L H p \<longleftrightarrow> (\<forall>key e. cp_cache p key = Some e \<longrightarrow> (key, e) \<in> entry_of L ` H)"

lemma cache_sound_cache: "cp_cache p' = cp_cache p \<Longrightarrow> cache_sound L H p \<Longrightarrow> cache_sound L H p'"
  by (simp add: cache_sound_def)

lemma cache_sound_mono: "cache_sound L H p \<Longrightarrow> H \<subseteq> H' \<Longrightarrow> cache_sound L H' p"
  unfolding cache_sound_def by blast

lemma cache_sound_insert:
  assumes "cache_sound L H p" "(key, m, t, ttl) \<in> H" "raw = raw_of L m"
  shows "cache_sound L H (cache_insert key (ce_new_with_bytes t m ttl raw) p)"
proof -
  have "(key, ce_new_with_bytes t m ttl raw) \<in> entry_of L ` H"
    using assms(2,3) by (intro image_eqI [where x = "(key, m, t, ttl)"]) (simp_all add: entry_of_def)
  with assms(1) show ?thesis by (simp add: cache_sound_def cache_insert_def)
qed

lemma cache_sound_evict: "cache_sound L H p \<Longrightarrow> cache_sound L H (cache_evict key p)"
  by (simp add: cache_sound_def cache_evict_def)

lemma sync_to_xdp_cache [simp]:
  "cp_cache (sync_to_xdp now_ns inserted q qt qclass d raw ttl p) = cp_cache p"
  "cp_cache (sync_query L now_ns inserted c raw ttl p) = cp_cache p"
  by (simp_all add: sync_query_def sync_to_xdp_def Let_def split: option.split sum.split)

lemma handle_cache:
  assumes "cache_handle hook now p s c = Inr (c', p', s', job)"
  shows "p' = p \<or> (\<exists>key. p' = cache_evict key p)"
  using assms
  by (auto simp: cache_handle_def cache_miss_def Let_def andthen_eq_Inr split: option.splits if_splits)

lemma cache_reach_sound: "cache_reach hook L H p \<Longrightarrow> cache_sound L H p"
proof (induction rule: cache_reach.induct)
  case (cr_start p)
  then show ?case by (simp add: cache_sound_def)
next
  case (cr_handle H p now s c c' p' s' job)
  with handle_cache [OF cr_handle.hyps(2)] cache_sound_evict show ?case by blast
next
  case (cr_response H p c key m now now_ns inserted)
  let ?H = "insert (key, m, now, calculate_ttl p m) H"
  from cr_response have s: "cache_sound L ?H p" by (blast intro: cache_sound_mono)
  then have "cache_sound L ?H (cache_insert key (ce_new_with_bytes now m (calculate_ttl p m) (raw_of L m)) p)"
    by (rule cache_sound_insert) simp_all
  with s show ?case
    using cr_response.hyps(2,3)
    by (auto simp: cache_on_response_def Let_def raw_of_def intro: cache_sound_cache [rotated])
next
  case (cr_insert H p domain qt qclass m now now_ns inserted)
  let ?k = "build_key_for_domain domain qt qclass"
  let ?H = "insert (?k, m, now, calculate_ttl p m) H"
  from cr_insert have s: "cache_sound L ?H p" by (blast intro: cache_sound_mono)
  then have "cache_sound L ?H (cache_insert ?k (ce_new_with_bytes now m (calculate_ttl p m) (raw_of L m)) p)"
    by (rule cache_sound_insert) simp_all
  with s show ?case
    by (auto simp: insert_response_for_domain_def Let_def raw_of_def intro: cache_sound_cache [rotated]
        split: option.split)
next
  case (cr_refresh H p job now ra fa)
  let ?H = "H \<union> (\<lambda>m. (job_key job, m, now, calculate_ttl p m)) ` {m. Some m = ra \<or> Some m = fa}"
  from cr_refresh have s: "cache_sound L ?H p" by (blast intro: cache_sound_mono)
  have r: "cache_sound L ?H (refresh_store L now (job_key job) m p)" if "Some m = ra \<or> Some m = fa" for m
    using s that by (auto simp: refresh_store_def Let_def raw_of_def intro: cache_sound_insert split: option.split)
  show ?case
    using s r by (cases job) (auto simp: refresh_done_def split: option.split)
next
  case (cr_shadow H p qhash domain qt qclass m now now_ns inserted)
  let ?k = "build_key_for_domain domain qt qclass"
  let ?t = "ucast (case least_ttl (m_answers m) of Some t \<Rightarrow> t | None \<Rightarrow> 300) :: u64"
  let ?H = "insert (?k, m, now, ?t) H"
  from cr_shadow have s: "cache_sound L ?H p" by (blast intro: cache_sound_mono)
  then have i: "cache_sound L ?H (cache_insert ?k (ce_new_with_bytes now m ?t (raw_of L m)) p)"
    by (rule cache_sound_insert) simp_all
  have "cp_cache (shadow_refresh L now now_ns inserted qhash (Some m) p) = cp_cache p
      \<or> cp_cache (shadow_refresh L now now_ns inserted qhash (Some m) p) =
         cp_cache (cache_insert ?k (ce_new_with_bytes now m ?t (raw_of L m)) p)"
    using cr_shadow.hyps(2)
    by (auto simp: shadow_refresh_def Let_def raw_of_def split: option.split sum.split)
  with s i show ?case by (blast intro: cache_sound_cache)
next
  case (cr_purge H p)
  then show ?case by (simp add: cache_sound_def cache_purge_def)
next
  case (cr_enable H p b)
  then show ?case by (simp add: cache_sound_def enable_xdp_cache_def)
qed (simp add: cache_sound_evict)
section \<open>Replies from the cache\<close>

definition id_patched :: "'h ctx \<Rightarrow> bytes \<Rightarrow> bytes" where
  "id_patched c raw = be_bytes 2 (m_id (request c)) @ drop 2 raw"

lemma cache_reply_cases:
  assumes "serial_header L"
  obtains c' where "cache_reply (ce_new_with_bytes t m ttl (raw_of L m)) c = Inr c'"
    "ctx_abort c'" "reply_ok c'" "request c' = request c"
    "case lib_to_vec L m of
       Some raw \<Rightarrow> map_option zc_raw (raw_response c') = Some (id_patched c raw)
     | None \<Rightarrow> c' = set_response m True c"
proof (cases "lib_to_vec L m")
  case None
  have "cache_reply (ce_new_with_bytes t m ttl (raw_of L m)) c = Inr (set_response m True c)"
    using None by (simp add: cache_reply_def ce_new_with_bytes_def raw_of_def zc_from_bytes_def set_response_def Let_def)
  with None show thesis by (intro that [of "set_response m True c"]) simp_all
next
  case (Some raw)
  with assms have len: "12 \<le> length raw" by (simp add: serial_header_def)
  then obtain z where z: "zc_from_bytes raw = Inr z" "zc_raw z = raw" by (simp add: zc_from_bytes_def)
  then have "zc_ok z" using zc_from_bytes_ok by blast
  from set_raw_response_total [OF this, of True c] z
  obtain c' where "set_raw_response z True c = Inr c'" "reply_ok c'" "request c' = request c" "ctx_abort c'"
    "map_option zc_raw (raw_response c') = Some (id_patched c raw)"
    by (auto simp: id_patched_def)
  with Some z that [of c'] show thesis by (simp add: cache_reply_def ce_new_with_bytes_def raw_of_def)
qed

lemma ce_new_fields [simp]:
  "ce_timestamp (ce_new_with_bytes t m ttl raw) = t" "ce_ttl (ce_new_with_bytes t m ttl raw) = ttl"
  by (simp_all add: ce_new_with_bytes_def)

lemma ce_remaining_pos: "0 < ce_remaining now e \<longleftrightarrow> unat now - unat (ce_timestamp e) < unat (ce_ttl e)"
  unfolding ce_remaining_def ce_elapsed_def by (simp add: word_less_nat_alt)

lemma ce_remaining_0: "ce_remaining now e = 0 \<longleftrightarrow> unat (ce_ttl e) \<le> unat now - unat (ce_timestamp e)"
  using ce_remaining_pos [of now e] by (auto simp: word_gt_0)


text \<open>C8: A stored response answers the next queries: from its storage until its TTL has
  passed, a query with the same key is answered at once with the same bytes
  under the query's own ID, and a refresh is started exactly when less than the
  threshold is left and an upstream is configured for it.\<close>

theorem cache_answers_repeat:
  assumes "serial_header L" "get_key c = Some key" "response c = Some m" "lib_to_vec L m = Some raw"
    and "length raw \<le> 4096" "get_key c2 = Some key"
    and "unat now2 - unat now < unat (calculate_ttl p m)"
  shows "\<exists>c' job. let p' = cache_on_response L now now_ns inserted c p in
      cache_handle hook now2 p' s c2 = Inr (c', p', record_cache_hit s, job)
    \<and> map_option zc_raw (raw_response c') = Some (id_patched c2 raw) \<and> ctx_abort c'
    \<and> (job \<noteq> None \<longleftrightarrow> unat (calculate_ttl p m) - (unat now2 - unat now) < unat (cp_prefetch_threshold p)
          \<and> (cp_prefetch_recursive p \<or> cp_prefetch_forwarder p))"
proof -
  let ?t = "calculate_ttl p m" and ?p = "cache_on_response L now now_ns inserted c p"
  let ?e = "ce_new_with_bytes now m ?t (raw_of L m)"
  have "0 < unat ?t" using assms(7) by simp
  then have t: "0 < ?t" by (simp only: unat_gt_0 word_gt_0) 
  have raw: "raw_of L m = raw" using assms(4) by (simp add: raw_of_def)
  have p: "cp_cache ?p key = Some ?e" "cp_prefetch_recursive ?p = cp_prefetch_recursive p"
    "cp_prefetch_forwarder ?p = cp_prefetch_forwarder p" "cp_prefetch_threshold ?p = cp_prefetch_threshold p"
    using assms(2-5) t
    by (auto simp: cache_on_response_def max_entry_size_def cache_insert_def raw sync_query_def sync_to_xdp_def
        Let_def split: option.split sum.split)
  obtain c' where c': "cache_reply ?e c2 = Inr c'" "ctx_abort c'" "request c' = request c2"
      "map_option zc_raw (raw_response c') = Some (id_patched c2 raw)"
    by (rule cache_reply_cases [OF assms(1), of now m ?t c2]) (use assms(4) in auto)
  have rem: "0 < ce_remaining now2 ?e" using assms(7) by (simp add: ce_remaining_pos)
  have u: "unat (ce_remaining now2 ?e) = unat ?t - (unat now2 - unat now)"
    by (simp add: ce_remaining_def ce_elapsed_def)
  obtain q where q: "msg_query (request c2) = Some q"
    using assms(6) by (auto simp: get_key_def split: option.splits)
  from rem c' p u q assms(6) show ?thesis
    by (auto simp: cache_handle_def Let_def refresh_of_def word_gt_0 word_less_nat_alt)
qed
section \<open>Persistence round trip\<close>

lemma read_exact_20: "read_exact 20 (qk_to_bytes k @ rest) = Some (qk_to_bytes k, rest)"
  by simp

lemma qk_roundtrip_plain: "key_subnet k = None \<Longrightarrow> qk_from_bytes (qk_to_bytes k) = k"
  using qk_roundtrip [of k] by (cases k) simp

lemma load_disk_record:
  assumes "ce_ok L e" "key_subnet k = None"
  shows "load_from_disk L now (disk_record L (k, e) @ rest) p =
     load_from_disk L now rest (restore_entry now 3600 k e p)"
proof -
  obtain bs where bs: "ce_to_bytes L e = Some bs" "length bs < 2 ^ 32"
    "\<And>rest. ce_from_bytes L (bs @ rest) = Inr (e, length bs)"
    using ce_to_bytes_ok [OF assms(1)] by metis
  have l: "unat (word_of_nat (length bs) :: u32) = length bs" using bs(2) by (simp add: unat_of_nat)
  have "disk_record L (k, e) @ rest
      = qk_to_bytes k @ le_bytes 4 (word_of_nat (length bs) :: u32) @ bs @ rest"
    by (simp add: disk_record_def bs(1))
  then show ?thesis
    using bs(3) [of "[]"]
    by (subst load_from_disk.simps) (simp add: l qk_roundtrip_plain assms(2))
qed

lemma load_from_disk_Nil [simp]: "load_from_disk L now [] p = p"
  by (subst load_from_disk.simps) (simp add: read_exact_def)

lemma load_saved:
  assumes "\<forall>(k, e) \<in> set entries. ce_ok L e \<and> key_subnet k = None"
  shows "load_from_disk L now (save_to_disk L entries) p =
     fold (\<lambda>(k, e). restore_entry now 3600 k e) entries p"
  using assms
proof (induction entries arbitrary: p)
  case Nil
  show ?case by (simp add: save_to_disk_def)
next
  case (Cons ke entries)
  obtain k e where ke: "ke = (k, e)" by fastforce
  with Cons.prems have "ce_ok L e" "key_subnet k = None" by auto
  with Cons ke show ?case
    by (simp add: save_to_disk_def load_disk_record)
qed

lemma restore_params [simp]: "cp_serve_stale_ttl (restore_entry now g k e p) = cp_serve_stale_ttl p"
  by (simp add: restore_entry_def cache_insert_def)

lemma fold_restore:
  assumes "distinct (map fst entries)"
  shows "cp_cache (fold (\<lambda>(k, e). restore_entry now g k e) entries p) key =
     (case map_of entries key of
        Some e \<Rightarrow> if ce_elapsed now e < ce_ttl e + cp_serve_stale_ttl p + g then Some e else cp_cache p key
      | None \<Rightarrow> cp_cache p key)"
  using assms
proof (induction entries arbitrary: p)
  case (Cons ke entries)
  obtain k e where ke: "ke = (k, e)" by fastforce
  from Cons.prems ke have "k \<notin> fst ` set entries" "distinct (map fst entries)" by simp_all
  then have "map_of entries k = None" by (simp add: map_of_eq_None_iff)
  with Cons.IH [OF \<open>distinct (map fst entries)\<close>, of "restore_entry now g k e p"] ke show ?case
    by (auto simp: restore_entry_def cache_insert_def split: option.splits)
qed simp

text \<open>C9: Saving and loading restores the cache: a fresh plugin that loads the file that
  another one saved holds exactly the saved entries that have not been expired
  for longer than the stale time and an hour, each under its key.\<close>

theorem persistence_roundtrip:
  assumes "\<forall>(k, e) \<in> set entries. ce_ok L e \<and> key_subnet k = None"
    and "distinct (map fst entries)" and "cp_cache p = Map.empty"
  shows "cp_cache (load_from_disk L now (save_to_disk L entries) p) =
     (\<lambda>key. case map_of entries key of
        Some e \<Rightarrow> if ce_elapsed now e < ce_ttl e + cp_serve_stale_ttl p + 3600 then Some e else None
      | None \<Rightarrow> None)"
  using fold_restore [OF assms(2), of now 3600 p] assms(3)
  by (simp add: load_saved [OF assms(1)] fun_eq_iff split: option.split)

text \<open>The second pair of formats agrees as well.\<close>

lemma load_dump_record:
  assumes "ce_ok L e" "ce_to_bytes L e = Some bs" "key_subnet k = None"
  shows "load_from_file L now (qk_to_bytes k @ bs @ rest) p =
     load_from_file L now rest (restore_entry now 0 k e p)"
proof -
  have b: "ce_from_bytes L (bs @ rest) = Inr (e, length bs)"
    using ce_to_bytes_ok [OF assms(1)] assms(2) by (metis option.inject)
  then show ?thesis
    by (subst load_from_file.simps) (simp add: qk_roundtrip_plain assms(3))
qed

lemma load_dumped:
  assumes "\<forall>(k, e) \<in> set entries. ce_ok L e \<and> key_subnet k = None"
    and "dump_to_file L entries = Inr content"
  shows "load_from_file L now content p = fold (\<lambda>(k, e). restore_entry now 0 k e) entries p"
  using assms
proof (induction entries arbitrary: p content)
  case Nil
  then show ?case by (subst load_from_file.simps) simp
next
  case (Cons ke entries)
  obtain k e where ke: "ke = (k, e)" by fastforce
  with Cons.prems obtain bs rest where b: "ce_to_bytes L e = Some bs" "dump_to_file L entries = Inr rest"
      "content = qk_to_bytes k @ bs @ rest"
    by (auto simp: andthen_eq_Inr split: option.splits)
  have ok: "ce_ok L e" "key_subnet k = None" using Cons.prems(1) ke by auto
  have "load_from_file L now rest q = fold (\<lambda>(k, e). restore_entry now 0 k e) entries q" for q
    using Cons.prems(1) b(2) by (intro Cons.IH) auto
  with load_dump_record [OF ok(1) b(1) ok(2), of now rest p] b(3) ke show ?case by simp
qed

section \<open>Witnesses\<close>

definition sample_key :: query_key where
  "sample_key = \<lparr>name_hash = hash_domain ''a.'', key_qtype = 1, key_qclass = 1, key_subnet = None\<rparr>"

definition sample_ctx :: "u16 \<Rightarrow> unit ctx" where
  "sample_ctx i = ctx_new (sample_msg\<lparr>m_id := i, m_queries := [\<lparr>q_name = ''a.'', q_type = 1, q_class = 1\<rparr>]\<rparr>)
     (V4 1, 53) 0"

definition sample_answer :: message where
  "sample_answer = sample_msg\<lparr>m_answers := [from_rdata ''a.'' 60 (RD_A 1)]\<rparr>"

definition sample_cache :: cache_plugin where
  "sample_cache = cache_new (Some (1, 10, 30)) False None 0 cache_tuning_default"

lemma sample_get_key [simp]: "get_key ((sample_ctx i)\<lparr>response := r\<rparr>) = Some sample_key"
  "get_key (sample_ctx i) = Some sample_key"
  by (simp_all add: get_key_def sample_ctx_def ctx_new_def qname_ref_def compute_qname_def sample_key_def)

lemma sample_raw [simp]:
  "lib_to_vec sample_lib m = Some (be_bytes 2 (m_id m) @ replicate 10 0)"
  by (simp add: sample_lib_def)

lemma sample_ttl: "calculate_ttl sample_cache sample_answer = 60"
  by (simp add: calculate_ttl_def sample_cache_def cache_new_def cache_tuning_default_def sample_answer_def
      Let_def)

theorem cache_answers_repeat_witness:
  "\<exists>c' job. let p' = cache_on_response sample_lib 1000 0 True ((sample_ctx 7)\<lparr>response := Some sample_answer\<rparr>) sample_cache in
      cache_handle () 1055 p' stats_new (sample_ctx 9) = Inr (c', p', record_cache_hit stats_new, job)
    \<and> map_option zc_raw (raw_response c') = Some ([0, 9] @ replicate 10 0) \<and> job \<noteq> None"
proof -
  have k: "id_patched (sample_ctx 9) (be_bytes 2 (0::u16) @ replicate 10 0) = [0, 9] @ replicate 10 0"
    by (simp add: id_patched_def sample_ctx_def ctx_new_def byte_simps)
  have "\<exists>c' job. let p' = cache_on_response sample_lib 1000 0 True ((sample_ctx 7)\<lparr>response := Some sample_answer\<rparr>) sample_cache in
      cache_handle () 1055 p' stats_new (sample_ctx 9) = Inr (c', p', record_cache_hit stats_new, job)
    \<and> map_option zc_raw (raw_response c') = Some (id_patched (sample_ctx 9) (be_bytes 2 (0::u16) @ replicate 10 0))
    \<and> ctx_abort c'
    \<and> (job \<noteq> None \<longleftrightarrow> unat (calculate_ttl sample_cache sample_answer) - (unat (1055 :: u64) - unat (1000 :: u64))
          < unat (cp_prefetch_threshold sample_cache)
          \<and> (cp_prefetch_recursive sample_cache \<or> cp_prefetch_forwarder sample_cache))"
    by (rule cache_answers_repeat [OF sample_lib_header, where key = sample_key])
       (simp_all add: sample_ttl, simp_all add: sample_answer_def)
  then show ?thesis
    unfolding k sample_ttl
    by (simp add: sample_cache_def cache_new_def Let_def) blast
qed

lemma sample_zeros: "be_bytes 2 (0 :: u16) @ replicate 10 0 = replicate 12 (0 :: u8)"
  "from_be (take 2 (replicate 12 0)) = (0 :: u16)"
  by code_simp+

lemma failures_cached_longest_witness:
  "cp_cache (cache_on_response sample_lib 1000 0 True ((sample_ctx 7)\<lparr>response := Some (sample_msg\<lparr>m_rcode := ServFail\<rparr>)\<rparr>)
       sample_cache) sample_key
     = Some (ce_new_with_bytes 1000 (sample_msg\<lparr>m_rcode := ServFail\<rparr>) 86400 (replicate 12 0))"
proof -
  have p: "max (cp_min_ttl sample_cache) (cp_max_ttl sample_cache) = 86400" "0 < cp_max_ttl sample_cache"
      "\<not> cp_xdp_cache_enabled sample_cache"
    by (simp_all add: sample_cache_def cache_new_def cache_tuning_default_def Let_def max_def)
  have raw: "lib_to_vec sample_lib (sample_msg\<lparr>m_rcode := ServFail\<rparr>) = Some (replicate 12 0)"
    unfolding sample_raw by (simp add: sample_zeros)
  show ?thesis
    unfolding p(1) [symmetric]
    by (rule failures_cached_longest) (use p(2,3) raw in \<open>simp_all del: sample_raw\<close>)
qed

definition sample_entry_60 :: cached_entry where
  "sample_entry_60 = ce_new_with_bytes 1000 sample_msg 60 (replicate 12 0)"

theorem persistence_roundtrip_witness:
  "cp_cache (load_from_disk sample_lib 2000 (save_to_disk sample_lib [(sample_key, sample_entry_60)]) sample_cache) sample_key
     = Some sample_entry_60"
proof -
  have "lib_from_vec sample_lib (replicate 12 0) = Some sample_msg"
    unfolding sample_lib_def using sample_zeros(2) by (simp add: sample_msg_def)
  then have "ce_ok sample_lib sample_entry_60"
    by (simp add: ce_ok_def sample_entry_60_def ce_new_with_bytes_def)
  then have w: "\<forall>(k, e) \<in> set [(sample_key, sample_entry_60)]. ce_ok sample_lib e \<and> key_subnet k = None"
    by (simp add: sample_key_def)
  have p: "cp_cache sample_cache = Map.empty" "cp_serve_stale_ttl sample_cache = 30"
    by (simp_all add: sample_cache_def cache_new_def Let_def)
  have "ce_elapsed 2000 sample_entry_60 < ce_ttl sample_entry_60 + 30 + 3600"
    by (simp add: ce_elapsed_def sample_entry_60_def sat_sub_def)
  with persistence_roundtrip [OF w _ p(1), of 2000] p(2) show ?thesis by simp
qed

section \<open>The contract of the pipeline\<close>

text \<open>The handler never panics, and keeps the request and the reply contract.\<close>

lemma cache_reply_keeps:
  obtains c' where "cache_reply e c = Inr c'" "reply_ok c'" "query_ident c' = query_ident c"
proof (cases "\<exists>raw z. ce_raw_bytes e = Some raw \<and> zc_from_bytes raw = Inr z")
  case True
  then obtain raw z where z: "ce_raw_bytes e = Some raw" "zc_from_bytes raw = Inr z" by blast
  then have "zc_ok z" using zc_from_bytes_ok by blast
  from set_raw_response_total [OF this, of True c]
  obtain c' where c': "set_raw_response z True c = Inr c'" "reply_ok c'" by blast
  with z that [of c'] show thesis by (simp add: cache_reply_def set_raw_response_ident)
next
  case False
  then have "cache_reply e c = Inr (set_response ((ce_message e)\<lparr>m_id := m_id (request c)\<rparr>) True c)"
    by (auto simp: cache_reply_def split: option.split sum.split)
  then show thesis by (rule that) simp_all
qed

definition handled_ok :: "'h ctx \<Rightarrow> ('h ctx \<times> cache_plugin \<times> dns_stats \<times> refresh_job option) result \<Rightarrow> bool" where
  "handled_ok c r = (case r of Inl e \<Rightarrow> False
     | Inr (c', p', s', job) \<Rightarrow> query_ident c' = query_ident c \<and> (reply_ok c \<longrightarrow> reply_ok c'))"

lemma reply_ok_hooks: "reply_ok (c\<lparr>post_process_hooks := h\<rparr>) = reply_ok c"
  by (simp add: reply_ok_def)

lemma cache_miss_keeps: "handled_ok c (cache_miss hook p s c)"
  by (simp add: handled_ok_def cache_miss_def query_ident_def reply_ok_hooks)

lemma cache_handle_keeps: "handled_ok c (cache_handle hook now p s c)"
proof -
  have hit: "handled_ok c (andthen (cache_reply e c) (\<lambda>c'. Inr (c', p, s', f c')))" for e s' f
    by (rule cache_reply_keeps [of e c]) (simp add: handled_ok_def)
  have none: "handled_ok c (Inr (c, p, s, None))" by (simp add: handled_ok_def)
  have ifs: "handled_ok c (if b then x else y)" if "handled_ok c x" "handled_ok c y" for b x y
    using that by simp
  show ?thesis
  proof (cases "get_key c")
    case None
    then show ?thesis using none by (simp add: cache_handle_def)
  next
    case (Some key)
    then show ?thesis
    proof (cases "cp_cache p key")
      case None
      with Some show ?thesis by (simp add: cache_handle_def cache_miss_keeps)
    next
      case e: (Some e)
      show ?thesis
        unfolding cache_handle_def Some e option.case Let_def by (intro ifs hit cache_miss_keeps)
    qed
  qed
qed

end
