(* ===== verification/Fallback.thy ===== *)
theory Fallback
  imports Dns_Context
begin

text \<open>
  \<open>src/plugins/fallback.rs\<close>: a primary and a secondary plugin run on clones of the
  context, and the first success is taken over.  \<open>tokio::select!\<close> makes this a
  state machine driven by three kinds of events: a branch completes with its
  outcome, or the threshold passes.  A fourth event is the poll of a future that
  has already completed, which \<open>select!\<close> does when a branch stays enabled after
  its completion, and which panics (the futures are \<open>async\<close> blocks).
\<close>

text \<open>The outcome of one branch: the result of the handler, or \<open>None\<close> when it ran
  into the timeout of five seconds.\<close>

definition fb_outcome :: "'h ctx result option \<Rightarrow> 'h ctx option" where
  "fb_outcome r =
     (case r of
        Some (Inr run_ctx) \<Rightarrow> if has_response run_ctx then Some run_ctx else None
      | Some (Inl e) \<Rightarrow> None
      | None \<Rightarrow> None)"

definition apply_ctx :: "'h ctx \<Rightarrow> 'h ctx \<Rightarrow> 'h ctx" where
  "apply_ctx from_ctx to_ctx =
     to_ctx\<lparr>response := response from_ctx, raw_response := raw_response from_ctx,
            tags := tags from_ctx, ctx_abort := ctx_abort from_ctx,
            ctx_min_ttl := ctx_min_ttl from_ctx, post_process_hooks := post_process_hooks from_ctx\<rparr>"

datatype 'c fb_event =
    Primary_Done "'c option"
  | Secondary_Done "'c option"
  | Delay
  | Poll_Finished

text \<open>\<open>Wait\<close>: the primary runs, the threshold is not over.  \<open>Secondary_Only\<close>: the
  primary failed before it.  \<open>Race p s\<close>: both run, with the flags \<open>primary_done\<close>
  and \<open>secondary_done\<close>.  \<open>Standby p cached allow fin\<close>: the loop of the standby
  mode, with \<open>primary_done\<close>, \<open>secondary_cached\<close>, \<open>allow_secondary\<close> and whether the
  secondary future has completed.\<close>

datatype 'c fb_state =
    Wait
  | Secondary_Only
  | Race bool bool
  | Standby bool "'c option option" bool bool
  | Returned "'c result"
  | Panicked

definition fb_start :: "bool \<Rightarrow> 'c fb_state" where
  "fb_start always_standby = (if always_standby then Standby False None False False else Wait)"

definition both_failed :: rust_error where
  "both_failed = Error ''Both upstreams failed''"

text \<open>The end of an iteration of the standby loop.\<close>

definition standby_check :: "bool \<Rightarrow> 'c option option \<Rightarrow> bool \<Rightarrow> bool \<Rightarrow> 'c fb_state" where
  "standby_check p cached allow fin =
     (if p \<and> cached \<noteq> None \<and> allow then Returned (Inl both_failed) else Standby p cached allow fin)"

text \<open>\<open>if let Some(Some(c)) = secondary_cached.take()\<close>: the cell is emptied whether
  or not the pattern matches.\<close>

definition standby_take :: "bool \<Rightarrow> 'c option option \<Rightarrow> bool \<Rightarrow> bool \<Rightarrow> 'c fb_state" where
  "standby_take p cached allow fin =
     (case cached of Some (Some c) \<Rightarrow> Returned (Inr c) | _ \<Rightarrow> standby_check p None allow fin)"

fun fb_step :: "'c fb_event \<Rightarrow> 'c fb_state \<Rightarrow> 'c fb_state option" where
  "fb_step (Primary_Done res) Wait =
     (case res of Some c \<Rightarrow> Some (Returned (Inr c)) | None \<Rightarrow> Some Secondary_Only)"
| "fb_step Delay Wait = Some (Race False False)"
| "fb_step (Secondary_Done res) Secondary_Only =
     (case res of Some c \<Rightarrow> Some (Returned (Inr c)) | None \<Rightarrow> Some (Returned (Inl both_failed)))"
| "fb_step (Primary_Done res) (Race p s) =
     (if p then None
      else case res of Some c \<Rightarrow> Some (Returned (Inr c))
           | None \<Rightarrow> Some (if s then Returned (Inl both_failed) else Race True s))"
| "fb_step (Secondary_Done res) (Race p s) =
     (if s then None
      else case res of Some c \<Rightarrow> Some (Returned (Inr c))
           | None \<Rightarrow> Some (if p then Returned (Inl both_failed) else Race p True))"
| "fb_step (Primary_Done res) (Standby p cached allow fin) =
     (if p then None
      else case res of Some c \<Rightarrow> Some (Returned (Inr c))
           | None \<Rightarrow> Some (standby_take True cached True fin))"
| "fb_step (Secondary_Done res) (Standby p cached allow fin) =
     (if cached \<noteq> None \<or> fin then None
      else Some (if allow then standby_take p (Some res) allow True
                 else standby_check p (Some res) allow True))"
| "fb_step Delay (Standby p cached allow fin) =
     (if allow then None else Some (standby_take p cached True fin))"
| "fb_step Poll_Finished (Standby p cached allow fin) =
     (if cached = None \<and> fin then Some Panicked else None)"
| "fb_step _ _ = None"

fun fb_run :: "'c fb_event list \<Rightarrow> 'c fb_state \<Rightarrow> 'c fb_state option" where
  "fb_run [] s = Some s"
| "fb_run (e # es) s = (case fb_step e s of None \<Rightarrow> None | Some s' \<Rightarrow> fb_run es s')"

text \<open>What the handler does with the outcome of a run.\<close>

definition fb_handle :: "bool \<Rightarrow> 'h ctx fb_event list \<Rightarrow> 'h ctx \<Rightarrow> 'h ctx result option" where
  "fb_handle always_standby events c =
     (case fb_run events (fb_start always_standby) of
        Some (Returned (Inr from_ctx)) \<Rightarrow> Some (Inr (apply_ctx from_ctx c))
      | Some (Returned (Inl e)) \<Rightarrow> Some (Inl e)
      | Some Panicked \<Rightarrow> Some (Inl Panic)
      | _ \<Rightarrow> None)"

section \<open>The plain mode\<close>

text \<open>What is known in each state about the events so far.\<close>

definition plain_inv :: "'c fb_event set \<Rightarrow> 'c fb_state \<Rightarrow> bool" where
  "plain_inv E s =
     (case s of
        Wait \<Rightarrow> E = {}
      | Secondary_Only \<Rightarrow> Primary_Done None \<in> E
      | Race p b \<Rightarrow> Delay \<in> E \<and> (p \<longrightarrow> Primary_Done None \<in> E) \<and> (b \<longrightarrow> Secondary_Done None \<in> E) \<and> \<not> (p \<and> b)
      | Standby _ _ _ _ \<Rightarrow> False
      | Returned (Inr c) \<Rightarrow> Primary_Done (Some c) \<in> E
          \<or> (Secondary_Done (Some c) \<in> E \<and> (Delay \<in> E \<or> Primary_Done None \<in> E))
      | Returned (Inl e) \<Rightarrow> e = both_failed \<and> Primary_Done None \<in> E \<and> Secondary_Done None \<in> E
      | Panicked \<Rightarrow> False)"

lemma plain_step:
  assumes "plain_inv E s" and "fb_step e s = Some s'"
  shows "plain_inv (insert e E) s'"
  using assms
  by (cases "(e, s)" rule: fb_step.cases)
     (auto simp: plain_inv_def split: option.splits if_splits sum.splits)

lemma plain_run:
  "fb_run es s = Some s' \<Longrightarrow> plain_inv E s \<Longrightarrow> plain_inv (E \<union> set es) s'"
proof (induction es arbitrary: s E)
  case (Cons e es)
  then obtain s1 where "fb_step e s = Some s1" "fb_run es s1 = Some s'" by (auto split: option.splits)
  with Cons.IH [of s1 "insert e E"] plain_step [OF Cons.prems(2)] show ?case by simp
qed simp

text \<open>Every state of the plain mode that has not returned waits for an event.\<close>

lemma plain_progress:
  assumes "plain_inv E s" and "\<And>e. fb_step e s = None"
  shows "\<exists>r. s = Returned r"
proof (cases s)
  case Wait
  with assms(2) [of Delay] show ?thesis by simp
next
  case Secondary_Only
  with assms(2) [of "Secondary_Done None"] show ?thesis by simp
next
  case (Race p b)
  with assms(2) [of "Primary_Done None"] assms(2) [of "Secondary_Done None"] assms(1)
  show ?thesis by (auto simp: plain_inv_def split: if_splits)
qed (use assms(1) in \<open>auto simp: plain_inv_def\<close>)

text \<open>C28: In the plain mode the failover is correct for every order of events: the
  handler never panics, returns an error exactly when both plugins failed, and
  otherwise takes over the context of one that succeeded, the secondary's only
  after the threshold has passed or the primary has failed.\<close>

theorem fallback_plain:
  assumes "fb_handle False es c = Some r"
  shows "case r of
       Inr c' \<Rightarrow> (\<exists>from_ctx. c' = apply_ctx from_ctx c
          \<and> (Primary_Done (Some from_ctx) \<in> set es
             \<or> Secondary_Done (Some from_ctx) \<in> set es \<and> (Delay \<in> set es \<or> Primary_Done None \<in> set es)))
     | Inl e \<Rightarrow> e = both_failed \<and> Primary_Done None \<in> set es \<and> Secondary_Done None \<in> set es"
proof -
  obtain s where s: "fb_run es Wait = Some s"
    using assms by (auto simp: fb_handle_def fb_start_def split: option.splits)
  have "plain_inv ({} \<union> set es) s" by (rule plain_run [OF s]) (simp add: plain_inv_def)
  with assms s show ?thesis
    by (auto simp: fb_handle_def fb_start_def plain_inv_def split: fb_state.splits sum.splits)
qed

theorem fallback_plain_witness:
  "\<exists>c'. fb_handle False [Delay, Primary_Done None, Secondary_Done (Some (set_response sample_msg True
        (ctx_new sample_msg (V4 1, 53) 0)))] (ctx_new sample_msg (V4 1, 53) 0 :: unit ctx) = Some (Inr c')
     \<and> has_response c'"
proof -
  let ?c = "ctx_new sample_msg (V4 1, 53) 0 :: unit ctx"
  let ?es = "[Delay, Primary_Done None, Secondary_Done (Some (set_response sample_msg True ?c))]"
  obtain c' where c': "fb_handle False ?es ?c = Some (Inr c')"
    by (simp add: fb_handle_def fb_start_def)
  from fallback_plain [OF c'] have "has_response c'"
    by (auto simp: apply_ctx_def has_response_def)
  with c' show ?thesis by blast
qed

section \<open>The standby mode\<close>

text \<open>The cell is never filled while the secondary is allowed: the exit of the loop
  with an error is dead.\<close>

definition standby_inv :: "'c fb_event set \<Rightarrow> 'c fb_state \<Rightarrow> bool" where
  "standby_inv E s =
     (case s of
        Standby p cached allow fin \<Rightarrow> (allow \<longrightarrow> cached = None) \<and> (p \<longrightarrow> allow)
          \<and> (cached \<noteq> None \<longrightarrow> fin)
          \<and> (allow \<longrightarrow> Delay \<in> E \<or> Primary_Done None \<in> E)
          \<and> (fin \<and> cached = None \<longrightarrow> allow \<and> Secondary_Done None \<in> E)
          \<and> (\<forall>r. cached = Some r \<longrightarrow> Secondary_Done r \<in> E)
      | Returned (Inr c) \<Rightarrow> Primary_Done (Some c) \<in> E
          \<or> (Secondary_Done (Some c) \<in> E \<and> (Delay \<in> E \<or> Primary_Done None \<in> E))
      | Panicked \<Rightarrow> Secondary_Done None \<in> E \<and> (Delay \<in> E \<or> Primary_Done None \<in> E)
      | _ \<Rightarrow> False)"

lemma standby_simps [simp]:
  "standby_check p None allow fin = Standby p None allow fin"
  "standby_check p cached False fin = Standby p cached False fin"
  "standby_take p None allow fin = Standby p None allow fin"
  "standby_take p (Some None) allow fin = Standby p None allow fin"
  "standby_take p (Some (Some c)) allow fin = Returned (Inr c)"
  by (simp_all add: standby_check_def standby_take_def)

lemma standby_step:
  assumes inv: "standby_inv E s" and step: "fb_step e s = Some s'"
  shows "standby_inv (insert e E) s'"
proof (cases s)
  case (Standby p cached allow fin)
  show ?thesis
  proof (cases e)
    case (Primary_Done res)
    show ?thesis
    proof (cases res)
      case (Some c)
      with Standby Primary_Done step have "s' = Returned (Inr c)" by (simp split: if_splits)
      with Primary_Done Some show ?thesis by (simp add: standby_inv_def)
    next
      case None
      with Standby Primary_Done step have s': "s' = standby_take True cached True fin" by (simp split: if_splits)
      then show ?thesis
        using inv Standby Primary_Done None
        by (cases cached; cases "the cached") (auto simp: standby_inv_def)
    qed
  next
    case (Secondary_Done res)
    with Standby step have s': "cached = None" "\<not> fin"
      "s' = (if allow then standby_take p (Some res) allow True else standby_check p (Some res) allow True)"
      by (auto split: if_splits)
    then show ?thesis
      using inv Standby Secondary_Done
      by (cases allow; cases res) (auto simp: standby_inv_def)
  next
    case Delay
    with Standby step have s': "\<not> allow" "s' = standby_take p cached True fin" by (auto split: if_splits)
    then show ?thesis
      using inv Standby Delay
      by (cases cached; cases "the cached") (auto simp: standby_inv_def)
  next
    case Poll_Finished
    with Standby step have "cached = None" "fin" "s' = Panicked" by (auto split: if_splits)
    with inv Standby Poll_Finished show ?thesis by (auto simp: standby_inv_def)
  qed
qed (use inv step in \<open>cases e; simp add: standby_inv_def\<close>)+

lemma standby_run:
  "fb_run es s = Some s' \<Longrightarrow> standby_inv E s \<Longrightarrow> standby_inv (E \<union> set es) s'"
proof (induction es arbitrary: s E)
  case (Cons e es)
  then obtain s1 where "fb_step e s = Some s1" "fb_run es s1 = Some s'" by (auto split: option.splits)
  with Cons.IH [of s1 "insert e E"] standby_step [OF Cons.prems(2)] show ?case by simp
qed simp

text \<open>In the standby mode a success is taken over as in the plain mode, but the
  error \<open>Both upstreams failed\<close> is never returned: a run ends with a success or
  with a panic, and it can panic only when the secondary has failed.\<close>

lemma fallback_standby:
  assumes "fb_handle True es c = Some r"
  shows "case r of
       Inr c' \<Rightarrow> (\<exists>from_ctx. c' = apply_ctx from_ctx c
          \<and> (Primary_Done (Some from_ctx) \<in> set es
             \<or> Secondary_Done (Some from_ctx) \<in> set es \<and> (Delay \<in> set es \<or> Primary_Done None \<in> set es)))
     | Inl e \<Rightarrow> e = Panic \<and> Secondary_Done None \<in> set es"
proof -
  obtain s where s: "fb_run es (fb_start True) = Some s"
    using assms by (auto simp: fb_handle_def split: option.splits)
  have inv: "standby_inv ({} \<union> set es) s"
    by (rule standby_run [OF s]) (simp add: standby_inv_def fb_start_def)
  show ?thesis
  proof (cases s)
    case (Returned x)
    with assms s inv show ?thesis by (cases x) (auto simp: fb_handle_def standby_inv_def)
  next
    case Panicked
    with assms s inv show ?thesis by (auto simp: fb_handle_def standby_inv_def)
  qed (use assms s in \<open>simp_all add: fb_handle_def\<close>)
qed

text \<open>When both plugins fail in the standby mode, in either order and whenever
  the threshold passes, nothing but the poll of the completed secondary is
  left, and the process panics; the secondary's failure alone is enough once
  the threshold has passed, while the primary is still running.\<close>

lemma fallback_standby_panics:
  assumes "es \<in> {[Primary_Done None, Secondary_Done None], [Secondary_Done None, Primary_Done None],
       [Delay, Primary_Done None, Secondary_Done None], [Delay, Secondary_Done None, Primary_Done None],
       [Secondary_Done None, Delay, Primary_Done None]}"
  shows "\<exists>s. fb_run es (fb_start True) = Some s
     \<and> {e. fb_step e s \<noteq> None} = {Poll_Finished} \<and> fb_handle True (es @ [Poll_Finished]) c = Some (Inl Panic)
     \<and> fb_handle True [Secondary_Done None, Delay, Poll_Finished] c = Some (Inl Panic)"
proof -
  have "fb_step e (Standby True None True True) \<noteq> None \<longleftrightarrow> e = Poll_Finished" for e :: "'a ctx fb_event"
    by (cases e) auto
  then have only: "{e :: 'a ctx fb_event. fb_step e (Standby True None True True) \<noteq> None} = {Poll_Finished}"
    by blast
  have run: "fb_run es (fb_start True) = Some (Standby True None True True)"
    using assms by (auto simp: fb_start_def)
  have app: "fb_run (xs @ ys) s = (case fb_run xs s of None \<Rightarrow> None | Some s' \<Rightarrow> fb_run ys s')"
    for xs ys :: "'a ctx fb_event list" and s
    by (induction xs arbitrary: s) (auto split: option.splits)
  have "fb_handle True (es @ [Poll_Finished]) c = Some (Inl Panic)"
    by (simp add: fb_handle_def app run)
  moreover have "fb_handle True [Secondary_Done None, Delay, Poll_Finished] c = Some (Inl Panic)"
    by (simp add: fb_handle_def fb_start_def)
  ultimately show ?thesis using run only by blast
qed

theorem fallback_standby_witness:
  "\<exists>c'. fb_handle True [Secondary_Done (Some (set_response sample_msg True (ctx_new sample_msg (V4 1, 53) 0))), Delay]
      (ctx_new sample_msg (V4 1, 53) 0 :: unit ctx) = Some (Inr c') \<and> has_response c'"
proof -
  let ?c = "ctx_new sample_msg (V4 1, 53) 0 :: unit ctx"
  let ?es = "[Secondary_Done (Some (set_response sample_msg True ?c)), Delay]"
  obtain c' where c': "fb_handle True ?es ?c = Some (Inr c')"
    by (simp add: fb_handle_def fb_start_def)
  from fallback_standby [OF c'] have "has_response c'"
    by (auto simp: apply_ctx_def has_response_def)
  with c' show ?thesis by blast
qed

lemma fallback_standby_panics_witness:
  "fb_handle True [Primary_Done None, Secondary_Done None, Poll_Finished]
     (ctx_new sample_msg (V4 1, 53) 0 :: unit ctx) = Some (Inl Panic)"
proof -
  have "[Primary_Done None, Secondary_Done None] \<in> {[Primary_Done None, Secondary_Done None :: unit ctx fb_event],
       [Secondary_Done None, Primary_Done None], [Delay, Primary_Done None, Secondary_Done None],
       [Delay, Secondary_Done None, Primary_Done None], [Secondary_Done None, Delay, Primary_Done None]}"
    by simp
  from fallback_standby_panics [OF this, of "ctx_new sample_msg (V4 1, 53) 0"] show ?thesis by auto
qed

section \<open>Replies\<close>

lemma apply_ctx_reply_ok:
  assumes "reply_ok from_ctx" and "m_id (request from_ctx) = m_id (request c)"
  shows "reply_ok (apply_ctx from_ctx c) \<and> request (apply_ctx from_ctx c) = request c"
proof -
  have "response (apply_ctx from_ctx c) = response from_ctx"
    "raw_response (apply_ctx from_ctx c) = raw_response from_ctx"
    "request (apply_ctx from_ctx c) = request c"
    by (simp_all add: apply_ctx_def)
  with assms show ?thesis unfolding reply_ok_def by metis
qed

end
