(* ===== verification/Upstreams.thy ===== *)
theory Upstreams
  imports Dns_Types
begin

text \<open>
  \<open>src/plugins/forward.rs\<close>, the upstreams: how one is made from its configuration,
  and one exchange of a query over UDP, TCP, DoT, DoQ and DoH.

  Sockets, TLS, QUIC and HTTP are the environment: an exchange takes what they do
  as an argument (whether a call succeeds, how long it takes, the bytes that
  arrive).  Durations are nanoseconds.  The options set on sockets (mark, fast
  open, buffers) are carried in the upstream and have no effect here.
\<close>

section \<open>Configuration\<close>

record forward_tuning =
  ft_doh_pool_idle_timeout :: nat
  ft_doh_pool_max_idle_per_host :: nat
  ft_doh_timeout :: nat
  ft_dot_idle_timeout :: nat
  ft_doq_idle_timeout :: nat
  ft_doq_socks5_timeout :: nat
  ft_tcp_connect_timeout :: "nat option"
  ft_tcp_read_timeout :: "nat option"
  ft_udp_reply_timeout :: nat
  ft_udp_retries :: u32
  ft_udp_rcvbuf :: nat
  ft_udp_sndbuf :: nat

definition tuning_default :: forward_tuning where
  "tuning_default =
     \<lparr>ft_doh_pool_idle_timeout = from_secs 300, ft_doh_pool_max_idle_per_host = 10,
      ft_doh_timeout = from_secs 5, ft_dot_idle_timeout = from_secs 300,
      ft_doq_idle_timeout = from_secs 300, ft_doq_socks5_timeout = from_secs 5,
      ft_tcp_connect_timeout = None, ft_tcp_read_timeout = None,
      ft_udp_reply_timeout = from_millis 500, ft_udp_retries = 1,
      ft_udp_rcvbuf = 524288, ft_udp_sndbuf = 524288\<rparr>"

record upstream_config =
  uc_addr :: string
  uc_dial_addr :: "string option"
  uc_socks5 :: "string option"
  uc_query_timeout_ms :: "nat option"
  uc_so_mark :: "u32 option"
  uc_tcp_fast_open :: bool

record udp_upstream =
  ud_addr :: sock_addr
  ud_label :: string
  ud_socks5 :: "string option"
  ud_mark :: "u32 option"
  ud_rcvbuf :: nat
  ud_sndbuf :: nat
  ud_reply_timeout :: nat
  ud_max_retries :: u32
  ud_connect_timeout :: "nat option"
  ud_read_timeout :: "nat option"
  ud_query_timeout :: "nat option"

record tcp_upstream =
  tc_addr :: sock_addr
  tc_label :: string
  tc_socks5 :: "string option"
  tc_mark :: "u32 option"
  tc_tfo :: bool
  tc_connect_timeout :: "nat option"
  tc_read_timeout :: "nat option"
  tc_query_timeout :: "nat option"

record doh_upstream =
  dh_url :: string
  dh_socks5 :: "string option"
  dh_dial_addr :: "string option"
  dh_mark :: "u32 option"
  dh_pool_idle_timeout :: nat
  dh_pool_max_idle :: nat
  dh_timeout :: nat
  dh_proxy_enabled :: bool
  dh_label :: string
  dh_bootstrap_ip :: "ip_addr option"
  dh_query_timeout :: "nat option"

record dot_upstream =
  dt_addr :: sock_addr
  dt_host :: string
  dt_label :: string
  dt_socks5 :: "string option"
  dt_mark :: "u32 option"
  dt_tfo :: bool
  dt_idle_timeout :: nat
  dt_query_timeout :: "nat option"

record doq_upstream =
  dq_addr :: sock_addr
  dq_host :: string
  dq_label :: string
  dq_socks5 :: "string option"
  dq_mark :: "u32 option"
  dq_idle_timeout :: nat
  dq_socks5_timeout :: nat
  dq_query_timeout :: "nat option"

datatype upstream =
    Udp udp_upstream
  | Tcp tcp_upstream
  | Doh doh_upstream
  | Dot dot_upstream
  | Doq doq_upstream

fun query_timeout :: "upstream \<Rightarrow> nat option" where
  "query_timeout (Udp u) = ud_query_timeout u"
| "query_timeout (Tcp u) = tc_query_timeout u"
| "query_timeout (Doh u) = dh_query_timeout u"
| "query_timeout (Dot u) = dt_query_timeout u"
| "query_timeout (Doq u) = dq_query_timeout u"

definition effective_timeout :: "nat \<Rightarrow> upstream \<Rightarrow> nat" where
  "effective_timeout base u = (case query_timeout u of Some t \<Rightarrow> t | None \<Rightarrow> base)"

fun get_label :: "upstream \<Rightarrow> string" where
  "get_label (Udp u) = ud_label u"
| "get_label (Tcp u) = tc_label u"
| "get_label (Doh u) = dh_label u"
| "get_label (Dot u) = dt_label u"
| "get_label (Doq u) = dq_label u"

section \<open>Construction\<close>

text \<open>What the operating system resolves a host and a port to, and the standard parser
  of socket addresses.\<close>

record net_lib =
  nl_parse_sock :: "string \<Rightarrow> sock_addr option"
  nl_resolve :: "string \<Rightarrow> ip_addr list option"

text \<open>\<open>host:port\<close> split at the last colon; a port that does not parse is 853.\<close>

definition host_port :: "string \<Rightarrow> string \<times> u16" where
  "host_port s =
     (case rsplit_once CHR '':'' s of
        Some (host, port) \<Rightarrow>
          (host, case parse_uint (2 ^ 16) port of Some p \<Rightarrow> word_of_nat p | None \<Rightarrow> 853)
      | None \<Rightarrow> (s, 853))"

text \<open>The address to connect to: \<open>dial_addr\<close>, else the first the host resolves to.\<close>

definition dial_ip :: "dns_lib \<Rightarrow> net_lib \<Rightarrow> upstream_config \<Rightarrow> string \<Rightarrow> u16 \<Rightarrow> ip_addr result" where
  "dial_ip L N conf host port =
     (case uc_dial_addr conf of
        Some dial \<Rightarrow>
          (case lib_parse_ip L dial of Some ip \<Rightarrow> Inr ip | None \<Rightarrow> Inl (Error ''Invalid dial_addr''))
      | None \<Rightarrow>
          (case nl_resolve N (host @ '':'' @ show_nat (unat port)) of
             None \<Rightarrow> Inl (Error ''resolve'')
           | Some [] \<Rightarrow> Inl (Error ''Cannot resolve host'')
           | Some (ip # _) \<Rightarrow> Inr ip))"

definition upstream_new :: "dns_lib \<Rightarrow> net_lib \<Rightarrow> upstream_config \<Rightarrow> forward_tuning \<Rightarrow> upstream result" where
  "upstream_new L N conf tuning =
     (let addr_str = uc_addr conf; label = addr_str;
          timeout = map_option from_millis (uc_query_timeout_ms conf)
      in if uc_query_timeout_ms conf = Some 0 then Inl (Error ''query_timeout_ms must be > 0'')
         else if starts_with addr_str ''https://''
         then Inr (Doh \<lparr>dh_url = addr_str, dh_socks5 = uc_socks5 conf, dh_dial_addr = uc_dial_addr conf,
                dh_mark = uc_so_mark conf, dh_pool_idle_timeout = ft_doh_pool_idle_timeout tuning,
                dh_pool_max_idle = ft_doh_pool_max_idle_per_host tuning, dh_timeout = ft_doh_timeout tuning,
                dh_proxy_enabled = (uc_socks5 conf \<noteq> None), dh_label = label,
                dh_bootstrap_ip = Option.bind (uc_dial_addr conf) (lib_parse_ip L), dh_query_timeout = timeout\<rparr>)
         else if starts_with addr_str ''tls://''
         then (let (host, port) = host_port (trim_start_str ''tls://'' addr_str) in
               andthen (dial_ip L N conf host port) (\<lambda>ip.
                 Inr (Dot \<lparr>dt_addr = (ip, port), dt_host = host, dt_label = label, dt_socks5 = uc_socks5 conf,
                   dt_mark = uc_so_mark conf, dt_tfo = uc_tcp_fast_open conf,
                   dt_idle_timeout = ft_dot_idle_timeout tuning, dt_query_timeout = timeout\<rparr>)))
         else if starts_with addr_str ''quic://''
         then (let (host, port) = host_port (trim_start_str ''quic://'' addr_str) in
               andthen (dial_ip L N conf host port) (\<lambda>ip.
                 Inr (Doq \<lparr>dq_addr = (ip, port), dq_host = host, dq_label = label, dq_socks5 = uc_socks5 conf,
                   dq_mark = uc_so_mark conf, dq_idle_timeout = ft_doq_idle_timeout tuning,
                   dq_socks5_timeout = ft_doq_socks5_timeout tuning, dq_query_timeout = timeout\<rparr>)))
         else if starts_with addr_str ''tcp://''
         then (case nl_parse_sock N (trim_start_str ''tcp://'' addr_str) of
                 None \<Rightarrow> Inl (Error ''Invalid TCP address'')
               | Some addr \<Rightarrow>
                   Inr (Tcp \<lparr>tc_addr = addr, tc_label = label, tc_socks5 = uc_socks5 conf,
                     tc_mark = uc_so_mark conf, tc_tfo = uc_tcp_fast_open conf,
                     tc_connect_timeout = ft_tcp_connect_timeout tuning,
                     tc_read_timeout = ft_tcp_read_timeout tuning, tc_query_timeout = timeout\<rparr>))
         else (case nl_parse_sock N (remove_str ''dns://'' (remove_str ''udp://'' addr_str)) of
                 None \<Rightarrow> Inl (Error ''Invalid UDP address'')
               | Some addr \<Rightarrow>
                   Inr (Udp \<lparr>ud_addr = addr, ud_label = label, ud_socks5 = uc_socks5 conf,
                     ud_mark = uc_so_mark conf, ud_rcvbuf = ft_udp_rcvbuf tuning, ud_sndbuf = ft_udp_sndbuf tuning,
                     ud_reply_timeout = ft_udp_reply_timeout tuning, ud_max_retries = ft_udp_retries tuning,
                     ud_connect_timeout = ft_tcp_connect_timeout tuning,
                     ud_read_timeout = ft_tcp_read_timeout tuning, ud_query_timeout = timeout\<rparr>)))"

section \<open>TCP framing\<close>

text \<open>What is written to a stream: the length as a \<open>u16\<close>, then the query.\<close>

definition tcp_frame :: "bytes \<Rightarrow> bytes" where
  "tcp_frame req_bytes = be_bytes 2 (word_of_nat (length req_bytes) :: u16) @ req_bytes"

text \<open>\<open>incoming\<close> are the bytes that arrive before the peer closes the stream or a read runs
  into its timeout.\<close>

definition read_framed :: "bytes \<Rightarrow> (bytes \<times> bytes) option" where
  "read_framed incoming =
     (case read_exact 2 incoming of
        None \<Rightarrow> None
      | Some (len_buf, rest) \<Rightarrow> read_exact (unat (from_be len_buf :: u16)) rest)"

definition parse_message :: "dns_lib \<Rightarrow> bytes \<Rightarrow> message result" where
  "parse_message L bs = (case lib_from_vec L bs of Some m \<Rightarrow> Inr m | None \<Rightarrow> Inl (Error ''parse''))"

text \<open>A call with its outcome and the time it takes, under a limit.\<close>

datatype 'a timed = In_Time 'a | Elapsed

definition with_timeout :: "nat option \<Rightarrow> 'a \<times> nat \<Rightarrow> 'a timed" where
  "with_timeout limit = (\<lambda>(r, took). case limit of
      Some t \<Rightarrow> if took < t then In_Time r else Elapsed | None \<Rightarrow> In_Time r)"

record tcp_env =
  te_socket :: bool
  te_connect :: "bool \<times> nat"
  te_write_len :: "bool \<times> nat"
  te_write :: "bool \<times> nat"
  te_incoming :: bytes

definition raw_tcp_bytes :: "dns_lib \<Rightarrow> tcp_env \<Rightarrow> nat option \<Rightarrow> nat option \<Rightarrow> message result" where
  "raw_tcp_bytes L E connect_timeout read_timeout =
     (if \<not> te_socket E then Inl (Error ''socket'')
      else case with_timeout connect_timeout (te_connect E) of
        Elapsed \<Rightarrow> Inl (Error ''TCP connect timeout'')
      | In_Time False \<Rightarrow> Inl (Error ''connect'')
      | In_Time True \<Rightarrow>
          if with_timeout read_timeout (te_write_len E) = Elapsed \<or> with_timeout read_timeout (te_write E) = Elapsed
          then Inl (Error ''TCP write timeout'')
          else if \<not> fst (te_write_len E) \<or> \<not> fst (te_write E) then Inl (Error ''write'')
          else case read_framed (te_incoming E) of
                 None \<Rightarrow> Inl (Error ''read'')
               | Some (resp_buf, _) \<Rightarrow> parse_message L resp_buf)"

section \<open>UDP\<close>

text \<open>What one attempt receives within its timeout.\<close>

datatype udp_event = Datagram bytes | Recv_Error | No_Reply

record udp_env =
  ue_socket :: bool
  ue_send :: "nat \<Rightarrow> bool"
  ue_recv :: "nat \<Rightarrow> udp_event"
  ue_tcp :: tcp_env

text \<open>The loop of \<open>raw_udp_bytes\<close>, from the attempt \<open>retries\<close> on; \<open>tcp\<close> is what the fallback
  gives for a truncated response.  A datagram is cut to the buffer of 4096 octets.\<close>

function udp_loop :: "dns_lib \<Rightarrow> udp_env \<Rightarrow> message result \<Rightarrow> u32 \<Rightarrow> u32 \<Rightarrow> message result" where
  "udp_loop L E tcp max_retries retries =
     (if \<not> ue_send E (unat retries) then Inl (Error ''send'')
      else case ue_recv E (unat retries) of
        Datagram buf \<Rightarrow>
          andthen (parse_message L (take 4096 buf)) (\<lambda>resp. if m_tc resp then tcp else Inr resp)
      | Recv_Error \<Rightarrow> Inl (Error ''recv'')
      | No_Reply \<Rightarrow>
          if max_retries \<le> retries then Inl (Error ''UDP timeout after retries'')
          else udp_loop L E tcp max_retries (retries + 1))"
  by pat_completeness auto

text \<open>The number of retries left goes down.\<close>

termination udp_loop
proof (relation "measure (\<lambda>(L, E, tcp, max_retries, retries). unat max_retries - unat retries)")
  fix max_retries retries :: u32 and L :: dns_lib and E :: udp_env and tcp :: "message result"
  assume "\<not> max_retries \<le> retries"
  then have "retries < max_retries" by simp
  then show "((L, E, tcp, max_retries, retries + 1), L, E, tcp, max_retries, retries)
      \<in> measure (\<lambda>(L, E, tcp, max_retries, retries). unat max_retries - unat retries)"
    by (simp add: unat_plus_one) (simp add: word_less_nat_alt)
qed simp

declare udp_loop.simps [simp del]

definition raw_udp_bytes :: "dns_lib \<Rightarrow> udp_env \<Rightarrow> u32 \<Rightarrow> nat option \<Rightarrow> nat option \<Rightarrow> message result" where
  "raw_udp_bytes L E max_retries connect_timeout read_timeout =
     (if \<not> ue_socket E then Inl (Error ''socket'')
      else udp_loop L E (raw_tcp_bytes L (ue_tcp E) connect_timeout read_timeout) max_retries 0)"

text \<open>What the attempt \<open>k\<close> alone decides.\<close>

definition udp_attempt :: "dns_lib \<Rightarrow> udp_env \<Rightarrow> message result \<Rightarrow> nat \<Rightarrow> message result" where
  "udp_attempt L E tcp k =
     (if \<not> ue_send E k then Inl (Error ''send'')
      else case ue_recv E k of
        Datagram buf \<Rightarrow> andthen (parse_message L (take 4096 buf)) (\<lambda>resp. if m_tc resp then tcp else Inr resp)
      | _ \<Rightarrow> Inl (Error ''recv''))"

lemma udp_loop_find:
  assumes "retries \<le> max_retries"
  shows "udp_loop L E tcp max_retries retries =
     (case find (\<lambda>k. \<not> ue_send E k \<or> ue_recv E k \<noteq> No_Reply) [unat retries ..< unat max_retries + 1] of
        Some k \<Rightarrow> udp_attempt L E tcp k
      | None \<Rightarrow> Inl (Error ''UDP timeout after retries''))"
  using assms
proof (induction L E tcp max_retries retries rule: udp_loop.induct)
  case (1 L E tcp max_retries retries)
  let ?P = "\<lambda>k. \<not> ue_send E k \<or> ue_recv E k \<noteq> No_Reply"
  have "unat retries \<le> unat max_retries" using 1(2) by (simp add: word_le_nat_alt)
  then have upt: "[unat retries ..< unat max_retries + 1] = unat retries # [unat retries + 1 ..< unat max_retries + 1]"
    by (simp add: upt_conv_Cons)
  show ?case
  proof (cases "?P (unat retries)")
    case True
    then show ?thesis
      unfolding upt by (subst udp_loop.simps) (auto simp: udp_attempt_def simp del: upt_Suc split: udp_event.splits)
  next
    case silent: False
    show ?thesis
    proof (cases "max_retries \<le> retries")
      case True
      with 1(2) have "retries = max_retries" by simp
      then show ?thesis using silent unfolding upt by (subst udp_loop.simps) simp
    next
      case False
      then have lt: "retries < max_retries" by simp
      then have "retries + 1 \<le> max_retries" by (simp add: word_le_nat_alt unat_plus_one) (simp add: word_less_nat_alt)
      with 1(1) silent False have "udp_loop L E tcp max_retries (retries + 1) =
         (case find ?P [unat (retries + 1) ..< unat max_retries + 1] of
            Some k \<Rightarrow> udp_attempt L E tcp k | None \<Rightarrow> Inl (Error ''UDP timeout after retries''))" by simp
      then show ?thesis
        using silent False lt unfolding upt by (subst udp_loop.simps) (simp add: unat_plus_one del: upt_Suc)
    qed
  qed
qed

lemma udp_socket_retries:
  assumes "ue_socket E"
  shows "raw_udp_bytes L E max_retries ct rt =
     (case find (\<lambda>k. \<not> ue_send E k \<or> ue_recv E k \<noteq> No_Reply) [0 ..< unat max_retries + 1] of
        Some k \<Rightarrow> udp_attempt L E (raw_tcp_bytes L (ue_tcp E) ct rt) k
      | None \<Rightarrow> Inl (Error ''UDP timeout after retries''))"
  using assms udp_loop_find [of 0 max_retries] by (simp add: raw_udp_bytes_def del: upt_Suc)

text \<open>C25: An exchange over UDP ends: it makes at most one attempt more than the configured
  retries, the first attempt that is not met by silence decides the outcome, and if all are
  silent it is the timeout error.\<close>

theorem udp_retries_end:
  assumes "ue_socket E"
  shows "raw_udp_bytes L E max_retries ct rt =
     (case find (\<lambda>k. \<not> ue_send E k \<or> ue_recv E k \<noteq> No_Reply) [0 ..< unat max_retries + 1] of
        Some k \<Rightarrow> udp_attempt L E (raw_tcp_bytes L (ue_tcp E) ct rt) k
      | None \<Rightarrow> Inl (Error ''UDP timeout after retries''))"
  using assms by (rule udp_socket_retries)

definition sample_udp :: udp_env where
  "sample_udp = \<lparr>ue_socket = True, ue_send = (\<lambda>_. True),
     ue_recv = (\<lambda>k. if k = 2 then Datagram [0x12, 0x34] else No_Reply),
     ue_tcp = \<lparr>te_socket = True, te_connect = (True, 0), te_write_len = (True, 0), te_write = (True, 0), te_incoming = []\<rparr>\<rparr>"

theorem udp_retries_end_witness:
  "raw_udp_bytes sample_lib sample_udp 1 None None = Inl (Error ''UDP timeout after retries'')
   \<and> raw_udp_bytes sample_lib sample_udp 2 None None = Inr (sample_msg\<lparr>m_id := 0x1234\<rparr>)"
proof -
  have u: "unat (1 :: u32) = 1" "unat (2 :: u32) = 2" by simp_all
  have l: "[0 ..< 1 + 1] = [0, 1 :: nat]" "[0 ..< 2 + 1] = [0, 1, 2 :: nat]" by (simp_all add: upt_rec)
  have "ue_socket sample_udp" by (simp add: sample_udp_def)
  note r = udp_retries_end [OF this, of sample_lib _ None None]
  have m: "m_tc (sample_msg\<lparr>m_id := i\<rparr>) = False" for i by (simp add: sample_msg_def)
  show ?thesis
    unfolding r u l
    by (simp add: sample_udp_def udp_attempt_def parse_message_def sample_lib_def m byte_simps)
qed

text \<open>The first datagram that parses is taken as the answer; its ID and its question are not
  compared with the query.\<close>

lemma udp_accepts_first:
  assumes "ue_socket E" "ue_send E 0" "ue_recv E 0 = Datagram buf" "lib_from_vec L (take 4096 buf) = Some m" "\<not> m_tc m"
  shows "raw_udp_bytes L E max_retries ct rt = Inr m"
  using assms by (subst udp_socket_retries) (simp_all add: upt_rec udp_attempt_def parse_message_def)

text \<open>The peer of a stream reads exactly the query, if it fits the length field.\<close>

lemma tcp_frame_read:
  assumes "length req < 2 ^ 16"
  shows "read_framed (tcp_frame req @ rest) = Some (req, rest)"
  using assms
  by (simp add: read_framed_def tcp_frame_def unat_word_of_nat)

section \<open>The pool of DoT connections\<close>

text \<open>A TLS stream is a number.\<close>

record dot_conn =
  dc_stream :: nat
  dc_last_used :: nat
  dc_max_idle :: nat

definition is_alive :: "nat \<Rightarrow> dot_conn \<Rightarrow> bool" where
  "is_alive now c \<longleftrightarrow> now - dc_last_used c < dc_max_idle c"

definition pool_take :: "nat \<Rightarrow> dot_conn list \<Rightarrow> nat option \<times> dot_conn list" where
  "pool_take now pool =
     (let pool = filter (is_alive now) pool
      in if pool = [] then (None, []) else (Some (dc_stream (last pool)), butlast pool))"

definition pool_give :: "nat \<Rightarrow> nat \<Rightarrow> nat \<Rightarrow> dot_conn list \<Rightarrow> dot_conn list" where
  "pool_give now idle_timeout stream pool =
     (if length pool < 4
      then pool @ [\<lparr>dc_stream = stream, dc_last_used = now, dc_max_idle = idle_timeout\<rparr>] else pool)"

text \<open>\<open>raw_dot_pooled_bytes\<close> as the steps of a task: take a stream from the pool or connect, write
  the query, read the response, put the stream back; at any point it may fail or be
  dropped by the timeout around it.  \<open>dp_traffic\<close> counts the queries written to a stream and
  the responses read from it.\<close>

datatype dot_task =
    Dot_Start
  | Dot_Connecting
  | Dot_Ready nat
  | Dot_Sent nat
  | Dot_Received nat
  | Dot_Done

datatype dot_op =
    Take_Stream nat nat
  | Connect_Stream nat
  | Write_Query nat
  | Read_Response nat
  | Give_Back nat nat
  | Give_Up nat

record dot_state =
  dp_pool :: "dot_conn list"
  dp_tasks :: "nat \<Rightarrow> dot_task"
  dp_traffic :: "nat \<Rightarrow> nat \<times> nat"
  dp_fresh :: nat

definition dot_new :: dot_state where
  "dot_new = \<lparr>dp_pool = [], dp_tasks = (\<lambda>_. Dot_Start), dp_traffic = (\<lambda>_. (0, 0)), dp_fresh = 0\<rparr>"

definition dot_become :: "nat \<Rightarrow> dot_task \<Rightarrow> dot_state \<Rightarrow> dot_state" where
  "dot_become t x s = s\<lparr>dp_tasks := (dp_tasks s)(t := x)\<rparr>"

fun dot_step :: "nat \<Rightarrow> dot_op \<Rightarrow> dot_state \<Rightarrow> dot_state option" where
  "dot_step idle_timeout (Take_Stream t now) s =
     (if dp_tasks s t = Dot_Start
      then (let (found, pool) = pool_take now (dp_pool s)
            in Some (dot_become t (case found of Some x \<Rightarrow> Dot_Ready x | None \<Rightarrow> Dot_Connecting) (s\<lparr>dp_pool := pool\<rparr>)))
      else None)"
| "dot_step idle_timeout (Connect_Stream t) s =
     (if dp_tasks s t = Dot_Connecting
      then Some (dot_become t (Dot_Ready (dp_fresh s)) (s\<lparr>dp_fresh := dp_fresh s + 1\<rparr>)) else None)"
| "dot_step idle_timeout (Write_Query t) s =
     (case dp_tasks s t of
        Dot_Ready x \<Rightarrow> Some (dot_become t (Dot_Sent x)
            (s\<lparr>dp_traffic := (dp_traffic s)(x := (fst (dp_traffic s x) + 1, snd (dp_traffic s x)))\<rparr>))
      | _ \<Rightarrow> None)"
| "dot_step idle_timeout (Read_Response t) s =
     (case dp_tasks s t of
        Dot_Sent x \<Rightarrow> Some (dot_become t (Dot_Received x)
            (s\<lparr>dp_traffic := (dp_traffic s)(x := (fst (dp_traffic s x), snd (dp_traffic s x) + 1))\<rparr>))
      | _ \<Rightarrow> None)"
| "dot_step idle_timeout (Give_Back t now) s =
     (case dp_tasks s t of
        Dot_Received x \<Rightarrow> Some (dot_become t Dot_Done (s\<lparr>dp_pool := pool_give now idle_timeout x (dp_pool s)\<rparr>))
      | _ \<Rightarrow> None)"
| "dot_step idle_timeout (Give_Up t) s = Some (dot_become t Dot_Done s)"

inductive dot_reachable :: "nat \<Rightarrow> dot_state \<Rightarrow> bool" for idle_timeout where
  dot_init: "dot_reachable idle_timeout dot_new"
| dot_next: "dot_reachable idle_timeout s \<Longrightarrow> dot_step idle_timeout op s = Some s' \<Longrightarrow> dot_reachable idle_timeout s'"

fun dot_holds :: "dot_task \<Rightarrow> nat option" where
  "dot_holds (Dot_Ready x) = Some x"
| "dot_holds (Dot_Sent x) = Some x"
| "dot_holds (Dot_Received x) = Some x"
| "dot_holds _ = None"

definition dot_balanced :: "dot_state \<Rightarrow> nat \<Rightarrow> bool" where
  "dot_balanced s x \<longleftrightarrow> fst (dp_traffic s x) = snd (dp_traffic s x)"

definition dot_inv :: "dot_state \<Rightarrow> bool" where
  "dot_inv s \<longleftrightarrow> length (dp_pool s) \<le> 4 \<and> distinct (map dc_stream (dp_pool s))
     \<and> (\<forall>c \<in> set (dp_pool s). dc_stream c < dp_fresh s \<and> dot_balanced s (dc_stream c))
     \<and> (\<forall>t x. dot_holds (dp_tasks s t) = Some x \<longrightarrow> x < dp_fresh s \<and> x \<notin> dc_stream ` set (dp_pool s))
     \<and> (\<forall>t t' x. dot_holds (dp_tasks s t) = Some x \<longrightarrow> dot_holds (dp_tasks s t') = Some x \<longrightarrow> t = t')
     \<and> (\<forall>t x. dp_tasks s t = Dot_Ready x \<or> dp_tasks s t = Dot_Received x \<longrightarrow> dot_balanced s x)
     \<and> (\<forall>t x. dp_tasks s t = Dot_Sent x \<longrightarrow> fst (dp_traffic s x) = snd (dp_traffic s x) + 1)
     \<and> (\<forall>x \<ge> dp_fresh s. dp_traffic s x = (0, 0))"

lemma dot_become_sel [simp]:
  "dp_pool (dot_become t x s) = dp_pool s" "dp_tasks (dot_become t x s) = (dp_tasks s)(t := x)"
  "dp_traffic (dot_become t x s) = dp_traffic s" "dp_fresh (dot_become t x s) = dp_fresh s"
  "dot_balanced (dot_become t x s) = dot_balanced s"
  by (simp_all add: dot_become_def dot_balanced_def fun_eq_iff)

lemma pool_take_cases:
  obtains (empty) "pool_take now pool = (None, [])"
  | (found) c rest where "pool_take now pool = (Some (dc_stream c), rest)" "filter (is_alive now) pool = rest @ [c]"
proof (cases "filter (is_alive now) pool = []")
  case False
  then obtain rest c where "filter (is_alive now) pool = rest @ [c]" by (metis rev_exhaust)
  then show ?thesis by (intro found [of c rest]) (simp_all add: pool_take_def Let_def)
qed (simp add: empty pool_take_def)

lemma dot_pool_free: "dot_inv s \<Longrightarrow> c \<in> set (dp_pool s) \<Longrightarrow> dot_holds (dp_tasks s t) \<noteq> Some (dc_stream c)"
  unfolding dot_inv_def by blast

lemma dot_take_inv:
  assumes "dot_inv s" and "dot_step idle (Take_Stream t now) s = Some s'"
  shows "dot_inv s'"
proof (cases rule: pool_take_cases [of now "dp_pool s"])
  case empty
  with assms show ?thesis by (auto simp: dot_inv_def dot_balanced_def split: if_splits)
next
  case (found c rest)
  have sub: "set (rest @ [c]) \<subseteq> set (dp_pool s)" by (simp flip: found(2))
  have dist: "distinct (map dc_stream (rest @ [c]))"
    using assms(1) by (simp add: dot_inv_def distinct_map_filter flip: found(2))
  have len: "length rest \<le> 4"
    using assms(1) length_filter_le [of "is_alive now" "dp_pool s"] by (simp add: dot_inv_def found(2))
  from assms(2) found(1) have s': "dp_tasks s t = Dot_Start"
    "s' = dot_become t (Dot_Ready (dc_stream c)) (s\<lparr>dp_pool := rest\<rparr>)"
    by (auto split: if_splits)
  note free = dot_pool_free [OF assms(1)]
  have "dot_holds (dp_tasks s t') \<noteq> Some (dc_stream c)" "c' \<in> set rest \<Longrightarrow> dot_holds (dp_tasks s t') \<noteq> Some (dc_stream c')"
    for t' c' using sub free by auto
  moreover from this(1) have "dp_tasks s t' \<noteq> Dot_Sent (dc_stream c)" for t' by (metis dot_holds.simps(2))
  ultimately show ?thesis
    using assms(1) sub dist len s'(1) unfolding s'(2) by (auto simp: dot_inv_def dot_balanced_def)
qed

lemma dot_give_inv:
  assumes "dot_inv s" and "dot_step idle (Give_Back t now) s = Some s'"
  shows "dot_inv s'"
proof -
  from assms(2) obtain x where x: "dp_tasks s t = Dot_Received x"
    "s' = dot_become t Dot_Done (s\<lparr>dp_pool := pool_give now idle x (dp_pool s)\<rparr>)"
    by (auto split: dot_task.splits)
  have "dot_holds (dp_tasks s t) = Some x" by (simp add: x(1))
  with assms(1) have "x < dp_fresh s" "x \<notin> dc_stream ` set (dp_pool s)" "dot_balanced s x"
    "\<And>t'. dot_holds (dp_tasks s t') = Some x \<Longrightarrow> t' = t"
    using x(1) unfolding dot_inv_def by blast+
  with assms(1) x(1) show ?thesis
    unfolding x(2) by (auto simp: dot_inv_def dot_balanced_def pool_give_def)
qed

lemma dot_step_inv:
  assumes "dot_inv s" and "dot_step idle op s = Some s'"
  shows "dot_inv s'"
proof (cases op)
  case (Connect_Stream t)
  with assms(2) have x: "dp_tasks s t = Dot_Connecting"
    "s' = dot_become t (Dot_Ready (dp_fresh s)) (s\<lparr>dp_fresh := dp_fresh s + 1\<rparr>)"
    by (auto split: if_splits)
  have free: "dot_holds (dp_tasks s t') \<noteq> Some (dp_fresh s)" for t'
    using assms(1) unfolding dot_inv_def by blast
  then have "dp_tasks s t' \<noteq> Dot_Sent (dp_fresh s)" for t' by (metis dot_holds.simps(2))
  moreover have "dp_fresh s \<notin> dc_stream ` set (dp_pool s)" "dp_traffic s (dp_fresh s) = (0, 0)"
    using assms(1) by (auto simp: dot_inv_def)
  ultimately show ?thesis
    using assms(1) x(1) free unfolding x(2) by (auto simp: dot_inv_def dot_balanced_def less_Suc_eq)
next
  case (Write_Query t)
  with assms(2) obtain x where x: "dp_tasks s t = Dot_Ready x"
    "s' = dot_become t (Dot_Sent x) (s\<lparr>dp_traffic := (dp_traffic s)(x := (fst (dp_traffic s x) + 1, snd (dp_traffic s x)))\<rparr>)"
    by (auto split: dot_task.splits)
  have h: "dot_holds (dp_tasks s t) = Some x" by (simp add: x(1))
  with assms(1) have n: "x < dp_fresh s" "x \<notin> dc_stream ` set (dp_pool s)" "dot_balanced s x"
    "\<And>t'. dot_holds (dp_tasks s t') = Some x \<Longrightarrow> t' = t"
    using x(1) unfolding dot_inv_def by blast+
  have o': "dp_tasks s t' = Dot_Ready x \<Longrightarrow> t' = t" "dp_tasks s t' = Dot_Received x \<Longrightarrow> t' = t"
    "dp_tasks s t' = Dot_Sent x \<Longrightarrow> t' = t" for t'
    using n(4) [of t'] by auto
  from assms(1) n x(1) show ?thesis
    unfolding x(2) by (auto simp: dot_inv_def dot_balanced_def dest: o')
next
  case (Read_Response t)
  with assms(2) obtain x where x: "dp_tasks s t = Dot_Sent x"
    "s' = dot_become t (Dot_Received x) (s\<lparr>dp_traffic := (dp_traffic s)(x := (fst (dp_traffic s x), snd (dp_traffic s x) + 1))\<rparr>)"
    by (auto split: dot_task.splits)
  have h: "dot_holds (dp_tasks s t) = Some x" by (simp add: x(1))
  with assms(1) have n: "x < dp_fresh s" "x \<notin> dc_stream ` set (dp_pool s)" "fst (dp_traffic s x) = snd (dp_traffic s x) + 1"
    "\<And>t'. dot_holds (dp_tasks s t') = Some x \<Longrightarrow> t' = t"
    using x(1) unfolding dot_inv_def by blast+
  have o': "dp_tasks s t' = Dot_Ready x \<Longrightarrow> t' = t" "dp_tasks s t' = Dot_Received x \<Longrightarrow> t' = t"
    "dp_tasks s t' = Dot_Sent x \<Longrightarrow> t' = t" for t'
    using n(4) [of t'] by auto
  from assms(1) n x(1) show ?thesis
    unfolding x(2) by (auto simp: dot_inv_def dot_balanced_def dest: o')
next
  case (Give_Up t)
  with assms dot_pool_free [OF assms(1)] show ?thesis by (auto simp: dot_inv_def split: if_splits)
qed (use assms dot_take_inv dot_give_inv in blast)+

lemma dot_reachable_inv: "dot_reachable idle s \<Longrightarrow> dot_inv s"
proof (induction rule: dot_reachable.induct)
  case dot_init
  show ?case by (simp add: dot_inv_def dot_new_def)
qed (rule dot_step_inv)


fun dot_run :: "nat \<Rightarrow> dot_op list \<Rightarrow> dot_state \<Rightarrow> dot_state option" where
  "dot_run idle [] s = Some s"
| "dot_run idle (op # ops) s = (case dot_step idle op s of None \<Rightarrow> None | Some s' \<Rightarrow> dot_run idle ops s')"

lemma dot_run_reachable: "dot_reachable idle s \<Longrightarrow> dot_run idle ops s = Some s' \<Longrightarrow> dot_reachable idle s'"
  by (induction ops arbitrary: s) (auto split: option.splits intro: dot_next)


section \<open>The other transports\<close>

text \<open>A TLS or QUIC stream: whether there is one, from the pool or newly connected, whether the
  framed query is written, and what arrives.\<close>

record stream_env =
  se_connected :: bool
  se_write :: bool
  se_incoming :: bytes

definition raw_stream_bytes :: "dns_lib \<Rightarrow> stream_env \<Rightarrow> message result" where
  "raw_stream_bytes L E =
     (if \<not> se_connected E then Inl (Error ''connect'')
      else if \<not> se_write E then Inl (Error ''write'')
      else case read_framed (se_incoming E) of
             None \<Rightarrow> Inl (Error ''read'')
           | Some (resp_buf, _) \<Rightarrow> parse_message L resp_buf)"

text \<open>The one shared QUIC connection; a closed one is forgotten.\<close>

definition doq_take :: "(nat \<Rightarrow> bool) \<Rightarrow> nat option \<Rightarrow> nat option \<times> nat option" where
  "doq_take closed pool =
     (case pool of Some c \<Rightarrow> if closed c then (None, None) else (Some c, pool) | None \<Rightarrow> (None, None))"

definition doq_give :: "nat \<Rightarrow> nat option \<Rightarrow> nat option" where
  "doq_give connection pool = Some connection"

text \<open>DoQ behind a SOCKS5 proxy sends the bare query as a datagram through the tunnel.\<close>

record tunnel_env =
  tn_proxy :: bool
  tn_connect :: bool
  tn_send :: bool
  tn_recv :: "bytes option \<times> nat"

definition raw_doq_via_socks5_bytes :: "dns_lib \<Rightarrow> tunnel_env \<Rightarrow> nat \<Rightarrow> message result" where
  "raw_doq_via_socks5_bytes L E socks5_timeout =
     (if \<not> tn_proxy E then Inl (Error ''Invalid SOCKS5 proxy address'')
      else if \<not> tn_connect E then Inl (Error ''SOCKS5 UDP tunnel failed'')
      else if \<not> tn_send E then Inl (Error ''SOCKS5 UDP send failed'')
      else case with_timeout (Some socks5_timeout) (tn_recv E) of
             Elapsed \<Rightarrow> Inl (Error ''DoQ via SOCKS5 timeout'')
           | In_Time None \<Rightarrow> Inl (Error ''SOCKS5 UDP recv failed'')
           | In_Time (Some buf) \<Rightarrow> parse_message L (take 4096 buf))"

section \<open>One exchange\<close>

text \<open>What the network does during an exchange; \<open>xe_http\<close> is the body of the HTTP response.\<close>

record exchange_env =
  xe_udp :: udp_env
  xe_tcp :: tcp_env
  xe_http :: "bytes option"
  xe_dot :: stream_env
  xe_doq :: stream_env
  xe_tunnel :: tunnel_env

fun exchange_result :: "dns_lib \<Rightarrow> exchange_env \<Rightarrow> upstream \<Rightarrow> message result" where
  "exchange_result L X (Udp u) =
     raw_udp_bytes L (xe_udp X) (ud_max_retries u) (ud_connect_timeout u) (ud_read_timeout u)"
| "exchange_result L X (Tcp u) = raw_tcp_bytes L (xe_tcp X) (tc_connect_timeout u) (tc_read_timeout u)"
| "exchange_result L X (Doh u) =
     (case xe_http X of None \<Rightarrow> Inl (Error ''http'') | Some body \<Rightarrow> parse_message L body)"
| "exchange_result L X (Dot u) = raw_stream_bytes L (xe_dot X)"
| "exchange_result L X (Doq u) =
     (case dq_socks5 u of
        Some proxy \<Rightarrow> raw_doq_via_socks5_bytes L (xe_tunnel X) (dq_socks5_timeout u)
      | None \<Rightarrow> raw_stream_bytes L (xe_doq X))"

text \<open>An exchange gives a message that the library parsed from bytes that arrived, or an error;
  it does not panic.\<close>

lemma parse_message_cases: "parse_message L bs = r \<Longrightarrow> (\<exists>m. r = Inr m \<and> lib_from_vec L bs = Some m) \<or> r = Inl (Error ''parse'')"
  by (auto simp: parse_message_def split: option.splits)

lemma raw_no_panic:
  "raw_tcp_bytes L T ct rt \<noteq> Inl Panic" "raw_stream_bytes L S \<noteq> Inl Panic"
  "raw_doq_via_socks5_bytes L D st \<noteq> Inl Panic"
  by (auto simp: raw_tcp_bytes_def raw_stream_bytes_def raw_doq_via_socks5_bytes_def parse_message_def
      split: timed.split bool.split option.split prod.split)

lemma raw_udp_no_panic: "raw_udp_bytes L E mr ct rt \<noteq> Inl Panic"
proof (cases "ue_socket E")
  case True
  have "udp_attempt L E (raw_tcp_bytes L (ue_tcp E) ct rt) k \<noteq> Inl Panic" for k
    by (auto simp: udp_attempt_def parse_message_def andthen_def raw_no_panic split: udp_event.split option.split sum.split)
  then show ?thesis by (simp add: udp_socket_retries [OF True] split: option.split)
qed (simp add: raw_udp_bytes_def)

lemma exchange_no_panic: "exchange_result L X u \<noteq> Inl Panic"
  by (cases u) (simp_all add: raw_no_panic raw_udp_no_panic parse_message_def split: option.split)

section \<open>Where a configuration leads\<close>

text \<open>The scheme of the address selects the transport, and an upstream that is made carries
  the address as its label and the configured timeout, which is never zero.\<close>

lemma upstream_new_scheme:
  assumes "upstream_new L N conf tuning = Inr u"
  shows "get_label u = uc_addr conf
     \<and> query_timeout u = map_option from_millis (uc_query_timeout_ms conf) \<and> query_timeout u \<noteq> Some 0
     \<and> (case u of
          Doh d \<Rightarrow> starts_with (uc_addr conf) ''https://''
        | Dot d \<Rightarrow> starts_with (uc_addr conf) ''tls://'' \<and> dt_addr d = (fst (dt_addr d), snd (host_port (trim_start_str ''tls://'' (uc_addr conf))))
        | Doq d \<Rightarrow> starts_with (uc_addr conf) ''quic://'' \<and> dq_addr d = (fst (dq_addr d), snd (host_port (trim_start_str ''quic://'' (uc_addr conf))))
        | Tcp d \<Rightarrow> starts_with (uc_addr conf) ''tcp://''
        | Udp d \<Rightarrow> \<not> starts_with (uc_addr conf) ''https://'' \<and> \<not> starts_with (uc_addr conf) ''tls://''
            \<and> \<not> starts_with (uc_addr conf) ''quic://'' \<and> \<not> starts_with (uc_addr conf) ''tcp://'')"
  using assms
  by (auto simp: upstream_new_def Let_def andthen_eq_Inr from_millis_def split: if_splits option.splits prod.splits)

end
