(* ===== verification/Autopilot_Health.thy ===== *)
theory Autopilot_Health
  imports Dns_Types Complex_Main
begin

text \<open>
  \<open>src/autopilot.rs\<close>, the health of upstreams: what is measured of each upstream,
  the circuit breaker, the score, the ranking with its cache, the assessment of
  the network and the weights tuned from it.

  The atomics of \<open>UpstreamMetrics\<close> are the fields of a record, and a method that
  updates them is one step.  The \<open>f64\<close> arithmetic of scores, rates and weights is
  modelled in the reals, without rounding.
\<close>

section \<open>Weights\<close>

datatype network_scope = ScopeGlobal | ScopeDomestic | ScopeForeign

record weight_config =
  latency_weight :: real
  jitter_weight :: real
  success_weight :: real
  pktloss_weight :: real

definition default_weights :: weight_config where
  "default_weights = \<lparr>latency_weight = 0.35, jitter_weight = 0.15, success_weight = 0.40, pktloss_weight = 0.10\<rparr>"

definition weight_sum :: "weight_config \<Rightarrow> real" where
  "weight_sum w = latency_weight w + jitter_weight w + success_weight w + pktloss_weight w"

definition weights_valid :: "weight_config \<Rightarrow> bool" where
  "weights_valid w \<longleftrightarrow> \<bar>weight_sum w - 1\<bar> < 0.01"

definition normalize_weights :: "weight_config \<Rightarrow> weight_config" where
  "normalize_weights w =
     (let s = weight_sum w in
      if \<bar>s\<bar> < 0.000001 then default_weights
      else \<lparr>latency_weight = latency_weight w / s, jitter_weight = jitter_weight w / s,
            success_weight = success_weight w / s, pktloss_weight = pktloss_weight w / s\<rparr>)"

definition max_weight_diff :: "weight_config \<Rightarrow> weight_config \<Rightarrow> real" where
  "max_weight_diff a b =
     max (max (max \<bar>latency_weight a - latency_weight b\<bar> \<bar>jitter_weight a - jitter_weight b\<bar>)
              \<bar>success_weight a - success_weight b\<bar>)
         \<bar>pktloss_weight a - pktloss_weight b\<bar>"

section \<open>Labels\<close>

definition is_loopback_label :: "string \<Rightarrow> bool" where
  "is_loopback_label label \<longleftrightarrow> contains_str label ''127.0.0.1'' \<or> contains_str label ''[::1]''
     \<or> contains_str label ''localhost''"

definition failure_threshold_for_label :: "string \<Rightarrow> nat" where
  "failure_threshold_for_label label = (if is_loopback_label label then 8 else 3)"

definition recovery_cooldown_for_label :: "string \<Rightarrow> nat" where
  "recovery_cooldown_for_label label = (if is_loopback_label label then from_secs 5 else from_secs 30)"

definition scope_for_label :: "string \<Rightarrow> network_scope" where
  "scope_for_label label =
     (let l = to_lower label in
      if (starts_with l ''udp://'' \<or> contains_str l ''aliapi://'')
         \<and> \<not> contains_str l ''127.0.0.1'' \<and> \<not> contains_str l ''[::1]'' \<and> \<not> contains_str l ''localhost''
      then ScopeDomestic
      else if starts_with l ''https://'' \<or> starts_with l ''tls://'' \<or> starts_with l ''quic://''
      then ScopeForeign
      else ScopeGlobal)"

section \<open>Metrics of one upstream\<close>

datatype probe_type = DnsQuery | IcmpPing | DnsPing | TcpConnect

record probe_result =
  pr_timestamp :: nat
  pr_latency :: "u64 option"
  pr_type :: probe_type

record upstream_metrics =
  um_label :: string
  um_healthy :: bool
  um_rtts :: "u64 list"
  um_probes :: "probe_result list"
  um_avg :: u64
  um_min :: u64
  um_max :: u64
  um_jitter :: u64
  um_success :: u64
  um_failure :: u64
  um_consecutive :: u64
  um_last_probe :: nat
  um_last_unhealthy :: "nat option"
  um_score :: u64

definition um_new :: "string \<Rightarrow> nat \<Rightarrow> upstream_metrics" where
  "um_new label now =
     \<lparr>um_label = label, um_healthy = True, um_rtts = [], um_probes = [], um_avg = 50,
      um_min = - 1, um_max = 0, um_jitter = 0, um_success = 0, um_failure = 0,
      um_consecutive = 0, um_last_probe = now, um_last_unhealthy = None, um_score = 1000\<rparr>"

definition history_size :: nat where
  "history_size = 100"

definition packet_loss_rate :: "upstream_metrics \<Rightarrow> real" where
  "packet_loss_rate m =
     (if um_probes m = [] then 0
      else real (length (filter (\<lambda>p. pr_latency p = None) (um_probes m))) / real (length (um_probes m)))"

definition success_rate :: "upstream_metrics \<Rightarrow> real" where
  "success_rate m =
     (let total_count = um_success m + um_failure m in
      if total_count = 0 then 1 else real (unat (um_success m)) / real (unat total_count))"

definition rtt_score :: "u64 \<Rightarrow> real" where
  "rtt_score rtt =
     (if rtt \<le> 5 then 1000 else if 200 \<le> rtt then 50
      else min (max (1000 - ln (real (unat rtt) / 5) * 200) 50) 1000)"

definition jitter_score :: "u64 \<Rightarrow> real" where
  "jitter_score jitter = max ((100 - min (real (unat jitter)) 100) * 10) 0"

definition pktloss_score :: "real \<Rightarrow> real" where
  "pktloss_score packet_loss = min (max ((1 - min packet_loss 0.1) * 10000) 0) 1000"

text \<open>The cast of an \<open>f64\<close> to \<open>u64\<close> cuts off the fraction and saturates.\<close>

definition f64_to_u64 :: "real \<Rightarrow> u64" where
  "f64_to_u64 x = word_of_nat (min (2 ^ 64 - 1) (nat \<lfloor>x\<rfloor>))"

definition final_score :: "weight_config \<Rightarrow> upstream_metrics \<Rightarrow> real" where
  "final_score w m =
     (let composite = rtt_score (um_avg m) * latency_weight w + jitter_score (um_jitter m) * jitter_weight w
            + success_rate m * 1000 * success_weight w + pktloss_score (packet_loss_rate m) * pktloss_weight w
      in if um_healthy m then composite else composite * 0.1)"

definition update_score :: "weight_config \<Rightarrow> upstream_metrics \<Rightarrow> upstream_metrics" where
  "update_score w m = m\<lparr>um_score := f64_to_u64 (final_score w m)\<rparr>"

definition record_latency :: "u64 \<Rightarrow> upstream_metrics \<Rightarrow> upstream_metrics" where
  "record_latency latency m =
     (let new_avg = (um_avg m * 7 + latency * 3) div 10;
          jitter = (if new_avg < latency then latency - new_avg else new_avg - latency)
      in m\<lparr>um_success := um_success m + 1, um_consecutive := 0, um_healthy := True,
           um_rtts := push_bounded history_size latency (um_rtts m),
           um_min := (if latency < um_min m then latency else um_min m),
           um_max := (if um_max m < latency then latency else um_max m),
           um_avg := new_avg,
           um_jitter := (um_jitter m * 7 + jitter * 3) div 10\<rparr>)"

definition record_loss :: "nat \<Rightarrow> upstream_metrics \<Rightarrow> upstream_metrics" where
  "record_loss now m =
     (let failures = um_consecutive m + 1;
          m = m\<lparr>um_failure := um_failure m + 1, um_consecutive := failures\<rparr>
      in if failure_threshold_for_label (um_label m) \<le> unat failures \<and> um_healthy m
         then m\<lparr>um_healthy := False, um_last_unhealthy := Some now\<rparr>
         else m)"

text \<open>\<open>record_probe\<close>; the epoch that it advances belongs to the engine below.\<close>

definition um_record_probe ::
  "weight_config \<Rightarrow> nat \<Rightarrow> u64 option \<Rightarrow> probe_type \<Rightarrow> upstream_metrics \<Rightarrow> upstream_metrics" where
  "um_record_probe w now latency_ms ptype m =
     (let m = m\<lparr>um_probes := dropWhile (\<lambda>p. 15 * 60 < as_secs (now - pr_timestamp p)) (um_probes m)
                  @ [\<lparr>pr_timestamp = now, pr_latency = latency_ms, pr_type = ptype\<rparr>]\<rparr>;
          m = (case latency_ms of Some latency \<Rightarrow> record_latency latency m | None \<Rightarrow> record_loss now m)
      in update_score w (m\<lparr>um_last_probe := now\<rparr>))"

definition p95_latency :: "upstream_metrics \<Rightarrow> u64" where
  "p95_latency m =
     (if um_rtts m = [] then um_avg m
      else let sorted_rtts = sort (um_rtts m)
           in sorted_rtts ! min (length sorted_rtts * 95 div 100) (length sorted_rtts - 1))"

definition min_rtt :: "upstream_metrics \<Rightarrow> u64" where
  "min_rtt m = (if um_min m = - 1 then 0 else um_min m)"

definition probe_count :: "nat \<Rightarrow> nat \<Rightarrow> upstream_metrics \<Rightarrow> nat" where
  "probe_count now seconds m = length (filter (\<lambda>p. as_secs (now - pr_timestamp p) \<le> seconds) (um_probes m))"

definition is_available :: "nat \<Rightarrow> upstream_metrics \<Rightarrow> bool" where
  "is_available now m =
     (if um_healthy m then True
      else case um_last_unhealthy m of
             Some unhealthy_time \<Rightarrow> recovery_cooldown_for_label (um_label m) < now - unhealthy_time
           | None \<Rightarrow> False)"

definition recent_avg_rtt :: "nat \<Rightarrow> upstream_metrics \<Rightarrow> u64" where
  "recent_avg_rtt count m =
     (if um_rtts m = [] then um_avg m
      else let recent = take count (rev (um_rtts m))
           in if recent = [] then um_avg m else sum_list recent div word_of_nat (length recent))"

text \<open>\<open>is_upstream_degrading\<close> for a registered upstream: two failures in a row, or the mean
  of the last ten round trips more than half above the moving average.\<close>

definition degrading :: "upstream_metrics \<Rightarrow> bool" where
  "degrading m =
     (if 2 \<le> um_consecutive m then True
      else if 10 \<le> length (um_rtts m)
      then let recent_10 = take 10 (rev (um_rtts m))
           in real (unat (um_avg m)) * 1.5 < real (unat (sum_list recent_10)) / real (length recent_10)
      else False)"

section \<open>The engine\<close>

record rank_snapshot =
  rs_ts :: nat
  rs_epoch :: u64
  rs_ranks :: "string list"

text \<open>The process-wide statics: the registered upstreams in the order of registration, the
  weights and the cached ranking of each scope, the epoch of the scores, and the flag and the
  counter of the UDP blocking detection.\<close>

record health =
  h_upstreams :: "upstream_metrics list"
  h_weights :: "network_scope \<Rightarrow> weight_config"
  h_epoch :: u64
  h_ranks :: "network_scope \<Rightarrow> rank_snapshot"
  h_udp_blocked :: bool

definition rank_cache_ttl :: nat where
  "rank_cache_ttl = from_millis 200"

definition health_new :: "nat \<Rightarrow> health" where
  "health_new now =
     \<lparr>h_upstreams = [], h_weights = (\<lambda>_. default_weights), h_epoch = 0,
      h_ranks = (\<lambda>_. \<lparr>rs_ts = now - rank_cache_ttl, rs_epoch = 0, rs_ranks = []\<rparr>), h_udp_blocked = False\<rparr>"

definition set_weights_for_scope :: "network_scope \<Rightarrow> weight_config \<Rightarrow> health \<Rightarrow> health result" where
  "set_weights_for_scope scope config h =
     (if \<not> weights_valid config then Inl (Error ''weights must sum to 1.0'')
      else Inr (h\<lparr>h_weights := (h_weights h)(scope := config)\<rparr>))"

definition get_metrics :: "string \<Rightarrow> health \<Rightarrow> upstream_metrics option" where
  "get_metrics label h = find (\<lambda>u. um_label u = label) (h_upstreams h)"

definition register_upstream :: "nat \<Rightarrow> string \<Rightarrow> health \<Rightarrow> health" where
  "register_upstream now label h =
     (case get_metrics label h of
        Some _ \<Rightarrow> h
      | None \<Rightarrow> h\<lparr>h_upstreams := h_upstreams h @ [um_new label now]\<rparr>)"

text \<open>An update of the metrics behind the handle that \<open>get\<close> returns.\<close>

fun update_first :: "string \<Rightarrow> (upstream_metrics \<Rightarrow> upstream_metrics) \<Rightarrow> upstream_metrics list \<Rightarrow> upstream_metrics list" where
  "update_first label f [] = []"
| "update_first label f (u # us) = (if um_label u = label then f u # us else u # update_first label f us)"

definition record_probe :: "nat \<Rightarrow> u64 option \<Rightarrow> probe_type \<Rightarrow> string \<Rightarrow> health \<Rightarrow> health" where
  "record_probe now latency_ms ptype label h =
     (case get_metrics label h of
        None \<Rightarrow> h
      | Some _ \<Rightarrow>
          h\<lparr>h_upstreams := update_first label
                (um_record_probe (h_weights h (scope_for_label label)) now latency_ms ptype) (h_upstreams h),
            h_epoch := h_epoch h + 1\<rparr>)"

definition record_success :: "nat \<Rightarrow> string \<Rightarrow> u64 \<Rightarrow> health \<Rightarrow> health" where
  "record_success now label latency_ms = record_probe now (Some latency_ms) DnsQuery label"

definition record_failure :: "nat \<Rightarrow> string \<Rightarrow> health \<Rightarrow> health" where
  "record_failure now label = record_probe now None DnsQuery label"

definition is_upstream_degrading :: "string \<Rightarrow> health \<Rightarrow> bool" where
  "is_upstream_degrading label h = (case get_metrics label h of Some m \<Rightarrow> degrading m | None \<Rightarrow> False)"

section \<open>Ranking\<close>

definition filter_upstreams_by_scope :: "network_scope \<Rightarrow> upstream_metrics list \<Rightarrow> upstream_metrics list" where
  "filter_upstreams_by_scope scope us =
     (if scope = ScopeGlobal then us else filter (\<lambda>u. scope_for_label (um_label u) = scope) us)"

text \<open>\<open>sort_by(|a, b| b.1.cmp(&a.1))\<close>: a stable sort, highest score first.\<close>

definition by_score :: "upstream_metrics list \<Rightarrow> upstream_metrics list" where
  "by_score us = sort_key (\<lambda>u. - int (unat (um_score u))) us"

definition scoped_upstreams :: "network_scope \<Rightarrow> health \<Rightarrow> upstream_metrics list" where
  "scoped_upstreams scope h =
     (let scoped = filter_upstreams_by_scope scope (h_upstreams h)
      in if scoped = [] then h_upstreams h else scoped)"

definition compute_ranked_upstreams :: "nat \<Rightarrow> network_scope \<Rightarrow> health \<Rightarrow> string list" where
  "compute_ranked_upstreams now scope h =
     map um_label (by_score (filter (is_available now) (scoped_upstreams scope h)))"

definition get_ranked_upstreams_cached :: "nat \<Rightarrow> network_scope \<Rightarrow> health \<Rightarrow> string list \<times> health" where
  "get_ranked_upstreams_cached now scope h =
     (let cached = h_ranks h scope;
          store = (\<lambda>s. h\<lparr>h_ranks := (h_ranks h)(scope := s)\<rparr>)
      in if now - rs_ts cached < rank_cache_ttl \<and> rs_ranks cached \<noteq> [] then (rs_ranks cached, h)
         else if rs_epoch cached = h_epoch h \<and> rs_ranks cached \<noteq> []
         then (rs_ranks cached, store (cached\<lparr>rs_ts := now\<rparr>))
         else let ranks = compute_ranked_upstreams now scope h
              in (ranks, store \<lparr>rs_ts = now, rs_epoch = h_epoch h, rs_ranks = ranks\<rparr>))"

definition get_best_upstreams :: "nat \<Rightarrow> health \<Rightarrow> string list" where
  "get_best_upstreams now h = map um_label (by_score (filter (is_available now) (h_upstreams h)))"

definition get_top_upstream :: "nat \<Rightarrow> health \<Rightarrow> string option" where
  "get_top_upstream now h = (case get_best_upstreams now h of [] \<Rightarrow> None | l # _ \<Rightarrow> Some l)"

definition get_best_upstream :: "nat \<Rightarrow> health \<Rightarrow> string option \<times> health" where
  "get_best_upstream now h =
     (let (ranked, h) = get_ranked_upstreams_cached now ScopeGlobal h
      in (case ranked of [] \<Rightarrow> None | l # _ \<Rightarrow> Some l, h))"

definition get_adaptive_hedge_delay :: "string \<Rightarrow> health \<Rightarrow> u64" where
  "get_adaptive_hedge_delay primary_label h =
     (case get_metrics primary_label h of
        Some m \<Rightarrow> min (max (p95_latency m + um_jitter m * 2) 10) 300
      | None \<Rightarrow> 150)"

section \<open>The state of the network\<close>

record network_condition =
  avg_jitter_ms :: real
  avg_loss_rate :: real
  congestion_level :: nat

definition congestion :: "real \<Rightarrow> real \<Rightarrow> nat" where
  "congestion j l =
     (if j < 5 \<and> l < 0.01 then 0 else if j < 10 \<and> l < 0.02 then 2
      else if j < 15 \<and> l < 0.05 then 4 else if j < 25 \<and> l < 0.08 then 6
      else if j < 35 \<and> l < 0.12 then 8 else 10)"

definition get_network_condition :: "network_scope \<Rightarrow> health \<Rightarrow> network_condition" where
  "get_network_condition scope h =
     (let us = filter_upstreams_by_scope scope (h_upstreams h) in
      if us = [] then \<lparr>avg_jitter_ms = 0, avg_loss_rate = 0, congestion_level = 0\<rparr>
      else let avg_jitter = (\<Sum>m \<leftarrow> us. real (unat (um_jitter m))) / real (length us);
               avg_loss = (\<Sum>m \<leftarrow> us. packet_loss_rate m) / real (length us)
           in \<lparr>avg_jitter_ms = avg_jitter, avg_loss_rate = avg_loss,
               congestion_level = congestion avg_jitter avg_loss\<rparr>)"

definition recommend_strategy :: "network_condition \<Rightarrow> string" where
  "recommend_strategy n =
     (if congestion_level n \<le> 3 then ''smart'' else if congestion_level n \<le> 6 then ''smart_aggressive''
      else if congestion_level n \<le> 10 then ''race'' else ''smart'')"

text \<open>The strategy and the hedge delay (milliseconds) for an hour of the day.\<close>

definition time_based_recommendation :: "nat \<Rightarrow> string \<times> nat" where
  "time_based_recommendation hour =
     (if 19 \<le> hour \<and> hour \<le> 23 then (''race'', 0) else if 12 \<le> hour \<and> hour \<le> 14 then (''smart'', 50)
      else if 2 \<le> hour \<and> hour \<le> 6 then (''smart'', 150) else (''smart'', 100))"

section \<open>Tuning the weights\<close>

definition base_weights :: "nat \<Rightarrow> weight_config" where
  "base_weights level =
     (if 7 \<le> level
      then \<lparr>latency_weight = 0.25, jitter_weight = 0.15, success_weight = 0.45, pktloss_weight = 0.15\<rparr>
      else if level \<le> 2
      then \<lparr>latency_weight = 0.45, jitter_weight = 0.15, success_weight = 0.30, pktloss_weight = 0.10\<rparr>
      else if level \<le> 4
      then \<lparr>latency_weight = 0.40, jitter_weight = 0.15, success_weight = 0.35, pktloss_weight = 0.10\<rparr>
      else \<lparr>latency_weight = 0.30, jitter_weight = 0.15, success_weight = 0.40, pktloss_weight = 0.15\<rparr>)"

definition build_dynamic_weights :: "network_condition \<Rightarrow> nat \<Rightarrow> weight_config" where
  "build_dynamic_weights network hour =
     (let w = base_weights (congestion_level network);
          w = (if (19 \<le> hour \<and> hour \<le> 23) \<or> (12 \<le> hour \<and> hour \<le> 13)
               then w\<lparr>success_weight := success_weight w + 0.03, pktloss_weight := pktloss_weight w + 0.02,
                      latency_weight := latency_weight w - 0.03, jitter_weight := jitter_weight w - 0.02\<rparr>
               else if hour \<le> 6
               then w\<lparr>latency_weight := latency_weight w + 0.03, success_weight := success_weight w - 0.02,
                      pktloss_weight := pktloss_weight w - 0.01\<rparr>
               else w)
      in normalize_weights w)"

definition auto_tune_weights_for_scope :: "nat \<Rightarrow> network_scope \<Rightarrow> health \<Rightarrow> bool \<times> health" where
  "auto_tune_weights_for_scope hour scope h =
     (if scope \<noteq> ScopeGlobal \<and> filter_upstreams_by_scope scope (h_upstreams h) = [] then (False, h)
      else let target = build_dynamic_weights (get_network_condition scope h) hour
           in if max_weight_diff (h_weights h scope) target < 0.02 then (False, h)
              else case set_weights_for_scope scope target h of
                     Inl e \<Rightarrow> (False, h)
                   | Inr h' \<Rightarrow> (True, h'))"

definition auto_tune_weights :: "nat \<Rightarrow> health \<Rightarrow> bool \<times> health" where
  "auto_tune_weights hour h =
     fold (\<lambda>scope (changed, h).
         let (c, h) = auto_tune_weights_for_scope hour scope h in (changed \<or> c, h))
       [ScopeDomestic, ScopeForeign, ScopeGlobal] (False, h)"

section \<open>The health loop\<close>

text \<open>The counter counts the checks in a row with all UDP upstreams down.\<close>

definition check_udp_blocking :: "u32 \<Rightarrow> health \<Rightarrow> u32 \<times> health" where
  "check_udp_blocking counter h =
     (let udp = filter (\<lambda>u. starts_with (um_label u) ''udp://'') (h_upstreams h);
          udp_total = length udp;
          udp_unhealthy = length (filter (\<lambda>u. \<not> um_healthy u) udp)
      in if 0 < udp_total \<and> udp_unhealthy = udp_total
         then let counter = counter + 1
              in (counter, if 3 \<le> counter then h\<lparr>h_udp_blocked := True\<rparr> else h)
         else (0, if 0 < counter \<and> udp_unhealthy < udp_total then h\<lparr>h_udp_blocked := False\<rparr> else h))"

definition classify_probe_type :: "string \<Rightarrow> probe_type option" where
  "classify_probe_type label =
     (let lower = to_lower label in
      if starts_with lower ''udp://'' then Some DnsPing
      else if starts_with lower ''tcp://'' \<or> starts_with lower ''tls://'' then Some TcpConnect
      else None)"

text \<open>One probe: \<open>started\<close> when the loop looked at the upstream, \<open>done\<close> when the probe ended,
  with its latency unless it failed or ran into the timeout.\<close>

definition probe_one :: "nat \<Rightarrow> nat \<Rightarrow> u64 option \<Rightarrow> string \<Rightarrow> health \<Rightarrow> health" where
  "probe_one started done outcome label h =
     (case get_metrics label h of
        None \<Rightarrow> h
      | Some m \<Rightarrow>
          if started - um_last_probe m < from_secs 5 then h
          else case classify_probe_type label of
                 None \<Rightarrow> h
               | Some ptype \<Rightarrow> record_probe done outcome ptype label h)"

text \<open>The query of the UDP probe, and the check of the answer.\<close>

definition dns_ping :: "u16 \<Rightarrow> bytes" where
  "dns_ping query_id =
     [ucast (drop_bit 8 query_id), ucast (query_id AND 0xFF), 1, 0, 0, 1, 0, 0, 0, 0, 0, 0, 0, 0, 2, 0, 1]"

definition dns_ping_ok :: "u16 \<Rightarrow> bytes \<Rightarrow> bool" where
  "dns_ping_ok query_id buf \<longleftrightarrow> 2 \<le> length buf \<and> take 2 buf = take 2 (dns_ping query_id)"

section \<open>The circuit breaker\<close>

type_synonym probe_event = "nat \<times> u64 option \<times> probe_type"

definition um_run :: "weight_config \<Rightarrow> probe_event list \<Rightarrow> upstream_metrics \<Rightarrow> upstream_metrics" where
  "um_run w events m = fold (\<lambda>(now, latency, ptype). um_record_probe w now latency ptype) events m"

definition losses_in_a_row :: "probe_event list \<Rightarrow> nat" where
  "losses_in_a_row events = length (takeWhile (\<lambda>(_, latency, _). latency = None) (rev events))"

lemma um_run_simps [simp]:
  "um_run w [] m = m"
  "um_run w (events @ [(now, latency, ptype)]) m = um_record_probe w now latency ptype (um_run w events m)"
  by (simp_all add: um_run_def)

lemma losses_in_a_row_simps [simp]:
  "losses_in_a_row [] = 0"
  "losses_in_a_row (events @ [(now, Some l, ptype)]) = 0"
  "losses_in_a_row (events @ [(now, None, ptype)]) = losses_in_a_row events + 1"
  by (simp_all add: losses_in_a_row_def)

lemma losses_in_a_row_le: "losses_in_a_row events \<le> length events"
  using length_takeWhile_le [of "\<lambda>(_, latency, _). latency = None" "rev events"]
  by (simp add: losses_in_a_row_def)

lemma um_record_probe_sel [simp]:
  "um_label (um_record_probe w now lat pt m) = um_label m"
  "um_last_probe (um_record_probe w now lat pt m) = now"
  by (simp_all add: um_record_probe_def update_score_def record_latency_def record_loss_def Let_def split: option.split)

lemma um_record_probe_some [simp]:
  "um_healthy (um_record_probe w now (Some l) pt m)"
  "um_consecutive (um_record_probe w now (Some l) pt m) = 0"
  "um_rtts (um_record_probe w now (Some l) pt m) = push_bounded history_size l (um_rtts m)"
  "um_avg (um_record_probe w now (Some l) pt m) = (um_avg m * 7 + l * 3) div 10"
  by (simp_all add: um_record_probe_def update_score_def record_latency_def Let_def)

lemma um_record_probe_none [simp]:
  "um_healthy (um_record_probe w now None pt m) \<longleftrightarrow>
     um_healthy m \<and> unat (um_consecutive m + 1) < failure_threshold_for_label (um_label m)"
  "um_consecutive (um_record_probe w now None pt m) = um_consecutive m + 1"
  "um_rtts (um_record_probe w now None pt m) = um_rtts m"
  "um_avg (um_record_probe w now None pt m) = um_avg m"
  "um_last_unhealthy (um_record_probe w now None pt m) =
     (if um_healthy m \<and> failure_threshold_for_label (um_label m) \<le> unat (um_consecutive m + 1)
      then Some now else um_last_unhealthy m)"
  by (auto simp: um_record_probe_def update_score_def record_loss_def Let_def)

lemma um_new_label [simp]: "um_label (um_new label now) = label"
  by (simp add: um_new_def)

lemma failure_threshold_pos: "0 < failure_threshold_for_label label"
  by (simp add: failure_threshold_for_label_def)

text \<open>The instant at which the breaker tripped: the loss that reached the threshold.\<close>

definition tripped_at :: "string \<Rightarrow> probe_event list \<Rightarrow> nat" where
  "tripped_at label events =
     fst (events ! (length events - losses_in_a_row events + failure_threshold_for_label label - 1))"

lemma um_run_state:
  assumes "length events < 2 ^ 64"
  shows "um_label (um_run w events (um_new label t0)) = label
    \<and> unat (um_consecutive (um_run w events (um_new label t0))) = losses_in_a_row events
    \<and> (um_healthy (um_run w events (um_new label t0))
         \<longleftrightarrow> losses_in_a_row events < failure_threshold_for_label label)
    \<and> (\<not> um_healthy (um_run w events (um_new label t0)) \<longrightarrow>
         um_last_unhealthy (um_run w events (um_new label t0)) = Some (tripped_at label events))"
  using assms
proof (induction events rule: rev_induct)
  case Nil
  show ?case using failure_threshold_pos [of label] by (simp add: um_new_def)
next
  case (snoc e events)
  obtain now lat pt where e: "e = (now, lat, pt)" by (cases e)
  let ?m = "um_run w events (um_new label t0)"
  from snoc have IH: "um_label ?m = label" "unat (um_consecutive ?m) = losses_in_a_row events"
    "um_healthy ?m \<longleftrightarrow> losses_in_a_row events < failure_threshold_for_label label"
    "\<not> um_healthy ?m \<Longrightarrow> um_last_unhealthy ?m = Some (tripped_at label events)"
    by simp_all
  show ?case
  proof (cases lat)
    case (Some l)
    then show ?thesis using IH failure_threshold_pos [of label] by (simp add: e)
  next
    case None
    have le: "losses_in_a_row events \<le> length events" by (rule losses_in_a_row_le)
    have c: "unat (um_consecutive ?m + 1) = losses_in_a_row events + 1"
      using IH(2) le snoc.prems by (subst unat_plus_simple [THEN iffD1]) (simp_all add: no_olen_add_nat)
    have t: "tripped_at label (events @ [e]) =
        (if losses_in_a_row events < failure_threshold_for_label label then now else tripped_at label events)"
      if "failure_threshold_for_label label \<le> losses_in_a_row events + 1"
      using that le failure_threshold_pos [of label]
      by (auto simp: tripped_at_def e None nth_append)
    show ?thesis using IH c t by (auto simp: e None)
  qed
qed

text \<open>C21: The circuit breaker.  After any sequence of probes an upstream is taken out exactly
  when the losses since the last success have reached its threshold (three, eight for a
  loopback address), and it is tried again when the cooldown has passed since the loss
  that tripped the breaker; further losses do not extend the cooldown, one success ends it.\<close>

theorem circuit_breaker:
  assumes "length events < 2 ^ 64"
  shows "is_available now (um_run w events (um_new label t0)) \<longleftrightarrow>
       losses_in_a_row events < failure_threshold_for_label label
     \<or> recovery_cooldown_for_label label < now - tripped_at label events"
  using um_run_state [OF assms, of w label t0] by (auto simp: is_available_def)

theorem circuit_breaker_witness:
  "\<not> is_available (from_secs 33) (um_run default_weights
       [(0, Some 20, DnsQuery), (1, None, DnsQuery), (2, None, DnsQuery), (from_secs 3, None, DnsQuery), (from_secs 9, None, DnsQuery)]
       (um_new ''udp://1.1.1.1:53'' 0))"
  by (subst circuit_breaker)
     (simp_all add: losses_in_a_row_def tripped_at_def failure_threshold_for_label_def
       recovery_cooldown_for_label_def is_loopback_label_def starts_with_def from_secs_def)

section \<open>Scores\<close>

lemma pktloss_1000: "pktloss_score x = 1000"
  by (simp add: pktloss_score_def min_def max_def)

text \<open>The packet loss of an upstream does not enter its score: the term for it is the
  maximum whatever the rate.\<close>

theorem packet_loss_ignored:
  "pktloss_score packet_loss = 1000 \<and> final_score w (m\<lparr>um_probes := ps\<rparr>) = final_score w m"
  by (simp add: pktloss_1000 final_score_def success_rate_def Let_def)

lemma rtt_score_range: "50 \<le> rtt_score r \<and> rtt_score r \<le> 1000"
  by (simp add: rtt_score_def)

lemma jitter_score_range: "0 \<le> jitter_score j \<and> jitter_score j \<le> 1000"
  by (simp add: jitter_score_def min_def max_def del: of_nat_unat)

lemma success_rate_nonneg: "0 \<le> success_rate m"
  by (simp add: success_rate_def Let_def del: of_nat_unat)

lemma success_rate_le:
  assumes "unat (um_success m) + unat (um_failure m) < 2 ^ 64"
  shows "success_rate m \<le> 1"
proof -
  have "unat (um_success m + um_failure m) = unat (um_success m) + unat (um_failure m)"
    using assms by (subst unat_plus_simple [THEN iffD1]) (simp_all add: no_olen_add_nat)
  then have "unat (um_success m) \<le> unat (um_success m + um_failure m)" by simp
  then show ?thesis by (auto simp: success_rate_def Let_def divide_le_eq_1 simp del: of_nat_unat)
qed

text \<open>The weights that the engine ever sets.\<close>

definition engine_weights :: "weight_config \<Rightarrow> bool" where
  "engine_weights w \<longleftrightarrow> 0 \<le> latency_weight w \<and> 0 \<le> jitter_weight w \<and> 0 \<le> success_weight w
     \<and> 0 \<le> pktloss_weight w \<and> weight_sum w = 1
     \<and> 101 \<le> 50 * latency_weight w + 1000 * pktloss_weight w"

lemma default_engine_weights: "engine_weights default_weights"
  by (simp add: engine_weights_def default_weights_def weight_sum_def)

lemma normalize_id: "weight_sum w = 1 \<Longrightarrow> normalize_weights w = w"
  by (simp add: normalize_weights_def Let_def)

lemma build_engine_weights: "engine_weights (build_dynamic_weights n hour)"
proof -
  let ?w = "let w = base_weights (congestion_level n) in
       if (19 \<le> hour \<and> hour \<le> 23) \<or> (12 \<le> hour \<and> hour \<le> 13)
       then w\<lparr>success_weight := success_weight w + 0.03, pktloss_weight := pktloss_weight w + 0.02,
              latency_weight := latency_weight w - 0.03, jitter_weight := jitter_weight w - 0.02\<rparr>
       else if hour \<le> 6
       then w\<lparr>latency_weight := latency_weight w + 0.03, success_weight := success_weight w - 0.02,
              pktloss_weight := pktloss_weight w - 0.01\<rparr>
       else w"
  have w: "engine_weights ?w"
    by (simp add: base_weights_def engine_weights_def weight_sum_def Let_def)
  then have "weight_sum ?w = 1" by (simp add: engine_weights_def)
  from normalize_id [OF this] w show ?thesis
    by (simp add: build_dynamic_weights_def Let_def)
qed

lemma final_score_healthy:
  assumes "engine_weights w" and "um_healthy m"
  shows "101 \<le> final_score w m"
proof -
  have "50 * latency_weight w \<le> rtt_score (um_avg m) * latency_weight w"
    using assms(1) rtt_score_range [of "um_avg m"] by (intro mult_right_mono) (simp_all add: engine_weights_def)
  moreover have "0 \<le> jitter_score (um_jitter m) * jitter_weight w"
    using assms(1) jitter_score_range [of "um_jitter m"] by (simp add: engine_weights_def)
  moreover have "0 \<le> success_rate m * 1000 * success_weight w"
    using assms(1) success_rate_nonneg [of m] by (simp add: engine_weights_def)
  ultimately show ?thesis
    using assms by (simp add: final_score_def engine_weights_def pktloss_1000 Let_def)
qed

lemma final_score_unhealthy:
  assumes "engine_weights w" and "\<not> um_healthy m" and "unat (um_success m) + unat (um_failure m) < 2 ^ 64"
  shows "0 \<le> final_score w m" and "final_score w m \<le> 100"
proof -
  have l: "0 \<le> rtt_score (um_avg m) * latency_weight w" "rtt_score (um_avg m) * latency_weight w \<le> 1000 * latency_weight w"
    using assms(1) rtt_score_range [of "um_avg m"]
    by (auto simp: engine_weights_def intro!: mult_right_mono mult_nonneg_nonneg)
  have j: "0 \<le> jitter_score (um_jitter m) * jitter_weight w" "jitter_score (um_jitter m) * jitter_weight w \<le> 1000 * jitter_weight w"
    using assms(1) jitter_score_range [of "um_jitter m"]
    by (auto simp: engine_weights_def intro!: mult_right_mono mult_nonneg_nonneg)
  have "success_rate m * 1000 \<le> 1000" using success_rate_le [OF assms(3)] by simp
  then have s: "0 \<le> success_rate m * 1000 * success_weight w" "success_rate m * 1000 * success_weight w \<le> 1000 * success_weight w"
    using assms(1) success_rate_nonneg [of m]
    by (simp_all only: engine_weights_def mult_right_mono mult_nonneg_nonneg zero_le_numeral)
  have p: "0 \<le> pktloss_weight w" using assms(1) by (simp add: engine_weights_def)
  have sum: "1000 * latency_weight w + 1000 * jitter_weight w + 1000 * success_weight w + 1000 * pktloss_weight w = 1000"
    using assms(1) by (simp add: engine_weights_def weight_sum_def)
  show "0 \<le> final_score w m" "final_score w m \<le> 100"
    using assms(2) l j s p sum by (simp_all add: final_score_def pktloss_1000 Let_def)
qed

lemma unat_f64_to_u64: "unat (f64_to_u64 x) = min (2 ^ 64 - 1) (nat \<lfloor>x\<rfloor>)"
proof -
  have "min (2 ^ 64 - 1) (nat \<lfloor>x\<rfloor>) < (2 :: nat) ^ LENGTH(64)" by simp
  then show ?thesis unfolding f64_to_u64_def by (subst unat_of_nat) (rule mod_less)
qed

lemma f64_to_u64_ge: "real n \<le> x \<Longrightarrow> n < 2 ^ 64 \<Longrightarrow> n \<le> unat (f64_to_u64 x)"
  unfolding unat_f64_to_u64 by (simp add: le_nat_iff le_floor_iff)

lemma f64_to_u64_le: "x \<le> real n \<Longrightarrow> unat (f64_to_u64 x) \<le> n"
  unfolding unat_f64_to_u64 by (simp add: min_le_iff_disj floor_le_iff nat_le_iff)

section \<open>Runs of the engine\<close>

datatype health_op =
    Register string
  | Probed string "u64 option" probe_type
  | Rank network_scope
  | Tune nat
  | Udp_Check u32

fun health_step :: "nat \<times> health_op \<Rightarrow> health \<Rightarrow> health" where
  "health_step (now, Register label) h = register_upstream now label h"
| "health_step (now, Probed label latency ptype) h = record_probe now latency ptype label h"
| "health_step (now, Rank scope) h = snd (get_ranked_upstreams_cached now scope h)"
| "health_step (now, Tune hour) h = snd (auto_tune_weights hour h)"
| "health_step (now, Udp_Check counter) h = snd (check_udp_blocking counter h)"

definition health_run :: "(nat \<times> health_op) list \<Rightarrow> health \<Rightarrow> health" where
  "health_run ops h = fold health_step ops h"

definition score_ok :: "nat \<Rightarrow> upstream_metrics \<Rightarrow> bool" where
  "score_ok k m \<longleftrightarrow> unat (um_success m) + unat (um_failure m) \<le> k
     \<and> (if um_healthy m then 101 \<le> unat (um_score m) else unat (um_score m) \<le> 100)"

definition health_inv :: "nat \<Rightarrow> health \<Rightarrow> bool" where
  "health_inv k h \<longleftrightarrow> (\<forall>scope. engine_weights (h_weights h scope))
     \<and> (\<forall>m \<in> set (h_upstreams h). score_ok k m) \<and> distinct (map um_label (h_upstreams h))"

lemma score_ok_probe:
  assumes "engine_weights w" and "score_ok k m" and "Suc k < 2 ^ 64"
  shows "score_ok (Suc k) (um_record_probe w now lat pt m)"
proof -
  have le: "unat (a + 1 :: u64) \<le> Suc (unat a)" for a :: u64
    using mod_less_eq_dividend [of "unat a + unat (1 :: u64)" "2 ^ 64"] by (simp add: unat_word_ariths(1))
  let ?m = "um_record_probe w now lat pt m"
  have c: "unat (um_success ?m) + unat (um_failure ?m) \<le> Suc k"
  proof (cases lat)
    case None
    with assms(2) le [of "um_failure m"] show ?thesis
      by (simp add: score_ok_def um_record_probe_def update_score_def record_loss_def Let_def)
  next
    case (Some l)
    with assms(2) le [of "um_success m"] show ?thesis
      by (simp add: score_ok_def um_record_probe_def update_score_def record_latency_def Let_def)
  qed
  have f: "final_score w (m'\<lparr>um_score := x\<rparr>) = final_score w m'" for m' x
    by (simp add: final_score_def success_rate_def packet_loss_rate_def Let_def)
  obtain m' where m': "?m = update_score w m'"
    by (simp add: um_record_probe_def Let_def)
  then have "um_score ?m = f64_to_u64 (final_score w ?m)"
    by (simp add: update_score_def f)
  then show ?thesis
    using c assms(1,3) final_score_healthy [of w ?m] final_score_unhealthy [of w ?m]
      f64_to_u64_ge [of 101 "final_score w ?m"] f64_to_u64_le [of "final_score w ?m" 100]
    by (simp add: score_ok_def)
qed

lemma score_ok_mono: "score_ok k m \<Longrightarrow> score_ok (Suc k) m"
  by (auto simp: score_ok_def)

lemma set_update_first: "m \<in> set (update_first label f us) \<Longrightarrow> m \<in> set us \<or> (\<exists>u \<in> set us. m = f u)"
  by (induction us) (auto split: if_splits)

lemma labels_update_first:
  "(\<And>m. um_label (f m) = um_label m) \<Longrightarrow> map um_label (update_first label f us) = map um_label us"
  by (induction us) auto

lemma get_metrics_None: "get_metrics label h = None \<longleftrightarrow> label \<notin> um_label ` set (h_upstreams h)"
  by (auto simp: get_metrics_def find_None_iff)

lemma tune_scope_keeps:
  "h_upstreams (snd (auto_tune_weights_for_scope hour scope h)) = h_upstreams h"
  "(\<And>s. engine_weights (h_weights h s)) \<Longrightarrow>
     engine_weights (h_weights (snd (auto_tune_weights_for_scope hour scope h)) s)"
  by (auto simp: auto_tune_weights_for_scope_def set_weights_for_scope_def Let_def build_engine_weights)

lemma tune_keeps: "health_inv k h \<Longrightarrow> health_inv k (snd (auto_tune_weights hour h))"
  by (simp add: auto_tune_weights_def health_inv_def tune_scope_keeps split_beta)

lemma health_step_inv:
  assumes "health_inv k h" and "Suc k < 2 ^ 64"
  shows "health_inv (Suc k) (health_step (now, op) h)"
proof (cases op)
  case (Register label)
  have "score_ok (Suc k) (um_new label now)" by (simp add: score_ok_def um_new_def)
  with Register assms show ?thesis
    by (auto simp: health_inv_def register_upstream_def get_metrics_None score_ok_mono split: option.split)
next
  case (Probed label lat pt)
  let ?f = "um_record_probe (h_weights h (scope_for_label label)) now lat pt"
  have "score_ok (Suc k) m" if "m \<in> set (update_first label ?f (h_upstreams h))" for m
    using set_update_first [OF that] assms score_ok_probe score_ok_mono by (auto simp: health_inv_def)
  with Probed assms score_ok_mono show ?thesis
    by (auto simp: health_inv_def record_probe_def labels_update_first split: option.split)
next
  case (Tune hour)
  with tune_keeps [OF assms(1), of hour] show ?thesis by (auto simp: health_inv_def score_ok_mono)
qed (use assms in \<open>auto simp: health_inv_def get_ranked_upstreams_cached_def check_udp_blocking_def Let_def score_ok_mono\<close>)

lemma health_run_inv:
  "health_inv k h \<Longrightarrow> k + length ops < 2 ^ 64 \<Longrightarrow> health_inv (k + length ops) (health_run ops h)"
proof (induction ops arbitrary: k h)
  case (Cons op ops)
  obtain now o' where op: "op = (now, o')" by (cases op)
  from Cons.prems have "health_inv (Suc k) (health_step op h)" by (simp add: op health_step_inv)
  from Cons.IH [OF this] Cons.prems show ?case by (simp add: health_run_def)
qed (simp add: health_run_def)

text \<open>C22: Healthy upstreams first.  After any run of the engine (registrations, probes, tuning of
  the weights, rankings) the ranking of a scope lists exactly the available upstreams in
  question, the ones with the higher score first, and no upstream that is out of order
  stands before one that works.\<close>

theorem ranking_healthy_first:
  assumes "length ops < 2 ^ 64" and h: "h = health_run ops (health_new t0)"
  shows "\<exists>us. compute_ranked_upstreams now scope h = map um_label us
     \<and> set us = {u \<in> set (scoped_upstreams scope h). is_available now u}
     \<and> sorted_wrt (\<lambda>a b. um_score b \<le> um_score a \<and> (um_healthy b \<longrightarrow> um_healthy a)) us"
proof -
  let ?us = "by_score (filter (is_available now) (scoped_upstreams scope h))"
  have "health_inv 0 (health_new t0)" by (simp add: health_inv_def health_new_def default_engine_weights)
  from health_run_inv [OF this, of ops] assms(1) h have inv: "health_inv (length ops) h" by simp
  have s: "sorted_wrt (\<lambda>a b. um_score b \<le> um_score a) ?us"
    using sorted_sort_key [of "\<lambda>u. - int (unat (um_score u))" "filter (is_available now) (scoped_upstreams scope h)"]
    by (simp add: by_score_def sorted_wrt_map word_le_def)
  have set: "set ?us = {u \<in> set (scoped_upstreams scope h). is_available now u}" by (auto simp: by_score_def)
  have ok: "score_ok (length ops) u" if "u \<in> set ?us" for u
  proof -
    have "set (scoped_upstreams scope h) \<subseteq> set (h_upstreams h)"
      by (auto simp: scoped_upstreams_def filter_upstreams_by_scope_def Let_def)
    moreover from that have "u \<in> set (scoped_upstreams scope h)" by (simp add: set)
    ultimately show ?thesis using inv by (auto simp: health_inv_def)
  qed
  have "sorted_wrt (\<lambda>a b. um_score b \<le> um_score a \<and> (um_healthy b \<longrightarrow> um_healthy a)) ?us"
    by (rule sorted_wrt_mono_rel [OF _ s]) (auto dest!: ok simp: score_ok_def word_le_nat_alt split: if_splits)
  with set show ?thesis by (intro exI [of _ ?us]) (simp add: compute_ranked_upstreams_def)
qed

theorem ranking_healthy_first_witness:
  "\<exists>us. compute_ranked_upstreams 9 ScopeGlobal
        (health_run [(0, Register ''udp://1.1.1.1:53''), (0, Register ''tcp://2.2.2.2:53''), (5, Probed ''tcp://2.2.2.2:53'' None TcpConnect)]
          (health_new 0)) = map um_label us
     \<and> set us = {u \<in> set (scoped_upstreams ScopeGlobal
         (health_run [(0, Register ''udp://1.1.1.1:53''), (0, Register ''tcp://2.2.2.2:53''), (5, Probed ''tcp://2.2.2.2:53'' None TcpConnect)]
            (health_new 0))). is_available 9 u}
     \<and> sorted_wrt (\<lambda>a b. um_score b \<le> um_score a) us"
proof -
  let ?ops = "[(0, Register ''udp://1.1.1.1:53''), (0, Register ''tcp://2.2.2.2:53''), (5, Probed ''tcp://2.2.2.2:53'' None TcpConnect)]"
  have "length ?ops < 2 ^ 64" by simp
  from ranking_healthy_first [OF this refl, of 9 ScopeGlobal 0]
  obtain us where us: "compute_ranked_upstreams 9 ScopeGlobal (health_run ?ops (health_new 0)) = map um_label us"
    "set us = {u \<in> set (scoped_upstreams ScopeGlobal (health_run ?ops (health_new 0))). is_available 9 u}"
    "sorted_wrt (\<lambda>a b. um_score b \<le> um_score a \<and> (um_healthy b \<longrightarrow> um_healthy a)) us" by blast
  from us(3) have "sorted_wrt (\<lambda>a b. um_score b \<le> um_score a) us" by (rule sorted_wrt_mono_rel [rotated]) simp
  with us(1,2) show ?thesis by blast
qed

section \<open>Bounds\<close>

lemma hedge_delay_bounds:
  "10 \<le> get_adaptive_hedge_delay label h \<and> get_adaptive_hedge_delay label h \<le> 300"
  by (simp add: get_adaptive_hedge_delay_def split: option.split)

lemma rtt_history_bounded:
  "length (um_rtts m) \<le> 100 \<Longrightarrow> length (um_rtts (um_record_probe w now lat pt m)) \<le> 100"
proof (cases lat)
  case (Some l)
  assume "length (um_rtts m) \<le> 100"
  with Some push_bounded_le [of "um_rtts m" 100 l] show ?thesis by (simp add: history_size_def)
qed simp

text \<open>A cached ranking is one that was computed, less than the lifetime of the cache ago or
  under the current epoch.\<close>

lemma rank_cached_cases:
  assumes "get_ranked_upstreams_cached now scope h = (ranks, h')"
  shows "ranks = compute_ranked_upstreams now scope h
    \<or> ranks = rs_ranks (h_ranks h scope) \<and> ranks \<noteq> []
       \<and> (now - rs_ts (h_ranks h scope) < rank_cache_ttl \<or> rs_epoch (h_ranks h scope) = h_epoch h)"
  using assms by (auto simp: get_ranked_upstreams_cached_def Let_def split: if_splits)

end
