(* ===== verification/Autopilot_Learning.thy ===== *)
theory Autopilot_Learning
  imports Autopilot_Health "HOL-Library.AList"
begin

text \<open>
  \<open>src/autopilot.rs\<close>, what is learnt from queries: which upstream answered a domain
  fastest (for all clients and per client network), with the channel that batches
  the updates, which domain is asked after which, how hard a domain is to
  resolve, and which domains are hot at which hour.

  A concurrent map is an association list with distinct keys; the order of its
  iteration, which the code leaves open, is the order of the list.  Counters that
  grow by one per query are natural numbers.
\<close>

definition normalize_domain_lower :: "string \<Rightarrow> string" where
  "normalize_domain_lower domain =
     (let d = trim_end_matches CHR ''.'' domain in if list_ex is_upper d then to_lower d else d)"

section \<open>Memory of the best upstream\<close>

record domain_memory =
  dm_best :: string
  dm_avg :: u64
  dm_count :: nat
  dm_update :: nat

definition dm_new :: "nat \<Rightarrow> string \<Rightarrow> u64 \<Rightarrow> domain_memory" where
  "dm_new now upstream latency = \<lparr>dm_best = upstream, dm_avg = latency, dm_count = 1, dm_update = now\<rparr>"

text \<open>The moving average of the same upstream, or the replacement by a faster one.\<close>

definition dm_report :: "nat \<Rightarrow> string \<Rightarrow> u64 \<Rightarrow> domain_memory \<Rightarrow> domain_memory" where
  "dm_report now upstream latency d =
     (let d = (if upstream = dm_best d
               then d\<lparr>dm_avg := (dm_avg d * word_of_nat (dm_count d) + latency) div word_of_nat (dm_count d + 1),
                      dm_count := dm_count d + 1\<rparr>
               else if latency < dm_avg d
               then d\<lparr>dm_best := upstream, dm_avg := latency, dm_count := 1\<rparr>
               else d)
      in d\<lparr>dm_update := now\<rparr>)"

definition dm_ttl_secs :: "nat \<Rightarrow> domain_memory \<Rightarrow> nat" where
  "dm_ttl_secs base_ttl d = base_ttl + min (dm_count d * 600) (86400 - base_ttl)"

definition dm_is_expired :: "nat \<Rightarrow> nat \<Rightarrow> domain_memory \<Rightarrow> bool" where
  "dm_is_expired base_ttl now d \<longleftrightarrow> from_secs (dm_ttl_secs base_ttl d) < now - dm_update d"

definition dm_remaining_ttl :: "nat \<Rightarrow> nat \<Rightarrow> domain_memory \<Rightarrow> int" where
  "dm_remaining_ttl base_ttl now d = int (dm_ttl_secs base_ttl d) - int (as_secs (now - dm_update d))"

definition dm_is_confident :: "domain_memory \<Rightarrow> bool" where
  "dm_is_confident d \<longleftrightarrow> 2 \<le> dm_count d"

datatype learning_update =
    Learn_Global string string u64
  | Learn_Client string string string u64

record learning =
  ln_domains :: "(string \<times> domain_memory) list"
  ln_clients :: "(string \<times> domain_memory) list"
  ln_capacity :: nat
  ln_boost :: nat
  ln_channel :: "learning_update list"
  ln_buffer :: "learning_update list"

definition learning_new :: learning where
  "learning_new = \<lparr>ln_domains = [], ln_clients = [], ln_capacity = 10000, ln_boost = 0,
                   ln_channel = [], ln_buffer = []\<rparr>"

definition base_domain_ttl_secs :: "learning \<Rightarrow> nat" where
  "base_domain_ttl_secs l = min (3600 + ln_boost l) (7200 + 3600)"

definition update_domain_memory_params :: "real \<Rightarrow> learning \<Rightarrow> learning" where
  "update_domain_memory_params avg_qps l =
     l\<lparr>ln_capacity := max 10000 (min 100000 (10000 + nat \<lfloor>avg_qps * 20\<rfloor>)),
       ln_boost := min (nat \<lfloor>avg_qps * 2\<rfloor>) 7200\<rparr>"

text \<open>Drop the expired entries, then the ones with the least time left down to the capacity.\<close>

definition evict_least :: "nat \<Rightarrow> nat \<Rightarrow> nat \<Rightarrow> (string \<times> domain_memory) list \<Rightarrow> (string \<times> domain_memory) list" where
  "evict_least base_ttl now capacity es =
     (let es = filter (\<lambda>(_, d). \<not> dm_is_expired base_ttl now d) es;
          excess = length es - capacity;
          gone = map fst (take excess (sort_key (\<lambda>(_, d). dm_remaining_ttl base_ttl now d) es))
      in filter (\<lambda>(k, _). k \<notin> set gone) es)"

definition cleanup_expired_domains :: "nat \<Rightarrow> learning \<Rightarrow> learning" where
  "cleanup_expired_domains now l =
     l\<lparr>ln_domains := evict_least (base_domain_ttl_secs l) now (ln_capacity l) (ln_domains l)\<rparr>"

definition cleanup_client_memory :: "nat \<Rightarrow> learning \<Rightarrow> learning" where
  "cleanup_client_memory now l =
     l\<lparr>ln_clients := evict_least (base_domain_ttl_secs l) now 5000 (ln_clients l)\<rparr>"

definition put_report ::
  "nat \<Rightarrow> string \<Rightarrow> string \<Rightarrow> u64 \<Rightarrow> (string \<times> domain_memory) list \<Rightarrow> (string \<times> domain_memory) list" where
  "put_report now key upstream latency_ms es =
     AList.update key
       (case map_of es key of
          Some d \<Rightarrow> dm_report now upstream latency_ms d
        | None \<Rightarrow> dm_new now upstream latency_ms) es"

definition apply_domain_result_clean ::
  "real \<Rightarrow> nat \<Rightarrow> string \<Rightarrow> string \<Rightarrow> u64 \<Rightarrow> learning \<Rightarrow> learning" where
  "apply_domain_result_clean avg_qps now domain upstream latency_ms l =
     (let l = l\<lparr>ln_domains := put_report now domain upstream latency_ms (ln_domains l)\<rparr>
      in if length (ln_domains l) mod 100 = 0
         then cleanup_expired_domains now (update_domain_memory_params avg_qps l) else l)"

definition apply_client_result_clean ::
  "real \<Rightarrow> nat \<Rightarrow> string \<Rightarrow> string \<Rightarrow> string \<Rightarrow> u64 \<Rightarrow> learning \<Rightarrow> learning" where
  "apply_client_result_clean avg_qps now key domain upstream latency_ms l =
     (let l = l\<lparr>ln_clients := put_report now key upstream latency_ms (ln_clients l)\<rparr>;
          l = (if length (ln_clients l) mod 100 = 0 then cleanup_client_memory now l else l)
      in apply_domain_result_clean avg_qps now domain upstream latency_ms l)"

fun apply_update :: "real \<Rightarrow> nat \<Rightarrow> learning_update \<Rightarrow> learning \<Rightarrow> learning" where
  "apply_update avg_qps now (Learn_Global domain upstream latency_ms) l =
     apply_domain_result_clean avg_qps now domain upstream latency_ms l"
| "apply_update avg_qps now (Learn_Client key domain upstream latency_ms) l =
     apply_client_result_clean avg_qps now key domain upstream latency_ms l"

definition apply_learning_batch :: "real \<Rightarrow> nat \<Rightarrow> learning \<Rightarrow> learning" where
  "apply_learning_batch avg_qps now l =
     fold (apply_update avg_qps now) (ln_buffer l) (l\<lparr>ln_buffer := []\<rparr>)"

text \<open>An update goes into the channel of the worker, which holds 4096, or is applied at once
  when there is no worker (\<open>in_runtime\<close> is false) or no room.\<close>

definition learn :: "bool \<Rightarrow> real \<Rightarrow> nat \<Rightarrow> learning_update \<Rightarrow> learning \<Rightarrow> learning" where
  "learn in_runtime avg_qps now u l =
     (if in_runtime \<and> length (ln_channel l) < 4096 then l\<lparr>ln_channel := ln_channel l @ [u]\<rparr>
      else apply_update avg_qps now u l)"

definition worker_recv :: "real \<Rightarrow> nat \<Rightarrow> learning \<Rightarrow> learning" where
  "worker_recv avg_qps now l =
     (case ln_channel l of
        [] \<Rightarrow> l
      | u # us \<Rightarrow>
          let l = l\<lparr>ln_channel := us, ln_buffer := ln_buffer l @ [u]\<rparr>
          in if 1024 \<le> length (ln_buffer l) then apply_learning_batch avg_qps now l else l)"

definition worker_tick :: "real \<Rightarrow> nat \<Rightarrow> learning \<Rightarrow> learning" where
  "worker_tick avg_qps now l = (if ln_buffer l = [] then l else apply_learning_batch avg_qps now l)"

definition record_domain_result_lower ::
  "bool \<Rightarrow> real \<Rightarrow> nat \<Rightarrow> string \<Rightarrow> string \<Rightarrow> u64 \<Rightarrow> learning \<Rightarrow> learning" where
  "record_domain_result_lower in_runtime avg_qps now domain_lower upstream latency_ms l =
     (if 80 < latency_ms then l
      else learn in_runtime avg_qps now
             (Learn_Global (trim_end_matches CHR ''.'' domain_lower) upstream latency_ms) l)"

definition get_domain_best_upstream_lower :: "nat \<Rightarrow> string \<Rightarrow> learning \<Rightarrow> string option \<times> learning" where
  "get_domain_best_upstream_lower now domain_lower l =
     (let domain_lower = trim_end_matches CHR ''.'' domain_lower in
      case map_of (ln_domains l) domain_lower of
        None \<Rightarrow> (None, l)
      | Some d \<Rightarrow>
          if dm_is_expired (base_domain_ttl_secs l) now d
          then (None, l\<lparr>ln_domains := AList.delete domain_lower (ln_domains l)\<rparr>)
          else (if dm_is_confident d then Some (dm_best d) else None, l))"

section \<open>Per client network\<close>

definition get_client_subnet :: "ip_addr \<Rightarrow> string" where
  "get_client_subnet ip =
     (case ip of
        V4 a \<Rightarrow>
          let os = map unat (v4_octets a); dot = ''.'' in
          if os ! 0 = 10 \<or> (os ! 0 = 172 \<and> 16 \<le> os ! 1 \<and> os ! 1 \<le> 31) \<or> (os ! 0 = 192 \<and> os ! 1 = 168)
          then show_nat (os ! 0) @ dot @ show_nat (os ! 1) @ dot @ show_nat (os ! 2)
          else show_nat (os ! 0) @ dot @ show_nat (os ! 1)
      | V6 a \<Rightarrow>
          let seg = \<lambda>i. show_base 16 (unat (ucast (drop_bit (112 - 16 * i) a) :: u16)) in
          seg 0 @ '':'' @ seg 1 @ '':'' @ seg 2)"

definition client_memory_key_lower :: "string \<Rightarrow> ip_addr \<Rightarrow> string" where
  "client_memory_key_lower domain_lower client_ip =
     trim_end_matches CHR ''.'' domain_lower @ ''@'' @ get_client_subnet client_ip"

definition record_domain_result_for_client_lower ::
  "bool \<Rightarrow> real \<Rightarrow> nat \<Rightarrow> string \<Rightarrow> string \<Rightarrow> u64 \<Rightarrow> ip_addr \<Rightarrow> learning \<Rightarrow> learning" where
  "record_domain_result_for_client_lower in_runtime avg_qps now domain_lower upstream latency_ms client_ip l =
     (if 120 < latency_ms then l
      else let domain_clean = trim_end_matches CHR ''.'' domain_lower
           in learn in_runtime avg_qps now
                (Learn_Client (client_memory_key_lower domain_clean client_ip) domain_clean upstream latency_ms) l)"

definition get_domain_best_upstream_for_client_lower ::
  "nat \<Rightarrow> string \<Rightarrow> ip_addr \<Rightarrow> learning \<Rightarrow> string option \<times> learning" where
  "get_domain_best_upstream_for_client_lower now domain_lower client_ip l =
     (case map_of (ln_clients l) (client_memory_key_lower domain_lower client_ip) of
        Some d \<Rightarrow>
          if \<not> dm_is_expired (base_domain_ttl_secs l) now d \<and> dm_is_confident d then (Some (dm_best d), l)
          else get_domain_best_upstream_lower now domain_lower l
      | None \<Rightarrow> get_domain_best_upstream_lower now domain_lower l)"

definition memory_stats :: "(string \<times> domain_memory) list \<Rightarrow> nat \<times> nat" where
  "memory_stats es = (length es, length (filter (\<lambda>(_, d). dm_is_confident d) es))"

section \<open>Queries that follow each other\<close>

record sequences =
  sq_follows :: "(string \<times> (string \<times> nat) list) list"
  sq_last :: "(string \<times> nat) option"
  sq_counter :: nat

definition cleanup_weak_associations ::
  "(string \<times> (string \<times> nat) list) list \<Rightarrow> (string \<times> (string \<times> nat) list) list" where
  "cleanup_weak_associations follows =
     filter (\<lambda>(_, fs). fs \<noteq> []) (map (\<lambda>(k, fs). (k, filter (\<lambda>(_, count). 2 \<le> count) fs)) follows)"

definition bump_follow :: "string \<Rightarrow> string \<Rightarrow> (string \<times> (string \<times> nat) list) list \<Rightarrow> (string \<times> (string \<times> nat) list) list" where
  "bump_follow prev_domain domain follows =
     (let fs = (case map_of follows prev_domain of Some fs \<Rightarrow> fs | None \<Rightarrow> []);
          count = (case map_of fs domain of Some n \<Rightarrow> n | None \<Rightarrow> 0)
      in AList.update prev_domain (AList.update domain (count + 1) fs) follows)"

definition record_query_sequence_lower :: "nat \<Rightarrow> string \<Rightarrow> sequences \<Rightarrow> sequences" where
  "record_query_sequence_lower now domain_lower s =
     (let domain_lower = trim_end_matches CHR ''.'' domain_lower;
          follows = (case sq_last s of
              Some (prev_domain, prev_time) \<Rightarrow>
                if now - prev_time < from_secs 5 \<and> prev_domain \<noteq> domain_lower
                then bump_follow prev_domain domain_lower (sq_follows s) else sq_follows s
            | None \<Rightarrow> sq_follows s)
      in s\<lparr>sq_follows := (if sq_counter s mod 1000 = 0 then cleanup_weak_associations follows else follows),
           sq_last := Some (domain_lower, now), sq_counter := sq_counter s + 1\<rparr>)"

definition predict_next_queries_lower :: "string \<Rightarrow> nat \<Rightarrow> sequences \<Rightarrow> string list" where
  "predict_next_queries_lower domain_lower top_n s =
     (case map_of (sq_follows s) (trim_end_matches CHR ''.'' domain_lower) of
        Some follows \<Rightarrow>
          map fst (take top_n (filter (\<lambda>(_, count). 3 \<le> count) (sort_key (\<lambda>(_, count). - int count) follows)))
      | None \<Rightarrow> [])"

definition predict_next_queries :: "string \<Rightarrow> nat \<Rightarrow> sequences \<Rightarrow> string list" where
  "predict_next_queries domain = predict_next_queries_lower (normalize_domain_lower domain)"

section \<open>Difficulty of a domain\<close>

record domain_difficulty =
  dd_failures :: nat
  dd_attempts :: nat
  dd_avg :: real
  dd_update :: nat

type_synonym difficulties = "(string \<times> domain_difficulty) list"

definition record_domain_attempt :: "nat \<Rightarrow> string \<Rightarrow> bool \<Rightarrow> nat \<Rightarrow> difficulties \<Rightarrow> difficulties" where
  "record_domain_attempt now domain success attempts ds =
     (let key = to_lower domain in
      AList.update key
        (case map_of ds key of
           Some d \<Rightarrow> \<lparr>dd_failures = (if success then dd_failures d else dd_failures d + 1),
                      dd_attempts = dd_attempts d + 1,
                      dd_avg = dd_avg d * 0.8 + real attempts * 0.2, dd_update = now\<rparr>
         | None \<Rightarrow> \<lparr>dd_failures = (if success then 0 else 1), dd_attempts = 1,
                      dd_avg = real attempts, dd_update = now\<rparr>) ds)"

definition get_domain_difficulty :: "nat \<Rightarrow> string \<Rightarrow> difficulties \<Rightarrow> nat" where
  "get_domain_difficulty now domain ds =
     (case map_of ds (to_lower domain) of
        None \<Rightarrow> 0
      | Some d \<Rightarrow>
          if from_secs 3600 < now - dd_update d then 0
          else let failure_rate = (if 0 < dd_attempts d then real (dd_failures d) / real (dd_attempts d) else 0);
                   score = failure_rate * 3 + max (dd_avg d - 1) 0 * 0.5
               in min (nat \<lfloor>min score 5\<rfloor>) 5)"

definition get_difficulty_concurrency_boost :: "nat \<Rightarrow> string \<Rightarrow> difficulties \<Rightarrow> nat" where
  "get_difficulty_concurrency_boost now domain ds =
     (let d = get_domain_difficulty now domain ds in
      if d \<le> 1 then 0 else if d \<le> 3 then 1 else if d = 4 then 2 else if d = 5 then 3 else 0)"

section \<open>Queries per second\<close>

record qps_tracker =
  qt_counts :: "(nat \<times> nat) list"
  qt_current :: nat
  qt_last :: nat

definition qps_new :: "nat \<Rightarrow> qps_tracker" where
  "qps_new now = \<lparr>qt_counts = [], qt_current = 0, qt_last = now\<rparr>"

definition qps_record_query :: "nat \<Rightarrow> qps_tracker \<Rightarrow> qps_tracker" where
  "qps_record_query now q =
     (let q = (if 1 \<le> as_secs (now - qt_last q)
               then q\<lparr>qt_counts := drop (length (qt_counts q) - 59) (qt_counts q) @ [(qt_last q, qt_current q)],
                      qt_current := 0, qt_last := now\<rparr>
               else q)
      in q\<lparr>qt_current := qt_current q + 1\<rparr>)"

definition avg_qps :: "nat \<Rightarrow> qps_tracker \<Rightarrow> real" where
  "avg_qps seconds q =
     (let n = min (length (qt_counts q)) seconds
      in if n = 0 then real (qt_current q)
         else real (sum_list (map snd (take n (rev (qt_counts q))))) / real n)"

definition peak_qps :: "qps_tracker \<Rightarrow> nat" where
  "peak_qps q = fold max (map snd (qt_counts q)) 0"

definition qps_trend :: "qps_tracker \<Rightarrow> real" where
  "qps_trend q =
     (if length (qt_counts q) < 10 then 0
      else let counts = map snd (rev (qt_counts q));
               recent = real (sum_list (take 5 counts)) / 5;
               older = real (sum_list (take 5 (drop 5 counts))) / 5
           in if 0 < older then (recent - older) / older * 100 else 0)"

definition should_skip_background_task :: "qps_tracker \<Rightarrow> bool" where
  "should_skip_background_task q \<longleftrightarrow> 800 < qt_current q \<or> 500 < avg_qps 30 q"

section \<open>Hot domains\<close>

text \<open>\<open>hour\<close> is the hour of the day in UTC, computed from the Unix time.\<close>

definition hour_of :: "nat \<Rightarrow> nat" where
  "hour_of unix_secs = unix_secs div 3600 mod 24"

record domain_stats =
  ds_count :: nat
  ds_hourly :: "nat list"
  ds_last :: nat

definition ds_record_access :: "nat \<Rightarrow> nat \<Rightarrow> domain_stats \<Rightarrow> domain_stats" where
  "ds_record_access now hour s =
     s\<lparr>ds_count := ds_count s + 1,
       ds_hourly := (if hour < 24 then (ds_hourly s)[hour := ds_hourly s ! hour + 1] else ds_hourly s),
       ds_last := now\<rparr>"

definition ds_new :: "nat \<Rightarrow> domain_stats" where
  "ds_new now = \<lparr>ds_count = 0, ds_hourly = replicate 24 0, ds_last = now\<rparr>"

definition predict_access_probability :: "nat \<Rightarrow> domain_stats \<Rightarrow> real" where
  "predict_access_probability hour s =
     (if ds_count s = 0 \<or> 24 \<le> hour then 0 else real (ds_hourly s ! hour) / real (ds_count s))"

record hot_domains =
  hd_domains :: "(string \<times> domain_stats) list"
  hd_last_prefetch :: nat

text \<open>The first entry with the least count, as \<open>min_by_key\<close> returns it.\<close>

fun least_accessed :: "(string \<times> domain_stats) list \<Rightarrow> (string \<times> domain_stats) option" where
  "least_accessed [] = None"
| "least_accessed (e # es) =
     (case least_accessed es of
        None \<Rightarrow> Some e
      | Some e' \<Rightarrow> if ds_count (snd e) \<le> ds_count (snd e') then Some e else Some e')"

definition hd_record_access :: "nat \<Rightarrow> nat \<Rightarrow> string \<Rightarrow> hot_domains \<Rightarrow> hot_domains" where
  "hd_record_access now unix_secs domain h =
     (let hour = hour_of unix_secs; domain = trim_end_matches CHR ''.'' domain in
      case map_of (hd_domains h) domain of
        Some s \<Rightarrow> h\<lparr>hd_domains := AList.update domain (ds_record_access now hour s) (hd_domains h)\<rparr>
      | None \<Rightarrow>
          let es = (if 100 \<le> length (hd_domains h)
                    then (case least_accessed (hd_domains h) of
                            Some (k, _) \<Rightarrow> AList.delete k (hd_domains h) | None \<Rightarrow> hd_domains h)
                    else hd_domains h)
          in h\<lparr>hd_domains := AList.update domain (ds_record_access now hour (ds_new now)) es\<rparr>)"

definition hd_get_top_n :: "nat \<Rightarrow> hot_domains \<Rightarrow> (string \<times> nat) list" where
  "hd_get_top_n n h =
     take n (sort_key (\<lambda>(_, c). - int c) (map (\<lambda>(k, s). (k, ds_count s)) (hd_domains h)))"

definition hd_prefetch_candidates :: "nat \<Rightarrow> real \<Rightarrow> hot_domains \<Rightarrow> string list" where
  "hd_prefetch_candidates unix_secs threshold h =
     (let next_hour = (unix_secs div 3600 + 1) mod 24 in
      map fst (filter (\<lambda>(_, s). threshold \<le> predict_access_probability next_hour s) (hd_domains h)))"

text \<open>The names handed to the callback.\<close>

definition hd_trigger_prefetch :: "nat \<Rightarrow> nat \<Rightarrow> qps_tracker \<Rightarrow> real \<Rightarrow> hot_domains \<Rightarrow> string list \<times> hot_domains" where
  "hd_trigger_prefetch now unix_secs q threshold h =
     (if now - hd_last_prefetch h < from_secs 120 then ([], h)
      else if 300 < qt_current q \<or> 200 < avg_qps 30 q then ([], h)
      else let candidates = hd_prefetch_candidates unix_secs threshold h
           in if candidates = [] then ([], h) else (candidates, h\<lparr>hd_last_prefetch := now\<rparr>))"

definition check_hourly_prefetch ::
  "nat \<Rightarrow> nat \<Rightarrow> qps_tracker \<Rightarrow> nat \<Rightarrow> hot_domains \<Rightarrow> nat \<times> string list \<times> hot_domains" where
  "check_hourly_prefetch now unix_secs q last_hour h =
     (let current_hour = hour_of unix_secs in
      if current_hour \<noteq> last_hour
      then (current_hour,
            if hd_prefetch_candidates unix_secs 0.2 h \<noteq> [] then hd_trigger_prefetch now unix_secs q 0.2 h else ([], h))
      else (last_hour, [], h))"

section \<open>Domains by hour\<close>

type_synonym time_patterns = "((string \<times> nat) \<times> nat) list"

definition cleanup_time_patterns :: "time_patterns \<Rightarrow> time_patterns" where
  "cleanup_time_patterns ps =
     (let ps = filter (\<lambda>(_, count). 1 < count) ps
      in if 50000 div 2 < length ps
         then filter (\<lambda>(_, count). 0 < count) (map (\<lambda>(k, count). (k, count div 2)) ps) else ps)"

definition record_timed_access_lower :: "nat \<Rightarrow> string \<Rightarrow> time_patterns \<Rightarrow> time_patterns" where
  "record_timed_access_lower hour domain_lower ps =
     (let key = (domain_lower, hour);
          ps = AList.update key (case map_of ps key of Some n \<Rightarrow> min (n + 1) (2 ^ 32 - 1) | None \<Rightarrow> 1) ps
      in if 50000 < length ps then cleanup_time_patterns ps else ps)"

definition get_hot_domains_for_hour :: "nat \<Rightarrow> nat \<Rightarrow> time_patterns \<Rightarrow> (string \<times> nat) list" where
  "get_hot_domains_for_hour hour limit ps =
     take limit (sort_key (\<lambda>(_, c). - int c) (map (\<lambda>((d, _), c). (d, c)) (filter (\<lambda>((_, h), _). h = hour) ps)))"

definition get_prefetch_candidates :: "nat \<Rightarrow> nat \<Rightarrow> time_patterns \<Rightarrow> string list" where
  "get_prefetch_candidates hour limit ps = map fst (get_hot_domains_for_hour ((hour + 1) mod 24) limit ps)"

text \<open>The queue of names to prefetch, with the instant they were queued.\<close>

definition queue_for_prefetch :: "nat \<Rightarrow> string \<Rightarrow> (string \<times> nat) list \<Rightarrow> (string \<times> nat) list" where
  "queue_for_prefetch now domain q = AList.update (to_lower domain) now q"

definition drain_prefetch_queue :: "nat \<Rightarrow> nat \<Rightarrow> (string \<times> nat) list \<Rightarrow> string list \<times> (string \<times> nat) list" where
  "drain_prefetch_queue now limit q =
     (let taken = take limit (map fst (filter (\<lambda>(_, t). from_millis 100 < now - t) q))
      in (taken, filter (\<lambda>(d, _). d \<notin> set taken) q))"

section \<open>The memory is bounded\<close>

lemma update_length:
  "length (AList.update k v es) = (if k \<in> fst ` set es then length es else length es + 1)"
  by (induction es) auto

lemma evict_least_subset: "set (evict_least base_ttl now capacity es) \<subseteq> set es"
  by (auto simp: evict_least_def Let_def)

lemma evict_least_distinct:
  "distinct (map fst es) \<Longrightarrow> distinct (map fst (evict_least base_ttl now capacity es))"
  by (simp add: evict_least_def Let_def distinct_map_filter)

lemma remove_keys_length:
  assumes "distinct (map fst es)" and "gone = map fst (take n (sort_key f es))" and "n \<le> length es"
  shows "length (filter (\<lambda>(k, _). k \<notin> set gone) es) \<le> length es - n"
proof -
  have d: "distinct (map fst (sort_key f es))"
    using assms(1) by (metis distinct_map distinct_sort set_sort)
  then have "distinct gone" using assms(2) by (simp add: take_map [symmetric] distinct_take)
  then have "card (set gone) = n" using assms(2,3) distinct_card [of gone] by simp
  moreover have "set gone \<subseteq> fst ` set (filter (\<lambda>(k, _). k \<in> set gone) es)"
  proof
    fix k assume k: "k \<in> set gone"
    then obtain e where "e \<in> set es" "k = fst e" using assms(2) by (auto dest: in_set_takeD)
    with k show "k \<in> fst ` set (filter (\<lambda>(k, _). k \<in> set gone) es)" by (auto simp: case_prod_unfold)
  qed
  then have "card (set gone) \<le> length (filter (\<lambda>(k, _). k \<in> set gone) es)"
    by (metis (no_types, lifting) card_length card_mono finite_set length_map list.set_map le_trans)
  moreover have "length (filter (\<lambda>(k, _). k \<in> set gone) es) + length (filter (\<lambda>(k, _). k \<notin> set gone) es) = length es"
    using sum_length_filter_compl [of "\<lambda>(k, _). k \<in> set gone" es] by (simp add: case_prod_unfold)
  ultimately show ?thesis by linarith
qed

lemma evict_least_length:
  assumes "distinct (map fst es)"
  shows "length (evict_least base_ttl now capacity es) \<le> capacity"
proof -
  let ?es = "filter (\<lambda>(_, d). \<not> dm_is_expired base_ttl now d) es"
  have "distinct (map fst ?es)" using assms by (simp add: distinct_map_filter)
  from remove_keys_length [OF this refl, of "length ?es - capacity" "\<lambda>(_, d). dm_remaining_ttl base_ttl now d"]
  show ?thesis by (simp add: evict_least_def Let_def)
qed

lemma put_report_distinct:
  "distinct (map fst es) \<Longrightarrow> distinct (map fst (put_report now k u lat es))"
  by (simp add: put_report_def distinct_update)

lemma put_report_length: "length (put_report now k u lat es) \<le> length es + 1"
  by (simp add: put_report_def update_length)

definition memory_bounded :: "learning \<Rightarrow> bool" where
  "memory_bounded l \<longleftrightarrow> distinct (map fst (ln_domains l)) \<and> length (ln_domains l) < 100100
     \<and> distinct (map fst (ln_clients l)) \<and> length (ln_clients l) < 5100
     \<and> length (ln_channel l) \<le> 4096 \<and> length (ln_buffer l) < 1024"

lemma cut_at_hundred:
  assumes "length es < n * 100 + 100" and "length es' \<le> length es + 1"
    and "length es' mod 100 = 0 \<Longrightarrow> length es'' \<le> n * 100"
  shows "length (if length es' mod 100 = 0 then es'' else es') < n * 100 + 100"
proof (cases "length es' mod 100 = 0")
  case False
  have "length es' \<noteq> n * 100 + 100" using False by (metis mod_add_self2 mod_mult_self2_is_0 mult.commute)
  with False assms(1,2) show ?thesis by simp
qed (use assms(3) in simp)

lemma apply_domain_bounded:
  assumes "memory_bounded l"
  shows "memory_bounded (apply_domain_result_clean q now d u lat l)"
proof -
  let ?es = "put_report now d u lat (ln_domains l)"
  let ?l = "update_domain_memory_params q (l\<lparr>ln_domains := ?es\<rparr>)"
  have cap: "ln_capacity ?l \<le> 100000" by (simp add: update_domain_memory_params_def)
  have dist: "distinct (map fst ?es)" using assms by (simp add: memory_bounded_def put_report_distinct)
  have sel: "ln_domains ?l = ?es" by (simp add: update_domain_memory_params_def)
  have "length (if length ?es mod 100 = 0 then ln_domains (cleanup_expired_domains now ?l) else ?es) < 1000 * 100 + 100"
  proof (rule cut_at_hundred [of "ln_domains l"])
    show "length (ln_domains (cleanup_expired_domains now ?l)) \<le> 1000 * 100"
      using evict_least_length [OF dist, of "base_domain_ttl_secs ?l" now "ln_capacity ?l"] cap
      by (simp add: cleanup_expired_domains_def sel)
  qed (use assms put_report_length in \<open>auto simp: memory_bounded_def\<close>)
  moreover have "distinct (map fst (ln_domains (cleanup_expired_domains now ?l)))"
    using dist by (simp add: cleanup_expired_domains_def evict_least_distinct sel)
  ultimately show ?thesis
    using assms dist
    by (simp add: apply_domain_result_clean_def memory_bounded_def Let_def cleanup_expired_domains_def
        update_domain_memory_params_def split: if_splits)
qed

lemma apply_client_bounded:
  assumes "memory_bounded l"
  shows "memory_bounded (apply_client_result_clean q now key d u lat l)"
proof -
  let ?es = "put_report now key u lat (ln_clients l)"
  let ?l = "l\<lparr>ln_clients := ?es\<rparr>"
  have dist: "distinct (map fst ?es)" using assms by (simp add: memory_bounded_def put_report_distinct)
  have "length (if length ?es mod 100 = 0 then ln_clients (cleanup_client_memory now ?l) else ?es) < 50 * 100 + 100"
  proof (rule cut_at_hundred [of "ln_clients l"])
    show "length (ln_clients (cleanup_client_memory now ?l)) \<le> 50 * 100"
      using evict_least_length [OF dist] by (simp add: cleanup_client_memory_def)
  qed (use assms put_report_length in \<open>auto simp: memory_bounded_def\<close>)
  then have "memory_bounded (if length ?es mod 100 = 0 then cleanup_client_memory now ?l else ?l)"
    using assms dist by (simp add: memory_bounded_def cleanup_client_memory_def evict_least_distinct split: if_splits)
  then show ?thesis
    by (simp add: apply_client_result_clean_def apply_domain_bounded Let_def split: if_splits)
qed

lemma apply_update_bounded: "memory_bounded l \<Longrightarrow> memory_bounded (apply_update q now u l)"
  by (cases u) (simp_all add: apply_domain_bounded apply_client_bounded)

lemma fold_update_bounded: "memory_bounded l \<Longrightarrow> memory_bounded (fold (apply_update q now) us l)"
  by (induction us arbitrary: l) (simp_all add: apply_update_bounded)

lemma batch_bounded:
  "memory_bounded (l\<lparr>ln_buffer := []\<rparr>) \<Longrightarrow> memory_bounded (apply_learning_batch q now l)"
  by (simp add: apply_learning_batch_def fold_update_bounded)

datatype memory_op =
    Reported bool real string string u64
  | Reported_Client bool real string string u64 ip_addr
  | Worker_Recv real
  | Worker_Tick real
  | Asked string
  | Asked_Client string ip_addr

fun memory_step :: "nat \<times> memory_op \<Rightarrow> learning \<Rightarrow> learning" where
  "memory_step (now, Reported rt q d u lat) l = record_domain_result_lower rt q now d u lat l"
| "memory_step (now, Reported_Client rt q d u lat ip) l =
     record_domain_result_for_client_lower rt q now d u lat ip l"
| "memory_step (now, Worker_Recv q) l = worker_recv q now l"
| "memory_step (now, Worker_Tick q) l = worker_tick q now l"
| "memory_step (now, Asked d) l = snd (get_domain_best_upstream_lower now d l)"
| "memory_step (now, Asked_Client d ip) l = snd (get_domain_best_upstream_for_client_lower now d ip l)"

definition memory_run :: "(nat \<times> memory_op) list \<Rightarrow> learning" where
  "memory_run ops = fold memory_step ops learning_new"

lemma memory_run_simps [simp]:
  "memory_run [] = learning_new"
  "memory_run (ops @ [op]) = memory_step op (memory_run ops)"
  by (simp_all add: memory_run_def)

lemma learn_bounded: "memory_bounded l \<Longrightarrow> memory_bounded (learn rt q now u l)"
  by (simp add: learn_def apply_update_bounded) (simp add: memory_bounded_def)

lemma ask_bounded:
  "memory_bounded l \<Longrightarrow> memory_bounded (snd (get_domain_best_upstream_lower now d l))"
  using length_delete_le [of "trim_end_matches CHR ''.'' d" "ln_domains l"]
  by (auto simp: get_domain_best_upstream_lower_def memory_bounded_def Let_def distinct_delete split: option.split)

lemma memory_step_bounded: "memory_bounded l \<Longrightarrow> memory_bounded (memory_step (now, op) l)"
proof (cases op)
  case (Worker_Recv q)
  assume b: "memory_bounded l"
  show ?thesis
  proof (cases "ln_channel l")
    case (Cons u us)
    with b have "memory_bounded (l\<lparr>ln_channel := us, ln_buffer := []\<rparr>)" by (simp add: memory_bounded_def)
    with b Cons Worker_Recv show ?thesis
      by (auto simp: worker_recv_def Let_def intro!: batch_bounded) (simp add: memory_bounded_def)
  qed (use b Worker_Recv in \<open>simp add: worker_recv_def\<close>)
next
  case (Worker_Tick q)
  assume b: "memory_bounded l"
  then have "memory_bounded (l\<lparr>ln_buffer := []\<rparr>)" by (simp add: memory_bounded_def)
  with b Worker_Tick show ?thesis by (simp add: worker_tick_def batch_bounded)
qed (auto simp: record_domain_result_lower_def record_domain_result_for_client_lower_def Let_def learn_bounded
       ask_bounded get_domain_best_upstream_for_client_lower_def split: option.split)

lemma memory_run_bounded: "memory_bounded (memory_run ops)"
proof (induction ops rule: rev_induct)
  case (snoc op ops)
  then show ?case by (cases op) (simp add: memory_step_bounded)
qed (simp add: memory_bounded_def learning_new_def)


section \<open>Recommendations rest on reports\<close>

text \<open>How often the table of entries counts the pair of a key and an upstream.\<close>

definition credit :: "(string \<times> domain_memory) list \<Rightarrow> string \<times> string \<Rightarrow> nat" where
  "credit es p = (case map_of es (fst p) of
      Some d \<Rightarrow> if dm_best d = snd p then dm_count d else 0 | None \<Rightarrow> 0)"

lemma credit_put:
  "credit (put_report now k u lat es) p \<le> credit es p + count_list [(k, u)] p"
  by (cases p) (auto simp: credit_def put_report_def dm_report_def dm_new_def update_conv' Let_def split: option.split)

lemma credit_sub:
  assumes "distinct (map fst es)" and "distinct (map fst es')" and "set es' \<subseteq> set es"
  shows "credit es' p \<le> credit es p"
proof (cases "map_of es' (fst p)")
  case (Some d)
  then have "(fst p, d) \<in> set es" using assms(3) map_of_SomeD by fastforce
  then have "map_of es (fst p) = Some d" using assms(1) by simp
  with Some show ?thesis by (simp add: credit_def)
qed (simp add: credit_def)

lemma credit_evict: "distinct (map fst es) \<Longrightarrow> credit (evict_least b now cap es) p \<le> credit es p"
  by (rule credit_sub) (simp_all add: evict_least_distinct evict_least_subset)

lemma domain_result_sel [simp]:
  "ln_clients (apply_domain_result_clean q now d u lat l) = ln_clients l"
  "ln_channel (apply_domain_result_clean q now d u lat l) = ln_channel l"
  "ln_buffer (apply_domain_result_clean q now d u lat l) = ln_buffer l"
  by (simp_all add: apply_domain_result_clean_def cleanup_expired_domains_def update_domain_memory_params_def Let_def)

lemma apply_update_sel [simp]:
  "ln_channel (apply_update q now u l) = ln_channel l"
  "ln_buffer (apply_update q now u l) = ln_buffer l"
  by (cases u; simp add: apply_client_result_clean_def cleanup_client_memory_def Let_def)+

lemma fold_update_sel [simp]:
  "ln_channel (fold (apply_update q now) us l) = ln_channel l"
  "ln_buffer (fold (apply_update q now) us l) = ln_buffer l"
  by (induction us arbitrary: l) simp_all

lemma credit_domain_result:
  assumes "distinct (map fst (ln_domains l))"
  shows "credit (ln_domains (apply_domain_result_clean q now d u lat l)) p \<le> credit (ln_domains l) p + count_list [(d, u)] p"
proof -
  let ?es = "put_report now d u lat (ln_domains l)"
  have "credit (evict_least b now cap ?es) p \<le> credit ?es p" for b cap
    by (rule credit_evict) (simp add: assms put_report_distinct)
  from order_trans [OF this credit_put] show ?thesis
    by (simp add: apply_domain_result_clean_def cleanup_expired_domains_def update_domain_memory_params_def
        Let_def credit_put del: count_list.simps)
qed

lemma ask_sel [simp]:
  "ln_channel (snd (get_domain_best_upstream_lower now d l)) = ln_channel l"
  "ln_buffer (snd (get_domain_best_upstream_lower now d l)) = ln_buffer l"
  by (simp_all add: get_domain_best_upstream_lower_def Let_def split: option.split)

lemma ask_client_snd:
  "snd (get_domain_best_upstream_for_client_lower now d ip l) = l
   \<or> snd (get_domain_best_upstream_for_client_lower now d ip l) = snd (get_domain_best_upstream_lower now d l)"
  by (simp add: get_domain_best_upstream_for_client_lower_def split: option.split)

text \<open>The updates that an operation of the engine reports.\<close>

fun op_updates :: "memory_op \<Rightarrow> learning_update list" where
  "op_updates (Reported rt q d u lat) =
     (if 80 < lat then [] else [Learn_Global (trim_end_matches CHR ''.'' d) u lat])"
| "op_updates (Reported_Client rt q d u lat ip) =
     (if 120 < lat then []
      else [Learn_Client (client_memory_key_lower (trim_end_matches CHR ''.'' d) ip) (trim_end_matches CHR ''.'' d) u lat])"
| "op_updates _ = []"

text \<open>The two tables behave alike: an update counts at most for the pairs it reports, and a
  lookup never adds to a table.\<close>

locale report_table =
  fixes tab :: "learning \<Rightarrow> (string \<times> domain_memory) list"
    and pairs :: "learning_update \<Rightarrow> (string \<times> string) list"
  assumes tab_new: "tab learning_new = []"
    and tab_channel: "tab (l\<lparr>ln_channel := c\<rparr>) = tab l"
    and tab_buffer: "tab (l\<lparr>ln_buffer := b\<rparr>) = tab l"
    and tab_apply: "memory_bounded l \<Longrightarrow> credit (tab (apply_update q now u l)) p \<le> credit (tab l) p + count_list (pairs u) p"
    and tab_ask: "memory_bounded l \<Longrightarrow> credit (tab (snd (get_domain_best_upstream_lower now d l))) p \<le> credit (tab l) p"
begin

lemma tab_fold:
  "memory_bounded l \<Longrightarrow>
     credit (tab (fold (apply_update q now) us l)) p \<le> credit (tab l) p + count_list (concat (map pairs us)) p"
proof (induction us arbitrary: l)
  case (Cons u us)
  from Cons.IH [OF apply_update_bounded [OF Cons.prems, of q now u]] tab_apply [OF Cons.prems, of q now u p]
  show ?case by simp
qed simp

lemma tab_batch:
  assumes "memory_bounded (l\<lparr>ln_buffer := []\<rparr>)"
  shows "credit (tab (apply_learning_batch q now l)) p \<le> credit (tab l) p + count_list (concat (map pairs (ln_buffer l))) p"
    and "ln_channel (apply_learning_batch q now l) = ln_channel l"
    and "ln_buffer (apply_learning_batch q now l) = []"
  using tab_fold [OF assms, of q now "ln_buffer l" p] by (simp_all add: apply_learning_batch_def tab_buffer)

lemma tab_learn:
  assumes "memory_bounded l"
  shows "credit (tab (learn rt q now u l)) p
       + count_list (concat (map pairs (ln_buffer (learn rt q now u l) @ ln_channel (learn rt q now u l)))) p
     \<le> credit (tab l) p + count_list (concat (map pairs (ln_buffer l @ ln_channel l))) p + count_list (pairs u) p"
  using tab_apply [OF assms, of q now u p] by (simp add: learn_def tab_channel)

lemma run_credit:
  "credit (tab (memory_run ops)) p
     + count_list (concat (map pairs (ln_buffer (memory_run ops) @ ln_channel (memory_run ops)))) p
   \<le> count_list (concat (map pairs (concat (map (\<lambda>(_, op). op_updates op) ops)))) p"
proof (induction ops rule: rev_induct)
  case Nil
  show ?case by (simp add: tab_new credit_def) (simp add: learning_new_def)
next
  case (snoc op ops)
  let ?l = "memory_run ops"
  have b: "memory_bounded ?l" by (rule memory_run_bounded)
  obtain now o' where op: "op = (now, o')" by (cases op)
  show ?case
  proof (cases o')
    case (Reported rt q d u lat)
    with snoc op tab_learn [OF b, of rt q now "Learn_Global (trim_end_matches CHR ''.'' d) u lat" p]
    show ?thesis by (simp add: record_domain_result_lower_def)
  next
    case (Reported_Client rt q d u lat ip)
    with snoc op tab_learn [OF b, of rt q now
        "Learn_Client (client_memory_key_lower (trim_end_matches CHR ''.'' d) ip) (trim_end_matches CHR ''.'' d) u lat" p]
    show ?thesis by (simp add: record_domain_result_for_client_lower_def Let_def)
  next
    case (Worker_Recv q)
    show ?thesis
    proof (cases "ln_channel ?l")
      case (Cons u us)
      let ?m = "?l\<lparr>ln_channel := us, ln_buffer := ln_buffer ?l @ [u]\<rparr>"
      from b Cons have "memory_bounded (?m\<lparr>ln_buffer := []\<rparr>)" by (simp add: memory_bounded_def)
      from tab_batch(1) [OF this, of q now p] tab_batch(2,3) [OF this, of q now] snoc Cons Worker_Recv op show ?thesis
        by (simp add: worker_recv_def Let_def tab_channel tab_buffer)
    qed (use snoc Worker_Recv op in \<open>simp add: worker_recv_def\<close>)
  next
    case (Worker_Tick q)
    from b have "memory_bounded (?l\<lparr>ln_buffer := []\<rparr>)" by (simp add: memory_bounded_def)
    from tab_batch(1) [OF this, of q now p] tab_batch(2,3) [OF this, of q now] snoc Worker_Tick op show ?thesis by (simp add: worker_tick_def)
  next
    case (Asked d)
    with snoc op tab_ask [OF b, of now d p] show ?thesis by simp
  next
    case (Asked_Client d ip)
    with snoc op tab_ask [OF b, of now d p] ask_client_snd [of now d ip ?l] show ?thesis by auto
  qed
qed

text \<open>An entry that is trusted was reported at least twice.\<close>

lemma confident_reported:
  assumes "map_of (tab (memory_run ops)) key = Some d" and "dm_is_confident d"
  shows "2 \<le> count_list (concat (map pairs (concat (map (\<lambda>(_, op). op_updates op) ops)))) (key, dm_best d)"
  using run_credit [of ops "(key, dm_best d)"] assms by (simp add: credit_def dm_is_confident_def)

end

fun domain_pairs :: "learning_update \<Rightarrow> (string \<times> string) list" where
  "domain_pairs (Learn_Global d u lat) = [(d, u)]"
| "domain_pairs (Learn_Client key d u lat) = [(d, u)]"

fun client_pairs :: "learning_update \<Rightarrow> (string \<times> string) list" where
  "client_pairs (Learn_Global d u lat) = []"
| "client_pairs (Learn_Client key d u lat) = [(key, u)]"

lemma credit_delete: "distinct (map fst es) \<Longrightarrow> credit (AList.delete k es) p \<le> credit es p"
  by (rule credit_sub) (simp_all add: distinct_delete, auto simp: AList.delete_eq)

lemma credit_client_put:
  assumes "memory_bounded l"
  shows "credit (ln_clients (apply_client_result_clean q now key d u lat l)) p \<le> credit (ln_clients l) p + count_list [(key, u)] p"
proof -
  let ?es = "put_report now key u lat (ln_clients l)"
  have "credit (evict_least b now 5000 ?es) p \<le> credit ?es p" for b
    by (rule credit_evict) (use assms in \<open>simp add: memory_bounded_def put_report_distinct\<close>)
  from order_trans [OF this credit_put] show ?thesis
    by (simp add: apply_client_result_clean_def cleanup_client_memory_def Let_def credit_put del: count_list.simps)
qed

interpretation domains: report_table ln_domains domain_pairs
proof
  fix l q now u p
  assume b: "memory_bounded l"
  show "credit (ln_domains (apply_update q now u l)) p \<le> credit (ln_domains l) p + count_list (domain_pairs u) p"
  proof (cases u)
    case (Learn_Client key d up lat)
    let ?l = "let l = l\<lparr>ln_clients := put_report now key up lat (ln_clients l)\<rparr>
              in if length (ln_clients l) mod 100 = 0 then cleanup_client_memory now l else l"
    have "ln_domains ?l = ln_domains l" by (simp add: cleanup_client_memory_def Let_def)
    with credit_domain_result [of ?l q now d up lat p] b Learn_Client show ?thesis
      by (simp add: apply_client_result_clean_def memory_bounded_def Let_def del: count_list.simps)
  qed (use b credit_domain_result in \<open>simp add: memory_bounded_def del: count_list.simps\<close>)
next
  fix l now d p
  assume "memory_bounded l"
  then show "credit (ln_domains (snd (get_domain_best_upstream_lower now d l))) p \<le> credit (ln_domains l) p"
    by (simp add: get_domain_best_upstream_lower_def memory_bounded_def credit_delete Let_def split: option.split)
qed (simp_all add: learning_new_def)

interpretation clients: report_table ln_clients client_pairs
proof
  fix l q now u p
  assume b: "memory_bounded l"
  show "credit (ln_clients (apply_update q now u l)) p \<le> credit (ln_clients l) p + count_list (client_pairs u) p"
    by (cases u) (use credit_client_put [OF b] in \<open>simp_all del: count_list.simps(2)\<close>)
qed (simp_all add: learning_new_def get_domain_best_upstream_lower_def Let_def split: option.split)

text \<open>A report of upstream \<open>u\<close> for domain \<open>d\<close> that the code does not discard as too slow.\<close>

fun reported :: "string \<Rightarrow> string \<Rightarrow> nat \<times> memory_op \<Rightarrow> bool" where
  "reported d u (t, Reported rt q d' u' lat) \<longleftrightarrow> trim_end_matches CHR ''.'' d' = d \<and> u' = u \<and> lat \<le> 80"
| "reported d u (t, Reported_Client rt q d' u' lat ip) \<longleftrightarrow>
     trim_end_matches CHR ''.'' d' = d \<and> u' = u \<and> lat \<le> 120"
| "reported d u (t, op) \<longleftrightarrow> False"

lemma domain_pairs_reported:
  "count_list (concat (map domain_pairs (concat (map (\<lambda>(_, op). op_updates op) ops)))) (d, u)
     \<le> length (filter (reported d u) ops)"
proof (induction ops)
  case (Cons op ops)
  obtain t o' where "op = (t, o')" by (cases op)
  with Cons show ?case by (cases o') (auto simp: not_less)
qed simp

lemma digit_char_not_at: "d < 16 \<Longrightarrow> digit_char d \<noteq> CHR ''@''"
proof
  assume d: "d < 16" and e: "digit_char d = CHR ''@''"
  from e have "(of_char (digit_char d) :: nat) = 64" by simp
  with d show False by (auto simp: digit_char_def split: if_splits)
qed

lemma show_base_not_at: "2 \<le> b \<Longrightarrow> b \<le> 16 \<Longrightarrow> CHR ''@'' \<notin> set (show_base b n)"
proof (induction b n rule: show_base.induct)
  case (1 b n)
  have m: "n mod b < 16" using 1 by (meson less_le_trans mod_less_divisor pos2 less_le_trans)
  show ?case
  proof (cases "n < b")
    case True
    then show ?thesis using 1 digit_char_not_at [of n] by (subst show_base.simps) auto
  next
    case False
    then show ?thesis using 1 digit_char_not_at [OF m] by (subst show_base.simps) auto
  qed
qed

lemma subnet_not_at: "CHR ''@'' \<notin> set (get_client_subnet ip)"
  by (cases ip) (simp_all add: get_client_subnet_def show_nat_def show_base_not_at Let_def)

lemma client_key_inject:
  assumes "client_memory_key_lower d ip = client_memory_key_lower d' ip'"
  shows "trim_end_matches CHR ''.'' d = trim_end_matches CHR ''.'' d'"
proof -
  have "rev (client_memory_key_lower a i)
      = rev (get_client_subnet i) @ CHR ''@'' # rev (trim_end_matches CHR ''.'' a)" for a i
    by (simp add: client_memory_key_lower_def)
  with assms have e: "rev (get_client_subnet ip) @ CHR ''@'' # rev (trim_end_matches CHR ''.'' d)
      = rev (get_client_subnet ip') @ CHR ''@'' # rev (trim_end_matches CHR ''.'' d')" by metis
  have "CHR ''@'' \<notin> set (rev (get_client_subnet ip))" "CHR ''@'' \<notin> set (rev (get_client_subnet ip'))"
    by (simp_all add: subnet_not_at)
  with e have "rev (get_client_subnet ip) = rev (get_client_subnet ip')"
    by (metis list.sel(1) split_on_append_sep)
  with e show ?thesis by simp
qed

lemma trim_end_matches_idem [simp]: "trim_end_matches c (trim_end_matches c s) = trim_end_matches c s"
  by (rule trim_end_matches_id) (rule trim_end_matches_last)

lemma client_pairs_reported:
  "count_list (concat (map client_pairs (concat (map (\<lambda>(_, op). op_updates op) ops)))) (client_memory_key_lower d ip, u)
     \<le> length (filter (reported (trim_end_matches CHR ''.'' d) u) ops)"
proof (induction ops)
  case (Cons op ops)
  obtain t o' where "op = (t, o')" by (cases op)
  with Cons show ?case
    by (cases o') (auto simp: not_less dest: client_key_inject)
qed simp



section \<open>Bounds of the moving average, the difficulty and the predictions\<close>

text \<open>The moving average stays between the values it averages.\<close>

lemma dm_report_between:
  assumes "a \<le> unat (dm_avg d)" "unat (dm_avg d) \<le> b" "a \<le> unat lat" "unat lat \<le> b"
    and "b * (dm_count d + 1) < 2 ^ 64" and "dm_count d + 1 < 2 ^ 64"
  shows "a \<le> unat (dm_avg (dm_report now u lat d))" and "unat (dm_avg (dm_report now u lat d)) \<le> b"
proof -
  let ?c = "dm_count d"
  have m: "unat (dm_avg d) * ?c + unat lat \<le> b * (?c + 1)"
    using add_mono [OF mult_right_mono [OF assms(2), of ?c] assms(4)] by (simp add: add_mult_distrib2)
  have m': "a * (?c + 1) \<le> unat (dm_avg d) * ?c + unat lat"
    using add_mono [OF mult_right_mono [OF assms(1), of ?c] assms(3)] by (simp add: add_mult_distrib2)
  have lt: "unat (dm_avg d) * ?c + unat lat < 2 ^ 64" using m assms(5) by linarith
  have "dm_avg d * word_of_nat ?c + lat = word_of_nat (unat (dm_avg d) * ?c + unat lat)" by simp
  then have "unat (dm_avg d * word_of_nat ?c + lat) = unat (dm_avg d) * ?c + unat lat"
    using lt unat_word_of_nat [where 'a = 64, of "unat (dm_avg d) * ?c + unat lat"] by (simp only:) simp
  moreover have "unat (word_of_nat (?c + 1) :: u64) = ?c + 1"
    using assms(6) by (intro unat_word_of_nat) simp
  ultimately have e: "unat ((dm_avg d * word_of_nat ?c + lat) div word_of_nat (?c + 1))
      = (unat (dm_avg d) * ?c + unat lat) div (?c + 1)" by (simp only: unat_div_distrib)
  have "a \<le> (unat (dm_avg d) * ?c + unat lat) div (?c + 1)"
    using m' by (simp add: less_eq_div_iff_mult_less_eq)
  moreover have "(unat (dm_avg d) * ?c + unat lat) div (?c + 1) \<le> b"
    using div_le_mono [OF m, of "?c + 1"] by (simp only: nonzero_mult_div_cancel_right)
  ultimately show "a \<le> unat (dm_avg (dm_report now u lat d))" "unat (dm_avg (dm_report now u lat d)) \<le> b"
    using assms(1-4) e by (auto simp: dm_report_def Let_def)
qed

lemma difficulty_boost_le: "get_difficulty_concurrency_boost now domain ds \<le> 3"
  by (simp add: get_difficulty_concurrency_boost_def Let_def)

lemma predictions_frequent:
  "d' \<in> set (predict_next_queries_lower d n s) \<Longrightarrow>
     \<exists>fs count. map_of (sq_follows s) (trim_end_matches CHR ''.'' d) = Some fs \<and> (d', count) \<in> set fs \<and> 3 \<le> count"
  by (cases "map_of (sq_follows s) (trim_end_matches CHR ''.'' d)")
     (auto simp: predict_next_queries_lower_def dest!: in_set_takeD)

lemma predictions_length: "length (predict_next_queries_lower d n s) \<le> n"
  by (simp add: predict_next_queries_lower_def split: option.split)

lemma hot_domains_bounded:
  assumes "distinct (map fst (hd_domains h))" and "length (hd_domains h) \<le> 100"
  shows "length (hd_domains (hd_record_access now unix d h)) \<le> 100"
proof -
  have least: "least_accessed es = Some e \<Longrightarrow> e \<in> set es" for es and e :: "string \<times> domain_stats"
    by (induction es arbitrary: e) (auto split: option.splits if_splits)
  have some: "es \<noteq> [] \<Longrightarrow> least_accessed es \<noteq> None" for es
    by (cases es) (auto split: option.split)
  have del: "k \<in> fst ` set es \<Longrightarrow> length (AList.delete k es) < length es" for k and es :: "(string \<times> domain_stats) list"
    by (auto simp: AList.delete_eq intro!: length_filter_less)
  show ?thesis
  proof (cases "map_of (hd_domains h) (trim_end_matches CHR ''.'' d)")
    case None
    show ?thesis
    proof (cases "100 \<le> length (hd_domains h)")
      case True
      then have "hd_domains h \<noteq> []" by auto
      then obtain k s where k: "least_accessed (hd_domains h) = Some (k, s)" using some by fastforce
      from del [of k "hd_domains h"] least [OF k] have "length (AList.delete k (hd_domains h)) < length (hd_domains h)"
        by force
      with None True k assms(2) show ?thesis by (simp add: hd_record_access_def update_length Let_def)
    qed (use None in \<open>simp add: hd_record_access_def update_length Let_def\<close>)
  next
    case (Some s)
    then have "trim_end_matches CHR ''.'' d \<in> fst ` set (hd_domains h)" by (metis map_of_eq_None_iff option.distinct(1))
    with Some assms(2) show ?thesis by (simp add: hd_record_access_def update_length Let_def)
  qed
qed

lemma qps_window_bounded:
  "length (qt_counts q) \<le> 60 \<Longrightarrow> length (qt_counts (qps_record_query now q)) \<le> 60"
  by (auto simp: qps_record_query_def Let_def)

end
