(* ===== verification/Autopilot_Guard.thy ===== *)
theory Autopilot_Guard
  imports Dns_Types Complex_Main "HOL-Library.AList"
begin

text \<open>
  \<open>src/autopilot.rs\<close>, the checks on clients, names and addresses: blocking of abusive
  clients, domains that look generated, known poisoned addresses, the stability of
  a domain's addresses with the TTL derived from it, the quality of addresses, the
  client subnet for upstream queries, and the bandit statistics.
  \<open>f64\<close> arithmetic is modelled in the reals, without rounding.
\<close>

section \<open>Clients\<close>

record client_stats =
  cs_total :: nat
  cs_nx :: nat
  cs_start :: nat
  cs_last :: nat
  cs_suspicion :: real
  cs_blocked :: bool

definition cs_new :: "nat \<Rightarrow> bool \<Rightarrow> client_stats" where
  "cs_new now is_nxdomain =
     \<lparr>cs_total = 1, cs_nx = (if is_nxdomain then 1 else 0), cs_start = now, cs_last = now,
      cs_suspicion = 0, cs_blocked = False\<rparr>"

definition secs_f64 :: "nat \<Rightarrow> real" where
  "secs_f64 d = real d / 1000000000"

text \<open>The evaluation that is due at every fiftieth query and at every twentieth NXDOMAIN.\<close>

definition cs_evaluate :: "nat \<Rightarrow> client_stats \<Rightarrow> bool \<times> client_stats" where
  "cs_evaluate now s =
     (let duration = secs_f64 (now - cs_start s) in
      if duration < 1 then (False, s)
      else let qps = real (cs_total s) / duration;
               nx_ratio = real (cs_nx s) / real (cs_total s);
               suspicion = cs_suspicion s + (if 10 < qps \<and> 0.8 < nx_ratio then 50 else 0)
                             + (if 100 < qps then 20 else 0);
               blocked = 100 \<le> suspicion;
               s = s\<lparr>cs_suspicion := (if blocked then suspicion else suspicion * 0.8),
                     cs_blocked := cs_blocked s \<or> blocked\<rparr>
           in (blocked, if 600 < duration then s\<lparr>cs_total := 0, cs_nx := 0, cs_start := now\<rparr> else s))"

definition cs_query :: "nat \<Rightarrow> bool \<Rightarrow> client_stats \<Rightarrow> bool \<times> client_stats" where
  "cs_query now is_nxdomain s =
     (if cs_blocked s \<and> now - cs_last s \<le> from_secs 300 then (True, s\<lparr>cs_last := now\<rparr>)
      else let s = (if cs_blocked s
                    then s\<lparr>cs_blocked := False, cs_total := 0, cs_nx := 0, cs_start := now, cs_suspicion := 0\<rparr>
                    else s);
               s = s\<lparr>cs_total := cs_total s + 1, cs_nx := (if is_nxdomain then cs_nx s + 1 else cs_nx s),
                     cs_last := now\<rparr>
           in if cs_total s mod 50 = 0 \<or> (is_nxdomain \<and> cs_nx s mod 20 = 0) then cs_evaluate now s
              else (False, s))"

type_synonym client_table = "ip_addr \<rightharpoonup> client_stats"

definition analyze_client_behavior :: "nat \<Rightarrow> ip_addr \<Rightarrow> bool \<Rightarrow> client_table \<Rightarrow> bool \<times> client_table" where
  "analyze_client_behavior now client_ip is_nxdomain tbl =
     (if is_loopback client_ip then (False, tbl)
      else case tbl client_ip of
             None \<Rightarrow> (False, tbl(client_ip \<mapsto> cs_new now is_nxdomain))
           | Some s \<Rightarrow> let (should_block, s) = cs_query now is_nxdomain s
                       in (should_block, tbl(client_ip \<mapsto> s)))"

section \<open>Generated domains\<close>

record dga_result =
  dr_is_dga :: bool
  dr_score :: real
  dr_reason :: string

definition entropy :: "string \<Rightarrow> real" where
  "entropy s = (\<Sum>c \<leftarrow> remdups s. let p = real (count_list s c) / real (length s) in - (p * log 2 p))"

definition is_alpha :: "char \<Rightarrow> bool" where
  "is_alpha c \<longleftrightarrow> is_alnum c \<and> \<not> is_digit c"

definition detect_dga_domain_lower :: "string \<Rightarrow> dga_result" where
  "detect_dga_domain_lower domain_lower =
     (case rsplit_on CHR ''.'' (trim_end_matches CHR ''.'' domain_lower) of
        tld # sld # _ \<Rightarrow>
          if sld = [] then \<lparr>dr_is_dga = False, dr_score = 0, dr_reason = ''short''\<rparr>
          else if length sld < 6 then \<lparr>dr_is_dga = False, dr_score = 0, dr_reason = ''short_sld''\<rparr>
          else let ent = entropy sld;
                   digit_ratio = real (length (filter is_digit sld)) / real (length sld);
                   consonant_ratio = real (length (filter (\<lambda>c. is_alpha c \<and> c \<notin> set ''aeiou'') sld)) / real (length sld)
               in if 4.2 < ent then \<lparr>dr_is_dga = True, dr_score = ent, dr_reason = ''high_entropy''\<rparr>
                  else if 0.85 < consonant_ratio
                  then \<lparr>dr_is_dga = True, dr_score = consonant_ratio, dr_reason = ''high_consonant''\<rparr>
                  else if 12 < length sld \<and> 3.8 < ent \<and> 0.3 < digit_ratio
                  then \<lparr>dr_is_dga = True, dr_score = ent, dr_reason = ''mixed_high_entropy''\<rparr>
                  else \<lparr>dr_is_dga = False, dr_score = ent, dr_reason = ''normal''\<rparr>
      | _ \<Rightarrow> \<lparr>dr_is_dga = False, dr_score = 0, dr_reason = ''short''\<rparr>)"

section \<open>Addresses\<close>

text \<open>The order of \<open>IpAddr\<close>: IPv4 before IPv6, then by value.\<close>

instantiation ip_addr :: linorder
begin

fun less_eq_ip_addr :: "ip_addr \<Rightarrow> ip_addr \<Rightarrow> bool" where
  "V4 a \<le> V4 b \<longleftrightarrow> a \<le> b"
| "V4 a \<le> V6 b \<longleftrightarrow> True"
| "V6 a \<le> V4 b \<longleftrightarrow> False"
| "V6 a \<le> V6 b \<longleftrightarrow> a \<le> b"

definition less_ip_addr :: "ip_addr \<Rightarrow> ip_addr \<Rightarrow> bool" where
  "less_ip_addr x y \<longleftrightarrow> x \<le> y \<and> \<not> y \<le> x"

instance
proof
  fix x y z :: ip_addr
  show "x < y \<longleftrightarrow> x \<le> y \<and> \<not> y \<le> x" by (rule less_ip_addr_def)
  show "x \<le> x" by (cases x) simp_all
  show "x \<le> y \<Longrightarrow> y \<le> z \<Longrightarrow> x \<le> z" by (cases x; cases y; cases z) simp_all
  show "x \<le> y \<Longrightarrow> y \<le> x \<Longrightarrow> x = y" by (cases x; cases y) simp_all
  show "x \<le> y \<or> y \<le> x" by (cases x; cases y) auto
qed

end

definition known_poison_ips :: "ip_addr set" where
  "known_poison_ips = {V4 0x7F000001, V4 0x00000000, V4 0xF3B9BB27, V4 0x2E52AE44, V4 0x253D369E,
     V4 0x5D2E0859, V4 0x3B1803AD, V4 0xCB620741, V4 0x0807C62D, V4 0x4E10310F, V4 0x9F6A794B}"

definition is_known_poison_ip :: "ip_addr \<Rightarrow> bool" where
  "is_known_poison_ip ip \<longleftrightarrow> ip \<in> known_poison_ips"

subsection \<open>Stability and TTL\<close>

record ip_stability =
  st_ips :: "ip_addr list"
  st_count :: u32
  st_change :: nat
  st_ttl_avg :: u32

type_synonym stability_table = "string \<rightharpoonup> ip_stability"

definition analyze_domain_stability :: "nat \<Rightarrow> string \<Rightarrow> ip_addr list \<Rightarrow> u32 \<Rightarrow> stability_table \<Rightarrow> stability_table" where
  "analyze_domain_stability now domain ips ttl tbl =
     (let key = to_lower domain; sorted_ips = sort ips in
      tbl(key \<mapsto>
        (case tbl key of
           None \<Rightarrow> \<lparr>st_ips = sorted_ips, st_count = 0, st_change = now, st_ttl_avg = ttl\<rparr>
         | Some s \<Rightarrow>
             let s = (if st_ips s = sorted_ips
                      then s\<lparr>st_count := (if st_count s = - 1 then - 1 else st_count s + 1)\<rparr>
                      else s\<lparr>st_count := 0, st_ips := sorted_ips, st_change := now\<rparr>)
             in s\<lparr>st_ttl_avg := (st_ttl_avg s + ttl) div 2\<rparr>)))"

definition get_smart_ttl :: "nat \<Rightarrow> string \<Rightarrow> u32 \<Rightarrow> stability_table \<Rightarrow> u32 option" where
  "get_smart_ttl now domain current_ttl tbl =
     (case tbl (to_lower domain) of
        None \<Rightarrow> None
      | Some s \<Rightarrow>
          if 5 \<le> st_count s \<and> from_secs 600 < now - st_change s \<and> current_ttl < 300
          then let target_ttl = (if 20 < st_count s \<and> from_secs 3600 < now - st_change s then 3600 else 600)
               in if current_ttl < target_ttl then Some target_ttl else None
          else None)"

subsection \<open>Quality\<close>

record ip_quality =
  iq_reachable :: bool
  iq_latency :: "u64 option"
  iq_check :: nat
  iq_checks :: nat
  iq_fails :: nat

type_synonym quality_table = "ip_addr \<rightharpoonup> ip_quality"

definition iq_new :: "nat \<Rightarrow> ip_quality" where
  "iq_new now = \<lparr>iq_reachable = True, iq_latency = None, iq_check = now, iq_checks = 0, iq_fails = 0\<rparr>"

definition iq_success :: "nat \<Rightarrow> u64 \<Rightarrow> ip_quality \<Rightarrow> ip_quality" where
  "iq_success now latency_ms q =
     q\<lparr>iq_reachable := True, iq_latency := Some latency_ms, iq_check := now, iq_checks := iq_checks q + 1\<rparr>"

definition iq_failure :: "nat \<Rightarrow> ip_quality \<Rightarrow> ip_quality" where
  "iq_failure now q =
     (let q = q\<lparr>iq_fails := iq_fails q + 1, iq_checks := iq_checks q + 1, iq_check := now\<rparr>
      in if 3 \<le> iq_fails q \<or> (3 \<le> iq_checks q \<and> iq_checks q < iq_fails q * 2)
         then q\<lparr>iq_reachable := False\<rparr> else q)"

definition iq_needs_recheck :: "nat \<Rightarrow> ip_quality \<Rightarrow> bool" where
  "iq_needs_recheck now q \<longleftrightarrow>
     (if iq_reachable q then from_secs 300 < now - iq_check q else from_secs 60 < now - iq_check q)"

definition iq_record :: "nat \<Rightarrow> u64 option \<Rightarrow> ip_quality \<Rightarrow> ip_quality" where
  "iq_record now outcome q =
     (case outcome of Some latency_ms \<Rightarrow> iq_success now latency_ms q | None \<Rightarrow> iq_failure now q)"

text \<open>\<open>record_ip_quality\<close>: reachable with a latency, or not reachable.\<close>

definition record_ip_quality :: "nat \<Rightarrow> ip_addr \<Rightarrow> u64 option \<Rightarrow> quality_table \<Rightarrow> quality_table" where
  "record_ip_quality now ip outcome tbl =
     tbl(ip \<mapsto> iq_record now outcome (case tbl ip of Some q \<Rightarrow> q | None \<Rightarrow> iq_new now))"

definition get_ip_quality_fresh :: "nat \<Rightarrow> ip_addr \<Rightarrow> quality_table \<Rightarrow> ip_quality option" where
  "get_ip_quality_fresh now ip tbl =
     (case tbl ip of Some q \<Rightarrow> if iq_needs_recheck now q then None else Some q | None \<Rightarrow> None)"

definition is_ip_known_bad :: "nat \<Rightarrow> ip_addr \<Rightarrow> quality_table \<Rightarrow> bool" where
  "is_ip_known_bad now ip tbl =
     (case tbl ip of Some q \<Rightarrow> \<not> iq_reachable q \<and> \<not> iq_needs_recheck now q | None \<Rightarrow> False)"

type_synonym penalties = "(string \<times> nat) list"

definition penalize_upstream_for_bad_ip :: "string \<Rightarrow> nat \<Rightarrow> penalties \<Rightarrow> penalties" where
  "penalize_upstream_for_bad_ip upstream bad_ip_count ps =
     AList.update upstream
       (case map_of ps upstream of
          Some penalty \<Rightarrow> min (penalty + bad_ip_count * 10) 100 | None \<Rightarrow> bad_ip_count * 10) ps"

definition decay_upstream_penalties :: "penalties \<Rightarrow> penalties" where
  "decay_upstream_penalties ps = filter (\<lambda>(_, v). 0 < v) (map (\<lambda>(k, v). (k, v - 5)) ps)"

text \<open>The background verification of the addresses of a response.  For each address it takes
  the instant of its turn, and what connecting to the ports 443 and 80 gave.\<close>

fun verify_ips ::
  "(ip_addr \<times> nat \<times> u64 option \<times> u64 option) list \<Rightarrow> nat \<Rightarrow> quality_table \<Rightarrow> nat \<times> quality_table" where
  "verify_ips [] bad_count tbl = (bad_count, tbl)"
| "verify_ips ((ip, now, port_443, port_80) # rest) bad_count tbl =
     (case tbl ip of
        Some q \<Rightarrow>
          if \<not> iq_needs_recheck now q
          then verify_ips rest (if iq_reachable q then bad_count else bad_count + 1) tbl
          else let best = (case port_443 of Some l \<Rightarrow> Some l | None \<Rightarrow> port_80)
               in verify_ips rest (if best = None then bad_count + 1 else bad_count) (record_ip_quality now ip best tbl)
      | None \<Rightarrow>
          let best = (case port_443 of Some l \<Rightarrow> Some l | None \<Rightarrow> port_80)
          in verify_ips rest (if best = None then bad_count + 1 else bad_count) (record_ip_quality now ip best tbl))"

definition spawn_ip_verification ::
  "(ip_addr \<times> nat \<times> u64 option \<times> u64 option) list \<Rightarrow> string \<Rightarrow> quality_table \<times> penalties \<Rightarrow> quality_table \<times> penalties" where
  "spawn_ip_verification ips upstream = (\<lambda>(tbl, ps).
     if ips = [] \<or> 10 < length ips then (tbl, ps)
     else let (bad_count, tbl) = verify_ips ips 0 tbl
          in (tbl, if 0 < bad_count then penalize_upstream_for_bad_ip upstream bad_count ps else ps))"

definition cleanup_ip_quality_cache :: "nat \<Rightarrow> quality_table \<Rightarrow> quality_table" where
  "cleanup_ip_quality_cache now tbl =
     (\<lambda>ip. case tbl ip of Some q \<Rightarrow> if now - iq_check q < from_secs 3600 then Some q else None | None \<Rightarrow> None)"

section \<open>Client subnet\<close>

record ecs_config =
  ec_enabled :: bool
  ec_public_ip :: "ip_addr option"
  ec_v4_prefix :: u8
  ec_v6_prefix :: u8

definition ecs_default :: ecs_config where
  "ecs_default = \<lparr>ec_enabled = False, ec_public_ip = None, ec_v4_prefix = 24, ec_v6_prefix = 56\<rparr>"

fun is_private_ip :: "ip_addr \<Rightarrow> bool" where
  "is_private_ip (V4 a) \<longleftrightarrow>
     (let os = map unat (v4_octets a) in
      os ! 0 = 10 \<or> (os ! 0 = 172 \<and> 16 \<le> os ! 1 \<and> os ! 1 \<le> 31) \<or> (os ! 0 = 192 \<and> os ! 1 = 168) \<or> os ! 0 = 127)"
| "is_private_ip (V6 a) \<longleftrightarrow>
     (let seg = ucast (drop_bit 112 a) :: u16 in
      is_loopback (V6 a) \<or> seg AND 0xffc0 = 0xfe80 \<or> seg AND 0xfe00 = 0xfc00)"

definition get_ecs_client_ip :: "ecs_config \<Rightarrow> ip_addr \<Rightarrow> ip_addr option" where
  "get_ecs_client_ip config client_ip =
     (if \<not> ec_enabled config then None
      else if is_private_ip client_ip then ec_public_ip config else Some client_ip)"

fun get_ecs_prefix_length :: "ecs_config \<Rightarrow> ip_addr \<Rightarrow> u8" where
  "get_ecs_prefix_length config (V4 _) = ec_v4_prefix config"
| "get_ecs_prefix_length config (V6 _) = ec_v6_prefix config"

text \<open>The option data; the sum that rounds the prefix up to octets wraps at 256.\<close>

fun build_ecs_option :: "ip_addr \<Rightarrow> u8 \<Rightarrow> bytes" where
  "build_ecs_option (V4 a) source_prefix_len =
     [0, 1, source_prefix_len, 0] @ take (min (unat ((source_prefix_len + 7) div 8)) 4) (v4_octets a)"
| "build_ecs_option (V6 a) source_prefix_len =
     [0, 2, source_prefix_len, 0] @ take (min (unat ((source_prefix_len + 7) div 8)) 16) (v6_octets a)"

section \<open>Bandit statistics\<close>

record bandit =
  bd_alpha :: real
  bd_beta :: real
  bd_latency :: real
  bd_queries :: nat
  bd_update :: nat

definition bandit_new :: "nat \<Rightarrow> bandit" where
  "bandit_new now = \<lparr>bd_alpha = 1, bd_beta = 1, bd_latency = 0, bd_queries = 0, bd_update = now\<rparr>"

definition bandit_decay :: "bandit \<Rightarrow> bandit" where
  "bandit_decay b = b\<lparr>bd_alpha := max (bd_alpha b * 0.5) 1, bd_beta := max (bd_beta b * 0.5) 1,
                      bd_latency := bd_latency b * 0.5\<rparr>"

definition bandit_success :: "nat \<Rightarrow> u64 \<Rightarrow> bandit \<Rightarrow> bandit" where
  "bandit_success now latency_ms b =
     (let b = b\<lparr>bd_alpha := bd_alpha b + 1, bd_latency := bd_latency b + real (unat latency_ms),
                bd_queries := bd_queries b + 1, bd_update := now\<rparr>
      in if 1000 < bd_alpha b + bd_beta b then bandit_decay b else b)"

definition bandit_failure :: "nat \<Rightarrow> bandit \<Rightarrow> bandit" where
  "bandit_failure now b =
     (let b = b\<lparr>bd_beta := bd_beta b + 1, bd_queries := bd_queries b + 1, bd_update := now\<rparr>
      in if 1000 < bd_alpha b + bd_beta b then bandit_decay b else b)"

definition bandit_success_rate :: "bandit \<Rightarrow> real" where
  "bandit_success_rate b = bd_alpha b / (bd_alpha b + bd_beta b)"

definition bandit_avg_latency :: "bandit \<Rightarrow> real" where
  "bandit_avg_latency b = (if 0 < bd_queries b then bd_latency b / real (bd_queries b) else 50)"

type_synonym bandits = "string \<rightharpoonup> bandit"

definition bandit_record_success :: "nat \<Rightarrow> string \<Rightarrow> u64 \<Rightarrow> bandits \<Rightarrow> bandits" where
  "bandit_record_success now upstream latency_ms bs =
     bs(upstream \<mapsto> bandit_success now latency_ms (case bs upstream of Some b \<Rightarrow> b | None \<Rightarrow> bandit_new now))"

definition bandit_record_failure :: "nat \<Rightarrow> string \<Rightarrow> bandits \<Rightarrow> bandits" where
  "bandit_record_failure now upstream bs =
     bs(upstream \<mapsto> bandit_failure now (case bs upstream of Some b \<Rightarrow> b | None \<Rightarrow> bandit_new now))"

text \<open>The share of choices left to the bandit after \<open>count\<close> choices.\<close>

definition explore_rate :: "nat \<Rightarrow> real" where
  "explore_rate count = 0.30 * max (exp (- (real count) / 10000)) 0.05"

section \<open>Who is blocked\<close>

text \<open>The answers of the guard to the queries of one client, after its first.\<close>

fun cs_run :: "(nat \<times> bool) list \<Rightarrow> client_stats \<Rightarrow> bool list" where
  "cs_run [] s = []"
| "cs_run ((now, nx) # qs) s = (let (b, s) = cs_query now nx s in b # cs_run qs s)"

text \<open>Instants that follow each other, starting from \<open>t\<close>, at least \<open>gap\<close> apart.\<close>

fun spaced :: "nat \<Rightarrow> nat \<Rightarrow> nat list \<Rightarrow> bool" where
  "spaced gap t [] \<longleftrightarrow> True"
| "spaced gap t (u # us) \<longleftrightarrow> t + gap \<le> u \<and> spaced gap u us"

fun gaps_within :: "nat \<Rightarrow> nat \<Rightarrow> nat list \<Rightarrow> bool" where
  "gaps_within gap t [] \<longleftrightarrow> True"
| "gaps_within gap t (u # us) \<longleftrightarrow> u - t \<le> gap \<and> gaps_within gap u us"

definition slow_gap :: nat where
  "slow_gap = from_millis 106"

text \<open>The statistics of a client that keeps the distance.\<close>

definition slow_ok :: "client_stats \<Rightarrow> bool" where
  "slow_ok s \<longleftrightarrow> \<not> cs_blocked s \<and> cs_suspicion s = 0 \<and> cs_nx s \<le> cs_total s \<and> cs_start s \<le> cs_last s
     \<and> (cs_total s - 1) * slow_gap \<le> cs_last s - cs_start s"

lemma slow_rate:
  assumes "20 \<le> n" and "(n - 1) * slow_gap \<le> d"
  shows "real n / secs_f64 d \<le> 10"
proof -
  have "real ((n - 1) * slow_gap) \<le> real d" using assms(2) by (simp only: of_nat_le_iff)
  then have "(real n - 1) * 106000000 \<le> real d"
    using assms(1) by (simp add: slow_gap_def from_millis_def of_nat_diff)
  moreover have "real n * 100000000 \<le> (real n - 1) * 106000000" using assms(1) by (simp add: algebra_simps)
  moreover have "0 < real n" using assms(1) by simp
  ultimately show ?thesis by (simp add: secs_f64_def divide_le_eq field_simps)
qed

lemma slow_evaluate:
  assumes "slow_ok s" and "20 \<le> cs_total s" and "cs_last s = now"
  shows "\<not> fst (cs_evaluate now s) \<and> slow_ok (snd (cs_evaluate now s)) \<and> cs_last (snd (cs_evaluate now s)) = now"
proof -
  have r: "\<not> 10 < real (cs_total s) / secs_f64 (now - cs_start s)"
    using slow_rate [OF assms(2), of "now - cs_start s"] assms(1,3) by (simp add: slow_ok_def)
  then have "\<not> 100 < real (cs_total s) / secs_f64 (now - cs_start s)" by linarith
  with r assms show ?thesis by (simp add: cs_evaluate_def slow_ok_def Let_def)
qed

lemma slow_query:
  assumes "slow_ok s" and "cs_last s + slow_gap \<le> now"
  shows "\<not> fst (cs_query now nx s) \<and> slow_ok (snd (cs_query now nx s)) \<and> cs_last (snd (cs_query now nx s)) = now"
proof -
  let ?s = "s\<lparr>cs_total := cs_total s + 1, cs_nx := (if nx then cs_nx s + 1 else cs_nx s), cs_last := now\<rparr>"
  have n: "\<not> cs_blocked s" using assms(1) by (simp add: slow_ok_def)
  have "cs_total s * slow_gap \<le> now - cs_start s"
  proof (cases "cs_total s")
    case (Suc n)
    with assms have "n * slow_gap \<le> cs_last s - cs_start s" "cs_start s \<le> cs_last s" by (simp_all add: slow_ok_def)
    with Suc assms(2) show ?thesis by simp
  qed simp
  with assms have ok: "slow_ok ?s" by (simp add: slow_ok_def)
  have m: "k * 20 \<le> n" if "n mod (k * 20) = 0" "0 < n" for k n :: nat
    using that by (metis dvd_imp_le mod_0_imp_dvd)
  have "20 \<le> cs_total ?s" if "cs_total ?s mod 50 = 0 \<or> (nx \<and> cs_nx ?s mod 20 = 0)"
    using that
  proof
    assume "cs_total ?s mod 50 = 0"
    then have "50 dvd cs_total ?s" by (simp add: mod_eq_0_iff_dvd)
    then have "50 \<le> cs_total ?s" by (rule dvd_imp_le) simp
    then show ?thesis by simp
  next
    assume a: "nx \<and> cs_nx ?s mod 20 = 0"
    then have "20 dvd cs_nx s + 1" by (cases nx) (simp_all add: mod_eq_0_iff_dvd)
    then have "20 \<le> cs_nx s + 1" by (rule dvd_imp_le) simp
    also have "\<dots> = cs_nx ?s" using a by simp
    also have "\<dots> \<le> cs_total ?s" using ok by (simp add: slow_ok_def)
    finally show ?thesis .
  qed
  with slow_evaluate [OF ok] ok n show ?thesis by (simp add: cs_query_def Let_def)
qed

text \<open>A client whose queries and NXDOMAIN answers are at least 106 ms apart, that is less than
  ten a second, is never blocked, however long it goes on and whatever is answered.\<close>

lemma slow_clients_pass:
  assumes "spaced slow_gap t0 (map fst qs)"
  shows "\<forall>b \<in> set (cs_run qs (cs_new t0 nx)). \<not> b"
proof -
  have run: "slow_ok s \<Longrightarrow> spaced slow_gap (cs_last s) (map fst qs) \<Longrightarrow> \<forall>b \<in> set (cs_run qs s). \<not> b" for s
  proof (induction qs arbitrary: s)
    case (Cons q qs)
    obtain now nx where q: "q = (now, nx)" by (cases q)
    from Cons.prems q slow_query [of s now nx] Cons.IH [of "snd (cs_query now nx s)"]
    show ?case by (auto simp: split_beta Let_def)
  qed simp
  have "slow_ok (cs_new t0 nx)" "cs_last (cs_new t0 nx) = t0" by (simp_all add: slow_ok_def cs_new_def)
  with run [of "cs_new t0 nx"] assms show ?thesis by simp
qed

theorem slow_clients_pass_witness:
  "True \<notin> set (cs_run [(from_secs 1, True), (from_secs 2, True), (from_secs 3, False)] (cs_new 0 True))"
proof -
  let ?qs = "[(from_secs 1, True), (from_secs 2, True), (from_secs 3, False)]"
  have "spaced slow_gap 0 (map fst ?qs)"
    by (simp add: slow_gap_def from_secs_def from_millis_def)
  from slow_clients_pass [OF this, of True] have none: "x \<in> set (cs_run ?qs (cs_new 0 True)) \<Longrightarrow> \<not> x" for x
    by (rule bspec)
  show ?thesis by (rule notI) (drule none, simp)
qed

text \<open>A block does not end after five minutes while the client keeps asking: each query of a
  blocked client starts the five minutes again, so as long as no pause exceeds them every
  query is refused.\<close>

theorem block_extends:
  assumes "cs_blocked s" and "gaps_within (from_secs 300) (cs_last s) (map fst qs)"
  shows "\<forall>b \<in> set (cs_run qs s). b"
  using assms
proof (induction qs arbitrary: s)
  case (Cons q qs)
  obtain now nx where q: "q = (now, nx)" by (cases q)
  from Cons.prems q have "cs_query now nx s = (True, s\<lparr>cs_last := now\<rparr>)" by (simp add: cs_query_def)
  with Cons.prems q Cons.IH [of "s\<lparr>cs_last := now\<rparr>"] show ?case by simp
qed simp

theorem block_extends_witness:
  "\<forall>b \<in> set (cs_run [(from_secs 200, False), (from_secs 400, False), (from_secs 600, False)]
       ((cs_new 0 False)\<lparr>cs_blocked := True\<rparr>)). b"
  by (rule block_extends) (simp_all add: cs_new_def from_secs_def)

section \<open>Stable domains\<close>

text \<open>The reports of one domain: instant, addresses, TTL.\<close>

definition stability_run :: "string \<Rightarrow> (nat \<times> ip_addr list \<times> u32) list \<Rightarrow> stability_table" where
  "stability_run domain rs = fold (\<lambda>(now, ips, ttl). analyze_domain_stability now domain ips ttl) rs Map.empty"

lemma stability_run_simps [simp]:
  "stability_run d [] = Map.empty"
  "stability_run d (rs @ [(now, ips, ttl)]) = analyze_domain_stability now d ips ttl (stability_run d rs)"
  by (simp_all add: stability_run_def)

definition stable_block :: "(nat \<times> ip_addr list \<times> u32) list \<Rightarrow> ip_addr list \<Rightarrow> bool" where
  "stable_block block ips \<longleftrightarrow> block \<noteq> [] \<and> (\<forall>(_, ips', _) \<in> set block. sort ips' = ips)"

lemma stability_run_block:
  assumes "rs \<noteq> []"
  shows "\<exists>s before block. stability_run d rs (to_lower d) = Some s \<and> rs = before @ block
     \<and> stable_block block (st_ips s) \<and> st_change s = fst (hd block) \<and> unat (st_count s) < length block"
  using assms
proof (induction rs rule: rev_induct)
  case (snoc r rs)
  obtain now ips ttl where r: "r = (now, ips, ttl)" by (cases r)
  have run: "stability_run d (rs @ [r]) = analyze_domain_stability now d ips ttl (stability_run d rs)"
    by (simp add: r)
  have fresh: ?case if "\<exists>s. stability_run d (rs @ [r]) (to_lower d) = Some s
      \<and> st_ips s = sort ips \<and> st_change s = now \<and> st_count s = 0"
  proof -
    from that obtain s where "stability_run d (rs @ [r]) (to_lower d) = Some s" "st_ips s = sort ips"
      "st_change s = now" "st_count s = 0" by blast
    then show ?thesis by (intro exI [of _ s] exI [of _ rs] exI [of _ "[r]"]) (simp add: stable_block_def r)
  qed
  show ?case
  proof (cases "rs = []")
    case True
    with run have "stability_run d (rs @ [r]) = analyze_domain_stability now d ips ttl Map.empty" by simp
    then show ?thesis by (intro fresh) (simp add: analyze_domain_stability_def Let_def)
  next
    case False
    with snoc.IH obtain s before block where s: "stability_run d rs (to_lower d) = Some s"
      and b: "rs = before @ block" "stable_block block (st_ips s)" "st_change s = fst (hd block)"
        "unat (st_count s) < length block" by blast
    show ?thesis
    proof (cases "st_ips s = sort ips")
      case True
      let ?s = "the (stability_run d (rs @ [r]) (to_lower d))"
      have st: "stability_run d (rs @ [r]) (to_lower d) = Some ?s" "st_ips ?s = st_ips s" "st_change ?s = st_change s"
        "st_count ?s = (if st_count s = - 1 then - 1 else st_count s + 1)"
        using True s by (simp_all add: run analyze_domain_stability_def Let_def)
      have "unat (st_count ?s) < length (block @ [r])"
      proof (cases "st_count s = - 1")
        case False
        then have "st_count s + 1 \<noteq> 0" by (metis eq_neg_iff_add_eq_0)
        then have "unat (st_count s + 1) = unat (st_count s) + 1" by (simp add: unatSuc add.commute)
        with False b(4) st(4) show ?thesis by simp
      qed (use b(4) st(4) in simp)
      with st b True show ?thesis
        by (intro exI [of _ ?s] exI [of _ before] exI [of _ "block @ [r]"])
           (auto simp: stable_block_def r hd_append)
    next
      case False
      then show ?thesis using s by (intro fresh) (simp add: run analyze_domain_stability_def Let_def)
    qed
  qed
qed simp

text \<open>The TTL of a domain is only raised, to 600 or 3600 seconds, and only when at least its
  last six answers had the same addresses, the first of them more than ten minutes ago.\<close>

lemma smart_ttl_stable:
  assumes "get_smart_ttl now d current_ttl (stability_run d rs) = Some t"
  shows "current_ttl < t \<and> t \<in> {600, 3600}
     \<and> (\<exists>before block ips. rs = before @ block \<and> 6 \<le> length block \<and> from_secs 600 < now - fst (hd block)
          \<and> (\<forall>(_, ips', _) \<in> set block. sort ips' = ips))"
proof -
  have "rs \<noteq> []" using assms by (auto simp: stability_run_def get_smart_ttl_def)
  from stability_run_block [OF this, of d] obtain s before block where s: "stability_run d rs (to_lower d) = Some s"
    and b: "rs = before @ block" "stable_block block (st_ips s)" "st_change s = fst (hd block)"
      "unat (st_count s) < length block" by blast
  from assms s have c: "5 \<le> st_count s" "from_secs 600 < now - st_change s" "current_ttl < t" "t \<in> {600, 3600}"
    by (auto simp: get_smart_ttl_def Let_def split: if_splits)
  from c(1) have "5 \<le> unat (st_count s)" by (simp add: word_le_nat_alt)
  with b(4) have "6 \<le> length block" by simp
  with b c show ?thesis unfolding stable_block_def by metis
qed

lemma stability_run_replicate:
  "n < 2 ^ 32 - 1 \<Longrightarrow> \<exists>s. stability_run d (replicate (Suc n) (t, ips, ttl)) (to_lower d) = Some s
     \<and> st_ips s = sort ips \<and> st_change s = t \<and> unat (st_count s) = n"
proof (induction n)
  case 0
  show ?case by (simp add: stability_run_def analyze_domain_stability_def Let_def)
next
  case (Suc n)
  then obtain s where s: "stability_run d (replicate (Suc n) (t, ips, ttl)) (to_lower d) = Some s"
    "st_ips s = sort ips" "st_change s = t" "unat (st_count s) = n" by auto
  have "replicate (Suc (Suc n)) (t, ips, ttl) = replicate (Suc n) (t, ips, ttl) @ [(t, ips, ttl)]"
    by (metis replicate_Suc replicate_append_same)
  then have run: "stability_run d (replicate (Suc (Suc n)) (t, ips, ttl))
      = analyze_domain_stability t d ips ttl (stability_run d (replicate (Suc n) (t, ips, ttl)))"
    by (simp only: stability_run_simps)
  have m: "unat (- 1 :: u32) = 2 ^ 32 - 1" by (simp add: unsigned_minus_1_eq_mask mask_eq_exp_minus_1)
  then have "st_count s \<noteq> - 1" using s(4) Suc.prems by auto
  moreover from this have "unat (st_count s + 1) = Suc n"
    using s(4) by (metis add.commute eq_neg_iff_add_eq_0 unatSuc)
  ultimately show ?case using s by (simp add: run analyze_domain_stability_def Let_def del: replicate.simps)
qed

theorem smart_ttl_stable_witness:
  "\<exists>before block. replicate 6 (0, [V4 1, V4 2], 60 :: u32) = before @ block \<and> 6 \<le> length block
     \<and> from_secs 600 < from_secs 601 - fst (hd block)"
proof -
  from stability_run_replicate [of 5 "''a.''" 0 "[V4 1, V4 2]" 60]
  obtain s where s: "stability_run ''a.'' (replicate 6 (0, [V4 1, V4 2], 60)) (to_lower ''a.'') = Some s"
    "st_change s = 0" "unat (st_count s) = 5" by auto
  then have "st_count s = 5" by (intro word_unat_eq_iff [THEN iffD2]) simp
  with s have "get_smart_ttl (from_secs 601) ''a.'' 60 (stability_run ''a.'' (replicate 6 (0, [V4 1, V4 2], 60))) = Some 600"
    by (simp add: get_smart_ttl_def from_secs_def Let_def)
  from smart_ttl_stable [OF this] show ?thesis by blast
qed

section \<open>Quality of addresses\<close>

definition iq_run :: "(nat \<times> u64 option) list \<Rightarrow> nat \<Rightarrow> ip_quality" where
  "iq_run outcomes t0 = fold (\<lambda>(now, outcome). iq_record now outcome) outcomes (iq_new t0)"

lemma iq_fails_run: "iq_fails (iq_run outcomes t0) = length (filter (\<lambda>(_, outcome). outcome = None) outcomes)"
  by (induction outcomes rule: rev_induct)
     (auto simp: iq_run_def iq_new_def iq_record_def iq_success_def iq_failure_def Let_def split: option.split)

text \<open>Failures are never forgotten: the third one makes an address unreachable, however many
  successful checks lie between them.\<close>

lemma third_failure_unreachable:
  assumes "2 \<le> length (filter (\<lambda>(_, outcome). outcome = None) outcomes)"
  shows "\<not> iq_reachable (iq_run (outcomes @ [(now, None)]) t0)"
  using assms iq_fails_run [of outcomes t0] by (simp add: iq_run_def iq_record_def iq_failure_def Let_def)

lemma penalty_bounded:
  assumes "\<forall>(k, v) \<in> set ps. v \<le> 100" and "n \<le> 10"
  shows "\<forall>(k, v) \<in> set (penalize_upstream_for_bad_ip u n ps). v \<le> 100"
proof -
  have "set (AList.update u v ps) \<subseteq> insert (u, v) (set ps)" for v by (induction ps) auto
  with assms show ?thesis by (fastforce simp: penalize_upstream_for_bad_ip_def split: option.split)
qed

section \<open>The exploration rate\<close>

text \<open>The floor of 0.05 is taken before the factor of 0.30, so the rate sinks to 0.015.\<close>

lemma explore_rate_floor:
  assumes "40000 \<le> n"
  shows "explore_rate n = 0.015"
proof -
  have "1.5 ^ 8 \<le> exp (0.5 :: real) ^ 8"
    using exp_ge_add_one_self [of "0.5 :: real"] by (intro power_mono) simp_all
  also have "\<dots> = exp 4" by (simp add: exp_of_nat_mult [symmetric])
  finally have "20 \<le> exp (4 :: real)" by (simp add: power_divide)
  then have "exp (- 4 :: real) \<le> 0.05" by (simp add: exp_minus field_simps)
  moreover have "exp (- (real n) / 10000) \<le> exp (- 4)" using assms by simp
  ultimately have "exp (- (real n) / 10000) \<le> 0.05" by (rule order_trans [rotated])
  then show ?thesis unfolding explore_rate_def by (simp only: max_absorb2) simp
qed

end
