(* ===== verification/Autopilot.thy ===== *)
theory Autopilot
  imports Autopilot_Learning Autopilot_Guard
begin

text \<open>
  \<open>src/autopilot.rs\<close>: the process-wide statics as one state, and the operations that
  touch several of them.  The parts are those of \<open>Autopilot_Health\<close>,
  \<open>Autopilot_Learning\<close> and \<open>Autopilot_Guard\<close>.
\<close>

record autopilot =
  ap_health :: health
  ap_bandits :: bandits
  ap_learning :: learning
  ap_sequences :: sequences
  ap_difficulty :: difficulties
  ap_hot :: hot_domains
  ap_patterns :: time_patterns
  ap_clients :: client_table
  ap_stability :: stability_table
  ap_quality :: quality_table
  ap_penalties :: penalties
  ap_qps :: qps_tracker
  ap_ecs :: ecs_config

definition autopilot_new :: "nat \<Rightarrow> autopilot" where
  "autopilot_new now =
     \<lparr>ap_health = health_new now, ap_bandits = (\<lambda>_. None), ap_learning = learning_new,
      ap_sequences = \<lparr>sq_follows = [], sq_last = None, sq_counter = 0\<rparr>, ap_difficulty = [],
      ap_hot = \<lparr>hd_domains = [], hd_last_prefetch = now - from_secs 120\<rparr>, ap_patterns = [],
      ap_clients = (\<lambda>_. None), ap_stability = (\<lambda>_. None), ap_quality = (\<lambda>_. None),
      ap_penalties = [], ap_qps = qps_new now, ap_ecs = ecs_default\<rparr>"

text \<open>The calendar: the Unix time in seconds and the hour of the day at an instant.\<close>

record calendar =
  cal_unix :: "nat \<Rightarrow> nat"
  cal_hour :: "nat \<Rightarrow> nat"

section \<open>Outcomes of exchanges\<close>

definition ap_success :: "nat \<Rightarrow> string \<Rightarrow> u64 \<Rightarrow> autopilot \<Rightarrow> autopilot" where
  "ap_success now label latency_ms a =
     a\<lparr>ap_health := record_success now label latency_ms (ap_health a),
       ap_bandits := bandit_record_success now label latency_ms (ap_bandits a)\<rparr>"

definition ap_failure :: "nat \<Rightarrow> string \<Rightarrow> autopilot \<Rightarrow> autopilot" where
  "ap_failure now label a =
     a\<lparr>ap_health := record_failure now label (ap_health a),
       ap_bandits := bandit_record_failure now label (ap_bandits a)\<rparr>"

definition ap_register :: "nat \<Rightarrow> string \<Rightarrow> autopilot \<Rightarrow> autopilot" where
  "ap_register now label a = a\<lparr>ap_health := register_upstream now label (ap_health a)\<rparr>"

section \<open>What is learned from queries and answers\<close>

definition ap_result ::
  "nat \<Rightarrow> string \<Rightarrow> string \<Rightarrow> u64 \<Rightarrow> ip_addr option \<Rightarrow> autopilot \<Rightarrow> autopilot" where
  "ap_result now domain_lower label elapsed_ms client_ip a =
     a\<lparr>ap_learning :=
         (case client_ip of
            Some ip \<Rightarrow> record_domain_result_for_client_lower True (avg_qps 30 (ap_qps a)) now domain_lower label
                         elapsed_ms ip (ap_learning a)
          | None \<Rightarrow> record_domain_result_lower True (avg_qps 30 (ap_qps a)) now domain_lower label
                         elapsed_ms (ap_learning a))\<rparr>"

definition ap_best_upstream :: "nat \<Rightarrow> string \<Rightarrow> ip_addr option \<Rightarrow> autopilot \<Rightarrow> string option \<times> autopilot" where
  "ap_best_upstream now domain_lower client_ip a =
     (let (best, l) = (case client_ip of
            Some ip \<Rightarrow> get_domain_best_upstream_for_client_lower now domain_lower ip (ap_learning a)
          | None \<Rightarrow> get_domain_best_upstream_lower now domain_lower (ap_learning a))
      in (best, a\<lparr>ap_learning := l\<rparr>))"

definition ap_query :: "calendar \<Rightarrow> nat \<Rightarrow> string \<Rightarrow> autopilot \<Rightarrow> autopilot" where
  "ap_query C now domain_lower a =
     a\<lparr>ap_hot := hd_record_access now (cal_unix C now) domain_lower (ap_hot a),
       ap_patterns := record_timed_access_lower (cal_hour C now) domain_lower (ap_patterns a)\<rparr>"

definition ap_sequence :: "nat \<Rightarrow> string \<Rightarrow> autopilot \<Rightarrow> autopilot" where
  "ap_sequence now domain_lower a =
     a\<lparr>ap_sequences := record_query_sequence_lower now domain_lower (ap_sequences a)\<rparr>"

definition ap_attempt :: "nat \<Rightarrow> string \<Rightarrow> bool \<Rightarrow> nat \<Rightarrow> autopilot \<Rightarrow> autopilot" where
  "ap_attempt now domain success attempts a =
     a\<lparr>ap_difficulty := record_domain_attempt now domain success attempts (ap_difficulty a)\<rparr>"

section \<open>Rankings\<close>

definition ap_ranked :: "nat \<Rightarrow> network_scope \<Rightarrow> autopilot \<Rightarrow> string list \<times> autopilot" where
  "ap_ranked now scope a =
     (let (ranks, h) = get_ranked_upstreams_cached now scope (ap_health a) in (ranks, a\<lparr>ap_health := h\<rparr>))"

section \<open>Guards\<close>

definition ap_client :: "nat \<Rightarrow> ip_addr \<Rightarrow> bool \<Rightarrow> autopilot \<Rightarrow> bool \<times> autopilot" where
  "ap_client now client_ip is_nxdomain a =
     (let (blocked, tbl) = analyze_client_behavior now client_ip is_nxdomain (ap_clients a)
      in (blocked, a\<lparr>ap_clients := tbl\<rparr>))"

definition ap_stable :: "nat \<Rightarrow> string \<Rightarrow> ip_addr list \<Rightarrow> u32 \<Rightarrow> autopilot \<Rightarrow> autopilot" where
  "ap_stable now domain ips ttl a =
     a\<lparr>ap_stability := analyze_domain_stability now domain ips ttl (ap_stability a)\<rparr>"

definition ap_verified ::
  "(ip_addr \<times> nat \<times> u64 option \<times> u64 option) list \<Rightarrow> string \<Rightarrow> autopilot \<Rightarrow> autopilot" where
  "ap_verified ips upstream a =
     (let (tbl, ps) = spawn_ip_verification ips upstream (ap_quality a, ap_penalties a)
      in a\<lparr>ap_quality := tbl, ap_penalties := ps\<rparr>)"

end
