(* ===== verification/Forward_Race.thy ===== *)
theory Forward_Race
  imports Upstreams Autopilot "HOL-Library.Multiset"
begin

text \<open>
  How \<open>src/plugins/forward.rs\<close> asks several upstreams: the exchange under its
  timeout, one upstream after the other, and the race of which several copies
  exist (\<open>execute_race\<close>, the \<open>race\<close> strategy, \<open>execute_parallel_dual\<close>,
  \<open>execute_graduated_race\<close>).

  The network is the parameter \<open>net_env\<close>: what happens during an exchange that
  starts at an instant and how long it takes, and in which order the tasks of a
  race end.  The instants are nanoseconds of one clock.
\<close>

section \<open>Exchanges\<close>

datatype attempt = Answered message nat | Failed | Timed_Out | Task_Panicked

text \<open>The instant a task ends, its upstream, and how.\<close>

type_synonym completion = "nat \<times> string \<times> attempt"

record net_env =
  ne_lib :: dns_lib
  ne_exchange :: "nat \<Rightarrow> upstream \<Rightarrow> bytes \<Rightarrow> exchange_env \<times> nat"
  ne_ends :: "nat \<Rightarrow> completion list \<Rightarrow> completion list"
  ne_calendar :: calendar

text \<open>The order in which tasks end is an order of the tasks that were started.\<close>

definition net_ends_ok :: "net_env \<Rightarrow> bool" where
  "net_ends_ok N \<longleftrightarrow> (\<forall>now cs. mset (ne_ends N now cs) = mset cs)"

text \<open>\<open>timeout(t, upstream.exchange_bytes(req))\<close>, started \<open>now\<close>; \<open>base\<close> is the timeout of the
  plugin, which an upstream may override.\<close>

definition ask :: "net_env \<Rightarrow> nat \<Rightarrow> bytes \<Rightarrow> nat \<Rightarrow> upstream \<Rightarrow> completion" where
  "ask N base req_bytes now u =
     (let (X, elapsed) = ne_exchange N now u req_bytes; t = effective_timeout base u
      in case with_timeout (Some t) (exchange_result (ne_lib N) X u, elapsed) of
           Elapsed \<Rightarrow> (now + t, get_label u, Timed_Out)
         | In_Time (Inr msg) \<Rightarrow> (now + elapsed, get_label u, Answered msg elapsed)
         | In_Time (Inl (Error e)) \<Rightarrow> (now + elapsed, get_label u, Failed)
         | In_Time (Inl Panic) \<Rightarrow> (now + elapsed, get_label u, Task_Panicked))"

text \<open>What the end of an exchange leaves in the autopilot: \<open>exchange_bytes\<close> records its outcome,
  the caller of a timeout records a failure.\<close>

definition settle :: "completion \<Rightarrow> autopilot \<Rightarrow> autopilot" where
  "settle c a =
     (case c of (now, label, how) \<Rightarrow>
        case how of
          Answered msg elapsed \<Rightarrow> ap_success now label (word_of_nat (as_millis elapsed)) a
        | Failed \<Rightarrow> ap_failure now label a
        | Timed_Out \<Rightarrow> ap_failure now label a
        | Task_Panicked \<Rightarrow> a)"

section \<open>One after the other\<close>

text \<open>The strategy \<open>order\<close>.  The results are the answer, the instant, the autopilot.\<close>

fun in_order :: "net_env \<Rightarrow> nat \<Rightarrow> bytes \<Rightarrow> upstream list \<Rightarrow> nat \<Rightarrow> autopilot \<Rightarrow> message result \<times> nat \<times> autopilot" where
  "in_order N base req_bytes [] now a = (Inl (Error ''All upstreams failed''), now, a)"
| "in_order N base req_bytes (u # us) now a =
     (let (now', label, how) = ask N base req_bytes now u; a = settle (now', label, how) a
      in case how of
           Answered resp elapsed \<Rightarrow> (Inr resp, now', a)
         | Task_Panicked \<Rightarrow> (Inl Panic, now', a)
         | _ \<Rightarrow> in_order N base req_bytes us now' a)"

section \<open>The race\<close>

definition response_has_ip :: "message \<Rightarrow> bool" where
  "response_has_ip resp \<longleftrightarrow> (\<exists>r \<in> set (m_answers resp @ m_additionals resp). rr_type r \<in> {T_A, T_AAAA})"

definition response_is_definitive :: "message \<Rightarrow> bool" where
  "response_is_definitive resp \<longleftrightarrow> m_rcode resp \<in> {NoError, NXDomain}"

text \<open>The loop over the tasks as they end.  \<open>on_answer\<close> is what a copy does with an answer beyond
  keeping it: its arguments are the instant, the number of tasks that have ended, the
  upstream and the time it took.  The tasks that are left when an answer with an address
  arrives are aborted.\<close>

fun race_loop ::
  "(nat \<Rightarrow> nat \<Rightarrow> string \<Rightarrow> nat \<Rightarrow> autopilot \<Rightarrow> autopilot) \<Rightarrow> nat \<Rightarrow> message option \<Rightarrow> message option
     \<Rightarrow> completion list \<Rightarrow> nat \<Rightarrow> autopilot \<Rightarrow> message option \<times> nat \<times> autopilot" where
  "race_loop on_answer attempts best_definitive best_other [] now a =
     (case best_definitive of Some resp \<Rightarrow> Some resp | None \<Rightarrow> best_other, now, a)"
| "race_loop on_answer attempts best_definitive best_other ((now, label, how) # cs) _ a =
     (let a = settle (now, label, how) a; attempts = attempts + 1 in
      case how of
        Answered resp elapsed \<Rightarrow>
          (let a = on_answer now attempts label elapsed a in
           if response_has_ip resp then (Some resp, now, a)
           else if response_is_definitive resp
           then race_loop on_answer attempts (case best_definitive of None \<Rightarrow> Some resp | Some _ \<Rightarrow> best_definitive)
                  best_other cs now a
           else race_loop on_answer attempts best_definitive
                  (case best_other of None \<Rightarrow> Some resp | Some _ \<Rightarrow> best_other) cs now a)
      | _ \<Rightarrow> race_loop on_answer attempts best_definitive best_other cs now a)"

definition no_learning :: "nat \<Rightarrow> nat \<Rightarrow> string \<Rightarrow> nat \<Rightarrow> autopilot \<Rightarrow> autopilot" where
  "no_learning now attempts label elapsed a = a"

text \<open>All the upstreams at once; \<open>err\<close> is the error of the copy.\<close>

definition race ::
  "(nat \<Rightarrow> nat \<Rightarrow> string \<Rightarrow> nat \<Rightarrow> autopilot \<Rightarrow> autopilot) \<Rightarrow> string \<Rightarrow> net_env \<Rightarrow> nat \<Rightarrow> bytes \<Rightarrow> upstream list
     \<Rightarrow> nat \<Rightarrow> autopilot \<Rightarrow> message result \<times> nat \<times> autopilot" where
  "race on_answer err N base req_bytes us now a =
     (let (won, now, a) = race_loop on_answer 0 None None (ne_ends N now (map (ask N base req_bytes now) us)) now a
      in (case won of Some resp \<Rightarrow> Inr resp | None \<Rightarrow> Inl (Error err), now, a))"

section \<open>Who wins\<close>

text \<open>The contract of the race: of the answers in the order of their arrival, the first with an
  address, else the first with a definitive code, else the first.\<close>

definition best_reply :: "message list \<Rightarrow> message option" where
  "best_reply ms =
     (case find response_has_ip ms of
        Some m \<Rightarrow> Some m
      | None \<Rightarrow> (case find response_is_definitive ms of
                  Some m \<Rightarrow> Some m
                | None \<Rightarrow> (case ms of [] \<Rightarrow> None | m # _ \<Rightarrow> Some m)))"

fun reply_of :: "completion \<Rightarrow> message list" where
  "reply_of (now, label, Answered m elapsed) = [m]"
| "reply_of _ = []"

definition replies :: "completion list \<Rightarrow> message list" where
  "replies cs = concat (map reply_of cs)"

lemma replies_simps [simp]:
  "replies [] = []" "replies (c # cs) = reply_of c @ replies cs"
  by (simp_all add: replies_def)

text \<open>The two registers of the loop are the contract on what has arrived so far.\<close>

definition seen :: "message option \<Rightarrow> message option \<Rightarrow> message list \<Rightarrow> bool" where
  "seen best_definitive best_other ms \<longleftrightarrow> find response_has_ip ms = None
     \<and> best_definitive = find response_is_definitive ms
     \<and> best_other = find (\<lambda>m. \<not> response_is_definitive m) ms"

lemma find_append: "find P (xs @ ys) = (case find P xs of Some x \<Rightarrow> Some x | None \<Rightarrow> find P ys)"
  by (induction xs) auto

lemma find_neg: "find P ms = None \<Longrightarrow> find (\<lambda>m. \<not> P m) ms = (case ms of [] \<Rightarrow> None | m # _ \<Rightarrow> Some m)"
  by (cases ms) (auto split: if_splits)

lemma seen_final:
  assumes "seen best_definitive best_other ms"
  shows "(case best_definitive of Some resp \<Rightarrow> Some resp | None \<Rightarrow> best_other) = best_reply ms"
  using assms find_neg [of response_is_definitive ms]
  by (auto simp: seen_def best_reply_def split: option.split)

lemma seen_start: "seen None None []"
  by (simp add: seen_def)

lemma seen_next:
  assumes "seen best_definitive best_other ms" and "\<not> response_has_ip resp"
  shows "response_is_definitive resp \<Longrightarrow>
      seen (case best_definitive of None \<Rightarrow> Some resp | Some _ \<Rightarrow> best_definitive) best_other (ms @ [resp])"
    and "\<not> response_is_definitive resp \<Longrightarrow>
      seen best_definitive (case best_other of None \<Rightarrow> Some resp | Some _ \<Rightarrow> best_other) (ms @ [resp])"
  using assms by (auto simp: seen_def find_append split: option.splits)

lemma best_reply_ip: "find response_has_ip ms = None \<Longrightarrow> response_has_ip m \<Longrightarrow> best_reply (ms @ m # ms') = Some m"
  by (simp add: best_reply_def find_append)

lemma race_loop_best:
  "seen best_definitive best_other ms \<Longrightarrow>
     fst (race_loop on_answer k best_definitive best_other cs now a) = best_reply (ms @ replies cs)"
proof (induction cs arbitrary: k best_definitive best_other ms now a)
  case Nil
  then show ?case by (simp add: seen_final)
next
  case (Cons c cs)
  obtain t label how where c: "c = (t, label, how)" by (cases c)
  show ?case
  proof (cases how)
    case (Answered resp elapsed)
    note step = Cons.IH [of _ _ "ms @ [resp]"] seen_next [OF Cons.prems]
    from Cons.prems have none: "find response_has_ip ms = None" by (simp add: seen_def)
    show ?thesis
      using step by (cases "response_has_ip resp"; cases "response_is_definitive resp")
        (simp_all add: c Answered Let_def best_reply_ip [OF none])
  qed (use Cons in \<open>simp_all add: c Let_def\<close>)
qed

lemma race_best:
  "fst (race on_answer err N base req us now a)
     = (case best_reply (replies (ne_ends N now (map (ask N base req now) us))) of
          Some resp \<Rightarrow> Inr resp | None \<Rightarrow> Inl (Error err))"
  using race_loop_best [OF seen_start, of on_answer 0 "ne_ends N now (map (ask N base req now) us)" now a]
  by (simp add: race_def split_beta)

lemma best_reply_None: "best_reply ms = None \<longleftrightarrow> ms = []"
  by (auto simp: best_reply_def find_None_iff split: option.splits list.splits)

lemma best_reply_in: "best_reply ms = Some m \<Longrightarrow> m \<in> set ms"
  by (auto simp: best_reply_def find_Some_iff split: option.splits list.splits)

section \<open>Where answers come from, and when\<close>

text \<open>An answer of one of the upstreams to the bytes that were sent.\<close>

definition answered_by :: "net_env \<Rightarrow> bytes \<Rightarrow> upstream list \<Rightarrow> message \<Rightarrow> bool" where
  "answered_by N req us msg \<longleftrightarrow>
     (\<exists>u \<in> set us. \<exists>now. exchange_result (ne_lib N) (fst (ne_exchange N now u req)) u = Inr msg)"

lemma answered_by_mono: "answered_by N req us msg \<Longrightarrow> set us \<subseteq> set us' \<Longrightarrow> answered_by N req us' msg"
  by (auto simp: answered_by_def)

lemma ask_end: "fst (ask N base req now u) \<le> now + effective_timeout base u"
  by (auto simp: ask_def with_timeout_def split_beta Let_def split: timed.split sum.split rust_error.split if_splits)

lemma ask_later: "now \<le> fst (ask N base req now u)"
  by (auto simp: ask_def split_beta Let_def split: timed.split sum.split rust_error.split)

lemma ask_label: "fst (snd (ask N base req now u)) = get_label u"
  by (auto simp: ask_def split_beta Let_def split: timed.split sum.split rust_error.split)

lemma ask_answered:
  assumes "ask N base req now u = (t, label, Answered msg d)"
  shows "exchange_result (ne_lib N) (fst (ne_exchange N now u req)) u = Inr msg"
  using assms by (auto simp: ask_def with_timeout_def split_beta Let_def
      split: timed.splits sum.splits rust_error.splits if_splits)

lemma ask_answered_by: "ask N base req now u = (t, label, Answered msg d) \<Longrightarrow> u \<in> set us \<Longrightarrow> answered_by N req us msg"
  unfolding answered_by_def using ask_answered by blast

lemma ask_no_panic: "snd (snd (ask N base req now u)) \<noteq> Task_Panicked"
  using exchange_no_panic [of "ne_lib N"]
  by (auto simp: ask_def with_timeout_def split_beta Let_def split: timed.splits sum.splits rust_error.splits if_splits)

lemma ask_cases:
  obtains t msg d where "ask N base req now u = (t, get_label u, Answered msg d)"
  | t where "ask N base req now u = (t, get_label u, Failed)"
  | t where "ask N base req now u = (t, get_label u, Timed_Out)"
  using ask_no_panic [of N base req now u] ask_label [of N base req now u]
  by (cases "ask N base req now u"; cases "snd (snd (ask N base req now u))") auto

lemma in_order_answered:
  "in_order N base req us now a = (Inr msg, t, a') \<Longrightarrow> answered_by N req us msg"
proof (induction us arbitrary: now a)
  case (Cons u us)
  show ?case
  proof (cases rule: ask_cases [of N base req now u])
    case (1 s m d)
    with Cons.prems have "m = msg" by (simp add: Let_def)
    with ask_answered_by [OF 1, of "u # us"] show ?thesis by simp
  next
    case (2 s)
    with Cons.prems have "answered_by N req us msg" by (auto simp: Let_def intro: Cons.IH)
    then show ?thesis by (rule answered_by_mono) auto
  next
    case (3 s)
    with Cons.prems have "answered_by N req us msg" by (auto simp: Let_def intro: Cons.IH)
    then show ?thesis by (rule answered_by_mono) auto
  qed
qed simp

lemma in_order_no_panic: "fst (in_order N base req us now a) \<noteq> Inl Panic"
proof (induction us arbitrary: now a)
  case (Cons u us)
  then show ?case by (cases rule: ask_cases [of N base req now u]) (auto simp: Let_def)
qed simp

text \<open>The first upstream that answers wins: the later ones are asked only when the earlier ones
  have failed, one after the other.\<close>

lemma in_order_append:
  "in_order N base req (us @ vs) now a =
     (case in_order N base req us now a of
        (Inr msg, t, a') \<Rightarrow> (Inr msg, t, a')
      | (Inl Panic, t, a') \<Rightarrow> (Inl Panic, t, a')
      | (Inl (Error e), t, a') \<Rightarrow> in_order N base req vs t a')"
proof (induction us arbitrary: now a)
  case (Cons u us)
  then show ?case by (cases rule: ask_cases [of N base req now u]) (simp_all add: Let_def)
qed simp

definition timeouts :: "nat \<Rightarrow> upstream list \<Rightarrow> nat" where
  "timeouts base us = sum_list (map (effective_timeout base) us)"

lemma timeouts_simps [simp]:
  "timeouts base [] = 0" "timeouts base (u # us) = effective_timeout base u + timeouts base us"
  by (simp_all add: timeouts_def)

lemma timeouts_member: "u \<in> set us \<Longrightarrow> effective_timeout base u \<le> timeouts base us"
  by (simp add: timeouts_def member_le_sum_list)

lemma in_order_end: "fst (snd (in_order N base req us now a)) \<le> now + timeouts base us"
proof (induction us arbitrary: now a)
  case (Cons u us)
  have e: "fst (ask N base req now u) \<le> now + effective_timeout base u" by (rule ask_end)
  obtain t l h where ask: "ask N base req now u = (t, l, h)" by (cases "ask N base req now u")
  with e have t: "t \<le> now + effective_timeout base u" by simp
  have "fst (snd (in_order N base req us t x)) \<le> now + (effective_timeout base u + timeouts base us)" for x
    using Cons.IH [of t x] t by linarith
  with t show ?case by (simp add: Let_def ask split: attempt.split)
qed simp

lemma race_loop_end:
  assumes "now \<le> b" and "\<forall>c \<in> set cs. fst c \<le> b"
  shows "fst (snd (race_loop f k bd bo cs now a)) \<le> b"
  using assms
proof (induction cs arbitrary: k bd bo now a)
  case (Cons c cs)
  obtain t l h where "c = (t, l, h)" by (cases c)
  with Cons show ?case by (auto simp: Let_def split: attempt.split)
qed simp

lemma race_answered:
  assumes "net_ends_ok N" and "race f err N base req us now a = (Inr msg, t, a')"
  shows "answered_by N req us msg"
proof -
  let ?cs = "map (ask N base req now) us"
  from assms(2) have "best_reply (replies (ne_ends N now ?cs)) = Some msg"
    using race_best [of f err N base req us now a] by (auto split: option.splits)
  then obtain c where c: "c \<in> set (ne_ends N now ?cs)" "msg \<in> set (reply_of c)"
    using best_reply_in by (fastforce simp: replies_def)
  from assms(1) have "set (ne_ends N now ?cs) = set ?cs"
    unfolding net_ends_ok_def by (metis set_mset_mset)
  with c obtain u where u: "u \<in> set us" "c = ask N base req now u" by auto
  with c show ?thesis
    by (cases rule: ask_cases [of N base req now u]) (auto dest: ask_answered_by)
qed

lemma race_no_panic: "fst (race f err N base req us now a) \<noteq> Inl Panic"
  by (simp add: race_best split: option.split)

lemma race_end:
  assumes "net_ends_ok N" and "\<forall>u \<in> set us. effective_timeout base u \<le> b"
  shows "fst (snd (race f err N base req us now a)) \<le> now + b"
proof -
  let ?cs = "map (ask N base req now) us"
  from assms(1) have "set (ne_ends N now ?cs) = set ?cs"
    unfolding net_ends_ok_def by (metis set_mset_mset)
  moreover have "fst (ask N base req now u) \<le> now + b" if "u \<in> set us" for u
    using ask_end [of N base req now u] assms(2) that by fastforce
  ultimately have "\<forall>c \<in> set (ne_ends N now ?cs). fst c \<le> now + b" by auto
  from race_loop_end [OF _ this] show ?thesis by (simp add: race_def split_beta)
qed

text \<open>A race that some upstream answers is won by an answer.\<close>

lemma race_succeeds:
  assumes "net_ends_ok N" and "u \<in> set us" and "ask N base req now u = (t, label, Answered msg d)"
  shows "\<exists>m. fst (race f err N base req us now a) = Inr m"
proof -
  let ?cs = "map (ask N base req now) us"
  from assms(1) have "set (ne_ends N now ?cs) = set ?cs"
    unfolding net_ends_ok_def by (metis set_mset_mset)
  with assms(2,3) have "(t, label, Answered msg d) \<in> set (ne_ends N now ?cs)" by force
  then have "msg \<in> set (replies (ne_ends N now ?cs))"
    unfolding replies_def by force
  then have "replies (ne_ends N now ?cs) \<noteq> []" by auto
  then show ?thesis by (auto simp: race_best best_reply_None split: option.split)
qed

end
