(* ===== verification/Adaptive_Pool.thy ===== *)
theory Adaptive_Pool
  imports Titan_Prelude Complex_Main
begin

text \<open>
  \<open>src/plugins/adaptive_pool.rs\<close>: the parameters of a connection pool chosen from
  the query rate.  \<open>forward\<close> counts its queries in one.
\<close>

record adaptive_pool =
  pl_query_count :: u64
  pl_last_adjust :: u64
  pl_pool_size :: nat
  pl_idle_timeout :: u64
  pl_adjust_interval :: u64

definition pool_with_interval :: "u64 \<Rightarrow> adaptive_pool" where
  "pool_with_interval adjust_interval =
     \<lparr>pl_query_count = 0, pl_last_adjust = 0, pl_pool_size = 10, pl_idle_timeout = 300,
      pl_adjust_interval = adjust_interval\<rparr>"

definition pool_new :: adaptive_pool where
  "pool_new = pool_with_interval 30"

definition pool_record_query :: "adaptive_pool \<Rightarrow> adaptive_pool" where
  "pool_record_query p = p\<lparr>pl_query_count := pl_query_count p + 1\<rparr>"

text \<open>\<open>Instant::now().duration_since(Instant::now())\<close>: the first reading of the clock is not later
  than the second, and the difference saturates at zero.\<close>

definition instants_apart :: "nat \<Rightarrow> nat \<Rightarrow> u64" where
  "instants_apart first second = word_of_nat (as_secs (first - second))"

definition should_adjust :: "nat \<Rightarrow> nat \<Rightarrow> adaptive_pool \<Rightarrow> bool" where
  "should_adjust first second p \<longleftrightarrow> pl_adjust_interval p \<le> sat_sub (instants_apart first second) (pl_last_adjust p)"

definition get_elapsed_seconds :: "nat \<Rightarrow> nat \<Rightarrow> adaptive_pool \<Rightarrow> u64" where
  "get_elapsed_seconds first second p = max (sat_sub (instants_apart first second) (pl_last_adjust p)) 1"

definition calculate_qps :: "nat \<Rightarrow> nat \<Rightarrow> adaptive_pool \<Rightarrow> real" where
  "calculate_qps first second p =
     (let elapsed = get_elapsed_seconds first second p
      in if 0 < elapsed then real (unat (pl_query_count p)) / real (unat elapsed) else 0)"

definition get_target_config :: "real \<Rightarrow> nat \<times> u64" where
  "get_target_config qps =
     (if qps < 1000 then (5, 180) else if qps < 3000 then (10, 300)
      else if qps < 5000 then (15, 600) else (20, 900))"

definition apply_config :: "nat \<Rightarrow> u64 \<Rightarrow> adaptive_pool \<Rightarrow> adaptive_pool" where
  "apply_config pool_size idle_timeout p =
     (if pl_pool_size p = pool_size \<and> pl_idle_timeout p = idle_timeout then p
      else p\<lparr>pl_pool_size := pool_size, pl_idle_timeout := idle_timeout\<rparr>)"

definition adjust_pool :: "nat \<Rightarrow> nat \<Rightarrow> adaptive_pool \<Rightarrow> adaptive_pool" where
  "adjust_pool first second p =
     (let (size, idle) = get_target_config (calculate_qps first second p)
      in (apply_config size idle p)\<lparr>pl_query_count := 0, pl_last_adjust := instants_apart first second\<rparr>)"

section \<open>The clock stands still\<close>

lemma instants_apart_0 [simp]: "first \<le> second \<Longrightarrow> instants_apart first second = 0"
  by (simp add: instants_apart_def as_secs_def)

lemma sat_sub_0 [simp]: "sat_sub 0 (b :: u64) = 0"
  by (simp add: sat_sub_def word_gt_0)

text \<open>An adjustment by the rule of the code would never come: with any interval but zero
  \<open>should_adjust\<close> is false for ever.\<close>

lemma should_adjust_never:
  "0 < pl_adjust_interval p \<Longrightarrow> first \<le> second \<Longrightarrow> \<not> should_adjust first second p"
  by (simp add: should_adjust_def not_le)

text \<open>A forced adjustment takes the number of queries since the last one for the rate, and
  gives one of four settings; the larger the count, the larger the pool and the longer it
  keeps idle connections.\<close>

lemma adjust_pool_settings:
  assumes "first \<le> second"
  shows "(pl_pool_size (adjust_pool first second p), pl_idle_timeout (adjust_pool first second p))
    = get_target_config (real (unat (pl_query_count p)))"
proof -
  have "calculate_qps first second p = real (unat (pl_query_count p))"
    using assms by (simp add: calculate_qps_def get_elapsed_seconds_def Let_def del: of_nat_unat)
  then show ?thesis
    by (auto simp: adjust_pool_def apply_config_def split_beta Let_def)
qed

lemma get_target_config_mono:
  assumes "a \<le> b"
  shows "fst (get_target_config a) \<le> fst (get_target_config b)"
    and "snd (get_target_config a) \<le> snd (get_target_config b)"
  using assms by (simp_all add: get_target_config_def)

end
