(* ===== verification/Forward.thy ===== *)
theory Forward
  imports Forward_Race Adaptive_Pool Dns_Context
begin

text \<open>
  \<open>src/plugins/forward.rs\<close>, \<open>ForwardPlugin\<close>: the strategies \<open>order\<close>, \<open>race\<close> and
  \<open>smart\<close>, the handler and its response hook.

  The semaphore \<open>concurrent_limit\<close> delays a query and is left out; the time a
  query waits for its permit is not counted below.  \<open>execute_smart\<close> ends in code for a hedged request that cannot be
  reached: the cases of no, one, two and more available upstreams have all returned before.
\<close>

record forward_plugin =
  fw_name :: string
  fw_upstreams :: "upstream list"
  fw_timeout :: nat
  fw_strategy :: "string option"
  fw_proxy_status :: "bool option"
  fw_qps_monitor :: adaptive_pool

text \<open>What a query leaves to background tasks: a question to warm up an upstream with, and
  addresses of an answer to check.\<close>

datatype net_job =
    Prefetch upstream nat string
  | Verify_Ips "ip_addr list" string

type_synonym executed = "message result \<times> nat \<times> net_job list \<times> autopilot"

definition forward_new ::
  "dns_lib \<Rightarrow> net_lib \<Rightarrow> nat \<Rightarrow> string \<Rightarrow> upstream_config list \<Rightarrow> string option \<Rightarrow> nat \<Rightarrow> forward_tuning
     \<Rightarrow> autopilot \<Rightarrow> forward_plugin \<times> autopilot" where
  "forward_new L NL now name confs strategy timeout_ms tuning a =
     (let upstreams = List.map_filter (\<lambda>c. case upstream_new L NL c tuning of Inr u \<Rightarrow> Some u | Inl e \<Rightarrow> None) confs
      in (\<lparr>fw_name = name, fw_upstreams = upstreams, fw_timeout = from_millis timeout_ms,
           fw_strategy = strategy, fw_proxy_status = None, fw_qps_monitor = pool_new\<rparr>,
          fold (\<lambda>u. ap_register now (get_label u)) upstreams a))"

section \<open>Helpers\<close>

fun is_foreign_upstream :: "upstream \<Rightarrow> bool" where
  "is_foreign_upstream (Udp u) \<longleftrightarrow> ud_socks5 u \<noteq> None"
| "is_foreign_upstream (Tcp u) \<longleftrightarrow> tc_socks5 u \<noteq> None"
| "is_foreign_upstream _ \<longleftrightarrow> True"

definition detect_network_scope :: "forward_plugin \<Rightarrow> network_scope" where
  "detect_network_scope p =
     (if list_ex is_foreign_upstream (fw_upstreams p) then ScopeForeign else ScopeDomestic)"

text \<open>A DoH upstream behind the proxy is left out while the proxy is down.\<close>

definition proxy_ok :: "forward_plugin \<Rightarrow> upstream \<Rightarrow> bool" where
  "proxy_ok p u =
     (case u of
        Doh d \<Rightarrow> \<not> (dh_proxy_enabled d \<and> fw_proxy_status p = Some False)
      | _ \<Rightarrow> True)"

text \<open>Questions for the two names that most often follow, to the first upstream.  A predicted
  name that the library rejects when the task runs is dropped there.\<close>

definition trigger_prefetch :: "forward_plugin \<Rightarrow> string \<Rightarrow> autopilot \<Rightarrow> net_job list" where
  "trigger_prefetch p domain a =
     (case fw_upstreams p of
        [] \<Rightarrow> []
      | u # _ \<Rightarrow> map (Prefetch u (effective_timeout (fw_timeout p) u)) (predict_next_queries domain 2 (ap_sequences a)))"

definition response_ips :: "message \<Rightarrow> ip_addr list" where
  "response_ips resp = List.map_filter (\<lambda>r. rdata_ip (rr_data r)) (m_answers resp)"

definition spawn_response_ip_verification :: "message \<Rightarrow> string \<Rightarrow> net_job list" where
  "spawn_response_ip_verification resp upstream =
     (let ips = response_ips resp in if ips \<noteq> [] then [Verify_Ips ips upstream] else [])"

text \<open>The question of a prefetch, and its exchange: the outcome is recorded unless the task is
  cut off by its timeout.\<close>

definition prefetch_query :: "dns_lib \<Rightarrow> string \<Rightarrow> message option" where
  "prefetch_query L domain =
     (case lib_name_from_ascii L domain of
        None \<Rightarrow> None
      | Some name \<Rightarrow>
          Some ((add_query \<lparr>q_name = name, q_type = T_A, q_class = 1\<rparr> (lib_new L))\<lparr>m_rd := True\<rparr>))"

definition run_prefetch :: "net_env \<Rightarrow> nat \<Rightarrow> upstream \<Rightarrow> nat \<Rightarrow> string \<Rightarrow> autopilot \<Rightarrow> autopilot" where
  "run_prefetch N now u timeout domain a =
     (case Option.bind (prefetch_query (ne_lib N) domain) (lib_to_vec (ne_lib N)) of
        None \<Rightarrow> a
      | Some req_bytes \<Rightarrow>
          let (X, elapsed) = ne_exchange N now u req_bytes in
          case with_timeout (Some timeout) (exchange_result (ne_lib N) X u, elapsed) of
            Elapsed \<Rightarrow> a
          | In_Time (Inr msg) \<Rightarrow> ap_success (now + elapsed) (get_label u) (word_of_nat (as_millis elapsed)) a
          | In_Time (Inl _) \<Rightarrow> ap_failure (now + elapsed) (get_label u) a)"

text \<open>The client subnet that the \<open>smart\<close> strategy adds to a query.  \<open>sane\<close> is what
  \<open>set_max_payload(1232)\<close> and \<open>set_version(0)\<close> do to the rest of the record.\<close>

definition inject_ecs :: "dns_lib \<Rightarrow> (edns \<Rightarrow> edns) \<Rightarrow> ecs_config \<Rightarrow> message \<Rightarrow> ip_addr \<Rightarrow> message" where
  "inject_ecs L sane config req client_ip =
     (case get_ecs_client_ip config client_ip of
        None \<Rightarrow> req
      | Some ecs_ip \<Rightarrow>
          let edns = (case m_edns req of Some e \<Rightarrow> e | None \<Rightarrow> lib_new_edns L)
          in if ed_subnet edns \<noteq> None then req\<lparr>m_edns := Some (sane edns)\<rparr>
             else req\<lparr>m_edns := Some (sane (edns\<lparr>ed_subnet := Some (ecs_ip, get_ecs_prefix_length config ecs_ip, 0)\<rparr>))\<rparr>)"

section \<open>The smart strategy\<close>

definition elapsed_ms :: "nat \<Rightarrow> u64" where
  "elapsed_ms elapsed = word_of_nat (as_millis elapsed)"

text \<open>What is learned from an answer.\<close>

definition learn_answer :: "nat \<Rightarrow> string \<Rightarrow> string \<Rightarrow> nat \<Rightarrow> ip_addr option \<Rightarrow> autopilot \<Rightarrow> autopilot" where
  "learn_answer now domain label elapsed client_ip a =
     (let domain_lower = normalize_domain_lower domain
      in ap_sequence now domain_lower (ap_result now domain_lower label (elapsed_ms elapsed) client_ip a))"

text \<open>The fast path: the upstream that the memory recommends for the domain.  \<open>None\<close> goes on.\<close>

definition smart_fast ::
  "net_env \<Rightarrow> forward_plugin \<Rightarrow> bytes \<Rightarrow> string option \<Rightarrow> ip_addr option \<Rightarrow> nat \<Rightarrow> autopilot
     \<Rightarrow> message result option \<times> nat \<times> net_job list \<times> autopilot" where
  "smart_fast N p req_bytes domain client_ip now a =
     (case domain of
        None \<Rightarrow> (None, now, [], a)
      | Some d \<Rightarrow>
          let (best, a) = ap_best_upstream now (normalize_domain_lower d) client_ip a in
          case Option.bind best (\<lambda>label. find (\<lambda>u. get_label u = label) (fw_upstreams p)) of
            None \<Rightarrow> (None, now, [], a)
          | Some u \<Rightarrow>
              let (t, label, how) = ask N (fw_timeout p) req_bytes now u; a = settle (t, label, how) a in
              (case how of
                 Answered resp elapsed \<Rightarrow>
                   let a = learn_answer t d label elapsed client_ip a
                   in (Some (Inr resp), t, trigger_prefetch p d a @ spawn_response_ip_verification resp label, a)
               | Task_Panicked \<Rightarrow> (Some (Inl Panic), t, [], a)
               | _ \<Rightarrow> (None, t, [], a)))"

definition smart_scope :: "forward_plugin \<Rightarrow> network_scope" where
  "smart_scope p =
     (let name_lower = to_lower (fw_name p) in
      if contains_str name_lower ''domestic'' \<or> contains_str name_lower ''local'' \<or> contains_str name_lower ''cn''
      then ScopeDomestic
      else if contains_str name_lower ''proxy'' \<or> contains_str name_lower ''foreign'' then ScopeForeign
      else detect_network_scope p)"

definition level_concurrency :: "nat \<Rightarrow> nat \<Rightarrow> nat" where
  "level_concurrency level total_upstreams =
     (if level \<le> 2 then 1 else if level \<le> 4 then 2 else if level \<le> 6 then min 3 total_upstreams
      else if level \<le> 8 then max (total_upstreams div 2) 3 else total_upstreams)"

definition smart_concurrency :: "calendar \<Rightarrow> forward_plugin \<Rightarrow> string option \<Rightarrow> nat \<Rightarrow> autopilot \<Rightarrow> nat" where
  "smart_concurrency C p domain now a =
     (let level = congestion_level (get_network_condition (smart_scope p) (ap_health a));
          total_upstreams = length (fw_upstreams p);
          concurrency = level_concurrency level total_upstreams;
          final = (if fst (time_based_recommendation (cal_hour C now)) = ''race'' then max total_upstreams concurrency
                   else concurrency);
          boost = (case domain of Some d \<Rightarrow> get_difficulty_concurrency_boost now d (ap_difficulty a) | None \<Rightarrow> 0)
      in if 0 < boost then min (final + boost) total_upstreams else final)"

text \<open>The upstreams in the order of the ranking, without those behind a proxy that is down and
  those that degrade.  Of two upstreams with one label the map holds the last.\<close>

definition smart_available ::
  "calendar \<Rightarrow> forward_plugin \<Rightarrow> string option \<Rightarrow> nat \<Rightarrow> autopilot \<Rightarrow> upstream list \<times> autopilot" where
  "smart_available C p domain now a =
     (let final_concurrency = smart_concurrency C p domain now a;
          a = fold (\<lambda>u. ap_register now (get_label u)) (fw_upstreams p) a;
          (ranked, a) = ap_ranked now (smart_scope p) a;
          upstream_map = map_of (rev (map (\<lambda>u. (get_label u, u)) (fw_upstreams p)))
      in (take final_concurrency
            (filter (\<lambda>u. proxy_ok p u \<and> \<not> is_upstream_degrading (get_label u) (ap_health a))
              (List.map_filter upstream_map ranked)), a))"

definition graduated_learning ::
  "string option \<Rightarrow> ip_addr option \<Rightarrow> nat \<Rightarrow> nat \<Rightarrow> string \<Rightarrow> nat \<Rightarrow> autopilot \<Rightarrow> autopilot" where
  "graduated_learning domain client_ip now attempts label elapsed a =
     (case domain of
        None \<Rightarrow> a
      | Some d \<Rightarrow> ap_attempt now d True attempts (learn_answer now d label elapsed client_ip a))"

definition execute_graduated_race ::
  "net_env \<Rightarrow> forward_plugin \<Rightarrow> upstream list \<Rightarrow> bytes \<Rightarrow> string option \<Rightarrow> ip_addr option \<Rightarrow> nat \<Rightarrow> autopilot
     \<Rightarrow> message result \<times> nat \<times> autopilot" where
  "execute_graduated_race N p us req_bytes domain client_ip now a =
     (case race (graduated_learning domain client_ip) ''All upstreams failed'' N (fw_timeout p) req_bytes us now a of
        (Inr resp, t, a) \<Rightarrow> (Inr resp, t, a)
      | (Inl e, t, a) \<Rightarrow>
          (Inl e, t, case domain of Some d \<Rightarrow> ap_attempt t d False (length us) a | None \<Rightarrow> a))"

definition execute_parallel_dual ::
  "net_env \<Rightarrow> forward_plugin \<Rightarrow> upstream \<Rightarrow> upstream \<Rightarrow> bytes \<Rightarrow> nat \<Rightarrow> autopilot \<Rightarrow> message result \<times> nat \<times> autopilot" where
  "execute_parallel_dual N p u1 u2 req_bytes now a =
     race no_learning ''Dual-Race: Both upstreams failed'' N (fw_timeout p) req_bytes [u1, u2] now a"

definition execute_single ::
  "net_env \<Rightarrow> forward_plugin \<Rightarrow> upstream \<Rightarrow> bytes \<Rightarrow> string option \<Rightarrow> ip_addr option \<Rightarrow> nat \<Rightarrow> autopilot \<Rightarrow> executed" where
  "execute_single N p u req_bytes domain client_ip now a =
     (let (t, label, how) = ask N (fw_timeout p) req_bytes now u; a = settle (t, label, how) a in
      case how of
        Answered resp elapsed \<Rightarrow>
          (case domain of
             None \<Rightarrow> (Inr resp, t, [], a)
           | Some d \<Rightarrow>
               let a = learn_answer t d label elapsed client_ip a in (Inr resp, t, trigger_prefetch p d a, a))
      | Task_Panicked \<Rightarrow> (Inl Panic, t, [], a)
      | _ \<Rightarrow> (Inl (Error ''Single upstream failed''), t, [], a))"

definition smart_routed ::
  "net_env \<Rightarrow> forward_plugin \<Rightarrow> bytes \<Rightarrow> string option \<Rightarrow> ip_addr option \<Rightarrow> nat \<Rightarrow> autopilot \<Rightarrow> executed" where
  "smart_routed N p req_bytes domain client_ip now a =
     (let (available, a) = smart_available (ne_calendar N) p domain now a in
      case available of
        [] \<Rightarrow> (Inl (Error ''No available upstreams''), now, [], a)
      | [u] \<Rightarrow> execute_single N p u req_bytes domain client_ip now a
      | [u1, u2] \<Rightarrow>
          (let (r, t, a) = execute_parallel_dual N p u1 u2 req_bytes now a in (r, t, [], a))
      | us \<Rightarrow>
          (let (r, t, a) = execute_graduated_race N p us req_bytes domain client_ip now a in (r, t, [], a)))"

definition execute_smart ::
  "net_env \<Rightarrow> (edns \<Rightarrow> edns) \<Rightarrow> forward_plugin \<Rightarrow> message \<Rightarrow> ip_addr option \<Rightarrow> nat \<Rightarrow> autopilot \<Rightarrow> executed" where
  "execute_smart N sane p req client_ip now a =
     (let domain = map_option q_name (msg_query req);
          domain_lower = map_option normalize_domain_lower domain
      in if (case domain_lower of Some d \<Rightarrow> dr_is_dga (detect_dga_domain_lower d) | None \<Rightarrow> False)
         then (Inl (Error ''Blocked DGA Domain''), now, [], a)
         else
           let a = (case domain_lower of Some d \<Rightarrow> ap_query (ne_calendar N) now d a | None \<Rightarrow> a);
               req = (case client_ip of Some ip \<Rightarrow> inject_ecs (ne_lib N) sane (ap_ecs a) req ip | None \<Rightarrow> req)
           in case lib_to_vec (ne_lib N) req of
                None \<Rightarrow> (Inl (Error ''to_vec''), now, [], a)
              | Some req_bytes \<Rightarrow>
                  (case smart_fast N p req_bytes domain client_ip now a of
                     (Some r, t, jobs, a) \<Rightarrow> (r, t, jobs, a)
                   | (None, t, jobs, a) \<Rightarrow> smart_routed N p req_bytes domain client_ip t a))"

section \<open>All strategies\<close>

definition race_upstreams :: "nat \<Rightarrow> forward_plugin \<Rightarrow> upstream list" where
  "race_upstreams n p = filter (proxy_ok p) (take (min (length (fw_upstreams p)) n) (fw_upstreams p))"

text \<open>\<open>execute_race\<close> is the same with the first three; nothing calls it.\<close>

definition execute_race :: "net_env \<Rightarrow> forward_plugin \<Rightarrow> bytes \<Rightarrow> nat \<Rightarrow> autopilot \<Rightarrow> message result \<times> nat \<times> autopilot" where
  "execute_race N p req_bytes now a =
     race no_learning ''All race upstreams failed'' N (fw_timeout p) req_bytes (race_upstreams 3 p) now a"

definition execute_with_bytes_internal ::
  "net_env \<Rightarrow> (edns \<Rightarrow> edns) \<Rightarrow> forward_plugin \<Rightarrow> message \<Rightarrow> ip_addr option \<Rightarrow> bytes option \<Rightarrow> nat \<Rightarrow> autopilot \<Rightarrow> executed" where
  "execute_with_bytes_internal N sane p req client_ip req_bytes now a =
     (let strategy = (case fw_strategy p of Some s \<Rightarrow> s | None \<Rightarrow> ''order'') in
      if strategy = ''smart'' then execute_smart N sane p req client_ip now a
      else case (case req_bytes of Some b \<Rightarrow> Some b | None \<Rightarrow> lib_to_vec (ne_lib N) req) of
             None \<Rightarrow> (Inl (Error ''to_vec''), now, [], a)
           | Some b \<Rightarrow>
               if strategy = ''race''
               then (let (r, t, a) = race no_learning ''All race upstreams failed'' N (fw_timeout p) b (race_upstreams 5 p) now a
                     in (r, t, [], a))
               else (let (r, t, a) = in_order N (fw_timeout p) b (fw_upstreams p) now a in (r, t, [], a)))"

section \<open>Which addresses of an answer are kept\<close>

definition should_limit_best_ips :: "'h ctx \<Rightarrow> bool" where
  "should_limit_best_ips c =
     (if has_tag ''proxy'' c then False
      else has_tag ''cn'' c \<or> has_tag ''direct'' c \<or> has_tag ''ip_cn'' c \<or> has_tag ''ip_cn_accurate'' c)"

text \<open>Of the addresses of one family: the reachable ones with their latency, and those that have
  not been checked lately.\<close>

definition known_ips :: "nat \<Rightarrow> quality_table \<Rightarrow> ip_addr list \<Rightarrow> (ip_addr \<times> u64) list" where
  "known_ips now tbl ips =
     List.map_filter (\<lambda>ip. if is_ip_known_bad now ip tbl then None
        else case get_ip_quality_fresh now ip tbl of
               Some q \<Rightarrow> if iq_reachable q
                         then Some (ip, case iq_latency q of Some l \<Rightarrow> l | None \<Rightarrow> 0x7FFFFFFFFFFFFFFF) else None
             | None \<Rightarrow> None) ips"

definition unknown_ips :: "nat \<Rightarrow> quality_table \<Rightarrow> ip_addr list \<Rightarrow> ip_addr list" where
  "unknown_ips now tbl ips =
     filter (\<lambda>ip. \<not> is_ip_known_bad now ip tbl \<and> get_ip_quality_fresh now ip tbl = None) ips"

text \<open>The addresses to keep of a family with a reachable address: the two fastest of them and
  the first unchecked one.  A family with unchecked addresses only is kept whole.\<close>

definition kept_ips :: "(ip_addr \<times> u64) list \<Rightarrow> ip_addr list \<Rightarrow> ip_addr list" where
  "kept_ips known unknown =
     (if known = [] then [] else map fst (take 2 (sort_key snd known)) @ take 1 unknown)"

definition rr_ips :: "bool \<Rightarrow> rr list \<Rightarrow> ip_addr list" where
  "rr_ips v4 rs = filter (\<lambda>ip. (case ip of V4 _ \<Rightarrow> v4 | V6 _ \<Rightarrow> \<not> v4)) (List.map_filter (\<lambda>r. rdata_ip (rr_data r)) rs)"

definition filter_best_ips :: "nat \<Rightarrow> quality_table \<Rightarrow> bool \<Rightarrow> message \<Rightarrow> message" where
  "filter_best_ips now tbl limit resp =
     (let v4 = rr_ips True (m_answers resp); v6 = rr_ips False (m_answers resp);
          v4_known = known_ips now tbl v4; v6_known = known_ips now tbl v6;
          v4_unknown = unknown_ips now tbl v4; v6_unknown = unknown_ips now tbl v6;
          keep = kept_ips v4_known v4_unknown @ kept_ips v6_known v6_unknown;
          keep_all_v4 = (v4_known = [] \<and> v4_unknown \<noteq> []);
          keep_all_v6 = (v6_known = [] \<and> v6_unknown \<noteq> [])
      in if \<not> limit then resp
         else if v4_known = [] \<and> v6_known = [] then resp
         else if keep = [] \<and> \<not> keep_all_v4 \<and> \<not> keep_all_v6 then resp
         else resp\<lparr>m_answers := filter (\<lambda>r. case rdata_ip (rr_data r) of
                Some (V4 a) \<Rightarrow> keep_all_v4 \<or> V4 a \<in> set keep
              | Some (V6 a) \<Rightarrow> keep_all_v6 \<or> V6 a \<in> set keep
              | None \<Rightarrow> True) (m_answers resp)\<rparr>)"

section \<open>The plugin\<close>

definition error_reply :: "dns_lib \<Rightarrow> u16 \<Rightarrow> 'h ctx \<Rightarrow> message" where
  "error_reply L rcode c =
     (let resp = (lib_new L)\<lparr>m_id := m_id (request c), m_type := ResponseMsg, m_rcode := rcode\<rparr>
      in case msg_query (request c) of Some q \<Rightarrow> add_query q resp | None \<Rightarrow> resp)"

text \<open>The reply to the outcome of an execution, and the handler over the way of execution.\<close>

definition conclude :: "dns_lib \<Rightarrow> 'h ctx \<Rightarrow> message result \<Rightarrow> 'h ctx result" where
  "conclude L c res =
     (case res of
        Inr m \<Rightarrow> Inr (set_response (m\<lparr>m_id := m_id (request c)\<rparr>) True c)
      | Inl Panic \<Rightarrow> Inl Panic
      | Inl (Error e) \<Rightarrow> Inr (set_response ((error_reply L ServFail c)\<lparr>m_opcode := OpQuery\<rparr>) True c))"

definition counted :: "forward_plugin \<Rightarrow> forward_plugin" where
  "counted p = p\<lparr>fw_qps_monitor := pool_record_query (fw_qps_monitor p)\<rparr>"

type_synonym 'h handled = "'h ctx result \<times> nat \<times> net_job list \<times> forward_plugin \<times> autopilot"

definition handle_with ::
  "dns_lib \<Rightarrow> (forward_plugin \<Rightarrow> message \<Rightarrow> ip_addr option \<Rightarrow> bytes option \<Rightarrow> nat \<Rightarrow> autopilot \<Rightarrow> executed)
     \<Rightarrow> forward_plugin \<Rightarrow> nat \<Rightarrow> autopilot \<Rightarrow> 'h ctx \<Rightarrow> 'h handled" where
  "handle_with L execute p now a c =
     (let client_ip = fst (client_addr c);
          (blocked, a) = ap_client now client_ip False a
      in if blocked then (Inr (set_response (error_reply L Refused c) True c), now, [], counted p, a)
         else case msg_query (request c) of
                None \<Rightarrow> (Inl (Error ''No query''), now, [], counted p, a)
              | Some query \<Rightarrow>
                  let (res, t, jobs, a) = execute (counted p) (request c) (Some client_ip) (request_bytes c) now a
                  in (conclude L c res, t, jobs, counted p, a))"

definition forward_handle ::
  "net_env \<Rightarrow> (edns \<Rightarrow> edns) \<Rightarrow> forward_plugin \<Rightarrow> nat \<Rightarrow> autopilot \<Rightarrow> 'h ctx \<Rightarrow> 'h handled" where
  "forward_handle N sane = handle_with (ne_lib N) (execute_with_bytes_internal N sane)"

text \<open>The response hook.\<close>

definition set_address_ttl :: "u32 \<Rightarrow> message \<Rightarrow> message" where
  "set_address_ttl t resp =
     resp\<lparr>m_answers := map (\<lambda>r. if rr_type r \<in> {T_A, T_AAAA} then r\<lparr>rr_ttl := t\<rparr> else r) (m_answers resp)\<rparr>"

definition smart_ttl_applied ::
  "nat \<Rightarrow> string \<Rightarrow> ip_addr list \<Rightarrow> u32 \<Rightarrow> message \<Rightarrow> autopilot \<Rightarrow> message \<times> autopilot" where
  "smart_ttl_applied now domain ips min_ttl resp a =
     (if ips \<noteq> [] \<and> min_ttl \<noteq> - 1
      then let a = ap_stable now domain ips min_ttl a
           in (case get_smart_ttl now domain min_ttl (ap_stability a) of
                 Some t \<Rightarrow> set_address_ttl t resp | None \<Rightarrow> resp, a)
      else (resp, a))"

definition forward_on_response :: "nat \<Rightarrow> autopilot \<Rightarrow> 'h ctx \<Rightarrow> 'h ctx \<times> autopilot" where
  "forward_on_response now a c =
     (case response c of
        None \<Rightarrow> (c, a)
      | Some resp \<Rightarrow>
          let domain = qname_ref c;
              a = (if m_rcode resp = NXDomain then snd (ap_client now (fst (client_addr c)) True a) else a)
          in if m_rcode resp \<noteq> NoError then (c, a)
             else let ips = response_ips resp;
                      min_ttl = fold (\<lambda>r t. min t (rr_ttl r)) (m_answers resp) (- 1)
                  in if list_ex is_known_poison_ip ips then (c\<lparr>response := Some (resp\<lparr>m_rcode := ServFail\<rparr>)\<rparr>, a)
                     else let (resp, a) = smart_ttl_applied now domain ips min_ttl resp a
                          in (c\<lparr>response := Some (filter_best_ips now (ap_quality a) (should_limit_best_ips c) resp)\<rparr>, a))"
lemma counted_simps [simp]:
  "fw_upstreams (counted p) = fw_upstreams p" "fw_timeout (counted p) = fw_timeout p"
  "fw_strategy (counted p) = fw_strategy p" "fw_name (counted p) = fw_name p"
  by (simp_all add: counted_def)

lemma conclude_cases:
  "conclude L c (Inr m) = Inr (set_response (m\<lparr>m_id := m_id (request c)\<rparr>) True c)"
  "conclude L c (Inl (Error e)) = Inr (set_response ((error_reply L ServFail c)\<lparr>m_opcode := OpQuery\<rparr>) True c)"
  "conclude L c (Inl Panic) = Inl Panic"
  by (simp_all add: conclude_def)

lemma conclude_replies:
  assumes "conclude L c res = Inr c'"
  shows "ctx_abort c' \<and> response c' \<noteq> None \<and> query_ident c' = query_ident c \<and> reply_ok c'"
proof -
  consider m where "res = Inr m" | e where "res = Inl (Error e)" | "res = Inl Panic"
    by (cases res) (auto, metis rust_error.exhaust)
  then show ?thesis using assms by cases (auto simp: conclude_cases)
qed

text \<open>The three ways through the handler.\<close>

lemma handle_with_cases:
  obtains (Blocked) a' where "handle_with L execute p now a c
        = (Inr (set_response (error_reply L Refused c) True c), now, [], counted p, a')"
  | (No_Query) a' where "msg_query (request c) = None"
      and "handle_with L execute p now a c = (Inl (Error ''No query''), now, [], counted p, a')"
  | (Asked) q a1 res t jobs a2 where "msg_query (request c) = Some q"
      and "execute (counted p) (request c) (Some (fst (client_addr c))) (request_bytes c) now a1 = (res, t, jobs, a2)"
      and "handle_with L execute p now a c = (conclude L c res, t, jobs, counted p, a2)"
proof -
  obtain blocked a1 where b: "ap_client now (fst (client_addr c)) False a = (blocked, a1)" by fastforce
  obtain res t jobs a2 where e:
      "execute (counted p) (request c) (Some (fst (client_addr c))) (request_bytes c) now a1 = (res, t, jobs, a2)"
    by (cases "execute (counted p) (request c) (Some (fst (client_addr c))) (request_bytes c) now a1") auto
  show ?thesis
    using b e that by (cases blocked; cases "msg_query (request c)") (simp_all add: handle_with_def)
qed

section \<open>What every strategy promises\<close>

text \<open>The promises of a way to execute queries that the handler relies on: an answer is one of the
  plugin's upstreams', it comes within twice the sum of their timeouts, and nothing panics.\<close>

locale query_execution =
  fixes N :: net_env
    and execute :: "forward_plugin \<Rightarrow> message \<Rightarrow> ip_addr option \<Rightarrow> bytes option \<Rightarrow> nat \<Rightarrow> autopilot \<Rightarrow> executed"
  assumes answered: "net_ends_ok N \<Longrightarrow> execute p req ip b now a = (Inr msg, t, jobs, a') \<Longrightarrow>
      \<exists>sent. answered_by N sent (fw_upstreams p) msg"
    and in_time: "net_ends_ok N \<Longrightarrow>
      fst (snd (execute p req ip b now a)) \<le> now + 2 * timeouts (fw_timeout p) (fw_upstreams p)"
    and no_panic: "fst (execute p req ip b now a) \<noteq> Inl Panic"
begin

lemma handled:
  assumes "msg_query (request c) = Some q"
  shows "\<exists>c'. fst (handle_with L execute p now a c) = Inr c' \<and> ctx_abort c' \<and> response c' \<noteq> None"
proof (cases rule: handle_with_cases [of L execute p now a c])
  case (Asked q a1 res t jobs a2)
  with no_panic [of "counted p" "request c" "Some (fst (client_addr c))" "request_bytes c" now a1]
  have "res \<noteq> Inl Panic" by simp
  then consider m where "res = Inr m" | e where "res = Inl (Error e)"
    by (cases res) (auto, metis rust_error.exhaust)
  then obtain c' where "conclude L c res = Inr c'" by cases (simp_all add: conclude_cases)
  with Asked conclude_replies [OF this] show ?thesis by simp
qed (use assms in auto)

lemma handled_in_time:
  assumes "net_ends_ok N"
  shows "fst (snd (handle_with L execute p now a c)) \<le> now + 2 * timeouts (fw_timeout p) (fw_upstreams p)"
proof (cases rule: handle_with_cases [of L execute p now a c])
  case (Asked q a1 res t jobs a2)
  with in_time [OF assms, of "counted p" "request c" "Some (fst (client_addr c))" "request_bytes c" now a1]
  show ?thesis by simp
qed simp_all

lemma handled_keeps:
  assumes "fst (handle_with L execute p now a c) = Inr c'"
  shows "query_ident c' = query_ident c \<and> reply_ok c'"
proof (cases rule: handle_with_cases [of L execute p now a c])
  case (Asked q a1 res t jobs a2)
  with assms conclude_replies [of L c res c'] show ?thesis by simp
qed (use assms in auto)

lemma handled_no_panic: "fst (handle_with L execute p now a c) \<noteq> Inl Panic"
proof (cases rule: handle_with_cases [of L execute p now a c])
  case (Asked q a1 res t jobs a2)
  with handled [of c q L p now a] show ?thesis by auto
qed auto

text \<open>The reply is the refusal, the failure, or what an upstream answered, under the ID of the
  request.\<close>

lemma handled_genuine:
  assumes "net_ends_ok N" and "fst (handle_with L execute p now a c) = Inr c'"
  shows "c' = set_response (error_reply L Refused c) True c
    \<or> c' = set_response ((error_reply L ServFail c)\<lparr>m_opcode := OpQuery\<rparr>) True c
    \<or> (\<exists>sent msg. answered_by N sent (fw_upstreams p) msg \<and> c' = set_response (msg\<lparr>m_id := m_id (request c)\<rparr>) True c)"
proof (cases rule: handle_with_cases [of L execute p now a c])
  case (Asked q a1 res t jobs a2)
  show ?thesis
  proof (cases res)
    case (Inr msg)
    from answered [OF assms(1) Asked(2) [unfolded Inr]] Asked(3) assms(2) show ?thesis
      by (auto simp: Inr conclude_cases)
  next
    case (Inl e)
    with Asked(3) assms(2) show ?thesis by (cases e) (auto simp: conclude_cases)
  qed
qed (use assms in auto)

end

section \<open>The strategies keep the promises\<close>

lemma timeouts_bound: "u \<in> set us \<Longrightarrow> set us \<subseteq> set vs \<Longrightarrow> effective_timeout base u \<le> timeouts base vs"
  by (auto intro: timeouts_member)

lemma smart_fast_promises:
  assumes "smart_fast N p req domain ip now a = (r, t, jobs, a')"
  shows "r = Some (Inr msg) \<Longrightarrow> answered_by N req (fw_upstreams p) msg"
    and "t \<le> now + timeouts (fw_timeout p) (fw_upstreams p)" and "r \<noteq> Some (Inl e)"
proof -
  let ?us = "fw_upstreams p"
  have "(r = Some (Inr msg) \<longrightarrow> answered_by N req ?us msg) \<and> t \<le> now + timeouts (fw_timeout p) ?us \<and> r \<noteq> Some (Inl e)"
  proof (cases domain)
    case None
    with assms show ?thesis by (auto simp: smart_fast_def)
  next
    case (Some d)
    obtain best a1 where best: "ap_best_upstream now (normalize_domain_lower d) ip a = (best, a1)" by fastforce
    show ?thesis
    proof (cases "Option.bind best (\<lambda>label. find (\<lambda>u. get_label u = label) ?us)")
      case None
      with Some best assms show ?thesis by (simp add: smart_fast_def)
    next
      case u: (Some u)
      then have mem: "u \<in> set ?us" by (cases best) (auto simp: find_Some_iff)
      have "fst (ask N (fw_timeout p) req now u) \<le> now + timeouts (fw_timeout p) ?us"
        using ask_end [of N "fw_timeout p" req now u] timeouts_member [OF mem, of "fw_timeout p"] by linarith
      with Some u best assms mem show ?thesis
        by (cases rule: ask_cases [of N "fw_timeout p" req now u])
           (auto simp: smart_fast_def Let_def dest: ask_answered_by [OF _ mem])
    qed
  qed
  then show "r = Some (Inr msg) \<Longrightarrow> answered_by N req ?us msg"
    and "t \<le> now + timeouts (fw_timeout p) ?us" and "r \<noteq> Some (Inl e)" by blast+
qed

lemma set_map_filter: "set (List.map_filter g ls) \<subseteq> ran g"
  by (auto simp: List.map_filter_def ran_def)

lemma ran_labels: "ran (map_of (rev (map (\<lambda>u. (f u, u)) us))) \<subseteq> set us"
  by (auto simp: ran_def dest!: map_of_SomeD)

lemma smart_available_subset:
  assumes "smart_available C p domain now a = (us, a')"
  shows "set us \<subseteq> set (fw_upstreams p)"
proof -
  let ?map = "map_of (rev (map (\<lambda>u. (get_label u, u)) (fw_upstreams p)))"
  from assms obtain n P ranked where "us = take n (filter P (List.map_filter ?map ranked))"
    by (auto simp: smart_available_def Let_def split_beta)
  then have "set us \<subseteq> set (List.map_filter ?map ranked)"
    by (auto dest: in_set_takeD)
  with set_map_filter [of ?map ranked] ran_labels [of get_label "fw_upstreams p"] show ?thesis by blast
qed

lemma race_promises:
  assumes "set us \<subseteq> set (fw_upstreams p)" and "race f err N (fw_timeout p) req us now a = (r, t, a')"
  shows "net_ends_ok N \<Longrightarrow> r = Inr msg \<Longrightarrow> answered_by N req (fw_upstreams p) msg"
    and "net_ends_ok N \<Longrightarrow> t \<le> now + timeouts (fw_timeout p) (fw_upstreams p)" and "r \<noteq> Inl Panic"
proof -
  show "answered_by N req (fw_upstreams p) msg" if "net_ends_ok N" "r = Inr msg"
    using race_answered [of N f err "fw_timeout p" req us now a msg t a'] that assms answered_by_mono by blast
  show "t \<le> now + timeouts (fw_timeout p) (fw_upstreams p)" if "net_ends_ok N"
    using race_end [OF that, of us "fw_timeout p" "timeouts (fw_timeout p) (fw_upstreams p)" f err req now a]
      timeouts_bound [OF _ assms(1)] assms(2) by simp
  show "r \<noteq> Inl Panic" using race_no_panic [of f err N "fw_timeout p" req us now a] assms(2) by simp
qed

lemma execute_single_promises:
  assumes "u \<in> set (fw_upstreams p)" and "execute_single N p u req domain ip now a = (r, t, jobs, a')"
  shows "r = Inr msg \<Longrightarrow> answered_by N req (fw_upstreams p) msg"
    and "t \<le> now + timeouts (fw_timeout p) (fw_upstreams p)" and "r \<noteq> Inl Panic"
proof -
  have "fst (ask N (fw_timeout p) req now u) \<le> now + timeouts (fw_timeout p) (fw_upstreams p)"
    using ask_end [of N "fw_timeout p" req now u] timeouts_member [OF assms(1), of "fw_timeout p"] by linarith
  with assms have "(r = Inr msg \<longrightarrow> answered_by N req (fw_upstreams p) msg)
      \<and> t \<le> now + timeouts (fw_timeout p) (fw_upstreams p) \<and> r \<noteq> Inl Panic"
    by (cases rule: ask_cases [of N "fw_timeout p" req now u])
       (auto simp: execute_single_def Let_def split: option.splits dest: ask_answered_by [OF _ assms(1)])
  then show "r = Inr msg \<Longrightarrow> answered_by N req (fw_upstreams p) msg"
    and "t \<le> now + timeouts (fw_timeout p) (fw_upstreams p)" and "r \<noteq> Inl Panic" by blast+
qed

lemma graduated_promises:
  assumes "set us \<subseteq> set (fw_upstreams p)" and "execute_graduated_race N p us req domain ip now a = (r, t, a')"
  shows "net_ends_ok N \<Longrightarrow> r = Inr msg \<Longrightarrow> answered_by N req (fw_upstreams p) msg"
    and "net_ends_ok N \<Longrightarrow> t \<le> now + timeouts (fw_timeout p) (fw_upstreams p)" and "r \<noteq> Inl Panic"
proof -
  obtain a1 where "race (graduated_learning domain ip) ''All upstreams failed'' N (fw_timeout p) req us now a = (r, t, a1)"
    using assms(2) by (auto simp: execute_graduated_race_def split: prod.splits sum.splits)
  note race_promises [OF assms(1) this]
  then show "net_ends_ok N \<Longrightarrow> r = Inr msg \<Longrightarrow> answered_by N req (fw_upstreams p) msg"
    and "net_ends_ok N \<Longrightarrow> t \<le> now + timeouts (fw_timeout p) (fw_upstreams p)" and "r \<noteq> Inl Panic" by blast+
qed

text \<open>The four cases of the number of available upstreams.\<close>

lemma smart_routed_cases:
  assumes "smart_routed N p req domain ip now a = (r, t, jobs, a')"
  obtains (None_Left) "r = Inl (Error ''No available upstreams'')" and "t = now"
  | (One) u a1 where "u \<in> set (fw_upstreams p)" and "execute_single N p u req domain ip now a1 = (r, t, jobs, a')"
  | (Two) u1 u2 a1 where "set [u1, u2] \<subseteq> set (fw_upstreams p)"
      and "execute_parallel_dual N p u1 u2 req now a1 = (r, t, a')"
  | (More) us a1 where "3 \<le> length us" and "set us \<subseteq> set (fw_upstreams p)"
      and "execute_graduated_race N p us req domain ip now a1 = (r, t, a')"
proof -
  obtain us a1 where us: "smart_available (ne_calendar N) p domain now a = (us, a1)" by fastforce
  note sub = smart_available_subset [OF us]
  consider "us = []" | u where "us = [u]" | u1 u2 where "us = [u1, u2]" | u1 u2 u3 vs where "us = u1 # u2 # u3 # vs"
    by (metis list.exhaust)
  then show ?thesis
  proof cases
    case 1 with assms us show ?thesis by (intro None_Left) (auto simp: smart_routed_def)
  next
    case 2 with assms us sub show ?thesis by (intro One) (auto simp: smart_routed_def)
  next
    case 3 with assms us sub show ?thesis by (intro Two) (auto simp: smart_routed_def split: prod.splits)
  next
    case 4 with assms us sub show ?thesis by (intro More [of us]) (auto simp: smart_routed_def split: prod.splits)
  qed
qed

lemma smart_routed_promises:
  assumes "smart_routed N p req domain ip now a = (r, t, jobs, a')"
  shows "net_ends_ok N \<Longrightarrow> r = Inr msg \<Longrightarrow> answered_by N req (fw_upstreams p) msg"
    and "net_ends_ok N \<Longrightarrow> t \<le> now + timeouts (fw_timeout p) (fw_upstreams p)" and "r \<noteq> Inl Panic"
  using assms
proof (atomize (full), cases rule: smart_routed_cases)
  case None_Left
  then show "(net_ends_ok N \<longrightarrow> r = Inr msg \<longrightarrow> answered_by N req (fw_upstreams p) msg) \<and>
    (net_ends_ok N \<longrightarrow> t \<le> now + timeouts (fw_timeout p) (fw_upstreams p)) \<and> r \<noteq> Inl Panic" by simp
next
  case (One u a1)
  from execute_single_promises [OF this] show "(net_ends_ok N \<longrightarrow> r = Inr msg \<longrightarrow> answered_by N req (fw_upstreams p) msg) \<and>
    (net_ends_ok N \<longrightarrow> t \<le> now + timeouts (fw_timeout p) (fw_upstreams p)) \<and> r \<noteq> Inl Panic" by blast
next
  case (Two u1 u2 a1)
  from race_promises [OF this(1) this(2) [unfolded execute_parallel_dual_def]]
  show "(net_ends_ok N \<longrightarrow> r = Inr msg \<longrightarrow> answered_by N req (fw_upstreams p) msg) \<and>
    (net_ends_ok N \<longrightarrow> t \<le> now + timeouts (fw_timeout p) (fw_upstreams p)) \<and> r \<noteq> Inl Panic" by blast
next
  case (More us a1)
  from graduated_promises [OF More(2,3)] show "(net_ends_ok N \<longrightarrow> r = Inr msg \<longrightarrow> answered_by N req (fw_upstreams p) msg) \<and>
    (net_ends_ok N \<longrightarrow> t \<le> now + timeouts (fw_timeout p) (fw_upstreams p)) \<and> r \<noteq> Inl Panic" by blast
qed

text \<open>A smart execution ends before anything is sent, on the fast path, or with the routing that
  follows it.\<close>

lemma execute_smart_cases:
  assumes "execute_smart N sane p req ip now a = (r, t, jobs, a')"
  obtains (Unsent) e where "r = Inl (Error e)" and "t = now" and "jobs = []"
      and "ap_health a' = ap_health a \<and> ap_learning a' = ap_learning a"
  | (Fast) sent domain a1 where "smart_fast N p sent domain ip now a1 = (Some r, t, jobs, a')"
      and "ap_health a1 = ap_health a \<and> ap_learning a1 = ap_learning a"
  | (Routed) sent domain a1 t1 jobs1 a2 where "smart_fast N p sent domain ip now a1 = (None, t1, jobs1, a2)"
      and "smart_routed N p sent domain ip t1 a2 = (r, t, jobs, a')"
      and "ap_health a1 = ap_health a \<and> ap_learning a1 = ap_learning a"
proof -
  let ?d = "map_option q_name (msg_query req)"
  let ?dga = "case map_option normalize_domain_lower ?d of Some d \<Rightarrow> dr_is_dga (detect_dga_domain_lower d) | None \<Rightarrow> False"
  define a1 where "a1 = (case map_option normalize_domain_lower ?d of Some d \<Rightarrow> ap_query (ne_calendar N) now d a | None \<Rightarrow> a)"
  define req1 where "req1 = (case ip of Some ip \<Rightarrow> inject_ecs (ne_lib N) sane (ap_ecs a1) req ip | None \<Rightarrow> req)"
  have e: "(r, t, jobs, a') =
      (if ?dga then (Inl (Error ''Blocked DGA Domain''), now, [], a)
       else case lib_to_vec (ne_lib N) req1 of
              None \<Rightarrow> (Inl (Error ''to_vec''), now, [], a1)
            | Some sent \<Rightarrow>
                (case smart_fast N p sent ?d ip now a1 of
                   (Some r, t, jobs, a) \<Rightarrow> (r, t, jobs, a)
                 | (None, t, jobs, a) \<Rightarrow> smart_routed N p sent ?d ip t a))"
    by (simp only: assms [symmetric] execute_smart_def Let_def a1_def req1_def)
  have a1: "ap_health a1 = ap_health a \<and> ap_learning a1 = ap_learning a"
    by (simp add: a1_def ap_query_def split: option.split)
  show ?thesis
  proof (cases ?dga)
    case True with e show ?thesis by (intro Unsent [of "''Blocked DGA Domain''"]) auto
  next
    case False
    show ?thesis
    proof (cases "lib_to_vec (ne_lib N) req1")
      case None with e False a1 show ?thesis by (intro Unsent [of "''to_vec''"]) auto
    next
      case (Some sent)
      obtain f t1 jobs1 a2 where f: "smart_fast N p sent ?d ip now a1 = (f, t1, jobs1, a2)"
        by (cases "smart_fast N p sent ?d ip now a1") auto
      with e False Some a1 show ?thesis
        by (cases f) (auto intro: Fast Routed)
    qed
  qed
qed

lemma execute_smart_promises:
  assumes "execute_smart N sane p req ip now a = (r, t, jobs, a')"
  shows "(net_ends_ok N \<longrightarrow> r = Inr msg \<longrightarrow> (\<exists>sent. answered_by N sent (fw_upstreams p) msg))
    \<and> (net_ends_ok N \<longrightarrow> t \<le> now + 2 * timeouts (fw_timeout p) (fw_upstreams p)) \<and> r \<noteq> Inl Panic"
  using assms
proof (cases rule: execute_smart_cases)
  case (Fast sent domain a1)
  note f = smart_fast_promises [OF Fast(1)]
  from f(2) have "t \<le> now + 2 * timeouts (fw_timeout p) (fw_upstreams p)" by linarith
  with f(1) f(3) [of Panic] show ?thesis by blast
next
  case (Routed sent domain a1 t1 jobs1 a2)
  note s = smart_routed_promises [OF Routed(2)]
  have "t \<le> now + 2 * timeouts (fw_timeout p) (fw_upstreams p)" if "net_ends_ok N"
    using s(2) [OF that] smart_fast_promises(2) [OF Routed(1)] by linarith
  with s(1,3) show ?thesis by blast
qed simp

lemma execute_promises:
  assumes "execute_with_bytes_internal N sane p req ip b now a = (r, t, jobs, a')"
  shows "(net_ends_ok N \<longrightarrow> r = Inr msg \<longrightarrow> (\<exists>sent. answered_by N sent (fw_upstreams p) msg))
    \<and> (net_ends_ok N \<longrightarrow> t \<le> now + 2 * timeouts (fw_timeout p) (fw_upstreams p)) \<and> r \<noteq> Inl Panic"
proof -
  define s where "s = (case fw_strategy p of Some s \<Rightarrow> s | None \<Rightarrow> ''order'')"
  define b1 where "b1 = (case b of Some b \<Rightarrow> Some b | None \<Rightarrow> lib_to_vec (ne_lib N) req)"
  note e = assms [unfolded execute_with_bytes_internal_def Let_def, folded s_def b1_def]
  consider (Smart) "s = ''smart''" | (None) "s \<noteq> ''smart''" "b1 = None"
    | (Race) sent where "s \<noteq> ''smart''" "s = ''race''" "b1 = Some sent"
    | (Order) sent where "s \<noteq> ''smart''" "s \<noteq> ''race''" "b1 = Some sent"
    by (cases b1) blast+
  then show ?thesis
  proof cases
    case Smart
    with e execute_smart_promises [of N sane p req ip now a r t jobs a' msg] show ?thesis by simp
  next
    case None
    with e show ?thesis by auto
  next
    case (Race sent)
    with e have won: "race no_learning ''All race upstreams failed'' N (fw_timeout p) sent (race_upstreams 5 p) now a = (r, t, a')"
      by (auto split: prod.splits)
    have "set (race_upstreams 5 p) \<subseteq> set (fw_upstreams p)"
      by (auto simp: race_upstreams_def dest: in_set_takeD)
    note rp = race_promises [OF this won]
    have "net_ends_ok N \<Longrightarrow> t \<le> now + 2 * timeouts (fw_timeout p) (fw_upstreams p)"
      using rp(2) by linarith
    with rp(1,3) show ?thesis by blast
  next
    case (Order sent)
    with e have o: "in_order N (fw_timeout p) sent (fw_upstreams p) now a = (r, t, a')"
      by (auto split: prod.splits)
    have "t \<le> now + 2 * timeouts (fw_timeout p) (fw_upstreams p)"
      using in_order_end [of N "fw_timeout p" sent "fw_upstreams p" now a] unfolding o fst_conv snd_conv by linarith
    moreover have "r \<noteq> Inl Panic"
      using in_order_no_panic [of N "fw_timeout p" sent "fw_upstreams p" now a] by (simp add: o)
    ultimately show ?thesis using in_order_answered [of N "fw_timeout p" sent "fw_upstreams p" now a msg t a'] o by blast
  qed
qed

interpretation fwd: query_execution N "execute_with_bytes_internal N sane" for N sane
proof
  fix p req ip b now a msg t jobs a'
  assume "net_ends_ok N" "execute_with_bytes_internal N sane p req ip b now a = (Inr msg, t, jobs, a')"
  then show "\<exists>sent. answered_by N sent (fw_upstreams p) msg"
    using execute_promises [of N sane p req ip b now a "Inr msg" t jobs a' msg] by blast
next
  fix p req ip b now a
  obtain r t jobs a' where e: "execute_with_bytes_internal N sane p req ip b now a = (r, t, jobs, a')"
    by (cases "execute_with_bytes_internal N sane p req ip b now a") auto
  show "fst (snd (execute_with_bytes_internal N sane p req ip b now a)) \<le> now + 2 * timeouts (fw_timeout p) (fw_upstreams p)"
    if "net_ends_ok N" using execute_promises [OF e] that e by simp
  show "fst (execute_with_bytes_internal N sane p req ip b now a) \<noteq> Inl Panic"
    using execute_promises [OF e] e by simp
qed
section \<open>The handler always answers\<close>

text \<open>A context, a plugin and a network for the witnesses.\<close>

definition sample_doh :: upstream where
  "sample_doh = Doh \<lparr>dh_url = ''https://d/q'', dh_socks5 = None, dh_dial_addr = None, dh_mark = None,
     dh_pool_idle_timeout = 0, dh_pool_max_idle = 10, dh_timeout = from_secs 5, dh_proxy_enabled = False,
     dh_label = ''https://d/q'', dh_bootstrap_ip = None, dh_query_timeout = Some (from_secs 2)\<rparr>"

definition sample_exchange :: "bytes option \<Rightarrow> exchange_env" where
  "sample_exchange body = \<lparr>xe_udp = sample_udp, xe_tcp = ue_tcp sample_udp, xe_http = body,
     xe_dot = \<lparr>se_connected = False, se_write = False, se_incoming = []\<rparr>,
     xe_doq = \<lparr>se_connected = False, se_write = False, se_incoming = []\<rparr>,
     xe_tunnel = \<lparr>tn_proxy = False, tn_connect = False, tn_send = False, tn_recv = (None, 0)\<rparr>\<rparr>"

definition sample_net :: "bytes option \<Rightarrow> net_env" where
  "sample_net body = \<lparr>ne_lib = sample_lib, ne_exchange = (\<lambda>now u req. (sample_exchange body, from_millis 20)),
     ne_ends = (\<lambda>now cs. cs), ne_calendar = \<lparr>cal_unix = (\<lambda>_. 0), cal_hour = (\<lambda>_. 9)\<rparr>\<rparr>"

definition sample_forward :: "string \<Rightarrow> forward_plugin" where
  "sample_forward strategy = \<lparr>fw_name = ''remote'', fw_upstreams = [sample_doh], fw_timeout = from_secs 5,
     fw_strategy = Some strategy, fw_proxy_status = None, fw_qps_monitor = pool_new\<rparr>"

definition sample_question :: message where
  "sample_question = sample_msg\<lparr>m_queries := [\<lparr>q_name = ''a.'', q_type = T_A, q_class = 1\<rparr>]\<rparr>"

definition sample_ctx :: "unit ctx" where
  "sample_ctx = ctx_new sample_question (V4 9, 5353) 7"

lemma sample_net_ends: "net_ends_ok (sample_net body)"
  by (simp add: net_ends_ok_def sample_net_def)

lemma sample_ctx_fields:
  "msg_query (request sample_ctx) = Some \<lparr>q_name = ''a.'', q_type = T_A, q_class = 1\<rparr>"
  "request_bytes sample_ctx = None" "request sample_ctx = sample_question" "fst (client_addr sample_ctx) = V4 9"
  "m_id (request sample_ctx) = 0"
  by (simp_all add: sample_ctx_def sample_question_def ctx_new_def request_bytes_def)



text \<open>C16: A reply is never made up: it is the refusal of a blocked client, the failure, both with the
  question and no answers, or what one of the plugin's upstreams answered to a query, under the ID
  of the request.\<close>

theorem forward_genuine:
  assumes "net_ends_ok N" and "forward_handle N sane p now a c = (Inr c', t, jobs, p', a')"
  shows "c' = set_response (error_reply (ne_lib N) Refused c) True c
    \<or> c' = set_response ((error_reply (ne_lib N) ServFail c)\<lparr>m_opcode := OpQuery\<rparr>) True c
    \<or> (\<exists>sent msg. answered_by N sent (fw_upstreams p) msg \<and> c' = set_response (msg\<lparr>m_id := m_id (request c)\<rparr>) True c)"
  using fwd.handled_genuine [OF assms(1), of "ne_lib N" sane p now a c c'] assms(2)
  by (simp add: forward_handle_def)

lemma sample_ask:
  "ask (sample_net (Some [0x12, 0x34])) base req now sample_doh
     = (now + from_millis 20, ''https://d/q'', Answered (sample_msg\<lparr>m_id := 0x1234\<rparr>) (from_millis 20))"
proof -
  have "from_millis 20 < from_secs 2" by (simp add: from_millis_def from_secs_def)
  moreover have "from_be [0x12, 0x34] = (0x1234 :: u16)" by (simp add: byte_simps)
  ultimately show ?thesis
    by (simp add: ask_def sample_net_def sample_doh_def sample_exchange_def effective_timeout_def with_timeout_def
        parse_message_def sample_lib_def)
qed

lemma sample_order:
  "\<exists>a'. execute_with_bytes_internal (sample_net (Some [0x12, 0x34])) id (counted (sample_forward ''order'')) sample_question ip None now a
     = (Inr (sample_msg\<lparr>m_id := 0x1234\<rparr>), now + from_millis 20, [], a')"
proof -
  have s: "fw_strategy (sample_forward ''order'') = Some ''order''"
    and u: "fw_upstreams (sample_forward ''order'') = [sample_doh]" by (simp_all add: sample_forward_def)
  have "lib_to_vec (ne_lib (sample_net (Some [0x12, 0x34]))) sample_question \<noteq> None"
    by (simp add: sample_net_def sample_lib_def)
  then obtain sent where "lib_to_vec (ne_lib (sample_net (Some [0x12, 0x34]))) sample_question = Some sent" by auto
  then show ?thesis
    by (simp add: execute_with_bytes_internal_def s u sample_ask Let_def)
qed

theorem forward_genuine_witness:
  "\<exists>c' t jobs p' a'. forward_handle (sample_net (Some [0x12, 0x34])) id (sample_forward ''order'') 7 (autopilot_new 7)
       sample_ctx = (Inr c', t, jobs, p', a')
     \<and> (c' = set_response (error_reply sample_lib Refused sample_ctx) True sample_ctx
      \<or> c' = set_response ((error_reply sample_lib ServFail sample_ctx)\<lparr>m_opcode := OpQuery\<rparr>) True
               sample_ctx
      \<or> (\<exists>sent msg. answered_by (sample_net (Some [0x12, 0x34])) sent [sample_doh] msg
           \<and> c' = set_response (msg\<lparr>m_id := 0\<rparr>) True sample_ctx))"
proof -
  note f = sample_ctx_fields
  have b: "fst (ap_client 7 (V4 9) False (autopilot_new 7)) = False"
    by (simp add: ap_client_def autopilot_new_def analyze_client_behavior_def)
  obtain a1 where b: "ap_client 7 (V4 9) False (autopilot_new 7) = (False, a1)"
    using b by (cases "ap_client 7 (V4 9) False (autopilot_new 7)") simp
  obtain a2 where e: "execute_with_bytes_internal (sample_net (Some [0x12, 0x34])) id (counted (sample_forward ''order''))
      sample_question (Some (V4 9)) None 7 a1 = (Inr (sample_msg\<lparr>m_id := 0x1234\<rparr>), 7 + from_millis 20, [], a2)"
    using sample_order by blast
  obtain c' t jobs p' a' where h: "forward_handle (sample_net (Some [0x12, 0x34])) id (sample_forward ''order'') 7 (autopilot_new 7) sample_ctx
      = (Inr c', t, jobs, p', a')"
    using f(1) by (simp add: forward_handle_def handle_with_def f(2-) b e conclude_cases)
  have i: "ne_lib (sample_net (Some [0x12, 0x34])) = sample_lib"
    "fw_upstreams (sample_forward ''order'') = [sample_doh]"
    by (simp_all add: sample_net_def sample_forward_def)
  from forward_genuine [OF sample_net_ends h, unfolded i f(5)] h show ?thesis by blast
qed

section \<open>The race\<close>

text \<open>C17: The race strategy refines a choice on the list of answers in the order they arrive: the
  first with an address, or else the first NOERROR or NXDOMAIN, or else the first; if none of
  the first five upstreams (without those behind a proxy that is down) answers, the error.\<close>

theorem race_strategy:
  assumes "fw_strategy p = Some ''race''"
  shows "fst (execute_with_bytes_internal N sane p req ip (Some sent) now a) =
    (case best_reply (replies (ne_ends N now (map (ask N (fw_timeout p) sent now) (race_upstreams 5 p)))) of
       Some msg \<Rightarrow> Inr msg
     | None \<Rightarrow> Inl (Error ''All race upstreams failed''))"
  using race_best [of no_learning "''All race upstreams failed''" N "fw_timeout p" sent "race_upstreams 5 p" now a]
  by (simp add: execute_with_bytes_internal_def assms split_beta Let_def)

theorem race_strategy_witness:
  "fst (execute_with_bytes_internal (sample_net (Some [0x12, 0x34])) id (sample_forward ''race'') sample_question None
      (Some [0, 0]) 7 (autopilot_new 7)) = Inr (sample_msg\<lparr>m_id := 0x1234\<rparr>)"
proof -
  have "fw_strategy (sample_forward ''race'') = Some ''race''" by (simp add: sample_forward_def)
  moreover have "race_upstreams 5 (sample_forward ''race'') = [sample_doh]"
    by (simp add: race_upstreams_def sample_forward_def proxy_ok_def sample_doh_def)
  moreover have "ne_ends (sample_net b) now cs = cs" for b now cs by (simp add: sample_net_def)
  moreover have "best_reply [m] = Some m" for m by (simp add: best_reply_def)
  ultimately show ?thesis by (subst race_strategy) (simp_all add: sample_ask)
qed

section \<open>What is sent\<close>

text \<open>With the strategies \<open>order\<close> and \<open>race\<close> the bytes of the packet are sent as they came: what the
  plugins before wrote into the request, such as a client subnet, is lost.\<close>

lemma rewrites_not_sent:
  assumes "fw_strategy p \<noteq> Some ''smart''"
  shows "execute_with_bytes_internal N sane p req ip (Some sent) now a = execute_with_bytes_internal N sane p req' ip (Some sent) now a"
  using assms by (auto simp: execute_with_bytes_internal_def Let_def split: option.split)

section \<open>Addresses that are kept\<close>

lemma in_map_filter: "x \<in> set (List.map_filter f xs) \<longleftrightarrow> (\<exists>y \<in> set xs. f y = Some x)"
  by (induction xs) (auto simp: List.map_filter_def)

lemma known_reachable:
  "(ip, l) \<in> set (known_ips now tbl ips) \<Longrightarrow> ip \<in> set ips \<and> (\<exists>q. tbl ip = Some q \<and> iq_reachable q)"
  by (auto simp: known_ips_def in_map_filter get_ip_quality_fresh_def split: if_splits option.splits)

lemma in_rr_ips: "ip \<in> set (rr_ips v4 rs) \<Longrightarrow> \<exists>r \<in> set rs. rdata_ip (rr_data r) = Some ip"
  by (auto simp: rr_ips_def in_map_filter)

lemma kept_known:
  assumes "known \<noteq> []"
  obtains ip l where "(ip, l) \<in> set known" and "ip \<in> set (kept_ips known unknown)"
proof -
  obtain x xs where x: "sort_key snd known = x # xs"
    using assms by (metis list.exhaust length_0_conv length_sort)
  then have "x \<in> set known" by (metis list.set_intros(1) set_sort)
  moreover have "fst x \<in> set (kept_ips known unknown)" using assms by (simp add: kept_ips_def x)
  ultimately show ?thesis by (intro that [of "fst x" "snd x"]) simp_all
qed

text \<open>The choice of addresses never takes the last usable one: an answer is left as it is, or
  keeps an address that is known to be reachable.\<close>

lemma filter_best_ips_keeps:
  "filter_best_ips now tbl limit resp = resp \<or>
     (\<exists>r ip q. r \<in> set (m_answers resp) \<and> r \<in> set (m_answers (filter_best_ips now tbl limit resp))
        \<and> rdata_ip (rr_data r) = Some ip \<and> tbl ip = Some q \<and> iq_reachable q)"
proof -
  let ?v4 = "rr_ips True (m_answers resp)" and ?v6 = "rr_ips False (m_answers resp)"
  let ?k4 = "known_ips now tbl ?v4" and ?k6 = "known_ips now tbl ?v6"
  let ?keep = "kept_ips ?k4 (unknown_ips now tbl ?v4) @ kept_ips ?k6 (unknown_ips now tbl ?v6)"
  show ?thesis
  proof (cases "limit \<and> (?k4 \<noteq> [] \<or> ?k6 \<noteq> [])")
    case False
    then show ?thesis by (auto simp: filter_best_ips_def Let_def)
  next
    case True
    then obtain ip l v4 where ip: "(ip, l) \<in> set (known_ips now tbl (rr_ips v4 (m_answers resp)))" "ip \<in> set ?keep"
      by (metis kept_known Un_iff set_append)
    from known_reachable [OF ip(1)] in_rr_ips obtain r q where
      r: "r \<in> set (m_answers resp)" "rdata_ip (rr_data r) = Some ip" "tbl ip = Some q" "iq_reachable q" by blast
    from ip(2) have "?keep \<noteq> []" by auto
    with True ip(2) r(1,2) have "r \<in> set (m_answers (filter_best_ips now tbl limit resp))"
      by (cases ip) (auto simp: filter_best_ips_def Let_def)
    with r show ?thesis by blast
  qed
qed
section \<open>The hook\<close>

lemma filter_best_ips_id [simp]:
  "m_id (filter_best_ips now tbl limit resp) = m_id resp" "m_id (set_address_ttl t resp) = m_id resp"
  by (simp_all add: filter_best_ips_def set_address_ttl_def Let_def)

lemma smart_ttl_id [simp]: "m_id (fst (smart_ttl_applied now d ips t resp a)) = m_id resp"
  by (simp add: smart_ttl_applied_def Let_def split: option.split)

text \<open>The hook rewrites answers, never the query or the ID.\<close>

lemma forward_hook_keeps:
  "query_ident (fst (forward_on_response now a c)) = query_ident c
     \<and> (reply_ok c \<longrightarrow> reply_ok (fst (forward_on_response now a c)))"
proof (cases "response c")
  case None
  then show ?thesis by (simp add: forward_on_response_def)
next
  case (Some resp)
  have "m_id resp = m_id (request c)" if "reply_ok c" using that Some by (rule reply_ok_response)
  then show ?thesis by (simp add: forward_on_response_def Some split_beta Let_def reply_ok_put)
qed

text \<open>An answer with a poisoned address becomes a SERVFAIL that still carries the address.\<close>

lemma poison_kept:
  assumes "response c = Some resp" and "m_rcode resp = NoError" and "list_ex is_known_poison_ip (response_ips resp)"
  shows "response (fst (forward_on_response now a c)) = Some (resp\<lparr>m_rcode := ServFail\<rparr>)"
  using assms by (simp add: forward_on_response_def Let_def)

section \<open>Upstreams that are never asked again\<close>

text \<open>A state in which a smart plugin is cut off: each of its upstreams degrades and is of a kind that
  the health loop does not probe (DoH, QUIC), and the memory recommends none of them.\<close>

definition cut_off :: "forward_plugin \<Rightarrow> autopilot \<Rightarrow> bool" where
  "cut_off p a \<longleftrightarrow>
     (\<forall>u \<in> set (fw_upstreams p). is_upstream_degrading (get_label u) (ap_health a)
        \<and> classify_probe_type (get_label u) = None)
   \<and> (\<forall>(d, m) \<in> set (ln_domains (ap_learning a)) \<union> set (ln_clients (ap_learning a)). dm_best m \<notin> get_label ` set (fw_upstreams p))"

lemma cut_off_counted [simp]: "cut_off (counted p) a = cut_off p a"
  by (simp add: cut_off_def)

lemma register_degrading: "is_upstream_degrading l h \<Longrightarrow> is_upstream_degrading l (register_upstream now l' h)"
  by (auto simp: is_upstream_degrading_def register_upstream_def get_metrics_def find_append split: option.splits)

lemma fold_register_degrading:
  "is_upstream_degrading l (ap_health a) \<Longrightarrow> is_upstream_degrading l (ap_health (fold (\<lambda>u. ap_register now (get_label u)) us a))"
  by (induction us arbitrary: a) (simp_all add: ap_register_def register_degrading)

lemma fold_register_learning:
  "ap_learning (fold (\<lambda>u. ap_register now (get_label u)) us a) = ap_learning a"
  by (induction us arbitrary: a) (simp_all add: ap_register_def)

lemma ranked_degrading:
  "ap_ranked now scope a = (ranks, a') \<Longrightarrow> is_upstream_degrading l (ap_health a') = is_upstream_degrading l (ap_health a)"
  "ap_ranked now scope a = (ranks, a') \<Longrightarrow> ap_learning a' = ap_learning a"
  by (auto simp: ap_ranked_def get_ranked_upstreams_cached_def is_upstream_degrading_def get_metrics_def Let_def
      split: if_splits)

lemma cut_off_available:
  assumes "cut_off p a" and "smart_available C p domain now a = (us, a')"
  shows "us = [] \<and> cut_off p a'"
proof -
  let ?r = "fold (\<lambda>u. ap_register now (get_label u)) (fw_upstreams p) a"
  obtain ranked a2 where r: "ap_ranked now (smart_scope p) ?r = (ranked, a2)" by fastforce
  with assms(2) have "a2 = a'" by (simp add: smart_available_def Let_def)
  note r = r [unfolded this]
  have deg: "is_upstream_degrading (get_label u) (ap_health a')" if "u \<in> set (fw_upstreams p)" for u
    using assms(1) that fold_register_degrading [of "get_label u" a now "fw_upstreams p"] ranked_degrading(1) [OF r]
    by (simp add: cut_off_def)
  have learned: "ap_learning a' = ap_learning a" using ranked_degrading(2) [OF r] by (simp add: fold_register_learning)
  have "us = []"
  proof (rule ccontr)
    assume "us \<noteq> []"
    then obtain u where u: "u \<in> set us" by (cases us) auto
    with smart_available_subset [OF assms(2)] have "u \<in> set (fw_upstreams p)" by blast
    from deg [OF this] u assms(2) r show False
      by (auto simp: smart_available_def Let_def dest: in_set_takeD)
  qed
  with deg learned assms(1) show ?thesis by (simp add: cut_off_def)
qed

lemma set_delete: "x \<in> set (AList.delete k xs) \<Longrightarrow> x \<in> set xs"
  by (induction xs) (auto split: if_splits)

lemma recommended_from:
  assumes "fst (ap_best_upstream now d ip a) = Some l"
  shows "\<exists>k m. (k, m) \<in> set (ln_domains (ap_learning a)) \<union> set (ln_clients (ap_learning a)) \<and> dm_best m = l"
proof -
  have dom: "\<exists>k m. (k, m) \<in> set (ln_domains x) \<and> dm_best m = l"
    if "fst (get_domain_best_upstream_lower now d x) = Some l" for x
    using that by (auto simp: get_domain_best_upstream_lower_def Let_def split: option.splits if_splits dest!: map_of_SomeD)
  show ?thesis
  proof (cases ip)
    case None
    with assms dom [of "ap_learning a"] show ?thesis by (auto simp: ap_best_upstream_def split_beta)
  next
    case (Some i)
    show ?thesis
    proof (cases "fst (get_domain_best_upstream_lower now d (ap_learning a)) = Some l")
      case True
      from dom [OF this] show ?thesis by blast
    next
      case False
      with assms Some show ?thesis
        by (auto simp: ap_best_upstream_def get_domain_best_upstream_for_client_lower_def split_beta
            split: option.splits if_splits dest!: map_of_SomeD)
    qed
  qed
qed

lemma best_upstream_keeps:
  assumes "ap_best_upstream now d ip a = (best, a')"
  shows "ap_health a' = ap_health a"
    and "set (ln_domains (ap_learning a')) \<subseteq> set (ln_domains (ap_learning a)) \<and> ln_clients (ap_learning a') = ln_clients (ap_learning a)"
  using assms set_delete
  by (auto simp: ap_best_upstream_def get_domain_best_upstream_for_client_lower_def get_domain_best_upstream_lower_def
      Let_def split_beta split: option.splits if_splits)

lemma cut_off_fast:
  assumes "cut_off p a" and "smart_fast N p sent domain ip now a = (r, t, jobs, a')"
  shows "r = None \<and> t = now \<and> jobs = [] \<and> cut_off p a'"
proof (cases domain)
  case None
  with assms show ?thesis by (simp add: smart_fast_def)
next
  case (Some d)
  obtain best a1 where best: "ap_best_upstream now (normalize_domain_lower d) ip a = (best, a1)" by fastforce
  note b = best_upstream_keeps [OF best]
  have "Option.bind best (\<lambda>label. find (\<lambda>u. get_label u = label) (fw_upstreams p)) = None"
  proof (cases best)
    case (Some l)
    with recommended_from [of now "normalize_domain_lower d" ip a l] best assms(1) have "l \<notin> get_label ` set (fw_upstreams p)" by (fastforce simp: cut_off_def)
    with Some show ?thesis by (auto simp: find_None_iff)
  qed simp
  moreover have "cut_off p a1" using assms(1) b by (fastforce simp: cut_off_def)
  ultimately show ?thesis using assms(2) Some best by (simp add: smart_fast_def)
qed

lemma cut_off_cong: "ap_health a' = ap_health a \<and> ap_learning a' = ap_learning a \<Longrightarrow> cut_off p a' = cut_off p a"
  by (simp add: cut_off_def)

lemma cut_off_execute:
  assumes "cut_off p a" and "execute_smart N sane p req ip now a = (r, t, jobs, a')"
  shows "(\<exists>e. r = Inl (Error e)) \<and> jobs = [] \<and> cut_off p a'"
  using assms(2)
proof (cases rule: execute_smart_cases)
  case (Unsent e)
  with assms(1) cut_off_cong show ?thesis by blast
next
  case (Fast sent domain a1)
  with cut_off_cong [OF Fast(2)] assms(1) cut_off_fast show ?thesis by blast
next
  case (Routed sent domain a1 t1 jobs1 a2)
  with cut_off_cong [OF Routed(3)] assms(1) have a2: "cut_off p a2" using cut_off_fast by blast
  obtain us a3 where us: "smart_available (ne_calendar N) p domain t1 a2 = (us, a3)" by fastforce
  with cut_off_available [OF a2 us] Routed(2) show ?thesis by (auto simp: smart_routed_def)
qed

lemma find_update_first:
  assumes "\<And>m. um_label (f m) = um_label m" and "l \<noteq> label"
  shows "find (\<lambda>u. um_label u = l) (update_first label f us) = find (\<lambda>u. um_label u = l) us"
  using assms by (induction us) auto

lemma probe_keeps_degrading:
  assumes "classify_probe_type l = None"
  shows "is_upstream_degrading l (probe_one started done outcome label h) = is_upstream_degrading l h"
proof (cases "classify_probe_type label")
  case None
  then show ?thesis by (simp add: probe_one_def split: option.split)
next
  case (Some ptype)
  with assms have "l \<noteq> label" by auto
  then show ?thesis
    by (simp add: probe_one_def Some record_probe_def is_upstream_degrading_def get_metrics_def find_update_first split: option.split)
qed

text \<open>The smart strategy gives up an upstream for good.  When every upstream of a plugin is a DoH or
  QUIC one that has failed twice in a row (or has become slow), and none is remembered for a
  domain, every query is answered with SERVFAIL (or REFUSED) without asking any of them, the
  health loop does not probe them, and the state stays so for every query that follows.\<close>

lemma degraded_forever:
  assumes "fw_strategy p = Some ''smart''" and "cut_off p a" and "msg_query (request c) = Some q"
    and "forward_handle N sane p now a c = (r, t, jobs, p', a')"
  shows "cut_off p' a' \<and> cut_off p' (a'\<lparr>ap_health := probe_one started done outcome label (ap_health a')\<rparr>)
     \<and> jobs = [] \<and> (r = Inr (set_response (error_reply (ne_lib N) Refused c) True c)
        \<or> r = Inr (set_response ((error_reply (ne_lib N) ServFail c)\<lparr>m_opcode := OpQuery\<rparr>) True c))"
proof -
  obtain blocked a1 where b: "ap_client now (fst (client_addr c)) False a = (blocked, a1)" by fastforce
  then have "ap_health a1 = ap_health a \<and> ap_learning a1 = ap_learning a" by (auto simp: ap_client_def split: prod.splits)
  with assms(2) have a1: "cut_off p a1" using cut_off_cong by blast
  obtain res t1 jobs1 a2 where e: "execute_smart N sane (counted p) (request c) (Some (fst (client_addr c))) now a1 = (res, t1, jobs1, a2)"
    by (cases "execute_smart N sane (counted p) (request c) (Some (fst (client_addr c))) now a1") auto
  from cut_off_execute [OF _ e] a1 obtain err where err: "res = Inl (Error err)" "jobs1 = []" "cut_off p a2" by auto
  from b e err assms(1,3,4) have "p' = counted p \<and> jobs = [] \<and> cut_off p a'
     \<and> (r = Inr (set_response (error_reply (ne_lib N) Refused c) True c)
        \<or> r = Inr (set_response ((error_reply (ne_lib N) ServFail c)\<lparr>m_opcode := OpQuery\<rparr>) True c))"
    using a1 by (auto simp: forward_handle_def handle_with_def execute_with_bytes_internal_def conclude_cases split: if_splits)
  then show ?thesis by (auto simp: cut_off_def probe_keeps_degrading)
qed

text \<open>Two failures, and a query.\<close>

theorem degraded_forever_witness:
  "\<exists>r t jobs p' a'. forward_handle (sample_net (Some [0x12, 0x34])) id (sample_forward ''smart'') 7
       (ap_failure 2 ''https://d/q'' (ap_failure 1 ''https://d/q'' (ap_register 0 ''https://d/q'' (autopilot_new 0)))) sample_ctx
      = (r, t, jobs, p', a')
     \<and> cut_off p' a' \<and> (r = Inr (set_response (error_reply sample_lib Refused sample_ctx) True sample_ctx)
        \<or> r = Inr (set_response ((error_reply sample_lib ServFail sample_ctx)\<lparr>m_opcode := OpQuery\<rparr>) True sample_ctx))"
proof -
  let ?a = "ap_failure 2 ''https://d/q'' (ap_failure 1 ''https://d/q'' (ap_register 0 ''https://d/q'' (autopilot_new 0)))"
  have s: "fw_strategy (sample_forward ''smart'') = Some ''smart''" by (simp add: sample_forward_def)
  have l: "ln_domains (ap_learning ?a) = [] \<and> ln_clients (ap_learning ?a) = []"
    by (simp add: ap_failure_def ap_register_def autopilot_new_def learning_new_def)
  have "is_upstream_degrading ''https://d/q'' (ap_health ?a)"
    by (simp add: ap_failure_def ap_register_def autopilot_new_def record_failure_def record_probe_def register_upstream_def
        health_new_def get_metrics_def um_new_def um_record_probe_def record_loss_def update_score_def
        is_upstream_degrading_def degrading_def failure_threshold_for_label_def is_loopback_label_def Let_def)
  moreover have "classify_probe_type ''https://d/q'' = None"
    by (simp add: classify_probe_type_def starts_with_def to_lower_def Let_def)
  ultimately have c: "cut_off (sample_forward ''smart'') ?a"
    using l by (simp add: cut_off_def sample_forward_def sample_doh_def)
  obtain r t jobs p' a' where h: "forward_handle (sample_net (Some [0x12, 0x34])) id (sample_forward ''smart'') 7 ?a sample_ctx
      = (r, t, jobs, p', a')"
    by (cases "forward_handle (sample_net (Some [0x12, 0x34])) id (sample_forward ''smart'') 7 ?a sample_ctx") auto
  have lib: "ne_lib (sample_net b) = sample_lib" for b by (simp add: sample_net_def)
  from degraded_forever [OF s c sample_ctx_fields(1) h, unfolded lib] h show ?thesis by blast
qed

end
