(* ===== verification/Smart_Forward.thy ===== *)
theory Smart_Forward
  imports Forward Response_Rewrite Stats
begin

text \<open>
  \<open>src/plugins/smart_forward.rs\<close>: a query goes to the local upstreams or to the
  \<open>fakeip\<close> ones, by what is remembered of the domain or else by where the addresses lie
  that a probe of the local upstreams gives.

  The address list and the country database are those of \<open>ip_matcher\<close> and \<open>geoip\<close>.
  The caches of the crate \<open>moka\<close> are maps with the instant of the insertion; an entry is
  not returned when its time to live has passed, and may be dropped at any time
  (\<open>sm_evict\<close>).
\<close>

section \<open>The plugin\<close>

datatype target =
    Single upstream string nat
  | Group forward_plugin string

fun target_label :: "target \<Rightarrow> string" where
  "target_label (Single u label timeout) = label"
| "target_label (Group p label) = label"

definition matches_label :: "target \<Rightarrow> string \<Rightarrow> bool" where
  "matches_label t label \<longleftrightarrow> target_label t = label \<or>
     (case t of Group p _ \<Rightarrow> list_ex (\<lambda>u. get_label u = label) (fw_upstreams p) | Single _ _ _ \<Rightarrow> False)"

record 'n smart_forward =
  sm_local :: target
  sm_fakeip :: target
  sm_fallback :: "target option"
  sm_avoid_fakeip_on_domestic :: bool
  sm_prefer_local_on_miss :: bool
  sm_suffix_labels :: "string list list"
  sm_ip_matcher :: "'n list option"
  sm_geoip :: geoip
  sm_cache_ttl :: nat
  sm_learned :: "string \<rightharpoonup> bool \<times> nat"
  sm_domains :: "string \<rightharpoonup> bool \<times> u64"
  sm_channel :: "(string \<times> bool) list"
  sm_ip_class :: "ip_addr \<rightharpoonup> bool \<times> nat"
  sm_persist :: "(string \<times> bool) list option"
  sm_persist_max :: nat

section \<open>Construction\<close>

definition positive_ms :: "string \<Rightarrow> u64 option \<Rightarrow> u64 result" where
  "positive_ms what ms =
     (case ms of
        Some v \<Rightarrow> if 0 < v then Inr v else Inl (Error (what @ '' must be > 0''))
      | None \<Rightarrow> Inl (Error (''requires '' @ what)))"

text \<open>A group of upstreams if there are any, else the single one; each label is registered.\<close>

definition make_group ::
  "dns_lib \<Rightarrow> net_lib \<Rightarrow> forward_tuning \<Rightarrow> nat \<Rightarrow> string \<Rightarrow> string \<Rightarrow> string \<Rightarrow> upstream_config list \<Rightarrow> string option
     \<Rightarrow> u64 \<Rightarrow> autopilot \<Rightarrow> target \<times> autopilot" where
  "make_group L NL tuning now name part dflt confs strategy ms a =
     (let (fp, a) = forward_new L NL now (name @ ''::'' @ part) confs
            (Some (case strategy of Some s \<Rightarrow> s | None \<Rightarrow> dflt)) (unat ms) tuning a;
          label = name @ '':'' @ part
      in (Group fp label, ap_register now label a))"

definition make_target ::
  "dns_lib \<Rightarrow> net_lib \<Rightarrow> forward_tuning \<Rightarrow> nat \<Rightarrow> string \<Rightarrow> string \<Rightarrow> upstream_config list \<Rightarrow> string option
     \<Rightarrow> upstream_config option \<Rightarrow> u64 \<Rightarrow> autopilot \<Rightarrow> target result \<times> autopilot" where
  "make_target L NL tuning now name part confs strategy conf ms a =
     (if confs \<noteq> []
      then (let (t, a) = make_group L NL tuning now name part ''smart'' confs strategy ms a in (Inr t, a))
      else case conf of
             None \<Rightarrow> (Inl (Error (''SmartForward '' @ part @ '' is missing'')), a)
           | Some conf \<Rightarrow>
               (case upstream_new L NL conf tuning of
                  Inl e \<Rightarrow> (Inl e, a)
                | Inr u \<Rightarrow> (Inr (Single u (get_label u) (from_millis (unat ms))), ap_register now (get_label u) a)))"

text \<open>The labels of the suffixes, each suffix without its dots at the ends.\<close>

definition suffix_labels :: "string list \<Rightarrow> string list list" where
  "suffix_labels ss =
     filter (\<lambda>parts. parts \<noteq> [])
       (map (\<lambda>s. filter (\<lambda>p. p \<noteq> []) (split_on CHR ''.''
               (trim_end_matches CHR ''.'' (dropWhile (\<lambda>c. c = CHR ''.'') (to_lower s))))) ss)"

text \<open>The entries of a saved file, at most \<open>max_entries\<close> of them.\<close>

definition clean_entries :: "nat \<Rightarrow> (string \<times> bool) list \<Rightarrow> (string \<times> bool) list" where
  "clean_entries max_entries data =
     take max_entries (filter (\<lambda>(d, _). d \<noteq> [])
       (map (\<lambda>(d, b). (trim_end_matches CHR ''.'' (normalize_domain_lower d), b)) data))"

definition domain_class_ttl :: u64 where
  "domain_class_ttl = 900"

definition sat_add :: "u64 \<Rightarrow> u64 \<Rightarrow> u64" where
  "sat_add a b = (if a + b < a then - 1 else a + b)"

definition load_entry :: "nat \<Rightarrow> u64 \<Rightarrow> string \<times> bool \<Rightarrow> 'n smart_forward \<Rightarrow> 'n smart_forward" where
  "load_entry now unix e p =
     (let (d, is_cn) = e in
      p\<lparr>sm_learned := (sm_learned p)(d \<mapsto> (is_cn, now)),
        sm_persist := map_option (AList.update d is_cn) (sm_persist p),
        sm_domains := (sm_domains p)(d \<mapsto> (is_cn, sat_add unix domain_class_ttl))\<rparr>)"

definition load_learning :: "nat \<Rightarrow> u64 \<Rightarrow> (string \<times> bool) list \<Rightarrow> 'n smart_forward \<Rightarrow> 'n smart_forward" where
  "load_learning now unix data p = fold (load_entry now unix) (clean_entries (sm_persist_max p) data) p"

text \<open>The arguments of the constructor.  The file is one that cannot be read (\<open>Some None\<close>) or
  has entries.\<close>

record smart_conf =
  sc_name :: string
  sc_local :: "upstream_config option"
  sc_fakeip :: "upstream_config option"
  sc_local_upstreams :: "upstream_config list"
  sc_fakeip_upstreams :: "upstream_config list"
  sc_local_strategy :: "string option"
  sc_fakeip_strategy :: "string option"
  sc_local_timeout_ms :: "u64 option"
  sc_fakeip_timeout_ms :: "u64 option"
  sc_fallback_upstreams :: "upstream_config list"
  sc_fallback_strategy :: "string option"
  sc_fallback_timeout_ms :: "u64 option"
  sc_avoid_fakeip_on_domestic :: bool
  sc_prefer_local_on_miss :: bool
  sc_domestic_suffixes :: "string list"
  sc_cache_file :: "(string \<times> bool) list option option"
  sc_cache_max_entries :: "nat option"
  sc_cache_ttl_secs :: "nat option"

definition smart_new ::
  "dns_lib \<Rightarrow> net_lib \<Rightarrow> forward_tuning \<Rightarrow> nat \<Rightarrow> u64 \<Rightarrow> smart_conf \<Rightarrow> 'n list option \<Rightarrow> geoip \<Rightarrow> autopilot
     \<Rightarrow> 'n smart_forward result \<times> autopilot" where
  "smart_new L NL tuning now unix C matcher g a =
     (case andthen (positive_ms ''local_timeout_ms'' (sc_local_timeout_ms C)) (\<lambda>lt.
           andthen (positive_ms ''fakeip_timeout_ms'' (sc_fakeip_timeout_ms C)) (\<lambda>ft.
           andthen (if sc_fallback_upstreams C = [] then Inr 0
                    else positive_ms ''local_fallback_timeout_ms'' (sc_fallback_timeout_ms C)) (\<lambda>bt. Inr (lt, ft, bt)))) of
        Inl e \<Rightarrow> (Inl e, a)
      | Inr (lt, ft, bt) \<Rightarrow>
          (case make_target L NL tuning now (sc_name C) ''local'' (sc_local_upstreams C) (sc_local_strategy C)
                  (sc_local C) lt a of
             (Inl e, a) \<Rightarrow> (Inl e, a)
           | (Inr lo, a) \<Rightarrow>
               (case make_target L NL tuning now (sc_name C) ''fake'' (sc_fakeip_upstreams C) (sc_fakeip_strategy C)
                       (sc_fakeip C) ft a of
                  (Inl e, a) \<Rightarrow> (Inl e, a)
                | (Inr fake, a) \<Rightarrow>
                    let (fallback, a) =
                          (if sc_fallback_upstreams C = [] then (None, a)
                           else let (t, a) = make_group L NL tuning now (sc_name C) ''local_fallback'' ''race''
                                  (sc_fallback_upstreams C) (sc_fallback_strategy C) bt a in (Some t, a));
                        max_entries = (case sc_cache_max_entries C of Some n \<Rightarrow> n | None \<Rightarrow> 10000);
                        ttl_secs = (case sc_cache_ttl_secs C of Some n \<Rightarrow> n | None \<Rightarrow> 3600);
                        p = \<lparr>sm_local = lo, sm_fakeip = fake, sm_fallback = fallback,
                             sm_avoid_fakeip_on_domestic = sc_avoid_fakeip_on_domestic C,
                             sm_prefer_local_on_miss = sc_prefer_local_on_miss C,
                             sm_suffix_labels = suffix_labels (sc_domestic_suffixes C),
                             sm_ip_matcher = matcher, sm_geoip = g, sm_cache_ttl = from_secs ttl_secs,
                             sm_learned = Map.empty, sm_domains = Map.empty, sm_channel = [], sm_ip_class = Map.empty,
                             sm_persist = map_option (\<lambda>_. []) (sc_cache_file C), sm_persist_max = max_entries\<rparr>
                    in if max_entries = 0 then (Inl (Error ''learning_cache_max_entries must be > 0''), a)
                       else if ttl_secs = 0 then (Inl (Error ''learning_cache_ttl_secs must be > 0''), a)
                       else (Inr (case sc_cache_file C of
                                    Some (Some data) \<Rightarrow> load_learning now unix data p
                                  | _ \<Rightarrow> p), a))))"

section \<open>Learning\<close>

text \<open>Entries beyond the maximum are dropped, in the order of the iteration.\<close>

definition trim_persist_data :: "nat \<Rightarrow> (string \<times> bool) list \<Rightarrow> (string \<times> bool) list" where
  "trim_persist_data max_entries es = drop (length es - max_entries) es"

definition apply_learning :: "nat \<Rightarrow> u64 \<Rightarrow> string \<Rightarrow> bool \<Rightarrow> 'n smart_forward \<Rightarrow> 'n smart_forward" where
  "apply_learning now unix domain is_cn p =
     p\<lparr>sm_learned := (sm_learned p)(domain \<mapsto> (is_cn, now)),
       sm_persist := map_option (\<lambda>es. trim_persist_data (sm_persist_max p) (AList.update domain is_cn es)) (sm_persist p),
       sm_domains := (sm_domains p)(domain \<mapsto> (is_cn, sat_add unix domain_class_ttl))\<rparr>"

text \<open>The task that receives what was learned, and an entry that the cache drops.\<close>

definition learning_recv :: "nat \<Rightarrow> u64 \<Rightarrow> 'n smart_forward \<Rightarrow> 'n smart_forward" where
  "learning_recv now unix p =
     (case sm_channel p of
        [] \<Rightarrow> p
      | (domain, is_cn) # rest \<Rightarrow> apply_learning now unix domain is_cn (p\<lparr>sm_channel := rest\<rparr>))"

definition sm_evict :: "string \<Rightarrow> 'n smart_forward \<Rightarrow> 'n smart_forward" where
  "sm_evict domain p = p\<lparr>sm_learned := (sm_learned p)(domain := None)\<rparr>"

text \<open>A full channel: the handler spawns a task that inserts the entry, which is taken as done at
  once.\<close>

definition record_learning :: "nat \<Rightarrow> u64 \<Rightarrow> string \<Rightarrow> bool \<Rightarrow> 'n smart_forward \<Rightarrow> 'n smart_forward" where
  "record_learning now unix domain is_cn p =
     (let domain_clean = trim_end_matches CHR ''.'' (normalize_domain_lower domain) in
      if domain_clean = [] then p
      else if length (sm_channel p) < 4096 then p\<lparr>sm_channel := sm_channel p @ [(domain_clean, is_cn)]\<rparr>
      else apply_learning now unix domain_clean is_cn p)"

definition get_domain_cache :: "u64 \<Rightarrow> string \<Rightarrow> 'n smart_forward \<Rightarrow> bool option \<times> 'n smart_forward" where
  "get_domain_cache unix domain p =
     (let domain_clean = trim_end_matches CHR ''.'' domain;
          forget = p\<lparr>sm_domains := (sm_domains p)(domain_clean := None)\<rparr>
      in case sm_domains p domain_clean of
           Some (is_cn, expires_at) \<Rightarrow> if unix \<le> expires_at then (Some is_cn, p) else (None, forget)
         | None \<Rightarrow> (None, forget))"

definition get_learned :: "nat \<Rightarrow> string \<Rightarrow> 'n smart_forward \<Rightarrow> bool option" where
  "get_learned now name p =
     (case sm_learned p name of
        Some (is_cn, t) \<Rightarrow> if now - t < sm_cache_ttl p then Some is_cn else None
      | None \<Rightarrow> None)"

section \<open>Classification\<close>

text \<open>Whether an address is domestic: the cache, the list, the country database.\<close>

definition class_of_ip :: "'n ipnet_lib \<Rightarrow> nat \<Rightarrow> ip_addr \<Rightarrow> 'n smart_forward \<Rightarrow> bool \<times> 'n smart_forward" where
  "class_of_ip I now ip p =
     (case (case sm_ip_class p ip of Some (b, t) \<Rightarrow> if now - t < from_secs 3600 then Some b else None | None \<Rightarrow> None) of
        Some b \<Rightarrow> (b, p)
      | None \<Rightarrow>
          let (is_cn, g) =
            (if (case sm_ip_matcher p of Some cidrs \<Rightarrow> im_matches I cidrs ip | None \<Rightarrow> False) then (True, sm_geoip p)
             else check_ip ip (sm_geoip p))
          in (is_cn, p\<lparr>sm_geoip := g, sm_ip_class := (sm_ip_class p)(ip \<mapsto> (is_cn, now))\<rparr>))"

text \<open>The loop over the addresses of a section, up to the first domestic one.\<close>

fun classify_ips :: "'n ipnet_lib \<Rightarrow> nat \<Rightarrow> ip_addr list \<Rightarrow> 'n smart_forward \<Rightarrow> bool \<times> 'n smart_forward" where
  "classify_ips I now [] p = (False, p)"
| "classify_ips I now (ip # ips) p =
     (let (is_cn, p) = class_of_ip I now ip p in if is_cn then (True, p) else classify_ips I now ips p)"

definition section_ips :: "rr list \<Rightarrow> ip_addr list" where
  "section_ips rs = List.map_filter (\<lambda>r. rdata_ip (rr_data r)) rs"

text \<open>Whether an address is domestic, and whether there is one: the additional section counts
  only when the answers have no address.\<close>

definition classify_response ::
  "'n ipnet_lib \<Rightarrow> nat \<Rightarrow> message \<Rightarrow> 'n smart_forward \<Rightarrow> (bool \<times> bool) \<times> 'n smart_forward" where
  "classify_response I now resp p =
     (let ips = section_ips (m_answers resp);
          ips = (if ips \<noteq> [] then ips else section_ips (m_additionals resp));
          (is_cn, p) = classify_ips I now ips p
      in ((is_cn, ips \<noteq> []), p))"

text \<open>The labels of a suffix at the end of a name.\<close>

definition suffix_matches :: "string \<Rightarrow> nat \<Rightarrow> (nat \<times> nat) list \<Rightarrow> string list \<Rightarrow> bool" where
  "suffix_matches name domain_len ranges labels \<longleftrightarrow>
     labels \<noteq> [] \<and> length labels \<le> length ranges \<and>
     list_all (\<lambda>((start, stop), label). stop \<le> domain_len \<and> drop start (take stop name) = label)
       (zip (drop (length ranges - length labels) ranges) labels)"

definition is_domestic_domain_lower :: "string \<Rightarrow> (nat \<times> nat) list \<Rightarrow> 'n smart_forward \<Rightarrow> bool" where
  "is_domestic_domain_lower name ranges p =
     (let domain = trim_end_matches CHR ''.'' name in
      if sm_suffix_labels p = [] then ends_with domain ''.cn''
      else ranges \<noteq> [] \<and> list_ex (suffix_matches name (length domain) ranges) (sm_suffix_labels p))"

section \<open>The handler\<close>

text \<open>A query on its way: the network, the request with its bytes, the name with its label ranges,
  the client.  The state is what the handler changes.\<close>

record 'n smart_query =
  mq_net :: net_env
  mq_sane :: "edns \<Rightarrow> edns"
  mq_ipnet :: "'n ipnet_lib"
  mq_request :: message
  mq_bytes :: bytes
  mq_qname :: string
  mq_ranges :: "(nat \<times> nat) list"
  mq_client :: ip_addr

record 'n smart_state =
  ss_plugin :: "'n smart_forward"
  ss_ap :: autopilot
  ss_stats :: dns_stats
  ss_now :: nat
  ss_jobs :: "net_job list"

definition unix_at :: "'n smart_query \<Rightarrow> nat \<Rightarrow> u64" where
  "unix_at Q now = word_of_nat (cal_unix (ne_calendar (mq_net Q)) now)"

definition guarded :: "'n smart_query \<Rightarrow> 'n smart_forward \<Rightarrow> bool" where
  "guarded Q p \<longleftrightarrow> sm_avoid_fakeip_on_domestic p \<and> is_domestic_domain_lower (mq_qname Q) (mq_ranges Q) p"

text \<open>A single upstream that runs into its timeout is not held to account for it.\<close>

definition exchange_target :: "'n smart_query \<Rightarrow> target \<Rightarrow> nat \<Rightarrow> autopilot \<Rightarrow> executed" where
  "exchange_target Q t now a =
     (case t of
        Single u label timeout \<Rightarrow>
          (let (X, elapsed) = ne_exchange (mq_net Q) now u (mq_bytes Q) in
           case with_timeout (Some timeout) (exchange_result (ne_lib (mq_net Q)) X u, elapsed) of
             Elapsed \<Rightarrow> (Inl (Error ''Timeout''), now + timeout, [], a)
           | In_Time (Inr msg) \<Rightarrow> (Inr msg, now + elapsed, [], ap_success (now + elapsed) (get_label u) (elapsed_ms elapsed) a)
           | In_Time (Inl (Error e)) \<Rightarrow> (Inl (Error e), now + elapsed, [], ap_failure (now + elapsed) (get_label u) a)
           | In_Time (Inl Panic) \<Rightarrow> (Inl Panic, now + elapsed, [], a))
      | Group p label \<Rightarrow>
          execute_with_bytes_internal (mq_net Q) (mq_sane Q) p (mq_request Q) (Some (mq_client Q)) (Some (mq_bytes Q)) now a)"

definition count_strategy :: "string option \<Rightarrow> 'n smart_state \<Rightarrow> 'n smart_state" where
  "count_strategy strategy s =
     (case strategy of Some n \<Rightarrow> s\<lparr>ss_stats := record_strategy n (ss_stats s)\<rparr> | None \<Rightarrow> s)"

definition learn_class :: "'n smart_query \<Rightarrow> bool option \<Rightarrow> 'n smart_state \<Rightarrow> 'n smart_state" where
  "learn_class Q is_cn s =
     (case is_cn of
        Some b \<Rightarrow> s\<lparr>ss_plugin := record_learning (ss_now s) (unix_at Q (ss_now s)) (mq_qname Q) b (ss_plugin s)\<rparr>
      | None \<Rightarrow> s)"

definition learn_result :: "'n smart_query \<Rightarrow> string \<Rightarrow> nat \<Rightarrow> 'n smart_state \<Rightarrow> 'n smart_state" where
  "learn_result Q label start s =
     s\<lparr>ss_ap := ap_result (ss_now s) (mq_qname Q) label (elapsed_ms (ss_now s - start)) (Some (mq_client Q)) (ss_ap s)\<rparr>"

text \<open>The exchange of a step; \<open>Inr None\<close> is a failure after which the handler goes on.\<close>

definition asked :: "'n smart_query \<Rightarrow> target \<Rightarrow> 'n smart_state \<Rightarrow> message option result \<times> 'n smart_state" where
  "asked Q t s =
     (let (res, now, jobs, a) = exchange_target Q t (ss_now s) (ss_ap s);
          s = s\<lparr>ss_now := now, ss_jobs := ss_jobs s @ jobs, ss_ap := a\<rparr>
      in case res of
           Inr m \<Rightarrow> (Inr (Some m), s)
         | Inl Panic \<Rightarrow> (Inl Panic, s)
         | Inl (Error e) \<Rightarrow> (Inr None, s))"

text \<open>The three memories of a domain: the upstream the autopilot remembers, the cache of
  classes, and the learning cache.  A step by memory is which target is asked, the name of the strategy, and what
  an answer teaches.\<close>

datatype memory = Ai_Memory | Domain_Cache | Learned

datatype route = To_Local | To_Local_Corrected | To_Fakeip

fun memory_strategy :: "memory \<Rightarrow> route \<Rightarrow> string option" where
  "memory_strategy Ai_Memory _ = None"
| "memory_strategy Domain_Cache r =
     Some (case r of To_Local \<Rightarrow> ''SmartDNS-Cached'' | To_Local_Corrected \<Rightarrow> ''SmartDNS-Cached-Corrected''
             | To_Fakeip \<Rightarrow> ''Proxy-Cached'')"
| "memory_strategy Learned r =
     Some (case r of To_Local \<Rightarrow> ''SmartDNS-Learned'' | To_Local_Corrected \<Rightarrow> ''SmartDNS-Learned-Corrected''
             | To_Fakeip \<Rightarrow> ''Proxy-Learned'')"

fun memory_teaches :: "memory \<Rightarrow> route \<Rightarrow> bool option" where
  "memory_teaches m To_Local_Corrected = Some True"
| "memory_teaches m To_Local = (if m = Ai_Memory then Some True else None)"
| "memory_teaches m To_Fakeip = (if m = Ai_Memory then Some False else None)"

definition memory_route :: "bool \<Rightarrow> bool \<Rightarrow> route" where
  "memory_route is_cn prot = (if is_cn then To_Local else if prot then To_Local_Corrected else To_Fakeip)"

definition by_memory ::
  "'n smart_query \<Rightarrow> memory \<Rightarrow> bool option \<Rightarrow> 'n smart_state \<Rightarrow> message option result \<times> 'n smart_state" where
  "by_memory Q m verdict s =
     (case verdict of
        None \<Rightarrow> (Inr None, s)
      | Some is_cn \<Rightarrow>
          let r = memory_route is_cn (guarded Q (ss_plugin s));
              t = (if r = To_Fakeip then sm_fakeip (ss_plugin s) else sm_local (ss_plugin s));
              start = ss_now s
          in case asked Q t (count_strategy (memory_strategy m r) s) of
               (Inr (Some msg), s) \<Rightarrow>
                 (Inr (Some msg), learn_class Q (memory_teaches m r) (learn_result Q (target_label t) start s))
             | (r, s) \<Rightarrow> (r, s))"

definition ai_verdict :: "'n smart_query \<Rightarrow> 'n smart_state \<Rightarrow> bool option \<times> 'n smart_state" where
  "ai_verdict Q s =
     (let (best, a) = ap_best_upstream (ss_now s) (mq_qname Q) (Some (mq_client Q)) (ss_ap s);
          (best, a) = (case best of Some l \<Rightarrow> (Some l, a) | None \<Rightarrow> ap_best_upstream (ss_now s) (mq_qname Q) None a)
      in (case best of
            None \<Rightarrow> None
          | Some label \<Rightarrow> if matches_label (sm_local (ss_plugin s)) label then Some True
                          else if matches_label (sm_fakeip (ss_plugin s)) label then Some False else None,
          s\<lparr>ss_ap := a\<rparr>))"

definition cache_verdict :: "'n smart_query \<Rightarrow> 'n smart_state \<Rightarrow> bool option \<times> 'n smart_state" where
  "cache_verdict Q s =
     (let (v, p) = get_domain_cache (unix_at Q (ss_now s)) (mq_qname Q) (ss_plugin s) in (v, s\<lparr>ss_plugin := p\<rparr>))"

text \<open>What the answer to a probe decides: the reply, or the answer that is kept for a protected
  domain.\<close>

definition judged ::
  "'n smart_query \<Rightarrow> string \<Rightarrow> string \<Rightarrow> nat \<Rightarrow> message \<Rightarrow> 'n smart_state
     \<Rightarrow> message option \<times> message option \<times> 'n smart_state" where
  "judged Q label strategy start resp s =
     (let ((is_cn, has_ip), p) = classify_response (mq_ipnet Q) (ss_now s) resp (ss_plugin s);
          s = s\<lparr>ss_plugin := p\<rparr>
      in if is_cn then (Some resp, None, learn_result Q label start (learn_class Q (Some True) (count_strategy (Some strategy) s)))
         else if has_ip \<and> sm_prefer_local_on_miss p
         then (Some resp, None, learn_result Q label start (learn_class Q (Some True) s))
         else if \<not> has_ip then (None, Some resp, s)
         else (None, if is_domestic_domain_lower (mq_qname Q) (mq_ranges Q) p then Some resp else None,
               learn_class Q (Some False) s))"

definition probed ::
  "'n smart_query \<Rightarrow> 'n smart_state \<Rightarrow> (message option \<times> message option) result \<times> 'n smart_state" where
  "probed Q s =
     (let t = sm_local (ss_plugin s); start = ss_now s in
      case asked Q t s of
        (Inl e, s) \<Rightarrow> (Inl e, s)
      | (Inr (Some resp), s) \<Rightarrow>
          (let (reply, kept, s) = judged Q (target_label t) ''SmartDNS'' start resp s in (Inr (reply, kept), s))
      | (Inr None, s) \<Rightarrow>
          (case sm_fallback (ss_plugin s) of
             None \<Rightarrow> (Inr (None, None), s)
           | Some fb \<Rightarrow>
               let start = ss_now s in
               (case asked Q fb s of
                  (Inl e, s) \<Rightarrow> (Inl e, s)
                | (Inr None, s) \<Rightarrow> (Inr (None, None), s)
                | (Inr (Some resp), s) \<Rightarrow>
                    (let (reply, kept, s) = judged Q (target_label fb) ''SmartDNS-Fallback'' start resp s
                     in (Inr (reply, kept), s)))))"

text \<open>The failure of a protected domain carries the question, that of the last step does not.\<close>

definition servfail :: "'n smart_query \<Rightarrow> bool \<Rightarrow> message" where
  "servfail Q with_question =
     (let resp = (lib_new (ne_lib (mq_net Q)))\<lparr>m_id := m_id (mq_request Q), m_type := ResponseMsg,
            m_opcode := OpQuery, m_rcode := ServFail\<rparr>
      in if with_question
         then (case msg_query (mq_request Q) of Some q \<Rightarrow> add_query q resp | None \<Rightarrow> resp) else resp)"

definition last_step :: "'n smart_query \<Rightarrow> message option \<Rightarrow> 'n smart_state \<Rightarrow> message result \<times> 'n smart_state" where
  "last_step Q kept s =
     (if guarded Q (ss_plugin s)
      then (Inr (case kept of Some resp \<Rightarrow> resp | None \<Rightarrow> servfail Q True), s)
      else
        let t = sm_fakeip (ss_plugin s); start = ss_now s in
        case asked Q t s of
          (Inl e, s) \<Rightarrow> (Inl e, s)
        | (Inr (Some resp), s) \<Rightarrow> (Inr resp, learn_result Q (target_label t) start (count_strategy (Some ''Proxy'') s))
        | (Inr None, s) \<Rightarrow> (Inr (servfail Q False), s))"

definition smart_reply :: "'n smart_query \<Rightarrow> 'n smart_state \<Rightarrow> message result \<times> 'n smart_state" where
  "smart_reply Q s =
     (let (v, s) = ai_verdict Q s in
      case by_memory Q Ai_Memory v s of
        (Inl e, s) \<Rightarrow> (Inl e, s)
      | (Inr (Some m), s) \<Rightarrow> (Inr m, s)
      | (Inr None, s) \<Rightarrow>
          let (v, s) = cache_verdict Q s in
          case by_memory Q Domain_Cache v s of
            (Inl e, s) \<Rightarrow> (Inl e, s)
          | (Inr (Some m), s) \<Rightarrow> (Inr m, s)
          | (Inr None, s) \<Rightarrow>
              case by_memory Q Learned (get_learned (ss_now s) (mq_qname Q) (ss_plugin s)) s of
                (Inl e, s) \<Rightarrow> (Inl e, s)
              | (Inr (Some m), s) \<Rightarrow> (Inr m, s)
              | (Inr None, s) \<Rightarrow>
                  case probed Q s of
                    (Inl e, s) \<Rightarrow> (Inl e, s)
                  | (Inr (Some m, kept), s) \<Rightarrow> (Inr m, s)
                  | (Inr (None, kept), s) \<Rightarrow> last_step Q kept s)"

definition query_of :: "net_env \<Rightarrow> (edns \<Rightarrow> edns) \<Rightarrow> 'n ipnet_lib \<Rightarrow> 'h ctx \<Rightarrow> bytes \<Rightarrow> 'n smart_query" where
  "query_of N sane I c req_bytes =
     \<lparr>mq_net = N, mq_sane = sane, mq_ipnet = I, mq_request = request c, mq_bytes = req_bytes,
      mq_qname = qname_lower_ref c, mq_ranges = qname_parts_ranges c, mq_client = fst (client_addr c)\<rparr>"

definition smart_handle ::
  "net_env \<Rightarrow> (edns \<Rightarrow> edns) \<Rightarrow> 'n ipnet_lib \<Rightarrow> 'n smart_state \<Rightarrow> 'h ctx \<Rightarrow> 'h ctx result \<times> 'n smart_state" where
  "smart_handle N sane I s c =
     (case msg_query (request c) of
        None \<Rightarrow> (Inr c, s)
      | Some q \<Rightarrow>
          case (case request_bytes c of Some raw \<Rightarrow> Some raw | None \<Rightarrow> lib_to_vec (ne_lib N) (request c)) of
            None \<Rightarrow> (Inl (Error ''to_vec''), s)
          | Some req_bytes \<Rightarrow>
              let Q = query_of N sane I c req_bytes;
                  s = s\<lparr>ss_ap := ap_query (ne_calendar N) (ss_now s) (mq_qname Q) (ss_ap s)\<rparr>
              in (case smart_reply Q s of
                    (Inr m, s) \<Rightarrow> (Inr (set_response (m\<lparr>m_id := m_id (request c)\<rparr>) True c), s)
                  | (Inl e, s) \<Rightarrow> (Inl e, s)))"
section \<open>The configuration does not change\<close>

definition config_of where
  "config_of p = (sm_local p, sm_fakeip p, sm_fallback p, sm_avoid_fakeip_on_domestic p, sm_prefer_local_on_miss p,
     sm_suffix_labels p, sm_cache_ttl p, sm_persist_max p)"

lemma apply_learning_config [simp]: "config_of (apply_learning now unix d b p) = config_of p"
  by (simp add: apply_learning_def config_of_def)

lemma record_learning_config [simp]: "config_of (record_learning now unix d b p) = config_of p"
  by (simp add: record_learning_def Let_def) (simp add: config_of_def)

lemma get_domain_cache_config [simp]: "config_of (snd (get_domain_cache unix d p)) = config_of p"
  by (simp add: get_domain_cache_def Let_def config_of_def split: option.split)

lemma class_of_ip_config [simp]: "config_of (snd (class_of_ip I now ip p)) = config_of p"
  by (auto simp: class_of_ip_def Let_def config_of_def split_beta split: option.split)

lemma classify_ips_config [simp]: "config_of (snd (classify_ips I now ips p)) = config_of p"
  by (induction ips arbitrary: p) (simp_all add: split_beta)

lemma classify_response_config [simp]: "config_of (snd (classify_response I now resp p)) = config_of p"
  by (simp add: classify_response_def split_beta Let_def)

lemma guarded_config: "config_of p = config_of p' \<Longrightarrow> guarded Q p = guarded Q p'"
  by (simp add: config_of_def guarded_def is_domestic_domain_lower_def)

lemma state_config [simp]:
  "config_of (ss_plugin (count_strategy n s)) = config_of (ss_plugin s)"
  "config_of (ss_plugin (learn_class Q b s)) = config_of (ss_plugin s)"
  "config_of (ss_plugin (learn_result Q l start s)) = config_of (ss_plugin s)"
  "ss_plugin (snd (asked Q t s)) = ss_plugin s"
  "ss_plugin (snd (ai_verdict Q s)) = ss_plugin s"
  "config_of (ss_plugin (snd (cache_verdict Q s))) = config_of (ss_plugin s)"
  by (auto simp: count_strategy_def learn_class_def learn_result_def asked_def ai_verdict_def cache_verdict_def
      split_beta Let_def split: option.split sum.split rust_error.split)

section \<open>Where replies come from\<close>

fun target_upstreams :: "target \<Rightarrow> upstream list" where
  "target_upstreams (Single u label timeout) = [u]"
| "target_upstreams (Group p label) = fw_upstreams p"

lemma exchange_target_promises:
  assumes "exchange_target Q t now a = (r, now', jobs, a')"
  shows "r \<noteq> Inl Panic"
    and "net_ends_ok (mq_net Q) \<Longrightarrow> r = Inr m \<Longrightarrow> \<exists>sent. answered_by (mq_net Q) sent (target_upstreams t) m"
proof -
  have "r \<noteq> Inl Panic \<and> (net_ends_ok (mq_net Q) \<longrightarrow> r = Inr m \<longrightarrow> (\<exists>sent. answered_by (mq_net Q) sent (target_upstreams t) m))"
  proof (cases t)
    case (Single u label timeout)
    obtain X d where X: "ne_exchange (mq_net Q) now u (mq_bytes Q) = (X, d)" by fastforce
    have np: "exchange_result (ne_lib (mq_net Q)) X u \<noteq> Inl Panic" by (rule exchange_no_panic)
    from assms X np have "r \<noteq> Inl Panic \<and> (r = Inr m \<longrightarrow> exchange_result (ne_lib (mq_net Q)) X u = Inr m)"
      by (auto simp: Single exchange_target_def with_timeout_def split: if_splits sum.splits rust_error.splits)
    moreover have "answered_by (mq_net Q) (mq_bytes Q) [u] m" if "exchange_result (ne_lib (mq_net Q)) X u = Inr m"
      using that by (auto simp: answered_by_def X intro!: exI [of _ now])
    ultimately show ?thesis by (auto simp: Single)
  next
    case (Group p label)
    with assms have e: "execute_with_bytes_internal (mq_net Q) (mq_sane Q) p (mq_request Q) (Some (mq_client Q)) (Some (mq_bytes Q)) now a
        = (r, now', jobs, a')" by (simp add: exchange_target_def)
    show ?thesis using execute_promises [OF e, of m] by (auto simp: Group)
  qed
  then show "r \<noteq> Inl Panic" and "net_ends_ok (mq_net Q) \<Longrightarrow> r = Inr m \<Longrightarrow> \<exists>sent. answered_by (mq_net Q) sent (target_upstreams t) m"
    by blast+
qed

text \<open>An answer of one of the targets.\<close>

definition told :: "'n smart_query \<Rightarrow> target set \<Rightarrow> message \<Rightarrow> bool" where
  "told Q ts m \<longleftrightarrow> (net_ends_ok (mq_net Q) \<longrightarrow> (\<exists>t \<in> ts. \<exists>sent. answered_by (mq_net Q) sent (target_upstreams t) m))"

lemma told_mono: "told Q ts m \<Longrightarrow> ts \<subseteq> ts' \<Longrightarrow> told Q ts' m"
  by (auto simp: told_def)

lemma asked_cases:
  obtains m s' where "asked Q t s = (Inr (Some m), s')" and "told Q {t} m" and "ss_plugin s' = ss_plugin s"
  | s' where "asked Q t s = (Inr None, s')" and "ss_plugin s' = ss_plugin s"
proof -
  obtain r now' jobs a' where e: "exchange_target Q t (ss_now s) (ss_ap s) = (r, now', jobs, a')"
    by (cases "exchange_target Q t (ss_now s) (ss_ap s)") auto
  have p: "ss_plugin (snd (asked Q t s)) = ss_plugin s" by simp
  show ?thesis
  proof (cases r)
    case (Inl err)
    with exchange_target_promises(1) [OF e] obtain msg where "r = Inl (Error msg)" by (cases err) auto
    with e have "asked Q t s = (Inr None, snd (asked Q t s))" by (simp add: asked_def)
    then show ?thesis using p by (rule that(2))
  next
    case (Inr m)
    with exchange_target_promises(2) [OF e, of m] have "told Q {t} m" by (simp add: told_def)
    moreover from e Inr have "asked Q t s = (Inr (Some m), snd (asked Q t s))" by (simp add: asked_def)
    ultimately show ?thesis using p that(1) by blast
  qed
qed

text \<open>The targets whose answers may be given to a query: those of a protected domain do not include
  the fake addresses.\<close>

definition allowed :: "'n smart_query \<Rightarrow> 'n smart_forward \<Rightarrow> target set" where
  "allowed Q p = {sm_local p} \<union> set_option (sm_fallback p) \<union> (if guarded Q p then {} else {sm_fakeip p})"

lemma allowed_config: "config_of p = config_of p' \<Longrightarrow> allowed Q p = allowed Q p'"
  using guarded_config [of p p' Q] by (simp add: allowed_def config_of_def)

lemma by_memory_cases:
  obtains m s' where "by_memory Q k v s = (Inr (Some m), s')" and "told Q (allowed Q (ss_plugin s)) m"
      and "config_of (ss_plugin s') = config_of (ss_plugin s)"
  | s' where "by_memory Q k v s = (Inr None, s')" and "config_of (ss_plugin s') = config_of (ss_plugin s)"
proof (cases v)
  case None
  then show ?thesis by (intro that(2)) (auto simp: by_memory_def)
next
  case (Some is_cn)
  let ?p = "ss_plugin s"
  define r where "r = memory_route is_cn (guarded Q ?p)"
  define t where "t = (if r = To_Fakeip then sm_fakeip ?p else sm_local ?p)"
  have t: "t \<in> allowed Q ?p" by (auto simp: t_def r_def memory_route_def allowed_def)
  note b = by_memory_def [of Q k v s, unfolded Some option.case Let_def, folded r_def, folded t_def]
  show ?thesis
  proof (cases rule: asked_cases [of Q t "count_strategy (memory_strategy k r) s"])
    case (1 m s')
    have "told Q (allowed Q ?p) m" using told_mono [OF 1(2)] t by simp
    moreover from 1 b have "by_memory Q k v s = (Inr (Some m), learn_class Q (memory_teaches k r)
        (learn_result Q (target_label t) (ss_now s) s'))" by (simp add: Some)
    ultimately show ?thesis using that(1) 1(3) by simp
  next
    case (2 s')
    with b have "by_memory Q k v s = (Inr None, s')" by (simp add: Some)
    with 2(2) that(2) show ?thesis by simp
  qed
qed

lemma judged_cases:
  assumes "judged Q label strategy start resp s = (reply, kept, s')"
  shows "reply \<in> {None, Some resp} \<and> kept \<in> {None, Some resp} \<and> config_of (ss_plugin s') = config_of (ss_plugin s)"
proof -
  obtain v p where "classify_response (mq_ipnet Q) (ss_now s) resp (ss_plugin s) = (v, p)" by fastforce
  moreover have "config_of p = config_of (ss_plugin s)"
    using calculation classify_response_config [of "mq_ipnet Q" "ss_now s" resp "ss_plugin s"] by simp
  ultimately show ?thesis using assms by (auto simp: judged_def split_beta Let_def split: if_splits)
qed

lemma probed_cases:
  obtains reply kept s' where "probed Q s = (Inr (reply, kept), s')"
    and "\<And>m. m \<in> set_option reply \<union> set_option kept \<Longrightarrow> told Q (allowed Q (ss_plugin s)) m"
    and "config_of (ss_plugin s') = config_of (ss_plugin s)"
proof (cases rule: asked_cases [of Q "sm_local (ss_plugin s)" s])
  case (1 m s1)
  obtain reply kept s2 where j: "judged Q (target_label (sm_local (ss_plugin s))) ''SmartDNS'' (ss_now s) m s1 = (reply, kept, s2)"
    by (cases "judged Q (target_label (sm_local (ss_plugin s))) ''SmartDNS'' (ss_now s) m s1") auto
  have "told Q (allowed Q (ss_plugin s)) m" by (rule told_mono [OF 1(2)]) (simp add: allowed_def)
  with 1 j judged_cases [OF j] show ?thesis
    by (intro that [of reply kept s2]) (auto simp: probed_def)
next
  case l: (2 s1)
  show ?thesis
  proof (cases "sm_fallback (ss_plugin s)")
    case None
    with l show ?thesis by (intro that [of None None s1]) (auto simp: probed_def)
  next
    case (Some fb)
    show ?thesis
    proof (cases rule: asked_cases [of Q fb s1])
      case (1 m s2)
      obtain reply kept s3 where j: "judged Q (target_label fb) ''SmartDNS-Fallback'' (ss_now s1) m s2 = (reply, kept, s3)"
        by (cases "judged Q (target_label fb) ''SmartDNS-Fallback'' (ss_now s1) m s2") auto
      have "told Q (allowed Q (ss_plugin s)) m" by (rule told_mono [OF 1(2)]) (simp add: allowed_def Some)
      with 1 l Some j judged_cases [OF j] show ?thesis
        by (intro that [of reply kept s3]) (auto simp: probed_def)
    next
      case (2 s2)
      with l Some show ?thesis by (intro that [of None None s2]) (auto simp: probed_def)
    qed
  qed
qed

lemma last_step_cases:
  assumes "\<And>m. kept = Some m \<Longrightarrow> told Q (allowed Q (ss_plugin s)) m"
  obtains m s' where "last_step Q kept s = (Inr m, s')"
    and "m \<in> {servfail Q True, servfail Q False} \<or> told Q (allowed Q (ss_plugin s)) m"
proof (cases "guarded Q (ss_plugin s)")
  case True
  with assms show ?thesis by (cases kept) (auto intro!: that simp: last_step_def)
next
  case False
  show ?thesis
  proof (cases rule: asked_cases [of Q "sm_fakeip (ss_plugin s)" s])
    case (1 m s')
    have "told Q (allowed Q (ss_plugin s)) m" by (rule told_mono [OF 1(2)]) (simp add: allowed_def False)
    with 1 False show ?thesis by (auto intro!: that simp: last_step_def Let_def)
  next
    case (2 s')
    with False show ?thesis by (auto intro!: that simp: last_step_def Let_def)
  qed
qed

text \<open>The whole decision: a reply always, from an allowed target or a failure.\<close>

lemma smart_reply_cases:
  obtains m s' where "smart_reply Q s = (Inr m, s')"
    and "m \<in> {servfail Q True, servfail Q False} \<or> told Q (allowed Q (ss_plugin s)) m"
proof -
  obtain v1 s1 where v1: "ai_verdict Q s = (v1, s1)" by fastforce
  then have p1: "ss_plugin s1 = ss_plugin s" using state_config(5) [of Q s] by simp
  show ?thesis
  proof (cases rule: by_memory_cases [of Q Ai_Memory v1 s1])
    case (1 m s')
    with v1 p1 show ?thesis by (intro that) (auto simp: smart_reply_def)
  next
    case m1: (2 s2)
    obtain v3 s3 where v3: "cache_verdict Q s2 = (v3, s3)" by fastforce
    then have p3: "config_of (ss_plugin s3) = config_of (ss_plugin s)"
      using state_config(6) [of Q s2] m1(2) p1 by simp
    show ?thesis
    proof (cases rule: by_memory_cases [of Q Domain_Cache v3 s3])
      case (1 m s')
      with v1 m1 v3 allowed_config [OF p3] show ?thesis by (intro that) (auto simp: smart_reply_def)
    next
      case m2: (2 s4)
      show ?thesis
      proof (cases rule: by_memory_cases [of Q Learned "get_learned (ss_now s4) (mq_qname Q) (ss_plugin s4)" s4])
        case (1 m s')
        have "config_of (ss_plugin s4) = config_of (ss_plugin s)" using m2(2) p3 by simp
        from 1 v1 m1 v3 m2 allowed_config [OF this] show ?thesis by (intro that) (auto simp: smart_reply_def)
      next
        case m3: (2 s5)
        then have p5: "config_of (ss_plugin s5) = config_of (ss_plugin s)" using m2(2) p3 by simp
        obtain reply kept s6 where pr: "probed Q s5 = (Inr (reply, kept), s6)"
          and t: "\<And>m. m \<in> set_option reply \<union> set_option kept \<Longrightarrow> told Q (allowed Q (ss_plugin s5)) m"
          and p6: "config_of (ss_plugin s6) = config_of (ss_plugin s5)" by (rule probed_cases [of Q s5]) blast
        show ?thesis
        proof (cases reply)
          case (Some m)
          with t allowed_config [OF p5] have "told Q (allowed Q (ss_plugin s)) m" by auto
          with v1 m1 v3 m2 m3 pr Some show ?thesis by (intro that) (auto simp: smart_reply_def)
        next
          case None
          obtain m s7 where l: "last_step Q kept s6 = (Inr m, s7)"
            and o: "m \<in> {servfail Q True, servfail Q False} \<or> told Q (allowed Q (ss_plugin s6)) m"
            using last_step_cases [of kept Q s6] t allowed_config [OF p6] by (metis UnCI option.set_intros)
          from p5 p6 have "allowed Q (ss_plugin s6) = allowed Q (ss_plugin s)" using allowed_config by metis
          with v1 m1 v3 m2 m3 pr None l o show ?thesis by (intro that) (auto simp: smart_reply_def)
        qed
      qed
    qed
  qed
qed

section \<open>The handler\<close>

lemma query_of_simps [simp]:
  "mq_net (query_of N sane I c b) = N" "mq_request (query_of N sane I c b) = request c"
  "mq_qname (query_of N sane I c b) = qname_lower_ref c" "mq_ranges (query_of N sane I c b) = qname_parts_ranges c"
  by (simp_all add: query_of_def)

definition sent_bytes :: "dns_lib \<Rightarrow> 'h ctx \<Rightarrow> bytes option" where
  "sent_bytes L c = (case request_bytes c of Some raw \<Rightarrow> Some raw | None \<Rightarrow> lib_to_vec L (request c))"

lemma smart_handle_cases:
  assumes "smart_handle N sane I s c = (r, s')"
  obtains (No_Query) "msg_query (request c) = None" and "r = Inr c"
  | (No_Bytes) "sent_bytes (ne_lib N) c = None" and "r = Inl (Error ''to_vec'')"
  | (Answered) b m where "sent_bytes (ne_lib N) c = Some b"
      and "r = Inr (set_response (m\<lparr>m_id := m_id (request c)\<rparr>) True c)"
      and "m \<in> {servfail (query_of N sane I c b) True, servfail (query_of N sane I c b) False}
        \<or> told (query_of N sane I c b) (allowed (query_of N sane I c b) (ss_plugin s)) m"
proof (cases "msg_query (request c)")
  case None
  with assms show ?thesis by (intro No_Query) (auto simp: smart_handle_def)
next
  case (Some q)
  show ?thesis
  proof (cases "sent_bytes (ne_lib N) c")
    case None
    with Some assms show ?thesis by (intro No_Bytes) (auto simp: smart_handle_def sent_bytes_def)
  next
    case b: (Some b)
    let ?Q = "query_of N sane I c b"
    let ?s = "s\<lparr>ss_ap := ap_query (ne_calendar N) (ss_now s) (mq_qname ?Q) (ss_ap s)\<rparr>"
    obtain m s1 where m: "smart_reply ?Q ?s = (Inr m, s1)"
      "m \<in> {servfail ?Q True, servfail ?Q False} \<or> told ?Q (allowed ?Q (ss_plugin ?s)) m"
      by (rule smart_reply_cases [of ?Q ?s]) blast
    with assms Some b have "r = Inr (set_response (m\<lparr>m_id := m_id (request c)\<rparr>) True c)"
      by (simp add: smart_handle_def sent_bytes_def Let_def split: option.splits)
    with b m(2) show ?thesis by (intro Answered) auto
  qed
qed


text \<open>C19: A protected domain never gets a fake address: when the option is set and the name ends in a
  domestic suffix, the reply is a SERVFAIL or the answer of one of the local upstreams (or of their
  fallback), whatever the memories of the domain say.\<close>

theorem domestic_not_faked:
  assumes "net_ends_ok N" and "sm_avoid_fakeip_on_domestic (ss_plugin s)"
    and "is_domestic_domain_lower (qname_lower_ref c) (qname_parts_ranges c) (ss_plugin s)"
    and "msg_query (request c) = Some q" and "smart_handle N sane I s c = (Inr c', s')"
  shows "\<exists>m. c' = set_response (m\<lparr>m_id := m_id (request c)\<rparr>) True c
    \<and> (m_rcode m = ServFail \<and> m_answers m = m_answers (lib_new (ne_lib N))
      \<or> (\<exists>t \<in> {sm_local (ss_plugin s)} \<union> set_option (sm_fallback (ss_plugin s)). \<exists>sent. answered_by N sent (target_upstreams t) m))"
  using assms(5)
proof (cases rule: smart_handle_cases)
  case (Answered b m)
  have "allowed (query_of N sane I c b) (ss_plugin s) = {sm_local (ss_plugin s)} \<union> set_option (sm_fallback (ss_plugin s))"
    using assms(2,3) by (simp add: allowed_def guarded_def)
  moreover have "m_rcode (servfail (query_of N sane I c b) w) = ServFail
      \<and> m_answers (servfail (query_of N sane I c b) w) = m_answers (lib_new (ne_lib N))" for w
    by (simp add: servfail_def Let_def split: option.split)
  ultimately show ?thesis
    using Answered(2,3) assms(1) by (intro exI [of _ m]) (auto simp: told_def)
qed (use assms(4) in auto)

section \<open>The learning cache is never hit\<close>

lemma trimmed_last: "trim_end_matches ch s \<noteq> [] \<Longrightarrow> last (trim_end_matches ch s) \<noteq> ch"
  using hd_dropWhile [of "\<lambda>c. c = ch" "rev s"] by (simp add: trim_end_matches_def trim_end_if_def last_rev)

definition name_clean :: "string \<Rightarrow> bool" where
  "name_clean d \<longleftrightarrow> d \<noteq> [] \<and> last d \<noteq> CHR ''.''"

lemma trimmed_clean: "trim_end_matches CHR ''.'' s \<noteq> [] \<Longrightarrow> name_clean (trim_end_matches CHR ''.'' s)"
  using trimmed_last [of "CHR ''.''" s] by (simp add: name_clean_def)

text \<open>Names are learned without their final dot but looked up with it: the cache of the first step
  that reads it holds no name that a query can have.\<close>

definition names_clean :: "'n smart_forward \<Rightarrow> bool" where
  "names_clean p \<longleftrightarrow> Ball (dom (sm_learned p)) name_clean \<and> Ball (fst ` set (sm_channel p)) name_clean"

lemma names_clean_apply:
  "names_clean p \<Longrightarrow> name_clean d \<Longrightarrow> names_clean (apply_learning now unix d b p)"
  by (simp add: names_clean_def apply_learning_def)

lemma names_clean_record:
  assumes "names_clean p"
  shows "names_clean (record_learning now unix d b p)"
proof -
  let ?d = "trim_end_matches CHR ''.'' (normalize_domain_lower d)"
  consider "?d = []" | "name_clean ?d" using trimmed_clean by blast
  then show ?thesis
  proof cases
    case 2
    with assms have "names_clean (p\<lparr>sm_channel := sm_channel p @ [(?d, b)]\<rparr>)"
      by (simp add: names_clean_def ball_Un)
    with 2 assms names_clean_apply [OF assms 2] show ?thesis by (simp add: record_learning_def Let_def)
  qed (use assms in \<open>simp add: record_learning_def\<close>)
qed

lemma names_clean_recv:
  assumes "names_clean p"
  shows "names_clean (learning_recv now unix p)"
proof (cases "sm_channel p")
  case (Cons x rest)
  obtain d b where x: "x = (d, b)" by fastforce
  from assms have "names_clean (p\<lparr>sm_channel := rest\<rparr>)" "name_clean d"
    by (simp_all add: names_clean_def Cons x)
  then show ?thesis by (simp add: learning_recv_def Cons x names_clean_apply)
qed (use assms in \<open>simp add: learning_recv_def\<close>)

lemma clean_entries_clean: "Ball (set (clean_entries n data)) (\<lambda>e. name_clean (fst e))"
proof (intro ballI)
  fix e assume "e \<in> set (clean_entries n data)"
  then show "name_clean (fst e)" by (auto simp: clean_entries_def trimmed_clean dest!: in_set_takeD)
qed

lemma names_clean_load:
  assumes "names_clean p"
  shows "names_clean (load_learning now unix data p)"
proof -
  have entry: "names_clean q \<Longrightarrow> name_clean (fst e) \<Longrightarrow> names_clean (load_entry now unix e q)" for e and q :: "'a smart_forward"
    by (cases e) (simp add: load_entry_def names_clean_def)
  have "names_clean q \<Longrightarrow> Ball (set es) (\<lambda>e. name_clean (fst e)) \<Longrightarrow> names_clean (fold (load_entry now unix) es q)"
    for es and q :: "'a smart_forward"
    by (induction es arbitrary: q) (simp_all add: entry)
  from this [OF assms, of "clean_entries (sm_persist_max p) data"] clean_entries_clean [of "sm_persist_max p" data]
  show ?thesis by (simp add: load_learning_def)
qed

lemma learned_never_hit:
  assumes "names_clean p"
  shows "get_learned now (name @ ''.'') p = None"
proof (cases "sm_learned p (name @ ''.'')")
  case (Some e)
  then have "name @ ''.'' \<in> dom (sm_learned p)" by blast
  with assms have "name_clean (name @ ''.'')" unfolding names_clean_def by blast
  then show ?thesis by (simp add: name_clean_def)
qed (simp add: get_learned_def)

section \<open>Witnesses\<close>

definition sample_smart :: "nat smart_state" where
  "sample_smart = \<lparr>ss_plugin = \<lparr>sm_local = Single sample_doh ''https://d/q'' (from_secs 1),
       sm_fakeip = Group (sample_forward ''order'') ''split:fake'', sm_fallback = None,
       sm_avoid_fakeip_on_domestic = True, sm_prefer_local_on_miss = False, sm_suffix_labels = [],
       sm_ip_matcher = None, sm_geoip = geoip_new None ''cn'' ''cn'' GeoClient, sm_cache_ttl = from_secs 3600,
       sm_learned = Map.empty, sm_domains = [''a.cn'' \<mapsto> (False, 900)], sm_channel = [], sm_ip_class = Map.empty,
       sm_persist = None, sm_persist_max = 10\<rparr>,
     ss_ap = autopilot_new 0, ss_stats = stats_new, ss_now = 7, ss_jobs = []\<rparr>"

definition sample_ipnet :: "nat ipnet_lib" where
  "sample_ipnet = \<lparr>parse_net = (\<lambda>s. None), host_net = (\<lambda>ip. None), net_contains = (\<lambda>n ip. False)\<rparr>"

definition sample_cn :: "unit ctx" where
  "sample_cn = ctx_new (sample_msg\<lparr>m_queries := [\<lparr>q_name = ''A.cn.'', q_type = T_A, q_class = 1\<rparr>]\<rparr>) (V4 9, 5353) 7"

lemma sample_cn_query: "msg_query (request sample_cn) = Some \<lparr>q_name = ''A.cn.'', q_type = T_A, q_class = 1\<rparr>"
  by (simp add: sample_cn_def ctx_new_def)

lemma sample_cn_bytes: "sent_bytes (ne_lib (sample_net body)) sample_cn \<noteq> None"
  by (simp add: sent_bytes_def sample_cn_def ctx_new_def request_bytes_def sample_net_def sample_lib_def)

lemma sample_domestic: "is_domestic_domain_lower (qname_lower_ref sample_cn) (qname_parts_ranges sample_cn) (ss_plugin sample_smart)"
proof -
  have "ends_with (trim_end_matches CHR ''.'' (qname_lower_ref sample_cn)) ''.cn''" by code_simp
  then show ?thesis by (simp add: is_domestic_domain_lower_def sample_smart_def)
qed


theorem domestic_not_faked_witness:
  "\<exists>c' s' m. smart_handle (sample_net None) id sample_ipnet sample_smart sample_cn = (Inr c', s')
     \<and> c' = set_response (m\<lparr>m_id := m_id (request sample_cn)\<rparr>) True sample_cn
     \<and> (m_rcode m = ServFail \<and> m_answers m = []
      \<or> (\<exists>sent. answered_by (sample_net None) sent [sample_doh] m))"
proof -
  obtain r s' where h: "smart_handle (sample_net None) id sample_ipnet sample_smart sample_cn = (r, s')" by fastforce
  obtain c' where r: "r = Inr c'"
    using h sample_cn_query sample_cn_bytes [of None] by (cases rule: smart_handle_cases [OF h]) auto
  have a: "sm_avoid_fakeip_on_domestic (ss_plugin sample_smart)" "sm_local (ss_plugin sample_smart) = Single sample_doh ''https://d/q'' (from_secs 1)"
    "sm_fallback (ss_plugin sample_smart) = None" by (simp_all add: sample_smart_def)
  have e: "m_answers (lib_new (ne_lib (sample_net None))) = []" by (simp add: sample_net_def sample_lib_def sample_msg_def)
  from domestic_not_faked [OF sample_net_ends a(1) sample_domestic sample_cn_query h [unfolded r]] h r
  show ?thesis by (simp add: a e)
qed

end
