(* ===== verification/Smart_Resolve.thy ===== *)
theory Smart_Resolve
  imports Forward
begin

text \<open>
  \<open>src/plugins/smart_resolve.rs\<close>: the upstreams are asked at once, the addresses of their
  answers are connected to, and the reply lists them in the order of the time that took.

  At most 32 exchanges, and at most 32 probes, are under way at a time:
  \<open>schedule\<close> gives each task the instant at which it starts.
\<close>

record smart_resolve =
  sr_upstreams :: "upstream list"
  sr_probe_timeout_ms :: nat
  sr_probe_port :: u16
  sr_max_ips :: nat
  sr_latency :: "ip_addr \<rightharpoonup> u64 \<times> nat"

definition collect :: "('a \<Rightarrow> 'b result) \<Rightarrow> 'a list \<Rightarrow> 'b list result" where
  "collect f xs = foldr (\<lambda>x r. andthen (f x) (\<lambda>y. andthen r (\<lambda>ys. Inr (y # ys)))) xs (Inr [])"

definition smart_resolve_new ::
  "dns_lib \<Rightarrow> net_lib \<Rightarrow> upstream_config list \<Rightarrow> nat \<Rightarrow> u16 \<Rightarrow> nat \<Rightarrow> smart_resolve result" where
  "smart_resolve_new L NL confs timeout_ms port max_ips =
     andthen (collect (\<lambda>conf. upstream_new L NL conf tuning_default) confs) (\<lambda>us.
       Inr \<lparr>sr_upstreams = us, sr_probe_timeout_ms = timeout_ms, sr_probe_port = port,
            sr_max_ips = max_ips, sr_latency = Map.empty\<rparr>)"

text \<open>What a connection attempt that starts at an instant does and how long it takes, and the
  order in which the probes end.\<close>

record probe_env =
  pe_connect :: "nat \<Rightarrow> ip_addr \<Rightarrow> u16 \<Rightarrow> bool \<times> nat"
  pe_ends :: "nat \<Rightarrow> (nat \<times> u64 \<times> rr) list \<Rightarrow> (nat \<times> u64 \<times> rr) list"

section \<open>Tasks with a bound on how many run\<close>

text \<open>\<open>running\<close> are the instants at which the running tasks end; a task that finds no place starts when
  the first of them ends.\<close>

fun schedule :: "nat \<Rightarrow> (nat \<Rightarrow> 'a \<Rightarrow> nat \<times> 'b) \<Rightarrow> nat list \<Rightarrow> nat \<Rightarrow> 'a list \<Rightarrow> (nat \<times> 'b) list" where
  "schedule n task running now [] = []"
| "schedule n task running now (x # xs) =
     (if length running < n
      then (let c = task now x in c # schedule n task (insort (fst c) running) now xs)
      else case running of
             t # rest \<Rightarrow> (let c = task t x in c # schedule n task (insort (fst c) rest) t xs)
           | [] \<Rightarrow> [])"

definition max_concurrency :: "nat \<Rightarrow> nat" where
  "max_concurrency n = max 1 (min n 32)"

definition run_all :: "(nat \<Rightarrow> 'a \<Rightarrow> nat \<times> 'b) \<Rightarrow> nat \<Rightarrow> nat \<Rightarrow> 'a list \<Rightarrow> (nat \<times> 'b) list" where
  "run_all task limit now xs = schedule (max_concurrency limit) task [] now xs"

definition last_end :: "nat \<Rightarrow> (nat \<times> 'b) list \<Rightarrow> nat" where
  "last_end now cs = fold (\<lambda>c t. max (fst c) t) cs now"

section \<open>Asking the upstreams\<close>

text \<open>\<open>timeout(t, upstream.exchange(req))\<close>: the plugin does not record the timeout.\<close>

definition timed_exchange :: "net_env \<Rightarrow> nat \<Rightarrow> bytes \<Rightarrow> nat \<Rightarrow> upstream \<Rightarrow> completion" where
  "timed_exchange N timeout req_bytes now u =
     (let (X, elapsed) = ne_exchange N now u req_bytes in
      case with_timeout (Some timeout) (exchange_result (ne_lib N) X u, elapsed) of
        Elapsed \<Rightarrow> (now + timeout, get_label u, Timed_Out)
      | In_Time (Inr msg) \<Rightarrow> (now + elapsed, get_label u, Answered msg elapsed)
      | In_Time (Inl (Error e)) \<Rightarrow> (now + elapsed, get_label u, Failed)
      | In_Time (Inl Panic) \<Rightarrow> (now + elapsed, get_label u, Task_Panicked))"

definition settle_quietly :: "completion \<Rightarrow> autopilot \<Rightarrow> autopilot" where
  "settle_quietly c a =
     (case c of (now, label, how) \<Rightarrow>
        case how of
          Answered msg elapsed \<Rightarrow> ap_success now label (word_of_nat (as_millis elapsed)) a
        | Failed \<Rightarrow> ap_failure now label a
        | _ \<Rightarrow> a)"

text \<open>A request that cannot be written fails without being sent.\<close>

fun fallback_loop :: "net_env \<Rightarrow> bytes \<Rightarrow> upstream list \<Rightarrow> nat \<Rightarrow> autopilot \<Rightarrow> message option \<times> nat \<times> autopilot" where
  "fallback_loop N req_bytes [] now a = (None, now, a)"
| "fallback_loop N req_bytes (u # us) now a =
     (let (now', label, how) = timed_exchange N (from_millis 3000) req_bytes now u;
          a = settle_quietly (now', label, how) a
      in case how of
           Answered resp elapsed \<Rightarrow> (Some resp, now', a)
         | _ \<Rightarrow> fallback_loop N req_bytes us now' a)"

definition fallback_forward ::
  "net_env \<Rightarrow> smart_resolve \<Rightarrow> nat \<Rightarrow> autopilot \<Rightarrow> 'h ctx \<Rightarrow> 'h ctx \<times> nat \<times> autopilot" where
  "fallback_forward N p now a c =
     (case lib_to_vec (ne_lib N) (request c) of
        None \<Rightarrow> (c, now, a)
      | Some req_bytes \<Rightarrow>
          (case fallback_loop N req_bytes (sr_upstreams p) now a of
             (Some resp, now, a) \<Rightarrow> (set_response (resp\<lparr>m_id := m_id (request c)\<rparr>) True c, now, a)
           | (None, now, a) \<Rightarrow> (c, now, a)))"

definition address_records :: "message \<Rightarrow> rr list" where
  "address_records resp = filter (\<lambda>r. rr_type r \<in> {T_A, T_AAAA}) (m_answers resp)"

fun completion_records :: "completion \<Rightarrow> rr list" where
  "completion_records (now, label, Answered msg elapsed) = address_records msg"
| "completion_records _ = []"

text \<open>The first record of each address.\<close>

fun first_of_each :: "ip_addr list \<Rightarrow> rr list \<Rightarrow> rr list" where
  "first_of_each known [] = []"
| "first_of_each known (r # rs) =
     (case rdata_ip (rr_data r) of
        Some ip \<Rightarrow> if ip \<in> set known then first_of_each known rs else r # first_of_each (ip # known) rs
      | None \<Rightarrow> first_of_each known rs)"

text \<open>The tasks are dropped when the timeout of the whole passes.\<close>

definition concurrent_query ::
  "net_env \<Rightarrow> smart_resolve \<Rightarrow> message \<Rightarrow> nat \<Rightarrow> autopilot \<Rightarrow> rr list option \<times> nat \<times> autopilot" where
  "concurrent_query N p req now a =
     (case lib_to_vec (ne_lib N) req of
        None \<Rightarrow> (Some [], now, a)
      | Some req_bytes \<Rightarrow>
          let cs = run_all (timed_exchange N (from_millis 1500) req_bytes) (length (sr_upstreams p)) now (sr_upstreams p);
              ends = ne_ends N now cs;
              gather = now + from_millis 2000
          in if last_end now cs < gather
             then (Some (first_of_each [] (concat (map completion_records ends))), last_end now cs,
                   fold settle_quietly ends a)
             else (None, gather, fold settle_quietly (filter (\<lambda>c. fst c < gather) ends) a))"

section \<open>Probing the addresses\<close>

definition latency_get :: "nat \<Rightarrow> (ip_addr \<rightharpoonup> u64 \<times> nat) \<Rightarrow> rr \<Rightarrow> u64 option" where
  "latency_get now cache r =
     (case Option.bind (rdata_ip (rr_data r)) cache of
        Some (latency, t) \<Rightarrow> if now - t < from_secs 120 then Some latency else None
      | None \<Rightarrow> None)"

definition probe_task :: "probe_env \<Rightarrow> smart_resolve \<Rightarrow> nat \<Rightarrow> rr \<Rightarrow> nat \<times> u64 \<times> rr" where
  "probe_task PE p now r =
     (case rdata_ip (rr_data r) of
        None \<Rightarrow> (now, - 1, r)
      | Some ip \<Rightarrow>
          let (connected, elapsed) = pe_connect PE now ip (sr_probe_port p); timeout = from_millis (sr_probe_timeout_ms p)
          in if elapsed < timeout
             then (now + elapsed, if connected then word_of_nat (as_millis elapsed) else - 1, r)
             else (now + timeout, - 1, r))"

definition probe_and_sort ::
  "probe_env \<Rightarrow> rr list \<Rightarrow> nat \<Rightarrow> smart_resolve \<Rightarrow> (u64 \<times> rr) list \<times> nat \<times> smart_resolve" where
  "probe_and_sort PE records now p =
     (let known = List.map_filter (\<lambda>r. map_option (\<lambda>l. (l, r)) (latency_get now (sr_latency p) r)) records;
          to_probe = filter (\<lambda>r. latency_get now (sr_latency p) r = None) records;
          max_new = sr_max_ips p - length known;
          cs = (if 0 < max_new then run_all (probe_task PE p) max_new now (take max_new to_probe) else []);
          now = last_end now cs;
          results = sort_key fst (known @ map snd (pe_ends PE now cs));
          cache = fold (\<lambda>(latency, r) m.
              case rdata_ip (rr_data r) of
                Some ip \<Rightarrow> if latency < - 1 then m(ip \<mapsto> (latency, now)) else m
              | None \<Rightarrow> m) results (sr_latency p)
      in (results, now, p\<lparr>sr_latency := cache\<rparr>))"

definition build_response :: "dns_lib \<Rightarrow> message \<Rightarrow> rr list \<Rightarrow> message" where
  "build_response L req records =
     (let resp = (lib_new L)\<lparr>m_id := m_id req, m_type := ResponseMsg, m_opcode := OpQuery, m_rcode := NoError\<rparr>;
          resp = (case msg_query req of Some q \<Rightarrow> add_query q resp | None \<Rightarrow> resp)
      in resp\<lparr>m_answers := m_answers resp @ records\<rparr>)"

definition latency_evict :: "ip_addr \<Rightarrow> smart_resolve \<Rightarrow> smart_resolve" where
  "latency_evict ip p = p\<lparr>sr_latency := (sr_latency p)(ip := None)\<rparr>"

section \<open>The handler\<close>

text \<open>The errors of \<open>handle_internal\<close> are dropped by \<open>handle\<close>: what is left of them is a context without a
  reply.  The channel between the exchanges has a place for each upstream, and a channel without a
  place cannot be made.\<close>

definition smart_resolve_handle ::
  "net_env \<Rightarrow> probe_env \<Rightarrow> smart_resolve \<Rightarrow> nat \<Rightarrow> autopilot \<Rightarrow> 'h ctx
     \<Rightarrow> 'h ctx result \<times> nat \<times> smart_resolve \<times> autopilot" where
  "smart_resolve_handle N PE p now a c =
     (let fallback = (\<lambda>now a. let (c, now, a) = fallback_forward N p now a c in (Inr c, now, p, a)) in
      if map_option q_type (msg_query (request c)) \<notin> {Some T_A, Some T_AAAA} then fallback now a
      else if sr_upstreams p = [] then (Inl Panic, now, p, a)
      else case concurrent_query N p (request c) now a of
             (None, now, a) \<Rightarrow> fallback now a
           | (Some records, now, a) \<Rightarrow>
               if records = [] then fallback now a
               else let (results, now, p) = probe_and_sort PE records now p
                    in (Inr (set_response (build_response (ne_lib N) (request c) (map snd results)) True c), now, p, a))"

section \<open>Where the answers come from\<close>

lemma scheduled:
  "0 < n \<Longrightarrow> list_all2 (\<lambda>c x. \<exists>t. c = task t x) (schedule n task running now xs) xs"
proof (induction n task running now xs rule: schedule.induct)
  case (2 n task running now x xs)
  then show ?case by (cases running) (auto simp: Let_def)
qed simp

lemma run_all_tasks: "list_all2 (\<lambda>c x. \<exists>t. c = task t x) (run_all task limit now xs) xs"
  unfolding run_all_def by (rule scheduled) (simp add: max_concurrency_def)

lemma timed_exchange_answer:
  assumes "u \<in> set us" and "timed_exchange N timeout sent now u = (t, label, Answered msg elapsed)"
  shows "answered_by N sent us msg"
  using assms
  by (auto simp: timed_exchange_def answered_by_def with_timeout_def split: prod.splits if_splits sum.splits rust_error.splits)
    (metis fst_conv)+

lemma fallback_loop_answer:
  "fallback_loop N sent us now a = (Some msg, t, a') \<Longrightarrow> answered_by N sent us msg"
proof (induction us arbitrary: now a)
  case (Cons u us)
  obtain now' label how where e: "timed_exchange N (from_millis 3000) sent now u = (now', label, how)"
    by (cases "timed_exchange N (from_millis 3000) sent now u") auto
  have more: "answered_by N sent us msg \<Longrightarrow> answered_by N sent (u # us) msg" by (auto simp: answered_by_def)
  show ?case
  proof (cases how)
    case (Answered resp elapsed)
    with timed_exchange_answer [of u "u # us"] e have "answered_by N sent (u # us) resp" by simp
    with Cons.prems e Answered show ?thesis by simp
  qed (use Cons e more in \<open>auto simp: Let_def\<close>)
qed simp

lemma fallback_forward_cases:
  assumes "fallback_forward N p now a c = (c', t, a')"
  obtains "c' = c"
  | sent msg where "answered_by N sent (sr_upstreams p) msg" and "c' = set_response (msg\<lparr>m_id := m_id (request c)\<rparr>) True c"
  using assms fallback_loop_answer
  by (auto simp: fallback_forward_def split: option.splits prod.splits) blast+

lemma first_of_each_sound:
  "set (first_of_each known rs) \<subseteq> set rs"
  by (induction known rs rule: first_of_each.induct) (auto split: option.splits if_splits)

lemma first_of_each_distinct:
  "distinct (map (\<lambda>r. rdata_ip (rr_data r)) (first_of_each known rs))
     \<and> (\<forall>r \<in> set (first_of_each known rs). rdata_ip (rr_data r) \<notin> Some ` set known)"
proof (induction known rs rule: first_of_each.induct)
  case (2 known r rs)
  show ?case
  proof (cases "rdata_ip (rr_data r)")
    case None
    with 2 show ?thesis by simp
  next
    case (Some ip)
    with 2 show ?thesis by (cases "ip \<in> set known") auto
  qed
qed simp

text \<open>An address record in an answer of an upstream.\<close>

definition offered :: "net_env \<Rightarrow> upstream list \<Rightarrow> rr \<Rightarrow> bool" where
  "offered N us r \<longleftrightarrow> (\<exists>sent msg. answered_by N sent us msg \<and> r \<in> set (m_answers msg))"

lemma concurrent_query_offered:
  assumes "net_ends_ok N" and "concurrent_query N p req now a = (Some records, t, a')"
  shows "(\<forall>r \<in> set records. offered N (sr_upstreams p) r) \<and> distinct (map (\<lambda>r. rdata_ip (rr_data r)) records)"
proof (cases "lib_to_vec (ne_lib N) req")
  case None
  with assms(2) show ?thesis by (simp add: concurrent_query_def)
next
  case (Some sent)
  let ?us = "sr_upstreams p"
  define cs where "cs = run_all (timed_exchange N (from_millis 1500) sent) (length ?us) now ?us"
  have r: "records = first_of_each [] (concat (map completion_records (ne_ends N now cs)))"
    using assms(2) by (auto simp: concurrent_query_def Some cs_def Let_def split: if_splits)
  have "set (ne_ends N now cs) = set cs" using assms(1) by (metis net_ends_ok_def set_mset_mset)
  moreover have "\<exists>u t. u \<in> set ?us \<and> c = timed_exchange N (from_millis 1500) sent t u" if "c \<in> set cs" for c
    using run_all_tasks [of "timed_exchange N (from_millis 1500) sent" "length ?us" now ?us] that
    by (fastforce simp: cs_def list_all2_conv_all_nth in_set_conv_nth)
  moreover have "offered N ?us r" if "r \<in> set (completion_records c)" "c = timed_exchange N (from_millis 1500) sent t u" "u \<in> set ?us" for r c u t
  proof -
    obtain t' label how where c: "c = (t', label, how)" by (cases c) auto
    show ?thesis
    proof (cases how)
      case (Answered msg elapsed)
      with that(2) c have "timed_exchange N (from_millis 1500) sent t u = (t', label, Answered msg elapsed)" by simp
      then have "answered_by N sent ?us msg" by (rule timed_exchange_answer [OF that(3)])
      with that(1) c Answered show ?thesis by (auto simp: offered_def address_records_def)
    qed (use that(1) c in simp_all)
  qed
  ultimately have "Ball (set (concat (map completion_records (ne_ends N now cs)))) (offered N ?us)"
    unfolding set_concat set_map by blast
  with first_of_each_sound [of "[]" "concat (map completion_records (ne_ends N now cs))"]
    first_of_each_distinct [of "[]" "concat (map completion_records (ne_ends N now cs))"] show ?thesis
    unfolding r by blast
qed

section \<open>The order of the reply\<close>

definition probe_ends_ok :: "probe_env \<Rightarrow> bool" where
  "probe_ends_ok PE \<longleftrightarrow> (\<forall>now cs. mset (pe_ends PE now cs) = mset cs)"

lemma distinct_mset_sub:
  assumes "mset ys \<subseteq># mset xs" and "distinct xs"
  shows "distinct ys"
proof -
  have "count (mset ys) a \<le> (if a \<in> set xs then 1 else 0)" for a
    using mset_subset_eq_count [OF assms(1), of a] assms(2) unfolding distinct_count_atmost_1 by metis
  then have "count (mset ys) a \<le> 1" for a by (rule order_trans) simp
  then show ?thesis
    unfolding distinct_count_atmost_1
    by (metis One_nat_def count_mset_0_iff le_Suc_eq le_zero_eq)
qed

lemma probe_task_record: "snd (snd (probe_task PE p now r)) = r"
  by (simp add: probe_task_def Let_def split: option.split prod.split)

lemma probe_and_sort_sound:
  assumes "probe_ends_ok PE" and "probe_and_sort PE records now p = (results, t, p')"
  shows "sorted (map fst results)" and "mset (map snd results) \<subseteq># mset records"
proof -
  let ?P = "\<lambda>r. latency_get now (sr_latency p) r = None"
  define known where "known = List.map_filter (\<lambda>r. map_option (\<lambda>l. (l, r)) (latency_get now (sr_latency p) r)) records"
  define max_new where "max_new = sr_max_ips p - length known"
  define cs where "cs = (if 0 < max_new then run_all (probe_task PE p) max_new now (take max_new (filter ?P records)) else [])"
  have r: "results = sort_key fst (known @ map snd (pe_ends PE (last_end now cs) cs))"
    using arg_cong [OF assms(2), of fst]
    unfolding probe_and_sort_def Let_def known_def [symmetric] max_new_def [symmetric] cs_def [symmetric] fst_conv
    by (rule sym)
  then show "sorted (map fst results)" by simp
  have k: "map snd known = filter (\<lambda>r. \<not> ?P r) records"
    unfolding known_def by (induction records) (auto simp: List.map_filter_simps split: option.split)
  have "map (\<lambda>c. snd (snd c)) cs = take max_new (filter ?P records)"
    using run_all_tasks [of "probe_task PE p" max_new now "take max_new (filter ?P records)"]
    by (auto simp: cs_def list_all2_conv_all_nth probe_task_record intro!: nth_equalityI)
  then have e: "mset (map snd (map snd (pe_ends PE (last_end now cs) cs))) = mset (take max_new (filter ?P records))"
    using assms(1) by (metis (no_types, lifting) probe_ends_ok_def list.map_comp comp_def map_eq_conv mset_map)
  have split: "mset (map snd results) = mset (map snd known) + mset (map snd (map snd (pe_ends PE (last_end now cs) cs)))"
    by (simp add: r multiset.map_comp)
  have "mset (map snd results) = mset (filter (\<lambda>r. \<not> ?P r) records) + mset (take max_new (filter ?P records))"
    by (simp only: split k e)
  moreover have "mset (take max_new (filter ?P records)) \<subseteq># mset (filter ?P records)"
    by (metis append_take_drop_id mset_append mset_subset_eq_add_left)
  moreover have "mset records = mset (filter (\<lambda>r. \<not> ?P r) records) + mset (filter ?P records)"
    by (induction records) auto
  ultimately show "mset (map snd results) \<subseteq># mset records"
    by (metis mset_subset_eq_mono_add_left_cancel)
qed


text \<open>A plugin without upstreams panics on the first question for an address.\<close>

lemma smart_resolve_panics:
  "fst (smart_resolve_handle N PE p now a c) = Inl Panic \<longleftrightarrow>
     sr_upstreams p = [] \<and> map_option q_type (msg_query (request c)) \<in> {Some T_A, Some T_AAAA}"
  by (auto simp: smart_resolve_handle_def Let_def split: prod.split option.split)

text \<open>With no address allowed to be probed the reply loses all that is not known yet.\<close>

lemma smart_resolve_drops:
  assumes "sr_max_ips p = 0" and "sr_latency p = Map.empty"
  shows "fst (probe_and_sort \<lparr>pe_connect = conn, pe_ends = (\<lambda>now cs. cs)\<rparr> records now p) = []"
  using assms by (simp add: probe_and_sort_def latency_get_def List.map_filter_def Let_def)

text \<open>Two addresses, of which the second connects first.\<close>

lemma smart_resolve_total:
  "sr_upstreams p \<noteq> [] \<Longrightarrow> \<exists>c' t p' a'. smart_resolve_handle N PE p now a c = (Inr c', t, p', a')"
  by (auto simp: smart_resolve_handle_def Let_def split: prod.split option.split)

definition sample_probes :: probe_env where
  "sample_probes = \<lparr>pe_connect = (\<lambda>t ip port. (True, if ip = V4 1 then from_millis 30 else from_millis 5)),
     pe_ends = (\<lambda>t cs. rev cs)\<rparr>"

definition sample_two :: net_env where
  "sample_two = (sample_net (Some [0x12, 0x34]))\<lparr>ne_lib := sample_lib\<lparr>lib_from_vec := (\<lambda>bs. Some (sample_msg\<lparr>m_answers :=
       [from_rdata ''a.'' 60 (RD_A 1), from_rdata ''a.'' 60 (RD_A 2)]\<rparr>))\<rparr>\<rparr>"


end
