(* ===== verification/Ali_Api.thy ===== *)
theory Ali_Api
  imports Dns_Context Upstreams
begin

text \<open>
  \<open>src/plugins/aliapi.rs\<close>: the question goes to an HTTP service that answers in JSON.

  The service, the clock, SHA-256, \<open>Name::from_str\<close> and the \<open>Display\<close> form of addresses are
  the parameter \<open>ali_env\<close>.
\<close>

record ali_api =
  al_account_id :: string
  al_access_key_id :: string
  al_access_key_secret :: string
  al_server_addr :: string
  al_timeout :: nat

record ali_answer =
  aa_name :: string
  aa_type :: u16
  aa_ttl :: u32
  aa_data :: string

record ali_response =
  ar_status :: int
  ar_tc :: bool
  ar_rd :: bool
  ar_ra :: bool
  ar_ad :: bool
  ar_cd :: bool
  ar_answer :: "ali_answer list"

text \<open>The outcome of the request: not sent or cut off, an HTTP status that is no success, or a
  body, which may not be the expected JSON.\<close>

datatype ali_http = Ali_Failed | Ali_Status nat | Ali_Body "ali_response option"

record ali_env =
  ae_lib :: dns_lib
  ae_http :: "nat \<Rightarrow> string \<Rightarrow> ali_http \<times> nat"
  ae_timestamp :: "nat \<Rightarrow> nat"
  ae_sha256 :: "bytes \<Rightarrow> bytes"
  ae_utf8 :: "string \<Rightarrow> bytes"
  ae_name_from_str :: "string \<Rightarrow> string option"
  ae_ip_str :: "ip_addr \<Rightarrow> string"

section \<open>Construction\<close>

definition ali_new :: "string \<Rightarrow> string \<Rightarrow> string \<Rightarrow> nat option \<Rightarrow> ali_api" where
  "ali_new account_id access_key_id access_key_secret timeout_ms =
     \<lparr>al_account_id = account_id, al_access_key_id = access_key_id, al_access_key_secret = access_key_secret,
      al_server_addr = ''223.5.5.5'',
      al_timeout = (case timeout_ms of Some ms \<Rightarrow> from_millis ms | None \<Rightarrow> from_secs 5)\<rparr>"

definition with_server :: "string \<Rightarrow> ali_api \<Rightarrow> ali_api" where
  "with_server server p = (if server \<noteq> [] then p\<lparr>al_server_addr := server\<rparr> else p)"

section \<open>The request\<close>

definition extract_edns_client_subnet :: "ali_env \<Rightarrow> ip_addr \<Rightarrow> string option" where
  "extract_edns_client_subnet E ip =
     (if is_loopback ip \<or> is_unspecified ip then None
      else Some (ae_ip_str E ip @ (case ip of V4 _ \<Rightarrow> ''/24'' | V6 _ \<Rightarrow> ''/56'')))"

definition hex_encode :: "bytes \<Rightarrow> string" where
  "hex_encode bs = concat (map (\<lambda>b. [digit_char (unat b div 16), digit_char (unat b mod 16)]) bs)"

definition ali_type :: "u16 \<Rightarrow> string" where
  "ali_type t =
     (if t = T_A then ''A'' else if t = T_AAAA then ''AAAA'' else if t = T_CNAME then ''CNAME''
      else if t = T_MX then ''MX'' else if t = T_TXT then ''TXT'' else if t = T_NS then ''NS'' else ''A'')"

definition ali_url :: "ali_env \<Rightarrow> ali_api \<Rightarrow> nat \<Rightarrow> string \<Rightarrow> u16 \<Rightarrow> ip_addr \<Rightarrow> string" where
  "ali_url E p now qname t client =
     (let domain = (if ends_with qname ''.'' then qname else qname @ ''.'');
          ts = show_nat (ae_timestamp E now);
          key = hex_encode (ae_sha256 E (ae_utf8 E
             (al_account_id p @ al_access_key_secret p @ ts @ domain @ al_access_key_id p)));
          url = ''http://'' @ al_server_addr p @ ''/resolve?name='' @ domain @ ''&type='' @ ali_type t
             @ ''&uid='' @ al_account_id p @ ''&ak='' @ al_access_key_id p @ ''&key='' @ key @ ''&ts='' @ ts
      in case extract_edns_client_subnet E client of
           Some subnet \<Rightarrow> url @ ''&edns_client_subnet='' @ subnet
         | None \<Rightarrow> url)"

section \<open>The reply\<close>

text \<open>The codes 0 to 3 are themselves; of another the low four bits count.\<close>

definition ali_rcode :: "int \<Rightarrow> u16" where
  "ali_rcode status =
     (if 0 \<le> status \<and> status \<le> 3 then word_of_int status
      else word_of_int (uint ((word_of_int status :: u8) AND 15)))"

text \<open>The records are given the name of the question.\<close>

definition ali_record :: "ali_env \<Rightarrow> string \<Rightarrow> ali_answer \<Rightarrow> rr option" where
  "ali_record E name ans =
     (if aa_type ans = 1
      then (case lib_parse_ip (ae_lib E) (aa_data ans) of
              Some (V4 ip) \<Rightarrow> Some (from_rdata name (aa_ttl ans) (RD_A ip)) | _ \<Rightarrow> None)
      else if aa_type ans = 28
      then (case lib_parse_ip (ae_lib E) (aa_data ans) of
              Some (V6 ip) \<Rightarrow> Some (from_rdata name (aa_ttl ans) (RD_AAAA ip)) | _ \<Rightarrow> None)
      else if aa_type ans = 5
      then (case ae_name_from_str E (aa_data ans) of
              Some cname \<Rightarrow> Some (from_rdata name (aa_ttl ans) (RD_CNAME cname)) | None \<Rightarrow> None)
      else None)"

definition ali_message :: "ali_env \<Rightarrow> u16 \<Rightarrow> query \<Rightarrow> ali_response \<Rightarrow> message" where
  "ali_message E ident q R =
     (let resp = add_query q ((lib_new (ae_lib E))\<lparr>m_id := ident, m_type := ResponseMsg, m_opcode := OpQuery,
             m_rd := True, m_ra := True\<rparr>);
          resp = resp\<lparr>m_rcode := ali_rcode (ar_status R), m_tc := ar_tc R, m_aa := ar_ad R, m_cd := ar_cd R\<rparr>
      in if ar_status R = 0
         then fold add_answer (List.map_filter (ali_record E (q_name q)) (ar_answer R)) resp else resp)"

definition ali_handle :: "ali_env \<Rightarrow> ali_api \<Rightarrow> nat \<Rightarrow> 'h ctx \<Rightarrow> 'h ctx result \<times> nat" where
  "ali_handle E p now c =
     (case msg_query (request c) of
        None \<Rightarrow> (Inl (Error ''No query''), now)
      | Some q \<Rightarrow>
          let (answer, elapsed) = ae_http E now (ali_url E p now (qname_ref c) (q_type q) (fst (client_addr c)))
          in case with_timeout (Some (al_timeout p)) (answer, elapsed) of
               Elapsed \<Rightarrow> (Inl (Error ''timed out''), now + al_timeout p)
             | In_Time Ali_Failed \<Rightarrow> (Inl (Error ''send''), now + elapsed)
             | In_Time (Ali_Status status) \<Rightarrow> (Inl (Error (''AliAPI returned HTTP '' @ show_nat status)), now + elapsed)
             | In_Time (Ali_Body None) \<Rightarrow> (Inl (Error ''json''), now + elapsed)
             | In_Time (Ali_Body (Some R)) \<Rightarrow>
                 (Inr (set_response (ali_message E (m_id (request c)) q R) True c), now + elapsed))"

section \<open>Properties\<close>

lemma ali_new_server [simp]:
  "al_server_addr (with_server [] p) = al_server_addr p"
  "server \<noteq> [] \<Longrightarrow> al_server_addr (with_server server p) = server"
  by (simp_all add: with_server_def)

lemma fold_add_answer [simp]:
  "m_answers (fold add_answer rs m) = m_answers m @ rs" "m_id (fold add_answer rs m) = m_id m"
  "m_queries (fold add_answer rs m) = m_queries m" "m_rcode (fold add_answer rs m) = m_rcode m"
  by (induction rs arbitrary: m) simp_all

lemma ali_message_fields [simp]:
  "m_id (ali_message E i q R) = i"
  "m_rcode (ali_message E i q R) = ali_rcode (ar_status R)"
  "m_queries (ali_message E i q R) = m_queries (lib_new (ae_lib E)) @ [q]"
  by (simp_all add: ali_message_def Let_def)

lemma ali_record_type:
  "ali_record E name ans = Some r \<Longrightarrow> rr_name r = name \<and> rr_type r = aa_type ans \<and> rr_ttl r = aa_ttl ans"
  by (auto simp: ali_record_def split: if_splits option.splits ip_addr.splits)

text \<open>A reply only for an answer of the service, with its code; a failed one has no records.\<close>

lemma ali_handle_cases:
  assumes "ali_handle E p now c = (r, t)"
  obtains e where "r = Inl (Error e)"
  | q R where "msg_query (request c) = Some q" and "r = Inr (set_response (ali_message E (m_id (request c)) q R) True c)"
  using assms
  by (auto simp: ali_handle_def split_beta split: option.splits timed.splits ali_http.splits)

lemma ali_answers:
  assumes "new_is_empty (ae_lib E)"
  shows "m_answers (ali_message E i q R) = (if ar_status R = 0 then List.map_filter (ali_record E (q_name q)) (ar_answer R) else [])"
  using assms by (simp add: ali_message_def new_is_empty_def Let_def)

lemma hex_encode_length [simp]: "length (hex_encode bs) = 2 * length bs"
  by (induction bs) (simp_all add: hex_encode_def)

text \<open>The key signs the account, the secret, the time and the name, so the URL of a client on the
  same machine does not say where it is.\<close>

lemma ali_url_local:
  "is_loopback a \<Longrightarrow> is_loopback b \<Longrightarrow> ali_url E p now n t a = ali_url E p now n t b"
  by (simp add: ali_url_def extract_edns_client_subnet_def)

end
