(* ===== verification/Query_Log_Plugin.thy ===== *)
theory Query_Log_Plugin
  imports Dns_Context
begin

text \<open>
  \<open>src/plugins/query_log.rs\<close>: a line for each query and each response, appended to a file.
  Inside a runtime the lines go through a channel to a task that writes them; outside of one the
  handler writes them itself.

  The formatted time and the \<open>Display\<close> and \<open>Debug\<close> forms of other crates' values are the parameter
  \<open>log_fmt\<close>, with the count that the header of a message has for its answers.  \<open>try_send\<close> drops a line when the channel is full, and the writer's buffer is written out
  after 32 lines, or by a timer.
\<close>

record log_fmt =
  lf_now :: string
  lf_addr :: "ip_addr \<times> u16 \<Rightarrow> string"
  lf_type :: "u16 \<Rightarrow> string"
  lf_rcode :: "u16 \<Rightarrow> string"
  lf_rdata :: "rdata \<Rightarrow> string"
  lf_count :: "message \<Rightarrow> u16"

text \<open>The task that writes: the lines in its buffer, those on the disk, and the count since the last flush;
  \<open>None\<close> when it has ended, after which lines are dropped.\<close>

record log_writer =
  lw_disk :: "string list"
  lw_buffer :: "string list"
  lw_pending :: nat
  lw_dirty :: bool

datatype log_sink =
    No_File
  | Direct "string list"
  | Channel "string list" "log_writer option"

record log_plugin =
  lp_sink :: log_sink
  lp_queries :: bool
  lp_responses :: bool

text \<open>\<open>opened\<close>: the lines of the file if it can be opened.\<close>

definition log_plugin_new :: "string list option option \<Rightarrow> bool \<Rightarrow> bool \<Rightarrow> bool \<Rightarrow> log_plugin result" where
  "log_plugin_new path in_runtime queries responses =
     (case path of
        None \<Rightarrow> Inr \<lparr>lp_sink = No_File, lp_queries = queries, lp_responses = responses\<rparr>
      | Some opened \<Rightarrow>
          if in_runtime
          then Inr \<lparr>lp_sink = Channel []
                  (map_option (\<lambda>ls. \<lparr>lw_disk = ls, lw_buffer = [], lw_pending = 0, lw_dirty = False\<rparr>) opened),
                lp_queries = queries, lp_responses = responses\<rparr>
          else (case opened of
                  Some ls \<Rightarrow> Inr \<lparr>lp_sink = Direct ls, lp_queries = queries, lp_responses = responses\<rparr>
                | None \<Rightarrow> Inl (Error ''open'')))"

section \<open>The lines\<close>

definition format_query :: "log_fmt \<Rightarrow> 'h ctx \<Rightarrow> string" where
  "format_query F c =
     (let ident = show_nat (unat (m_id (request c))) in
      case msg_query (request c) of
        Some q \<Rightarrow> ''['' @ lf_now F @ ''] QUERY '' @ ident @ '' '' @ q_name q @ '' '' @ lf_type F (q_type q)
                    @ '' from '' @ lf_addr F (client_addr c)
      | None \<Rightarrow> ''['' @ lf_now F @ ''] QUERY '' @ ident @ '' (invalid) from '' @ lf_addr F (client_addr c))"

definition format_response :: "log_fmt \<Rightarrow> 'h ctx \<Rightarrow> string" where
  "format_response F c =
     (let ident = show_nat (unat (m_id (request c))) in
      case response c of
        Some resp \<Rightarrow>
          (let qname = (if msg_query (request c) \<noteq> None then qname_ref c else ''?'');
               qtype = (case msg_query (request c) of Some q \<Rightarrow> q_type q | None \<Rightarrow> 0);
               first_answer = (if 0 < lf_count F resp
                 then (case m_answers resp of r # _ \<Rightarrow> '' => '' @ lf_rdata F (rr_data r) | [] \<Rightarrow> []) else [])
           in ''['' @ lf_now F @ ''] RESPONSE '' @ ident @ '' '' @ qname @ '' '' @ lf_type F qtype
              @ '' rcode='' @ lf_rcode F (m_rcode resp) @ '' answers='' @ show_nat (unat (lf_count F resp)) @ first_answer
              @ '' to '' @ lf_addr F (client_addr c))
      | None \<Rightarrow> ''['' @ lf_now F @ ''] RESPONSE '' @ ident @ '' (no response) to '' @ lf_addr F (client_addr c))"

section \<open>Writing\<close>

definition log_entry :: "string \<Rightarrow> log_plugin \<Rightarrow> log_plugin" where
  "log_entry entry p =
     (case lp_sink p of
        Channel lines (Some w) \<Rightarrow>
          if length lines < 1024 then p\<lparr>lp_sink := Channel (lines @ [entry]) (Some w)\<rparr> else p
      | Channel lines None \<Rightarrow> p
      | Direct lines \<Rightarrow> p\<lparr>lp_sink := Direct (lines @ [entry])\<rparr>
      | No_File \<Rightarrow> p)"

definition lw_flush :: "log_writer \<Rightarrow> log_writer" where
  "lw_flush w = w\<lparr>lw_disk := lw_disk w @ lw_buffer w, lw_buffer := [], lw_pending := 0, lw_dirty := False\<rparr>"

definition lw_recv :: "string \<Rightarrow> log_writer \<Rightarrow> log_writer" where
  "lw_recv entry w =
     (let w = w\<lparr>lw_buffer := lw_buffer w @ [entry], lw_pending := lw_pending w + 1, lw_dirty := True\<rparr>
      in if 32 \<le> lw_pending w then lw_flush w else w)"

datatype log_event = Log_Recv | Log_Tick | Log_Write_Fails

text \<open>One turn of the task's loop; a failed write ends it, with a last flush.\<close>

definition log_step :: "log_event \<Rightarrow> log_plugin \<Rightarrow> log_plugin" where
  "log_step e p =
     (case lp_sink p of
        Channel lines (Some w) \<Rightarrow>
          (case e of
             Log_Recv \<Rightarrow> (case lines of
                  [] \<Rightarrow> p
                | entry # rest \<Rightarrow> p\<lparr>lp_sink := Channel rest (Some (lw_recv entry w))\<rparr>)
           | Log_Tick \<Rightarrow> p\<lparr>lp_sink := Channel lines (Some (if lw_dirty w then lw_flush w else w))\<rparr>
           | Log_Write_Fails \<Rightarrow> p\<lparr>lp_sink := Channel [] None\<rparr>)
      | _ \<Rightarrow> p)"

definition log_handle :: "log_fmt \<Rightarrow> log_plugin \<Rightarrow> 'h ctx \<Rightarrow> 'h ctx \<times> log_plugin" where
  "log_handle F p c = (c, if lp_queries p then log_entry (format_query F c) p else p)"

definition log_on_response :: "log_fmt \<Rightarrow> log_plugin \<Rightarrow> 'h ctx \<Rightarrow> 'h ctx \<times> log_plugin" where
  "log_on_response F p c = (c, if lp_responses p then log_entry (format_response F c) p else p)"

section \<open>No line is lost or moved\<close>

text \<open>All the lines on their way to the file, in order.\<close>

definition all_lines :: "log_plugin \<Rightarrow> string list" where
  "all_lines p =
     (case lp_sink p of
        No_File \<Rightarrow> []
      | Direct lines \<Rightarrow> lines
      | Channel lines (Some w) \<Rightarrow> lw_disk w @ lw_buffer w @ lines
      | Channel lines None \<Rightarrow> [])"

definition log_room :: "log_plugin \<Rightarrow> bool" where
  "log_room p = (case lp_sink p of Direct _ \<Rightarrow> True | Channel lines (Some w) \<Rightarrow> length lines < 1024 | _ \<Rightarrow> False)"

lemma log_entry_lines:
  "all_lines (log_entry e p) = (if log_room p then all_lines p @ [e] else all_lines p)"
  by (auto simp: log_entry_def all_lines_def log_room_def split: log_sink.split option.split)

lemma log_step_lines:
  "e \<noteq> Log_Write_Fails \<Longrightarrow> all_lines (log_step e p) = all_lines p"
  by (cases e)
    (auto simp: log_step_def all_lines_def lw_recv_def lw_flush_def Let_def split: log_sink.split option.split list.split)

text \<open>The writer keeps fewer than 32 lines to itself, and knows of them.\<close>

definition writer_ok :: "log_writer \<Rightarrow> bool" where
  "writer_ok w \<longleftrightarrow> lw_pending w = length (lw_buffer w) \<and> lw_pending w < 32 \<and> lw_dirty w = (lw_buffer w \<noteq> [])"

definition log_ok :: "log_plugin \<Rightarrow> bool" where
  "log_ok p \<longleftrightarrow> (case lp_sink p of Channel lines w \<Rightarrow> length lines \<le> 1024 \<and> pred_option writer_ok w | _ \<Rightarrow> True)"

lemma log_ok_new: "log_plugin_new path rt q r = Inr p \<Longrightarrow> log_ok p"
  by (auto simp: log_plugin_new_def log_ok_def writer_ok_def split: option.splits if_splits)

lemma writer_ok_recv: "writer_ok w \<Longrightarrow> writer_ok (lw_recv e w)"
  by (auto simp: writer_ok_def lw_recv_def lw_flush_def Let_def)

lemma log_ok_steps:
  "log_ok p \<Longrightarrow> log_ok (log_entry e p)" "log_ok p \<Longrightarrow> log_ok (log_step s p)"
proof -
  show "log_ok (log_entry e p)" if "log_ok p"
    using that by (auto simp: log_ok_def log_entry_def split: log_sink.splits option.splits)
  have f: "writer_ok (lw_flush w)" for w by (simp add: writer_ok_def lw_flush_def)
  show "log_ok (log_step s p)" if "log_ok p"
    using that f writer_ok_recv
    by (auto simp: log_ok_def log_step_def split: log_sink.splits option.splits list.splits log_event.splits)
qed

text \<open>A tick leaves nothing in the writer's buffer.\<close>

lemma log_tick_flushes:
  assumes "log_ok p" and "lp_sink p = Channel lines (Some w)"
  shows "\<exists>w'. lp_sink (log_step Log_Tick p) = Channel lines (Some w') \<and> lw_buffer w' = []
    \<and> lw_disk w' = lw_disk w @ lw_buffer w"
  using assms by (auto simp: log_ok_def writer_ok_def log_step_def lw_flush_def)

lemma log_keeps_ctx [simp]: "fst (log_handle F p c) = c" "fst (log_on_response F p c) = c"
  by (simp_all add: log_handle_def log_on_response_def)

end
