(* ===== verification/Pipeline.thy ===== *)
theory Pipeline
  imports Rate_Limit Matcher Geo_Site Local_Answers Response_Rewrite Dga_Filter Query_Log Cache_Plugin Fallback
    Smart_Forward Smart_Resolve Ali_Api Query_Log_Plugin
begin

text \<open>
  \<open>src/plugins/mod.rs\<close> and \<open>src/plugins/sequence.rs\<close>: the closed type of plugins,
  its dispatch, and the sequences that run plugins under conditions.

  Plugins are shared objects: a plugin with state of its own is referenced by
  a number into the \<open>world\<close>, which a handler takes and returns.
\<close>

datatype match_condition =
    ByQname "string list"
  | ByQtype "u16 list"
  | ByClientIp "string list"
  | ByTag string bool
  | ByMatcherPlugin string

datatype any_plugin =
    PCache nat
  | PForward nat
  | PSmartForward nat
  | PSequence "(match_condition list \<times> any_plugin) list" "string \<Rightarrow> any_plugin option"
  | PReject reject_type
  | PLog nat
  | PHosts hosts_table
  | PGeoSite nat
  | PGeoIp nat
  | PMatcher nat
  | PFallback any_plugin any_plugin bool nat
  | PEcs ecs
  | PFakeIp nat
  | PDns64 dns64
  | PDnssec dnssec_mode
  | PAdBlock adblock
  | PIpv6Filter ipv6_filter
  | PDga dga
  | PIpMatcher nat
  | PSmartResolve "upstream list" nat
  | PAliApi ali_api
  | PRateLimit nat
  | PTtl ttl_plugin

type_synonym pctx = "any_plugin ctx"

type_synonym ip_net = "ip_addr \<times> u8"

record world =
  w_limiters :: "nat \<Rightarrow> rate_limit"
  w_matchers :: "nat \<Rightarrow> matcher"
  w_geosites :: "nat \<Rightarrow> geosite"
  w_geoips :: "nat \<Rightarrow> geoip"
  w_fakeips :: "nat \<Rightarrow> bool"
  w_caches :: "nat \<Rightarrow> cache_plugin"
  w_jobs :: "(nat \<times> refresh_job) list"
  w_forwards :: "nat \<Rightarrow> forward_plugin"
  w_autopilot :: autopilot
  w_net_jobs :: "net_job list"
  w_smarts :: "nat \<Rightarrow> ip_net smart_forward"
  w_resolvers :: "nat \<Rightarrow> smart_resolve"
  w_log_plugins :: "nat \<Rightarrow> log_plugin"
  w_stats :: dns_stats
  w_log :: query_log
  w_clock :: nat

text \<open>\<open>env_stats_lock\<close>, \<open>env_timestamp\<close> and \<open>env_log_time\<close>: whether \<open>try_write\<close> succeeds, and
  the formatted time, at an instant (nanoseconds); \<open>env_unix\<close> is the Unix time in seconds
  and \<open>env_kernel\<close> the kernel's time with whether it takes an entry; \<open>env_ip_str\<close>, \<open>env_qtype_str\<close> and \<open>env_rcode_str\<close>
  are the \<open>Display\<close> forms of addresses, record types and response codes; \<open>env_network\<close> is what the
  upstreams do and \<open>env_edns_sane\<close> what the two setters of the EDNS record do; \<open>env_probes\<close>, \<open>env_ali\<close>
  and \<open>env_log_fmt\<close> are the connections of \<open>SmartResolve\<close>, the service of \<open>AliApi\<close> and the forms of the
  values in the log.  \<open>env_turns\<close> is the order in which the branches of a fallback end, and \<open>env_raced\<close> what two
  plugins leave in the world that ran at the same time or were dropped: its arguments are the worlds before,
  after the primary, and after the secondary.\<close>

datatype fb_turn =
    Turn_Primary bool
  | Turn_Secondary bool
  | Turn_Delay
  | Turn_Finished

record penv =
  env_lib :: dns_lib
  env_ipnet :: "ip_net ipnet_lib"
  env_ipmatchers :: "nat \<Rightarrow> ip_net list \<times> string option"
  env_stats_lock :: "nat \<Rightarrow> bool"
  env_timestamp :: "nat \<Rightarrow> string"
  env_log_time :: "nat \<Rightarrow> string"
  env_unix :: "nat \<Rightarrow> u64"
  env_kernel :: "nat \<Rightarrow> u64 \<times> bool"
  env_ip_str :: "ip_addr \<Rightarrow> string"
  env_qtype_str :: "u16 \<Rightarrow> string"
  env_rcode_str :: "u16 \<Rightarrow> string"
  env_network :: net_env
  env_edns_sane :: "edns \<Rightarrow> edns"
  env_probes :: probe_env
  env_ali :: ali_env
  env_log_fmt :: "nat \<Rightarrow> log_fmt"
  env_turns :: "nat \<Rightarrow> fb_turn list"
  env_raced :: "world \<Rightarrow> world \<Rightarrow> world \<Rightarrow> world"

section \<open>Conditions\<close>

definition cond_match ::
  "(string \<Rightarrow> any_plugin option) \<Rightarrow> match_condition \<Rightarrow> pctx \<Rightarrow> world \<Rightarrow> bool \<times> world" where
  "cond_match registry cond c w =
     (case cond of
        ByQname patterns \<Rightarrow> (list_ex (ends_with (qname_ref c)) patterns, w)
      | ByQtype types \<Rightarrow>
          ((case msg_query (request c) of Some q \<Rightarrow> q_type q | None \<Rightarrow> 0) \<in> set types, w)
      | ByTag tag invert \<Rightarrow> (if invert then \<not> has_tag tag c else has_tag tag c, w)
      | ByMatcherPlugin plugin_name \<Rightarrow>
          (case registry plugin_name of
             Some (PMatcher i) \<Rightarrow>
               (let (r, m) = mp_matches (qname_ref c) (w_matchers w i)
                in (r, w\<lparr>w_matchers := (w_matchers w)(i := m)\<rparr>))
           | _ \<Rightarrow> (False, w))
      | ByClientIp _ \<Rightarrow> (False, w))"

fun check_match ::
  "(string \<Rightarrow> any_plugin option) \<Rightarrow> match_condition list \<Rightarrow> pctx \<Rightarrow> world \<Rightarrow> bool \<times> world" where
  "check_match registry [] c w = (True, w)"
| "check_match registry (cond # conds) c w =
     (let (matched, w) = cond_match registry cond c w
      in if \<not> matched then (False, w) else check_match registry conds c w)"

section \<open>Dispatch\<close>

definition block_stats :: "penv \<Rightarrow> string option \<Rightarrow> world \<Rightarrow> world" where
  "block_stats E name w =
     (case name of
        None \<Rightarrow> w
      | Some n \<Rightarrow> w\<lparr>w_stats := record_blocked (env_stats_lock E (w_clock w)) (env_timestamp E (w_clock w)) n (w_stats w)\<rparr>)"

definition forward_net :: "penv \<Rightarrow> net_env" where
  "forward_net E = (env_network E)\<lparr>ne_lib := env_lib E\<rparr>"

text \<open>All plugins but sequences and fallbacks.\<close>

definition leaf_handle :: "penv \<Rightarrow> any_plugin \<Rightarrow> pctx \<Rightarrow> world \<Rightarrow> pctx result \<times> world" where
  "leaf_handle E p c w =
     (case p of
        PCache i \<Rightarrow>
          (case cache_handle (PCache i) (env_unix E (w_clock w)) (w_caches w i) (w_stats w) c of
             Inl e \<Rightarrow> (Inl e, w)
           | Inr (c, p, s, job) \<Rightarrow>
               (Inr c, w\<lparr>w_caches := (w_caches w)(i := p), w_stats := s,
                         w_jobs := w_jobs w @ (case job of Some j \<Rightarrow> [(i, j)] | None \<Rightarrow> [])\<rparr>))
      | PForward i \<Rightarrow>
          (let (r, t, jobs, p, a) =
             forward_handle (forward_net E) (env_edns_sane E) (w_forwards w i) (w_clock w) (w_autopilot w) c
           in (r, w\<lparr>w_forwards := (w_forwards w)(i := p), w_autopilot := a,
                     w_net_jobs := w_net_jobs w @ jobs, w_clock := t\<rparr>))
      | PSmartForward i \<Rightarrow>
          (let (r, s) = smart_handle (forward_net E) (env_edns_sane E) (env_ipnet E)
                 \<lparr>ss_plugin = w_smarts w i, ss_ap = w_autopilot w, ss_stats = w_stats w, ss_now = w_clock w,
                  ss_jobs = w_net_jobs w\<rparr> c
           in (r, w\<lparr>w_smarts := (w_smarts w)(i := ss_plugin s), w_autopilot := ss_ap s, w_stats := ss_stats s,
                     w_clock := ss_now s, w_net_jobs := ss_jobs s\<rparr>))
      | PSmartResolve us i \<Rightarrow>
          (let (r, t, p, a) = smart_resolve_handle (forward_net E) (env_probes E) ((w_resolvers w i)\<lparr>sr_upstreams := us\<rparr>)
                 (w_clock w) (w_autopilot w) c
           in (r, w\<lparr>w_resolvers := (w_resolvers w)(i := p), w_autopilot := a, w_clock := t\<rparr>))
      | PAliApi p \<Rightarrow>
          (let (r, t) = ali_handle ((env_ali E)\<lparr>ae_lib := env_lib E\<rparr>) p (w_clock w) c in (r, w\<lparr>w_clock := t\<rparr>))
      | PLog i \<Rightarrow>
          (let (c, p) = log_handle (env_log_fmt E (w_clock w)) (w_log_plugins w i) c
           in (Inr c, w\<lparr>w_log_plugins := (w_log_plugins w)(i := p)\<rparr>))
      | PReject rcode \<Rightarrow> (Inr (reject_handle (env_lib E) rcode c), w)
      | PHosts h \<Rightarrow> (Inr (hosts_handle h c), w)
      | PGeoSite i \<Rightarrow>
          (let (r, g) = gs_handle (w_geosites w i) c in (r, w\<lparr>w_geosites := (w_geosites w)(i := g)\<rparr>))
      | PGeoIp i \<Rightarrow>
          (let (c, g) = geoip_handle (w_geoips w i) c in (Inr c, w\<lparr>w_geoips := (w_geoips w)(i := g)\<rparr>))
      | PMatcher i \<Rightarrow>
          (let (r, m) = mp_handle (w_matchers w i) c in (r, w\<lparr>w_matchers := (w_matchers w)(i := m)\<rparr>))
      | PEcs e \<Rightarrow> (Inr (ecs_handle (env_lib E) e c), w)
      | PFakeIp i \<Rightarrow>
          (let (c, _, warned) = fakeip_handle (w_fakeips w i) c
           in (Inr c, w\<lparr>w_fakeips := (w_fakeips w)(i := warned)\<rparr>))
      | PDns64 d \<Rightarrow> (Inr (dns64_handle (env_lib E) d c), w)
      | PDnssec mode \<Rightarrow> (Inr c, w)
      | PAdBlock ab \<Rightarrow>
          (let (c, blocked) = adblock_handle (env_lib E) ab c in (Inr c, block_stats E blocked w))
      | PIpv6Filter f \<Rightarrow>
          (let (c, ms) = ipv6_filter_handle (env_lib E) f c
           in (Inr c, w\<lparr>w_clock := w_clock w + ms * 10 ^ 6\<rparr>))
      | PDga d \<Rightarrow>
          (case dga_handle d c of
             Inl e \<Rightarrow> (Inl e, w)
           | Inr (c, None) \<Rightarrow> (Inr c, w)
           | Inr (c, Some n) \<Rightarrow>
               (Inr c, let w = block_stats E (Some n) w
                       in w\<lparr>w_stats := record_strategy ''Blocked_DGA'' (w_stats w)\<rparr>))
      | PIpMatcher i \<Rightarrow>
          (Inr (im_handle (env_ipnet E) (fst (env_ipmatchers E i)) (snd (env_ipmatchers E i)) c), w)
      | PRateLimit i \<Rightarrow>
          (let (p, c) = rl_handle (env_lib E) (w_clock w) (w_limiters w i) c
           in (Inr c, w\<lparr>w_limiters := (w_limiters w)(i := p)\<rparr>))
      | PTtl t \<Rightarrow> (Inr (apply_ttl t c), w)
      | _ \<Rightarrow> (Inr c, w))"

text \<open>A fallback runs two plugins on clones of the context.  The turns give the order of their ends, and
  whether each ends within five seconds; when they are used up the threshold and the timeouts
  have passed.  A turn that \<open>select!\<close> does not wait for has no effect, and a panic of a branch is one
  of the handler.\<close>

definition fb_event_of :: "pctx result \<Rightarrow> pctx result \<Rightarrow> fb_turn \<Rightarrow> bool \<times> pctx fb_event" where
  "fb_event_of r1 r2 t =
     (case t of
        Turn_Primary ok \<Rightarrow> (ok \<and> r1 = Inl Panic, Primary_Done (fb_outcome (if ok then Some r1 else None)))
      | Turn_Secondary ok \<Rightarrow> (ok \<and> r2 = Inl Panic, Secondary_Done (fb_outcome (if ok then Some r2 else None)))
      | Turn_Delay \<Rightarrow> (False, Delay)
      | Turn_Finished \<Rightarrow> (False, Poll_Finished))"

fun fb_drive :: "(bool \<times> 'c fb_event) list \<Rightarrow> 'c fb_state \<Rightarrow> 'c fb_state" where
  "fb_drive [] s = s"
| "fb_drive ((panics, e) # es) s =
     (case fb_step e s of
        None \<Rightarrow> fb_drive es s
      | Some s' \<Rightarrow> if panics then Panicked else fb_drive es s')"

definition last_turns :: "fb_turn list" where
  "last_turns = [Turn_Delay, Turn_Primary False, Turn_Secondary False, Turn_Finished]"

definition fb_end :: "bool \<Rightarrow> fb_turn list \<Rightarrow> pctx result \<Rightarrow> pctx result \<Rightarrow> pctx fb_state" where
  "fb_end always_standby turns r1 r2 =
     fb_drive (map (fb_event_of r1 r2) (turns @ last_turns)) (fb_start always_standby)"

definition fb_conclude :: "pctx fb_state \<Rightarrow> pctx \<Rightarrow> pctx result" where
  "fb_conclude s c =
     (case s of
        Returned (Inr from_ctx) \<Rightarrow> Inr (apply_ctx from_ctx c)
      | Returned (Inl e) \<Rightarrow> Inl e
      | _ \<Rightarrow> Inl Panic)"

text \<open>A primary that ends first is followed by nothing, or, when it fails, by the secondary.\<close>

definition fb_world :: "penv \<Rightarrow> bool \<Rightarrow> fb_turn list \<Rightarrow> pctx result \<Rightarrow> world \<Rightarrow> world \<Rightarrow> world \<Rightarrow> world" where
  "fb_world E always_standby turns r1 w w1 w2 =
     (if always_standby then env_raced E w w1 w2
      else case turns of
             Turn_Primary True # rest \<Rightarrow>
               if fb_outcome (Some r1) \<noteq> None \<or> r1 = Inl Panic then w1
               else (case rest of Turn_Secondary True # _ \<Rightarrow> w2 | _ \<Rightarrow> env_raced E w w1 w2)
           | _ \<Rightarrow> env_raced E w w1 w2)"

text \<open>A sequence runs the plugins whose conditions hold, stops at the first error,
  and stops after a plugin that leaves the context aborted.\<close>

fun any_handle :: "penv \<Rightarrow> any_plugin \<Rightarrow> pctx \<Rightarrow> world \<Rightarrow> pctx result \<times> world"
  and run_steps :: "penv \<Rightarrow> (string \<Rightarrow> any_plugin option) \<Rightarrow> (match_condition list \<times> any_plugin) list
      \<Rightarrow> pctx \<Rightarrow> world \<Rightarrow> pctx result \<times> world" where
  "any_handle E (PSequence steps registry) c w = run_steps E registry steps c w"
| "any_handle E (PFallback primary secondary always_standby threshold) c w =
     (let (r1, w1) = any_handle E primary c w;
          (r2, w2) = any_handle E secondary c w1;
          turns = env_turns E (w_clock w)
      in (fb_conclude (fb_end always_standby turns r1 r2) c, fb_world E always_standby turns r1 w w1 w2))"
| "any_handle E p c w = leaf_handle E p c w"
| "run_steps E registry [] c w = (Inr c, w)"
| "run_steps E registry ((conds, p) # steps) c w =
     (let (matched, w) = check_match registry conds c w in
      if \<not> matched then run_steps E registry steps c w
      else case any_handle E p c w of
             (Inl e, w) \<Rightarrow> (Inl e, w)
           | (Inr c, w) \<Rightarrow> if ctx_abort c then (Inr c, w) else run_steps E registry steps c w)"

text \<open>The response path: the plugins that keep the default do nothing.\<close>

definition any_on_response :: "penv \<Rightarrow> any_plugin \<Rightarrow> pctx \<Rightarrow> world \<Rightarrow> (pctx \<times> rust_error option) \<times> world" where
  "any_on_response E p c w =
     (case p of
        PDnssec mode \<Rightarrow> ((dnssec_on_response (env_lib E) mode c, None), w)
      | PCache i \<Rightarrow>
          (let (now_ns, inserted) = env_kernel E (w_clock w)
           in ((c, None), w\<lparr>w_caches := (w_caches w)(i :=
                 cache_on_response (env_lib E) (env_unix E (w_clock w)) now_ns inserted c (w_caches w i))\<rparr>))
      | PForward _ \<Rightarrow>
          (let (c, a) = forward_on_response (w_clock w) (w_autopilot w) c in ((c, None), w\<lparr>w_autopilot := a\<rparr>))
      | PLog i \<Rightarrow>
          (let (c, p) = log_on_response (env_log_fmt E (w_clock w)) (w_log_plugins w i) c
           in ((c, None), w\<lparr>w_log_plugins := (w_log_plugins w)(i := p)\<rparr>))
      | _ \<Rightarrow> ((c, None), w))"

section \<open>What every plugin keeps\<close>

lemma query_ident_leaves [simp]:
  "query_ident (reject_handle L rc c) = query_ident c"
  "query_ident (hosts_handle h c) = query_ident c"
  "query_ident (fst (adblock_handle L ab c)) = query_ident c"
  "query_ident (fst (ipv6_filter_handle L f c)) = query_ident c"
  "query_ident (apply_ttl t c) = query_ident c"
  "query_ident (dns64_handle L d c) = query_ident c"
  "query_ident (ecs_handle L e c) = query_ident c"
  "query_ident (snd (rl_handle L now rl c)) = query_ident c"
  "query_ident (fst (geoip_handle g c)) = query_ident c"
  "query_ident (fst (fakeip_handle b c)) = query_ident c"
  "query_ident (dnssec_on_response L mode c) = query_ident c"
  apply (simp add: reject_handle_def Let_def split: option.split)
  apply (simp add: hosts_handle_def split: option.split)
  apply (simp add: adblock_handle_def Let_def split: option.split)
  apply (simp add: ipv6_filter_handle_def split: option.split ipv6_filter_mode.split)
  apply (simp add: apply_ttl_def split: option.split)
  apply (simp add: dns64_handle_def Let_def split: option.split)
  apply (simp add: ecs_handle_def apply_ecs_def query_ident_def Let_def split: option.split)
  apply (simp add: rl_handle_def Let_def split_beta)
  apply (simp add: geoip_handle_def Let_def split_beta)
  apply (simp add: fakeip_handle_def)
  apply (simp add: dnssec_on_response_def dnssec_apply_def validate_response_def split: option.split)
  done

lemma im_handle_keeps [simp]:
  "query_ident (im_handle N cidrs mark c) = query_ident c" "reply_ok (im_handle N cidrs mark c) = reply_ok c"
proof -
  have "im_scan N cidrs mark rs c = c \<or> (\<exists>t. im_scan N cidrs mark rs c = add_tag t c)" for rs
    by (induction rs) (auto split: option.split)
  then have "im_handle N cidrs mark c = c \<or> (\<exists>t. im_handle N cidrs mark c = add_tag t c)"
    by (auto simp: im_handle_def split: option.split)
  then show "query_ident (im_handle N cidrs mark c) = query_ident c" "reply_ok (im_handle N cidrs mark c) = reply_ok c"
    by auto
qed

lemma marking_keeps:
  "fst (mp_handle m c) = Inr c' \<Longrightarrow> query_ident c' = query_ident c"
  "fst (gs_handle g c) = Inr c' \<Longrightarrow> query_ident c' = query_ident c"
  by (auto simp: mp_handle_def gs_handle_def split: if_splits prod.splits sum.splits option.splits)

lemma cache_keeps:
  "cache_handle hook now p s c = Inr (c', p', s', job) \<Longrightarrow> query_ident c' = query_ident c \<and> (reply_ok c \<longrightarrow> reply_ok c')"
  using cache_handle_keeps [of c hook now p s] by (simp add: handled_ok_def)

lemma dga_keeps: "dga_handle d c = Inr (c', n) \<Longrightarrow> query_ident c' = query_ident c"
  using dga_handle_cases [of d c c' n] by auto

lemma forward_keeps:
  assumes "forward_handle N sane p now a c = (Inr c', t, jobs, p', a')"
  shows "query_ident c' = query_ident c \<and> reply_ok c'"
  using fwd.handled_keeps [of "ne_lib N" N sane p now a c c'] assms by (simp add: forward_handle_def)

lemma smart_keeps:
  assumes "smart_handle N sane I s c = (Inr c', s')"
  shows "query_ident c' = query_ident c \<and> (reply_ok c \<longrightarrow> reply_ok c')"
  using assms by (cases rule: smart_handle_cases) auto

lemma smart_resolve_keeps:
  assumes "smart_resolve_handle N PE p now a c = (Inr c', t, p', a')"
  shows "query_ident c' = query_ident c \<and> (reply_ok c \<longrightarrow> reply_ok c')"
proof -
  have f: "query_ident (fst (fallback_forward N p n b c)) = query_ident c
      \<and> (reply_ok c \<longrightarrow> reply_ok (fst (fallback_forward N p n b c)))" for n b
    by (auto simp: fallback_forward_def split: option.split prod.split)
  show ?thesis
    using assms f by (auto simp: smart_resolve_handle_def Let_def split_beta split: if_splits option.splits prod.splits)
qed

lemma ali_keeps:
  assumes "ali_handle E p now c = (Inr c', t)"
  shows "query_ident c' = query_ident c \<and> (reply_ok c \<longrightarrow> reply_ok c')"
  using assms by (cases rule: ali_handle_cases) auto

lemma leaf_handle_keeps:
  assumes "leaf_handle E p c w = (Inr c', w')"
  shows "query_ident c' = query_ident c \<and> (reply_ok c \<longrightarrow> reply_ok c')"
proof (cases p)
  case (PCache i)
  with assms obtain p' s' job where
      "cache_handle (PCache i) (env_unix E (w_clock w)) (w_caches w i) (w_stats w) c = Inr (c', p', s', job)"
    by (auto simp: leaf_handle_def split: sum.splits)
  then show ?thesis by (rule cache_keeps)
next
  case (PForward i)
  with assms show ?thesis by (auto simp: leaf_handle_def split: prod.splits dest: forward_keeps)
next
  case (PSmartForward i)
  with assms show ?thesis by (auto simp: leaf_handle_def split: prod.splits dest: smart_keeps)
next
  case (PSmartResolve us i)
  with assms show ?thesis by (auto simp: leaf_handle_def split: prod.splits dest: smart_resolve_keeps)
next
  case (PAliApi p)
  with assms show ?thesis by (auto simp: leaf_handle_def split: prod.splits dest: ali_keeps)
next
  case (PGeoSite i)
  with assms have "fst (gs_handle (w_geosites w i) c) = Inr c'"
    by (simp add: leaf_handle_def split_beta)
  then show ?thesis using marking_keeps(2) gs_handle_reply_ok by blast
next
  case (PMatcher i)
  with assms have "fst (mp_handle (w_matchers w i) c) = Inr c'"
    by (simp add: leaf_handle_def split_beta)
  then show ?thesis using marking_keeps(1) mp_handle_reply_ok by blast
next
  case (PDga d)
  with assms obtain n where "dga_handle d c = Inr (c', n)"
    by (auto simp: leaf_handle_def split: sum.splits option.splits)
  then show ?thesis using dga_keeps dga_handle_reply_ok by blast
next
  case (PEcs e)
  with assms show ?thesis
    using ecs_handle_reply_ok [of "env_lib E" e c] by (auto simp: leaf_handle_def)
next
  case (PGeoIp i)
  with assms have "c' = fst (geoip_handle (w_geoips w i) c)"
    by (auto simp: leaf_handle_def split_beta)
  moreover have "reply_ok (fst (geoip_handle (w_geoips w i) c)) = reply_ok c"
    by (simp add: geoip_handle_def Let_def split_beta)
  ultimately show ?thesis by simp
qed (use assms in \<open>auto simp: leaf_handle_def fakeip_handle_def log_handle_def split_beta
       adblock_handle_reply_ok ipv6_filter_handle_reply_ok rl_handle_reply_ok
       dns64_handle_reply_ok apply_ttl_reply_ok\<close>)

lemma any_on_response_keeps:
  assumes "any_on_response E p c w = ((c', e), w')"
  shows "query_ident c' = query_ident c \<and> (reply_ok c \<longrightarrow> reply_ok c')"
  using assms forward_hook_keeps [of "w_clock w" "w_autopilot w" c]
  by (cases p) (auto simp: any_on_response_def log_on_response_def split_beta)

section \<open>Plugins do not panic\<close>

lemma label_ranges_ordered: "(a, b) \<in> set (label_ranges s) \<Longrightarrow> a \<le> b"
proof -
  have "start \<le> i \<Longrightarrow> (a, b) \<in> set (label_ranges_from bs i start) \<Longrightarrow> a \<le> b" for bs i start
    by (induction bs i start rule: label_ranges_from.induct) (auto split: if_splits)
  then show "(a, b) \<in> set (label_ranges s) \<Longrightarrow> a \<le> b" by (auto simp: label_ranges_def)
qed

lemma walks_total:
  assumes "\<forall>(a, b) \<in> set rs. a \<le> b"
  shows "\<exists>r. sn_walk_ranges n d rs = Inr r" "\<exists>r. tn_walk_ranges t d rs = Inr r"
  using assms
  by (induction rs arbitrary: n t) (auto split: option.split)

lemma matching_total:
  assumes "\<forall>(a, b) \<in> set rs. a \<le> b"
  shows "\<exists>r. fst (matches_lower_with_parts d rs m) = Inr r"
    and "\<exists>r. fst (ds_matches_lower_with_parts d rs s) = Inr r"
proof -
  have "\<forall>(a, b) \<in> set (rev rs). a \<le> b" using assms by auto
  note walks = walks_total [OF this]
  show "\<exists>r. fst (matches_lower_with_parts d rs m) = Inr r"
    using walks(1) [of "mp_suffix_root m" "clean_domain d"]
    by (auto simp: matches_lower_with_parts_def Let_def split: option.split)
  show "\<exists>r. fst (ds_matches_lower_with_parts d rs s) = Inr r"
    using walks(2) [of "ds_root s" "trim_end_matches CHR ''.'' d"]
    by (auto simp: ds_matches_lower_with_parts_def Let_def split: option.split)
qed

lemma cells_ranges_ordered:
  assumes "cells_ok c"
  shows "\<forall>(a, b) \<in> set (qname_parts_ranges c). a \<le> b"
  using cells_reads(3) [OF assms] label_ranges_ordered by auto

lemma marking_total:
  assumes "cells_ok c"
  shows "\<exists>c'. fst (mp_handle m c) = Inr c'" and "\<exists>c'. fst (gs_handle g c) = Inr c'"
proof -
  note r = matching_total [OF cells_ranges_ordered [OF assms]]
  show "\<exists>c'. fst (mp_handle m c) = Inr c'"
    using r(1) [of "qname_lower_ref c" m]
    by (auto simp: mp_handle_def split_beta split: sum.split)
  show "\<exists>c'. fst (gs_handle g c) = Inr c'"
    using r(2) [of "qname_lower_ref c" "the (gs_categories g (gs_target_category g))"]
    by (auto simp: gs_handle_def gs_matches_with_parts_def split_beta split: sum.split option.split)
qed

lemma dga_total:
  assumes "cells_ok c"
  shows "\<exists>r. dga_handle d c = Inr r"
  by (simp add: dga_handle_def get_main_part_def qname_parts_iter_def cells_reads [OF assms]
      slices_label_ranges Let_def)

text \<open>A \<open>SmartResolve\<close> without upstreams panics on every question for an address, and a fallback in
  the standby mode when both of its plugins fail.  A pipeline is safe without these.\<close>

fun plugin_safe :: "any_plugin \<Rightarrow> bool" where
  "plugin_safe (PSequence steps registry) \<longleftrightarrow> (\<forall>(conds, p) \<in> set steps. plugin_safe p)"
| "plugin_safe (PFallback primary secondary always_standby threshold) \<longleftrightarrow>
     \<not> always_standby \<and> plugin_safe primary \<and> plugin_safe secondary"
| "plugin_safe (PSmartResolve us i) \<longleftrightarrow> us \<noteq> []"
| "plugin_safe p \<longleftrightarrow> True"

lemma leaf_handle_no_panic:
  assumes "plugin_safe p" and "cells_ok c"
  shows "fst (leaf_handle E p c w) \<noteq> Inl Panic"
proof (cases p)
  case (PCache i)
  then show ?thesis
    using cache_handle_keeps [of c "PCache i" "env_unix E (w_clock w)" "w_caches w i" "w_stats w"]
    by (auto simp: leaf_handle_def handled_ok_def split: sum.splits)
next
  case (PForward i)
  with fwd.handled_no_panic [of "env_lib E" "forward_net E" "env_edns_sane E" "w_forwards w i" "w_clock w" "w_autopilot w" c]
  show ?thesis by (simp add: leaf_handle_def forward_handle_def forward_net_def split_beta)
next
  case (PSmartForward i)
  obtain r s' where h: "smart_handle (forward_net E) (env_edns_sane E) (env_ipnet E)
      \<lparr>ss_plugin = w_smarts w i, ss_ap = w_autopilot w, ss_stats = w_stats w, ss_now = w_clock w, ss_jobs = w_net_jobs w\<rparr> c
      = (r, s')" by fastforce
  then have "r \<noteq> Inl Panic" by (cases rule: smart_handle_cases) auto
  with h PSmartForward show ?thesis by (simp add: leaf_handle_def)
next
  case (PSmartResolve us i)
  with assms(1) show ?thesis by (simp add: leaf_handle_def split_beta smart_resolve_panics)
next
  case (PAliApi p)
  obtain r t where h: "ali_handle ((env_ali E)\<lparr>ae_lib := env_lib E\<rparr>) p (w_clock w) c = (r, t)" by fastforce
  then have "r \<noteq> Inl Panic" by (cases rule: ali_handle_cases) auto
  with h PAliApi show ?thesis by (simp add: leaf_handle_def)
next
  case (PGeoSite i)
  with marking_total(2) [OF assms(2), of "w_geosites w i"] show ?thesis
    by (auto simp: leaf_handle_def split_beta)
next
  case (PMatcher i)
  with marking_total(1) [OF assms(2), of "w_matchers w i"] show ?thesis
    by (auto simp: leaf_handle_def split_beta)
next
  case (PDga d)
  with dga_total [OF assms(2), of d] show ?thesis
    by (auto simp: leaf_handle_def Let_def split: option.splits)
qed (auto simp: leaf_handle_def split_beta)

lemma any_on_response_no_panic: "snd (fst (any_on_response E p c w)) \<noteq> Some Panic"
  by (cases p) (auto simp: any_on_response_def split_beta)

section \<open>Fallbacks in a pipeline\<close>

lemma fb_drive_append: "fb_drive (xs @ ys) s = fb_drive ys (fb_drive xs s)"
proof (induction xs s rule: fb_drive.induct)
  case (2 b e es s)
  have "fb_step e Panicked = None" for e :: "'a fb_event" by (cases e) simp_all
  then have "fb_drive ys Panicked = Panicked" by (induction ys) (auto split: prod.split)
  with 2 show ?case by (auto split: option.split)
qed simp

text \<open>The turns that have an effect are a run of the fallback.\<close>

lemma fb_drive_run:
  "(\<exists>es'. set es' \<subseteq> snd ` set es \<and> fb_run es' s = Some (fb_drive es s))
     \<or> fb_drive es s = Panicked \<and> True \<in> fst ` set es"
proof (induction es s rule: fb_drive.induct)
  case (1 s)
  show ?case by (intro disjI1 exI [of _ "[]"]) simp
next
  case (2 b e es s)
  show ?case
  proof (cases "fb_step e s")
    case None
    with 2(1) show ?thesis by fastforce
  next
    case (Some s')
    show ?thesis
    proof (cases b)
      case True
      with Some show ?thesis by auto
    next
      case False
      with Some 2(2) have "(\<exists>es'. set es' \<subseteq> snd ` set es \<and> fb_run es' s' = Some (fb_drive es s'))
          \<or> fb_drive es s' = Panicked \<and> True \<in> fst ` set es" by simp
      then show ?thesis
      proof
        assume "\<exists>es'. set es' \<subseteq> snd ` set es \<and> fb_run es' s' = Some (fb_drive es s')"
        then obtain es' where "set es' \<subseteq> snd ` set es" "fb_run es' s' = Some (fb_drive es s')" by blast
        with Some False show ?thesis by (intro disjI1 exI [of _ "e # es'"]) auto
      qed (use Some False in auto)
    qed
  qed
qed

lemma fb_end_returned:
  assumes "fb_end sb turns r1 r2 = Returned x"
  shows "case x of Inr c \<Rightarrow> r1 = Inr c \<or> r2 = Inr c | Inl e \<Rightarrow> e = both_failed"
proof -
  let ?es = "map (fb_event_of r1 r2) (turns @ last_turns)"
  obtain es' where es': "set es' \<subseteq> snd ` set ?es" and run: "fb_run es' (fb_start sb) = Some (Returned x)"
    using fb_drive_run [of ?es "fb_start sb"] assms unfolding fb_end_def by auto
  have ev: "r1 = Inr c" if "Primary_Done (Some c) \<in> set es'" for c
    using es' that by (auto simp: fb_event_of_def fb_outcome_def split: fb_turn.splits if_splits sum.splits)
  have ev2: "r2 = Inr c" if "Secondary_Done (Some c) \<in> set es'" for c
    using es' that by (auto simp: fb_event_of_def fb_outcome_def split: fb_turn.splits if_splits sum.splits)
  show ?thesis
  proof (cases sb)
    case True
    then have "standby_inv ({} \<union> set es') (Returned x)"
      by (intro standby_run [OF run]) (simp add: standby_inv_def fb_start_def)
    with ev ev2 show ?thesis by (auto simp: standby_inv_def split: sum.splits)
  next
    case False
    then have "plain_inv ({} \<union> set es') (Returned x)"
      by (intro plain_run [OF run]) (simp add: plain_inv_def fb_start_def)
    with ev ev2 show ?thesis by (auto simp: plain_inv_def split: sum.splits)
  qed
qed

lemma fb_end_plain:
  assumes "r1 \<noteq> Inl Panic" "r2 \<noteq> Inl Panic"
  shows "\<exists>x. fb_end False turns r1 r2 = Returned x"
proof -
  let ?ev = "fb_event_of r1 r2"
  define s where "s = fb_drive (map ?ev turns) Wait"
  have "True \<notin> fst ` set (map ?ev turns)" using assms by (auto simp: fb_event_of_def split: fb_turn.splits)
  then obtain es' where "fb_run es' Wait = Some s"
    using fb_drive_run [of "map ?ev turns" Wait] unfolding s_def by auto
  then have "plain_inv ({} \<union> set es') s" by (rule plain_run) (simp add: plain_inv_def)
  then have "\<exists>x. fb_drive (map ?ev last_turns) s = Returned x"
    by (cases s) (auto simp: last_turns_def fb_event_of_def fb_outcome_def plain_inv_def split: bool.split)
  then show ?thesis by (simp add: fb_end_def fb_drive_append fb_start_def s_def)
qed

lemma fb_conclude_cases:
  "fb_conclude (fb_end sb turns r1 r2) c = Inr c' \<Longrightarrow> \<exists>from_ctx. c' = apply_ctx from_ctx c \<and> (r1 = Inr from_ctx \<or> r2 = Inr from_ctx)"
  "r1 \<noteq> Inl Panic \<Longrightarrow> r2 \<noteq> Inl Panic \<Longrightarrow> fb_conclude (fb_end False turns r1 r2) c \<noteq> Inl Panic"
  using fb_end_returned [of sb turns r1 r2] fb_end_returned [of False turns r1 r2] fb_end_plain [of r1 r2 turns]
  by (auto simp: fb_conclude_def both_failed_def split: fb_state.splits sum.splits)

section \<open>Contracts of plugins, lifted to pipelines\<close>

text \<open>A property of contexts that every leaf plugin and every hook keeps, that a fallback can hand
  over, and under which no safe leaf panics, holds after every pipeline.\<close>

locale plugin_contract =
  fixes E :: penv and I :: "pctx \<Rightarrow> bool"
  assumes leaf_keeps: "leaf_handle E p c w = (Inr c', w') \<Longrightarrow> I c \<Longrightarrow> I c'"
    and hook_keeps: "any_on_response E p c w = ((c', e), w') \<Longrightarrow> I c \<Longrightarrow> I c'"
    and merge_keeps: "I from_ctx \<Longrightarrow> I c \<Longrightarrow> I (apply_ctx from_ctx c)"
    and leaf_safe: "I c \<Longrightarrow> plugin_safe p \<Longrightarrow> fst (leaf_handle E p c w) \<noteq> Inl Panic"
    and hook_safe: "I c \<Longrightarrow> snd (fst (any_on_response E p c w)) \<noteq> Some Panic"
begin

lemma pipeline_contract:
  "E' = E \<Longrightarrow> I c \<Longrightarrow> (plugin_safe p \<longrightarrow> fst (any_handle E' p c w) \<noteq> Inl Panic)
     \<and> (\<forall>c' w'. any_handle E' p c w = (Inr c', w') \<longrightarrow> I c')"
  "E' = E \<Longrightarrow> I c \<Longrightarrow> ((\<forall>(conds, p) \<in> set steps. plugin_safe p) \<longrightarrow> fst (run_steps E' registry steps c w) \<noteq> Inl Panic)
     \<and> (\<forall>c' w'. run_steps E' registry steps c w = (Inr c', w') \<longrightarrow> I c')"
proof (induction E' p c w and E' registry steps c w rule: any_handle_run_steps.induct)
  case (2 E' primary secondary sb threshold c w)
  obtain r1 w1 where r1: "any_handle E' primary c w = (r1, w1)" by fastforce
  obtain r2 w2 where r2: "any_handle E' secondary c w1 = (r2, w2)" by fastforce
  note ih1 = "2.IH"(1) [OF "2.prems", unfolded r1 fst_conv]
  note ih2 = "2.IH"(2) [OF r1 [symmetric] refl "2.prems", unfolded r2 fst_conv]
  let ?fin = "fb_conclude (fb_end sb (env_turns E' (w_clock w)) r1 r2) c"
  have fst: "fst (any_handle E' (PFallback primary secondary sb threshold) c w) = ?fin" by (simp add: r1 r2 Let_def)
  have "I c'" if "?fin = Inr c'" for c'
    using fb_conclude_cases(1) [OF that] ih1 ih2 merge_keeps "2.prems"(2) by blast
  moreover have "?fin \<noteq> Inl Panic" if "plugin_safe (PFallback primary secondary sb threshold)"
    using that ih1 ih2 fb_conclude_cases(2) [of r1 r2] by (cases sb) simp_all
  ultimately show ?case using fst by (metis fst_conv)
next
  case (5 E' registry conds p steps c w)
  obtain m w1 where m: "check_match registry conds c w = (m, w1)" by fastforce
  show ?case
  proof (cases m)
    case False
    with 5 m show ?thesis by simp
  next
    case True
    obtain r w2 where r: "any_handle E' p c w1 = (r, w2)" by fastforce
    with 5 m True show ?thesis by (cases r) auto
  qed
qed (use leaf_keeps leaf_safe in auto)

lemmas pipeline_keeps = pipeline_contract(1) [OF refl, THEN conjunct2, rule_format]
lemmas pipeline_safe = pipeline_contract(1) [OF refl, THEN conjunct1, rule_format]

end

text \<open>What the server needs of a context: the query is the one that came in, the
  cells cache reads of it, and whatever reply is there answers it.\<close>

definition ctx_inv :: "pctx \<Rightarrow> pctx \<Rightarrow> bool" where
  "ctx_inv c0 c \<longleftrightarrow> cells_ok c \<and> query_ident c = query_ident c0 \<and> (reply_ok c0 \<longrightarrow> reply_ok c)"

lemma ctx_inv_step:
  "query_ident c' = query_ident c \<and> (reply_ok c \<longrightarrow> reply_ok c') \<Longrightarrow> ctx_inv c0 c \<Longrightarrow> ctx_inv c0 c'"
  by (auto simp: ctx_inv_def query_ident_cells [of c' c])

lemma apply_ctx_ident: "query_ident (apply_ctx from_ctx c) = query_ident c"
  by (simp add: apply_ctx_def query_ident_def)

interpretation pc: plugin_contract E "ctx_inv c0" for E c0
proof unfold_locales
  fix p w c' w' and c :: pctx
  show "leaf_handle E p c w = (Inr c', w') \<Longrightarrow> ctx_inv c0 c \<Longrightarrow> ctx_inv c0 c'"
    by (rule ctx_inv_step [OF leaf_handle_keeps])
next
  fix p w c' e w' and c :: pctx
  show "any_on_response E p c w = ((c', e), w') \<Longrightarrow> ctx_inv c0 c \<Longrightarrow> ctx_inv c0 c'"
    by (rule ctx_inv_step [OF any_on_response_keeps])
next
  fix from_ctx c :: pctx
  assume f: "ctx_inv c0 from_ctx" and c: "ctx_inv c0 c"
  then have "m_id (request from_ctx) = m_id (request c)"
    using query_ident_id [of from_ctx c] by (simp add: ctx_inv_def)
  with f have "reply_ok c0 \<longrightarrow> reply_ok (apply_ctx from_ctx c)"
    using apply_ctx_reply_ok [of from_ctx c] by (simp add: ctx_inv_def)
  with c show "ctx_inv c0 (apply_ctx from_ctx c)"
    using apply_ctx_ident [of from_ctx c] query_ident_cells [OF apply_ctx_ident [of from_ctx c]] by (simp add: ctx_inv_def)
qed (simp_all add: ctx_inv_def leaf_handle_no_panic any_on_response_no_panic)

text \<open>C6: Every pipeline keeps contexts well-formed: whatever plugins it is made of, a context whose
  cells were computed from its query, and whose reply, if any, is one to it, is still such a context
  afterwards, and the query is the same.\<close>

theorem pipeline_preserves:
  assumes "cells_ok c" and "reply_ok c" and "any_handle E p c w = (Inr c', w')"
  shows "cells_ok c' \<and> query_ident c' = query_ident c \<and> reply_ok c'"
proof -
  have "ctx_inv c c" using assms(1) by (simp add: ctx_inv_def)
  from pc.pipeline_keeps [OF this assms(3)] assms(2) show ?thesis by (simp add: ctx_inv_def)
qed

section \<open>Sequences\<close>

text \<open>C5: A sequence of steps is the composition of its parts: what comes after an
  error, or after a step that aborts the context, is not run, and everything
  else is run on the context and the world the first part left.\<close>

theorem sequence_append:
  assumes "\<not> ctx_abort c"
  shows "run_steps E registry (xs @ ys) c w =
     (case run_steps E registry xs c w of
        (Inl e, w') \<Rightarrow> (Inl e, w')
      | (Inr c', w') \<Rightarrow> if ctx_abort c' then (Inr c', w') else run_steps E registry ys c' w')"
  using assms
proof (induction xs arbitrary: c w)
  case (Cons x xs)
  obtain conds p where x: "x = (conds, p)" by fastforce
  obtain m w1 where m: "check_match registry conds c w = (m, w1)" by fastforce
  obtain r w2 where r: "any_handle E p c w1 = (r, w2)" by fastforce
  from Cons x m r show ?case by (cases m; cases r) auto
qed simp

text \<open>A step whose conditions fail is skipped; conditions are a conjunction, tested from
  the left up to the first that fails.\<close>

lemma check_match_append:
  "check_match registry (xs @ ys) c w =
     (let (m, w) = check_match registry xs c w in if m then check_match registry ys c w else (False, w))"
  by (induction xs arbitrary: w) (auto simp: split_beta Let_def)

lemma cond_match_by_tag: "cond_match registry (ByTag t b) c w = (has_tag t c \<noteq> b, w)"
  by (simp add: cond_match_def)

section \<open>A concrete environment\<close>

definition sample_ali_response :: ali_response where
  "sample_ali_response = \<lparr>ar_status = 0, ar_tc = False, ar_rd = True, ar_ra = True, ar_ad = False, ar_cd = False,
     ar_answer = []\<rparr>"

definition sample_env :: penv where
  "sample_env = \<lparr>env_lib = sample_lib,
     env_ipnet = \<lparr>parse_net = (\<lambda>s. None), host_net = (\<lambda>ip. None), net_contains = (\<lambda>n ip. fst n = ip)\<rparr>,
     env_ipmatchers = (\<lambda>i. ([], None)), env_stats_lock = (\<lambda>t. True),
     env_timestamp = (\<lambda>t. ''12:00:00''), env_log_time = (\<lambda>t. ''2025-01-01 12:00:00''),
     env_unix = (\<lambda>t. 1000), env_kernel = (\<lambda>t. (1000, True)),
     env_ip_str = (\<lambda>ip. ''10.0.0.1''), env_qtype_str = (\<lambda>t. ''A''), env_rcode_str = (\<lambda>r. ''NOERROR''),
     env_network = sample_net None, env_edns_sane = id,
     env_probes = \<lparr>pe_connect = (\<lambda>t ip port. (True, from_millis 5)), pe_ends = (\<lambda>t cs. cs)\<rparr>,
     env_ali = \<lparr>ae_lib = sample_lib, ae_http = (\<lambda>t url. (Ali_Body (Some sample_ali_response), from_millis 30)),
       ae_timestamp = (\<lambda>t. 1000), ae_sha256 = (\<lambda>bs. bs), ae_utf8 = (\<lambda>s. map of_char s), ae_name_from_str = Some,
       ae_ip_str = (\<lambda>ip. ''10.0.0.1'')\<rparr>,
     env_log_fmt = (\<lambda>t. \<lparr>lf_now = ''2025-01-01 12:00:00.000'', lf_addr = (\<lambda>a. ''10.0.0.1:53''), lf_type = (\<lambda>t. ''A''),
       lf_rcode = (\<lambda>r. ''NoError''), lf_rdata = (\<lambda>d. ''A(10.0.0.1)''), lf_count = (\<lambda>m. word_of_nat (length (m_answers m)))\<rparr>),
     env_turns = (\<lambda>t. []), env_raced = (\<lambda>w w1 w2. w2)\<rparr>"

definition sample_a_query :: pctx where
  "sample_a_query = ctx_new (sample_msg\<lparr>m_queries := [\<lparr>q_name = ''a.'', q_type = 1, q_class = 1\<rparr>]\<rparr>) (V4 1, 53) 0"

theorem pipeline_preserves_witness:
  "\<forall>w. \<exists>c'. any_handle sample_env (PSequence [([ByQtype [1]], PReject RjNxDomain)] Map.empty) sample_a_query w = (Inr c', w)
     \<and> cells_ok c' \<and> query_ident c' = query_ident sample_a_query \<and> reply_ok c'"
proof
  fix w
  obtain c' where h: "any_handle sample_env (PSequence [([ByQtype [1]], PReject RjNxDomain)] Map.empty) sample_a_query w = (Inr c', w)"
    by (simp add: sample_a_query_def ctx_new_def cond_match_def leaf_handle_def)
  have "cells_ok sample_a_query" "reply_ok sample_a_query" by (simp_all add: sample_a_query_def cells_ok_def ctx_new_def reply_ok_def)
  from pipeline_preserves [OF this h] h show "\<exists>c'. any_handle sample_env (PSequence [([ByQtype [1]], PReject RjNxDomain)] Map.empty) sample_a_query w = (Inr c', w)
     \<and> cells_ok c' \<and> query_ident c' = query_ident sample_a_query \<and> reply_ok c'" by blast
qed

theorem sequence_append_witness:
  "\<forall>w. run_steps sample_env Map.empty
           [([ByQtype [28]], PReject RjRefused), ([ByQtype [1]], PReject RjNxDomain), ([], PReject RjServFail)]
           sample_a_query w
       = (Inr (reject_handle sample_lib RjNxDomain sample_a_query), w)"
proof
  fix w :: "world"
  have "\<not> ctx_abort sample_a_query" by (simp add: sample_a_query_def ctx_new_def)
  from sequence_append [OF this, of sample_env Map.empty
      "[([ByQtype [28]], PReject RjRefused), ([ByQtype [1]], PReject RjNxDomain)]" "[([], PReject RjServFail)]" w]
  show "run_steps sample_env Map.empty
           [([ByQtype [28]], PReject RjRefused), ([ByQtype [1]], PReject RjNxDomain), ([], PReject RjServFail)]
           sample_a_query w
       = (Inr (reject_handle sample_lib RjNxDomain sample_a_query), w)"
    by (simp add: sample_a_query_def ctx_new_def cond_match_def leaf_handle_def sample_env_def reject_handle_def
        Let_def)
qed

end
