(* ===== verification/Server.thy ===== *)
theory Server
  imports Pipeline
begin

text \<open>
  \<open>src/server.rs\<close> and \<open>src/core/hot_reload.rs\<close>: from the bytes of a packet, through
  the entry point of the current configuration and the hooks, to the bytes of
  the reply; and the framings of TCP, DoT, DoQ and DoH around it.

  \<open>Inl Panic\<close> is a panic of the worker; an error of a plugin gives no reply.
  Sockets, TLS and QUIC are the runtime's; a stream is the list of the bytes
  that arrive before it ends or a read times out.
\<close>

section \<open>Hot reload\<close>

record versioned_registry =
  entry_points :: "string \<Rightarrow> any_plugin option"
  reg_version :: u64

record hot_reload = hr_registry :: versioned_registry

definition hr_new :: "(string \<Rightarrow> any_plugin option) \<Rightarrow> hot_reload" where
  "hr_new entries = \<lparr>hr_registry = \<lparr>entry_points = entries, reg_version = 0\<rparr>\<rparr>"

definition hr_update :: "(string \<Rightarrow> any_plugin option) \<Rightarrow> u64 \<Rightarrow> hot_reload \<Rightarrow> hot_reload" where
  "hr_update entries v h = h\<lparr>hr_registry := \<lparr>entry_points = entries, reg_version = v\<rparr>\<rparr>"

definition hr_get_entry :: "string \<Rightarrow> hot_reload \<Rightarrow> any_plugin option" where
  "hr_get_entry name h = entry_points (hr_registry h) name"

definition hr_version :: "hot_reload \<Rightarrow> u64" where
  "hr_version h = reg_version (hr_registry h)"

section \<open>One request\<close>

text \<open>The hooks run over the clone of the list; the error of one is logged and what
  it did to the context stays.\<close>

fun run_hooks :: "penv \<Rightarrow> any_plugin list \<Rightarrow> pctx \<Rightarrow> world \<Rightarrow> pctx result \<times> world" where
  "run_hooks E [] c w = (Inr c, w)"
| "run_hooks E (hook # hooks) c w =
     (case any_on_response E hook c w of
        ((c, Some Panic), w) \<Rightarrow> (Inl Panic, w)
      | ((c, _), w) \<Rightarrow> run_hooks E hooks c w)"

definition query_strings :: "penv \<Rightarrow> pctx \<Rightarrow> string \<times> string" where
  "query_strings E c =
     (case msg_query (request c) of
        Some q \<Rightarrow> (q_name q, env_qtype_str E (q_type q))
      | None \<Rightarrow> ('''', ''UNKNOWN''))"

definition record_request ::
  "penv \<Rightarrow> nat \<Rightarrow> string \<Rightarrow> string \<Rightarrow> string \<Rightarrow> pctx \<Rightarrow> world \<Rightarrow> world" where
  "record_request E start domain qt client_ip c w =
     (let latency_us = word_of_nat ((w_clock w - start) div 1000) :: u64;
          s = record_query (env_stats_lock E (w_clock w)) domain client_ip latency_us (w_stats w);
          rcode = get_rcode_as_string (env_rcode_str E) c;
          s = record_details qt rcode s;
          entry = \<lparr>ql_timestamp = env_log_time E (w_clock w), ql_client_ip = client_ip, ql_domain = domain,
                   ql_qtype = qt, ql_strategy = ''Default'', ql_upstream = None,
                   ql_latency_ms = latency_us div 1000, ql_rcode = rcode\<rparr>
      in w\<lparr>w_stats := s, w_log := log_request entry (w_log w)\<rparr>)"

definition process_request ::
  "penv \<Rightarrow> hot_reload \<Rightarrow> string \<Rightarrow> bytes \<Rightarrow> sock_addr \<Rightarrow> world \<Rightarrow> bytes option result \<times> world" where
  "process_request E h entry_name data src w =
     (let start = w_clock w in
      case ctx_from_bytes (env_lib E) data src start of
        Inl Panic \<Rightarrow> (Inl Panic, w)
      | Inl (Error _) \<Rightarrow> (Inr None, w)
      | Inr c \<Rightarrow>
          let c = precompute c;
              (domain, qt) = query_strings E c;
              client_ip = env_ip_str E (fst src)
          in case hr_get_entry entry_name h of
               None \<Rightarrow> (Inr None, w)
             | Some entry \<Rightarrow>
                 (case any_handle E entry c w of
                    (Inl Panic, w) \<Rightarrow> (Inl Panic, w)
                  | (Inl (Error _), w) \<Rightarrow> (Inr None, w)
                  | (Inr c, w) \<Rightarrow>
                      (case (if has_response c then run_hooks E (post_process_hooks c) c w else (Inr c, w)) of
                         (Inl e, w) \<Rightarrow> (Inl e, w)
                       | (Inr c, w) \<Rightarrow>
                           (let w = record_request E start domain qt client_ip c w
                            in (case response_bytes (env_lib E) c of
                                  Some resp_bytes \<Rightarrow> (Inr (Some resp_bytes), w)
                                | None \<Rightarrow> (Inr None, w))))))"

text \<open>The copy of it that the workers of the batched UDP server call.\<close>

definition process_request_bytes ::
  "penv \<Rightarrow> hot_reload \<Rightarrow> string \<Rightarrow> bytes \<Rightarrow> sock_addr \<Rightarrow> world \<Rightarrow> bytes option result \<times> world" where
  "process_request_bytes E h entry_name data src w =
     (let start = w_clock w in
      case ctx_from_bytes (env_lib E) data src start of
        Inl Panic \<Rightarrow> (Inl Panic, w)
      | Inl (Error _) \<Rightarrow> (Inr None, w)
      | Inr c \<Rightarrow>
          let c = precompute c;
              (domain, qt) = query_strings E c;
              client_ip = env_ip_str E (fst src)
          in case hr_get_entry entry_name h of
               Some entry \<Rightarrow>
                 (case any_handle E entry c w of
                    (Inl Panic, w) \<Rightarrow> (Inl Panic, w)
                  | (Inl (Error _), w) \<Rightarrow> (Inr None, w)
                  | (Inr c, w) \<Rightarrow>
                      (case (if has_response c then run_hooks E (post_process_hooks c) c w else (Inr c, w)) of
                         (Inl e, w) \<Rightarrow> (Inl e, w)
                       | (Inr c, w) \<Rightarrow>
                           (let w = record_request E start domain qt client_ip c w
                            in (Inr (response_bytes (env_lib E) c), w))))
             | None \<Rightarrow> (Inr None, w))"

lemma process_request_bytes_eq:
  "process_request_bytes E h entry_name data src w = process_request E h entry_name data src w"
proof -
  have e: "(case x of Some b \<Rightarrow> (Inr (Some b), w') | None \<Rightarrow> (Inr None, w')) = (Inr x, w')"
    for x and w' :: "world"
    by (cases x) auto
  show ?thesis unfolding process_request_bytes_def process_request_def Let_def e ..
qed

text \<open>A worker of the UDP server sends the reply to where the packet came from.\<close>

definition handle_packet ::
  "penv \<Rightarrow> hot_reload \<Rightarrow> string \<Rightarrow> bytes \<Rightarrow> sock_addr \<Rightarrow> world
     \<Rightarrow> (bytes \<times> sock_addr) option result \<times> world" where
  "handle_packet E h entry_name data src w =
     (case process_request E h entry_name data src w of
        (Inl e, w) \<Rightarrow> (Inl e, w)
      | (Inr None, w) \<Rightarrow> (Inr None, w)
      | (Inr (Some resp_bytes), w) \<Rightarrow> (Inr (Some (resp_bytes, src)), w))"

text \<open>The main loop checks the size of a packet and queues it; \<open>queued\<close> says whether the
  queue has room.\<close>

definition udp_packet ::
  "bool \<Rightarrow> penv \<Rightarrow> hot_reload \<Rightarrow> string \<Rightarrow> bytes \<Rightarrow> sock_addr \<Rightarrow> world
     \<Rightarrow> (bytes \<times> sock_addr) option result \<times> world" where
  "udp_packet queued E h entry_name data src w =
     (if 4096 < length data \<or> length data < 12 then (Inr None, w)
      else if queued then handle_packet E h entry_name data src w
      else (Inr None, w))"

section \<open>Framing\<close>

definition frame_len :: "bytes \<Rightarrow> nat" where
  "frame_len len_buf = unat (from_be len_buf :: u16)"

definition frame_out :: "bytes \<Rightarrow> bytes" where
  "frame_out resp_bytes = be_bytes 2 (word_of_nat (length resp_bytes) :: u16) @ resp_bytes"

text \<open>A TCP connection serves one request.  The result is the bytes written.\<close>

definition tcp_connection ::
  "penv \<Rightarrow> hot_reload \<Rightarrow> string \<Rightarrow> bytes \<Rightarrow> sock_addr \<Rightarrow> world \<Rightarrow> bytes result \<times> world" where
  "tcp_connection E h entry_name stream src w =
     (case read_exact 2 stream of
        None \<Rightarrow> (Inr [], w)
      | Some (len_buf, stream) \<Rightarrow>
          (case read_exact (frame_len len_buf) stream of
             None \<Rightarrow> (Inr [], w)
           | Some (buf, _) \<Rightarrow>
               (case process_request E h entry_name buf src w of
                  (Inr (Some resp_bytes), w) \<Rightarrow> (Inr (frame_out resp_bytes), w)
                | (Inr None, w) \<Rightarrow> (Inr [], w)
                | (Inl e, w) \<Rightarrow> (Inl e, w))))"

text \<open>A DoQ stream carries one request, too.\<close>

definition doq_stream ::
  "penv \<Rightarrow> hot_reload \<Rightarrow> string \<Rightarrow> bytes \<Rightarrow> sock_addr \<Rightarrow> world \<Rightarrow> bytes result \<times> world" where
  "doq_stream E h entry_name stream src w =
     (case read_exact 2 stream of
        None \<Rightarrow> (Inr [], w)
      | Some (len_buf, stream) \<Rightarrow>
          (case read_exact (frame_len len_buf) stream of
             None \<Rightarrow> (Inr [], w)
           | Some (buf, _) \<Rightarrow>
               (case process_request E h entry_name buf src w of
                  (Inr (Some resp_bytes), w) \<Rightarrow> (Inr (frame_out resp_bytes), w)
                | (Inr None, w) \<Rightarrow> (Inr [], w)
                | (Inl e, w) \<Rightarrow> (Inl e, w))))"

lemma doq_stream_eq: "doq_stream E h n stream src w = tcp_connection E h n stream src w"
  by (simp add: doq_stream_def tcp_connection_def)

text \<open>A DoT connection serves requests until a read fails.  The configuration can
  change between two requests: \<open>hs i\<close> is the one of request \<open>i\<close>.\<close>

function dot_connection ::
  "penv \<Rightarrow> (nat \<Rightarrow> hot_reload) \<Rightarrow> string \<Rightarrow> nat \<Rightarrow> bytes \<Rightarrow> sock_addr \<Rightarrow> world
     \<Rightarrow> bytes result \<times> world" where
  "dot_connection E hs entry_name i stream src w =
     (case read_exact 2 stream of
        None \<Rightarrow> (Inr [], w)
      | Some (len_buf, stream') \<Rightarrow>
          (case read_exact (frame_len len_buf) stream' of
             None \<Rightarrow> (Inr [], w)
           | Some (buf, stream'') \<Rightarrow>
               (case process_request E (hs i) entry_name buf src w of
                  (Inl e, w) \<Rightarrow> (Inl e, w)
                | (Inr resp, w) \<Rightarrow>
                    (case dot_connection E hs entry_name (i + 1) stream'' src w of
                       (Inl e, w) \<Rightarrow> (Inl e, w)
                     | (Inr out, w) \<Rightarrow>
                         (Inr ((case resp of Some resp_bytes \<Rightarrow> frame_out resp_bytes | None \<Rightarrow> []) @ out), w)))))"
  by pat_completeness auto
termination
  by (relation "measure (\<lambda>(E, hs, entry_name, i, stream, src, w). length stream)")
     (auto simp: read_exact_def split: if_splits)

declare dot_connection.simps [simp del]

text \<open>DNS over HTTPS: the query is a parameter in base64, which the crate decodes, or
  the body.\<close>

datatype http_reply = Http_Status nat | Http_Ok bytes

definition handle_doh_bytes ::
  "penv \<Rightarrow> hot_reload \<Rightarrow> string \<Rightarrow> sock_addr \<Rightarrow> bytes \<Rightarrow> world \<Rightarrow> bytes result \<times> world" where
  "handle_doh_bytes E h entry_name addr data w =
     (case process_request E h entry_name data addr w of
        (Inl e, w) \<Rightarrow> (Inl e, w)
      | (Inr (Some resp), w) \<Rightarrow> (Inr resp, w)
      | (Inr None, w) \<Rightarrow> (Inl (Error ''No response generated''), w))"

definition doh_reply :: "bytes result \<Rightarrow> http_reply result" where
  "doh_reply r = (case r of Inr resp_bytes \<Rightarrow> Inr (Http_Ok resp_bytes)
     | Inl Panic \<Rightarrow> Inl Panic | Inl (Error _) \<Rightarrow> Inr (Http_Status 502))"

definition doh_get ::
  "(string \<Rightarrow> bytes option) \<Rightarrow> penv \<Rightarrow> hot_reload \<Rightarrow> string \<Rightarrow> sock_addr \<Rightarrow> (string \<Rightarrow> string option)
     \<Rightarrow> world \<Rightarrow> http_reply result \<times> world" where
  "doh_get decode E h entry_name addr params w =
     (case params ''dns'' of
        None \<Rightarrow> (Inr (Http_Status 400), w)
      | Some dns_param \<Rightarrow>
          (case decode dns_param of
             None \<Rightarrow> (Inr (Http_Status 400), w)
           | Some decoded \<Rightarrow>
               if decoded = [] \<or> 65535 < length decoded then (Inr (Http_Status 400), w)
               else apfst doh_reply (handle_doh_bytes E h entry_name addr decoded w)))"

definition doh_post ::
  "penv \<Rightarrow> hot_reload \<Rightarrow> string \<Rightarrow> sock_addr \<Rightarrow> string option \<Rightarrow> bytes \<Rightarrow> world
     \<Rightarrow> http_reply result \<times> world" where
  "doh_post E h entry_name addr content_type body w =
     (if \<not> starts_with (case content_type of Some v \<Rightarrow> v | None \<Rightarrow> '''') ''application/dns-message''
      then (Inr (Http_Status 415), w)
      else if body = [] \<or> 65535 < length body then (Inr (Http_Status 400), w)
      else apfst doh_reply (handle_doh_bytes E h entry_name addr body w))"

section \<open>What a request can do\<close>

text \<open>The ID of a message is in its first two octets (RFC 1035, 4.1.1).\<close>

definition parse_header :: "dns_lib \<Rightarrow> bool" where
  "parse_header L \<longleftrightarrow> (\<forall>data m. lib_from_vec L data = Some m \<longrightarrow> m_id m = from_be (take 2 data))"

lemma ctx_from_bytes_ok:
  assumes "ctx_from_bytes L data src t = Inr c"
  shows "12 \<le> length data" "\<exists>req. lib_from_vec L data = Some req \<and> request c = req"
    "cells_ok c" "reply_ok c"
  using assms
  by (auto simp: ctx_from_bytes_def zc_from_bytes_def andthen_eq_Inr ctx_new_def cells_ok_def reply_ok_def
      split: option.splits if_splits)

lemma ctx_from_bytes_no_panic: "ctx_from_bytes L data src t \<noteq> Inl Panic"
  by (auto simp: ctx_from_bytes_def zc_from_bytes_def split: option.split)

lemma precompute_reply_ok [simp]: "reply_ok (precompute c) = reply_ok c"
  by (simp add: reply_ok_def precompute_def)

context plugin_contract
begin

lemma hooks_contract:
  "E' = E \<Longrightarrow> I c \<Longrightarrow> \<exists>c' w'. run_hooks E' hooks c w = (Inr c', w') \<and> I c'"
proof (induction E' hooks c w rule: run_hooks.induct)
  case (2 E' hook hooks c w)
  obtain c1 e w1 where r: "any_on_response E' hook c w = ((c1, e), w1)" by (metis prod.exhaust)
  from r 2 hook_keeps hook_safe [of c hook w] have "I c1" "e \<noteq> Some Panic" by auto
  with r 2 show ?case by (auto split: option.split rust_error.split)
qed simp

end

lemmas hooks_total = pc.hooks_contract [OF refl]

text \<open>A reply that was made from a context that keeps the contract.\<close>

definition contract_reply :: "dns_lib \<Rightarrow> bytes \<Rightarrow> bytes option \<Rightarrow> bool" where
  "contract_reply L data r \<longleftrightarrow> (\<forall>bs. r = Some bs \<longrightarrow> 12 \<le> length data
     \<and> (\<exists>(c :: pctx) req. reply_ok c \<and> response_bytes L c = Some bs
          \<and> lib_from_vec L data = Some req \<and> m_id (request c) = m_id req))"

lemma contract_reply_None [simp]: "contract_reply L data None"
  by (simp add: contract_reply_def)

text \<open>The entry point of a configuration, if there is one, cannot panic.\<close>

definition entry_safe :: "hot_reload \<Rightarrow> string \<Rightarrow> bool" where
  "entry_safe h n = pred_option plugin_safe (hr_get_entry n h)"

lemma process_request_contract:
  "(entry_safe h n \<longrightarrow> fst (process_request E h n data src w) \<noteq> Inl Panic)
     \<and> (\<forall>e. fst (process_request E h n data src w) = Inl e \<longrightarrow> e = Panic)
     \<and> (\<forall>r. fst (process_request E h n data src w) = Inr r \<longrightarrow> contract_reply (env_lib E) data r)"
proof (cases "ctx_from_bytes (env_lib E) data src (w_clock w) :: pctx result")
  case (Inl e)
  with ctx_from_bytes_no_panic [of "env_lib E" data src "w_clock w"] show ?thesis
    by (cases e) (auto simp: process_request_def Let_def)
next
  case new: (Inr c)
  note c = ctx_from_bytes_ok [OF new]
  let ?c = "precompute c"
  have i: "ctx_inv ?c ?c" using c(3) by (simp add: ctx_inv_def precompute_ok)
  obtain domain qt where d: "query_strings E ?c = (domain, qt)" by fastforce
  show ?thesis
  proof (cases "hr_get_entry n h")
    case None
    with new show ?thesis by (simp add: process_request_def Let_def d)
  next
    case (Some entry)
    obtain r w1 where r: "any_handle E entry ?c w = (r, w1)" by fastforce
    with pc.pipeline_safe [OF i, of entry E w] Some have np: "entry_safe h n \<Longrightarrow> r \<noteq> Inl Panic"
      by (auto simp: entry_safe_def)
    show ?thesis
    proof (cases r)
      case (Inl e)
      with np Some r new show ?thesis by (cases e) (auto simp: process_request_def Let_def d)
    next
      case (Inr c1)
      with r have i1: "ctx_inv ?c c1" by (intro pc.pipeline_keeps [OF i]) simp
      have "\<exists>c2 w2. (if has_response c1 then run_hooks E (post_process_hooks c1) c1 w1 else (Inr c1, w1))
          = (Inr c2, w2) \<and> ctx_inv ?c c2"
        using hooks_total [OF i1] i1 by auto
      then obtain c2 w2 where c2: "(if has_response c1 then run_hooks E (post_process_hooks c1) c1 w1
          else (Inr c1, w1)) = (Inr c2, w2)" "ctx_inv ?c c2" by blast
      have "contract_reply (env_lib E) data (response_bytes (env_lib E) c2)"
        using c2(2) c query_ident_id [of c2 ?c] unfolding contract_reply_def ctx_inv_def by auto
      with Some r Inr new c2(1) show ?thesis
        by (cases "response_bytes (env_lib E) c2") (simp_all add: process_request_def Let_def d)
    qed
  qed
qed

lemma process_request_safe:
  assumes "entry_safe h n"
  obtains r w' where "process_request E h n data src w = (Inr r, w')"
  using process_request_contract [of h n E data src w] assms
  by (cases "process_request E h n data src w"; cases "fst (process_request E h n data src w)") auto

lemma contract_reply_id:
  assumes "serial_header L" "parse_header L" "contract_reply L data (Some bs)"
  shows "take 2 bs = take 2 data \<and> 12 \<le> length bs"
proof -
  from assms(3) obtain c :: pctx and req where c: "reply_ok c" "response_bytes L c = Some bs"
      "lib_from_vec L data = Some req" "m_id (request c) = m_id req" "12 \<le> length data"
    unfolding contract_reply_def by blast
  have "be_bytes 2 (from_be (take 2 data) :: u16) = take 2 data"
    using c(5) by (intro be_bytes_from_be) simp_all
  with response_bytes_id [OF c(1) assms(1) c(2)] c(3,4) assms(2) show ?thesis
    by (simp add: parse_header_def)
qed

text \<open>C1: Every reply of the server carries the ID of the query packet: whatever the
  configured plugins, their upstreams and their state, and whatever reload happens, the first two bytes of a
  reply are the first two bytes of the query, and the reply has a full header.\<close>

theorem reply_carries_query_id:
  assumes "serial_header (env_lib E)" "parse_header (env_lib E)"
    and "process_request E h entry_name data src w = (Inr (Some bs), w')"
  shows "take 2 bs = take 2 data \<and> 12 \<le> length bs"
proof -
  from process_request_contract [of h entry_name E data src w] assms(3)
  have "contract_reply (env_lib E) data (Some bs)" by auto
  with assms(1,2) show ?thesis by (rule contract_reply_id)
qed


section \<open>What goes over a stream\<close>

text \<open>The other end of a stream reads frame after frame.\<close>

function read_frames :: "bytes \<Rightarrow> bytes list" where
  "read_frames stream =
     (case read_exact 2 stream of
        None \<Rightarrow> []
      | Some (len_buf, stream') \<Rightarrow>
          (case read_exact (frame_len len_buf) stream' of
             None \<Rightarrow> []
           | Some (buf, stream'') \<Rightarrow> buf # read_frames stream''))"
  by pat_completeness auto
termination
  by (relation "measure length") (auto simp: read_exact_def split: if_splits)

declare read_frames.simps [simp del]

lemma frame_len_out: "length bs < 65536 \<Longrightarrow> frame_len (be_bytes 2 (word_of_nat (length bs) :: u16)) = length bs"
  by (simp add: frame_len_def unat_of_nat)

lemma read_frame_out:
  assumes "length bs < 65536"
  shows "read_exact 2 (frame_out bs @ rest) = Some (be_bytes 2 (word_of_nat (length bs) :: u16), bs @ rest)"
    "read_exact (frame_len (be_bytes 2 (word_of_nat (length bs) :: u16))) (bs @ rest) = Some (bs, rest)"
  by (simp_all add: frame_out_def frame_len_out [OF assms] del: be_bytes_2)

lemma read_frames_out:
  "length bs < 65536 \<Longrightarrow> read_frames (frame_out bs @ rest) = bs # read_frames rest"
  by (subst read_frames.simps) (simp add: read_frame_out)

lemma read_frames_Nil [simp]: "read_frames [] = []"
  by (subst read_frames.simps) (simp add: read_exact_def)

text \<open>The requests of a connection, one after the other.\<close>

fun serve_all ::
  "penv \<Rightarrow> (nat \<Rightarrow> hot_reload) \<Rightarrow> string \<Rightarrow> nat \<Rightarrow> bytes list \<Rightarrow> sock_addr \<Rightarrow> world
     \<Rightarrow> bytes option list \<times> world" where
  "serve_all E hs n i [] src w = ([], w)"
| "serve_all E hs n i (d # ds) src w =
     (case process_request E (hs i) n d src w of
        (Inl e, w) \<Rightarrow> ([], w)
      | (Inr r, w) \<Rightarrow> apfst (\<lambda>rs. r # rs) (serve_all E hs n (i + 1) ds src w))"

definition some_frames :: "bytes option list \<Rightarrow> bytes list" where
  "some_frames rs = map the (filter (\<lambda>r. r \<noteq> None) rs)"

lemma dot_serves:
  assumes "\<And>i. entry_safe (hs i) n" and "\<forall>d \<in> set ds. length d < 65536"
  shows "dot_connection E hs n i (concat (map frame_out ds)) src w =
     (let (rs, w') = serve_all E hs n i ds src w in (Inr (concat (map frame_out (some_frames rs))), w'))"
  using assms(2)
proof (induction ds arbitrary: i w)
  case Nil
  show ?case by (subst dot_connection.simps) (simp add: read_exact_def some_frames_def)
next
  case (Cons d ds)
  obtain r w1 where r: "process_request E (hs i) n d src w = (Inr r, w1)"
    by (rule process_request_safe [OF assms(1)])
  obtain rs w2 where s: "serve_all E hs n (i + 1) ds src w1 = (rs, w2)" by fastforce
  from Cons r s show ?case
    by (subst dot_connection.simps)
       (cases r; simp add: read_frame_out some_frames_def)
qed

lemma serve_all_length:
  assumes "\<And>i. entry_safe (hs i) n"
  shows "length (fst (serve_all E hs n i ds src w)) = length ds"
proof (induction ds arbitrary: i w)
  case (Cons d ds)
  obtain r w1 where "process_request E (hs i) n d src w = (Inr r, w1)"
    by (rule process_request_safe [OF assms])
  with Cons show ?case by simp
qed simp

lemma read_some_frames:
  "(\<And>bs. Some bs \<in> set rs \<Longrightarrow> length bs < 65536) \<Longrightarrow>
     read_frames (concat (map frame_out (some_frames rs))) = some_frames rs"
proof (induction rs)
  case (Cons r rs)
  then show ?case by (cases r) (simp_all add: some_frames_def read_frames_out)
qed (simp add: some_frames_def)

text \<open>C29: A DoT connection pipelines: sent any number of framed queries, it answers
  all of them in order, one frame per reply, and the frames read back are
  exactly the replies of the requests, as long as none exceeds 65535 bytes.\<close>

theorem dot_pipelining:
  assumes "\<And>i. entry_safe (hs i) n" and "\<forall>d \<in> set ds. length d < 65536"
    and "\<forall>bs. Some bs \<in> set (fst (serve_all E hs n 0 ds src w)) \<longrightarrow> length bs < 65536"
  shows "\<exists>out w'. dot_connection E hs n 0 (concat (map frame_out ds)) src w = (Inr out, w')
     \<and> read_frames out = some_frames (fst (serve_all E hs n 0 ds src w))
     \<and> length (fst (serve_all E hs n 0 ds src w)) = length ds"
  using dot_serves [where hs = hs and n = n, OF assms(1,2), where E = E and i = 0 and src = src and w = w]
    serve_all_length [where hs = hs and n = n, OF assms(1), where E = E and i = 0 and ds = ds and src = src and w = w]
    read_some_frames [of "fst (serve_all E hs n 0 ds src w)"] assms(3)
  by (simp add: split_beta)

text \<open>A TCP connection answers the first query and closes.\<close>

lemma tcp_serves_one:
  assumes "entry_safe h n" and "length d < 65536"
  shows "\<exists>r w'. process_request E h n d src w = (Inr r, w')
     \<and> tcp_connection E h n (frame_out d @ rest) src w = (Inr (concat (map frame_out (some_frames [r]))), w')"
proof -
  obtain r w1 where "process_request E h n d src w = (Inr r, w1)"
    by (rule process_request_safe [OF assms(1)])
  with assms(2) show ?thesis
    by (cases r) (simp_all add: tcp_connection_def read_frame_out some_frames_def)
qed

text \<open>A DoH request is answered with a DNS message exactly when it carries a
  well-formed query of at most 65535 bytes that the pipeline answers: the
  decoded parameter of a GET, the body of a POST with the DNS media type.\<close>

theorem doh_answers:
  "(fst (doh_get decode E h n addr params w) = Inr (Http_Ok bs) \<longleftrightarrow>
      (\<exists>p q. params ''dns'' = Some p \<and> decode p = Some q \<and> 1 \<le> length q \<and> length q \<le> 65535
         \<and> fst (process_request E h n q addr w) = Inr (Some bs)))
   \<and> (fst (doh_post E h n addr ct body w) = Inr (Http_Ok bs) \<longleftrightarrow>
      (\<exists>v rest. ct = Some v \<and> v = ''application/dns-message'' @ rest) \<and> 1 \<le> length body \<and> length body \<le> 65535
         \<and> fst (process_request E h n body addr w) = Inr (Some bs))"
proof -
  have h: "doh_reply (fst (handle_doh_bytes E h n addr q w)) = Inr (Http_Ok bs)
      \<longleftrightarrow> fst (process_request E h n q addr w) = Inr (Some bs)" for q
    by (auto simp: handle_doh_bytes_def doh_reply_def split: prod.splits sum.splits option.splits rust_error.splits)
  have "starts_with v ''application/dns-message'' \<longleftrightarrow> (\<exists>rest. v = ''application/dns-message'' @ rest)" for v
    by (simp add: starts_with_prefix prefix_def)
  moreover have "\<not> starts_with '''' ''application/dns-message''" by (simp add: starts_with_def)
  ultimately show ?thesis
    by (cases ct) (auto simp: doh_get_def doh_post_def h Suc_le_eq split: option.split)
qed

section \<open>Witnesses\<close>

lemma sample_lib_parse_header: "parse_header sample_lib"
  by (simp add: parse_header_def sample_lib_def)

definition sample_query :: bytes where
  "sample_query = [0x12, 0x34, 1, 0, 0, 1, 0, 0, 0, 0, 0, 0]"

definition sample_smart_forward :: "ip_net smart_forward" where
  "sample_smart_forward = \<lparr>sm_local = Single sample_doh ''https://d/q'' (from_secs 1),
       sm_fakeip = Group (sample_forward ''order'') ''split:fake'', sm_fallback = None,
       sm_avoid_fakeip_on_domestic = True, sm_prefer_local_on_miss = False, sm_suffix_labels = [],
       sm_ip_matcher = None, sm_geoip = geoip_new None ''cn'' ''cn'' GeoClient, sm_cache_ttl = from_secs 3600,
       sm_learned = Map.empty, sm_domains = Map.empty, sm_channel = [], sm_ip_class = Map.empty,
       sm_persist = None, sm_persist_max = 10\<rparr>"

definition sample_resolver :: smart_resolve where
  "sample_resolver = \<lparr>sr_upstreams = [sample_doh], sr_probe_timeout_ms = 500, sr_probe_port = 443, sr_max_ips = 4,
     sr_latency = Map.empty\<rparr>"

definition sample_log_plugin :: log_plugin where
  "sample_log_plugin = \<lparr>lp_sink = Direct [], lp_queries = True, lp_responses = True\<rparr>"

definition sample_world :: "world" where
  "sample_world = \<lparr>w_limiters = (\<lambda>i. rl_new True 1 60), w_matchers = (\<lambda>i. matcher_new [] None),
     w_geosites = (\<lambda>i. gs_new ''cn''), w_geoips = (\<lambda>i. geoip_new None ''cn'' ''cn'' GeoClient),
     w_fakeips = (\<lambda>i. False), w_caches = (\<lambda>i. sample_cache), w_jobs = [], w_forwards = (\<lambda>i. sample_forward ''order''),
     w_autopilot = autopilot_new 0, w_net_jobs = [],
     w_smarts = (\<lambda>i. sample_smart_forward), w_resolvers = (\<lambda>i. sample_resolver), w_log_plugins = (\<lambda>i. sample_log_plugin),
     w_stats = stats_new, w_log = ql_default, w_clock = 5\<rparr>"

text \<open>A library that reads a question from every packet.\<close>

definition answering_env :: penv where
  "answering_env = sample_env\<lparr>env_lib := sample_lib\<lparr>lib_from_vec := (\<lambda>bs. Some (sample_question\<lparr>m_id := from_be (take 2 bs)\<rparr>))\<rparr>\<rparr>"

lemma answering_env_header: "serial_header (env_lib answering_env)" "parse_header (env_lib answering_env)"
  using sample_lib_header
  by (simp_all add: answering_env_def sample_env_def serial_header_def parse_header_def sample_lib_def)

definition sample_registry :: hot_reload where
  "sample_registry = hr_new [''main'' \<mapsto> PReject RjNxDomain]"

lemma sample_entry_safe: "entry_safe sample_registry ''main''"
  by (simp add: entry_safe_def sample_registry_def hr_new_def hr_get_entry_def)

lemma sample_process:
  "fst (process_request answering_env sample_registry ''main'' sample_query src w)
     = Inr (Some [0x12, 0x34, 0, 0, 0, 0, 0, 0, 0, 0, 0, 0])"
proof -
  have "from_be [0x12, 0x34] = (0x1234 :: u16)" "be_bytes 2 (0x1234 :: u16) = [0x12, 0x34]"
    by code_simp+
  then show ?thesis
    by (simp add: process_request_def ctx_from_bytes_def zc_from_bytes_def sample_query_def answering_env_def sample_env_def
      answering_env_def sample_env_def sample_lib_def sample_registry_def hr_new_def hr_get_entry_def leaf_handle_def Let_def
      query_strings_def msg_query_def precompute_def ctx_new_def set_response_def has_response_def
      response_bytes_def reject_handle_def reject_answer_def sample_question_def sample_msg_def numeral_eq_Suc)
qed

theorem reply_carries_query_id_witness:
  "\<exists>bs w'. process_request answering_env sample_registry ''main'' sample_query (V4 1, 53) sample_world = (Inr (Some bs), w')
     \<and> take 2 bs = [0x12, 0x34] \<and> 12 \<le> length bs"
proof -
  obtain w' where r: "process_request answering_env sample_registry ''main'' sample_query (V4 1, 53) sample_world
      = (Inr (Some [0x12, 0x34, 0, 0, 0, 0, 0, 0, 0, 0, 0, 0]), w')"
    using sample_process by (metis prod.collapse)
  from reply_carries_query_id [OF answering_env_header r] r show ?thesis
    by (auto simp: sample_query_def)
qed


theorem dot_pipelining_witness:
  "\<exists>out w'. dot_connection answering_env (\<lambda>i. sample_registry) ''main'' 0
        (concat (map frame_out [sample_query, [7], sample_query])) (V4 1, 53) sample_world = (Inr out, w')
     \<and> read_frames out = [[0x12, 0x34, 0, 0, 0, 0, 0, 0, 0, 0, 0, 0], [0x12, 0x34, 0, 0, 0, 0, 0, 0, 0, 0, 0, 0]]"
proof -
  let ?ds = "[sample_query, [7], sample_query]" and ?r = "[0x12, 0x34, 0, 0, 0, 0, 0, 0, 0, 0, 0, 0] :: bytes"
  have short: "process_request answering_env sample_registry ''main'' [7] src w = (Inr None, w)" for src w
    by (simp add: process_request_def ctx_from_bytes_def zc_from_bytes_def)
  have s: "fst (serve_all answering_env (\<lambda>i. sample_registry) ''main'' 0 ?ds (V4 1, 53) sample_world)
      = [Some ?r, None, Some ?r]"
    by (simp add: sample_process short split_beta)
  have l: "\<forall>d \<in> set ?ds. length d < 65536" by (simp add: sample_query_def)
  from dot_pipelining [of "\<lambda>i. sample_registry" "''main''", OF sample_entry_safe l, of answering_env "(V4 1, 53)" sample_world] s
  show ?thesis by (auto simp: some_frames_def)
qed

end
