(* ===== verification/Plugin_Factory.thy ===== *)
theory Plugin_Factory
  imports Server
begin

text \<open>
  \<open>src/plugin_factory.rs\<close>, the plugin part of \<open>src/config.rs\<close>, and the reload in \<open>src/main.rs\<close>: from a
  configuration to the plugins and the entry points of the server.

  A \<open>HashMap\<close> of the configuration is the list of its entries in the order of the iteration,
  which the program does not control.  A plugin that is created gets a number of its own in the world.
  Files, databases and the resolver are the parameter \<open>host\<close>.  The load of a cache file and the warm-up of the
  kernel cache run in the background and are taken as done at once.  A smart forwarder gets a copy of
  the tables of its GeoIP plugin, which holds the same database with a cache of its own.
\<close>

section \<open>The configuration\<close>

record tuning_conf =
  tc_doh_pool_idle_timeout :: "u64 option"
  tc_doh_pool_max_idle_per_host :: "nat option"
  tc_doh_timeout :: "u64 option"
  tc_dot_idle_timeout :: "u64 option"
  tc_doq_idle_timeout :: "u64 option"
  tc_doq_socks5_timeout :: "u64 option"
  tc_tcp_connect_timeout_ms :: "u64 option"
  tc_tcp_read_timeout_ms :: "u64 option"
  tc_udp_reply_timeout_ms :: "u64 option"
  tc_udp_retries :: "u32 option"
  tc_udp_rcvbuf :: "nat option"
  tc_udp_sndbuf :: "nat option"

record cache_conf =
  cc_fakeip_protection :: bool
  cc_upstreams :: "upstream_config list"
  cc_prefetch_if_ttl_less_than :: u32
  cc_serve_stale_ttl :: u32
  cc_recursive_mode :: bool
  cc_persist_file :: "string option"
  cc_persist_interval :: u64
  cc_min_ttl :: "u64 option"
  cc_max_ttl :: "u64 option"
  cc_moka_ttl_secs :: "u64 option"
  cc_xdp_hash_ttl_secs :: "u64 option"
  cc_prefetch_concurrent :: "nat option"
  cc_prefetch_timeout_ms :: "u64 option"
  cc_strategy :: "string option"
  cc_timeout :: "u64 option"

record forward_conf =
  fc_upstreams :: "upstream_config list"
  fc_strategy :: "string option"
  fc_timeout :: u64
  fc_tuning :: tuning_conf

record smart_forward_conf =
  sf_local :: "upstream_config option"
  sf_fakeip :: "upstream_config option"
  sf_local_upstreams :: "upstream_config list"
  sf_fakeip_upstreams :: "upstream_config list"
  sf_local_strategy :: "string option"
  sf_fakeip_strategy :: "string option"
  sf_local_timeout_ms :: "u64 option"
  sf_fakeip_timeout_ms :: "u64 option"
  sf_local_fallback_upstreams :: "upstream_config list"
  sf_local_fallback_strategy :: "string option"
  sf_local_fallback_timeout_ms :: "u64 option"
  sf_avoid_fakeip_on_domestic :: bool
  sf_prefer_local_on_miss :: bool
  sf_domestic_suffixes :: "string list"
  sf_ip_matcher :: "string option"
  sf_geoip :: string
  sf_learning_cache_file :: "string option"
  sf_learning_cache_max_entries :: "nat option"
  sf_learning_cache_ttl_secs :: "u64 option"
  sf_tuning :: tuning_conf

text \<open>A fallback carries the threshold in milliseconds and whether it is always in standby.\<close>

datatype plugin_type =
    CacheConf cache_conf
  | ForwardConf forward_conf
  | RejectConf string
  | HostsConf string
  | QueryLogConf string
  | GeoSiteConf string "string list" "string option"
  | GeoIpConf string string string string bool
  | MatcherConf "string list" "string option"
  | IpMatcherConf "string list" "string option"
  | FallbackConf string string u64 bool
  | EcsConf bool "u8 option" "u8 option" "string option"
  | FakeIpConf string string
  | SmartForwardConf smart_forward_conf
  | Dns64Conf "string option" bool
  | DnssecConf string
  | AdBlockConf "string list"
  | Ipv6FilterConf string u64
  | DgaConf real nat bool
  | SmartResolveConf "upstream_config list" u64 u16 nat
  | TtlConf "u32 option" "u32 option" "u32 option"
  | RateLimitConf u32 u64
  | AliApiConf string string string "u64 option"
  | UnknownConf

record sequence_step =
  st_matches :: "match_condition list"
  st_exec :: string

type_synonym named_sequence = "string \<times> sequence_step list"

text \<open>\<open>cf_xdp_cache\<close> is \<open>enabled\<close> of the section \<open>xdp_cache\<close>, if there is one.\<close>

record config =
  cf_plugins :: "(string \<times> plugin_type) list"
  cf_sequences :: "named_sequence list"
  cf_xdp_cache :: "bool option"

section \<open>Tunings\<close>

definition set_positive :: "string \<Rightarrow> 'a option \<Rightarrow> ('a::zero \<Rightarrow> 't \<Rightarrow> 't) \<Rightarrow> 't \<Rightarrow> 't result" where
  "set_positive what v upd t =
     (case v of
        None \<Rightarrow> Inr t
      | Some v \<Rightarrow> if v = 0 then Inl (Error (what @ '' must be > 0'')) else Inr (upd v t))"

definition build_cache_tuning :: "cache_conf \<Rightarrow> cache_tuning result" where
  "build_cache_tuning C =
     (let t = cache_tuning_default;
          t = (case cc_min_ttl C of Some v \<Rightarrow> t\<lparr>ct_min_ttl := v\<rparr> | None \<Rightarrow> t);
          t = (case cc_max_ttl C of Some v \<Rightarrow> t\<lparr>ct_max_ttl := v\<rparr> | None \<Rightarrow> t)
      in if ct_max_ttl t < ct_min_ttl t then Inl (Error ''invalid TTL range'')
         else
           andthen (set_positive ''moka_ttl_secs'' (cc_moka_ttl_secs C) (\<lambda>v t. t\<lparr>ct_moka_ttl_secs := v\<rparr>) t) (\<lambda>t.
           andthen (set_positive ''xdp_hash_ttl_secs'' (cc_xdp_hash_ttl_secs C) (\<lambda>v t. t\<lparr>ct_xdp_hash_ttl_secs := v\<rparr>) t) (\<lambda>t.
           andthen (set_positive ''prefetch_concurrent'' (cc_prefetch_concurrent C) (\<lambda>v t. t\<lparr>ct_prefetch_concurrent := v\<rparr>) t)
             (set_positive ''prefetch_timeout_ms'' (cc_prefetch_timeout_ms C) (\<lambda>v t. t\<lparr>ct_prefetch_timeout_ms := v\<rparr>)))))"

definition build_forward_tuning :: "tuning_conf \<Rightarrow> forward_tuning result" where
  "build_forward_tuning C =
     andthen (set_positive ''doh_pool_idle_timeout'' (tc_doh_pool_idle_timeout C)
       (\<lambda>v t. t\<lparr>ft_doh_pool_idle_timeout := from_secs (unat v)\<rparr>) tuning_default) (\<lambda>t.
     andthen (set_positive ''doh_pool_max_idle_per_host'' (tc_doh_pool_max_idle_per_host C)
       (\<lambda>v t. t\<lparr>ft_doh_pool_max_idle_per_host := v\<rparr>) t) (\<lambda>t.
     andthen (set_positive ''doh_timeout'' (tc_doh_timeout C)
       (\<lambda>v t. t\<lparr>ft_doh_timeout := from_secs (unat v)\<rparr>) t) (\<lambda>t.
     andthen (set_positive ''dot_idle_timeout'' (tc_dot_idle_timeout C)
       (\<lambda>v t. t\<lparr>ft_dot_idle_timeout := from_secs (unat v)\<rparr>) t) (\<lambda>t.
     andthen (set_positive ''doq_idle_timeout'' (tc_doq_idle_timeout C)
       (\<lambda>v t. t\<lparr>ft_doq_idle_timeout := from_secs (unat v)\<rparr>) t) (\<lambda>t.
     andthen (set_positive ''doq_socks5_timeout'' (tc_doq_socks5_timeout C)
       (\<lambda>v t. t\<lparr>ft_doq_socks5_timeout := from_secs (unat v)\<rparr>) t) (\<lambda>t.
     andthen (set_positive ''tcp_connect_timeout_ms'' (tc_tcp_connect_timeout_ms C)
       (\<lambda>v t. t\<lparr>ft_tcp_connect_timeout := Some (from_millis (unat v))\<rparr>) t) (\<lambda>t.
     andthen (set_positive ''tcp_read_timeout_ms'' (tc_tcp_read_timeout_ms C)
       (\<lambda>v t. t\<lparr>ft_tcp_read_timeout := Some (from_millis (unat v))\<rparr>) t) (\<lambda>t.
     andthen (set_positive ''udp_reply_timeout_ms'' (tc_udp_reply_timeout_ms C)
       (\<lambda>v t. t\<lparr>ft_udp_reply_timeout := from_millis (unat v)\<rparr>) t) (\<lambda>t.
     let t = (case tc_udp_retries C of Some v \<Rightarrow> t\<lparr>ft_udp_retries := v\<rparr> | None \<Rightarrow> t) in
     andthen (set_positive ''udp_rcvbuf'' (tc_udp_rcvbuf C) (\<lambda>v t. t\<lparr>ft_udp_rcvbuf := v\<rparr>) t)
       (set_positive ''udp_sndbuf'' (tc_udp_sndbuf C) (\<lambda>v t. t\<lparr>ft_udp_sndbuf := v\<rparr>)))))))))))"

text \<open>A tuning is rejected exactly for a value of zero, or for an empty range of TTLs; an accepted one has
  no timeout or size of zero.  Only the retries may be zero.\<close>

lemma set_positive_Inr:
  "set_positive what v upd t = Inr t' \<longleftrightarrow> v \<noteq> Some 0 \<and> t' = (case v of None \<Rightarrow> t | Some v \<Rightarrow> upd v t)"
  by (auto simp: set_positive_def split: option.split)

lemma build_cache_tuning_ok:
  assumes "build_cache_tuning C = Inr t"
  shows "ct_min_ttl t \<le> ct_max_ttl t" and "0 < ct_moka_ttl_secs t" and "0 < ct_xdp_hash_ttl_secs t"
    and "0 < ct_prefetch_concurrent t" and "0 < ct_prefetch_timeout_ms t"
  using assms
  by (auto simp: build_cache_tuning_def Let_def andthen_eq_Inr set_positive_Inr cache_tuning_default_def
      word_gt_0 not_less split: if_splits option.splits)

definition tuning_positive :: "forward_tuning \<Rightarrow> bool" where
  "tuning_positive t \<longleftrightarrow> 0 < ft_doh_pool_idle_timeout t \<and> 0 < ft_doh_pool_max_idle_per_host t \<and> 0 < ft_doh_timeout t
     \<and> 0 < ft_dot_idle_timeout t \<and> 0 < ft_doq_idle_timeout t \<and> 0 < ft_doq_socks5_timeout t
     \<and> ft_tcp_connect_timeout t \<noteq> Some 0 \<and> ft_tcp_read_timeout t \<noteq> Some 0 \<and> 0 < ft_udp_reply_timeout t
     \<and> 0 < ft_udp_rcvbuf t \<and> 0 < ft_udp_sndbuf t"

lemma tuning_positive_default: "tuning_positive tuning_default"
  by (simp add: tuning_positive_def tuning_default_def from_secs_def from_millis_def)

lemma set_positive_keeps:
  assumes "set_positive what v upd t = Inr t'" and "P t" and "\<And>v. v \<noteq> 0 \<Longrightarrow> P t \<Longrightarrow> P (upd v t)"
  shows "P t'"
  using assms by (auto simp: set_positive_Inr split: option.splits)

lemma tuning_positive_retries:
  "tuning_positive (case r of Some v \<Rightarrow> t\<lparr>ft_udp_retries := v\<rparr> | None \<Rightarrow> t) \<longleftrightarrow> tuning_positive t"
  by (simp add: tuning_positive_def split: option.split)

lemma build_forward_tuning_ok:
  assumes "build_forward_tuning C = Inr t"
  shows "tuning_positive t"
  using assms tuning_positive_default
  unfolding build_forward_tuning_def andthen_eq_Inr Let_def
  by (elim exE conjE)
    (drule set_positive_keeps [where P = tuning_positive], (assumption | simp only: tuning_positive_retries),
      simp add: tuning_positive_def from_secs_def from_millis_def unat_gt_0)+

section \<open>Shared plugins\<close>

text \<open>The files, each as its constructor reads it, the MMDB reader and the parsers of the standard library;
  \<open>ho_loaded\<close> enumerates a cache that was loaded, and \<open>ho_kernel\<close> is as in \<open>penv\<close>.\<close>

record host =
  ho_lib :: dns_lib
  ho_net :: net_lib
  ho_ipnet :: "ip_net ipnet_lib"
  ho_text :: "string \<Rightarrow> string result"
  ho_lines :: "string \<Rightarrow> string option list option"
  ho_bytes :: "string \<Rightarrow> bytes option"
  ho_geosite :: "string \<Rightarrow> geosite_entry list result"
  ho_mmdb :: "string \<Rightarrow> (ip_addr \<Rightarrow> string option) option"
  ho_log_file :: "string \<Rightarrow> string list option"
  ho_learned :: "string \<Rightarrow> (string \<times> bool) list option"
  ho_parse_v6 :: "string \<Rightarrow> 128 word option"
  ho_parse_u8 :: "string \<Rightarrow> u8 option"
  ho_loaded :: "cache_plugin \<Rightarrow> cached_entry list"
  ho_kernel :: "u64 \<times> bool"
  ho_unix :: u64

record factory =
  fa_world :: world
  fa_ipmatchers :: "nat \<Rightarrow> ip_net list \<times> string option"
  fa_next :: nat

type_synonym registry = "string \<Rightarrow> any_plugin option"

definition reject_type_of :: "string \<Rightarrow> reject_type" where
  "reject_type_of rcode =
     (if rcode = ''nxdomain'' then RjNxDomain else if rcode = ''noerror'' then RjNoError
      else if rcode = ''blackhole_v4'' then RjBlackholeV4 else if rcode = ''blackhole_v6'' then RjBlackholeV6
      else RjCustomIp rcode)"

definition geoip_mode_of :: "string \<Rightarrow> geoip_mode" where
  "geoip_mode_of mode = (if to_lower mode = ''client'' then GeoClient else GeoResponse)"

definition create_cache ::
  "host \<Rightarrow> bpf_filter option \<Rightarrow> bool \<Rightarrow> cache_conf \<Rightarrow> nat \<Rightarrow> autopilot \<Rightarrow> (cache_plugin \<times> autopilot) option" where
  "create_cache H xdp_filter xdp_cache_enabled C now a =
     (case build_cache_tuning C of
        Inl e \<Rightarrow> None
      | Inr tuning \<Rightarrow>
          if cc_timeout C = Some 0 then None
          else let prefetch_conf = (if cc_upstreams C \<noteq> []
                     then Some (length (cc_upstreams C), cc_prefetch_if_ttl_less_than C, cc_serve_stale_ttl C) else None);
                   effective_timeout_ms = (case cc_timeout C of Some v \<Rightarrow> v | None \<Rightarrow> ct_prefetch_timeout_ms tuning);
                   a = (if cc_upstreams C \<noteq> []
                        then snd (forward_new (ho_lib H) (ho_net H) now ''cache_prefetch'' (cc_upstreams C) (cc_strategy C)
                               (unat effective_timeout_ms) tuning_default a) else a);
                   cp = cache_new prefetch_conf (cc_recursive_mode C) (cc_persist_file C) (cc_persist_interval C) tuning;
                   cp = (case Option.bind (cc_persist_file C) (ho_bytes H) of
                           Some file \<Rightarrow> load_from_disk (ho_lib H) (ho_unix H) file cp | None \<Rightarrow> cp);
                   cp = cp\<lparr>cp_fakeip_protection := cc_fakeip_protection C\<rparr>;
                   cp = (case xdp_filter of
                           None \<Rightarrow> cp
                         | Some filt \<Rightarrow>
                             if xdp_cache_enabled
                             then (let cp = enable_xdp_cache True cp
                                   in set_xdp_filter (ho_lib H) (ho_unix H) (fst (ho_kernel H)) (snd (ho_kernel H)) filt
                                        (ho_loaded H cp) cp)
                             else cp)
               in Some (cp, a))"

text \<open>One turn of the loop over the configuration: the plugin to register, if the turn creates one.\<close>

definition create_shared ::
  "host \<Rightarrow> bpf_filter option \<Rightarrow> bool \<Rightarrow> plugin_type \<Rightarrow> factory \<Rightarrow> any_plugin option \<times> factory" where
  "create_shared H xdp_filter xdp_cache_enabled p_conf f =
     (let L = ho_lib H; w = fa_world f; i = fa_next f;
          stored = (\<lambda>p w. (Some p, f\<lparr>fa_world := w, fa_next := i + 1\<rparr>)) in
      case p_conf of
        CacheConf C \<Rightarrow>
          (case create_cache H xdp_filter xdp_cache_enabled C (w_clock w) (w_autopilot w) of
             None \<Rightarrow> (None, f)
           | Some (cp, a) \<Rightarrow> stored (PCache i) (w\<lparr>w_caches := (w_caches w)(i := cp), w_autopilot := a\<rparr>))
      | RejectConf rcode \<Rightarrow> (Some (PReject (reject_type_of rcode)), f)
      | HostsConf file \<Rightarrow>
          (case hosts_load_from_file L (ho_text H file) of
             Inr h \<Rightarrow> (Some (PHosts h), f)
           | Inl e \<Rightarrow> (None, f))
      | GeoSiteConf tgt files mark \<Rightarrow>
          (let g = gs_new tgt;
               g = (case mark of Some m \<Rightarrow> gs_with_mark m g | None \<Rightarrow> g);
               g = fold (\<lambda>file g. case gs_load_from_file (ho_text H) (ho_geosite H) file g of
                                    Inr g' \<Rightarrow> g' | Inl e \<Rightarrow> g) files g
           in stored (PGeoSite i) (w\<lparr>w_geosites := (w_geosites w)(i := g)\<rparr>))
      | EcsConf auto v4 v6 force \<Rightarrow> (Some (PEcs (ecs_new L auto v4 v6 force)), f)
      | GeoIpConf file code tag mode inverted \<Rightarrow>
          (case ho_mmdb H file of
             None \<Rightarrow> (None, f)
           | Some reader \<Rightarrow>
               stored (PGeoIp i) (w\<lparr>w_geoips := (w_geoips w)
                 (i := geoip_with_invert inverted (geoip_new (Some reader) code tag (geoip_mode_of mode)))\<rparr>))
      | MatcherConf files mark \<Rightarrow>
          stored (PMatcher i) (w\<lparr>w_matchers := (w_matchers w)(i := matcher_new (map (ho_lines H) files) mark)\<rparr>)
      | QueryLogConf file \<Rightarrow>
          (case log_plugin_new (Some (ho_log_file H file)) True True True of
             Inl e \<Rightarrow> (None, f)
           | Inr p \<Rightarrow> stored (PLog i) (w\<lparr>w_log_plugins := (w_log_plugins w)(i := p)\<rparr>))
      | FakeIpConf v4 v6 \<Rightarrow> stored (PFakeIp i) (w\<lparr>w_fakeips := (w_fakeips w)(i := False)\<rparr>)
      | Dns64Conf pfx only_if_no_aaaa \<Rightarrow>
          (case dns64_new (ho_parse_v6 H) (ho_parse_u8 H) pfx only_if_no_aaaa of
             Inl e \<Rightarrow> (None, f)
           | Inr p \<Rightarrow> (Some (PDns64 p), f))
      | DnssecConf mode \<Rightarrow> (Some (PDnssec (dnssec_mode_of mode)), f)
      | AdBlockConf files \<Rightarrow> (Some (PAdBlock (adblock_new (map (ho_text H) files))), f)
      | Ipv6FilterConf mode delay \<Rightarrow> (Some (PIpv6Filter (ipv6_filter_new mode delay)), f)
      | DgaConf threshold min_len dry_run \<Rightarrow>
          (Some (PDga \<lparr>dga_entropy_threshold = threshold, dga_min_len = min_len, dga_dry_run = dry_run\<rparr>), f)
      | IpMatcherConf files mark \<Rightarrow>
          (Some (PIpMatcher i),
           f\<lparr>fa_ipmatchers := (fa_ipmatchers f)(i := (snd (im_new L (ho_ipnet H) (map (ho_lines H) files) 0 []), mark)),
             fa_next := i + 1\<rparr>)
      | SmartResolveConf confs timeout_ms port max_ips \<Rightarrow>
          (case smart_resolve_new L (ho_net H) confs (unat timeout_ms) port max_ips of
             Inl e \<Rightarrow> (None, f)
           | Inr p \<Rightarrow> stored (PSmartResolve (sr_upstreams p) i) (w\<lparr>w_resolvers := (w_resolvers w)(i := p)\<rparr>))
      | TtlConf fixed mn mx \<Rightarrow> (Some (PTtl \<lparr>tp_fixed = fixed, tp_min = mn, tp_max = mx\<rparr>), f)
      | RateLimitConf max_queries window_secs \<Rightarrow>
          stored (PRateLimit i) (w\<lparr>w_limiters := (w_limiters w)(i := rl_new True max_queries window_secs)\<rparr>)
      | AliApiConf account_id key_id secret timeout_ms \<Rightarrow>
          if timeout_ms = Some 0 then (None, f)
          else (Some (PAliApi (ali_new account_id key_id secret (map_option unat timeout_ms))), f)
      | _ \<Rightarrow> (None, f))"

definition create_shared_plugins :: "host \<Rightarrow> bpf_filter option \<Rightarrow> config \<Rightarrow> factory \<Rightarrow> registry \<times> factory" where
  "create_shared_plugins H xdp_filter config f =
     (let xdp_cache_enabled = (case cf_xdp_cache config of Some b \<Rightarrow> b | None \<Rightarrow> True) in
      fold (\<lambda>(name, p_conf) (reg, f).
          case create_shared H xdp_filter xdp_cache_enabled p_conf f of
            (Some p, f) \<Rightarrow> (reg(name \<mapsto> p), f)
          | (None, f) \<Rightarrow> (reg, f))
        (cf_plugins config) (Map.empty, f))"

section \<open>Plugins of a runtime\<close>

text \<open>What \<open>singbox\<close> found: the port of the proxy, if any, and \<open>proxy_state\<close>.\<close>

definition auto_socks :: "u16 option \<Rightarrow> upstream_config \<Rightarrow> upstream_config" where
  "auto_socks discovered u =
     (case discovered of
        None \<Rightarrow> u
      | Some port \<Rightarrow>
          if uc_socks5 u = Some ''auto'' then u\<lparr>uc_socks5 := Some (''127.0.0.1:'' @ show_nat (unat port))\<rparr> else u)"

definition create_forward ::
  "host \<Rightarrow> bool \<Rightarrow> u16 option \<Rightarrow> string \<Rightarrow> forward_conf \<Rightarrow> nat \<Rightarrow> autopilot \<Rightarrow> (forward_plugin \<times> autopilot) option" where
  "create_forward H proxy_state discovered name C now a =
     (if fc_timeout C = 0 then None
      else case build_forward_tuning (fc_tuning C) of
             Inl e \<Rightarrow> None
           | Inr tuning \<Rightarrow>
               let (fp, a) = forward_new (ho_lib H) (ho_net H) now name (map (auto_socks discovered) (fc_upstreams C))
                     (fc_strategy C) (unat (fc_timeout C)) tuning a
               in Some (fp\<lparr>fw_proxy_status := Some proxy_state\<rparr>, a))"

text \<open>The upstreams of the fallback group keep \<open>auto\<close>.\<close>

definition smart_conf_of :: "host \<Rightarrow> u16 option \<Rightarrow> string \<Rightarrow> smart_forward_conf \<Rightarrow> smart_conf" where
  "smart_conf_of H discovered name C =
     \<lparr>sc_name = name, sc_local = sf_local C, sc_fakeip = sf_fakeip C,
      sc_local_upstreams = map (auto_socks discovered) (sf_local_upstreams C),
      sc_fakeip_upstreams = map (auto_socks discovered) (sf_fakeip_upstreams C),
      sc_local_strategy = sf_local_strategy C, sc_fakeip_strategy = sf_fakeip_strategy C,
      sc_local_timeout_ms = sf_local_timeout_ms C, sc_fakeip_timeout_ms = sf_fakeip_timeout_ms C,
      sc_fallback_upstreams = sf_local_fallback_upstreams C, sc_fallback_strategy = sf_local_fallback_strategy C,
      sc_fallback_timeout_ms = sf_local_fallback_timeout_ms C,
      sc_avoid_fakeip_on_domestic = sf_avoid_fakeip_on_domestic C,
      sc_prefer_local_on_miss = sf_prefer_local_on_miss C, sc_domestic_suffixes = sf_domestic_suffixes C,
      sc_cache_file = map_option (ho_learned H) (sf_learning_cache_file C),
      sc_cache_max_entries = sf_learning_cache_max_entries C,
      sc_cache_ttl_secs = map_option unat (sf_learning_cache_ttl_secs C)\<rparr>"

definition create_smart_forward ::
  "host \<Rightarrow> u16 option \<Rightarrow> string \<Rightarrow> smart_forward_conf \<Rightarrow> registry \<Rightarrow> factory
     \<Rightarrow> ip_net smart_forward option \<times> autopilot" where
  "create_smart_forward H discovered name C reg f =
     (let w = fa_world f; a = w_autopilot w in
      case reg (sf_geoip C) of
        Some (PGeoIp g) \<Rightarrow>
          (let matcher = (case sf_ip_matcher C of
                 None \<Rightarrow> None
               | Some matcher_name \<Rightarrow>
                   (case reg matcher_name of
                      Some (PIpMatcher m) \<Rightarrow> Some (fst (fa_ipmatchers f m))
                    | _ \<Rightarrow> None))
           in case build_forward_tuning (sf_tuning C) of
                Inl e \<Rightarrow> (None, a)
              | Inr tuning \<Rightarrow>
                  (case smart_new (ho_lib H) (ho_net H) tuning (w_clock w) (ho_unix H) (smart_conf_of H discovered name C)
                          matcher (w_geoips w g) a of
                     (Inl e, a) \<Rightarrow> (None, a)
                   | (Inr p, a) \<Rightarrow> (Some p, a)))
      | _ \<Rightarrow> (None, a))"

definition create_runtime ::
  "host \<Rightarrow> bool \<Rightarrow> u16 option \<Rightarrow> string \<times> plugin_type \<Rightarrow> registry \<times> factory \<Rightarrow> registry \<times> factory" where
  "create_runtime H proxy_state discovered entry st =
     (let (name, p_conf) = entry; (reg, f) = st; w = fa_world f; i = fa_next f in
      case p_conf of
        ForwardConf C \<Rightarrow>
          (case create_forward H proxy_state discovered name C (w_clock w) (w_autopilot w) of
             None \<Rightarrow> (reg, f)
           | Some (fp, a) \<Rightarrow>
               (reg(name \<mapsto> PForward i),
                f\<lparr>fa_world := w\<lparr>w_forwards := (w_forwards w)(i := fp), w_autopilot := a\<rparr>, fa_next := i + 1\<rparr>))
      | SmartForwardConf C \<Rightarrow>
          (case create_smart_forward H discovered name C reg f of
             (None, a) \<Rightarrow> (reg, f\<lparr>fa_world := w\<lparr>w_autopilot := a\<rparr>\<rparr>)
           | (Some p, a) \<Rightarrow>
               (reg(name \<mapsto> PSmartForward i),
                f\<lparr>fa_world := w\<lparr>w_smarts := (w_smarts w)(i := p), w_autopilot := a\<rparr>, fa_next := i + 1\<rparr>))
      | _ \<Rightarrow> (reg, f))"

definition create_fallback :: "string \<times> plugin_type \<Rightarrow> registry \<Rightarrow> registry" where
  "create_fallback entry reg =
     (case entry of
        (name, FallbackConf primary secondary threshold always_standby) \<Rightarrow>
          (case (reg primary, reg secondary) of
             (Some p, Some s) \<Rightarrow> reg(name \<mapsto> PFallback p s always_standby (unat threshold))
           | _ \<Rightarrow> reg)
      | _ \<Rightarrow> reg)"

section \<open>Sequences\<close>

text \<open>The steps of a sequence, if the plugins of all of them are there.\<close>

fun compile_steps :: "registry \<Rightarrow> sequence_step list \<Rightarrow> (match_condition list \<times> any_plugin) list option" where
  "compile_steps reg [] = Some []"
| "compile_steps reg (s # steps) =
     (case reg (st_exec s) of
        None \<Rightarrow> None
      | Some p \<Rightarrow> map_option (\<lambda>compiled. (st_matches s, p) # compiled) (compile_steps reg steps))"

text \<open>One pass over the sequences that are pending: the two maps, whether one was built, and those that
  are still pending.\<close>

fun seq_pass ::
  "named_sequence list \<Rightarrow> registry \<Rightarrow> registry \<Rightarrow> bool \<Rightarrow> named_sequence list
     \<Rightarrow> registry \<times> registry \<times> bool \<times> named_sequence list" where
  "seq_pass [] reg entries progress next_pending = (reg, entries, progress, next_pending)"
| "seq_pass ((seq_name, steps) # pending) reg entries progress next_pending =
     (case compile_steps reg steps of
        Some compiled \<Rightarrow>
          let any_seq = PSequence compiled reg
          in seq_pass pending (reg(seq_name \<mapsto> any_seq)) (entries(seq_name \<mapsto> any_seq)) True next_pending
      | None \<Rightarrow> seq_pass pending reg entries progress (next_pending @ [(seq_name, steps)]))"

lemma seq_pass_length:
  assumes "seq_pass pending reg entries progress np = (reg', entries', progress', np')"
  shows "length np' \<le> length np + length pending"
    and "progress' \<Longrightarrow> \<not> progress \<Longrightarrow> length np' < length np + length pending"
  using assms
  by (induction pending reg entries progress np rule: seq_pass.induct) (fastforce simp: Let_def split: option.splits)+

lemma seq_pass_shorter:
  assumes "(reg', entries', progress, np) = seq_pass pending reg entries False []"
  shows "length np \<le> length pending \<and> (progress \<longrightarrow> length np < length pending)"
  using seq_pass_length [OF assms [symmetric]] by simp

function resolve_sequences ::
  "named_sequence list \<Rightarrow> nat \<Rightarrow> registry \<Rightarrow> registry \<Rightarrow> registry \<times> registry" where
  "resolve_sequences pending loop_protect reg entries =
     (if pending = [] then (reg, entries)
      else case seq_pass pending reg entries False [] of
             (reg, entries, progress, next_pending) \<Rightarrow>
               if progress then resolve_sequences next_pending loop_protect reg entries
               else if 20 < loop_protect + 1 then (reg, entries)
               else resolve_sequences next_pending (loop_protect + 1) reg entries)"
  by pat_completeness auto
termination
  by (relation "measures [\<lambda>(pending, n, reg, entries). length pending, \<lambda>(pending, n, reg, entries). 20 - n]")
    (auto dest: seq_pass_shorter)

declare resolve_sequences.simps [simp del]

record plugin_registry =
  rg_plugins :: registry
  rg_entry_points :: registry
  rg_api_cache :: "nat option"

text \<open>\<open>order\<close> is the order of the iteration over the registry.\<close>

fun first_cache :: "registry \<Rightarrow> string list \<Rightarrow> nat option" where
  "first_cache reg [] = None"
| "first_cache reg (n # order) = (case reg n of Some (PCache i) \<Rightarrow> Some i | _ \<Rightarrow> first_cache reg order)"

definition create_runtime_registry ::
  "host \<Rightarrow> bool \<Rightarrow> u16 option \<Rightarrow> string list \<Rightarrow> config \<Rightarrow> registry \<Rightarrow> factory \<Rightarrow> plugin_registry \<times> factory" where
  "create_runtime_registry H proxy_state discovered order config shared f =
     (let api_cache = first_cache shared order;
          (reg, f) = fold (create_runtime H proxy_state discovered) (cf_plugins config) (shared, f);
          reg = fold create_fallback (cf_plugins config) reg;
          (reg, entries) = resolve_sequences (cf_sequences config) 0 reg Map.empty
      in (\<lparr>rg_plugins = reg, rg_entry_points = entries, rg_api_cache = api_cache\<rparr>, f))"

section \<open>Reload\<close>

text \<open>\<open>src/main.rs\<close>: the hash of the file, and the reaction to a change of it.  \<open>first\<close> and
  \<open>again\<close> are what two reads of the file give.\<close>

definition compute_file_hash :: "(bytes \<Rightarrow> bytes) \<Rightarrow> bytes option \<Rightarrow> u64 option" where
  "compute_file_hash sha256 content = map_option (\<lambda>bytes. from_le (take 8 (sha256 bytes))) content"

record server_state =
  ss_hash :: u64
  ss_reload :: hot_reload
  ss_factory :: factory

definition reload_config ::
  "host \<Rightarrow> bool \<Rightarrow> u16 option \<Rightarrow> string list \<Rightarrow> registry \<Rightarrow> (bytes \<Rightarrow> bytes) \<Rightarrow> bytes option \<Rightarrow> bytes option
     \<Rightarrow> config result \<Rightarrow> server_state \<Rightarrow> server_state" where
  "reload_config H proxy_state discovered order shared sha256 first again loaded s =
     (let new_hash = compute_file_hash sha256 first in
      if new_hash = Some (ss_hash s) then s
      else case loaded of
             Inl e \<Rightarrow> s
           | Inr new_config \<Rightarrow>
               let (data, f) = create_runtime_registry H proxy_state discovered order new_config shared (ss_factory s)
               in s\<lparr>ss_reload := hr_update (rg_entry_points data) 1 (ss_reload s), ss_factory := f,
                    ss_hash := (case new_hash of
                                  Some h \<Rightarrow> h
                                | None \<Rightarrow> (case compute_file_hash sha256 again of Some h \<Rightarrow> h | None \<Rightarrow> ss_hash s))\<rparr>)"

section \<open>Which sequences are built\<close>

text \<open>The specification: a sequence can be built if every step names a plugin, or a sequence that can
  be built.\<close>

inductive buildable :: "registry \<Rightarrow> named_sequence list \<Rightarrow> string \<Rightarrow> bool" for base seqs where
  "(n, steps) \<in> set seqs \<Longrightarrow> (\<And>s. s \<in> set steps \<Longrightarrow> base (st_exec s) \<noteq> None \<or> buildable base seqs (st_exec s))
     \<Longrightarrow> buildable base seqs n"

text \<open>What is built of one: the steps in their order, with their conditions, each with the plugin
  or the sequence it names.\<close>

definition built_from :: "registry \<Rightarrow> registry \<Rightarrow> named_sequence list \<Rightarrow> string \<Rightarrow> any_plugin \<Rightarrow> bool" where
  "built_from base entries seqs n p \<longleftrightarrow>
     (\<exists>steps compiled known. (n, steps) \<in> set seqs \<and> p = PSequence compiled known
        \<and> list_all2 (\<lambda>s (conds, q). conds = st_matches s \<and> (base (st_exec s) = Some q \<or> entries (st_exec s) = Some q))
            steps compiled)"

lemma compile_steps_Some:
  "compile_steps reg steps = Some compiled
     \<longleftrightarrow> list_all2 (\<lambda>s (conds, p). conds = st_matches s \<and> reg (st_exec s) = Some p) steps compiled"
  by (induction reg steps arbitrary: compiled rule: compile_steps.induct)
    (auto simp: list_all2_Cons1 split: option.split)

lemma compile_steps_None: "compile_steps reg steps = None \<longleftrightarrow> (\<exists>s \<in> set steps. reg (st_exec s) = None)"
  by (induction reg steps rule: compile_steps.induct) (auto split: option.split)

lemma built_from_mono:
  assumes "built_from base entries seqs n p" and "entries \<subseteq>\<^sub>m entries'"
  shows "built_from base entries' seqs n p"
proof -
  from assms(2) have "entries m = Some q \<Longrightarrow> entries' m = Some q" for m q
    by (metis domI map_le_def)
  with assms(1) show ?thesis unfolding built_from_def by (fastforce elim!: list_all2_mono)
qed

definition seq_inv :: "registry \<Rightarrow> named_sequence list \<Rightarrow> registry \<Rightarrow> registry \<Rightarrow> bool" where
  "seq_inv base seqs reg entries \<longleftrightarrow>
     (\<forall>m. reg m = None \<longleftrightarrow> base m = None \<and> entries m = None)
     \<and> (\<forall>m q. reg m = Some q \<longrightarrow> base m = Some q \<or> entries m = Some q)
     \<and> (\<forall>n p. entries n = Some p \<longrightarrow> buildable base seqs n \<and> built_from base entries seqs n p)"

lemma seq_inv_build:
  assumes inv: "seq_inv base seqs reg entries" and new: "entries n = None" and mem: "(n, steps) \<in> set seqs"
    and compiled: "compile_steps reg steps = Some compiled"
  shows "seq_inv base seqs (reg(n \<mapsto> PSequence compiled known)) (entries(n \<mapsto> PSequence compiled known))"
proof -
  let ?p = "PSequence compiled known"
  have le: "entries \<subseteq>\<^sub>m entries(n \<mapsto> ?p)" using new by (simp add: map_le_def dom_def)
  have known: "list_all2 (\<lambda>s (conds, p). conds = st_matches s \<and> reg (st_exec s) = Some p) steps compiled"
    using compiled by (simp add: compile_steps_Some)
  have "built_from base entries seqs n ?p"
    unfolding built_from_def using mem inv [unfolded seq_inv_def]
    by (intro exI [of _ steps] exI [of _ compiled] exI [of _ known] conjI refl list_all2_mono [OF known]) auto
  note built_from_mono [OF this le]
  moreover have "buildable base seqs n"
  proof (rule buildable.intros [OF mem])
    fix s assume "s \<in> set steps"
    then have "reg (st_exec s) \<noteq> None" using compiled compile_steps_None [of reg steps] by auto
    with inv show "base (st_exec s) \<noteq> None \<or> buildable base seqs (st_exec s)"
      by (auto simp: seq_inv_def)
  qed
  moreover have "built_from base (entries(n \<mapsto> ?p)) seqs m q" if "entries m = Some q" for m q
    using inv that built_from_mono [OF _ le] by (auto simp: seq_inv_def)
  ultimately show ?thesis using inv by (simp add: seq_inv_def)
qed

text \<open>Sequences that wait, whose names are distinct and not yet those of a built one.\<close>

definition waiting :: "named_sequence list \<Rightarrow> registry \<Rightarrow> named_sequence list \<Rightarrow> bool" where
  "waiting seqs entries pending \<longleftrightarrow>
     set pending \<subseteq> set seqs \<and> distinct (map fst pending) \<and> (\<forall>x \<in> set pending. entries (fst x) = None)"

lemma waiting_build:
  "waiting seqs entries (np @ (n, steps) # pending) \<Longrightarrow> waiting seqs (entries(n \<mapsto> p)) (np @ pending)"
  by (auto simp: waiting_def image_iff)

lemma seq_pass_inv:
  assumes "seq_pass pending reg entries progress np = (reg', entries', progress', np')"
    and "seq_inv base seqs reg entries" and "waiting seqs entries (np @ pending)"
  shows "seq_inv base seqs reg' entries' \<and> waiting seqs entries' np'"
  using assms
proof (induction pending reg entries progress np rule: seq_pass.induct)
  case (2 n steps pending reg entries progress np)
  show ?case
  proof (cases "compile_steps reg steps")
    case None
    with 2 show ?thesis by simp
  next
    case (Some compiled)
    let ?p = "PSequence compiled reg"
    have "seq_inv base seqs (reg(n \<mapsto> ?p)) (entries(n \<mapsto> ?p))"
      by (rule seq_inv_build [OF "2.prems"(2) _ _ Some]) (use "2.prems"(3) in \<open>simp_all add: waiting_def\<close>)
    moreover have "seq_pass pending (reg(n \<mapsto> ?p)) (entries(n \<mapsto> ?p)) True np = (reg', entries', progress', np')"
      using "2.prems"(1) Some by (simp add: Let_def)
    ultimately show ?thesis using "2.IH"(2) [OF Some refl] waiting_build [OF "2.prems"(3)] by blast
  qed
qed simp

lemma seq_pass_settles:
  assumes "seq_pass pending reg entries progress np = (reg', entries', progress', np')"
  shows "(\<forall>m. entries m \<noteq> None \<longrightarrow> entries' m \<noteq> None) \<and> set np \<subseteq> set np'
     \<and> (\<forall>x \<in> set pending. entries' (fst x) \<noteq> None \<or> x \<in> set np')"
  using assms
proof (induction pending reg entries progress np rule: seq_pass.induct)
  case (2 n steps pending reg entries progress np)
  show ?case
  proof (cases "compile_steps reg steps")
    case None
    with 2 show ?thesis by auto
  next
    case (Some compiled)
    with "2.prems" have "seq_pass pending (reg(n \<mapsto> PSequence compiled reg)) (entries(n \<mapsto> PSequence compiled reg)) True np
        = (reg', entries', progress', np')" by (simp add: Let_def)
    from "2.IH"(2) [OF Some refl this] show ?thesis by (auto split: if_splits)
  qed
qed auto

lemma seq_pass_idle:
  assumes "seq_pass pending reg entries progress np = (reg', entries', False, np')"
  shows "reg' = reg \<and> entries' = entries \<and> np' = np @ pending \<and> (\<forall>x \<in> set pending. compile_steps reg (snd x) = None)
     \<and> \<not> progress"
  using assms
  by (induction pending reg entries progress np rule: seq_pass.induct) (auto simp: Let_def split: option.splits)

lemma resolve_inv:
  assumes "resolve_sequences pending k reg entries = (reg', entries')"
    and "seq_inv base seqs reg entries" and "waiting seqs entries pending"
  shows "seq_inv base seqs reg' entries'"
  using assms
proof (induction pending k reg entries rule: resolve_sequences.induct)
  case (1 pending k reg entries)
  obtain r e progress np where pass: "seq_pass pending reg entries False [] = (r, e, progress, np)"
    by (metis prod_cases4)
  note n = seq_pass_inv [OF pass "1.prems"(2)]
  show ?case
    using "1.prems" "1.IH" [OF _ pass [symmetric] refl refl] n pass
    by (cases progress) (auto simp: resolve_sequences.simps [of pending] split: if_splits)
qed

lemma resolve_settles:
  assumes "resolve_sequences pending k reg entries = (reg', entries')"
  shows "(\<forall>m. entries m \<noteq> None \<longrightarrow> entries' m \<noteq> None)
     \<and> (\<forall>x \<in> set pending. entries' (fst x) \<noteq> None \<or> compile_steps reg' (snd x) = None)"
  using assms
proof (induction pending k reg entries rule: resolve_sequences.induct)
  case (1 pending k reg entries)
  obtain r e progress np where pass: "seq_pass pending reg entries False [] = (r, e, progress, np)"
    by (metis prod_cases4)
  note n = seq_pass_settles [OF pass]
  show ?case
  proof (cases progress)
    case True
    have "pending = [] \<and> e = entries \<and> entries' = entries \<or> (\<forall>m. e m \<noteq> None \<longrightarrow> entries' m \<noteq> None)
        \<and> (\<forall>x \<in> set np. entries' (fst x) \<noteq> None \<or> compile_steps reg' (snd x) = None)"
      using "1.prems" "1.IH"(1) [OF _ pass [symmetric] refl refl True] pass True
      by (auto simp: resolve_sequences.simps [of pending] split: if_splits)
    with n show ?thesis by fastforce
  next
    case False
    with "1.prems" "1.IH"(2) [OF _ pass [symmetric] refl refl] seq_pass_idle [of pending reg entries False "[]" r e np] pass
    show ?thesis by (auto simp: resolve_sequences.simps [of pending] split: if_splits)
  qed
qed

text \<open>C30: Whatever the order of the configuration, the start builds exactly the sequences whose steps
  all lead to plugins that exist; each entry point has the steps of its sequence, in their order and with
  their conditions, and the plugins and sequences they name; and it ends.\<close>

theorem sequences_resolved:
  assumes "distinct (map fst seqs)" and "resolve_sequences seqs 0 base Map.empty = (reg, entries)"
  shows "(entries n \<noteq> None \<longleftrightarrow> buildable base seqs n)
     \<and> (\<forall>p. entries n = Some p \<longrightarrow> built_from base entries seqs n p)"
proof -
  have inv: "seq_inv base seqs reg entries"
    by (rule resolve_inv [OF assms(2)]) (use assms(1) in \<open>simp_all add: seq_inv_def waiting_def\<close>)
  have "entries m \<noteq> None" if "buildable base seqs m" for m
    using that
  proof induction
    case (1 m steps)
    then have "compile_steps reg steps \<noteq> None"
      using inv by (auto simp: compile_steps_None seq_inv_def)
    then show ?case using resolve_settles [OF assms(2)] 1(1) by fastforce
  qed
  with inv show ?thesis by (auto simp: seq_inv_def)
qed

section \<open>What a configuration cannot break\<close>

text \<open>Without a fallback that is always in standby and a smart resolver without upstreams, everything
  that is built is safe.\<close>

fun conf_safe :: "plugin_type \<Rightarrow> bool" where
  "conf_safe (FallbackConf primary secondary threshold always_standby) \<longleftrightarrow> \<not> always_standby"
| "conf_safe (SmartResolveConf confs timeout_ms port max_ips) \<longleftrightarrow> confs \<noteq> []"
| "conf_safe _ \<longleftrightarrow> True"

definition confs_safe :: "config \<Rightarrow> bool" where
  "confs_safe config \<longleftrightarrow> list_all (\<lambda>(name, p_conf). conf_safe p_conf) (cf_plugins config)"

definition registry_safe :: "registry \<Rightarrow> bool" where
  "registry_safe reg \<longleftrightarrow> (\<forall>n. pred_option plugin_safe (reg n))"

lemma registry_safe_upd [intro]: "registry_safe reg \<Longrightarrow> plugin_safe p \<Longrightarrow> registry_safe (reg(n \<mapsto> p))"
  by (simp add: registry_safe_def)

lemma registry_safe_get: "registry_safe reg \<Longrightarrow> reg n = Some p \<Longrightarrow> plugin_safe p"
  unfolding registry_safe_def by (metis option.pred_inject(2))

lemma collect_length: "collect f xs = Inr ys \<Longrightarrow> length ys = length xs"
  by (induction xs arbitrary: ys) (auto simp: collect_def andthen_eq_Inr)

lemma smart_resolve_new_upstreams:
  "smart_resolve_new L NL confs t port n = Inr p \<Longrightarrow> sr_upstreams p = [] \<longleftrightarrow> confs = []"
  by (auto simp: smart_resolve_new_def andthen_eq_Inr dest: collect_length)

lemma create_shared_safe:
  assumes "create_shared H filt xdp p_conf f = (Some p, f')" and "conf_safe p_conf"
  shows "plugin_safe p"
  using assms
  by (cases p_conf) (auto simp: create_shared_def Let_def smart_resolve_new_upstreams split: option.splits sum.splits if_splits)

lemma fold_invariant_list:
  "I s \<Longrightarrow> list_all P xs \<Longrightarrow> (\<And>x s. P x \<Longrightarrow> I s \<Longrightarrow> I (g x s)) \<Longrightarrow> I (fold g xs s)"
  by (induction xs arbitrary: s) auto

lemma create_shared_plugins_safe:
  assumes "create_shared_plugins H filt config f = (shared, f')" and "confs_safe config"
  shows "registry_safe shared"
proof -
  have "registry_safe (fst (fold (\<lambda>(name, p_conf) (reg, f).
      case create_shared H filt b p_conf f of (Some p, f) \<Rightarrow> (reg(name \<mapsto> p), f) | (None, f) \<Rightarrow> (reg, f))
    (cf_plugins config) (Map.empty, f)))" for b
    by (rule fold_invariant_list [where I = "\<lambda>s. registry_safe (fst s)" and P = "\<lambda>(name, p_conf). conf_safe p_conf"])
      (use assms(2) create_shared_safe in \<open>auto simp: confs_safe_def registry_safe_def split: prod.splits option.splits\<close>)
  from this [of "case cf_xdp_cache config of Some b \<Rightarrow> b | None \<Rightarrow> True"] assms(1)
  show ?thesis by (simp add: create_shared_plugins_def Let_def)
qed

lemma compile_steps_safe:
  assumes "registry_safe reg" and "compile_steps reg steps = Some compiled"
  shows "plugin_safe (PSequence compiled known)"
proof -
  have "\<forall>(conds, p) \<in> set compiled. plugin_safe p"
    using assms by (induction reg steps arbitrary: compiled rule: compile_steps.induct)
      (fastforce split: option.splits dest: registry_safe_get)+
  then show ?thesis by simp
qed

lemma seq_pass_safe:
  assumes "seq_pass pending reg entries progress np = (reg', entries', progress', np')"
    and "registry_safe reg" and "registry_safe entries"
  shows "registry_safe reg' \<and> registry_safe entries'"
  using assms
proof (induction pending reg entries progress np rule: seq_pass.induct)
  case (2 n steps pending reg entries progress np)
  show ?case
  proof (cases "compile_steps reg steps")
    case (Some compiled)
    note p = compile_steps_safe [OF "2.prems"(2) Some, of reg]
    have "seq_pass pending (reg(n \<mapsto> PSequence compiled reg)) (entries(n \<mapsto> PSequence compiled reg)) True np
        = (reg', entries', progress', np')" using "2.prems"(1) Some by (simp add: Let_def)
    from "2.IH"(2) [OF Some refl this registry_safe_upd registry_safe_upd] "2.prems" p show ?thesis by blast
  qed (use 2 in simp)
qed simp

lemma resolve_safe:
  assumes "resolve_sequences pending k reg entries = (reg', entries')" and "registry_safe reg" and "registry_safe entries"
  shows "registry_safe entries'"
  using assms
proof (induction pending k reg entries rule: resolve_sequences.induct)
  case (1 pending k reg entries)
  obtain r e progress np where pass: "seq_pass pending reg entries False [] = (r, e, progress, np)"
    by (metis prod_cases4)
  show ?case
    using "1.prems" "1.IH" [OF _ pass [symmetric] refl refl] seq_pass_safe [OF pass] pass
    by (cases progress) (auto simp: resolve_sequences.simps [of pending] split: if_splits)
qed

lemma create_runtime_safe: "registry_safe (fst st) \<Longrightarrow> registry_safe (fst (create_runtime H ps d entry st))"
  by (auto simp: create_runtime_def Let_def split: prod.splits plugin_type.splits option.splits)

lemma create_fallback_safe:
  "(\<lambda>(name, p_conf). conf_safe p_conf) entry \<Longrightarrow> registry_safe reg \<Longrightarrow> registry_safe (create_fallback entry reg)"
  by (auto simp: create_fallback_def split: prod.splits plugin_type.splits option.splits
      intro!: registry_safe_upd dest: registry_safe_get)

lemma create_runtime_registry_safe:
  assumes "create_runtime_registry H ps d order config shared f = (data, f')"
    and "registry_safe shared" and "confs_safe config"
  shows "registry_safe (rg_entry_points data)"
proof -
  obtain reg f1 where run: "fold (create_runtime H ps d) (cf_plugins config) (shared, f) = (reg, f1)" by fastforce
  obtain reg' entries where res: "resolve_sequences (cf_sequences config) 0 (fold create_fallback (cf_plugins config) reg) Map.empty
      = (reg', entries)" by fastforce
  have "registry_safe (fst (fold (create_runtime H ps d) (cf_plugins config) (shared, f)))"
    by (rule fold_invariant_list [where I = "\<lambda>s. registry_safe (fst s)" and P = "\<lambda>_. True"])
      (use assms(2) create_runtime_safe in \<open>auto simp: list_all_iff\<close>)
  then have "registry_safe (fold create_fallback (cf_plugins config) reg)"
    using assms(3) run create_fallback_safe
    by (intro fold_invariant_list [where I = registry_safe and P = "\<lambda>(name, p_conf). conf_safe p_conf"])
      (auto simp: confs_safe_def)
  with resolve_safe [OF res] have "registry_safe entries" by (simp add: registry_safe_def)
  moreover have "rg_entry_points data = entries"
    using assms(1) run res by (auto simp: create_runtime_registry_def Let_def)
  ultimately show ?thesis by simp
qed


section \<open>What a reload does not see\<close>

text \<open>The plugins that only the start creates.\<close>

fun shared_kind :: "plugin_type \<Rightarrow> bool" where
  "shared_kind (ForwardConf C) \<longleftrightarrow> False"
| "shared_kind (SmartForwardConf C) \<longleftrightarrow> False"
| "shared_kind (FallbackConf primary secondary threshold always_standby) \<longleftrightarrow> False"
| "shared_kind _ \<longleftrightarrow> True"

definition without_shared :: "config \<Rightarrow> config" where
  "without_shared config = config\<lparr>cf_plugins := filter (\<lambda>(name, p_conf). \<not> shared_kind p_conf) (cf_plugins config)\<rparr>"

lemma create_skips:
  "shared_kind p_conf \<Longrightarrow> create_runtime H ps d (name, p_conf) st = st"
  "shared_kind p_conf \<Longrightarrow> create_fallback (name, p_conf) reg = reg"
  "\<not> shared_kind p_conf \<Longrightarrow> create_shared H filt xdp p_conf f = (None, f)"
  by (cases p_conf; simp add: create_runtime_def create_fallback_def create_shared_def Let_def split: prod.split)+

lemma fold_skips: "(\<And>x s. \<not> P x \<Longrightarrow> g x s = s) \<Longrightarrow> fold g (filter P xs) s = fold g xs s"
  by (induction xs arbitrary: s) auto

lemma runtime_ignores_shared:
  "create_runtime_registry H ps d order (without_shared config) shared f = create_runtime_registry H ps d order config shared f"
proof -
  have "fold (create_runtime H ps d) (cf_plugins (without_shared config)) st = fold (create_runtime H ps d) (cf_plugins config) st"
    and "fold create_fallback (cf_plugins (without_shared config)) reg = fold create_fallback (cf_plugins config) reg" for st reg
    by (auto simp: without_shared_def create_skips intro!: fold_skips)
  then show ?thesis by (simp add: create_runtime_registry_def without_shared_def)
qed

lemma reload_ignores_shared:
  "reload_config H ps d order shared sha first again (Inr (without_shared config)) s
     = reload_config H ps d order shared sha first again (Inr config) s"
  by (simp add: reload_config_def runtime_ignores_shared Let_def)

text \<open>Every version of the entry points after the first has the number 1.\<close>

lemma reload_version:
  "reload_config H ps d order shared sha first again loaded s = s
     \<or> hr_version (ss_reload (reload_config H ps d order shared sha first again loaded s)) = 1"
  by (auto simp: reload_config_def hr_version_def hr_update_def Let_def split: sum.split prod.split)

definition only_shared :: "string \<Rightarrow> config \<Rightarrow> bool" where
  "only_shared m config \<longleftrightarrow> list_all (\<lambda>(name, p_conf). name = m \<longrightarrow> shared_kind p_conf) (cf_plugins config)"

lemma runtime_registry_None:
  assumes "shared m = None" and "only_shared m config"
  shows "fold create_fallback (cf_plugins config) (fst (fold (create_runtime H ps d) (cf_plugins config) (shared, f))) m = None"
proof -
  let ?P = "\<lambda>(name, p_conf). name = m \<longrightarrow> shared_kind p_conf"
  have "fst (fold (create_runtime H ps d) (cf_plugins config) (shared, f)) m = None"
    by (rule fold_invariant_list [where I = "\<lambda>s. fst s m = None" and P = ?P])
      (use assms in \<open>auto simp: only_shared_def create_runtime_def Let_def split: prod.splits plugin_type.splits option.splits\<close>)
  then show ?thesis
    by (rule fold_invariant_list [where I = "\<lambda>reg. reg m = None" and P = ?P])
      (use assms in \<open>auto simp: only_shared_def create_fallback_def split: prod.splits plugin_type.splits option.splits\<close>)
qed

text \<open>A reload loses the entry points that use a plugin which the new configuration adds, unless it
  is a forwarder or a fallback: the plugin is not created, and every sequence with a step that names
  it is dropped, so its queries have no entry point any more.\<close>

lemma reload_loses_entry:
  assumes "distinct (map fst (cf_sequences config))"
    and "(n, steps) \<in> set (cf_sequences config)" and "s \<in> set steps"
    and "shared (st_exec s) = None" and "only_shared (st_exec s) config"
    and "st_exec s \<notin> set (map fst (cf_sequences config))"
    and "compute_file_hash sha first \<noteq> Some (ss_hash st)"
  shows "hr_get_entry n (ss_reload (reload_config H ps d order shared sha first again (Inr config) st)) = None"
proof -
  let ?seqs = "cf_sequences config"
  obtain reg f1 where run: "fold (create_runtime H ps d) (cf_plugins config) (shared, ss_factory st) = (reg, f1)" by fastforce
  let ?base = "fold create_fallback (cf_plugins config) reg"
  obtain reg' entries where res: "resolve_sequences ?seqs 0 ?base Map.empty = (reg', entries)" by fastforce
  have base: "?base (st_exec s) = None" using runtime_registry_None [of shared, OF assms(4,5)] run by (metis fst_conv)
  have "\<not> buildable ?base ?seqs n"
  proof
    assume "buildable ?base ?seqs n"
    then obtain steps' where "(n, steps') \<in> set ?seqs"
        and ok: "\<And>s. s \<in> set steps' \<Longrightarrow> ?base (st_exec s) \<noteq> None \<or> buildable ?base ?seqs (st_exec s)"
      by (cases rule: buildable.cases) blast
    with assms(1,2) have "steps' = steps" by (metis eq_key_imp_eq_value)
    with ok assms(3) base have "buildable ?base ?seqs (st_exec s)" by blast
    then show False by (cases rule: buildable.cases) (use assms(6) in force)
  qed
  then have "entries n = None" using sequences_resolved [OF assms(1) res, of n] by simp
  then show ?thesis
    using assms(7) run res by (simp add: reload_config_def create_runtime_registry_def hr_get_entry_def hr_update_def Let_def)
qed

section \<open>The order of fallbacks\<close>

text \<open>A fallback on another one is only built when the iteration meets the other one first.\<close>

lemma fallback_order:
  assumes "reg ''a'' = Some p" and "reg ''x'' = None" and "reg ''y'' = None"
  defines "x \<equiv> (''x'', FallbackConf ''a'' ''a'' 400 False)" and "y \<equiv> (''y'', FallbackConf ''x'' ''a'' 400 False)"
  shows "fold create_fallback [x, y] reg ''y'' \<noteq> None" and "fold create_fallback [y, x] reg ''y'' = None"
  using assms(1-3) by (simp_all add: x_def y_def create_fallback_def)

section \<open>A concrete configuration\<close>

definition sample_host :: host where
  "sample_host = \<lparr>ho_lib = sample_lib, ho_net = \<lparr>nl_parse_sock = (\<lambda>s. Some (V4 1, 53)), nl_resolve = (\<lambda>s. None)\<rparr>,
     ho_ipnet = env_ipnet sample_env, ho_text = (\<lambda>s. Inr ''''), ho_lines = (\<lambda>s. None), ho_bytes = (\<lambda>s. None),
     ho_geosite = (\<lambda>s. Inr []), ho_mmdb = (\<lambda>s. None), ho_log_file = (\<lambda>s. None), ho_learned = (\<lambda>s. None),
     ho_parse_v6 = (\<lambda>s. None), ho_parse_u8 = (\<lambda>s. None), ho_loaded = (\<lambda>p. []), ho_kernel = (0, True), ho_unix = 0\<rparr>"

definition sample_factory :: factory where
  "sample_factory = \<lparr>fa_world = sample_world, fa_ipmatchers = (\<lambda>i. ([], None)), fa_next = 0\<rparr>"

definition sample_seqs :: "named_sequence list" where
  "sample_seqs = [(''main'', [\<lparr>st_matches = [ByQtype [1]], st_exec = ''inner''\<rparr>]),
     (''lost'', [\<lparr>st_matches = [], st_exec = ''added''\<rparr>]), (''inner'', [\<lparr>st_matches = [], st_exec = ''deny''\<rparr>])]"

definition sample_config :: config where
  "sample_config = \<lparr>cf_plugins = [(''deny'', RejectConf ''nxdomain''), (''both'', FallbackConf ''deny'' ''deny'' 400 False)],
     cf_sequences = sample_seqs, cf_xdp_cache = None\<rparr>"

definition added_config :: config where
  "added_config = sample_config\<lparr>cf_plugins := (''added'', RejectConf ''noerror'') # cf_plugins sample_config\<rparr>"

lemma sample_shared: "create_shared_plugins sample_host None sample_config sample_factory = ([''deny'' \<mapsto> PReject RjNxDomain], sample_factory)"
  by (simp add: create_shared_plugins_def sample_config_def create_shared_def reject_type_of_def Let_def)

lemma sample_resolve:
  "\<exists>reg entries. resolve_sequences sample_seqs 0 [''deny'' \<mapsto> PReject RjNxDomain] Map.empty = (reg, entries)
     \<and> entries ''main'' \<noteq> None \<and> entries ''lost'' = None"
  by (simp add: sample_seqs_def resolve_sequences.simps Let_def)

theorem sequences_resolved_witness:
  "distinct (map fst sample_seqs) \<and> buildable [''deny'' \<mapsto> PReject RjNxDomain] sample_seqs ''main''
     \<and> \<not> buildable [''deny'' \<mapsto> PReject RjNxDomain] sample_seqs ''lost''"
proof -
  have d: "distinct (map fst sample_seqs)" by (simp add: sample_seqs_def)
  obtain reg entries where r: "resolve_sequences sample_seqs 0 [''deny'' \<mapsto> PReject RjNxDomain] Map.empty = (reg, entries)"
      "entries ''main'' \<noteq> None" "entries ''lost'' = None"
    using sample_resolve by blast
  with d r(2,3) sequences_resolved [OF d r(1), of "''main''"] sequences_resolved [OF d r(1), of "''lost''"] show ?thesis by blast
qed


lemma reload_loses_entry_witness:
  "hr_get_entry ''lost'' (ss_reload (reload_config sample_host True None [] [''deny'' \<mapsto> PReject RjNxDomain] id (Some [1]) None
     (Inr added_config) \<lparr>ss_hash = 0, ss_reload = sample_registry, ss_factory = sample_factory\<rparr>)) = None"
proof (rule reload_loses_entry)
  show "distinct (map fst (cf_sequences added_config))" by (simp add: added_config_def sample_config_def sample_seqs_def)
  show "(''lost'', [\<lparr>st_matches = [], st_exec = ''added''\<rparr>]) \<in> set (cf_sequences added_config)"
    by (simp add: added_config_def sample_config_def sample_seqs_def)
  show "\<lparr>st_matches = [], st_exec = ''added''\<rparr> \<in> set [\<lparr>st_matches = [], st_exec = ''added''\<rparr>]" by simp
  show "only_shared (st_exec \<lparr>st_matches = [], st_exec = ''added''\<rparr>) added_config"
    by (simp add: only_shared_def added_config_def sample_config_def)
  show "compute_file_hash id (Some [1]) \<noteq> Some (ss_hash \<lparr>ss_hash = 0, ss_reload = sample_registry, ss_factory = sample_factory\<rparr>)"
    by (simp add: compute_file_hash_def from_le_def)
qed (simp_all add: added_config_def sample_config_def sample_seqs_def)

end
