(* ===== verification/Config_Watch.thy ===== *)
theory Config_Watch
  imports Plugin_Factory
begin

text \<open>
  \<open>src/config_watcher.rs\<close> and its use in \<open>src/main.rs\<close>: from a change of the configuration file to the turn
  of the main loop that reloads it.

  Events of the directory go through a channel of one place that drops what does not fit, a
  filter for the name of the file, and a second channel of one place to the task that runs \<open>watch\<close>.  After
  a pause this task calls \<open>blocking_send\<close>, which is documented to panic in an asynchronous context, and a task of the
  runtime is one.  Its sender is dropped with it, and from then on \<open>recv\<close> returns \<open>None\<close> at once, which the loop
  takes for a change.  \<open>aborts\<close> tells the profile: a panic ends the process in the release profile of \<open>Cargo.toml\<close>,
  and the task in the others.
\<close>

record watch =
  cw_file :: bytes
  cw_events :: "bool option"
  cw_holding :: bool
  cw_token :: bool
  cw_alive :: bool
  cw_ended :: bool
  cw_server :: server_state
  cw_turns :: nat

text \<open>The file is written, another file of the directory changes, the thread takes an event, and sends it on
  if it is one of the file, the task calls back, the main loop takes a turn.\<close>

datatype watch_event = Write bytes | Elsewhere | Take | Pass | Call_Back | Turn

definition watch_new :: "bytes \<Rightarrow> server_state \<Rightarrow> watch" where
  "watch_new file st =
     \<lparr>cw_file = file, cw_events = None, cw_holding = False, cw_token = False, cw_alive = True, cw_ended = False,
      cw_server = st, cw_turns = 0\<rparr>"

definition try_send_event :: "bool \<Rightarrow> watch \<Rightarrow> watch" where
  "try_send_event matched s = (case cw_events s of None \<Rightarrow> s\<lparr>cw_events := Some matched\<rparr> | Some _ \<Rightarrow> s)"

fun watch_step :: "bool \<Rightarrow> (bytes \<Rightarrow> server_state \<Rightarrow> server_state) \<Rightarrow> watch_event \<Rightarrow> watch \<Rightarrow> watch option" where
  "watch_step aborts R (Write file) s = Some (try_send_event True (s\<lparr>cw_file := file\<rparr>))"
| "watch_step aborts R Elsewhere s = Some (try_send_event False s)"
| "watch_step aborts R Take s =
     (case cw_events s of
        Some matched \<Rightarrow> if cw_holding s then None else Some (s\<lparr>cw_events := None, cw_holding := matched\<rparr>)
      | None \<Rightarrow> None)"
| "watch_step aborts R Pass s =
     (if cw_holding s \<and> \<not> (cw_alive s \<and> cw_token s)
      then Some (s\<lparr>cw_holding := False, cw_token := cw_alive s\<rparr>) else None)"
| "watch_step aborts R Call_Back s =
     (if cw_alive s \<and> cw_token s then Some (s\<lparr>cw_token := False, cw_alive := False, cw_ended := aborts\<rparr>) else None)"
| "watch_step aborts R Turn s =
     (if cw_alive s then None else Some (s\<lparr>cw_server := R (cw_file s) (cw_server s), cw_turns := cw_turns s + 1\<rparr>))"

fun watch_run :: "bool \<Rightarrow> (bytes \<Rightarrow> server_state \<Rightarrow> server_state) \<Rightarrow> watch_event list \<Rightarrow> watch \<Rightarrow> watch option" where
  "watch_run aborts R [] s = Some s"
| "watch_run aborts R (e # es) s =
     (if cw_ended s then None else Option.bind (watch_step aborts R e s) (watch_run aborts R es))"

text \<open>A turn reads the file, here the same content each time, and \<open>parse\<close> is the YAML parser.\<close>

definition main_turn ::
  "host \<Rightarrow> bool \<Rightarrow> u16 option \<Rightarrow> string list \<Rightarrow> registry \<Rightarrow> (bytes \<Rightarrow> bytes) \<Rightarrow> (bytes \<Rightarrow> config result)
     \<Rightarrow> bytes \<Rightarrow> server_state \<Rightarrow> server_state" where
  "main_turn H ps d order shared sha parse file =
     reload_config H ps d order shared sha (Some file) (Some file) (parse file)"

section \<open>The life of the watcher\<close>

lemma main_turn_again:
  "main_turn H ps d order shared sha parse file (main_turn H ps d order shared sha parse file st)
     = main_turn H ps d order shared sha parse file st"
  by (auto simp: main_turn_def reload_config_def compute_file_hash_def Let_def split: sum.split prod.split)

lemma try_send_event_fields [simp]:
  "cw_alive (try_send_event m s) = cw_alive s" "cw_server (try_send_event m s) = cw_server s"
  "cw_turns (try_send_event m s) = cw_turns s" "cw_file (try_send_event m s) = cw_file s"
  "cw_ended (try_send_event m s) = cw_ended s"
  by (simp_all add: try_send_event_def split: option.split)

lemma watch_run_alive:
  assumes "watch_run aborts R es s = Some s'" and "cw_ended s \<longleftrightarrow> \<not> cw_alive s \<and> aborts"
  shows "(cw_ended s' \<longleftrightarrow> \<not> cw_alive s' \<and> aborts)
     \<and> (Call_Back \<in> set es \<longrightarrow> \<not> cw_alive s') \<and> (\<not> cw_alive s \<longrightarrow> \<not> cw_alive s')
     \<and> (cw_alive s \<and> Call_Back \<notin> set es \<longrightarrow> cw_alive s' \<and> cw_server s' = cw_server s \<and> cw_turns s' = cw_turns s)"
  using assms
proof (induction es arbitrary: s)
  case (Cons e es)
  then obtain s1 where s1: "watch_step aborts R e s = Some s1" "watch_run aborts R es s1 = Some s'" "\<not> cw_ended s"
    by (auto simp: bind_eq_Some_conv split: if_splits)
  from s1(1,3) Cons.prems(2) have "cw_ended s1 \<longleftrightarrow> \<not> cw_alive s1 \<and> aborts"
    by (cases e) (auto split: option.splits if_splits)
  with s1 Cons.IH [OF s1(2)] Cons.prems(2) show ?case by (cases e) (auto split: option.splits if_splits)
qed simp

lemma turns_without_waiting:
  assumes "\<not> cw_alive s" and "\<not> cw_ended s"
  shows "\<exists>s'. watch_run aborts R (replicate n Turn) s = Some s' \<and> cw_turns s' = cw_turns s + n
     \<and> cw_server s' = (R (cw_file s) ^^ n) (cw_server s)"
  using assms
proof (induction n arbitrary: s)
  case (Suc n)
  with Suc.IH [of "s\<lparr>cw_server := R (cw_file s) (cw_server s), cw_turns := cw_turns s + 1\<rparr>"]
  show ?case by (simp add: funpow_swap1)
qed simp

text \<open>The first change of the file that reaches the watcher is the last: in the release profile it ends the
  server, otherwise the main loop never waits again and can take any number of turns without any further event, of
  which only the first can have an effect.  Before that it takes no turn at all.\<close>

lemma reload_kills:
  assumes "watch_run aborts (main_turn H ps d order shared sha parse) es (watch_new file st) = Some s"
  shows "if Call_Back \<notin> set es then cw_server s = st \<and> cw_turns s = 0
     else if aborts then cw_ended s
     else \<forall>n. \<exists>s'. watch_run aborts (main_turn H ps d order shared sha parse) (replicate (Suc n) Turn) s = Some s'
       \<and> cw_turns s' = cw_turns s + Suc n
       \<and> cw_server s' = main_turn H ps d order shared sha parse (cw_file s) (cw_server s)"
proof -
  let ?R = "main_turn H ps d order shared sha parse"
  note life = watch_run_alive [OF assms, unfolded watch_new_def, simplified]
  have "(?R f ^^ Suc n) st = ?R f st" for n f st
    by (induction n) (simp_all add: main_turn_again)
  with turns_without_waiting [of s aborts ?R "Suc n" for n] life show ?thesis by (cases "Call_Back \<in> set es") auto
qed

text \<open>A change can also be lost on its way: an event of another file that is still in the channel
  drops it.\<close>

lemma change_lost:
  assumes "watch_run aborts R [Elsewhere, Write new, Take] (watch_new file st) = Some s"
  shows "cw_file s = new" and "cw_events s = None" and "\<not> cw_holding s" and "\<not> cw_token s" and "cw_alive s"
  using assms by (auto simp: watch_new_def try_send_event_def)

section \<open>A concrete run\<close>

lemma reload_kills_witness:
  "\<exists>s s'. watch_run False (main_turn sample_host True None [] Map.empty id (\<lambda>bs. Inr sample_config)) [Write [1], Take, Pass, Call_Back]
       (watch_new [0] \<lparr>ss_hash = 0, ss_reload = sample_registry, ss_factory = sample_factory\<rparr>) = Some s
     \<and> watch_run False (main_turn sample_host True None [] Map.empty id (\<lambda>bs. Inr sample_config)) (replicate (Suc 9) Turn) s = Some s'
     \<and> cw_turns s' = 10"
proof -
  let ?R = "main_turn sample_host True None [] Map.empty id (\<lambda>bs. Inr sample_config)"
    and ?es = "[Write [1], Take, Pass, Call_Back]"
    and ?s0 = "watch_new [0] \<lparr>ss_hash = 0, ss_reload = sample_registry, ss_factory = sample_factory\<rparr>"
  obtain s where run: "watch_run False ?R ?es ?s0 = Some s" and turns: "cw_turns s = 0"
    by (simp add: watch_new_def try_send_event_def)
  have "\<forall>n. \<exists>s'. watch_run False ?R (replicate (Suc n) Turn) s = Some s' \<and> cw_turns s' = cw_turns s + Suc n
      \<and> cw_server s' = ?R (cw_file s) (cw_server s)"
    using reload_kills [OF run] by simp
  from this [rule_format, of 9] obtain s' where "watch_run False ?R (replicate (Suc 9) Turn) s = Some s'" "cw_turns s' = 10"
    using turns by auto
  with run show ?thesis by blast
qed

end
