(* ===== verification/Process.thy ===== *)
theory Process
  imports Config_Watch
begin

text \<open>
  \<open>src/main.rs\<close>: the start of the process, the tasks it starts, the way of a new configuration to the UDP
  workers, and the prefetch of names.

  Every UDP worker has a registry of its own, made of the plugins all share and of runtime plugins of its own; all other
  servers use that of the main task.  A reload goes to the workers through a broadcast channel of sixteen places.
\<close>

section \<open>Start\<close>

datatype protocol = Udp | Tcp | Doh | Doq | Dot

record server_conf =
  sc_protocol :: protocol
  sc_addr :: string
  sc_entry :: string
  sc_workers :: nat

text \<open>The sections of a configuration that the main task reads itself; \<open>sf_api\<close> is the address of the API.\<close>

record start_conf =
  sf_config :: config
  sf_servers :: "server_conf list"
  sf_api :: "string option"
  sf_log_enabled :: bool
  sf_log_max :: nat
  sf_blocked_limit :: nat

datatype task = Api_Task string | Udp_Worker nat server_conf | Stream_Server server_conf | Metrics_Task

record worker =
  wk_conf :: server_conf
  wk_reload :: hot_reload
  wk_next :: nat
  wk_running :: bool

record dns_instance =
  in_reload :: hot_reload
  in_tasks :: "task list"
  in_workers :: "worker list"
  in_prefetch :: "any_plugin option"

definition prefetch_plugin :: "start_conf \<Rightarrow> registry \<Rightarrow> registry \<Rightarrow> any_plugin option" where
  "prefetch_plugin conf plugins entries =
     (case plugins ''upstream_local'' of
        Some p \<Rightarrow> Some p
      | None \<Rightarrow> (case sf_servers conf of [] \<Rightarrow> None | s # _ \<Rightarrow> entries (sc_entry s)))"

definition num_workers :: "nat \<Rightarrow> server_conf \<Rightarrow> nat" where
  "num_workers cpus s = (if sc_workers s = 0 then cpus else sc_workers s)"

definition server_tasks :: "nat \<Rightarrow> registry \<Rightarrow> server_conf \<Rightarrow> task list" where
  "server_tasks cpus entries s =
     (if entries (sc_entry s) = None then []
      else if sc_protocol s = Udp then map (\<lambda>i. Udp_Worker i s) [0 ..< num_workers cpus s] else [Stream_Server s])"

text \<open>A worker ends at once when its own registry has no entry of the name.\<close>

definition start_worker ::
  "host \<Rightarrow> bool \<Rightarrow> u16 option \<Rightarrow> string list \<Rightarrow> config \<Rightarrow> registry \<Rightarrow> server_conf \<Rightarrow> factory \<Rightarrow> worker \<times> factory" where
  "start_worker H proxy_state discovered order config shared s f =
     (let (data, f) = create_runtime_registry H proxy_state discovered order config shared f;
          local_hot_reload = hr_new (rg_entry_points data)
      in (\<lparr>wk_conf = s, wk_reload = local_hot_reload, wk_next = 0,
           wk_running = (hr_get_entry (sc_entry s) local_hot_reload \<noteq> None)\<rparr>, f))"

fun start_workers ::
  "host \<Rightarrow> bool \<Rightarrow> u16 option \<Rightarrow> string list \<Rightarrow> config \<Rightarrow> registry \<Rightarrow> task list \<Rightarrow> factory \<Rightarrow> worker list \<times> factory" where
  "start_workers H proxy_state discovered order config shared [] f = ([], f)"
| "start_workers H proxy_state discovered order config shared (Udp_Worker i s # tasks) f =
     (let (w, f) = start_worker H proxy_state discovered order config shared s f;
          (ws, f) = start_workers H proxy_state discovered order config shared tasks f
      in (w # ws, f))"
| "start_workers H proxy_state discovered order config shared (_ # tasks) f =
     start_workers H proxy_state discovered order config shared tasks f"

definition start_instance ::
  "host \<Rightarrow> bool \<Rightarrow> u16 option \<Rightarrow> string list \<Rightarrow> nat \<Rightarrow> start_conf \<Rightarrow> registry \<Rightarrow> factory \<Rightarrow> dns_instance \<times> factory" where
  "start_instance H proxy_state discovered order cpus conf shared f =
     (let (data, f) = create_runtime_registry H proxy_state discovered order (sf_config conf) shared f;
          entries = rg_entry_points data;
          tasks = (case sf_api conf of Some http \<Rightarrow> [Api_Task http] | None \<Rightarrow> [])
                  @ concat (map (server_tasks cpus entries) (sf_servers conf)) @ [Metrics_Task];
          (ws, f) = start_workers H proxy_state discovered order (sf_config conf) shared tasks f
      in (\<lparr>in_reload = hr_new entries, in_tasks = tasks, in_workers = ws,
           in_prefetch = prefetch_plugin conf (rg_plugins data) entries\<rparr>, f))"

text \<open>\<open>discover\<close> is the port that the discovery of sing-box finds; its monitor sets the state of the proxy later.
  A configuration that cannot be loaded ends the process.\<close>

record process =
  ps_shared :: registry
  ps_instance :: dns_instance
  ps_updates :: "config list"
  ps_state :: server_state
  ps_proxy :: bool
  ps_port :: "u16 option"

definition main_start ::
  "host \<Rightarrow> (start_conf \<Rightarrow> u16 option) \<Rightarrow> bpf_filter option \<Rightarrow> string list \<Rightarrow> nat \<Rightarrow> (bytes \<Rightarrow> bytes) \<Rightarrow> bytes option
     \<Rightarrow> start_conf result \<Rightarrow> factory \<Rightarrow> process option" where
  "main_start H discover filt order cpus sha256 file loaded f =
     (case loaded of
        Inl e \<Rightarrow> None
      | Inr conf \<Rightarrow>
          let w = fa_world f;
              f = f\<lparr>fa_world := w\<lparr>w_log := init_query_log (sf_log_enabled conf) (sf_log_max conf) (w_log w),
                                w_stats := set_blocked_limit (sf_blocked_limit conf) (w_stats w)\<rparr>\<rparr>;
              last_config_hash = (case compute_file_hash sha256 file of Some h \<Rightarrow> h | None \<Rightarrow> 0);
              port = discover conf;
              proxy_state = (port = None);
              (shared, f) = create_shared_plugins H filt (sf_config conf) f;
              (inst, f) = start_instance H proxy_state port order cpus conf shared f
          in Some \<lparr>ps_shared = shared, ps_instance = inst, ps_updates = [],
                   ps_state = \<lparr>ss_hash = last_config_hash, ss_reload = in_reload inst, ss_factory = f\<rparr>,
                   ps_proxy = proxy_state, ps_port = port\<rparr>)"

section \<open>Reloads\<close>

text \<open>The main task sends a configuration that it loads to the workers before it makes its own registry.\<close>

definition main_reload ::
  "host \<Rightarrow> string list \<Rightarrow> (bytes \<Rightarrow> bytes) \<Rightarrow> bytes option \<Rightarrow> bytes option \<Rightarrow> config result \<Rightarrow> process \<Rightarrow> process" where
  "main_reload H order sha256 first again loaded s =
     (let st = reload_config H (ps_proxy s) (ps_port s) order (ps_shared s) sha256 first again loaded (ps_state s) in
      if compute_file_hash sha256 first = Some (ss_hash (ps_state s)) then s
      else case loaded of
             Inl e \<Rightarrow> s
           | Inr new_config \<Rightarrow> s\<lparr>ps_updates := ps_updates s @ [new_config], ps_state := st\<rparr>)"

definition channel_capacity :: nat where
  "channel_capacity = 16"

text \<open>One \<open>recv\<close> of a worker: it is told that it lags and goes on with the oldest value that is kept, or gets the
  next value; it waits when there is none.\<close>

datatype received = Lagged nat | Received config nat | Waiting

definition broadcast_recv :: "config list \<Rightarrow> nat \<Rightarrow> received" where
  "broadcast_recv sent k =
     (if k + channel_capacity < length sent then Lagged (length sent - channel_capacity)
      else if k < length sent then Received (sent ! k) (k + 1)
      else Waiting)"

definition worker_turn :: "host \<Rightarrow> string list \<Rightarrow> nat \<Rightarrow> process \<Rightarrow> process" where
  "worker_turn H order i s =
     (let inst = ps_instance s; w = in_workers inst ! i in
      if \<not> (i < length (in_workers inst) \<and> wk_running w) then s
      else case broadcast_recv (ps_updates s) (wk_next w) of
             Waiting \<Rightarrow> s
           | Lagged k \<Rightarrow> s\<lparr>ps_instance := inst\<lparr>in_workers := (in_workers inst)[i := w\<lparr>wk_next := k\<rparr>]\<rparr>\<rparr>
           | Received new_config k \<Rightarrow>
               let (data, f) = create_runtime_registry H (ps_proxy s) (ps_port s) order new_config (ps_shared s)
                                 (ss_factory (ps_state s));
                   w = w\<lparr>wk_next := k, wk_reload := hr_update (rg_entry_points data) 1 (wk_reload w)\<rparr>
               in s\<lparr>ps_instance := inst\<lparr>in_workers := (in_workers inst)[i := w]\<rparr>,
                    ps_state := (ps_state s)\<lparr>ss_factory := f\<rparr>\<rparr>)"

text \<open>The server task of a worker can end; its loop ends with it.\<close>

definition worker_stops :: "nat \<Rightarrow> process \<Rightarrow> process" where
  "worker_stops i s =
     (let inst = ps_instance s in
      s\<lparr>ps_instance := inst\<lparr>in_workers := (in_workers inst)[i := (in_workers inst ! i)\<lparr>wk_running := False\<rparr>]\<rparr>\<rparr>)"

inductive process_step :: "host \<Rightarrow> (bytes \<Rightarrow> bytes) \<Rightarrow> process \<Rightarrow> process \<Rightarrow> bool" for H sha256 where
  Reload: "process_step H sha256 s (main_reload H order sha256 first again loaded s)"
| Worker_Turn: "process_step H sha256 s (worker_turn H order i s)"
| Worker_Stops: "i < length (in_workers (ps_instance s)) \<Longrightarrow> process_step H sha256 s (worker_stops i s)"

section \<open>Prefetch\<close>

definition prefetch_request :: "dns_lib \<Rightarrow> string \<Rightarrow> u16 \<Rightarrow> message" where
  "prefetch_request L name record_type =
     add_query \<lparr>q_name = name, q_type = record_type, q_class = 1\<rparr>
       ((lib_new L)\<lparr>m_id := 0xBEEF, m_type := QueryMsg, m_opcode := OpQuery, m_rd := True\<rparr>)"

text \<open>What a handler returns is dropped; a panic ends the task.\<close>

fun prefetch_types :: "penv \<Rightarrow> any_plugin \<Rightarrow> string \<Rightarrow> u16 list \<Rightarrow> world \<Rightarrow> world" where
  "prefetch_types E entry domain [] w = w"
| "prefetch_types E entry domain (record_type # rest) w =
     (case lib_name_from_ascii (env_lib E) domain of
        None \<Rightarrow> w
      | Some name \<Rightarrow>
          (case any_handle E entry
                  (ctx_new (prefetch_request (env_lib E) name record_type) (V4 0x7F000001, 0) (w_clock w)) w of
             (Inl Panic, w) \<Rightarrow> w
           | (_, w) \<Rightarrow> prefetch_types E entry domain rest w))"

definition prefetcher :: "penv \<Rightarrow> bool \<Rightarrow> any_plugin \<Rightarrow> string \<Rightarrow> world \<Rightarrow> world" where
  "prefetcher E prefetch_aaaa entry domain w =
     (if domain = [] then w
      else prefetch_types E entry domain (if prefetch_aaaa then [T_A, T_AAAA] else [T_A]) w)"

text \<open>The value of the environment variable \<open>TITANDNS_PREFETCH_AAAA\<close>.\<close>

definition prefetch_aaaa :: "string option \<Rightarrow> bool" where
  "prefetch_aaaa var =
     (case var of
        None \<Rightarrow> True
      | Some v \<Rightarrow> to_lower (trim v) \<notin> {''0'', ''false'', ''no'', ''off''})"

section \<open>Every server follows the configuration\<close>

definition serves :: "host \<Rightarrow> process \<Rightarrow> config \<Rightarrow> hot_reload \<Rightarrow> bool" where
  "serves H s config h \<longleftrightarrow> (\<exists>order f. entry_points (hr_registry h)
     = rg_entry_points (fst (create_runtime_registry H (ps_proxy s) (ps_port s) order config (ps_shared s) f)))"

abbreviation workers :: "process \<Rightarrow> worker list" where
  "workers s \<equiv> in_workers (ps_instance s)"

abbreviation history :: "start_conf \<Rightarrow> process \<Rightarrow> config list" where
  "history conf s \<equiv> sf_config conf # ps_updates s"

definition follows :: "host \<Rightarrow> start_conf \<Rightarrow> process \<Rightarrow> worker \<Rightarrow> bool" where
  "follows H conf s w \<longleftrightarrow> wk_next w \<le> length (ps_updates s)
     \<and> (\<exists>k \<le> wk_next w. serves H s (history conf s ! k) (wk_reload w))
     \<and> (wk_next w = length (ps_updates s) \<longrightarrow> serves H s (last (history conf s)) (wk_reload w))"

definition process_inv :: "host \<Rightarrow> start_conf \<Rightarrow> process \<Rightarrow> bool" where
  "process_inv H conf s \<longleftrightarrow> serves H s (last (history conf s)) (ss_reload (ps_state s)) \<and> list_all (follows H conf s) (workers s)"

lemma serves_cong:
  "ps_shared s' = ps_shared s \<Longrightarrow> ps_proxy s' = ps_proxy s \<Longrightarrow> ps_port s' = ps_port s \<Longrightarrow> serves H s' = serves H s"
  by (intro ext) (simp add: serves_def)

lemma entry_points_update [simp]: "entry_points (hr_registry (hr_update entries v h)) = entries"
  "entry_points (hr_registry (hr_new entries)) = entries"
  by (simp_all add: hr_update_def hr_new_def)

lemma serves_built:
  assumes "create_runtime_registry H (ps_proxy s) (ps_port s) order config (ps_shared s) f = (data, f')"
  shows "serves H s config (hr_update (rg_entry_points data) v h)" "serves H s config (hr_new (rg_entry_points data))"
  unfolding serves_def entry_points_update using assms by (metis fst_conv)+

lemma follows_cong:
  assumes "ps_shared s' = ps_shared s" "ps_proxy s' = ps_proxy s" "ps_port s' = ps_port s" "ps_updates s' = ps_updates s"
  shows "follows H conf s' w = follows H conf s w"
  using assms(4) by (simp add: follows_def serves_cong [OF assms(1-3)])

lemma follows_new:
  "ps_updates s = [] \<Longrightarrow> wk_next w = 0 \<Longrightarrow> serves H s (sf_config conf) (wk_reload w) \<Longrightarrow> follows H conf s w"
  by (simp add: follows_def)

lemma start_workers_serve:
  assumes "start_workers H (ps_proxy s) (ps_port s) order (sf_config conf) (ps_shared s) tasks f = (ws, f')"
    and "ps_updates s = []"
  shows "list_all (follows H conf s) ws"
  using assms
proof (induction tasks arbitrary: f ws f')
  case (Cons t tasks)
  show ?case
  proof (cases "\<exists>i sc. t = Udp_Worker i sc")
    case True
    then obtain i sc where t: "t = Udp_Worker i sc" by blast
    obtain data f1 where reg: "create_runtime_registry H (ps_proxy s) (ps_port s) order (sf_config conf) (ps_shared s) f
        = (data, f1)" by fastforce
    obtain ws' f2 where rest: "start_workers H (ps_proxy s) (ps_port s) order (sf_config conf) (ps_shared s) tasks f1 = (ws', f2)"
      by fastforce
    have "list_all (follows H conf s) ws'" using Cons.IH [OF rest Cons.prems(2)] .
    with Cons.prems t reg rest serves_built(2) [OF reg] show ?thesis
      by (auto simp: start_worker_def Let_def intro!: follows_new)
  next
    case False
    with Cons show ?thesis by (cases t) auto
  qed
qed simp

lemma main_start_inv:
  assumes "main_start H discover filt order cpus sha256 file (Inr conf) f = Some s"
  shows "process_inv H conf s"
proof -
  obtain f1 where s1: "main_start H discover filt order cpus sha256 file (Inr conf) f =
      (let port = discover conf; (shared, f) = create_shared_plugins H filt (sf_config conf) f1;
           (inst, f) = start_instance H (port = None) port order cpus conf shared f
       in Some \<lparr>ps_shared = shared, ps_instance = inst, ps_updates = [],
            ps_state = \<lparr>ss_hash = (case compute_file_hash sha256 file of Some h \<Rightarrow> h | None \<Rightarrow> 0),
              ss_reload = in_reload inst, ss_factory = f\<rparr>,
            ps_proxy = (port = None), ps_port = port\<rparr>)"
    by (simp add: main_start_def Let_def)
  obtain shared f2 where sh: "create_shared_plugins H filt (sf_config conf) f1 = (shared, f2)" by fastforce
  let ?port = "discover conf"
  obtain data f3 where reg: "create_runtime_registry H (?port = None) ?port order (sf_config conf) shared f2 = (data, f3)"
    by fastforce
  let ?tasks = "(case sf_api conf of Some http \<Rightarrow> [Api_Task http] | None \<Rightarrow> [])
    @ concat (map (server_tasks cpus (rg_entry_points data)) (sf_servers conf)) @ [Metrics_Task]"
  obtain ws f4 where ws: "start_workers H (?port = None) ?port order (sf_config conf) shared ?tasks f3 = (ws, f4)" by fastforce
  have f: "ps_updates s = []" "ps_proxy s = (?port = None)" "ps_port s = ?port" "ps_shared s = shared" "workers s = ws"
    "ss_reload (ps_state s) = hr_new (rg_entry_points data)"
    using assms [unfolded s1] sh reg ws by (auto simp: start_instance_def Let_def)
  from f(1-4) ws have "list_all (follows H conf s) ws"
    by (intro start_workers_serve [of H s order conf ?tasks f3 ws f4]) simp_all
  moreover have "serves H s (sf_config conf) (hr_new (rg_entry_points data))"
    using reg f(2-4) by (intro serves_built(2) [where f = f2 and f' = f3 and order = order]) simp
  ultimately show ?thesis using f(1,5,6) by (simp add: process_inv_def)
qed

lemma follows_send:
  assumes "follows H conf s w"
    and "ps_shared s' = ps_shared s" "ps_proxy s' = ps_proxy s" "ps_port s' = ps_port s" "ps_updates s' = ps_updates s @ [c]"
  shows "follows H conf s' w"
proof -
  have "history conf s' ! k = history conf s ! k" if "k \<le> length (ps_updates s)" for k
    using that assms(5) by (simp add: nth_append nth_Cons split: nat.split)
  moreover have "serves H s' = serves H s" using assms(2-4) by (rule serves_cong)
  ultimately show ?thesis using assms(1,5) unfolding follows_def by (metis Suc_n_not_le_n le_SucI length_append_singleton le_trans)
qed

lemma main_reload_cases:
  obtains "main_reload H order sha256 first again loaded s = s"
  | c st where "main_reload H order sha256 first again loaded s = s\<lparr>ps_updates := ps_updates s @ [c], ps_state := st\<rparr>"
      "serves H s c (ss_reload st)"
proof (cases "compute_file_hash sha256 first = Some (ss_hash (ps_state s)) \<or> (\<exists>e. loaded = Inl e)")
  case True
  then have "main_reload H order sha256 first again loaded s = s" by (auto simp: main_reload_def Let_def)
  then show thesis by (rule that(1))
next
  case False
  then obtain c where c: "loaded = Inr c" by (cases loaded) auto
  obtain data f where reg: "create_runtime_registry H (ps_proxy s) (ps_port s) order c (ps_shared s) (ss_factory (ps_state s))
      = (data, f)" by fastforce
  let ?st = "reload_config H (ps_proxy s) (ps_port s) order (ps_shared s) sha256 first again loaded (ps_state s)"
  have "ss_reload ?st = hr_update (rg_entry_points data) 1 (ss_reload (ps_state s))"
    using False c reg by (simp add: reload_config_def Let_def)
  moreover have "main_reload H order sha256 first again loaded s = s\<lparr>ps_updates := ps_updates s @ [c], ps_state := ?st\<rparr>"
    using False c by (simp add: main_reload_def Let_def)
  ultimately show thesis using serves_built(1) [OF reg] that(2) by metis
qed

lemma main_reload_inv:
  assumes "process_inv H conf s"
  shows "process_inv H conf (main_reload H order sha256 first again loaded s)"
proof (cases rule: main_reload_cases [of H order sha256 first again loaded s])
  case (2 c st)
  let ?s = "s\<lparr>ps_updates := ps_updates s @ [c], ps_state := st\<rparr>"
  have "serves H ?s = serves H s" by (rule serves_cong) simp_all
  moreover have "follows H conf ?s w" if "follows H conf s w" for w
    using that by (rule follows_send) simp_all
  ultimately show ?thesis using assms 2 by (simp add: process_inv_def list_all_iff)
qed (simp add: assms)

lemma worker_turn_fields [simp]:
  "ps_updates (worker_turn H order i s) = ps_updates s" "ps_shared (worker_turn H order i s) = ps_shared s"
  "ps_proxy (worker_turn H order i s) = ps_proxy s" "ps_port (worker_turn H order i s) = ps_port s"
  "ss_reload (ps_state (worker_turn H order i s)) = ss_reload (ps_state s)"
  "length (workers (worker_turn H order i s)) = length (workers s)"
  by (simp_all add: worker_turn_def Let_def split: received.split prod.split)

lemma worker_turn_inv:
  assumes "process_inv H conf s"
  shows "process_inv H conf (worker_turn H order i s)"
proof -
  let ?w = "workers s ! i"
  have all: "list_all (follows H conf s) (workers (worker_turn H order i s))"
  proof (cases "i < length (workers s) \<and> wk_running ?w")
    case True
    with assms have w: "follows H conf s ?w" by (simp add: process_inv_def list_all_length)
    have upd: "list_all (follows H conf s) ((workers s)[i := w'])" if "follows H conf s w'" for w'
      using assms that by (auto simp: process_inv_def list_all_iff dest: set_update_subset_insert [THEN subsetD])
    show ?thesis
    proof (cases "broadcast_recv (ps_updates s) (wk_next ?w)")
      case (Lagged k)
      then have "wk_next ?w \<le> k" "k < length (ps_updates s)"
        by (auto simp: broadcast_recv_def channel_capacity_def split: if_splits)
      then have "follows H conf s (?w\<lparr>wk_next := k\<rparr>)" using w by (auto simp: follows_def intro: le_trans)
      with True Lagged upd show ?thesis by (simp add: worker_turn_def Let_def)
    next
      case (Received c k)
      then have k: "k = Suc (wk_next ?w)" "wk_next ?w < length (ps_updates s)" "c = ps_updates s ! wk_next ?w"
        by (auto simp: broadcast_recv_def split: if_splits)
      obtain data f where reg: "create_runtime_registry H (ps_proxy s) (ps_port s) order c (ps_shared s) (ss_factory (ps_state s))
          = (data, f)" by fastforce
      then have "serves H s c (hr_update (rg_entry_points data) 1 (wk_reload ?w))" by (rule serves_built(1))
      moreover have "last (history conf s) = c" if "k = length (ps_updates s)"
        using that k by (cases "ps_updates s" rule: rev_cases) auto
      moreover have "history conf s ! k = c" using k by simp
      ultimately have "follows H conf s (?w\<lparr>wk_next := k, wk_reload := hr_update (rg_entry_points data) 1 (wk_reload ?w)\<rparr>)"
        using k(1,2) by (auto simp: follows_def)
      with True Received reg upd show ?thesis by (simp add: worker_turn_def Let_def)
    next
      case Waiting
      with assms show ?thesis by (simp add: worker_turn_def Let_def process_inv_def)
    qed
  qed (use assms in \<open>auto simp: worker_turn_def Let_def process_inv_def\<close>)
  have "follows H conf (worker_turn H order i s) = follows H conf s" 
    by (rule ext, rule follows_cong) simp_all
  moreover have "serves H (worker_turn H order i s) = serves H s" by (rule serves_cong) simp_all
  ultimately show ?thesis using all assms by (simp add: process_inv_def)
qed

lemma worker_stops_inv: "process_inv H conf s \<Longrightarrow> i < length (workers s) \<Longrightarrow> process_inv H conf (worker_stops i s)"
  by (auto simp: process_inv_def worker_stops_def list_all_length nth_list_update follows_def serves_def Let_def)

lemma process_reachable_inv:
  assumes "main_start H discover filt order cpus sha256 file (Inr conf) f = Some s0" "(process_step H sha256)\<^sup>*\<^sup>* s0 s"
  shows "process_inv H conf s"
  using assms(2)
proof induction
  case (step s s')
  from step(2,3) show ?case
    by (cases rule: process_step.cases) (simp_all add: main_reload_inv worker_turn_inv worker_stops_inv)
qed (rule main_start_inv [OF assms(1)])

text \<open>A turn of a worker that has something to receive.\<close>

lemma worker_turn_advances:
  assumes "i < length (workers s)" "wk_running (workers s ! i)" "wk_next (workers s ! i) < length (ps_updates s)"
  shows "wk_running (workers (worker_turn H order i s) ! i)"
    and "wk_next (workers (worker_turn H order i s) ! i)
      = (if wk_next (workers s ! i) + 16 < length (ps_updates s) then length (ps_updates s) - 16
         else Suc (wk_next (workers s ! i)))"
  using assms
  by (auto simp: worker_turn_def Let_def broadcast_recv_def channel_capacity_def split: prod.split)

lemma worker_drains:
  assumes "i < length (workers s)" "wk_running (workers s ! i)" "wk_next (workers s ! i) + n = length (ps_updates s)" "n \<le> 16"
  shows "wk_next (workers ((worker_turn H order i ^^ n) s) ! i) = length (ps_updates s)"
  using assms
proof (induction n arbitrary: s)
  case (Suc n)
  let ?s = "worker_turn H order i s"
  have "wk_running (workers ?s ! i)" "wk_next (workers ?s ! i) = Suc (wk_next (workers s ! i))"
    using worker_turn_advances [of i s H order] Suc.prems by simp_all
  then have "wk_next (workers ((worker_turn H order i ^^ n) ?s) ! i) = length (ps_updates ?s)"
    using Suc.prems by (intro Suc.IH) simp_all
  then show ?case by (simp only: funpow_Suc_right comp_apply worker_turn_fields)
qed simp

lemma worker_catches_up:
  assumes "i < length (workers s)" "wk_running (workers s ! i)" "wk_next (workers s ! i) \<le> length (ps_updates s)"
  shows "\<exists>n \<le> 17. wk_next (workers ((worker_turn H order i ^^ n) s) ! i) = length (ps_updates s)"
proof (cases "wk_next (workers s ! i) + 16 < length (ps_updates s)")
  case True
  let ?s = "worker_turn H order i s"
  have "wk_running (workers ?s ! i)" "wk_next (workers ?s ! i) = length (ps_updates s) - 16"
    using worker_turn_advances [of i s H order] assms True by simp_all
  then have "wk_next (workers ((worker_turn H order i ^^ 16) ?s) ! i) = length (ps_updates ?s)"
    using assms(1) True by (intro worker_drains) simp_all
  then have "wk_next (workers ((worker_turn H order i ^^ Suc 16) s) ! i) = length (ps_updates s)"
    by (simp only: funpow_Suc_right comp_apply worker_turn_fields)
  then show ?thesis by (intro exI [of _ "Suc 16"]) simp
next
  case False
  then show ?thesis
    using worker_drains [of i s "length (ps_updates s) - wk_next (workers s ! i)" H order] assms
    by (intro exI [of _ "length (ps_updates s) - wk_next (workers s ! i)"]) simp
qed

lemma worker_turns_step: "(process_step H sha256)\<^sup>*\<^sup>* s ((worker_turn H order i ^^ n) s)"
  by (induction n) (auto intro: Worker_Turn rtranclp.rtrancl_into_rtrancl)

text \<open>C34: In every interleaving of reloads with the workers the main task serves the last configuration that was
  loaded, and a worker with nothing left to receive serves it too; every other worker that runs gets there, alone, in
  at most seventeen turns, however many configurations it missed.\<close>

theorem workers_follow:
  assumes "main_start H discover filt order cpus sha256 file (Inr conf) f = Some s0" "(process_step H sha256)\<^sup>*\<^sup>* s0 s"
  shows "serves H s (last (history conf s)) (ss_reload (ps_state s))
    \<and> (\<forall>i < length (workers s).
         (wk_next (workers s ! i) = length (ps_updates s) \<longrightarrow> serves H s (last (history conf s)) (wk_reload (workers s ! i)))
       \<and> (wk_running (workers s ! i) \<longrightarrow> (\<exists>n \<le> 17. let s' = (worker_turn H order' i ^^ n) s in
            ps_updates s' = ps_updates s \<and> serves H s' (last (history conf s)) (wk_reload (workers s' ! i)))))"
proof -
  note inv = process_reachable_inv [OF assms, unfolded process_inv_def list_all_length follows_def]
  have "\<exists>n \<le> 17. let s' = (worker_turn H order' i ^^ n) s in
      ps_updates s' = ps_updates s \<and> serves H s' (last (history conf s)) (wk_reload (workers s' ! i))"
    if i: "i < length (workers s)" "wk_running (workers s ! i)" for i
  proof -
    have fields: "ps_updates ((worker_turn H order' i ^^ n) s) = ps_updates s"
      "length (workers ((worker_turn H order' i ^^ n) s)) = length (workers s)" for n
      by (induction n) simp_all
    obtain n where n: "n \<le> 17" "wk_next (workers ((worker_turn H order' i ^^ n) s) ! i) = length (ps_updates s)"
      using worker_catches_up [OF i, of H order'] inv i(1) by auto
    have "(process_step H sha256)\<^sup>*\<^sup>* s0 ((worker_turn H order' i ^^ n) s)"
      using assms(2) worker_turns_step by (rule rtranclp_trans)
    note inv' = process_reachable_inv [OF assms(1) this, unfolded process_inv_def list_all_length follows_def]
    from inv' n i(1) fields [of n] show ?thesis by (intro exI [of _ n]) (simp add: Let_def)
  qed
  with inv show ?thesis by blast
qed

section \<open>What a prefetch leaves in the caches\<close>

text \<open>No entry of the first world's caches is new in the second's.\<close>

definition nothing_stored :: "world \<Rightarrow> world \<Rightarrow> bool" where
  "nothing_stored w w' \<longleftrightarrow> (\<forall>i. cp_cache (w_caches w' i) \<subseteq>\<^sub>m cp_cache (w_caches w i))"

lemma nothing_stored_refl [simp]: "nothing_stored w w"
  by (simp add: nothing_stored_def)

lemma nothing_stored_trans: "nothing_stored w1 w2 \<Longrightarrow> nothing_stored w2 w3 \<Longrightarrow> nothing_stored w1 w3"
  unfolding nothing_stored_def by (blast intro: map_le_trans)

lemma nothing_stored_same: "w_caches w' = w_caches w \<Longrightarrow> nothing_stored w w'"
  by (simp add: nothing_stored_def)

lemma cache_handle_stores_nothing:
  "cache_handle hook now p s c = Inr (c', p', s', job) \<Longrightarrow> cp_cache p' \<subseteq>\<^sub>m cp_cache p"
  by (auto simp: cache_handle_def cache_miss_def cache_evict_def andthen_eq_Inr map_le_def Let_def
      split: option.splits if_splits)

lemma block_stats_caches [simp]: "w_caches (block_stats E name w) = w_caches w"
  by (simp add: block_stats_def split: option.split)

lemma leaf_stores_nothing:
  assumes "leaf_handle E p c w = (r, w')"
  shows "nothing_stored w w'"
proof (cases p)
  case (PCache i)
  with assms show ?thesis
    by (auto simp: leaf_handle_def nothing_stored_def split: sum.splits dest: cache_handle_stores_nothing)
qed (use assms in \<open>auto simp: leaf_handle_def Let_def intro!: nothing_stored_same split: prod.splits sum.splits option.splits\<close>)

lemma check_match_caches: "check_match registry conds c w = (m, w') \<Longrightarrow> w_caches w' = w_caches w"
proof (induction conds arbitrary: w)
  case (Cons cond conds)
  obtain b w1 where b: "cond_match registry cond c w = (b, w1)" by fastforce
  then have "w_caches w1 = w_caches w"
    by (auto simp: cond_match_def split: match_condition.splits option.splits any_plugin.splits prod.splits)
  with b Cons show ?case by (auto split: if_splits)
qed simp

text \<open>What two plugins that run at the same time leave in the caches is not new either.\<close>

definition raced_stores_nothing :: "penv \<Rightarrow> bool" where
  "raced_stores_nothing E \<longleftrightarrow>
     (\<forall>w w1 w2. nothing_stored w w1 \<longrightarrow> nothing_stored w1 w2 \<longrightarrow> nothing_stored w (env_raced E w w1 w2))"

lemma pipeline_stores_nothing:
  "raced_stores_nothing E \<Longrightarrow> nothing_stored w (snd (any_handle E p c w))"
  "raced_stores_nothing E \<Longrightarrow> nothing_stored w (snd (run_steps E registry steps c w))"
proof (induction E p c w and E registry steps c w rule: any_handle_run_steps.induct)
  case (2 E primary secondary sb threshold c w)
  obtain r1 w1 where r1: "any_handle E primary c w = (r1, w1)" by fastforce
  obtain r2 w2 where r2: "any_handle E secondary c w1 = (r2, w2)" by fastforce
  have 1: "nothing_stored w w1" using "2.IH"(1) [OF "2.prems"] r1 by simp
  have 12: "nothing_stored w1 w2" using "2.IH"(2) [OF r1 [symmetric] refl "2.prems"] r2 by simp
  have "nothing_stored w (env_raced E w w1 w2)"
    using "2.prems" 1 12 unfolding raced_stores_nothing_def by blast
  with 1 nothing_stored_trans [OF 1 12] r1 r2 show ?case
    by (auto simp: fb_world_def Let_def split: list.split fb_turn.split bool.split)
next
  case (5 E registry conds p steps c w)
  obtain m w1 where m: "check_match registry conds c w = (m, w1)" by fastforce
  have 1: "nothing_stored w w1" using check_match_caches [OF m] by (rule nothing_stored_same)
  show ?case
  proof (cases m)
    case False
    with 5 m have "nothing_stored w1 (snd (run_steps E registry steps c w1))" by auto
    with 1 m False show ?thesis by (auto intro: nothing_stored_trans)
  next
    case True
    obtain r w2 where r: "any_handle E p c w1 = (r, w2)" by fastforce
    have 2: "nothing_stored w1 w2" using "5.IH"(2) [OF m [symmetric] refl _ "5.prems"] True r by simp
    have 3: "nothing_stored w2 (snd (run_steps E registry steps c' w2))" if "r = Inr c'" "\<not> ctx_abort c'" for c'
      using "5.IH"(3) [OF m [symmetric] refl _ r [symmetric, unfolded that(1)] refl that(2) "5.prems"] True by simp
    from m True r 1 2 3 show ?thesis
      by (auto intro: nothing_stored_trans split: sum.split)
  qed
qed (auto intro: leaf_stores_nothing [OF prod.collapse [symmetric]])

text \<open>A prefetch stores nothing: whatever the entry point is made of, the plugins alone never add or replace an
  entry of a cache, and the prefetch runs them without the hooks, of which the one that stores the answer is one.\<close>

lemma prefetch_stores_nothing:
  assumes "raced_stores_nothing E"
    and "cp_cache (w_caches (prefetcher E aaaa entry domain w) i) key = Some e"
  shows "cp_cache (w_caches w i) key = Some e"
proof -
  have types: "nothing_stored w (prefetch_types E entry domain ts w)" for ts w
  proof (induction ts arbitrary: w)
    case (Cons t ts)
    show ?case
    proof (cases "lib_name_from_ascii (env_lib E) domain")
      case (Some name)
      let ?c = "ctx_new (prefetch_request (env_lib E) name t) (V4 0x7F000001, 0) (w_clock w) :: pctx"
      obtain r w1 where r: "any_handle E entry ?c w = (r, w1)" by fastforce
      then have "nothing_stored w w1" using pipeline_stores_nothing(1) [OF assms(1), of w entry ?c] by simp
      then have "nothing_stored w (prefetch_types E entry domain ts w1)"
        using Cons.IH [of w1] by (rule nothing_stored_trans)
      with Some r \<open>nothing_stored w w1\<close> show ?thesis by (auto split: sum.split rust_error.split)
    qed simp
  qed simp
  then have "nothing_stored w (prefetcher E aaaa entry domain w)" by (simp add: prefetcher_def)
  with assms(2) show ?thesis unfolding nothing_stored_def map_le_def by (metis domI)
qed

section \<open>A concrete run\<close>

definition sample_start :: start_conf where
  "sample_start = \<lparr>sf_config = sample_config,
     sf_servers = [\<lparr>sc_protocol = Udp, sc_addr = ''127.0.0.1:53'', sc_entry = ''main'', sc_workers = 2\<rparr>],
     sf_api = None, sf_log_enabled = True, sf_log_max = 100, sf_blocked_limit = 100\<rparr>"

lemma sample_runs:
  obtains s0 where
    "main_start sample_host (\<lambda>conf. None) None [] 4 id None (Inr sample_start) f = Some s0"
    "length (workers s0) = 2" "wk_running (workers s0 ! 0)" "ps_updates s0 = []"
proof -
  have entry: "\<exists>data f' p. create_runtime_registry sample_host True None [] sample_config [''deny'' \<mapsto> PReject RjNxDomain] f = (data, f')
      \<and> rg_entry_points data ''main'' = Some p" for f
    by (auto simp: create_runtime_registry_def sample_config_def create_runtime_def create_fallback_def
        sample_seqs_def resolve_sequences.simps Let_def)
  have shared: "create_shared_plugins sample_host None sample_config f = ([''deny'' \<mapsto> PReject RjNxDomain], f)" for f
    by (simp add: create_shared_plugins_def sample_config_def create_shared_def reject_type_of_def Let_def)
  let ?f0 = "f\<lparr>fa_world := (fa_world f)\<lparr>w_log := init_query_log True 100 (w_log (fa_world f)),
      w_stats := set_blocked_limit 100 (w_stats (fa_world f))\<rparr>\<rparr>"
  obtain d0 f1 p0 where d0: "create_runtime_registry sample_host True None [] sample_config [''deny'' \<mapsto> PReject RjNxDomain] ?f0 = (d0, f1)"
    "rg_entry_points d0 ''main'' = Some p0" using entry by blast
  obtain d1 f2 p1 where d1: "create_runtime_registry sample_host True None [] sample_config [''deny'' \<mapsto> PReject RjNxDomain] f1 = (d1, f2)"
    "rg_entry_points d1 ''main'' = Some p1" using entry by blast
  obtain d2 f3 p2 where d2: "create_runtime_registry sample_host True None [] sample_config [''deny'' \<mapsto> PReject RjNxDomain] f2 = (d2, f3)"
    "rg_entry_points d2 ''main'' = Some p2" using entry by blast
  have "\<exists>s0. main_start sample_host (\<lambda>conf. None) None [] 4 id None (Inr sample_start) f = Some s0
      \<and> length (workers s0) = 2 \<and> wk_running (workers s0 ! 0) \<and> ps_updates s0 = []"
    using d0 d1 d2
    by (simp add: main_start_def sample_start_def shared start_instance_def start_worker_def server_tasks_def num_workers_def
        upt_rec hr_get_entry_def Let_def)
  then show thesis using that by blast
qed

theorem workers_follow_witness:
  "\<exists>s0 s. main_start sample_host (\<lambda>conf. None) None [] 4 id None (Inr sample_start) sample_factory = Some s0
     \<and> s = main_reload sample_host [] id (Some [1]) None (Inr added_config) s0
     \<and> ps_updates s = [added_config] \<and> wk_next (workers s ! 0) = 0
     \<and> (\<exists>n \<le> 17. serves sample_host ((worker_turn sample_host [] 0 ^^ n) s) added_config
          (wk_reload (workers ((worker_turn sample_host [] 0 ^^ n) s) ! 0)))"
proof -
  obtain s0 where s0: "main_start sample_host (\<lambda>conf. None) None [] 4 id None (Inr sample_start) sample_factory = Some s0"
      "length (workers s0) = 2" "wk_running (workers s0 ! 0)" "ps_updates s0 = []"
    by (rule sample_runs)
  have hash: "ss_hash (ps_state s0) = 0"
    using s0(1) by (auto simp: main_start_def compute_file_hash_def Let_def split: prod.splits)
  let ?s = "main_reload sample_host [] id (Some [1]) None (Inr added_config) s0"
  have "compute_file_hash id (Some [1]) \<noteq> Some 0" by code_simp
  then have s: "ps_updates ?s = [added_config]" "workers ?s = workers s0"
    using hash s0(4) by (simp_all add: main_reload_def Let_def)
  have "(process_step sample_host id)\<^sup>*\<^sup>* s0 ?s" by (intro r_into_rtranclp Reload)
  note all = workers_follow [OF s0(1) this, of "[]", THEN conjunct2, THEN spec [of _ 0], THEN mp]
  have "\<exists>n \<le> 17. let s' = (worker_turn sample_host [] 0 ^^ n) ?s in
      ps_updates s' = ps_updates ?s \<and> serves sample_host s' (last (history sample_start ?s)) (wk_reload (workers s' ! 0))"
    by (rule all [THEN conjunct2, THEN mp]) (use s0(2,3) s(2) in simp_all)
  then have "\<exists>n \<le> 17. serves sample_host ((worker_turn sample_host [] 0 ^^ n) ?s) added_config
        (wk_reload (workers ((worker_turn sample_host [] 0 ^^ n) ?s) ! 0))"
    by (auto simp: Let_def s(1))
  moreover have "wk_next (workers s0 ! 0) = 0"
    using process_reachable_inv [OF s0(1) rtranclp.rtrancl_refl] s0(2,4) by (simp add: process_inv_def list_all_length follows_def)
  ultimately show ?thesis using s0(1) s by auto
qed

lemma prefetch_stores_nothing_witness:
  "cp_cache (w_caches (prefetcher sample_env True (PReject RjNxDomain) ''a.''
      (sample_world\<lparr>w_caches := (\<lambda>i. cache_insert sample_key (ce_new_with_bytes 1000 sample_answer 60 []) sample_cache)\<rparr>)) 0) sample_key
     = Some (ce_new_with_bytes 1000 sample_answer 60 [])
   \<and> cp_cache (w_caches (sample_world\<lparr>w_caches := (\<lambda>i. cache_insert sample_key (ce_new_with_bytes 1000 sample_answer 60 []) sample_cache)\<rparr>) 0)
       sample_key = Some (ce_new_with_bytes 1000 sample_answer 60 [])"
proof -
  let ?e = "ce_new_with_bytes 1000 sample_answer 60 []"
  let ?w = "sample_world\<lparr>w_caches := (\<lambda>i. cache_insert sample_key ?e sample_cache)\<rparr>"
  have E: "raced_stores_nothing sample_env"
    by (auto simp: raced_stores_nothing_def sample_env_def intro: nothing_stored_trans)
  have "cp_cache (w_caches (prefetcher sample_env True (PReject RjNxDomain) ''a.'' ?w) 0) sample_key = Some ?e"
    by (simp add: prefetcher_def sample_env_def sample_lib_def leaf_handle_def cache_insert_def)
  with prefetch_stores_nothing [OF E this] show ?thesis by blast
qed

end
