(* ===== verification/Single_Flight.thy ===== *)
theory Single_Flight
  imports Titan_Prelude
begin

text \<open>
  \<open>src/core/singleflight.rs\<close> as a transition system.  A call of \<open>do_work\<close> is a
  task; its atomic steps are the lookup-or-insert in the table, the start of
  the work in an empty cell, the end of the work, the read of a filled cell,
  and the removal of the key from the table.  The tasks interleave freely, and
  a task may be dropped while it waits or works, as tokio does on a timeout; a
  dropped initialiser leaves its cell empty for the next waiter.  The result
  of the work is chosen by the environment.
\<close>

datatype 'r sf_cell = Empty | Running nat | Filled 'r

datatype ('k, 'r) sf_task =
    Idle
  | Waiting 'k nat
  | Working 'k nat
  | Reading 'k nat 'r
  | Finished 'k nat 'r
  | Dropped

record ('k, 'r) sf_state =
  inflight :: "'k \<rightharpoonup> nat"
  sf_cells :: "nat \<Rightarrow> 'r sf_cell"
  sf_fresh :: nat
  sf_tasks :: "nat \<Rightarrow> ('k, 'r) sf_task"

datatype ('k, 'r) sf_op =
    Enter nat 'k
  | Start nat
  | Finish nat 'r
  | Observe nat
  | Remove nat
  | Drop nat

definition sf_new :: "('k, 'r) sf_state" where
  "sf_new = \<lparr>inflight = Map.empty, sf_cells = (\<lambda>_. Empty), sf_fresh = 0, sf_tasks = (\<lambda>_. Idle)\<rparr>"

definition set_task :: "nat \<Rightarrow> ('k, 'r) sf_task \<Rightarrow> ('k, 'r) sf_state \<Rightarrow> ('k, 'r) sf_state" where
  "set_task t x s = s\<lparr>sf_tasks := (sf_tasks s)(t := x)\<rparr>"

definition set_cell :: "nat \<Rightarrow> 'r sf_cell \<Rightarrow> ('k, 'r) sf_state \<Rightarrow> ('k, 'r) sf_state" where
  "set_cell c x s = s\<lparr>sf_cells := (sf_cells s)(c := x)\<rparr>"

text \<open>The step of \<open>do_work\<close> that an operation stands for; \<open>None\<close> when the task is
  not at this step.\<close>

fun sf_step :: "('k, 'r) sf_op \<Rightarrow> ('k, 'r) sf_state \<Rightarrow> ('k, 'r) sf_state option" where
  "sf_step (Enter t key) s =
     (if sf_tasks s t = Idle
      then (case inflight s key of
              Some c \<Rightarrow> Some (set_task t (Waiting key c) s)
            | None \<Rightarrow> Some (set_task t (Waiting key (sf_fresh s))
                (set_cell (sf_fresh s) Empty
                  (s\<lparr>inflight := (inflight s)(key \<mapsto> sf_fresh s), sf_fresh := Suc (sf_fresh s)\<rparr>))))
      else None)"
| "sf_step (Start t) s =
     (case sf_tasks s t of
        Waiting key c \<Rightarrow> if sf_cells s c = Empty
          then Some (set_task t (Working key c) (set_cell c (Running t) s)) else None
      | _ \<Rightarrow> None)"
| "sf_step (Finish t r) s =
     (case sf_tasks s t of
        Working key c \<Rightarrow> Some (set_task t (Reading key c r) (set_cell c (Filled r) s))
      | _ \<Rightarrow> None)"
| "sf_step (Observe t) s =
     (case sf_tasks s t of
        Waiting key c \<Rightarrow> (case sf_cells s c of
            Filled r \<Rightarrow> Some (set_task t (Reading key c r) s) | _ \<Rightarrow> None)
      | _ \<Rightarrow> None)"
| "sf_step (Remove t) s =
     (case sf_tasks s t of
        Reading key c r \<Rightarrow>
          Some (set_task t (Finished key c r) (s\<lparr>inflight := (inflight s)(key := None)\<rparr>))
      | _ \<Rightarrow> None)"
| "sf_step (Drop t) s =
     (case sf_tasks s t of
        Waiting key c \<Rightarrow> Some (set_task t Dropped s)
      | Working key c \<Rightarrow> Some (set_task t Dropped (set_cell c Empty s))
      | _ \<Rightarrow> None)"

fun sf_run :: "('k, 'r) sf_op list \<Rightarrow> ('k, 'r) sf_state \<Rightarrow> ('k, 'r) sf_state option" where
  "sf_run [] s = Some s"
| "sf_run (a # as) s = (case sf_step a s of None \<Rightarrow> None | Some s' \<Rightarrow> sf_run as s')"

inductive sf_reachable :: "('k, 'r) sf_state \<Rightarrow> bool" where
  sf_init: "sf_reachable sf_new"
| sf_next: "sf_reachable s \<Longrightarrow> sf_step a s = Some s' \<Longrightarrow> sf_reachable s'"

lemma sf_run_reachable: "sf_reachable s \<Longrightarrow> sf_run as s = Some s' \<Longrightarrow> sf_reachable s'"
  by (induction as arbitrary: s) (auto split: option.splits intro: sf_next)

lemma set_task_sel [simp]:
  "inflight (set_task t x s) = inflight s" "sf_cells (set_task t x s) = sf_cells s"
  "sf_fresh (set_task t x s) = sf_fresh s" "sf_tasks (set_task t x s) = (sf_tasks s)(t := x)"
  by (simp_all add: set_task_def)

lemma set_cell_sel [simp]:
  "inflight (set_cell c x s) = inflight s" "sf_cells (set_cell c x s) = (sf_cells s)(c := x)"
  "sf_fresh (set_cell c x s) = sf_fresh s" "sf_tasks (set_cell c x s) = sf_tasks s"
  by (simp_all add: set_cell_def)

text \<open>The steps, one case per way to make one.\<close>

lemma sf_stepE:
  assumes "sf_step a s = Some s'"
  obtains
    (join) t key c where "a = Enter t key" "sf_tasks s t = Idle" "inflight s key = Some c"
      "s' = set_task t (Waiting key c) s"
  | (create) t key where "a = Enter t key" "sf_tasks s t = Idle" "inflight s key = None"
      "s' = set_task t (Waiting key (sf_fresh s)) (set_cell (sf_fresh s) Empty
              (s\<lparr>inflight := (inflight s)(key \<mapsto> sf_fresh s), sf_fresh := Suc (sf_fresh s)\<rparr>))"
  | (start) t key c where "a = Start t" "sf_tasks s t = Waiting key c" "sf_cells s c = Empty"
      "s' = set_task t (Working key c) (set_cell c (Running t) s)"
  | (finish) t key c r where "a = Finish t r" "sf_tasks s t = Working key c"
      "s' = set_task t (Reading key c r) (set_cell c (Filled r) s)"
  | (observe) t key c r where "a = Observe t" "sf_tasks s t = Waiting key c" "sf_cells s c = Filled r"
      "s' = set_task t (Reading key c r) s"
  | (remove) t key c r where "a = Remove t" "sf_tasks s t = Reading key c r"
      "s' = set_task t (Finished key c r) (s\<lparr>inflight := (inflight s)(key := None)\<rparr>)"
  | (drop_waiting) t key c where "a = Drop t" "sf_tasks s t = Waiting key c"
      "s' = set_task t Dropped s"
  | (drop_working) t key c where "a = Drop t" "sf_tasks s t = Working key c"
      "s' = set_task t Dropped (set_cell c Empty s)"
proof (cases a)
  case (Enter t key)
  with assms show ?thesis using join create by (auto split: if_splits option.splits)
next
  case (Start t)
  with assms show ?thesis using start by (auto split: sf_task.splits if_splits)
next
  case (Finish t r)
  with assms show ?thesis using finish by (auto split: sf_task.splits)
next
  case (Observe t)
  with assms show ?thesis using observe by (auto split: sf_task.splits sf_cell.splits)
next
  case (Remove t)
  with assms show ?thesis using remove by (auto split: sf_task.splits)
next
  case (Drop t)
  with assms show ?thesis using drop_waiting drop_working by (auto split: sf_task.splits)
qed

section \<open>The invariant\<close>

text \<open>The key and the cell a task is about, and the result it carries.\<close>

fun task_cell :: "('k, 'r) sf_task \<Rightarrow> ('k \<times> nat) option" where
  "task_cell (Waiting k c) = Some (k, c)"
| "task_cell (Working k c) = Some (k, c)"
| "task_cell (Reading k c r) = Some (k, c)"
| "task_cell (Finished k c r) = Some (k, c)"
| "task_cell _ = None"

fun task_result :: "('k, 'r) sf_task \<Rightarrow> (nat \<times> 'r) option" where
  "task_result (Reading k c r) = Some (c, r)"
| "task_result (Finished k c r) = Some (c, r)"
| "task_result _ = None"

text \<open>Every cell belongs to one key; the cell that a worker fills says so; a
  result a task carries is in its cell.\<close>

definition sf_own :: "(nat \<Rightarrow> 'k) \<Rightarrow> ('k, 'r) sf_state \<Rightarrow> bool" where
  "sf_own own s \<longleftrightarrow> (\<forall>k c. inflight s k = Some c \<longrightarrow> own c = k \<and> c < sf_fresh s)
     \<and> (\<forall>t k c. task_cell (sf_tasks s t) = Some (k, c) \<longrightarrow> own c = k \<and> c < sf_fresh s)"

definition sf_cell_inv :: "('k, 'r) sf_state \<Rightarrow> bool" where
  "sf_cell_inv s \<longleftrightarrow> (\<forall>t k c. sf_tasks s t = Working k c \<longrightarrow> sf_cells s c = Running t)
   \<and> (\<forall>t c r. task_result (sf_tasks s t) = Some (c, r) \<longrightarrow> sf_cells s c = Filled r)"

lemma sf_own_step:
  assumes "sf_own own s" and "sf_step a s = Some s'"
  shows "\<exists>own. sf_own own s'"
  using assms(2)
proof (cases rule: sf_stepE)
  case (create t key)
  have "sf_own (own(sf_fresh s := key)) s'"
    unfolding sf_own_def
  proof (intro conjI allI impI)
    fix k c assume "inflight s' k = Some c"
    then show "(own(sf_fresh s := key)) c = k" "c < sf_fresh s'"
      using assms(1) create less_SucI by (fastforce simp: sf_own_def split: if_splits)+
  next
    fix t' k c assume "task_cell (sf_tasks s' t') = Some (k, c)"
    then show "(own(sf_fresh s := key)) c = k" "c < sf_fresh s'"
      using assms(1) create by (fastforce simp: sf_own_def split: if_splits)+
  qed
  then show ?thesis by blast
qed (use assms(1) in \<open>intro exI [of _ own]; simp add: sf_own_def; (metis task_cell.simps)?\<close>)+

lemma sf_cell_step:
  assumes "sf_own own s" and "sf_cell_inv s" and "sf_step a s = Some s'"
  shows "sf_cell_inv s'"
proof -
  have w: "sf_tasks s t = Working k c \<Longrightarrow> sf_cells s c = Running t"
    and r: "task_result (sf_tasks s t) = Some (c, r) \<Longrightarrow> sf_cells s c = Filled r"
    and l: "task_cell (sf_tasks s t) = Some (k, c) \<Longrightarrow> c < sf_fresh s" for t k c r
    using assms(1,2) by (auto simp: sf_cell_inv_def sf_own_def)
  have rc: "task_result x = Some (c, r) \<Longrightarrow> \<exists>k. task_cell x = Some (k, c)"
    for x :: "('a, 'b) sf_task" and c r
    by (cases x) auto
  from assms(3) show ?thesis
  proof (cases rule: sf_stepE)
    case (create t key)
    have c: "sf_cells s' c = sf_cells s c" if "c < sf_fresh s" for c using create that by simp
    show ?thesis
      unfolding sf_cell_inv_def
    proof (intro conjI allI impI)
      fix t' k c assume "sf_tasks s' t' = Working k c"
      then have "sf_tasks s t' = Working k c" using create by (simp split: if_splits)
      with w l [of t' k c] c show "sf_cells s' c = Running t'" by simp
    next
      fix t' c v assume "task_result (sf_tasks s' t') = Some (c, v)"
      then have *: "task_result (sf_tasks s t') = Some (c, v)" using create by (simp split: if_splits)
      from rc [OF this] l c have "sf_cells s' c = sf_cells s c" by blast
      with r [OF *] show "sf_cells s' c = Filled v" by simp
    qed
  next
    case (join t key c)
    with w r show ?thesis by (auto simp: sf_cell_inv_def)
  next
    case (start t key c)
    with w [of t key c] show ?thesis
      unfolding sf_cell_inv_def by (auto dest: w r split: if_splits)
  next
    case (finish t key c v)
    with w [of t key c] show ?thesis
      unfolding sf_cell_inv_def by (auto dest: w r split: if_splits)
  next
    case (observe t key c v)
    with w r show ?thesis by (auto simp: sf_cell_inv_def)
  next
    case (remove t key c v)
    with w r [of t c v] r show ?thesis by (auto simp: sf_cell_inv_def)
  next
    case (drop_waiting t key c)
    with w r show ?thesis by (auto simp: sf_cell_inv_def)
  next
    case (drop_working t key c)
    with w [of t key c] show ?thesis
      unfolding sf_cell_inv_def by (auto dest: w r split: if_splits)
  qed
qed

lemma sf_reachable_inv: "sf_reachable s \<Longrightarrow> (\<exists>own. sf_own own s) \<and> sf_cell_inv s"
proof (induction rule: sf_reachable.induct)
  case sf_init
  show ?case by (simp add: sf_own_def sf_cell_inv_def sf_new_def)
next
  case (sf_next s a s')
  then show ?case using sf_own_step sf_cell_step by blast
qed


section \<open>What the callers see\<close>

text \<open>C27: Callers that share a computation agree: two finished calls that were
  served by the same cell had the same key and return the same result, and at
  any time at most one task works for a cell.\<close>

theorem sf_agreement:
  assumes "sf_reachable s"
  shows "(sf_tasks s t1 = Finished k1 c r1 \<and> sf_tasks s t2 = Finished k2 c r2 \<longrightarrow> k1 = k2 \<and> r1 = r2)
     \<and> (sf_tasks s t1 = Working k1 c \<and> sf_tasks s t2 = Working k2 c \<longrightarrow> t1 = t2)"
proof -
  from sf_reachable_inv [OF assms] obtain own where own: "sf_own own s" and inv: "sf_cell_inv s"
    by blast
  have "k1 = k2" "Filled r1 = Filled r2"
    if "sf_tasks s t1 = Finished k1 c r1" "sf_tasks s t2 = Finished k2 c r2"
    using own inv that
    by (metis sf_own_def task_cell.simps(4), metis sf_cell_inv_def task_result.simps(2))
  moreover have "t1 = t2" if "sf_tasks s t1 = Working k1 c" "sf_tasks s t2 = Working k2 c"
    using inv that by (metis sf_cell_inv_def sf_cell.inject(1))
  ultimately show ?thesis by blast
qed

text \<open>While no call has removed the key, every caller of a key is served by the
  cell of the key in the table.\<close>

definition sf_shared :: "('k, 'r) sf_state \<Rightarrow> bool" where
  "sf_shared s \<longleftrightarrow> (\<forall>t k c. task_cell (sf_tasks s t) = Some (k, c) \<longrightarrow> inflight s k = Some c)"

lemma sf_shared_step:
  assumes "sf_shared s" and "sf_step a s = Some s'" and "\<forall>t. a \<noteq> Remove t"
  shows "sf_shared s'"
  using assms(2)
proof (cases rule: sf_stepE)
  case (create t key)
  with assms(1) show ?thesis by (fastforce simp: sf_shared_def split: if_splits)
qed (use assms in \<open>auto simp: sf_shared_def split: if_splits; metis task_cell.simps\<close>)+

lemma sf_shared_run:
  "sf_run as s = Some s' \<Longrightarrow> sf_shared s \<Longrightarrow> \<forall>t. Remove t \<notin> set as \<Longrightarrow> sf_shared s'"
proof (induction as arbitrary: s)
  case (Cons a as)
  then obtain s1 where "sf_step a s = Some s1" "sf_run as s1 = Some s'"
    by (auto split: option.splits)
  with Cons sf_shared_step show ?case by (metis list.set_intros)
qed simp

text \<open>The merge works in the window it is made for: as long as no call has
  returned, at most one task works on a key, however the calls interleave.\<close>

lemma sf_dedup_window:
  assumes "sf_run as sf_new = Some s" and "\<forall>t. Remove t \<notin> set as"
    and "sf_tasks s t1 = Working k c1" and "sf_tasks s t2 = Working k c2"
  shows "t1 = t2"
proof -
  have "sf_shared (sf_new :: ('a, 'b) sf_state)" by (simp add: sf_shared_def sf_new_def)
  from sf_shared_run [OF assms(1) this assms(2)] assms(3,4) have "c1 = c2"
    by (metis sf_shared_def option.inject task_cell.simps(2))
  moreover have "sf_cell_inv s"
    using sf_reachable_inv sf_run_reachable [OF sf_init assms(1)] by blast
  ultimately show ?thesis
    using assms(3,4) by (metis sf_cell_inv_def sf_cell.inject(1))
qed

text \<open>A late reader: task 2 reads the first result only after task 3 has entered.\<close>

definition lost_run :: "(string, nat) sf_op list" where
  "lost_run = [Enter 1 ''k'', Enter 2 ''k'', Start 1, Finish 1 7, Remove 1,
     Enter 3 ''k'', Start 3, Observe 2, Remove 2, Enter 4 ''k'', Start 4]"

text \<open>Outside that window the merge is lost: a late reader of a finished
  computation removes the key by name, and with it the newer computation that
  is in flight, so that two tasks work on the same key at once.\<close>

lemma sf_dedup_lost:
  "\<exists>s c1 c2. sf_run lost_run sf_new = Some s
     \<and> sf_tasks s 3 = Working ''k'' c1 \<and> sf_tasks s 4 = Working ''k'' c2"
  by (simp add: lost_run_def sf_new_def)

theorem sf_agreement_witness:
  "\<exists>s. sf_run [Enter 1 ''k'', Enter 2 ''k'', Start 1, Finish 1 7, Observe 2, Remove 1, Remove 2] sf_new = Some s
     \<and> (\<exists>c r1 r2. sf_tasks s 1 = Finished ''k'' c r1 \<and> sf_tasks s 2 = Finished ''k'' c r2 \<and> r1 = (r2 :: nat))"
proof -
  obtain s where s: "sf_run [Enter 1 ''k'', Enter 2 ''k'', Start 1, Finish 1 (7 :: nat), Observe 2, Remove 1, Remove 2]
      sf_new = Some s"
    and t: "sf_tasks s 1 = Finished ''k'' 0 7" "sf_tasks s 2 = Finished ''k'' 0 7"
    by (simp add: sf_new_def)
  have "sf_reachable s" by (rule sf_run_reachable [OF sf_init s])
  from sf_agreement [OF this] s t show ?thesis by blast
qed

theorem sf_dedup_window_witness:
  "\<exists>s. sf_run [Enter 1 ''k'', Enter 2 ''k'', Start 2] sf_new = (Some s :: (string, nat) sf_state option)
     \<and> (\<forall>t c. sf_tasks s t = Working ''k'' c \<longrightarrow> t = 2)"
proof -
  obtain s where s: "sf_run [Enter 1 ''k'', Enter 2 ''k'', Start 2] sf_new = (Some s :: (string, nat) sf_state option)"
    and t: "sf_tasks s 2 = Working ''k'' 0" by (simp add: sf_new_def)
  from sf_dedup_window [OF s _ _ t] s show ?thesis by fastforce
qed

end
