(* ===== verification/Cache_Refresh.thy ===== *)
theory Cache_Refresh
  imports Forward Cache_Plugin
begin

text \<open>
  \<open>src/plugins/cache_smart_refresh.rs\<close>, \<open>cache_warmup.rs\<close> and \<open>src/core/task_manager.rs\<close>: the scan that
  refreshes entries before they expire, the warm-up from a list of names, and the guard of background
  tasks.

  A scan takes an enumeration of the cache and returns the tasks it spawns; each waits for a random time and
  runs \<open>refresh_domain\<close>.  The percentage of the TTL that remains is exact instead of an \<open>f64\<close>.  Texts
  for the log and the timers are left out.
\<close>

section \<open>Background tasks\<close>

record task_manager =
  tm_started :: bool
  tm_shutdown :: bool

definition tm_new :: task_manager where
  "tm_new = \<lparr>tm_started = False, tm_shutdown = False\<rparr>"

definition tm_start :: "bool \<Rightarrow> task_manager \<Rightarrow> bool \<times> task_manager" where
  "tm_start in_runtime m =
     (if tm_started m then (False, m)
      else let m = m\<lparr>tm_started := True\<rparr>
           in if \<not> in_runtime then (False, m\<lparr>tm_started := False\<rparr>) else (True, m))"

definition tm_stop :: "task_manager \<Rightarrow> task_manager" where
  "tm_stop m = m\<lparr>tm_shutdown := True\<rparr>"

section \<open>Configuration\<close>

record refresh_config =
  rc_ttl_threshold :: u64
  rc_ttl_percentage :: u8
  rc_adaptive_enabled :: bool
  rc_refresh_interval :: u64
  rc_jitter_ms :: u64

definition refresh_config_default :: refresh_config where
  "refresh_config_default =
     \<lparr>rc_ttl_threshold = 60, rc_ttl_percentage = 20, rc_adaptive_enabled = False, rc_refresh_interval = 30,
      rc_jitter_ms = 1000\<rparr>"

record refresh_stats =
  rs_scanned :: nat
  rs_refreshed :: nat
  rs_skipped :: nat

record smart_refresh =
  rm_config :: refresh_config
  rm_refreshing :: "string \<rightharpoonup> u64"
  rm_stats :: refresh_stats
  rm_task_mgr :: task_manager

definition refresh_new :: smart_refresh where
  "refresh_new =
     \<lparr>rm_config = refresh_config_default, rm_refreshing = Map.empty,
      rm_stats = \<lparr>rs_scanned = 0, rs_refreshed = 0, rs_skipped = 0\<rparr>, rm_task_mgr = tm_new\<rparr>"

definition configure_threshold :: "u64 \<Rightarrow> smart_refresh \<Rightarrow> smart_refresh" where
  "configure_threshold secs m = m\<lparr>rm_config := (rm_config m)\<lparr>rc_ttl_threshold := secs\<rparr>\<rparr>"

definition configure_percentage :: "u8 \<Rightarrow> smart_refresh \<Rightarrow> smart_refresh" where
  "configure_percentage p m = m\<lparr>rm_config := (rm_config m)\<lparr>rc_ttl_percentage := min p 100\<rparr>\<rparr>"

definition enable_adaptive :: "bool \<Rightarrow> smart_refresh \<Rightarrow> smart_refresh" where
  "enable_adaptive b m = m\<lparr>rm_config := (rm_config m)\<lparr>rc_adaptive_enabled := b\<rparr>\<rparr>"

definition configure_interval :: "u64 \<Rightarrow> smart_refresh \<Rightarrow> smart_refresh" where
  "configure_interval secs m = m\<lparr>rm_config := (rm_config m)\<lparr>rc_refresh_interval := secs\<rparr>\<rparr>"

definition configure_jitter :: "u64 \<Rightarrow> smart_refresh \<Rightarrow> smart_refresh" where
  "configure_jitter ms m = m\<lparr>rm_config := (rm_config m)\<lparr>rc_jitter_ms := ms\<rparr>\<rparr>"

section \<open>Refreshing\<close>

definition percentage_left :: "u64 \<Rightarrow> u64 \<Rightarrow> nat" where
  "percentage_left remaining original = min 255 (unat remaining * 100 div unat original)"

definition should_refresh_with_ttl :: "u64 \<Rightarrow> u64 \<Rightarrow> smart_refresh \<Rightarrow> bool" where
  "should_refresh_with_ttl remaining original m =
     (if remaining < rc_ttl_threshold (rm_config m) then True
      else 0 < original \<and> percentage_left remaining original < unat (rc_ttl_percentage (rm_config m)))"

datatype refresh_task = Refresh_Task string u16 u16

definition trigger_refresh :: "u64 \<Rightarrow> string \<Rightarrow> u16 \<Rightarrow> u16 \<Rightarrow> smart_refresh \<Rightarrow> refresh_task option \<times> smart_refresh" where
  "trigger_refresh now domain qt qc m =
     (if (case rm_refreshing m domain of Some last_refresh \<Rightarrow> now < last_refresh + 10 | None \<Rightarrow> False) then (None, m)
      else (Some (Refresh_Task domain qt qc), m\<lparr>rm_refreshing := (rm_refreshing m)(domain \<mapsto> now)\<rparr>))"

definition refresh_request :: "dns_lib \<Rightarrow> string \<Rightarrow> u16 \<Rightarrow> u16 \<Rightarrow> message option" where
  "refresh_request L domain qt qc =
     map_option (\<lambda>name. (add_query \<lparr>q_name = name, q_type = qt, q_class = qc\<rparr> (lib_new L))\<lparr>m_id := 1, m_rd := True\<rparr>)
       (lib_name_from_ascii L domain)"

text \<open>A task asks the forwarder and stores an answer without an error; \<open>unix\<close>, \<open>now_ns\<close> and
  \<open>inserted\<close> are the clock and the kernel at the time of the store.\<close>

fun refresh_domain ::
  "net_env \<Rightarrow> (edns \<Rightarrow> edns) \<Rightarrow> u64 \<Rightarrow> u64 \<Rightarrow> bool \<Rightarrow> forward_plugin \<Rightarrow> refresh_task \<Rightarrow> nat \<Rightarrow> autopilot \<Rightarrow> cache_plugin
     \<Rightarrow> unit result \<times> nat \<times> net_job list \<times> autopilot \<times> cache_plugin" where
  "refresh_domain N sane unix now_ns inserted fp (Refresh_Task domain qt qc) now a p =
     (case refresh_request (ne_lib N) domain qt qc of
        None \<Rightarrow> (Inl (Error ''name''), now, [], a, p)
      | Some req \<Rightarrow>
          (case execute_with_bytes_internal N sane fp req None None now a of
             (Inl e, t, jobs, a) \<Rightarrow> (Inl e, t, jobs, a, p)
           | (Inr resp, t, jobs, a) \<Rightarrow>
               (Inr (), t, jobs, a,
                if m_rcode resp = NoError
                then snd (insert_response_for_domain (ne_lib N) unix now_ns inserted domain qt qc resp p) else p)))"

text \<open>The scan over \<open>snapshot_entries 0\<close>.\<close>

fun scan_entries ::
  "u64 \<Rightarrow> (query_key \<times> message \<times> u64 \<times> u64) list \<Rightarrow> refresh_stats \<Rightarrow> smart_refresh
     \<Rightarrow> refresh_task list \<times> refresh_stats \<times> smart_refresh" where
  "scan_entries now [] st m = ([], st, m)"
| "scan_entries now ((key, msg, timestamp, ttl) # entries) st m =
     (let st = st\<lparr>rs_scanned := rs_scanned st + 1\<rparr>;
          remaining_ttl = sat_sub ttl (sat_sub now timestamp) in
      case msg_query msg of
        None \<Rightarrow> scan_entries now entries (st\<lparr>rs_skipped := rs_skipped st + 1\<rparr>) m
      | Some q \<Rightarrow>
          if should_refresh_with_ttl remaining_ttl ttl m
          then let (task, m) = trigger_refresh now (q_name q) (q_type q) (q_class q) m;
                   (tasks, st, m) = scan_entries now entries (st\<lparr>rs_refreshed := rs_refreshed st + 1\<rparr>) m
               in ((case task of Some t \<Rightarrow> [t] | None \<Rightarrow> []) @ tasks, st, m)
          else scan_entries now entries (st\<lparr>rs_skipped := rs_skipped st + 1\<rparr>) m)"

definition scan_and_refresh ::
  "u64 \<Rightarrow> (query_key \<times> cached_entry) list \<Rightarrow> smart_refresh \<Rightarrow> refresh_task list \<times> smart_refresh" where
  "scan_and_refresh now entries m =
     (let (tasks, st, m) = scan_entries now (snapshot_entries 0 entries)
            \<lparr>rs_scanned = 0, rs_refreshed = 0, rs_skipped = 0\<rparr> m
      in (tasks, m\<lparr>rm_stats := st\<rparr>))"

text \<open>One turn of the timer, every ten seconds: whether to scan, and the counter afterwards.\<close>

definition refresh_tick :: "u32 \<Rightarrow> smart_refresh \<Rightarrow> bool \<times> u32" where
  "refresh_tick check_counter m =
     (let check_counter = check_counter + 1;
          should_check = (ucast (rc_refresh_interval (rm_config m) div 10) :: u32) \<le> check_counter
      in (should_check, if should_check then 0 else check_counter))"

definition start_background_task :: "bool \<Rightarrow> smart_refresh \<Rightarrow> bool \<times> smart_refresh" where
  "start_background_task in_runtime m =
     (let (started, mgr) = tm_start in_runtime (rm_task_mgr m) in (started, m\<lparr>rm_task_mgr := mgr\<rparr>))"

definition stop_background_task :: "smart_refresh \<Rightarrow> smart_refresh" where
  "stop_background_task m = m\<lparr>rm_task_mgr := tm_stop (rm_task_mgr m)\<rparr>"

definition check_and_trigger_refresh ::
  "u64 \<Rightarrow> u64 \<Rightarrow> u64 \<Rightarrow> string \<Rightarrow> u16 \<Rightarrow> u16 \<Rightarrow> smart_refresh option \<Rightarrow> refresh_task option \<times> smart_refresh option" where
  "check_and_trigger_refresh now remaining original domain qt qc manager =
     (case manager of
        None \<Rightarrow> (None, None)
      | Some m \<Rightarrow>
          if should_refresh_with_ttl remaining original m
          then let (task, m) = trigger_refresh now domain qt qc m in (task, Some m)
          else (None, Some m))"

section \<open>Warm-up\<close>

datatype query_type_spec = Both | A_Only | AAAA_Only

record domain_config =
  dc_domain :: string
  dc_query_type :: query_type_spec

record warmup_stats =
  wu_success :: nat
  wu_failure :: nat

definition parse_domain_line :: "string \<Rightarrow> domain_config option" where
  "parse_domain_line line =
     (let line = trim line in
      if line = [] \<or> starts_with line ''#'' then None
      else if starts_with line ''!'' then Some \<lparr>dc_domain = drop 1 line, dc_query_type = AAAA_Only\<rparr>
      else if starts_with line ''@'' then Some \<lparr>dc_domain = drop 1 line, dc_query_type = A_Only\<rparr>
      else Some \<lparr>dc_domain = line, dc_query_type = Both\<rparr>)"

text \<open>A line that cannot be read fails the whole file.\<close>

fun load_config_lines :: "string option list \<Rightarrow> domain_config list result" where
  "load_config_lines [] = Inr []"
| "load_config_lines (None # ls) = Inl (Error ''read'')"
| "load_config_lines (Some line # ls) =
     andthen (load_config_lines ls) (\<lambda>ds. Inr ((case parse_domain_line line of Some d \<Rightarrow> [d] | None \<Rightarrow> []) @ ds))"

definition load_config_file :: "string option list option \<Rightarrow> domain_config list result" where
  "load_config_file content =
     (case content of None \<Rightarrow> Inl (Error ''open'') | Some ls \<Rightarrow> load_config_lines ls)"

fun warm_types :: "query_type_spec \<Rightarrow> u16 list" where
  "warm_types Both = [T_A, T_AAAA]"
| "warm_types A_Only = [T_A]"
| "warm_types AAAA_Only = [T_AAAA]"

text \<open>The questions for one name, one after the other; what they answer is only logged.\<close>

fun warm_queries ::
  "net_env \<Rightarrow> (edns \<Rightarrow> edns) \<Rightarrow> forward_plugin \<Rightarrow> string \<Rightarrow> u16 list \<Rightarrow> nat \<Rightarrow> autopilot
     \<Rightarrow> string result \<times> nat \<times> net_job list \<times> autopilot" where
  "warm_queries N sane fp domain [] now a = (Inr domain, now, [], a)"
| "warm_queries N sane fp domain (qt # qts) now a =
     (case refresh_request (ne_lib N) domain qt 1 of
        None \<Rightarrow> (Inl (Error ''name''), now, [], a)
      | Some req \<Rightarrow>
          let (_, t, jobs, a) = execute_with_bytes_internal N sane fp req None None now a;
              (r, t, jobs', a) = warm_queries N sane fp domain qts t a
          in (r, t, jobs @ jobs', a))"

definition warm_domain ::
  "net_env \<Rightarrow> (edns \<Rightarrow> edns) \<Rightarrow> forward_plugin option \<Rightarrow> domain_config \<Rightarrow> nat \<Rightarrow> autopilot
     \<Rightarrow> string result \<times> nat \<times> net_job list \<times> autopilot" where
  "warm_domain N sane forwarder dc now a =
     (case forwarder of
        None \<Rightarrow> (Inl (Error ''No forwarder configured''), now, [], a)
      | Some fp \<Rightarrow> warm_queries N sane fp (dc_domain dc) (warm_types (dc_query_type dc)) now a)"

text \<open>The names are warmed by concurrent tasks; \<open>starts\<close> gives the instant at which each starts, and their
  effects are taken in the order of the list.  A task beyond the limit counts as a failure.\<close>

fun warm_all ::
  "net_env \<Rightarrow> (edns \<Rightarrow> edns) \<Rightarrow> forward_plugin option \<Rightarrow> nat \<Rightarrow> (nat \<times> domain_config) list \<Rightarrow> autopilot \<Rightarrow> warmup_stats
     \<Rightarrow> warmup_stats \<times> net_job list \<times> autopilot" where
  "warm_all N sane forwarder limit [] a st = (st, [], a)"
| "warm_all N sane forwarder limit ((start, dc) # ds) a st =
     (let (r, t, jobs, a') = warm_domain N sane forwarder dc start a;
          ok = (t - start \<le> limit \<and> (case r of Inr _ \<Rightarrow> True | Inl _ \<Rightarrow> False));
          st = (if ok then st\<lparr>wu_success := wu_success st + 1\<rparr> else st\<lparr>wu_failure := wu_failure st + 1\<rparr>);
          (st, jobs', a'') = warm_all N sane forwarder limit ds a' st
      in (st, jobs @ jobs', a''))"

definition warm_from_config ::
  "net_env \<Rightarrow> (edns \<Rightarrow> edns) \<Rightarrow> forward_plugin option \<Rightarrow> u64 \<Rightarrow> (nat \<Rightarrow> nat) \<Rightarrow> string option list option \<Rightarrow> autopilot
     \<Rightarrow> (warmup_stats \<times> net_job list) result \<times> autopilot" where
  "warm_from_config N sane forwarder timeout_secs starts content a =
     (case load_config_file content of
        Inl e \<Rightarrow> (Inl e, a)
      | Inr domains \<Rightarrow>
          let (st, jobs, a) = warm_all N sane forwarder (from_secs (unat timeout_secs))
                (zip (map starts [0 ..< length domains]) domains) a \<lparr>wu_success = 0, wu_failure = 0\<rparr>
          in (Inr (st, jobs), a))"

section \<open>What a scan does\<close>

lemma scan_counts:
  "scan_entries now entries st m = (tasks, st', m') \<Longrightarrow>
     rs_scanned st' = rs_scanned st + length entries
     \<and> rs_refreshed st' + rs_skipped st' = rs_refreshed st + rs_skipped st + length entries
     \<and> length tasks \<le> rs_refreshed st' - rs_refreshed st \<and> rs_refreshed st \<le> rs_refreshed st'"
proof (induction now entries st m arbitrary: tasks rule: scan_entries.induct)
  case (2 now key msg timestamp ttl entries st m)
  then show ?case
    by (fastforce simp: Let_def trigger_refresh_def split: option.splits if_splits prod.splits)
qed simp

text \<open>Every entry that is due, whose name was not refreshed in the ten seconds before, gets a task for its name;
  but the names are the keys, so a scan never refreshes two types of one name.\<close>

fun task_domain :: "refresh_task \<Rightarrow> string" where
  "task_domain (Refresh_Task domain qt qc) = domain"

definition recent :: "u64 \<Rightarrow> string \<Rightarrow> smart_refresh \<Rightarrow> bool" where
  "recent now domain m = (case rm_refreshing m domain of Some t \<Rightarrow> now < t + 10 | None \<Rightarrow> False)"

lemma scan_once:
  assumes "scan_entries now entries st m = (tasks, st', m')" and "now < now + 10"
  shows "distinct (map task_domain tasks) \<and> (\<forall>t \<in> set tasks. \<not> recent now (task_domain t) m)
     \<and> (\<forall>d. recent now d m' \<longleftrightarrow> recent now d m \<or> d \<in> task_domain ` set tasks) \<and> rm_config m' = rm_config m"
  using assms
proof (induction now entries st m arbitrary: tasks rule: scan_entries.induct)
  case (2 now key msg timestamp ttl entries st m)
  let ?left = "sat_sub ttl (sat_sub now timestamp)" and ?st = "st\<lparr>rs_scanned := rs_scanned st + 1\<rparr>"
  show ?case
  proof (cases "msg_query msg")
    case (Some q)
    show ?thesis
    proof (cases "should_refresh_with_ttl ?left ttl m \<and> \<not> recent now (q_name q) m")
      case True
      let ?m = "m\<lparr>rm_refreshing := (rm_refreshing m)(q_name q \<mapsto> now)\<rparr>"
      have t: "trigger_refresh now (q_name q) (q_type q) (q_class q) m
          = (Some (Refresh_Task (q_name q) (q_type q) (q_class q)), ?m)"
        using True by (simp add: trigger_refresh_def recent_def)
      obtain ts where ts: "scan_entries now entries (?st\<lparr>rs_refreshed := rs_refreshed ?st + 1\<rparr>) ?m = (ts, st', m')"
          "tasks = Refresh_Task (q_name q) (q_type q) (q_class q) # ts"
        using "2.prems"(1) Some True by (auto simp: t Let_def split: prod.splits)
      have r: "recent now d ?m \<longleftrightarrow> recent now d m \<or> d = q_name q" for d
        using "2.prems"(2) by (simp add: recent_def)
      have "distinct (map task_domain ts) \<and> (\<forall>t \<in> set ts. \<not> recent now (task_domain t) ?m)
          \<and> (\<forall>d. recent now d m' \<longleftrightarrow> recent now d ?m \<or> d \<in> task_domain ` set ts) \<and> rm_config m' = rm_config ?m"
        using "2.IH"(2) [OF refl refl Some _ refl t [symmetric] ts(1) "2.prems"(2)] True by simp
      with True show ?thesis unfolding ts(2) r by auto
    next
      case False
      with Some 2 show ?thesis
        by (auto simp: Let_def trigger_refresh_def recent_def split: if_splits prod.splits option.splits)
    qed
  qed (use 2 in \<open>simp add: Let_def\<close>)
qed simp

lemma trigger_refresh_recent:
  assumes "trigger_refresh now domain qt qc m = (task, m')" and "now < now + 10"
  shows "recent now domain m'" and "rm_config m' = rm_config m"
  using assms by (auto simp: trigger_refresh_def recent_def split: if_splits option.splits)

lemma scan_complete:
  assumes "scan_entries now entries st m = (tasks, st', m')" and "now < now + 10"
    and "(key, msg, timestamp, ttl) \<in> set entries" and "msg_query msg = Some q"
    and "should_refresh_with_ttl (sat_sub ttl (sat_sub now timestamp)) ttl m"
  shows "recent now (q_name q) m'"
  using assms
proof (induction now entries st m arbitrary: tasks rule: scan_entries.induct)
  case (2 now key' msg' timestamp' ttl' entries st m)
  obtain ts st1 m1 where rest: "scan_entries now entries st1 m1 = (ts, st', m')" and conf: "rm_config m1 = rm_config m"
      and head: "(key, msg, timestamp, ttl) = (key', msg', timestamp', ttl') \<Longrightarrow> recent now (q_name q) m1"
      and IH: "(key, msg, timestamp, ttl) \<in> set entries \<Longrightarrow> recent now (q_name q) m'"
  proof (cases "msg_query msg'")
    case None
    let ?st = "st\<lparr>rs_scanned := rs_scanned st + 1, rs_skipped := rs_skipped st + 1\<rparr>"
    have ts: "scan_entries now entries ?st m = (tasks, st', m')" using "2.prems"(1) None by (simp add: Let_def)
    show ?thesis by (rule that [OF ts refl]) (use None "2.prems" "2.IH"(1) [OF refl refl None] ts in auto)
  next
    case (Some q')
    obtain task m1 where t: "trigger_refresh now (q_name q') (q_type q') (q_class q') m = (task, m1)" by fastforce
    note tr = trigger_refresh_recent [OF t "2.prems"(2)]
    show ?thesis
    proof (cases "should_refresh_with_ttl (sat_sub ttl' (sat_sub now timestamp')) ttl' m")
      case True
      let ?st = "st\<lparr>rs_scanned := rs_scanned st + 1, rs_refreshed := rs_refreshed st + 1\<rparr>"
      obtain ts where ts: "scan_entries now entries ?st m1 = (ts, st', m')"
        using "2.prems"(1) Some True t by (auto simp: Let_def split: prod.splits)
      show ?thesis
        by (rule that [OF ts tr(2)])
          (use Some "2.prems" tr "2.IH"(2) [OF refl refl Some True refl t [symmetric]] ts in
            \<open>auto simp: should_refresh_with_ttl_def\<close>)
    next
      case False
      let ?st = "st\<lparr>rs_scanned := rs_scanned st + 1, rs_skipped := rs_skipped st + 1\<rparr>"
      have ts: "scan_entries now entries ?st m = (tasks, st', m')" using "2.prems"(1) Some False by (simp add: Let_def)
      show ?thesis
        by (rule that [OF ts refl]) (use Some "2.prems" False "2.IH"(3) [OF refl refl Some False] ts in auto)
    qed
  qed
  from "2.prems"(3) head IH scan_once [OF rest "2.prems"(2)] show ?case by auto
qed simp

text \<open>A name whose two types are due in one scan: only the first is refreshed.\<close>

lemma second_type_skipped:
  assumes "trigger_refresh now domain 1 1 m = (Some t, m')" and "now < now + 10"
  shows "trigger_refresh now domain 28 1 m' = (None, m')"
  using assms by (auto simp: trigger_refresh_def split: if_splits option.splits)

text \<open>The counter turns a configured interval into a number of ticks of ten seconds, rounded down.\<close>

lemma refresh_tick_interval:
  "refresh_tick c (configure_interval 30 m) = (3 \<le> c + 1, if 3 \<le> c + 1 then 0 else c + 1)"
  by (simp add: refresh_tick_def configure_interval_def Let_def)

text \<open>A task manager starts its task at most once, and only inside a runtime.\<close>

lemma tm_start_once:
  "tm_start r m = (True, m') \<Longrightarrow> r \<and> tm_start r' m' = (False, m')"
  "tm_start r m = (b, m') \<Longrightarrow> tm_started m' \<longleftrightarrow> b \<or> tm_started m"
  by (auto simp: tm_start_def Let_def split: if_splits)

text \<open>What a refresh stores: an answer without an error, under the key of the name.\<close>

lemma refresh_domain_stores:
  assumes "refresh_domain N sane unix now_ns inserted fp (Refresh_Task domain qt qc) now a p = (Inr (), t, jobs, a', p')"
  shows "\<exists>req resp. refresh_request (ne_lib N) domain qt qc = Some req
     \<and> execute_with_bytes_internal N sane fp req None None now a = (Inr resp, t, jobs, a')
     \<and> p' = (if m_rcode resp = NoError
         then snd (insert_response_for_domain (ne_lib N) unix now_ns inserted domain qt qc resp p) else p)"
  using assms by (auto split: option.splits prod.splits sum.splits)

text \<open>The warm-up: the three forms of a line.\<close>

lemma parse_domain_line_forms:
  "parse_domain_line ''a.b'' = Some \<lparr>dc_domain = ''a.b'', dc_query_type = Both\<rparr>"
  "parse_domain_line ''@a.b'' = Some \<lparr>dc_domain = ''a.b'', dc_query_type = A_Only\<rparr>"
  "parse_domain_line ''!a.b'' = Some \<lparr>dc_domain = ''a.b'', dc_query_type = AAAA_Only\<rparr>"
  by code_simp+

lemma warm_all_counts:
  "warm_all N sane fp limit ds a st = (st', jobs, a') \<Longrightarrow>
     wu_success st' + wu_failure st' = wu_success st + wu_failure st + length ds"
  by (induction N sane fp limit ds a st arbitrary: jobs rule: warm_all.induct)
    (fastforce simp: Let_def split: prod.splits if_splits)+

end
