(* ===== verification/Socks5_Udp.thy ===== *)
theory Socks5_Udp
  imports Upstreams
begin

text \<open>
  \<open>src/socks5_udp.rs\<close>: the client of a SOCKS5 proxy that carries datagrams (UDP ASSOCIATE of RFC 1928).

  \<open>connect\<close> works on the bytes the proxy sends over the control connection, a datagram is what arrives at the
  local socket.  An access out of range is a panic.
\<close>

section \<open>The control connection\<close>

record tunnel =
  tu_proxy :: sock_addr
  tu_control :: bool
  tu_relay :: "sock_addr option"
  tu_socket :: bool
  tu_recv_buf :: nat

definition tunnel_new :: "sock_addr \<Rightarrow> tunnel" where
  "tunnel_new proxy = \<lparr>tu_proxy = proxy, tu_control = False, tu_relay = None, tu_socket = False, tu_recv_buf = 0\<rparr>"

text \<open>Whether each call succeeds, and what the proxy sends.\<close>

record control_env =
  ct_connect :: bool
  ct_write_hello :: bool
  ct_write_request :: bool
  ct_incoming :: bytes
  ct_bind :: bool

definition hello :: bytes where
  "hello = [0x05, 0x01, 0x00]"

definition udp_associate :: bytes where
  "udp_associate = [0x05, 0x03, 0x00, 0x01, 0x00, 0x00, 0x00, 0x00, 0x00, 0x00]"

definition read_bound :: "u8 \<Rightarrow> bytes \<Rightarrow> sock_addr result" where
  "read_bound atyp bs =
     (if atyp = 0x01
      then (case read_exact 4 bs of
              None \<Rightarrow> Inl (Error ''read'')
            | Some (addr, bs) \<Rightarrow>
                (case read_exact 2 bs of
                   None \<Rightarrow> Inl (Error ''read'')
                 | Some (port, _) \<Rightarrow> Inr (V4 (v4_from_octets addr), from_be port)))
      else if atyp = 0x04
      then (case read_exact 16 bs of
              None \<Rightarrow> Inl (Error ''read'')
            | Some (addr, bs) \<Rightarrow>
                (case read_exact 2 bs of
                   None \<Rightarrow> Inl (Error ''read'')
                 | Some (port, _) \<Rightarrow> Inr (V6 (v6_from_octets addr), from_be port)))
      else Inl (Error ''Unsupported ATYP''))"

text \<open>The replies of the proxy, up to the address of its relay.\<close>

definition relay_of :: "control_env \<Rightarrow> sock_addr \<Rightarrow> sock_addr result" where
  "relay_of E proxy =
     (if \<not> ct_connect E then Inl (Error ''Failed to connect to SOCKS5 proxy'')
      else if \<not> ct_write_hello E then Inl (Error ''write'')
      else case read_exact 2 (ct_incoming E) of
             None \<Rightarrow> Inl (Error ''read'')
           | Some (resp, bs) \<Rightarrow>
               if resp ! 0 \<noteq> 0x05 \<or> resp ! 1 \<noteq> 0x00 then Inl (Error ''SOCKS5 auth failed'')
               else if \<not> ct_write_request E then Inl (Error ''write'')
               else case read_exact 4 bs of
                      None \<Rightarrow> Inl (Error ''read'')
                    | Some (header, bs) \<Rightarrow>
                        if header ! 1 \<noteq> 0x00 then Inl (Error ''SOCKS5 UDP ASSOCIATE failed'')
                        else andthen (read_bound (header ! 3) bs) (\<lambda>(ip, port).
                          Inr (if is_unspecified ip then fst proxy else ip, port)))"

definition tunnel_connect :: "control_env \<Rightarrow> tunnel \<Rightarrow> unit result \<times> tunnel" where
  "tunnel_connect E t =
     (case relay_of E (tu_proxy t) of
        Inl e \<Rightarrow> (Inl e, t)
      | Inr relay \<Rightarrow>
          if \<not> ct_bind E then (Inl (Error ''bind''), t)
          else (Inr (), t\<lparr>tu_control := True, tu_relay := Some relay, tu_socket := True\<rparr>))"

definition tunnel_is_connected :: "tunnel \<Rightarrow> bool" where
  "tunnel_is_connected t \<longleftrightarrow> tu_relay t \<noteq> None"

definition tunnel_close :: "tunnel \<Rightarrow> tunnel" where
  "tunnel_close t = t\<lparr>tu_control := False, tu_relay := None, tu_socket := False\<rparr>"

section \<open>Datagrams\<close>

definition socks_packet :: "sock_addr \<Rightarrow> bytes \<Rightarrow> bytes" where
  "socks_packet dest data =
     [0x00, 0x00, 0x00]
     @ (case fst dest of
          V4 a \<Rightarrow> 0x01 # v4_octets a
        | V6 a \<Rightarrow> 0x04 # v6_octets a)
     @ be_bytes 2 (snd dest) @ data"

text \<open>\<open>sent\<close> is whether the socket takes the datagram; the result is the datagram and its length.\<close>

definition tunnel_send_to :: "bool \<Rightarrow> tunnel \<Rightarrow> sock_addr \<Rightarrow> bytes \<Rightarrow> (bytes \<times> nat) result" where
  "tunnel_send_to sent t dest data =
     (if \<not> tu_socket t then Inl (Error ''Tunnel not connected'')
      else let packet = socks_packet dest data
           in if sent then Inr (packet, length packet) else Inl (Error ''send''))"

definition parse_udp_packet :: "nat \<Rightarrow> bytes \<Rightarrow> (bytes \<times> sock_addr) result" where
  "parse_udp_packet buf_len data =
     (let len = length data in
      if len < 10 then Inl (Error ''Invalid SOCKS5 UDP response'')
      else
        andthen (index data 3) (\<lambda>atyp.
        andthen
          (if atyp = 0x01
           then andthen (slice data 4 8) (\<lambda>ip. andthen (slice data 8 10) (\<lambda>port.
                  Inr ((V4 (v4_from_octets ip), from_be port), 10)))
           else if atyp = 0x04
           then (if len < 22 then Inl (Error ''Invalid SOCKS5 UDP response'')
                 else andthen (slice data 4 20) (\<lambda>ip. andthen (slice data 20 22) (\<lambda>port.
                        Inr ((V6 (v6_from_octets ip), from_be port), 22))))
           else Inl (Error ''Unsupported ATYP in response''))
          (\<lambda>(addr, data_offset).
             if buf_len < len - data_offset then Inl (Error ''Buffer too small'')
             else andthen (slice data data_offset len) (\<lambda>payload. Inr (payload, addr)))))"

text \<open>The socket cuts a datagram at the length of the buffer, which is taken out of the tunnel and put back
  unless receiving fails.\<close>

definition tunnel_recv_from :: "nat \<Rightarrow> bytes option \<Rightarrow> tunnel \<Rightarrow> (bytes \<times> sock_addr) result \<times> tunnel" where
  "tunnel_recv_from buf_len datagram t =
     (if \<not> tu_socket t then (Inl (Error ''Tunnel not connected''), t)
      else let desired = buf_len + 64 in
           case datagram of
             None \<Rightarrow> (Inl (Error ''recv''), t\<lparr>tu_recv_buf := 0\<rparr>)
           | Some bs \<Rightarrow> (parse_udp_packet buf_len (take desired bs), t\<lparr>tu_recv_buf := desired\<rparr>))"

section \<open>Properties\<close>

lemma udp_packet_header:
  "length (socks_packet dest data) = (case fst dest of V4 _ \<Rightarrow> 10 | V6 _ \<Rightarrow> 22) + length data"
  by (simp add: socks_packet_def split: ip_addr.split)

text \<open>A datagram that a relay sends back in the form of the client's own is taken apart into the same address
  and payload, if that fits the buffer.\<close>

lemma parse_udp_packet_roundtrip:
  assumes "length data \<le> buf_len"
  shows "parse_udp_packet buf_len (socks_packet dest data) = Inr (data, dest)"
proof (cases dest)
  case (Pair ip port)
  have v4: "slice ([0, 0, 0, 1] @ v4_octets a @ be_bytes 2 port @ data) 4 8 = Inr (v4_octets a)"
    "slice ([0, 0, 0, 1] @ v4_octets a @ be_bytes 2 port @ data) 8 10 = Inr (be_bytes 2 port)" for a
    by (simp_all add: slice_def)
  have v6: "slice ([0, 0, 0, 4] @ v6_octets a @ be_bytes 2 port @ data) 4 20 = Inr (v6_octets a)"
    "slice ([0, 0, 0, 4] @ v6_octets a @ be_bytes 2 port @ data) 20 22 = Inr (be_bytes 2 port)" for a
    by (simp_all add: slice_def)
  show ?thesis
    using assms v4 v6
    by (cases ip) (simp_all add: Pair parse_udp_packet_def socks_packet_def Let_def slice_def)
qed

lemma tunnel_roundtrip:
  assumes "tu_socket t" and "length data \<le> buf_len" and "tunnel_send_to True t dest data = Inr (packet, n)"
  shows "fst (tunnel_recv_from buf_len (Some packet) t) = Inr (data, dest)"
proof -
  have p: "packet = socks_packet dest data" using assms(1,3) by (simp add: tunnel_send_to_def Let_def)
  have "length packet \<le> buf_len + 64"
    using assms(2) udp_packet_header [of dest data] by (simp add: p split: ip_addr.splits)
  with assms(1) parse_udp_packet_roundtrip [OF assms(2)] show ?thesis by (simp add: tunnel_recv_from_def p)
qed

text \<open>No datagram makes the parser read out of range.\<close>

lemma parse_udp_packet_no_panic: "parse_udp_packet buf_len data \<noteq> Inl Panic"
  by (auto simp: parse_udp_packet_def Let_def andthen_def index_def slice_def split: sum.splits if_splits)

text \<open>The fragment number is not looked at: a fragment is taken for the whole datagram.\<close>

lemma fragment_accepted:
  assumes "length data \<le> buf_len"
  shows "parse_udp_packet buf_len ((socks_packet dest data)[2 := frag]) = Inr (data, dest)"
proof -
  have "parse_udp_packet buf_len (bs[2 := frag]) = parse_udp_packet buf_len bs" for bs
    by (cases bs rule: list.exhaust; cases "tl bs"; cases "tl (tl bs)")
      (auto simp: parse_udp_packet_def Let_def index_def slice_def numeral_eq_Suc split: nat.split)
  then show ?thesis using parse_udp_packet_roundtrip [OF assms] by simp
qed

text \<open>A connected tunnel has the address the proxy gave, with the proxy's own host for an unspecified one.\<close>

lemma tunnel_connect_cases:
  "fst (tunnel_connect E t) = Inr () \<longleftrightarrow> ct_bind E \<and> (\<exists>relay. relay_of E (tu_proxy t) = Inr relay)"
  "fst (tunnel_connect E t) = Inr () \<Longrightarrow> tunnel_is_connected (snd (tunnel_connect E t)) \<and> tu_socket (snd (tunnel_connect E t))"
  "tunnel_is_connected (tunnel_close t) = False"
  by (auto simp: tunnel_connect_def tunnel_is_connected_def tunnel_close_def split: sum.splits)

lemma relay_of_answer:
  assumes "ct_connect E" "ct_write_hello E" "ct_write_request E"
    and "ct_incoming E = [5, 0] @ [5, 0, 0, 1] @ v4_octets a @ be_bytes 2 port @ rest"
  shows "relay_of E proxy = Inr (if a = 0 then fst proxy else V4 a, port)"
  using assms by (simp add: relay_of_def read_bound_def read_exact_def)

end
