(* ===== verification/Recursive_Backend.thy ===== *)
theory Recursive_Backend
  imports Upstreams Cache_Plugin "HOL-Library.Multiset"
begin

text \<open>
  \<open>src/plugins/recursive_backend.rs\<close>: the resolver that the cache refreshes its entries with, which follows
  referrals from the root servers, or asks a trusted resolver.

  Every datagram has a number, and what comes back for it is a parameter, so servers may answer differently each
  time; so are the random IDs, the shuffles, and the trusted resolver (the crate
  \<open>hickory_resolver\<close>).  A subtraction below zero is a panic.  The name of a visited pair is kept as a pair
  instead of its text.
\<close>

datatype recursive_mode = Trusted | Iterative | Hybrid

record recursive_backend =
  rb_mode :: recursive_mode
  rb_trusted_resolver :: bool
  rb_root_servers :: "ip_addr list"

text \<open>\<open>re_ns_name\<close> is the name in the data of an NS record; \<open>re_udp\<close> the datagram that arrives within two
  seconds, \<open>re_tcp\<close> the bytes of the stream, if there is a connection.\<close>

record rec_env =
  re_lib :: dns_lib
  re_ns_name :: "bytes \<Rightarrow> string"
  re_udp :: "nat \<Rightarrow> ip_addr \<Rightarrow> bytes \<Rightarrow> bytes option"
  re_tcp :: "nat \<Rightarrow> ip_addr \<Rightarrow> bytes \<Rightarrow> bytes option"
  re_id :: "nat \<Rightarrow> u16"
  re_shuffle :: "nat \<Rightarrow> ip_addr list \<Rightarrow> ip_addr list"
  re_trusted :: "nat \<Rightarrow> string \<Rightarrow> u16 \<Rightarrow> rr list option"

record rec_state =
  rs_visited :: "(string \<times> u16) set"
  rs_count :: nat

definition tick :: "rec_state \<Rightarrow> rec_state" where
  "tick s = s\<lparr>rs_count := rs_count s + 1\<rparr>"

section \<open>Construction\<close>

definition load_root_hints :: "ip_addr list" where
  "load_root_hints =
     (let v4 = (\<lambda>a b c d. V4 (v4_from_octets [a, b, c, d]));
          v6 = (\<lambda>ws :: u16 list. V6 (v6_from_octets (concat (map (be_bytes 2) ws)))) in
      [v4 198 41 0 4, v6 [0x2001, 0x503, 0xba3e, 0, 0, 0, 0x2, 0x30],
       v4 199 9 14 201, v6 [0x2001, 0x500, 0x200, 0, 0, 0, 0, 0xb],
       v4 192 33 4 12, v6 [0x2001, 0x500, 0x2, 0, 0, 0, 0, 0xc],
       v4 199 7 91 13, v6 [0x2001, 0x500, 0x2d, 0, 0, 0, 0, 0xd],
       v4 192 203 230 10, v6 [0x2001, 0x500, 0xa8, 0, 0, 0, 0, 0xe],
       v4 192 5 5 241, v6 [0x2001, 0x500, 0x2f, 0, 0, 0, 0, 0xf],
       v4 192 112 36 4, v6 [0x2001, 0x500, 0x12, 0, 0, 0, 0, 0xd0d],
       v4 198 97 190 53, v6 [0x2001, 0x500, 0x1, 0, 0, 0, 0, 0x53],
       v4 192 36 148 17, v6 [0x2001, 0x7fe, 0, 0, 0, 0, 0, 0x53],
       v4 192 58 128 30, v6 [0x2001, 0x503, 0xc27, 0, 0, 0, 0x2, 0x30],
       v4 193 0 14 129, v6 [0x2001, 0x7fd, 0, 0, 0, 0, 0, 0x1],
       v4 199 7 83 42, v6 [0x2001, 0x500, 0x9f, 0, 0, 0, 0, 0x42],
       v4 202 12 27 33, v6 [0x2001, 0xdc3, 0, 0, 0, 0, 0, 0x35]])"

definition rb_new_with_mode :: "recursive_mode \<Rightarrow> recursive_backend" where
  "rb_new_with_mode mode =
     \<lparr>rb_mode = mode, rb_trusted_resolver = (mode = Trusted \<or> mode = Hybrid), rb_root_servers = load_root_hints\<rparr>"

definition rb_new :: recursive_backend where
  "rb_new = rb_new_with_mode Hybrid"

definition rb_is_domestic_domain :: "string \<Rightarrow> bool" where
  "rb_is_domestic_domain name =
     (let name_lower = to_lower name in
      list_ex (ends_with name_lower) [''.local'', ''.lan'', ''.home'', ''.internal'']
      \<or> list_ex (ends_with name_lower)
          [''.cn'', ''.com.cn'', ''.net.cn'', ''.org.cn'', ''.gov.cn'', ''.edu.cn'', ''.hk'', ''.tw'', ''.mo'']
      \<or> list_ex (contains_str name_lower)
          [''baidu'', ''taobao'', ''tmall'', ''alipay'', ''aliyun'', ''tencent'', ''qq'', ''weixin'', ''wechat'',
           ''jd'', ''360'', ''sina'', ''sohu'', ''163'', ''126'', ''bilibili'', ''douyin'', ''kuaishou''])"

section \<open>One query\<close>

definition build_query :: "rec_env \<Rightarrow> nat \<Rightarrow> string \<Rightarrow> u16 \<Rightarrow> message" where
  "build_query E n name qt =
     add_query \<lparr>q_name = name, q_type = qt, q_class = 1\<rparr>
       ((lib_new (re_lib E))\<lparr>m_id := re_id E n, m_type := QueryMsg, m_opcode := OpQuery, m_rd := False\<rparr>)"

definition send_tcp_query :: "rec_env \<Rightarrow> nat \<Rightarrow> ip_addr \<Rightarrow> message \<Rightarrow> message result" where
  "send_tcp_query E n server msg =
     (case lib_to_vec (re_lib E) msg of
        None \<Rightarrow> Inl (Error ''encode'')
      | Some req_bytes \<Rightarrow>
          (case Option.bind (re_tcp E n server (tcp_frame req_bytes)) read_framed of
             None \<Rightarrow> Inl (Error ''tcp'')
           | Some (resp_buf, _) \<Rightarrow> parse_message (re_lib E) resp_buf))"

definition send_udp_query :: "rec_env \<Rightarrow> nat \<Rightarrow> ip_addr \<Rightarrow> message \<Rightarrow> message result" where
  "send_udp_query E n server msg =
     (case lib_to_vec (re_lib E) msg of
        None \<Rightarrow> Inl (Error ''encode'')
      | Some req_bytes \<Rightarrow>
          (case re_udp E n server req_bytes of
             None \<Rightarrow> Inl (Error ''timeout'')
           | Some buf \<Rightarrow>
               andthen (parse_message (re_lib E) (take 4096 buf)) (\<lambda>resp.
                 if m_tc resp then send_tcp_query E n server msg else Inr resp)))"

definition extract_ips_from_records :: "rr list \<Rightarrow> ip_addr list" where
  "extract_ips_from_records records = List.map_filter (\<lambda>r. rdata_ip (rr_data r)) records"

definition extract_ns_names :: "rec_env \<Rightarrow> rr list \<Rightarrow> string list" where
  "extract_ns_names E records =
     List.map_filter (\<lambda>r. case rr_data r of RD_Other t bs \<Rightarrow> if t = T_NS then Some (re_ns_name E bs) else None | _ \<Rightarrow> None)
       records"

fun extract_cname_target :: "rr list \<Rightarrow> string option" where
  "extract_cname_target [] = None"
| "extract_cname_target (r # rs) = (case rr_data r of RD_CNAME n \<Rightarrow> Some n | _ \<Rightarrow> extract_cname_target rs)"

definition has_answer_type :: "rr list \<Rightarrow> u16 \<Rightarrow> bool" where
  "has_answer_type records qt = list_ex (\<lambda>r. rr_type r = qt) records"

definition is_nodata :: "message \<Rightarrow> bool" where
  "is_nodata resp \<longleftrightarrow> m_rcode resp = NoError \<and> m_answers resp = [] \<and> list_ex (\<lambda>r. rr_type r = 6) (m_authority resp)"

text \<open>The addresses of the additional section, by the texts of the names, in the order of the name servers.\<close>

definition glue_ips :: "message \<Rightarrow> string list \<Rightarrow> ip_addr list" where
  "glue_ips resp ns_names =
     concat (map (\<lambda>ns. extract_ips_from_records (filter (\<lambda>r. rr_name r = ns) (m_additionals resp))) ns_names)"

section \<open>Following referrals\<close>

definition trusted_ips :: "recursive_backend \<Rightarrow> rec_env \<Rightarrow> string \<Rightarrow> rec_state \<Rightarrow> ip_addr list \<times> rec_state" where
  "trusted_ips B E ns s =
     (if \<not> rb_trusted_resolver B then ([], s)
      else let v4 = (case re_trusted E (rs_count s) ns T_A of
                 Some rs \<Rightarrow> extract_ips_from_records (filter (\<lambda>r. rr_type r = T_A) rs) | None \<Rightarrow> []);
               s = tick s;
               v6 = (case re_trusted E (rs_count s) ns T_AAAA of
                 Some rs \<Rightarrow> extract_ips_from_records (filter (\<lambda>r. rr_type r = T_AAAA) rs) | None \<Rightarrow> [])
           in (v4 @ v6, tick s))"

definition conclusive :: "u16 \<Rightarrow> message \<Rightarrow> bool" where
  "conclusive qt resp \<longleftrightarrow> m_rcode resp = NXDomain \<or> is_nodata resp \<or> has_answer_type (m_answers resp) qt"

text \<open>\<open>query_loop\<close> is the loop over the levels of the hierarchy, \<open>try_servers\<close> that over the servers of one,
  with the last error.\<close>

function (sequential) lookup_iterative_internal ::
    "recursive_backend \<Rightarrow> rec_env \<Rightarrow> string \<Rightarrow> u16 \<Rightarrow> nat \<Rightarrow> nat \<Rightarrow> rec_state \<Rightarrow> message result \<times> rec_state"
  and query_loop ::
    "recursive_backend \<Rightarrow> rec_env \<Rightarrow> string \<Rightarrow> u16 \<Rightarrow> nat \<Rightarrow> nat \<Rightarrow> ip_addr list \<Rightarrow> rec_state \<Rightarrow> message result \<times> rec_state"
  and try_servers ::
    "recursive_backend \<Rightarrow> rec_env \<Rightarrow> string \<Rightarrow> u16 \<Rightarrow> nat \<Rightarrow> nat \<Rightarrow> ip_addr list \<Rightarrow> rust_error option \<Rightarrow> rec_state
       \<Rightarrow> message result \<times> rec_state"
  and resolve_ns_ips_iterative ::
    "recursive_backend \<Rightarrow> rec_env \<Rightarrow> string list \<Rightarrow> nat \<Rightarrow> nat \<Rightarrow> ip_addr list \<Rightarrow> rec_state \<Rightarrow> ip_addr list \<times> rec_state"
  where
  "lookup_iterative_internal B E name qt depth_left cname_depth s =
     (if depth_left = 0 then (Inl (Error ''Iterative depth exceeded''), s)
      else if cname_depth = 0 then (Inl (Error ''CNAME chain too deep''), s)
      else if (name, qt) \<in> rs_visited s then (Inl (Error ''Iterative loop detected''), s)
      else query_loop B E name qt depth_left cname_depth (re_shuffle E (rs_count s) (rb_root_servers B))
             (s\<lparr>rs_visited := insert (name, qt) (rs_visited s)\<rparr>))"
| "query_loop B E name qt depth_left cname_depth ns_ips s =
     (if depth_left = 0 then (Inl (Error ''Iterative depth exceeded''), s)
      else try_servers B E name qt depth_left cname_depth (take 6 ns_ips) None s)"
| "try_servers B E name qt depth_left cname_depth [] last_error s =
     (Inl (case last_error of Some e \<Rightarrow> e | None \<Rightarrow> Error ''Iterative lookup failed: no responsive nameserver''), s)"
| "try_servers B E name qt depth_left cname_depth (server # servers) last_error s =
     (case send_udp_query E (rs_count s) server (build_query E (rs_count s) name qt) of
        Inl e \<Rightarrow> try_servers B E name qt depth_left cname_depth servers (Some e) (tick s)
      | Inr resp \<Rightarrow>
          if conclusive qt resp then (Inr resp, tick s)
          else if depth_left = 0 then (Inl Panic, tick s)
          else case extract_cname_target (m_answers resp) of
                 Some cname \<Rightarrow>
                   if cname_depth = 0 then (Inl Panic, tick s)
                   else lookup_iterative_internal B E cname qt (depth_left - 1) (cname_depth - 1) (tick s)
               | None \<Rightarrow>
                   let ns_names = extract_ns_names E (m_authority resp) in
                   if ns_names = [] then try_servers B E name qt depth_left cname_depth servers last_error (tick s)
                   else let glue = glue_ips resp ns_names;
                            (next_ns_ips, s) =
                              (if glue = [] then resolve_ns_ips_iterative B E ns_names (depth_left - 1) cname_depth [] (tick s)
                               else (glue, tick s))
                        in if next_ns_ips \<noteq> []
                           then query_loop B E name qt (depth_left - 1) cname_depth (re_shuffle E (rs_count s) next_ns_ips) s
                           else try_servers B E name qt depth_left cname_depth servers last_error s)"
| "resolve_ns_ips_iterative B E [] depth_left cname_depth ips s = (ips, s)"
| "resolve_ns_ips_iterative B E (ns # ns_names) depth_left cname_depth ips s =
     (let (r, s) = lookup_iterative_internal B E ns T_A depth_left cname_depth s;
          ips = ips @ (case r of Inr msg \<Rightarrow> extract_ips_from_records (m_answers msg) | Inl e \<Rightarrow> []);
          (r, s) = lookup_iterative_internal B E ns T_AAAA depth_left cname_depth s;
          ips = ips @ (case r of Inr msg \<Rightarrow> extract_ips_from_records (m_answers msg) | Inl e \<Rightarrow> []);
          (ips, s) = (if ips \<noteq> [] then (ips, s) else trusted_ips B E ns s)
      in resolve_ns_ips_iterative B E ns_names depth_left cname_depth ips s)"
  by pat_completeness auto

termination
  by (relation "measures
      [\<lambda>x. case x of
         Inl (Inl (B, E, name, qt, depth, c, s)) \<Rightarrow> depth | Inl (Inr (B, E, name, qt, depth, c, ips, s)) \<Rightarrow> depth
       | Inr (Inl (B, E, name, qt, depth, c, ips, e, s)) \<Rightarrow> depth | Inr (Inr (B, E, ns, depth, c, ips, s)) \<Rightarrow> depth,
       \<lambda>x. case x of Inl (Inl _) \<Rightarrow> 2 | Inl (Inr _) \<Rightarrow> 1 | Inr (Inl _) \<Rightarrow> 0 | Inr (Inr _) \<Rightarrow> (3 :: nat),
       \<lambda>x. case x of Inr (Inl (B, E, name, qt, depth, c, ips, e, s)) \<Rightarrow> length ips
       | Inr (Inr (B, E, ns, depth, c, ips, s)) \<Rightarrow> length ns | _ \<Rightarrow> 0]") auto

declare lookup_iterative_internal.simps [simp del] query_loop.simps [simp del]
  try_servers.simps(2) [simp del] resolve_ns_ips_iterative.simps(2) [simp del]

lemmas iterative_induct = lookup_iterative_internal_query_loop_try_servers_resolve_ns_ips_iterative.induct

section \<open>Lookups\<close>

definition lookup_iterative :: "recursive_backend \<Rightarrow> rec_env \<Rightarrow> string \<Rightarrow> u16 \<Rightarrow> nat \<Rightarrow> message result \<times> nat" where
  "lookup_iterative B E name_str qt n =
     (case lib_name_from_ascii (re_lib E) name_str of
        None \<Rightarrow> (Inl (Error ''name''), n)
      | Some name \<Rightarrow>
          let (r, s) = lookup_iterative_internal B E name qt 15 8 \<lparr>rs_visited = {}, rs_count = n\<rparr>
          in (r, rs_count s))"

definition lookup_trusted :: "recursive_backend \<Rightarrow> rec_env \<Rightarrow> string \<Rightarrow> u16 \<Rightarrow> nat \<Rightarrow> message result \<times> nat" where
  "lookup_trusted B E name_str qt n =
     (if \<not> rb_trusted_resolver B then (Inl (Error ''Trusted resolver not initialized''), n)
      else case lib_name_from_ascii (re_lib E) name_str of
             None \<Rightarrow> (Inl (Error ''name''), n)
           | Some name \<Rightarrow>
               (case re_trusted E n name qt of
                  None \<Rightarrow> (Inl (Error ''Trusted lookup error''), n + 1)
                | Some records \<Rightarrow>
                    (Inr ((lib_new (re_lib E))\<lparr>m_id := 0, m_type := ResponseMsg, m_rcode := NoError, m_aa := False,
                       m_answers := m_answers (lib_new (re_lib E)) @ records\<rparr>), n + 1)))"

definition rb_lookup :: "recursive_backend \<Rightarrow> rec_env \<Rightarrow> string \<Rightarrow> u16 \<Rightarrow> nat \<Rightarrow> message result \<times> nat" where
  "rb_lookup B E name_str qt n =
     (case rb_mode B of
        Trusted \<Rightarrow> lookup_trusted B E name_str qt n
      | Iterative \<Rightarrow> lookup_iterative B E name_str qt n
      | Hybrid \<Rightarrow>
          if rb_is_domestic_domain name_str then lookup_trusted B E name_str qt n
          else case lookup_iterative B E name_str qt n of
                 (Inr msg, n) \<Rightarrow> (Inr msg, n)
               | (Inl Panic, n) \<Rightarrow> (Inl Panic, n)
               | (Inl (Error e), n) \<Rightarrow> lookup_trusted B E name_str qt n)"

section \<open>What an answer is\<close>

text \<open>A message that a server sent for a query of the resolver, that ends the search.\<close>

definition answered :: "rec_env \<Rightarrow> u16 \<Rightarrow> message \<Rightarrow> bool" where
  "answered E qt m \<longleftrightarrow> conclusive qt m
     \<and> (\<exists>n server name. send_udp_query E n server (build_query E n name qt) = Inr m)"

definition outcome_ok :: "rec_env \<Rightarrow> u16 \<Rightarrow> message result \<Rightarrow> bool" where
  "outcome_ok E qt r \<longleftrightarrow> (case r of Inl e \<Rightarrow> e \<noteq> Panic | Inr m \<Rightarrow> answered E qt m)"

lemma outcome_ok_simps [simp]:
  "outcome_ok E qt (Inl e) \<longleftrightarrow> e \<noteq> Panic" "outcome_ok E qt (Inr m) \<longleftrightarrow> answered E qt m"
  by (simp_all add: outcome_ok_def)

lemma send_no_panic: "send_tcp_query E n server msg \<noteq> Inl Panic" "send_udp_query E n server msg \<noteq> Inl Panic"
proof -
  have p: "parse_message L bs \<noteq> Inl Panic" for L bs by (simp add: parse_message_def split: option.split)
  then show t: "send_tcp_query E n server msg \<noteq> Inl Panic"
    by (simp add: send_tcp_query_def split: option.split)
  then show "send_udp_query E n server msg \<noteq> Inl Panic"
    using p by (auto simp: send_udp_query_def andthen_def split: option.split sum.split)
qed

lemma iterative_outcome:
  "outcome_ok E qt (fst (lookup_iterative_internal B E name qt d c s))"
  "c > 0 \<Longrightarrow> outcome_ok E qt (fst (query_loop B E name qt d c ips s))"
  "d > 0 \<Longrightarrow> c > 0 \<Longrightarrow> err \<noteq> Some Panic \<Longrightarrow> outcome_ok E qt (fst (try_servers B E name qt d c ips err s))"
  "resolve_ns_ips_iterative B E names d c acc s = resolve_ns_ips_iterative B E names d c acc s"
proof (induction B E name qt d c s and B E name qt d c ips s and B E name qt d c ips err s and B E names d c acc s
    rule: iterative_induct)
  case (1 B E name qt d c s)
  then show ?case by (simp add: lookup_iterative_internal.simps [of B E name qt d c s])
next
  case (2 B E name qt d c ips s)
  then show ?case by (simp add: query_loop.simps [of B E name qt d c ips s])
next
  case (3 B E name qt d c err s)
  then show ?case by (cases err) simp_all
next
  case (4 B E name qt d c server servers err s)
  show ?case
  proof (cases "send_udp_query E (rs_count s) server (build_query E (rs_count s) name qt)")
    case (Inl e)
    moreover have "e \<noteq> Panic" using send_no_panic(2) Inl by metis
    ultimately show ?thesis using 4 by (simp add: try_servers.simps(2))
  next
    case (Inr resp)
    then have "conclusive qt resp \<Longrightarrow> answered E qt resp" by (auto simp: answered_def)
    with Inr 4 show ?thesis
      by (simp add: try_servers.simps(2) Let_def split: option.split prod.split)
  qed
qed simp_all

text \<open>C33: A lookup from the roots never panics, and what it answers is a message that a server sent to a query
  of the resolver and that ends the search: NXDOMAIN, no data, or records of the type asked for.\<close>

theorem iterative_conclusive:
  "case fst (lookup_iterative B E name_str qt n) of
     Inl e \<Rightarrow> e \<noteq> Panic
   | Inr m \<Rightarrow> conclusive qt m \<and> (\<exists>k server name. send_udp_query E k server (build_query E k name qt) = Inr m)"
proof (cases "lib_name_from_ascii (re_lib E) name_str")
  case (Some name)
  then have "fst (lookup_iterative B E name_str qt n)
      = fst (lookup_iterative_internal B E name qt 15 8 \<lparr>rs_visited = {}, rs_count = n\<rparr>)"
    by (simp add: lookup_iterative_def split_beta)
  with iterative_outcome(1) [of E qt B name 15 8 "\<lparr>rs_visited = {}, rs_count = n\<rparr>"] show ?thesis
    by (simp only: outcome_ok_def answered_def)
qed (simp add: lookup_iterative_def)

section \<open>How many queries a lookup can send\<close>

text \<open>\<open>k\<close> bounds the name servers of one referral.\<close>

definition referrals_limited :: "rec_env \<Rightarrow> nat \<Rightarrow> bool" where
  "referrals_limited E k \<longleftrightarrow>
     (\<forall>n server q resp. send_udp_query E n server q = Inr resp \<longrightarrow> length (extract_ns_names E (m_authority resp)) \<le> k)"

fun query_limit :: "nat \<Rightarrow> nat \<Rightarrow> nat" where
  "query_limit k 0 = 0"
| "query_limit k (Suc d) = 6 * (1 + k * (2 * query_limit k d + 2)) + query_limit k d"

lemma query_limit_closed: "query_limit k d < (12 * k + 7) ^ d"
proof (induction d)
  case (Suc d)
  let ?q = "query_limit k d" and ?p = "(12 * k + 7) ^ d"
  have "query_limit k (Suc d) + 1 \<le> (12 * k + 7) * (?q + 1)" by (simp add: algebra_simps)
  also have "\<dots> \<le> (12 * k + 7) * ?p" using Suc by (intro mult_le_mono) auto
  finally show ?case by simp
qed simp

lemma tick_count [simp]: "rs_count (tick s) = rs_count s + 1"
  by (simp add: tick_def)

lemma trusted_ips_count: "trusted_ips B E ns s = (ips, s') \<Longrightarrow> rs_count s' \<le> rs_count s + 2"
  by (auto simp: trusted_ips_def Let_def split: if_splits)

lemma iterative_count:
  "referrals_limited E k \<Longrightarrow> rs_count (snd (lookup_iterative_internal B E name qt d c s)) \<le> rs_count s + query_limit k d"
  "referrals_limited E k \<Longrightarrow> rs_count (snd (query_loop B E name qt d c ips s)) \<le> rs_count s + query_limit k d"
  "referrals_limited E k \<Longrightarrow> rs_count (snd (try_servers B E name qt d c ips err s))
     \<le> rs_count s + length ips * (1 + k * (2 * query_limit k (d - 1) + 2)) + query_limit k (d - 1)"
  "referrals_limited E k \<Longrightarrow> rs_count (snd (resolve_ns_ips_iterative B E names d c acc s))
     \<le> rs_count s + length names * (2 * query_limit k d + 2)"
proof (induction B E name qt d c s and B E name qt d c ips s and B E name qt d c ips err s and B E names d c acc s
    rule: iterative_induct)
  case (1 B E name qt d c s)
  then show ?case by (simp add: lookup_iterative_internal.simps [of B E name qt d c s])
next
  case (2 B E name qt d c ips s)
  show ?case
  proof (cases d)
    case (Suc d')
    let ?X = "1 + k * (2 * query_limit k d' + 2)"
    have "length (take 6 ips) * ?X \<le> 6 * ?X" by (intro mult_le_mono) auto
    with 2 Suc show ?thesis by (simp add: query_loop.simps [of B E name qt "Suc d'" c ips s])
  qed (simp add: query_loop.simps [of B E name qt 0 c ips s])
next
  case (4 B E name qt d c server servers err s)
  let ?Q = "query_limit k (d - 1)" and ?send = "send_udp_query E (rs_count s) server (build_query E (rs_count s) name qt)"
  show ?case
  proof (cases ?send)
    case (Inl e)
    with 4 show ?thesis by (simp add: try_servers.simps(2))
  next
    case (Inr resp)
    let ?ns = "extract_ns_names E (m_authority resp)"
    have "length ?ns \<le> k" using "4.prems" Inr unfolding referrals_limited_def by blast
    then have ns: "length ?ns * (2 * ?Q + 2) \<le> k * (2 * ?Q + 2)" by (rule mult_le_mono1)
    let ?W = "1 + k * (2 * ?Q + 2)" and ?cn = "extract_cname_target (m_answers resp)"
    show ?thesis
    proof (cases "conclusive qt resp \<or> d = 0 \<or> ?cn \<noteq> None \<or> ?ns = []")
      case True
      have cname: "rs_count (snd (lookup_iterative_internal B E cn qt (d - 1) (c - 1) (tick s))) \<le> rs_count s + 1 + ?Q"
        if "\<not> conclusive qt resp" "d \<noteq> 0" "?cn = Some cn" "c \<noteq> 0" for cn
        using "4.IH"(6) [OF Inr that "4.prems"] by simp
      have none: "rs_count (snd (try_servers B E name qt d c servers err (tick s))) \<le> rs_count s + 1 + length servers * ?W + ?Q"
        if "\<not> conclusive qt resp" "d \<noteq> 0" "?cn = None" "?ns = []"
        using "4.IH"(2) [OF Inr that(1-3) refl that(4) "4.prems"] by simp
      have "length (server # servers) * ?W = ?W + length servers * ?W" by simp
      with True cname none Inr show ?thesis
        by (cases ?cn) (auto simp: try_servers.simps(2) [of B E name qt d c server servers err s] Let_def intro: le_trans)
    next
      case False
      then have step: "\<not> conclusive qt resp" "d \<noteq> 0" "?cn = None" "?ns \<noteq> []" by auto
      obtain ips' s' where next_: "(if glue_ips resp ?ns = [] then resolve_ns_ips_iterative B E ?ns (d - 1) c [] (tick s)
          else (glue_ips resp ?ns, tick s)) = (ips', s')" by fastforce
      have "rs_count s' \<le> rs_count s + ?W"
      proof (cases "glue_ips resp ?ns = []")
        case True
        with "4.IH"(3) [OF Inr step(1-3) refl step(4) refl True "4.prems"] next_ ns show ?thesis by simp
      qed (use next_ in auto)
      moreover have "rs_count (snd (query_loop B E name qt (d - 1) c (re_shuffle E (rs_count s') ips') s')) \<le> rs_count s' + ?Q"
        if "ips' \<noteq> []" using "4.IH"(4) [OF Inr step(1-3) refl step(4) refl refl next_ [symmetric] that "4.prems"] .
      moreover have "rs_count (snd (try_servers B E name qt d c servers err s')) \<le> rs_count s' + length servers * ?W + ?Q"
        if "ips' = []" using "4.IH"(5) [OF Inr step(1-3) refl step(4) refl refl next_ [symmetric] _ "4.prems"] that by simp
      moreover have "try_servers B E name qt d c (server # servers) err s
          = (if ips' \<noteq> [] then query_loop B E name qt (d - 1) c (re_shuffle E (rs_count s') ips') s'
             else try_servers B E name qt d c servers err s')"
        using Inr step next_ by (simp add: try_servers.simps(2) [of B E name qt d c server servers err s] Let_def)
      moreover have "length (server # servers) * ?W = ?W + length servers * ?W" by simp
      ultimately show ?thesis by (cases "ips' = []") auto
    qed
  qed
next
  case (6 B E ns names d c acc s)
  obtain r1 s1 where 1: "lookup_iterative_internal B E ns T_A d c s = (r1, s1)" by fastforce
  let ?ips1 = "acc @ (case r1 of Inr msg \<Rightarrow> extract_ips_from_records (m_answers msg) | Inl e \<Rightarrow> [])"
  obtain r2 s2 where 2: "lookup_iterative_internal B E ns T_AAAA d c s1 = (r2, s2)" by fastforce
  let ?ips2 = "?ips1 @ (case r2 of Inr msg \<Rightarrow> extract_ips_from_records (m_answers msg) | Inl e \<Rightarrow> [])"
  obtain ips3 s3 where 3: "(if ?ips2 \<noteq> [] then (?ips2, s2) else trusted_ips B E ns s2) = (ips3, s3)" by fastforce
  note step = 1 [symmetric] refl 2 [symmetric] refl 3 [symmetric]
  have "rs_count s1 \<le> rs_count s + query_limit k d" using "6.IH"(1) [OF "6.prems"] 1 by simp
  moreover have "rs_count s2 \<le> rs_count s1 + query_limit k d"
    using "6.IH"(2) [OF 1 [symmetric] refl refl "6.prems"] 2 by simp
  moreover have "rs_count s3 \<le> rs_count s2 + 2" using 3 trusted_ips_count [of B E ns s2 ips3 s3] by (auto split: if_splits)
  moreover have "rs_count (snd (resolve_ns_ips_iterative B E names d c ips3 s3)) \<le> rs_count s3 + length names * (2 * query_limit k d + 2)"
    using "6.IH"(3) [OF 1 [symmetric] refl refl 2 [symmetric] refl refl 3 [symmetric] refl "6.prems"] .
  moreover have "resolve_ns_ips_iterative B E (ns # names) d c acc s = resolve_ns_ips_iterative B E names d c ips3 s3"
    by (simp only: resolve_ns_ips_iterative.simps(2) 1 2 3 Let_def prod.case)
  ultimately show ?case by simp
qed simp_all

text \<open>With at most \<open>k\<close> name servers in every referral a lookup ends after fewer than $(12k+7)^{15}$ datagrams.\<close>

lemma iterative_bounded:
  assumes "referrals_limited E k"
  shows "snd (lookup_iterative B E name_str qt n) \<le> n + (12 * k + 7) ^ 15"
proof (cases "lib_name_from_ascii (re_lib E) name_str")
  case (Some name)
  let ?r = "lookup_iterative_internal B E name qt 15 8 \<lparr>rs_visited = {}, rs_count = n\<rparr>"
  have "snd (lookup_iterative B E name_str qt n) = rs_count (snd ?r)"
    using Some by (simp add: lookup_iterative_def split_beta)
  also have "\<dots> \<le> n + query_limit k 15"
    using iterative_count(1) [OF assms, of B name qt 15 8 "\<lparr>rs_visited = {}, rs_count = n\<rparr>"] by simp
  finally show ?thesis using query_limit_closed [of k 15] by linarith
qed (simp add: lookup_iterative_def)

section \<open>Following a delegation\<close>

text \<open>What the name servers have to do for a name: a server that is not \<open>down\<close> always answers, and whoever
  answers gives a final message in \<open>auth\<close> or a referral whose glue leads on in fewer levels.\<close>

fun delegated :: "rec_env \<Rightarrow> (ip_addr \<Rightarrow> bool) \<Rightarrow> (message \<Rightarrow> bool) \<Rightarrow> string \<Rightarrow> u16 \<Rightarrow> nat \<Rightarrow> ip_addr list \<Rightarrow> bool" where
  "delegated E down auth name qt 0 ips \<longleftrightarrow> False"
| "delegated E down auth name qt (Suc l) ips \<longleftrightarrow>
     length (filter down ips) < min 6 (length ips)
     \<and> (\<forall>server \<in> set ips. \<forall>n. case send_udp_query E n server (build_query E n name qt) of
           Inl e \<Rightarrow> down server
         | Inr resp \<Rightarrow>
             if conclusive qt resp then auth resp
             else extract_cname_target (m_answers resp) = None
               \<and> (let ns_names = extract_ns_names E (m_authority resp) in
                  ns_names \<noteq> [] \<and> delegated E down auth name qt l (glue_ips resp ns_names)))"

definition shuffles :: "rec_env \<Rightarrow> bool" where
  "shuffles E \<longleftrightarrow> (\<forall>n xs. mset (re_shuffle E n xs) = mset xs)"

lemma delegated_perm:
  assumes "mset xs = mset ys"
  shows "delegated E down auth name qt l xs = delegated E down auth name qt l ys"
proof -
  have "length (filter down xs) = length (filter down ys)" "length xs = length ys" "set xs = set ys"
    using assms by (metis mset_filter size_mset, metis size_mset, metis set_mset_mset)
  then show ?thesis by (cases l) simp_all
qed

lemma one_answers:
  assumes "length (filter P xs) < min k (length xs)"
  shows "\<exists>x \<in> set (take k xs). \<not> P x"
proof (rule ccontr)
  assume "\<not> ?thesis"
  then have "filter P (take k xs) = take k xs" by (simp add: filter_id_conv)
  moreover have "length (filter P xs) = length (filter P (take k xs)) + length (filter P (drop k xs))"
    by (metis append_take_drop_id filter_append length_append)
  ultimately show False using assms by (simp add: min_def split: if_splits)
qed

lemma delegated_nonempty: "delegated E down auth name qt l ips \<Longrightarrow> ips \<noteq> []"
  by (cases l) auto

lemma query_loop_delegated:
  assumes "shuffles E"
  shows "delegated E down auth name qt l ips \<Longrightarrow> l \<le> d \<Longrightarrow>
    \<exists>m s'. query_loop B E name qt d c ips s = (Inr m, s') \<and> auth m \<and> conclusive qt m \<and> rs_count s' \<le> rs_count s + 6 * l"
proof (induction l arbitrary: d ips s)
  case (Suc l)
  have servers: "\<exists>m s'. try_servers B E name qt d c xs err s = (Inr m, s') \<and> auth m \<and> conclusive qt m
      \<and> rs_count s' \<le> rs_count s + length xs + 6 * l"
    if "set xs \<subseteq> set ips" "\<exists>x \<in> set xs. \<not> down x" for xs err s
    using that
  proof (induction xs arbitrary: err s)
    case (Cons x xs)
    let ?send = "send_udp_query E (rs_count s) x (build_query E (rs_count s) name qt)"
    show ?case
    proof (cases ?send)
      case (Inl e)
      with Suc.prems(1) Cons.prems(1) have "down x" by (auto dest: bspec [of _ _ x] split: sum.splits)
      with Cons.IH [of "Some e" "tick s"] Cons.prems Inl show ?thesis by (fastforce simp: try_servers.simps(2))
    next
      case (Inr resp)
      with Suc.prems(1) Cons.prems(1) have ok: "if conclusive qt resp then auth resp
          else extract_cname_target (m_answers resp) = None
            \<and> (let ns_names = extract_ns_names E (m_authority resp) in
               ns_names \<noteq> [] \<and> delegated E down auth name qt l (glue_ips resp ns_names))"
        by (auto dest!: bspec [of _ _ x] spec [of _ "rs_count s"])
      show ?thesis
      proof (cases "conclusive qt resp")
        case True
        with Inr ok show ?thesis by (auto simp: try_servers.simps(2))
      next
        case False
        let ?glue = "glue_ips resp (extract_ns_names E (m_authority resp))"
        let ?next = "re_shuffle E (rs_count (tick s)) ?glue"
        have glue: "delegated E down auth name qt l ?glue" using False ok by (simp add: Let_def)
        then have nxt: "delegated E down auth name qt l ?next"
          using delegated_perm assms unfolding shuffles_def by metis
        have "l \<le> d - 1" using Suc.prems(2) by simp
        from Suc.IH [OF nxt this, of "tick s"] obtain m s' where
          "query_loop B E name qt (d - 1) c ?next (tick s) = (Inr m, s')"
          "auth m" "conclusive qt m" "rs_count s' \<le> rs_count (tick s) + 6 * l" by blast
        moreover have "d \<noteq> 0" using Suc.prems(2) by simp
        moreover have "?glue \<noteq> []" using glue by (rule delegated_nonempty)
        ultimately show ?thesis using Inr False ok by (auto simp: try_servers.simps(2) Let_def)
      qed
    qed
  qed simp
  have "\<exists>x \<in> set (take 6 ips). \<not> down x" using Suc.prems(1) by (intro one_answers) simp
  from servers [OF set_take_subset this, of None s] obtain m s' where
    "try_servers B E name qt d c (take 6 ips) None s = (Inr m, s')" "auth m" "conclusive qt m"
    "rs_count s' \<le> rs_count s + length (take 6 ips) + 6 * l" by blast
  then show ?case using Suc.prems(2) by (auto simp: query_loop.simps [of B E name qt d c ips s])
qed simp

text \<open>C32: When a name is delegated from the roots in at most fifteen levels of servers with glue, fewer of each
  level fail than are tried, and the shuffles only reorder, the lookup returns a final answer of the delegation,
  after at most six datagrams for every level.\<close>

theorem iterative_follows:
  assumes "shuffles E" "lib_name_from_ascii (re_lib E) name_str = Some name"
    and "delegated E down auth name qt l (rb_root_servers B)" "l \<le> 15"
  shows "\<exists>m n'. lookup_iterative B E name_str qt n = (Inr m, n') \<and> auth m \<and> conclusive qt m \<and> n' \<le> n + 6 * l"
proof -
  let ?roots = "re_shuffle E n (rb_root_servers B)" and ?s = "\<lparr>rs_visited = {(name, qt)}, rs_count = n\<rparr>"
  have "delegated E down auth name qt l ?roots" using assms(1,3) delegated_perm unfolding shuffles_def by metis
  then obtain m s' where "query_loop B E name qt 15 8 ?roots ?s = (Inr m, s')" "auth m" "conclusive qt m"
      "rs_count s' \<le> n + 6 * l"
    using query_loop_delegated [OF assms(1) _ assms(4), of down auth name qt ?roots B 8 ?s] by auto
  then show ?thesis using assms(2)
    by (simp add: lookup_iterative_def lookup_iterative_internal.simps [of B E name qt 15])
qed

text \<open>Roots of which one is silent refer to one server, which answers.\<close>

definition sample_referral :: message where
  "sample_referral = sample_msg\<lparr>
     m_authority := [\<lparr>rr_name = ''example.'', rr_ttl = 60, rr_data = RD_Other T_NS []\<rparr>],
     m_additionals := [\<lparr>rr_name = ''ns.example.'', rr_ttl = 60, rr_data = RD_A 0x01020304\<rparr>]\<rparr>"

definition sample_final :: message where
  "sample_final = sample_msg\<lparr>m_answers := [\<lparr>rr_name = ''www.example.'', rr_ttl = 60, rr_data = RD_A 0x05060708\<rparr>]\<rparr>"

definition sample_rec_env :: rec_env where
  "sample_rec_env =
     \<lparr>re_lib = sample_lib\<lparr>lib_from_vec := (\<lambda>bs. Some (if bs = [0] then sample_referral else sample_final))\<rparr>,
      re_ns_name = (\<lambda>bs. ''ns.example.''),
      re_udp = (\<lambda>n server bs. if server = hd load_root_hints then None
                              else if server = V4 0x01020304 then Some [1] else Some [0]),
      re_tcp = (\<lambda>n server bs. None), re_id = of_nat, re_shuffle = (\<lambda>n. rev),
      re_trusted = (\<lambda>n name qt. None)\<rparr>"

lemma sample_answers:
  "send_udp_query sample_rec_env n server (build_query sample_rec_env n name qt) =
     (if server = hd load_root_hints then Inl (Error ''timeout'')
      else if server = V4 0x01020304 then Inr sample_final else Inr sample_referral)"
  by (simp add: send_udp_query_def sample_rec_env_def sample_lib_def parse_message_def andthen_def
      sample_referral_def sample_final_def sample_msg_def)

lemma sample_messages [simp]:
  "conclusive T_A sample_final" "\<not> conclusive T_A sample_referral"
  "extract_cname_target (m_answers sample_referral) = None"
  "extract_ns_names sample_rec_env (m_authority sample_referral) = [''ns.example.'']"
  "glue_ips sample_referral [''ns.example.''] = [V4 0x01020304]"
  by (simp_all add: conclusive_def is_nodata_def has_answer_type_def sample_final_def sample_referral_def sample_msg_def
      extract_ns_names_def glue_ips_def extract_ips_from_records_def List.map_filter_simps sample_rec_env_def)

lemma sample_roots:
  "length (filter (\<lambda>server. server = hd load_root_hints) load_root_hints) = 1" "length load_root_hints = 26"
  "V4 0x01020304 \<noteq> hd load_root_hints" "V4 0x01020304 \<notin> set load_root_hints"
  by (simp_all add: load_root_hints_def Let_def v4_from_octets_def from_be_def)

lemma sample_delegated:
  "delegated sample_rec_env (\<lambda>server. server = hd load_root_hints) (\<lambda>m. m = sample_final) ''www.example.'' T_A 2
     (rb_root_servers rb_new)"
proof -
  have "server \<noteq> V4 0x01020304" if "server \<in> set load_root_hints" for server
    using that sample_roots(4) by auto
  with sample_roots(1-3) show ?thesis
    by (auto simp: numeral_2_eq_2 rb_new_def rb_new_with_mode_def sample_answers Let_def)
qed

lemma iterative_follows_witness:
  "\<exists>m n'. lookup_iterative rb_new sample_rec_env ''www.example.'' T_A 0 = (Inr m, n') \<and> m = sample_final
     \<and> conclusive T_A m \<and> n' \<le> 0 + 6 * 2"
  by (rule iterative_follows [OF _ _ sample_delegated])
    (simp_all add: shuffles_def sample_rec_env_def sample_lib_def)

text \<open>Only the first six servers of a level are asked, IPv6 ones included: when these fail the lookup fails.\<close>

lemma unlucky_shuffle:
  assumes "\<And>server n. server \<in> set (take 6 ips) \<Longrightarrow> \<exists>e. send_udp_query E n server (build_query E n name qt) = Inl e"
  shows "\<exists>e. fst (query_loop B E name qt d c ips s) = Inl e"
proof -
  have "\<exists>e. fst (try_servers B E name qt d c xs err s) = Inl e" if "set xs \<subseteq> set (take 6 ips)" for xs err s
    using that
  proof (induction xs arbitrary: err s)
    case (Cons x xs)
    then obtain e where "send_udp_query E (rs_count s) x (build_query E (rs_count s) name qt) = Inl e"
      using assms by (metis list.set_intros(1) subsetD)
    with Cons show ?case by (simp add: try_servers.simps(2))
  qed simp
  then show ?thesis by (simp add: query_loop.simps [of B E name qt d c ips s])
qed

section \<open>What a refresh by the trusted resolver leaves in the cache\<close>

text \<open>The reply that a refresh by the trusted resolver stores has no question, and it is what the next clients
  are sent: until its TTL has passed, a query with the key of the refreshed entry is answered with the bytes of a
  message without a question section.\<close>

lemma refresh_without_question:
  assumes "new_is_empty (re_lib E)" "serial_header (re_lib E)"
    and "lookup_trusted B E name qt n = (Inr msg, n')" "lib_to_vec (re_lib E) msg = Some raw"
    and "get_key c = Some key" "unat now2 - unat now < unat (calculate_ttl p msg)"
  shows "m_queries msg = [] \<and> (\<exists>c' job.
      let p' = refresh_done (re_lib E) now (Recursive_Refresh key name qt backup) (Some msg) forward_answer p in
      cache_handle hook now2 p' s c = Inr (c', p', record_cache_hit s, job)
    \<and> map_option zc_raw (raw_response c') = Some (id_patched c raw) \<and> ctx_abort c')"
proof
  show "m_queries msg = []"
    using assms(1,3) by (auto simp: lookup_trusted_def new_is_empty_def split: if_splits option.splits)
  let ?t = "calculate_ttl p msg" and ?e = "ce_new_with_bytes now msg (calculate_ttl p msg) raw"
  let ?p = "refresh_done (re_lib E) now (Recursive_Refresh key name qt backup) (Some msg) forward_answer p"
  have t: "0 < ?t" using assms(6) by (simp add: word_less_nat_alt)
  then have p: "cp_cache ?p key = Some ?e"
    using assms(4) by (simp add: refresh_done_def refresh_store_def cache_insert_def Let_def)
  obtain c' where c': "cache_reply ?e c = Inr c'" "ctx_abort c'"
      "map_option zc_raw (raw_response c') = Some (id_patched c raw)"
    by (rule cache_reply_cases [OF assms(2), of now msg ?t c]) (use assms(4) in \<open>auto simp: raw_of_def\<close>)
  have "0 < ce_remaining now2 ?e" using assms(6) by (simp add: ce_remaining_pos)
  with p c' assms(5) show "\<exists>c' job. let p' = ?p in cache_handle hook now2 p' s c = Inr (c', p', record_cache_hit s, job)
      \<and> map_option zc_raw (raw_response c') = Some (id_patched c raw) \<and> ctx_abort c'"
    by (auto simp: cache_handle_def Let_def)
qed

definition sample_trusted_env :: rec_env where
  "sample_trusted_env = sample_rec_env\<lparr>re_lib := sample_lib, re_trusted := (\<lambda>n name qt. Some (m_answers sample_answer))\<rparr>"

definition sample_trusted_answer :: message where
  "sample_trusted_answer = sample_answer\<lparr>m_type := ResponseMsg\<rparr>"

lemma refresh_without_question_witness:
  "m_queries sample_trusted_answer = [] \<and> (\<exists>c' job.
      let p' = refresh_done sample_lib 1000 (Recursive_Refresh sample_key ''a.'' T_A None) (Some sample_trusted_answer) None
        sample_cache in
      cache_handle () 1055 p' stats_new (sample_ctx 9) = Inr (c', p', record_cache_hit stats_new, job)
    \<and> map_option zc_raw (raw_response c') = Some (id_patched (sample_ctx 9) (be_bytes 2 (0 :: u16) @ replicate 10 0))
    \<and> ctx_abort c')"
proof -
  have L: "re_lib sample_trusted_env = sample_lib" by (simp add: sample_trusted_env_def)
  have "lookup_trusted rb_new sample_trusted_env ''a.'' T_A 0 = (Inr sample_trusted_answer, 1)"
    by (simp add: lookup_trusted_def rb_new_def rb_new_with_mode_def sample_trusted_env_def sample_lib_def
        sample_trusted_answer_def sample_answer_def sample_msg_def)
  moreover have "calculate_ttl sample_cache sample_trusted_answer = 60"
    using sample_ttl by (simp add: calculate_ttl_def sample_trusted_answer_def)
  ultimately show ?thesis
    using refresh_without_question [of sample_trusted_env rb_new "''a.''" T_A 0 sample_trusted_answer 1
        "be_bytes 2 (0 :: u16) @ replicate 10 0" "sample_ctx 9" sample_key 1055 1000 sample_cache None None "()" stats_new]
    unfolding L by (simp add: sample_lib_new sample_lib_header sample_trusted_answer_def sample_answer_def)
qed

end
