(* ===== verification/Autopilot_Bandit.thy ===== *)
theory Autopilot_Bandit
  imports Autopilot "HOL-Library.Stream"
begin

text \<open>
  \<open>src/autopilot.rs\<close>, levels 22 to 24: the names that are kept warm, the category of a name, and the choice of an upstream by
  sampling, over all names and within a category.

  Random numbers are a stream of reals in [0, 1), of which each draw takes the first.  The loops of the Gamma sampling
  end with probability one only, so they are partial functions.  Floating point numbers are reals.
\<close>

type_synonym rng = "real stream"

section \<open>Names\<close>

definition china_hot_domains :: "string list" where
  "china_hot_domains = [
    ''weixin.qq.com'', ''wx.qq.com'', ''mp.weixin.qq.com'', ''res.wx.qq.com'', ''szextshort.weixin.qq.com'',
    ''szlong.weixin.qq.com'', ''szshort.weixin.qq.com'', ''qq.com'', ''www.qq.com'', ''im.qq.com'',
    ''web.qq.com'', ''qzone.qq.com'', ''douyin.com'', ''www.douyin.com'', ''api.douyin.com'',
    ''lf1-cdn-tos.bytegoofy.com'', ''p3-pc.douyinpic.com'', ''v.douyin.com'', ''toutiao.com'',
    ''www.toutiao.com'', ''lf.snssdk.com'', ''taobao.com'', ''www.taobao.com'', ''tmall.com'',
    ''www.tmall.com'', ''alipay.com'', ''www.alipay.com'', ''aliyun.com'', ''www.aliyun.com'', ''baidu.com'',
    ''www.baidu.com'', ''tieba.baidu.com'', ''pan.baidu.com'', ''map.baidu.com'', ''jd.com'', ''www.jd.com'',
    ''m.jd.com'', ''meituan.com'', ''www.meituan.com'', ''dianping.com'', ''www.dianping.com'', ''163.com'',
    ''www.163.com'', ''music.163.com'', ''weibo.com'', ''www.weibo.com'', ''api.weibo.cn'', ''bilibili.com'',
    ''www.bilibili.com'', ''api.bilibili.com'', ''data.bilibili.com'', ''zhihu.com'', ''www.zhihu.com'',
    ''xiaohongshu.com'', ''www.xiaohongshu.com'', ''pinduoduo.com'', ''www.pinduoduo.com'', ''iqiyi.com'',
    ''www.iqiyi.com'', ''youku.com'', ''www.youku.com'', ''v.qq.com'', ''didiglobal.com'', ''xiaojukeji.com'',
    ''ele.me'', ''www.ele.me'', ''95599.cn'', ''icbc.com.cn'', ''ccb.com'']"

definition is_china_hot_domain :: "string \<Rightarrow> bool" where
  "is_china_hot_domain domain =
     (let domain_lower = to_lower domain in
      list_ex (\<lambda>hot. domain_lower = hot \<or> ends_with domain_lower (CHR ''.'' # hot)) china_hot_domains)"

datatype domain_category = ChinaHot | ChinaNormal | Foreign | Unknown

definition get_domain_category :: "string \<Rightarrow> domain_category" where
  "get_domain_category domain =
     (if is_china_hot_domain domain then ChinaHot
      else let domain_lower = to_lower domain in
        if list_ex (ends_with domain_lower) [''.cn'', ''.com.cn'', ''.net.cn'', ''.org.cn'', ''.gov.cn'', ''.edu.cn'']
        then ChinaNormal
        else if list_ex (ends_with domain_lower)
          [''baidu.com'', ''qq.com'', ''taobao.com'', ''tmall.com'', ''jd.com'', ''163.com'', ''sohu.com'', ''sina.com'',
           ''youku.com'', ''bilibili.com'', ''weibo.com'', ''zhihu.com'', ''douban.com'', ''csdn.net'', ''jianshu.com'']
        then ChinaNormal
        else if list_ex (ends_with domain_lower)
          [''.com'', ''.org'', ''.net'', ''.io'', ''.co'', ''.ai'', ''.gg'', ''.us'', ''.uk'', ''.de'', ''.fr'', ''.jp'',
           ''.kr'', ''.sg'', ''.gov'', ''.edu'', ''.mil'']
        then Foreign
        else Unknown)"

section \<open>Sampling\<close>

text \<open>The inner loop draws a normal variable until the cube is positive, the outer one until it is accepted.\<close>

partial_function (option) draw_cube :: "real \<Rightarrow> rng \<Rightarrow> (real \<times> real \<times> rng) option" where
  "draw_cube c r =
     (let u1 = shd r; u2 = shd (stl r); r = stl (stl r);
          z_val = sqrt (-2 * ln u1) * cos (2 * pi * u2);
          x = 1 + c * z_val; v = x * x * x
      in if 0 < v then Some (z_val, v, r) else draw_cube c r)"

partial_function (option) gamma_loop :: "real \<Rightarrow> real \<Rightarrow> rng \<Rightarrow> (real \<times> rng) option" where
  "gamma_loop d c r =
     (case draw_cube c r of
        None \<Rightarrow> None
      | Some (z, v, r) \<Rightarrow>
          let u = shd r; r = stl r in
          if u < 1 - 0.0331 * (z * z) ^ 4 then Some (d * v, r)
          else if ln u < 0.5 * z * z + d * (1 - v + ln v) then Some (d * v, r)
          else gamma_loop d c r)"

definition gamma_at_least_1 :: "real \<Rightarrow> rng \<Rightarrow> (real \<times> rng) option" where
  "gamma_at_least_1 k r = (let d = k - 1 / 3; c = 1 / sqrt (9 * d) in gamma_loop d c r)"

definition sample_gamma :: "real \<Rightarrow> rng \<Rightarrow> (real \<times> rng) option" where
  "sample_gamma k r =
     (if k < 1
      then (case gamma_at_least_1 (k + 1) r of
              None \<Rightarrow> None
            | Some (g, r) \<Rightarrow> Some (g * (shd r powr (1 / k)), stl r))
      else gamma_at_least_1 k r)"

definition epsilon :: real where
  "epsilon = 2 powr -52"

definition beta_sample :: "real \<Rightarrow> real \<Rightarrow> rng \<Rightarrow> (real \<times> rng) option" where
  "beta_sample alpha beta r =
     (case sample_gamma alpha r of
        None \<Rightarrow> None
      | Some (x, r) \<Rightarrow>
          (case sample_gamma beta r of
             None \<Rightarrow> None
           | Some (y, r) \<Rightarrow> let total = x + y in Some (if total \<le> epsilon then 0.5 else x / total, r)))"

definition bandit_sample :: "bandit \<Rightarrow> rng \<Rightarrow> (real \<times> rng) option" where
  "bandit_sample b r =
     (case beta_sample (bd_alpha b) (bd_beta b) r of
        None \<Rightarrow> None
      | Some (sample, r) \<Rightarrow>
          let latency_penalty = max (bandit_avg_latency b - 20) 0 * 0.001
          in Some (max (sample - latency_penalty) 0, r))"

section \<open>Choices\<close>

text \<open>The loop over the upstreams with the best so far; \<open>score\<close> draws from the stream.\<close>

fun best_scored ::
  "(string \<Rightarrow> rng \<Rightarrow> (real \<times> rng) option) \<Rightarrow> string list \<Rightarrow> (string \<times> real) option \<Rightarrow> rng
     \<Rightarrow> ((string \<times> real) option \<times> rng) option" where
  "best_scored score [] best r = Some (best, r)"
| "best_scored score (upstream # us) best r =
     (case score upstream r of
        None \<Rightarrow> None
      | Some (s, r) \<Rightarrow>
          best_scored score us (case best of
              None \<Rightarrow> Some (upstream, s)
            | Some (_, best_score) \<Rightarrow> if best_score < s then Some (upstream, s) else best) r)"

definition bandit_score :: "bandits \<Rightarrow> string \<Rightarrow> rng \<Rightarrow> (real \<times> rng) option" where
  "bandit_score bs upstream r =
     (case bs upstream of
        Some state \<Rightarrow> bandit_sample state r
      | None \<Rightarrow> Some (0.8 + shd r * 0.2, stl r))"

definition bandit_select_best :: "bandits \<Rightarrow> string list \<Rightarrow> rng \<Rightarrow> ((string \<times> real) option \<times> rng) option" where
  "bandit_select_best bs upstreams r =
     (if upstreams = [] then Some (None, r) else best_scored (bandit_score bs) upstreams None r)"

definition bandit_get_rankings ::
  "bandits \<Rightarrow> string list \<Rightarrow> (bandit \<Rightarrow> real) \<Rightarrow> (string \<times> real \<times> real \<times> real) list" where
  "bandit_get_rankings bs labels sampled =
     sort_key (\<lambda>(_, rate, _). - rate)
       (List.map_filter (\<lambda>l. map_option (\<lambda>b. (l, bandit_success_rate b, bandit_avg_latency b, sampled b)) (bs l)) labels)"

definition bandit_get_stats :: "bandits \<Rightarrow> string list \<Rightarrow> nat \<times> real" where
  "bandit_get_stats bs labels =
     (let rates = List.map_filter (\<lambda>l. map_option bandit_success_rate (bs l)) labels; count = length rates
      in (count, if 0 < count then sum_list rates / real count else 0))"

text \<open>The state of the choices: bandits of all names, of the categories, and the number of choices.\<close>

record choices =
  ch_bandits :: bandits
  ch_categories :: "domain_category \<times> string \<rightharpoonup> bandit"
  ch_explored :: nat

definition contextual_bandit_record_success :: "nat \<Rightarrow> string \<Rightarrow> string \<Rightarrow> u64 \<Rightarrow> choices \<Rightarrow> choices" where
  "contextual_bandit_record_success now domain upstream latency_ms s =
     (let key = (get_domain_category domain, upstream) in
      s\<lparr>ch_categories := (ch_categories s)(key \<mapsto> bandit_success now latency_ms
            (case ch_categories s key of Some b \<Rightarrow> b | None \<Rightarrow> bandit_new now)),
        ch_bandits := bandit_record_success now upstream latency_ms (ch_bandits s)\<rparr>)"

definition contextual_bandit_record_failure :: "nat \<Rightarrow> string \<Rightarrow> string \<Rightarrow> choices \<Rightarrow> choices" where
  "contextual_bandit_record_failure now domain upstream s =
     (let key = (get_domain_category domain, upstream) in
      s\<lparr>ch_categories := (ch_categories s)(key \<mapsto> bandit_failure now
            (case ch_categories s key of Some b \<Rightarrow> b | None \<Rightarrow> bandit_new now)),
        ch_bandits := bandit_record_failure now upstream (ch_bandits s)\<rparr>)"

definition category_score ::
  "bool \<Rightarrow> domain_category \<Rightarrow> choices \<Rightarrow> string \<Rightarrow> rng \<Rightarrow> (real \<times> rng) option" where
  "category_score explore category s upstream r =
     (case ch_categories s (category, upstream) of
        None \<Rightarrow> Some (if explore then 0.9 else 0.5, r)
      | Some state \<Rightarrow>
          if explore then bandit_sample state r
          else Some (bandit_success_rate state - bandit_avg_latency state * 0.001, r))"

definition contextual_bandit_select ::
  "string \<Rightarrow> string list \<Rightarrow> choices \<Rightarrow> rng \<Rightarrow> (string option \<times> choices \<times> rng) option" where
  "contextual_bandit_select domain upstreams s r =
     (if upstreams = [] then Some (None, s, r)
      else let category = get_domain_category domain;
               exploration_rate = explore_rate (ch_explored s);
               s = s\<lparr>ch_explored := ch_explored s + 1\<rparr>;
               explore = (shd r < exploration_rate)
           in (case best_scored (category_score explore category s) upstreams None (stl r) of
                 None \<Rightarrow> None
               | Some (best, r) \<Rightarrow> Some (map_option fst best, s, r)))"

definition get_best_upstream_with_bandit ::
  "string list \<Rightarrow> choices \<Rightarrow> rng \<Rightarrow> (string option \<times> choices \<times> rng) option" where
  "get_best_upstream_with_bandit ranked s r =
     (if ranked = [] then Some (None, s, r)
      else let rate = explore_rate (ch_explored s);
               s = s\<lparr>ch_explored := ch_explored s + 1\<rparr>;
               use_bandit = (shd r < rate)
           in if use_bandit
              then (case bandit_select_best (ch_bandits s) ranked (stl r) of
                      None \<Rightarrow> None
                    | Some (Some (bandit_choice, score), r) \<Rightarrow> Some (Some bandit_choice, s, r)
                    | Some (None, r) \<Rightarrow> Some (Some (hd ranked), s, r))
              else Some (Some (hd ranked), s, stl r))"

section \<open>Samples lie between zero and one\<close>

lemma draw_cube_pos: "draw_cube c r = Some (z, v, r') \<Longrightarrow> 0 < v"
proof -
  have "draw_cube c r = Some y \<Longrightarrow> 0 < fst (snd y)" for y
    by (rule draw_cube.raw_induct [where P = "\<lambda>c r y. 0 < fst (snd y)"]) (auto simp: Let_def split: if_splits)
  from this [of "(z, v, r')"] show "draw_cube c r = Some (z, v, r') \<Longrightarrow> 0 < v" by simp
qed

lemma gamma_loop_pos:
  assumes "gamma_loop d c r = Some (g, r')" "0 < d"
  shows "0 < g"
proof -
  have "gamma_loop d c r = Some y \<Longrightarrow> 0 < d \<longrightarrow> 0 < fst y" for y
    by (rule gamma_loop.raw_induct [where P = "\<lambda>d c r y. 0 < d \<longrightarrow> 0 < fst y"])
      (auto simp: Let_def split: if_splits option.splits intro!: mult_pos_pos intro: draw_cube_pos)
  from this [of "(g, r')"] assms show ?thesis by simp
qed

lemma sample_gamma_pos: "1 \<le> k \<Longrightarrow> sample_gamma k r = Some (g, r') \<Longrightarrow> 0 < g"
  by (auto simp: sample_gamma_def gamma_at_least_1_def Let_def split: if_splits intro: gamma_loop_pos)

lemma beta_sample_range:
  assumes "beta_sample a b r = Some (x, r')" "1 \<le> a" "1 \<le> b"
  shows "0 \<le> x \<and> x \<le> 1"
proof -
  obtain g r1 h r2 where "sample_gamma a r = Some (g, r1)" "sample_gamma b r1 = Some (h, r2)"
    and x: "x = (if g + h \<le> epsilon then 0.5 else g / (g + h))"
    using assms(1) by (auto simp: beta_sample_def Let_def split: option.splits)
  then have "0 < g" "0 < h" using sample_gamma_pos assms(2,3) by blast+
  with x show ?thesis by (simp add: divide_le_eq_1)
qed

text \<open>A normal variable of zero, which the second draw of a quarter gives, is always accepted.\<close>

lemma sample_gamma_ends:
  assumes "1 \<le> k" "r !! 1 = 1 / 4" "r !! 2 < 1"
  shows "sample_gamma k r = Some (k - 1 / 3, sdrop 3 r)"
proof -
  have "cos (2 * pi * (r !! 1)) = 0" unfolding assms(2) by simp
  then have "cos (2 * pi * shd (stl r)) = 0" by simp
  then have "draw_cube c r = Some (0, 1, stl (stl r))" for c by (subst draw_cube.simps) (simp add: Let_def)
  with assms show ?thesis
    by (simp add: sample_gamma_def gamma_at_least_1_def Let_def gamma_loop.simps [of "k - 1 / 3"] numeral_2_eq_2 numeral_3_eq_3)
qed

section \<open>The statistics stay in range\<close>

definition bandit_ok :: "bandit \<Rightarrow> bool" where
  "bandit_ok b \<longleftrightarrow> 1 \<le> bd_alpha b \<and> 1 \<le> bd_beta b \<and> bd_alpha b + bd_beta b \<le> 1000 \<and> 0 \<le> bd_latency b"

lemma bandit_decay_ok: "1 \<le> bd_alpha b \<Longrightarrow> 1 \<le> bd_beta b \<Longrightarrow> bd_alpha b + bd_beta b \<le> 1001 \<Longrightarrow> 0 \<le> bd_latency b
    \<Longrightarrow> bandit_ok (bandit_decay b)"
  unfolding bandit_ok_def bandit_decay_def by (simp add: max_def)

lemma bandit_new_ok [simp]: "bandit_ok (bandit_new now)"
  by (simp add: bandit_ok_def bandit_new_def)

lemma bandit_updates_ok [simp]:
  assumes "bandit_ok b"
  shows "bandit_ok (bandit_success now ms b)" "bandit_ok (bandit_failure now b)"
proof -
  have "0 \<le> real (unat ms)" by (rule of_nat_0_le_iff)
  with assms have "0 \<le> bd_latency b + real (unat ms)" unfolding bandit_ok_def by linarith
  with assms show "bandit_ok (bandit_success now ms b)"
    by (auto simp: bandit_success_def Let_def intro!: bandit_decay_ok) (auto simp: bandit_ok_def)
  from assms show "bandit_ok (bandit_failure now b)"
    by (auto simp: bandit_failure_def Let_def intro!: bandit_decay_ok) (auto simp: bandit_ok_def)
qed

definition choices_ok :: "choices \<Rightarrow> bool" where
  "choices_ok s \<longleftrightarrow> (\<forall>u b. ch_bandits s u = Some b \<longrightarrow> bandit_ok b) \<and> (\<forall>k b. ch_categories s k = Some b \<longrightarrow> bandit_ok b)"

lemma choices_recorded_ok:
  assumes "choices_ok s"
  shows "choices_ok (contextual_bandit_record_success now domain upstream ms s)"
    and "choices_ok (contextual_bandit_record_failure now domain upstream s)"
  using assms
  by (auto simp: choices_ok_def contextual_bandit_record_success_def contextual_bandit_record_failure_def
      bandit_record_success_def bandit_record_failure_def Let_def split: option.split if_splits)

lemma bandit_sample_range:
  assumes "bandit_ok b" "bandit_sample b r = Some (x, r')"
  shows "0 \<le> x \<and> x \<le> 1"
proof -
  obtain y r1 where y: "beta_sample (bd_alpha b) (bd_beta b) r = Some (y, r1)"
    "x = max (y - max (bandit_avg_latency b - 20) 0 * 0.001) 0"
    using assms(2) by (auto simp: bandit_sample_def Let_def split: option.splits)
  have "0 \<le> y \<and> y \<le> 1" using beta_sample_range [OF y(1)] assms(1) by (simp add: bandit_ok_def)
  moreover have "0 \<le> max (bandit_avg_latency b - 20) 0 * (0.001 :: real)" by simp
  ultimately show ?thesis unfolding y(2) by linarith
qed

text \<open>The decay halves the sum of the latencies and not the number of queries, so it halves the mean latency of an
  upstream whose latency has not changed.\<close>

lemma decay_halves_latency:
  "0 < bd_queries b \<Longrightarrow> bandit_avg_latency (bandit_decay b) = bandit_avg_latency b / 2"
  by (simp add: bandit_avg_latency_def bandit_decay_def)

section \<open>What is chosen\<close>

lemma best_scored_member:
  assumes "best_scored score us best r = Some (b, r')" "best \<noteq> None \<or> us \<noteq> []"
  shows "\<exists>u s. b = Some (u, s) \<and> (u \<in> set us \<or> best = Some (u, s))"
  using assms
proof (induction us arbitrary: best r)
  case (Cons u us)
  obtain s r1 where s: "score u r = Some (s, r1)" "best_scored score us (case best of
      None \<Rightarrow> Some (u, s) | Some (_, best_score) \<Rightarrow> if best_score < s then Some (u, s) else best) r1 = Some (b, r')"
    using Cons.prems(1) by (auto split: option.splits)
  let ?best = "case best of None \<Rightarrow> Some (u, s) | Some (_, best_score) \<Rightarrow> if best_score < s then Some (u, s) else best"
  have "?best \<noteq> None" "?best = Some (u, s) \<or> ?best = best" by (auto split: option.split)
  with Cons.IH [OF s(2)] show ?case by (metis list.set_intros(1,2))
qed auto

text \<open>Scores that draw nothing give the first upstream with the highest one.\<close>

lemma best_scored_max:
  assumes "\<And>u r. score u r = Some (value u, r)" and "best = None \<and> us \<noteq> [] \<or> (\<exists>u. best = Some (u, value u))"
  shows "\<exists>u. best_scored score us best r = Some (Some (u, value u), r)
     \<and> (u \<in> set us \<or> best = Some (u, value u)) \<and> (\<forall>v \<in> set us. value v \<le> value u)
     \<and> (\<forall>v x. best = Some (v, x) \<longrightarrow> x \<le> value u)"
  using assms(2)
proof (induction us arbitrary: best)
  case (Cons u us)
  let ?best = "case best of None \<Rightarrow> Some (u, value u)
    | Some (_, best_score) \<Rightarrow> if best_score < value u then Some (u, value u) else best"
  have "\<exists>w. ?best = Some (w, value w)" using Cons.prems by (auto split: option.split)
  then have "?best = None \<and> us \<noteq> [] \<or> (\<exists>w. ?best = Some (w, value w))" by (rule disjI2)
  from Cons.IH [OF this] obtain w where
    w: "best_scored score us ?best r = Some (Some (w, value w), r)" "w \<in> set us \<or> ?best = Some (w, value w)"
      "\<forall>v \<in> set us. value v \<le> value w" "\<forall>v x. ?best = Some (v, x) \<longrightarrow> x \<le> value w" by blast
  have "value u \<le> value w" "\<forall>v x. best = Some (v, x) \<longrightarrow> x \<le> value w"
    using w(4) by (auto split: option.splits if_splits)
  moreover have "w = u \<or> w \<in> set us \<or> best = Some (w, value w)"
    using w(2) by (auto split: option.splits if_splits)
  moreover have "best_scored score (u # us) best r = Some (Some (w, value w), r)" using w(1) by (simp add: assms(1))
  ultimately show ?case using w(3) by (intro exI [of _ w]) auto
qed auto

definition expected_value :: "choices \<Rightarrow> string \<Rightarrow> string \<Rightarrow> real" where
  "expected_value s domain upstream =
     (case ch_categories s (get_domain_category domain, upstream) of
        None \<Rightarrow> 0.5
      | Some b \<Rightarrow> bandit_success_rate b - bandit_avg_latency b * 0.001)"

text \<open>A choice that does not explore always ends, draws one number, and takes an upstream that has the best expected value for
  names of the category.\<close>

lemma contextual_exploits:
  assumes "upstreams \<noteq> []" "explore_rate (ch_explored s) \<le> shd r"
  shows "\<exists>u \<in> set upstreams. contextual_bandit_select domain upstreams s r
       = Some (Some u, s\<lparr>ch_explored := ch_explored s + 1\<rparr>, stl r)
     \<and> (\<forall>v \<in> set upstreams. expected_value s domain v \<le> expected_value s domain u)"
proof -
  let ?s = "s\<lparr>ch_explored := ch_explored s + 1\<rparr>"
  let ?score = "category_score False (get_domain_category domain) ?s"
  have "?score u r = Some (expected_value s domain u, r)" for u r
    by (simp add: category_score_def expected_value_def split: option.split)
  from best_scored_max [of ?score "expected_value s domain" None upstreams "stl r", OF this] assms(1) obtain u where
    "best_scored ?score upstreams None (stl r) = Some (Some (u, expected_value s domain u), stl r)"
    "u \<in> set upstreams" "\<forall>v \<in> set upstreams. expected_value s domain v \<le> expected_value s domain u" by auto
  with assms show ?thesis by (auto simp: contextual_bandit_select_def Let_def not_less)
qed

text \<open>Whatever is drawn, the upstream that the mixed choice returns is one of the ranking, and there is one when the ranking is not
  empty; a choice by samples has a score between zero and one.\<close>

lemma best_with_bandit_ranked:
  assumes "get_best_upstream_with_bandit ranked s r = Some (best, s', r')"
  shows "case best of Some u \<Rightarrow> u \<in> set ranked | None \<Rightarrow> ranked = []"
  using assms best_scored_member [of "bandit_score (ch_bandits s)" ranked None]
  by (auto simp: get_best_upstream_with_bandit_def bandit_select_best_def Let_def split: if_splits option.splits prod.splits)

text \<open>The common Chinese names are matched without their dot: a name that only ends in the letters of one counts as it.\<close>

lemma category_without_dot: "get_domain_category ''notbaidu.com'' = ChinaNormal"
  by code_simp

end
