(* ===== verification/Rust_Text.thy ===== *)
theory Rust_Text
  imports Titan_Prelude
begin

text \<open>
  More of Rust's standard library: prefixes that are cut off a string, and paths whose extension is replaced.
\<close>

fun trim_start_all :: "nat \<Rightarrow> string \<Rightarrow> string \<Rightarrow> string" where
  "trim_start_all 0 pre s = s"
| "trim_start_all (Suc n) pre s =
     (case strip_prefix pre s of Some rest \<Rightarrow> trim_start_all n pre rest | None \<Rightarrow> s)"

definition trim_start_matches :: "string \<Rightarrow> string \<Rightarrow> string" where
  "trim_start_matches pre s = trim_start_all (length s) pre s"

text \<open>A path as its directory, with the final slash, and its file name; the stem ends before the last dot that is not the
  first character.\<close>

definition path_file :: "string \<Rightarrow> string \<times> string" where
  "path_file path =
     (let file = rev (takeWhile (\<lambda>c. c \<noteq> CHR ''/'') (rev path)) in (take (length path - length file) path, file))"

definition file_stem :: "string \<Rightarrow> string" where
  "file_stem file =
     (let stem = rev (drop 1 (dropWhile (\<lambda>c. c \<noteq> CHR ''.'') (rev file))) in if stem = [] then file else stem)"

definition with_extension :: "string \<Rightarrow> string \<Rightarrow> string" where
  "with_extension path ext =
     (let (dir, file) = path_file path in if file = [] then path else dir @ file_stem file @ CHR ''.'' # ext)"

lemma with_extension_example:
  "with_extension ''/etc/titan/config.yaml'' ''tmp'' = ''/etc/titan/config.tmp''"
  "with_extension ''config'' ''tmp'' = ''config.tmp''"
  by code_simp+

end
