(* ===== verification/Autopilot_Engine.thy ===== *)
theory Autopilot_Engine
  imports Autopilot_Bandit Rust_Text
begin

text \<open>
  \<open>src/autopilot.rs\<close>: the loop of the engine, the snapshot that it keeps over restarts, its background tasks, and what it reports.

  The texts of the reports are constructors.  Reading and writing the snapshot, and its JSON form, are parameters; so is
  what a probe meets.
\<close>

section \<open>Probes\<close>

text \<open>What a probe finds: the answer to the query of a UDP probe, whether a connection is made.  A label whose
  address does not parse is skipped, with success.\<close>

record probe_net =
  pn_parse :: "string \<Rightarrow> sock_addr option"
  pn_udp :: "sock_addr \<Rightarrow> bytes \<Rightarrow> bytes option"
  pn_tcp :: "sock_addr \<Rightarrow> bool"

definition probe_udp :: "probe_net \<Rightarrow> u16 \<Rightarrow> string \<Rightarrow> bool" where
  "probe_udp N query_id label =
     (let addr_str = trim_start_matches ''udp://'' label in
      if CHR ''/'' \<in> set addr_str then True
      else case pn_parse N addr_str of
             None \<Rightarrow> True
           | Some addr \<Rightarrow>
               (case pn_udp N addr (dns_ping query_id) of
                  None \<Rightarrow> False
                | Some buf \<Rightarrow> dns_ping_ok query_id (take 512 buf)))"

definition probe_tcp :: "probe_net \<Rightarrow> string \<Rightarrow> bool" where
  "probe_tcp N label =
     (let addr_str = trim_start_matches ''tls://'' (trim_start_matches ''tcp://'' label) in
      if CHR ''/'' \<in> set addr_str then True
      else case pn_parse N addr_str of None \<Rightarrow> True | Some addr \<Rightarrow> pn_tcp N addr)"

definition probe_upstream :: "probe_net \<Rightarrow> u16 \<Rightarrow> string \<Rightarrow> probe_type \<Rightarrow> bool" where
  "probe_upstream N query_id label ptype =
     (case ptype of DnsPing \<Rightarrow> probe_udp N query_id label | TcpConnect \<Rightarrow> probe_tcp N label | _ \<Rightarrow> True)"

text \<open>One upstream of the concurrent loop, in the order of the ends: its label, the start of the probe, its time, and the ID.\<close>

record probe_run =
  pb_label :: string
  pb_started :: nat
  pb_time :: nat
  pb_id :: u16

definition probe_timeout :: nat where
  "probe_timeout = from_secs 3"

definition run_probe :: "probe_net \<Rightarrow> probe_run \<Rightarrow> health \<Rightarrow> health" where
  "run_probe N p h =
     (case classify_probe_type (pb_label p) of
        None \<Rightarrow> h
      | Some ptype \<Rightarrow>
          let outcome = (if pb_time p \<le> probe_timeout \<and> probe_upstream N (pb_id p) (pb_label p) ptype
                         then Some (word_of_nat (as_millis (pb_time p))) else None)
          in probe_one (pb_started p) (pb_started p + min (pb_time p) probe_timeout) outcome (pb_label p) h)"

definition run_probes :: "probe_net \<Rightarrow> probe_run list \<Rightarrow> health \<Rightarrow> health" where
  "run_probes N ps h = fold (run_probe N) ps h"

section \<open>The loop of the engine\<close>

text \<open>\<open>lp_tune\<close> is \<open>None\<close> before the first check, at which the weights are always tuned.\<close>

record loop_state =
  lp_hour :: nat
  lp_udp :: u32
  lp_persist :: nat
  lp_tune :: "nat option"

definition loop_new :: "nat \<Rightarrow> loop_state" where
  "loop_new now = \<lparr>lp_hour = 255, lp_udp = 0, lp_persist = now, lp_tune = None\<rparr>"

text \<open>One check, ending at \<open>now\<close>: the names to prefetch, and whether a snapshot is written later.\<close>

definition health_check ::
  "calendar \<Rightarrow> probe_net \<Rightarrow> bool \<Rightarrow> probe_run list \<Rightarrow> nat \<Rightarrow> loop_state \<Rightarrow> autopilot
     \<Rightarrow> string list \<times> bool \<times> loop_state \<times> autopilot" where
  "health_check C N persists ps now s a =
     (let h = run_probes N ps (ap_health a);
          (counter, h) = check_udp_blocking (lp_udp s) h;
          (hour, names, hot) = check_hourly_prefetch now (cal_unix C now) (ap_qps a) (lp_hour s) (ap_hot a);
          tune = (case lp_tune s of None \<Rightarrow> True | Some last_tune \<Rightarrow> from_secs 300 \<le> now - last_tune);
          h = (if tune then snd (auto_tune_weights (cal_hour C now) h) else h);
          due = (persists \<and> from_secs 300 \<le> now - lp_persist s)
      in (names, due \<and> \<not> should_skip_background_task (ap_qps a),
          \<lparr>lp_hour = hour, lp_udp = counter, lp_persist = (if due then now else lp_persist s),
           lp_tune = (if tune then Some now else lp_tune s)\<rparr>,
          a\<lparr>ap_health := h, ap_hot := hot\<rparr>))"

section \<open>Background tasks\<close>

definition should_prefetch_for_peak :: "nat \<Rightarrow> nat \<Rightarrow> bool" where
  "should_prefetch_for_peak hour minute \<longleftrightarrow>
     (hour = 18 \<and> 45 \<le> minute) \<or> (hour = 11 \<and> 45 \<le> minute) \<or> (hour = 7 \<and> 45 \<le> minute)"

text \<open>The names of one turn of the predictive prefetch, every five minutes, and of the prefetch of the common names.\<close>

definition predictive_prefetch :: "calendar \<Rightarrow> nat \<Rightarrow> autopilot \<Rightarrow> string list" where
  "predictive_prefetch C now a =
     (if should_skip_background_task (ap_qps a) then []
      else get_prefetch_candidates (cal_hour C now) 50 (ap_patterns a))"

definition hot_domain_prefetch :: "string list" where
  "hot_domain_prefetch = china_hot_domains"

text \<open>A connection to the address within two seconds, with its latency in milliseconds.\<close>

definition check_ip_reachability :: "(sock_addr \<Rightarrow> bool \<times> nat) \<Rightarrow> ip_addr \<Rightarrow> u16 \<Rightarrow> u64 option" where
  "check_ip_reachability connect ip port =
     (let (connected, elapsed) = connect (ip, port) in
      if connected \<and> elapsed \<le> from_secs 2 then Some (word_of_nat (as_millis elapsed)) else None)"

definition ip_quality_tick :: "nat \<Rightarrow> autopilot \<Rightarrow> autopilot" where
  "ip_quality_tick now a =
     a\<lparr>ap_penalties := decay_upstream_penalties (ap_penalties a), ap_quality := cleanup_ip_quality_cache now (ap_quality a)\<rparr>"

section \<open>The snapshot\<close>

record memory_snapshot =
  sn_best :: string
  sn_avg :: u64
  sn_count :: nat
  sn_age :: nat

record stats_snapshot =
  st_count :: nat
  st_hourly :: "nat list"
  st_age :: nat

record autopilot_snapshot =
  sp_domains :: "(string \<times> memory_snapshot) list"
  sp_clients :: "(string \<times> memory_snapshot) list"
  sp_hot :: "(string \<times> stats_snapshot) list"

definition dm_to_snapshot :: "nat \<Rightarrow> domain_memory \<Rightarrow> memory_snapshot" where
  "dm_to_snapshot now d =
     \<lparr>sn_best = dm_best d, sn_avg = dm_avg d, sn_count = dm_count d, sn_age = as_secs (now - dm_update d)\<rparr>"

text \<open>The instant before the age; subtraction beyond the first instant panics.\<close>

definition instant_before :: "nat \<Rightarrow> nat \<Rightarrow> nat result" where
  "instant_before now age = (if now < from_secs age then Inl Panic else Inr (now - from_secs age))"

definition dm_from_snapshot :: "nat \<Rightarrow> memory_snapshot \<Rightarrow> domain_memory result" where
  "dm_from_snapshot now s =
     andthen (instant_before now (sn_age s)) (\<lambda>t.
       Inr \<lparr>dm_best = sn_best s, dm_avg = sn_avg s, dm_count = sn_count s, dm_update = t\<rparr>)"

definition ds_to_snapshot :: "nat \<Rightarrow> domain_stats \<Rightarrow> stats_snapshot" where
  "ds_to_snapshot now d = \<lparr>st_count = ds_count d, st_hourly = ds_hourly d, st_age = as_secs (now - ds_last d)\<rparr>"

definition ds_from_snapshot :: "nat \<Rightarrow> stats_snapshot \<Rightarrow> domain_stats result" where
  "ds_from_snapshot now s =
     andthen (instant_before now (st_age s)) (\<lambda>t. Inr \<lparr>ds_count = st_count s, ds_hourly = st_hourly s, ds_last = t\<rparr>)"

fun restore_all :: "('a \<Rightarrow> 'b result) \<Rightarrow> (string \<times> 'a) list \<Rightarrow> (string \<times> 'b) list result" where
  "restore_all f [] = Inr []"
| "restore_all f ((k, x) # xs) = andthen (f x) (\<lambda>y. andthen (restore_all f xs) (\<lambda>ys. Inr ((k, y) # ys)))"

definition build_autopilot_snapshot :: "nat \<Rightarrow> autopilot \<Rightarrow> autopilot_snapshot" where
  "build_autopilot_snapshot now a =
     \<lparr>sp_domains = map (\<lambda>(k, d). (k, dm_to_snapshot now d)) (ln_domains (ap_learning a)),
      sp_clients = map (\<lambda>(k, d). (k, dm_to_snapshot now d)) (ln_clients (ap_learning a)),
      sp_hot = map (\<lambda>(k, d). (k, ds_to_snapshot now d)) (hd_domains (ap_hot a))\<rparr>"

definition apply_autopilot_snapshot :: "nat \<Rightarrow> autopilot_snapshot \<Rightarrow> autopilot \<Rightarrow> autopilot result" where
  "apply_autopilot_snapshot now s a =
     andthen (restore_all (dm_from_snapshot now) (sp_domains s)) (\<lambda>domains.
     andthen (restore_all (dm_from_snapshot now) (sp_clients s)) (\<lambda>clients.
     andthen (restore_all (ds_from_snapshot now) (sp_hot s)) (\<lambda>hot.
       Inr (a\<lparr>ap_learning := (ap_learning a)\<lparr>ln_domains := domains, ln_clients := clients\<rparr>,
              ap_hot := (ap_hot a)\<lparr>hd_domains := hot\<rparr>\<rparr>))))"

definition get_autopilot_state_path :: "string option \<Rightarrow> string option" where
  "get_autopilot_state_path var =
     (case var of
        Some path \<Rightarrow>
          let trimmed = trim path in
          if trimmed = [] \<or> to_lower trimmed = ''disabled'' then None else Some trimmed
      | None \<Rightarrow> Some ''/var/lib/titandns/autopilot_state.json'')"

text \<open>\<open>file\<close> is the content of the file at the path, if it can be read, and \<open>parse\<close> the JSON parser.\<close>

definition start_autopilot ::
  "string option \<Rightarrow> (string \<Rightarrow> string option) \<Rightarrow> (string \<Rightarrow> autopilot_snapshot option) \<Rightarrow> nat \<Rightarrow> autopilot
     \<Rightarrow> (loop_state \<times> autopilot) result" where
  "start_autopilot var file parse now a =
     (case Option.bind (Option.bind (get_autopilot_state_path var) file) parse of
        None \<Rightarrow> Inr (loop_new now, a)
      | Some snapshot \<Rightarrow> andthen (apply_autopilot_snapshot now snapshot a) (\<lambda>a. Inr (loop_new now, a)))"

section \<open>Reports\<close>

datatype issue = No_Upstreams | All_Down | Most_Down nat nat | High_Latency string u64 | High_Loss string real | Congested nat

datatype advice = Add_Upstream | Check_Network | Add_Backup | Check_Failed | Remove_Unstable string | Use_Race

record diagnosis =
  di_score :: nat
  di_issues :: "(nat \<times> issue) list"
  di_advice :: "advice list"

definition check_upstreams :: "upstream_metrics list \<Rightarrow> (nat \<times> issue) list \<times> advice list" where
  "check_upstreams us =
     (let total_count = length us; healthy_count = length (filter um_healthy us) in
      if total_count = 0 then ([(10, No_Upstreams)], [Add_Upstream])
      else if healthy_count = 0 then ([(10, All_Down)], [Check_Network, Add_Backup])
      else if healthy_count < total_count div 2
      then ([(7, Most_Down (total_count - healthy_count) total_count)], [Check_Failed])
      else ([], []))"

definition run_diagnosis :: "health \<Rightarrow> diagnosis" where
  "run_diagnosis h =
     (let us = h_upstreams h;
          (issues, advice) = check_upstreams us;
          slow = filter (\<lambda>u. 200 < um_avg u) us;
          lossy = filter (\<lambda>u. 0.1 < packet_loss_rate u) us;
          congestion = congestion_level (get_network_condition ScopeGlobal h);
          issues = issues @ map (\<lambda>u. (5, High_Latency (um_label u) (um_avg u))) slow
                   @ map (\<lambda>u. (6, High_Loss (um_label u) (packet_loss_rate u))) lossy
                   @ (if 7 \<le> congestion then [(7, Congested congestion)] else []);
          advice = advice @ map (\<lambda>u. Remove_Unstable (um_label u)) lossy @ (if 7 \<le> congestion then [Use_Race] else []);
          max_severity = fold max (map fst issues) 0
      in \<lparr>di_score = 100 - max_severity * 10, di_issues = issues, di_advice = advice\<rparr>)"

datatype health_status = Healthy | Good | Fair | Warning | Danger

definition diagnosis_status :: "diagnosis \<Rightarrow> health_status" where
  "diagnosis_status d =
     (if 90 \<le> di_score d \<and> di_score d \<le> 100 then Healthy
      else if 70 \<le> di_score d \<and> di_score d \<le> 89 then Good
      else if 50 \<le> di_score d \<and> di_score d \<le> 69 then Fair
      else if 30 \<le> di_score d \<and> di_score d \<le> 49 then Warning else Danger)"

record upstream_ranking =
  ur_rank :: nat
  ur_label :: string
  ur_score :: u64
  ur_avg :: u64
  ur_success :: real
  ur_loss :: real
  ur_healthy :: bool

definition ranking_of :: "upstream_metrics \<Rightarrow> upstream_ranking" where
  "ranking_of u = \<lparr>ur_rank = 0, ur_label = um_label u, ur_score = um_score u, ur_avg = um_avg u,
                   ur_success = success_rate u, ur_loss = packet_loss_rate u, ur_healthy = um_healthy u\<rparr>"

definition get_upstream_rankings :: "health \<Rightarrow> upstream_ranking list" where
  "get_upstream_rankings h =
     (let ordered = sort_key (\<lambda>r. - int (unat (ur_score r))) (map ranking_of (h_upstreams h)) in
      map (\<lambda>(i, r). r\<lparr>ur_rank := i + 1\<rparr>) (zip [0 ..< length ordered] ordered))"

datatype suggestion =
    Fast_But_Low string u64
  | Loss_High string real
  | One_Provider
  | Advised advice
  | Memory_Weak nat nat

definition provider_of :: "string \<Rightarrow> string" where
  "provider_of label = (let parts = split_on CHR ''/'' label in if 2 < length parts then parts ! 2 else label)"

definition generate_optimization_suggestions :: "health \<Rightarrow> (string \<times> domain_memory) list \<Rightarrow> suggestion list" where
  "generate_optimization_suggestions h memory =
     (let rankings = get_upstream_rankings h;
          (total, confident) = memory_stats memory
      in (case rankings of
            best # _ \<Rightarrow> if ur_avg best < 10 \<and> ur_score best < 800 then [Fast_But_Low (ur_label best) (ur_avg best)] else []
          | [] \<Rightarrow> [])
         @ map (\<lambda>r. Loss_High (ur_label r) (ur_loss r)) (filter (\<lambda>r. 0.1 < ur_loss r) rankings)
         @ (if length (remdups (map (\<lambda>r. provider_of (ur_label r)) rankings)) = 1 \<and> 1 < length rankings then [One_Provider] else [])
         @ map Advised (di_advice (run_diagnosis h))
         @ (if 100 < total \<and> confident < total div 10 then [Memory_Weak confident total] else []))"

section \<open>The snapshot keeps the memory\<close>

lemma restore_all_map:
  assumes "\<And>k x. (k, x) \<in> set xs \<Longrightarrow> f (g x) = Inr (r x)"
  shows "restore_all f (map (\<lambda>(k, x). (k, g x)) xs) = Inr (map (\<lambda>(k, x). (k, r x)) xs)"
  using assms by (induction xs) (auto, fastforce)

text \<open>The ages that a snapshot taken at \<open>now\<close> can have are in reach of the instant of its load.\<close>

definition ages_within :: "nat \<Rightarrow> autopilot \<Rightarrow> nat \<Rightarrow> bool" where
  "ages_within now a age \<longleftrightarrow> (\<forall>(k, d) \<in> set (ln_domains (ap_learning a)) \<union> set (ln_clients (ap_learning a)). now - dm_update d \<le> age)
     \<and> (\<forall>(k, d) \<in> set (hd_domains (ap_hot a)). now - ds_last d \<le> age)"

definition aged :: "nat \<Rightarrow> nat \<Rightarrow> domain_memory \<Rightarrow> domain_memory" where
  "aged now later d = d\<lparr>dm_update := later - from_secs (as_secs (now - dm_update d))\<rparr>"

definition aged_stats :: "nat \<Rightarrow> nat \<Rightarrow> domain_stats \<Rightarrow> domain_stats" where
  "aged_stats now later d = d\<lparr>ds_last := later - from_secs (as_secs (now - ds_last d))\<rparr>"

lemma from_as_secs: "from_secs (as_secs t) \<le> t"
  by (simp add: from_secs_def as_secs_def)

lemma snapshot_restored:
  assumes "ages_within now a later"
  shows "apply_autopilot_snapshot later (build_autopilot_snapshot now a) b = Inr (b\<lparr>
     ap_learning := (ap_learning b)\<lparr>ln_domains := map (\<lambda>(k, d). (k, aged now later d)) (ln_domains (ap_learning a)),
        ln_clients := map (\<lambda>(k, d). (k, aged now later d)) (ln_clients (ap_learning a))\<rparr>,
     ap_hot := (ap_hot b)\<lparr>hd_domains := map (\<lambda>(k, d). (k, aged_stats now later d)) (hd_domains (ap_hot a))\<rparr>\<rparr>)"
proof -
  have i: "instant_before later (as_secs t) = Inr (later - from_secs (as_secs t))" if "t \<le> later" for t
    using that from_as_secs [of t] by (simp add: instant_before_def)
  have d: "dm_from_snapshot later (dm_to_snapshot now d) = Inr (aged now later d)" if "now - dm_update d \<le> later" for d
    using i [OF that] by (simp add: dm_from_snapshot_def dm_to_snapshot_def aged_def)
  have s: "ds_from_snapshot later (ds_to_snapshot now d) = Inr (aged_stats now later d)" if "now - ds_last d \<le> later" for d
    using i [OF that] by (simp add: ds_from_snapshot_def ds_to_snapshot_def aged_stats_def)
  have "restore_all (dm_from_snapshot later) (map (\<lambda>(k, d). (k, dm_to_snapshot now d)) ds) = Inr (map (\<lambda>(k, d). (k, aged now later d)) ds)"
    if "set ds \<subseteq> set (ln_domains (ap_learning a)) \<union> set (ln_clients (ap_learning a))" for ds
    using that assms by (intro restore_all_map d) (auto simp: ages_within_def)
  moreover have "restore_all (ds_from_snapshot later) (map (\<lambda>(k, d). (k, ds_to_snapshot now d)) (hd_domains (ap_hot a)))
      = Inr (map (\<lambda>(k, d). (k, aged_stats now later d)) (hd_domains (ap_hot a)))"
    using assms by (intro restore_all_map s) (auto simp: ages_within_def)
  ultimately show ?thesis by (simp add: apply_autopilot_snapshot_def build_autopilot_snapshot_def)
qed

lemma map_of_aged: "map_of (map (\<lambda>(k, d). (k, f d)) xs) k = map_option f (map_of xs k)"
  by (induction xs) auto

text \<open>What is known of a name, with its age in seconds.\<close>

definition known_at :: "nat \<Rightarrow> domain_memory \<Rightarrow> string \<times> u64 \<times> nat \<times> nat" where
  "known_at now d = (dm_best d, dm_avg d, dm_count d, as_secs (now - dm_update d))"

definition used_at :: "nat \<Rightarrow> domain_stats \<Rightarrow> nat \<times> nat list \<times> nat" where
  "used_at now d = (ds_count d, ds_hourly d, as_secs (now - ds_last d))"

lemma aged_same:
  assumes "now - dm_update d \<le> later"
  shows "known_at later (aged now later d) = known_at now d"
proof -
  have "from_secs (as_secs (now - dm_update d)) \<le> later" using assms from_as_secs le_trans by blast
  then have "later - (later - from_secs (as_secs (now - dm_update d))) = from_secs (as_secs (now - dm_update d))" by simp
  moreover have "as_secs (from_secs n) = n" for n by (simp add: as_secs_def from_secs_def)
  ultimately show ?thesis by (simp add: known_at_def aged_def)
qed

lemma aged_stats_same:
  assumes "now - ds_last d \<le> later"
  shows "used_at later (aged_stats now later d) = used_at now d"
proof -
  have "from_secs (as_secs (now - ds_last d)) \<le> later" using assms from_as_secs le_trans by blast
  then have "later - (later - from_secs (as_secs (now - ds_last d))) = from_secs (as_secs (now - ds_last d))" by simp
  moreover have "as_secs (from_secs n) = n" for n by (simp add: as_secs_def from_secs_def)
  ultimately show ?thesis by (simp add: used_at_def aged_stats_def)
qed


definition sample_engine :: autopilot where
  "sample_engine = (autopilot_new 0)\<lparr>ap_learning :=
     learning_new\<lparr>ln_domains := [(''a.cn'', \<lparr>dm_best = ''udp://1.1.1.1:53'', dm_avg = 12, dm_count = 7, dm_update = from_secs 40\<rparr>)]\<rparr>\<rparr>"


text \<open>The score of a diagnosis says what the worst issue is.\<close>

lemma fold_max_le: "fold max xs (n :: nat) \<le> m \<longleftrightarrow> n \<le> m \<and> (\<forall>x \<in> set xs. x \<le> m)"
  by (induction xs arbitrary: n) auto

lemma fold_max_mem: "fold max xs (n :: nat) = n \<or> fold max xs n \<in> set xs"
proof (induction xs arbitrary: n)
  case (Cons x xs)
  from this [of "max x n"] show ?case by (auto simp: max_def)
qed simp

lemma fold_max_in:
  assumes "\<And>x. x \<in> set xs \<Longrightarrow> 0 < (x :: nat)"
  shows "fold max xs 0 = 0 \<and> xs = [] \<or> fold max xs 0 \<in> set xs"
proof (cases xs)
  case (Cons x ys)
  have "fold max xs 0 \<noteq> 0" using fold_max_le [of xs 0 0] assms [of x] Cons by auto
  then show ?thesis using fold_max_mem [of xs 0] by simp
qed simp

lemma diagnosis_scores:
  "di_score (run_diagnosis h) \<in> {0, 30, 40, 50, 100}"
  "di_score (run_diagnosis h) = 100 \<longleftrightarrow> di_issues (run_diagnosis h) = []"
proof -
  let ?m = "fold max (map fst (di_issues (run_diagnosis h))) 0"
  have sev: "fst i \<in> {5, 6, 7, 10}" if "i \<in> set (di_issues (run_diagnosis h))" for i
    using that by (auto simp: run_diagnosis_def check_upstreams_def Let_def split: if_splits)
  have pos: "0 < x" if "x \<in> set (map fst (di_issues (run_diagnosis h)))" for x
    using that sev by fastforce
  have in_: "?m = 0 \<and> di_issues (run_diagnosis h) = [] \<or> ?m \<in> fst ` set (di_issues (run_diagnosis h))"
    using fold_max_in [of "map fst (di_issues (run_diagnosis h))", OF pos] by simp
  have score: "di_score (run_diagnosis h) = 100 - ?m * 10" by (simp add: run_diagnosis_def Let_def split_beta)
  have m: "?m \<in> {0, 5, 6, 7, 10}" "?m = 0 \<longleftrightarrow> di_issues (run_diagnosis h) = []"
    using in_ sev by force+
  show "di_score (run_diagnosis h) \<in> {0, 30, 40, 50, 100}" using m(1) unfolding score by auto
  show "di_score (run_diagnosis h) = 100 \<longleftrightarrow> di_issues (run_diagnosis h) = []"
    using m unfolding score by auto
qed

text \<open>The ranking that is reported lists every upstream, best score first, with its place.\<close>

lemma rankings_sorted:
  "length (get_upstream_rankings h) = length (h_upstreams h)"
  "i < j \<Longrightarrow> j < length (h_upstreams h) \<Longrightarrow> ur_score (get_upstream_rankings h ! j) \<le> ur_score (get_upstream_rankings h ! i)"
  "i < length (h_upstreams h) \<Longrightarrow> ur_rank (get_upstream_rankings h ! i) = i + 1"
proof -
  let ?key = "\<lambda>r. - int (unat (ur_score r))"
  let ?s = "sort_key ?key (map ranking_of (h_upstreams h))"
  have n: "get_upstream_rankings h ! i = (?s ! i)\<lparr>ur_rank := i + 1\<rparr>" if "i < length (h_upstreams h)" for i
    using that by (simp add: get_upstream_rankings_def)
  show "length (get_upstream_rankings h) = length (h_upstreams h)" by (simp add: get_upstream_rankings_def)
  show "i < length (h_upstreams h) \<Longrightarrow> ur_rank (get_upstream_rankings h ! i) = i + 1" by (simp add: n)
  assume ij: "i < j" "j < length (h_upstreams h)"
  have "sorted (map ?key ?s)" by simp
  with ij have "?key (?s ! i) \<le> ?key (?s ! j)" by (fastforce simp: sorted_iff_nth_mono_less)
  with ij show "ur_score (get_upstream_rankings h ! j) \<le> ur_score (get_upstream_rankings h ! i)"
    by (simp add: n word_le_def)
qed

text \<open>A probe of a label whose address does not parse, such as one with a name, succeeds at once.\<close>

lemma unparsed_probe_succeeds:
  assumes "pn_parse N (trim_start_matches ''udp://'' label) = None"
  shows "probe_upstream N query_id label DnsPing"
  using assms by (simp add: probe_upstream_def probe_udp_def Let_def)

end
