(* ===== verification/Lock_Free.thy ===== *)
theory Lock_Free
  imports Titan_Prelude
begin

text \<open>
  \<open>src/core/lockfree.rs\<close>: the concurrent cache, 64 lists of entries that tasks extend and shorten at their heads by
  compare and exchange.

  Every access to shared memory is a step of its own, so a run is an interleaving of the steps of the tasks.  Entries are
  on a heap; a pointer is an address or null.  What the code relies on of \<open>crossbeam::epoch\<close> is the rule of the
  reclamation: an entry that was passed to \<open>defer_destroy\<close> is freed at some time after every task that was pinned then
  has dropped its guard, and its address can then be given to a new entry.  A task that follows a pointer to memory
  that is not allocated, or retires an entry twice, is in the state \<open>Fault\<close>.  The atomics are taken to be sequentially consistent.
\<close>

section \<open>The data\<close>

definition num_shards :: nat where
  "num_shards = 64"

record ('k, 'v) cache_entry =
  le_key :: 'k
  le_value :: 'v
  le_expires :: "nat option"
  le_next :: "nat option"

definition le_new :: "'k \<Rightarrow> 'v \<Rightarrow> nat option \<Rightarrow> nat \<Rightarrow> ('k, 'v) cache_entry" where
  "le_new key v ttl now = \<lparr>le_key = key, le_value = v, le_expires = map_option (\<lambda>d. now + d) ttl, le_next = None\<rparr>"

record shard =
  sh_head :: "nat option"
  sh_len :: u64

definition shard_new :: shard where
  "shard_new = \<lparr>sh_head = None, sh_len = 0\<rparr>"

datatype 'v outcome = Value "'v option" | Flag bool | Size u64 | Cleared

text \<open>Where a task is in its operation, with its local variables.\<close>

datatype ('k, 'v) lf_task =
    Idle
  | Done "'v outcome"
  | Fault
  | Get_Load 'k
  | Get_Scan 'k "nat option"
  | Insert_Check 'k 'v "nat option"
  | Insert_Load "('k, 'v) cache_entry"
  | Insert_Scan "('k, 'v) cache_entry" "nat option" "nat option"
  | Insert_Cas "('k, 'v) cache_entry" "nat option"
  | Insert_Count 'k
  | Remove_Load 'k
  | Remove_Head 'k nat
  | Remove_Cas 'k nat "nat option"
  | Remove_Count 'k nat
  | Remove_Defer nat
  | Len_Load nat u64
  | Clear_Load nat
  | Clear_Next nat nat
  | Clear_Cas nat nat "nat option"
  | Clear_Defer nat nat
  | Clear_Count nat

text \<open>\<open>lf_retired\<close>: for an entry passed to \<open>defer_destroy\<close>, the tasks pinned then that still are.\<close>

record ('k, 'v) lf_cache =
  lf_shards :: "shard list"
  lf_capacity :: u64
  lf_heap :: "nat \<rightharpoonup> ('k, 'v) cache_entry"
  lf_retired :: "nat \<rightharpoonup> nat set"
  lf_tasks :: "('k, 'v) lf_task list"

text \<open>A new cache of the capacity, shared by \<open>n\<close> tasks.\<close>

definition lf_new :: "u64 \<Rightarrow> nat \<Rightarrow> ('k, 'v) lf_cache" where
  "lf_new total_capacity n =
     \<lparr>lf_shards = replicate num_shards shard_new,
      lf_capacity = (total_capacity + of_nat num_shards - 1) div of_nat num_shards,
      lf_heap = Map.empty, lf_retired = Map.empty, lf_tasks = replicate n Idle\<rparr>"

text \<open>The hash of a key is that of the standard library's hasher, a parameter.\<close>

definition hash_to_shard :: "('k \<Rightarrow> u64) \<Rightarrow> 'k \<Rightarrow> nat" where
  "hash_to_shard hash key = unat (hash key AND (of_nat num_shards - 1))"

section \<open>Atomic steps\<close>

definition pinned :: "('k, 'v) lf_task \<Rightarrow> bool" where
  "pinned x = (case x of Idle \<Rightarrow> False | Done _ \<Rightarrow> False | Fault \<Rightarrow> False | Insert_Check _ _ _ \<Rightarrow> False | Len_Load _ _ \<Rightarrow> False | _ \<Rightarrow> True)"

definition pinned_tasks :: "('k, 'v) lf_cache \<Rightarrow> nat set" where
  "pinned_tasks s = set (filter (\<lambda>t. pinned (lf_tasks s ! t)) [0 ..< length (lf_tasks s)])"

definition become :: "nat \<Rightarrow> ('k, 'v) lf_task \<Rightarrow> ('k, 'v) lf_cache \<Rightarrow> ('k, 'v) lf_cache" where
  "become t x s = s\<lparr>lf_tasks := (lf_tasks s)[t := x]\<rparr>"

text \<open>The end of an operation drops its guard.\<close>

definition finish :: "nat \<Rightarrow> 'v outcome \<Rightarrow> ('k, 'v) lf_cache \<Rightarrow> ('k, 'v) lf_cache" where
  "finish t r s = (become t (Done r) s)\<lparr>lf_retired := (\<lambda>a. map_option (\<lambda>T. T - {t}) (lf_retired s a))\<rparr>"

definition head_of :: "nat \<Rightarrow> ('k, 'v) lf_cache \<Rightarrow> nat option" where
  "head_of i s = sh_head (lf_shards s ! i)"

definition set_head :: "nat \<Rightarrow> nat option \<Rightarrow> ('k, 'v) lf_cache \<Rightarrow> ('k, 'v) lf_cache" where
  "set_head i p s = s\<lparr>lf_shards := (lf_shards s)[i := (lf_shards s ! i)\<lparr>sh_head := p\<rparr>]\<rparr>"

definition add_len :: "nat \<Rightarrow> u64 \<Rightarrow> ('k, 'v) lf_cache \<Rightarrow> ('k, 'v) lf_cache" where
  "add_len i d s = s\<lparr>lf_shards := (lf_shards s)[i := (lf_shards s ! i)\<lparr>sh_len := sh_len (lf_shards s ! i) + d\<rparr>]\<rparr>"

text \<open>Follow a pointer, and retire an entry.\<close>

definition deref :: "nat \<Rightarrow> nat \<Rightarrow> (('k, 'v) cache_entry \<Rightarrow> ('k, 'v) lf_cache) \<Rightarrow> ('k, 'v) lf_cache \<Rightarrow> ('k, 'v) lf_cache" where
  "deref t a k s = (case lf_heap s a of None \<Rightarrow> become t Fault s | Some entry \<Rightarrow> k entry)"

definition defer_destroy :: "nat \<Rightarrow> nat \<Rightarrow> (('k, 'v) lf_cache \<Rightarrow> ('k, 'v) lf_cache) \<Rightarrow> ('k, 'v) lf_cache \<Rightarrow> ('k, 'v) lf_cache" where
  "defer_destroy t a k s =
     (if lf_heap s a = None \<or> lf_retired s a \<noteq> None then become t Fault s
      else k (s\<lparr>lf_retired := (lf_retired s)(a \<mapsto> pinned_tasks s)\<rparr>))"

section \<open>The operations\<close>

text \<open>The next step of task \<open>t\<close>, at \<open>now\<close>; \<open>fresh\<close> is the address of the entry that it links, if it does.\<close>

definition get_step :: "('k \<Rightarrow> u64) \<Rightarrow> nat \<Rightarrow> nat \<Rightarrow> ('k, 'v) lf_task \<Rightarrow> ('k, 'v) lf_cache \<Rightarrow> ('k, 'v) lf_cache" where
  "get_step hash now t x s =
     (case x of
        Get_Load key \<Rightarrow> become t (Get_Scan key (head_of (hash_to_shard hash key) s)) s
      | Get_Scan key None \<Rightarrow> finish t (Value None) s
      | Get_Scan key (Some a) \<Rightarrow>
          deref t a (\<lambda>entry.
            if le_key entry = key then
              (case le_expires entry of
                 Some expires_at \<Rightarrow> finish t (Value (if expires_at < now then None else Some (le_value entry))) s
               | None \<Rightarrow> finish t (Value (Some (le_value entry))) s)
            else become t (Get_Scan key (le_next entry)) s) s
      | _ \<Rightarrow> s)"

definition insert_step :: "('k \<Rightarrow> u64) \<Rightarrow> nat \<Rightarrow> nat \<Rightarrow> nat \<Rightarrow> ('k, 'v) lf_task \<Rightarrow> ('k, 'v) lf_cache \<Rightarrow> ('k, 'v) lf_cache" where
  "insert_step hash now fresh t x s =
     (case x of
        Insert_Check key v ttl \<Rightarrow>
          if lf_capacity s \<le> sh_len (lf_shards s ! hash_to_shard hash key) then finish t (Flag False) s
          else become t (Insert_Load (le_new key v ttl now)) s
      | Insert_Load e \<Rightarrow>
          let h = head_of (hash_to_shard hash (le_key e)) s in become t (Insert_Scan e h h) s
      | Insert_Scan e h None \<Rightarrow> become t (Insert_Cas e h) s
      | Insert_Scan e h (Some a) \<Rightarrow>
          deref t a (\<lambda>entry.
            if le_key entry = le_key e then finish t (Flag False) s
            else become t (Insert_Scan e h (le_next entry)) s) s
      | Insert_Cas e h \<Rightarrow>
          let i = hash_to_shard hash (le_key e) in
          if head_of i s = h
          then become t (Insert_Count (le_key e))
                 (set_head i (Some fresh) (s\<lparr>lf_heap := (lf_heap s)(fresh \<mapsto> e\<lparr>le_next := h\<rparr>)\<rparr>))
          else become t (Insert_Load e) s
      | Insert_Count key \<Rightarrow> finish t (Flag True) (add_len (hash_to_shard hash key) 1 s)
      | _ \<Rightarrow> s)"

definition remove_step :: "('k \<Rightarrow> u64) \<Rightarrow> nat \<Rightarrow> ('k, 'v) lf_task \<Rightarrow> ('k, 'v) lf_cache \<Rightarrow> ('k, 'v) lf_cache" where
  "remove_step hash t x s =
     (case x of
        Remove_Load key \<Rightarrow>
          (case head_of (hash_to_shard hash key) s of
             None \<Rightarrow> finish t (Value None) s
           | Some h \<Rightarrow> become t (Remove_Head key h) s)
      | Remove_Head key h \<Rightarrow>
          deref t h (\<lambda>entry.
            if le_key entry = key then become t (Remove_Cas key h (le_next entry)) s
            else finish t (Value None) s) s
      | Remove_Cas key h p \<Rightarrow>
          if head_of (hash_to_shard hash key) s = Some h
          then become t (Remove_Count key h) (set_head (hash_to_shard hash key) p s)
          else become t (Remove_Load key) s
      | Remove_Count key h \<Rightarrow> become t (Remove_Defer h) (add_len (hash_to_shard hash key) (-1) s)
      | Remove_Defer h \<Rightarrow>
          deref t h (\<lambda>entry. defer_destroy t h (finish t (Value (Some (le_value entry)))) s) s
      | _ \<Rightarrow> s)"

definition len_step :: "nat \<Rightarrow> ('k, 'v) lf_task \<Rightarrow> ('k, 'v) lf_cache \<Rightarrow> ('k, 'v) lf_cache" where
  "len_step t x s =
     (case x of
        Len_Load i acc \<Rightarrow>
          if i < num_shards then become t (Len_Load (i + 1) (acc + sh_len (lf_shards s ! i))) s
          else finish t (Size acc) s
      | _ \<Rightarrow> s)"

definition clear_step :: "nat \<Rightarrow> ('k, 'v) lf_task \<Rightarrow> ('k, 'v) lf_cache \<Rightarrow> ('k, 'v) lf_cache" where
  "clear_step t x s =
     (case x of
        Clear_Load i \<Rightarrow>
          if i < num_shards
          then (case head_of i s of None \<Rightarrow> become t (Clear_Load (i + 1)) s | Some h \<Rightarrow> become t (Clear_Next i h) s)
          else finish t Cleared s
      | Clear_Next i h \<Rightarrow> deref t h (\<lambda>entry. become t (Clear_Cas i h (le_next entry)) s) s
      | Clear_Cas i h p \<Rightarrow>
          if head_of i s = Some h then become t (Clear_Defer i h) (set_head i p s) else become t (Clear_Load i) s
      | Clear_Defer i h \<Rightarrow> defer_destroy t h (become t (Clear_Count i)) s
      | Clear_Count i \<Rightarrow> become t (Clear_Load i) (add_len i (-1) s)
      | _ \<Rightarrow> s)"

definition lf_step :: "('k \<Rightarrow> u64) \<Rightarrow> nat \<Rightarrow> nat \<Rightarrow> nat \<Rightarrow> ('k, 'v) lf_cache \<Rightarrow> ('k, 'v) lf_cache" where
  "lf_step hash now fresh t s =
     (let x = lf_tasks s ! t in
      case x of
        Get_Load _ \<Rightarrow> get_step hash now t x s | Get_Scan _ _ \<Rightarrow> get_step hash now t x s
      | Insert_Check _ _ _ \<Rightarrow> insert_step hash now fresh t x s | Insert_Load _ \<Rightarrow> insert_step hash now fresh t x s
      | Insert_Scan _ _ _ \<Rightarrow> insert_step hash now fresh t x s | Insert_Cas _ _ \<Rightarrow> insert_step hash now fresh t x s
      | Insert_Count _ \<Rightarrow> insert_step hash now fresh t x s
      | Remove_Load _ \<Rightarrow> remove_step hash t x s | Remove_Head _ _ \<Rightarrow> remove_step hash t x s
      | Remove_Cas _ _ _ \<Rightarrow> remove_step hash t x s | Remove_Count _ _ \<Rightarrow> remove_step hash t x s
      | Remove_Defer _ \<Rightarrow> remove_step hash t x s
      | Len_Load _ _ \<Rightarrow> len_step t x s
      | Clear_Load _ \<Rightarrow> clear_step t x s | Clear_Next _ _ \<Rightarrow> clear_step t x s | Clear_Cas _ _ _ \<Rightarrow> clear_step t x s
      | Clear_Defer _ _ \<Rightarrow> clear_step t x s | Clear_Count _ \<Rightarrow> clear_step t x s
      | _ \<Rightarrow> s)"

text \<open>The calls a task can make when it has none.\<close>

datatype ('k, 'v) call = Get 'k | Insert 'k 'v "nat option" | Remove 'k | Len | Clear

fun start_of :: "('k, 'v) call \<Rightarrow> ('k, 'v) lf_task" where
  "start_of (Get key) = Get_Load key"
| "start_of (Insert key v ttl) = Insert_Check key v ttl"
| "start_of (Remove key) = Remove_Load key"
| "start_of Len = Len_Load 0 0"
| "start_of Clear = Clear_Load 0"

definition is_free :: "('k, 'v) lf_task \<Rightarrow> bool" where
  "is_free x = (case x of Idle \<Rightarrow> True | Done _ \<Rightarrow> True | _ \<Rightarrow> False)"

definition lf_collect :: "nat \<Rightarrow> ('k, 'v) lf_cache \<Rightarrow> ('k, 'v) lf_cache" where
  "lf_collect a s = s\<lparr>lf_heap := (lf_heap s)(a := None), lf_retired := (lf_retired s)(a := None)\<rparr>"

inductive lf_run :: "('k \<Rightarrow> u64) \<Rightarrow> u64 \<Rightarrow> nat \<Rightarrow> ('k, 'v) lf_cache \<Rightarrow> bool" for hash cap n where
  init: "lf_run hash cap n (lf_new cap n)"
| begins: "lf_run hash cap n s \<Longrightarrow> t < n \<Longrightarrow> is_free (lf_tasks s ! t) \<Longrightarrow> lf_run hash cap n (become t (start_of c) s)"
| steps: "lf_run hash cap n s \<Longrightarrow> t < n \<Longrightarrow> lf_heap s fresh = None \<Longrightarrow> lf_run hash cap n (lf_step hash now fresh t s)"
| collects: "lf_run hash cap n s \<Longrightarrow> lf_retired s a = Some {} \<Longrightarrow> lf_run hash cap n (lf_collect a s)"

section \<open>Paths\<close>

primrec path :: "(nat \<rightharpoonup> ('k, 'v) cache_entry) \<Rightarrow> nat option \<Rightarrow> nat list \<Rightarrow> nat option \<Rightarrow> bool" where
  "path h p [] q \<longleftrightarrow> p = q"
| "path h p (a # as) q \<longleftrightarrow> p = Some a \<and> (\<exists>e. h a = Some e \<and> path h (le_next e) as q)"

lemma path_None [simp]: "path h None as q \<longleftrightarrow> as = [] \<and> q = None"
  by (cases as) auto

lemma path_append: "path h p (as @ bs) q \<longleftrightarrow> (\<exists>r. path h p as r \<and> path h r bs q)"
  by (induction as arbitrary: p) auto

lemma path_unique: "path h p as None \<Longrightarrow> path h p bs None \<Longrightarrow> as = bs"
proof (induction as arbitrary: p bs)
  case (Cons a as)
  then show ?case by (cases bs) auto
qed simp

lemma path_mono: "path h p as q \<Longrightarrow> (\<And>a. a \<in> set as \<Longrightarrow> h' a = h a) \<Longrightarrow> path h' p as q"
  by (induction as arbitrary: p) auto

lemma path_allocated: "path h p as q \<Longrightarrow> a \<in> set as \<Longrightarrow> \<exists>e. h a = Some e"
  by (induction as arbitrary: p) auto

lemma path_Some: "path h (Some a) as None \<Longrightarrow> \<exists>e bs. as = a # bs \<and> h a = Some e \<and> path h (le_next e) bs None"
  by (cases as) auto

section \<open>The invariant\<close>

text \<open>An entry is protected from reclamation for a task if it is not retired, or was when the task was pinned.\<close>

definition protected :: "(nat \<rightharpoonup> nat set) \<Rightarrow> nat \<Rightarrow> nat \<Rightarrow> bool" where
  "protected ret t a \<longleftrightarrow> (\<forall>T. ret a = Some T \<longrightarrow> t \<in> T)"

definition key_at :: "(nat \<rightharpoonup> ('k, 'v) cache_entry) \<Rightarrow> nat \<Rightarrow> 'k" where
  "key_at h a = le_key (the (h a))"

definition safe_path :: "(nat \<rightharpoonup> ('k, 'v) cache_entry) \<Rightarrow> (nat \<rightharpoonup> nat set) \<Rightarrow> nat \<Rightarrow> nat option \<Rightarrow> nat list \<Rightarrow> nat option \<Rightarrow> bool" where
  "safe_path h ret t p as q \<longleftrightarrow> path h p as q \<and> (\<forall>a \<in> set as. protected ret t a)"

definition task_ok :: "(nat \<rightharpoonup> ('k, 'v) cache_entry) \<Rightarrow> (nat \<rightharpoonup> nat set) \<Rightarrow> nat \<Rightarrow> ('k, 'v) lf_task \<Rightarrow> bool" where
  "task_ok h ret t x \<longleftrightarrow>
     (case x of
        Fault \<Rightarrow> False
      | Get_Scan k p \<Rightarrow> \<exists>as. safe_path h ret t p as None
      | Insert_Scan e p q \<Rightarrow>
          \<exists>as bs. safe_path h ret t p as q \<and> safe_path h ret t q bs None \<and> (\<forall>a \<in> set as. key_at h a \<noteq> le_key e)
      | Insert_Cas e p \<Rightarrow> \<exists>as. safe_path h ret t p as None \<and> (\<forall>a \<in> set as. key_at h a \<noteq> le_key e)
      | Remove_Head k a \<Rightarrow> \<exists>as. safe_path h ret t (Some a) as None
      | Remove_Cas k a p \<Rightarrow> protected ret t a \<and> (\<exists>e. h a = Some e \<and> le_next e = p)
      | Clear_Load i \<Rightarrow> True
      | Clear_Next i a \<Rightarrow> i < num_shards \<and> (\<exists>as. safe_path h ret t (Some a) as None)
      | Clear_Cas i a p \<Rightarrow> i < num_shards \<and> protected ret t a \<and> (\<exists>e. h a = Some e \<and> le_next e = p)
      | Clear_Defer i a \<Rightarrow> i < num_shards
      | Clear_Count i \<Rightarrow> i < num_shards
      | _ \<Rightarrow> True)"

text \<open>The entry that a task has unlinked and not yet retired, and what a task still has to add to a counter.\<close>

definition held :: "('k, 'v) lf_task \<Rightarrow> nat option" where
  "held x = (case x of Remove_Count k a \<Rightarrow> Some a | Remove_Defer a \<Rightarrow> Some a | Clear_Defer i a \<Rightarrow> Some a | _ \<Rightarrow> None)"

definition debt :: "('k \<Rightarrow> u64) \<Rightarrow> nat \<Rightarrow> ('k, 'v) lf_task \<Rightarrow> u64" where
  "debt hash i x =
     (case x of
        Insert_Count k \<Rightarrow> if hash_to_shard hash k = i then 1 else 0
      | Remove_Count k a \<Rightarrow> if hash_to_shard hash k = i then -1 else 0
      | Clear_Defer j a \<Rightarrow> if j = i then -1 else 0
      | Clear_Count j \<Rightarrow> if j = i then -1 else 0
      | _ \<Rightarrow> 0)"

definition chain_ok :: "('k \<Rightarrow> u64) \<Rightarrow> nat \<Rightarrow> nat list \<Rightarrow> ('k, 'v) lf_cache \<Rightarrow> bool" where
  "chain_ok hash i as s \<longleftrightarrow>
     path (lf_heap s) (head_of i s) as None
   \<and> distinct (map (key_at (lf_heap s)) as)
   \<and> (\<forall>a \<in> set as. hash_to_shard hash (key_at (lf_heap s) a) = i \<and> lf_retired s a = None
        \<and> (\<forall>x \<in> set (lf_tasks s). held x \<noteq> Some a))
   \<and> sh_len (lf_shards s ! i) = of_nat (length as) - sum_list (map (debt hash i) (lf_tasks s))"

definition held_ok :: "('k, 'v) lf_cache \<Rightarrow> bool" where
  "held_ok s \<longleftrightarrow>
     (\<forall>t < length (lf_tasks s). \<forall>a. held (lf_tasks s ! t) = Some a \<longrightarrow>
        lf_heap s a \<noteq> None \<and> lf_retired s a = None
        \<and> (\<forall>t' < length (lf_tasks s). t' \<noteq> t \<longrightarrow> held (lf_tasks s ! t') \<noteq> Some a))"

definition lf_inv :: "('k \<Rightarrow> u64) \<Rightarrow> ('k, 'v) lf_cache \<Rightarrow> bool" where
  "lf_inv hash s \<longleftrightarrow>
     length (lf_shards s) = num_shards
   \<and> (\<forall>t < length (lf_tasks s). task_ok (lf_heap s) (lf_retired s) t (lf_tasks s ! t))
   \<and> dom (lf_retired s) \<subseteq> dom (lf_heap s)
   \<and> held_ok s
   \<and> (\<forall>i < num_shards. \<exists>as. chain_ok hash i as s)"

lemma hash_to_shard_less [simp]: "hash_to_shard hash k < num_shards"
proof -
  have "hash k AND 63 \<le> 63" by (rule word_and_le1)
  then show ?thesis by (simp add: hash_to_shard_def num_shards_def word_le_nat_alt)
qed

lemma safe_path_mono:
  assumes "safe_path h ret t p as q"
    and "\<And>a e. h a = Some e \<Longrightarrow> protected ret t a \<Longrightarrow> h' a = Some e \<and> protected ret' t a"
  shows "safe_path h' ret' t p as q" "a \<in> set as \<Longrightarrow> key_at h' a = key_at h a"
proof -
  have same: "h' a = h a \<and> protected ret' t a" if "a \<in> set as" for a
    using path_allocated [of h p as q a] assms that by (auto simp: safe_path_def)
  show "safe_path h' ret' t p as q"
    using assms(1) same path_mono [of h p as q h'] by (auto simp: safe_path_def)
  show "a \<in> set as \<Longrightarrow> key_at h' a = key_at h a" by (simp add: key_at_def same)
qed

lemma task_ok_mono:
  assumes ok: "task_ok h ret t x"
    and keep: "\<And>a e. pinned x \<Longrightarrow> h a = Some e \<Longrightarrow> protected ret t a \<Longrightarrow> h' a = Some e \<and> protected ret' t a"
  shows "task_ok h' ret' t x"
proof (cases x)
  case (Get_Scan k p)
  then have "pinned x" by (simp add: pinned_def)
  from Get_Scan ok show ?thesis using safe_path_mono(1) [of h ret t, OF _ keep [OF \<open>pinned x\<close>]]
    by (fastforce simp: task_ok_def)
next
  case (Insert_Scan e p q)
  then have pin: "pinned x" by (simp add: pinned_def)
  from Insert_Scan ok obtain as bs where "safe_path h ret t p as q" "safe_path h ret t q bs None"
    "\<forall>a \<in> set as. key_at h a \<noteq> le_key e" by (auto simp: task_ok_def)
  with Insert_Scan show ?thesis
    using safe_path_mono [of h ret t _ _ _ h' ret', OF _ keep [OF pin]] by (simp add: task_ok_def) metis
next
  case (Insert_Cas e p)
  then have pin: "pinned x" by (simp add: pinned_def)
  from Insert_Cas ok obtain as where "safe_path h ret t p as None" "\<forall>a \<in> set as. key_at h a \<noteq> le_key e"
    by (auto simp: task_ok_def)
  with Insert_Cas show ?thesis
    using safe_path_mono [of h ret t _ _ _ h' ret', OF _ keep [OF pin]] by (simp add: task_ok_def) metis
next
  case (Remove_Head k a)
  then have "pinned x" by (simp add: pinned_def)
  from Remove_Head ok show ?thesis using safe_path_mono(1) [of h ret t, OF _ keep [OF \<open>pinned x\<close>]]
    by (fastforce simp: task_ok_def)
next
  case (Remove_Cas k a p)
  with ok keep show ?thesis by (fastforce simp: task_ok_def pinned_def)
next
  case (Clear_Next i a)
  then have "pinned x" by (simp add: pinned_def)
  from Clear_Next ok show ?thesis using safe_path_mono(1) [of h ret t, OF _ keep [OF \<open>pinned x\<close>]]
    by (fastforce simp: task_ok_def)
next
  case (Clear_Cas i a p)
  with ok keep show ?thesis by (fastforce simp: task_ok_def pinned_def)
qed (use ok in \<open>simp_all add: task_ok_def\<close>)

lemma sum_list_put:
  "t < length xs \<Longrightarrow> sum_list (map f (xs[t := x])) = sum_list (map f xs) - f (xs ! t) + (f x :: u64)"
  by (induction xs arbitrary: t) (auto split: nat.split)

lemma held_free: "held (Done r) = None" "held Idle = None" "debt hash i (Done r) = 0" "debt hash i Idle = 0"
  by (simp_all add: held_def debt_def)

section \<open>Each kind of step keeps the invariant\<close>

lemma lf_invD:
  assumes "lf_inv hash s"
  shows "length (lf_shards s) = num_shards"
    and "t < length (lf_tasks s) \<Longrightarrow> task_ok (lf_heap s) (lf_retired s) t (lf_tasks s ! t)"
    and "lf_retired s a = Some T \<Longrightarrow> \<exists>e. lf_heap s a = Some e"
    and "held_ok s"
    and "i < num_shards \<Longrightarrow> \<exists>as. chain_ok hash i as s"
proof -
  note i = assms [unfolded lf_inv_def]
  show "length (lf_shards s) = num_shards" "held_ok s" using i by simp_all
  show "t < length (lf_tasks s) \<Longrightarrow> task_ok (lf_heap s) (lf_retired s) t (lf_tasks s ! t)"
    and "i < num_shards \<Longrightarrow> \<exists>as. chain_ok hash i as s" using i by simp_all
  from i have "dom (lf_retired s) \<subseteq> dom (lf_heap s)" by simp
  then show "lf_retired s a = Some T \<Longrightarrow> \<exists>e. lf_heap s a = Some e" by blast
qed

lemma lf_invI:
  assumes "length (lf_shards s) = num_shards"
    and "\<And>t. t < length (lf_tasks s) \<Longrightarrow> task_ok (lf_heap s) (lf_retired s) t (lf_tasks s ! t)"
    and "\<And>a T. lf_retired s a = Some T \<Longrightarrow> \<exists>e. lf_heap s a = Some e"
    and "held_ok s"
    and "\<And>i. i < num_shards \<Longrightarrow> \<exists>as. chain_ok hash i as s"
  shows "lf_inv hash s"
proof -
  have "dom (lf_retired s) \<subseteq> dom (lf_heap s)" using assms(3) by blast
  then show ?thesis using assms(1,2,4,5) unfolding lf_inv_def by simp
qed

lemma held_okD:
  assumes "held_ok s" "t < length (lf_tasks s)" "held (lf_tasks s ! t) = Some a"
  shows "\<exists>e. lf_heap s a = Some e" "lf_retired s a = None"
    "t' < length (lf_tasks s) \<Longrightarrow> t' \<noteq> t \<Longrightarrow> held (lf_tasks s ! t') \<noteq> Some a"
proof -
  have all: "lf_heap s a \<noteq> None \<and> lf_retired s a = None
      \<and> (\<forall>t' < length (lf_tasks s). t' \<noteq> t \<longrightarrow> held (lf_tasks s ! t') \<noteq> Some a)"
    using assms unfolding held_ok_def by blast
  then show "\<exists>e. lf_heap s a = Some e" "lf_retired s a = None" by simp_all
  from all show "t' < length (lf_tasks s) \<Longrightarrow> t' \<noteq> t \<Longrightarrow> held (lf_tasks s ! t') \<noteq> Some a" by blast
qed

text \<open>A step of task \<open>t\<close> to \<open>x\<close> that leaves the lists alone.\<close>

definition quiet :: "('k \<Rightarrow> u64) \<Rightarrow> ('k, 'v) lf_task \<Rightarrow> ('k, 'v) lf_task \<Rightarrow> bool" where
  "quiet hash x y \<longleftrightarrow> (held y = held x \<or> held y = None) \<and> (\<forall>i. debt hash i y = debt hash i x)"

lemma held_put:
  assumes "t < length xs" "held y = held (xs ! t) \<or> held y = None"
    and "x \<in> set (xs[t := y])" "held x = Some a"
  shows "\<exists>x' \<in> set xs. held x' = Some a"
proof -
  from assms(3) consider "x = y" | "x \<in> set xs" using set_update_subset_insert [of xs t y] by blast
  then show ?thesis
  proof cases
    case 1
    with assms(2,4) have "held (xs ! t) = Some a" by auto
    with assms(1) show ?thesis using nth_mem by blast
  qed (use assms(4) in blast)
qed

lemma held_ok_put:
  assumes "held_ok s" "t < length (lf_tasks s)" "held y = held (lf_tasks s ! t) \<or> held y = None"
    and "lf_tasks s' = (lf_tasks s)[t := y]"
    and "\<And>t' a e. t' < length (lf_tasks s) \<Longrightarrow> held ((lf_tasks s)[t := y] ! t') = Some a \<Longrightarrow> lf_heap s a = Some e \<Longrightarrow> lf_retired s a = None
          \<Longrightarrow> lf_heap s' a \<noteq> None \<and> lf_retired s' a = None"
  shows "held_ok s'"
  unfolding held_ok_def
proof (intro allI impI)
  fix t' a
  assume t': "t' < length (lf_tasks s')" and h: "held (lf_tasks s' ! t') = Some a"
  have l: "length (lf_tasks s') = length (lf_tasks s)" by (simp add: assms(4))
  have old: "held (lf_tasks s ! t'') = Some a" if "held (lf_tasks s' ! t'') = Some a" "t'' < length (lf_tasks s)" for t''
    using that assms(2,3) by (auto simp: assms(4) nth_list_update split: if_splits)
  obtain e where e: "lf_heap s a = Some e" "lf_retired s a = None"
    using held_okD(1,2) [OF assms(1) _ old [OF h]] t' l by auto
  have "lf_heap s' a \<noteq> None \<and> lf_retired s' a = None"
    using assms(5) [OF _ _ e] t' h l assms(4) by simp
  moreover have "\<forall>t'' < length (lf_tasks s'). t'' \<noteq> t' \<longrightarrow> held (lf_tasks s' ! t'') \<noteq> Some a"
    using held_okD(3) [OF assms(1) _ old [OF h]] t' l old by metis
  ultimately show "lf_heap s' a \<noteq> None \<and> lf_retired s' a = None \<and> (\<forall>t'' < length (lf_tasks s'). t'' \<noteq> t' \<longrightarrow> held (lf_tasks s' ! t'') \<noteq> Some a)"
    by simp
qed

lemma inv_become:
  assumes "lf_inv hash s" "t < length (lf_tasks s)" "quiet hash (lf_tasks s ! t) y" "task_ok (lf_heap s) (lf_retired s) t y"
  shows "lf_inv hash (become t y s)"
proof -
  have h: "held y = held (lf_tasks s ! t) \<or> held y = None" and d: "\<And>i. debt hash i y = debt hash i (lf_tasks s ! t)"
    using assms(3) by (auto simp: quiet_def)
  have held: "held_ok (become t y s)"
    using lf_invD(4) [OF assms(1)] by (rule held_ok_put [OF _ assms(2) h]) (simp_all add: become_def)
  have chain: "chain_ok hash i as (become t y s)" if "chain_ok hash i as s" for i as
    using that held_put [OF assms(2) h] assms(2)
    unfolding chain_ok_def become_def head_of_def by (fastforce simp: sum_list_put d)
  show ?thesis
  proof (rule lf_invI)
    fix t' assume "t' < length (lf_tasks (become t y s))"
    then show "task_ok (lf_heap (become t y s)) (lf_retired (become t y s)) t' (lf_tasks (become t y s) ! t')"
      using lf_invD(2) [OF assms(1)] assms(2,4) by (cases "t' = t") (simp_all add: become_def)
  next
    show "\<exists>as. chain_ok hash i as (become t y s)" if "i < num_shards" for i
      using lf_invD(5) [OF assms(1) that] chain by blast
  qed (use lf_invD(1,3) [OF assms(1)] held in \<open>simp_all add: become_def\<close>)
qed

text \<open>The end of an operation.\<close>

lemma inv_finish:
  assumes inv: "lf_inv hash s" and t: "t < length (lf_tasks s)" and d: "\<And>i. debt hash i (lf_tasks s ! t) = 0"
  shows "lf_inv hash (finish t r s)"
proof -
  let ?s = "become t (Done r) s"
  have inv': "lf_inv hash ?s"
    using d by (intro inv_become [OF inv t]) (auto simp: quiet_def held_free task_ok_def)
  have h: "held (Done r) = held (lf_tasks ?s ! t) \<or> held (Done r) = None" by (simp add: held_free)
  have put: "lf_tasks (finish t r s) = (lf_tasks ?s)[t := Done r]" by (simp add: finish_def become_def)
  have "held_ok (finish t r s)"
    by (rule held_ok_put [OF lf_invD(4) [OF inv'] _ h put]) (auto simp: t finish_def become_def)
  moreover have "chain_ok hash i as (finish t r s)" if "chain_ok hash i as ?s" for i as
    using that unfolding chain_ok_def finish_def become_def head_of_def by simp
  moreover have "task_ok (lf_heap (finish t r s)) (lf_retired (finish t r s)) t' (lf_tasks (finish t r s) ! t')"
    if t': "t' < length (lf_tasks s)" for t'
  proof (cases "t' = t")
    case True
    then show ?thesis using t by (simp add: finish_def become_def task_ok_def)
  next
    case False
    have "task_ok (lf_heap s) (lf_retired s) t' (lf_tasks s ! t')" using lf_invD(2) [OF inv t'] .
    then have "task_ok (lf_heap s) (\<lambda>a. map_option (\<lambda>T. T - {t}) (lf_retired s a)) t' (lf_tasks s ! t')"
      by (rule task_ok_mono) (use False in \<open>auto simp: protected_def\<close>)
    then show ?thesis using False by (simp add: finish_def become_def)
  qed
  ultimately show ?thesis
    using lf_invD(1,3,5) [OF inv'] by (intro lf_invI) (auto simp: finish_def become_def, blast)
qed

lemma chain_okD:
  assumes "chain_ok hash i as s"
  shows "path (lf_heap s) (head_of i s) as None" "distinct (map (key_at (lf_heap s)) as)"
    "a \<in> set as \<Longrightarrow> hash_to_shard hash (key_at (lf_heap s) a) = i" "a \<in> set as \<Longrightarrow> lf_retired s a = None"
    "a \<in> set as \<Longrightarrow> x \<in> set (lf_tasks s) \<Longrightarrow> held x \<noteq> Some a"
    "a \<in> set as \<Longrightarrow> \<exists>e. lf_heap s a = Some e"
    "sh_len (lf_shards s ! i) = of_nat (length as) - sum_list (map (debt hash i) (lf_tasks s))"
  using assms path_allocated unfolding chain_ok_def by blast+

lemma chain_okI:
  assumes "path (lf_heap s) (head_of i s) as None" "distinct (map (key_at (lf_heap s)) as)"
    "\<And>a. a \<in> set as \<Longrightarrow> hash_to_shard hash (key_at (lf_heap s) a) = i" "\<And>a. a \<in> set as \<Longrightarrow> lf_retired s a = None"
    "\<And>a x. a \<in> set as \<Longrightarrow> x \<in> set (lf_tasks s) \<Longrightarrow> held x \<noteq> Some a"
    "sh_len (lf_shards s ! i) = of_nat (length as) - sum_list (map (debt hash i) (lf_tasks s))"
  shows "chain_ok hash i as s"
  using assms unfolding chain_ok_def by blast

text \<open>A list that a step leaves alone.\<close>

lemma chain_transfer:
  assumes c: "chain_ok hash i as s" and head: "head_of i s' = head_of i s"
    and heap: "\<And>a. a \<in> set as \<Longrightarrow> lf_heap s' a = lf_heap s a"
    and ret: "\<And>a. a \<in> set as \<Longrightarrow> lf_retired s a = None \<Longrightarrow> lf_retired s' a = None"
    and held: "\<And>a x. a \<in> set as \<Longrightarrow> x \<in> set (lf_tasks s') \<Longrightarrow> held x \<noteq> Some a"
    and len: "sh_len (lf_shards s' ! i) + sum_list (map (debt hash i) (lf_tasks s'))
      = sh_len (lf_shards s ! i) + sum_list (map (debt hash i) (lf_tasks s))"
  shows "chain_ok hash i as s'"
proof (rule chain_okI)
  have k: "key_at (lf_heap s') a = key_at (lf_heap s) a" if "a \<in> set as" for a
    by (simp add: key_at_def heap [OF that])
  then have m: "map (key_at (lf_heap s')) as = map (key_at (lf_heap s)) as" by simp
  show "path (lf_heap s') (head_of i s') as None" unfolding head by (rule path_mono [OF chain_okD(1) [OF c] heap])
  show "distinct (map (key_at (lf_heap s')) as)" unfolding m by (rule chain_okD(2) [OF c])
  show "a \<in> set as \<Longrightarrow> hash_to_shard hash (key_at (lf_heap s') a) = i" for a by (simp add: k chain_okD(3) [OF c])
  show "a \<in> set as \<Longrightarrow> lf_retired s' a = None" for a by (rule ret [OF _ chain_okD(4) [OF c]])
  show "sh_len (lf_shards s' ! i) = of_nat (length as) - sum_list (map (debt hash i) (lf_tasks s'))"
    using len chain_okD(7) [OF c] by (simp add: algebra_simps)
qed (rule held)

lemma chain_held:
  assumes "chain_ok hash i as s" "a \<in> set as" "t < length (lf_tasks s)" "held y = held (lf_tasks s ! t) \<or> held y = None"
    and "x \<in> set ((lf_tasks s)[t := y])"
  shows "held x \<noteq> Some a"
  using held_put [OF assms(3,4,5)] chain_okD(5) [OF assms(1,2)] by blast

text \<open>The change of a counter.\<close>

lemma inv_add_len:
  assumes inv: "lf_inv hash s" and t: "t < length (lf_tasks s)" and i: "i < num_shards"
    and h: "held y = held (lf_tasks s ! t) \<or> held y = None"
    and d: "\<And>j. debt hash j y = debt hash j (lf_tasks s ! t) - (if j = i then d else 0)"
    and ok: "task_ok (lf_heap s) (lf_retired s) t y"
  shows "lf_inv hash (become t y (add_len i d s))"
proof -
  let ?s = "become t y (add_len i d s)"
  have same: "lf_heap ?s = lf_heap s" "lf_retired ?s = lf_retired s" "lf_tasks ?s = (lf_tasks s)[t := y]"
    "length (lf_shards ?s) = length (lf_shards s)" by (simp_all add: become_def add_len_def)
  have l: "length (lf_shards s) = num_shards" by (rule lf_invD(1) [OF inv])
  have head: "head_of j ?s = head_of j s" for j
    using l i by (cases "j = i") (simp_all add: head_of_def become_def add_len_def)
  have len: "sh_len (lf_shards ?s ! j) = sh_len (lf_shards s ! j) + (if j = i then d else 0)" for j
    using l i by (cases "j = i") (simp_all add: become_def add_len_def)
  have "held_ok ?s"
    by (rule held_ok_put [OF lf_invD(4) [OF inv] t h same(3)]) (simp_all add: same)
  moreover have "chain_ok hash j as ?s" if "chain_ok hash j as s" for j as
    by (rule chain_transfer [OF that head]) (simp_all add: same len sum_list_put t d chain_held [OF that _ t h])
  moreover have "task_ok (lf_heap s) (lf_retired s) t' ((lf_tasks s)[t := y] ! t')" if "t' < length (lf_tasks s)" for t'
    using lf_invD(2) [OF inv that] ok t by (cases "t' = t") simp_all
  ultimately show ?thesis
    using l lf_invD(3,5) [OF inv] by (intro lf_invI) (simp_all add: same, blast+)
qed

text \<open>A new entry at the head.\<close>

lemma inv_link:
  assumes inv: "lf_inv hash s" and t: "t < length (lf_tasks s)" and x: "lf_tasks s ! t = Insert_Cas e p"
    and head: "head_of (hash_to_shard hash (le_key e)) s = p" and fresh: "lf_heap s fresh = None"
  shows "lf_inv hash (become t (Insert_Count (le_key e))
     (set_head (hash_to_shard hash (le_key e)) (Some fresh) (s\<lparr>lf_heap := (lf_heap s)(fresh \<mapsto> e\<lparr>le_next := p\<rparr>)\<rparr>)))"
    (is "lf_inv hash ?s")
proof -
  let ?i = "hash_to_shard hash (le_key e)"
  let ?y = "Insert_Count (le_key e) :: ('a, 'b) lf_task"
  have l: "length (lf_shards s) = num_shards" by (rule lf_invD(1) [OF inv])
  have same: "lf_heap ?s = (lf_heap s)(fresh \<mapsto> e\<lparr>le_next := p\<rparr>)" "lf_retired ?s = lf_retired s"
    "lf_tasks ?s = (lf_tasks s)[t := ?y]" "length (lf_shards ?s) = length (lf_shards s)"
    by (simp_all add: become_def set_head_def)
  have head': "head_of j ?s = (if j = ?i then Some fresh else head_of j s)"
    and len: "sh_len (lf_shards ?s ! j) = sh_len (lf_shards s ! j)" for j
    using l by (cases "j = ?i"; simp add: head_of_def become_def set_head_def)+
  have h: "held ?y = held (lf_tasks s ! t) \<or> held ?y = None" by (simp add: held_def)
  have d: "debt hash j ?y = debt hash j (lf_tasks s ! t) + (if j = ?i then 1 else 0)" for j
    by (simp add: x debt_def)
  have held: "held_ok ?s"
    by (rule held_ok_put [OF lf_invD(4) [OF inv] t h same(3)]) (auto simp: same)
  have keep: "path (lf_heap ?s) q as None" "a \<in> set as \<Longrightarrow> key_at (lf_heap ?s) a = key_at (lf_heap s) a" "fresh \<notin> set as"
    if q: "path (lf_heap s) q as None" for q as a
  proof -
    show f: "fresh \<notin> set as" using path_allocated [OF q] fresh by force
    then show "path (lf_heap ?s) q as None" by (intro path_mono [OF q]) (auto simp: same)
    show "a \<in> set as \<Longrightarrow> key_at (lf_heap ?s) a = key_at (lf_heap s) a" using f by (auto simp: same key_at_def)
  qed
  have other: "chain_ok hash j as ?s" if c: "chain_ok hash j as s" and j: "j \<noteq> ?i" for j as
  proof -
    have "fresh \<notin> set as" using keep(3) chain_okD(1) [OF c] .
    then show ?thesis
      using j by (intro chain_transfer [OF c]) (auto simp: head' len same sum_list_put t d chain_held [OF c _ t h])
  qed
  have new: "chain_ok hash ?i (fresh # as) ?s" if c: "chain_ok hash ?i as s" for as
  proof -
    from head have q: "path (lf_heap s) p as None" using chain_okD(1) [OF c] by simp
    obtain as' where "path (lf_heap s) p as' None" "\<forall>a \<in> set as'. key_at (lf_heap s) a \<noteq> le_key e"
      using lf_invD(2) [OF inv t] unfolding x by (auto simp: task_ok_def safe_path_def)
    then have absent: "le_key e \<notin> key_at (lf_heap s) ` set as" using path_unique [OF q] by fastforce
    have k: "key_at (lf_heap ?s) fresh = le_key e" by (simp add: same key_at_def)
    have m: "map (key_at (lf_heap ?s)) as = map (key_at (lf_heap s)) as" using keep(2) [OF q] by simp
    have nohold: "held x \<noteq> Some fresh" if "x \<in> set (lf_tasks ?s)" for x
    proof
      assume "held x = Some fresh"
      with that obtain x' where "x' \<in> set (lf_tasks s)" "held x' = Some fresh"
        using held_put [OF t h] unfolding same(3) by blast
      then show False using held_okD(1) [OF lf_invD(4) [OF inv]] fresh by (force simp: in_set_conv_nth)
    qed
    show ?thesis
    proof (rule chain_okI)
      show "path (lf_heap ?s) (head_of ?i ?s) (fresh # as) None" using keep(1) [OF q] by (simp add: head' same(1))
      show "distinct (map (key_at (lf_heap ?s)) (fresh # as))"
        using chain_okD(2) [OF c] absent by (simp add: m k)
      show "sh_len (lf_shards ?s ! ?i) = of_nat (length (fresh # as)) - sum_list (map (debt hash ?i) (lf_tasks ?s))"
        using chain_okD(7) [OF c] by (simp add: len same(3) sum_list_put t d)
    next
      fix a assume a: "a \<in> set (fresh # as)"
      show "hash_to_shard hash (key_at (lf_heap ?s) a) = ?i"
        using a k keep(2) [OF q] chain_okD(3) [OF c] by auto
      have "lf_retired s fresh = None" using lf_invD(3) [OF inv, of fresh] fresh by (cases "lf_retired s fresh") auto
      then show "lf_retired ?s a = None" using a chain_okD(4) [OF c] by (auto simp: same(2))
      show "held x \<noteq> Some a" if "x \<in> set (lf_tasks ?s)" for x
        using a nohold [OF that] chain_held [OF c _ t h] that unfolding same(3) by auto
    qed
  qed
  show ?thesis
  proof (rule lf_invI)
    fix t' assume "t' < length (lf_tasks ?s)"
    then have t': "t' < length (lf_tasks s)" by (simp add: same)
    have "task_ok (lf_heap ?s) (lf_retired s) t' (lf_tasks s ! t')"
      by (rule task_ok_mono [OF lf_invD(2) [OF inv t']]) (use fresh in \<open>auto simp: same\<close>)
    then show "task_ok (lf_heap ?s) (lf_retired ?s) t' (lf_tasks ?s ! t')"
      using t unfolding same(2,3) by (cases "t' = t") (simp_all add: task_ok_def)
  next
    fix j assume "j < num_shards"
    then obtain as where "chain_ok hash j as s" using lf_invD(5) [OF inv] by blast
    then show "\<exists>as. chain_ok hash j as ?s" using other new by (cases "j = ?i") blast+
  qed (use l lf_invD(3) [OF inv] held in \<open>auto simp: same\<close>)
qed

text \<open>The head is unlinked; the task holds it until it retires it.\<close>

lemma inv_unlink:
  assumes inv: "lf_inv hash s" and t: "t < length (lf_tasks s)" and i: "i < num_shards"
    and old: "held (lf_tasks s ! t) = None" "\<And>j. debt hash j (lf_tasks s ! t) = 0"
    and new: "held y = Some a" "\<And>j. debt hash j y = (if j = i then -1 else 0)" "\<And>h ret. task_ok h ret t y"
    and head: "head_of i s = Some a" and e: "lf_heap s a = Some e" "le_next e = p"
  shows "lf_inv hash (become t y (set_head i p s))" (is "lf_inv hash ?s")
proof -
  have l: "length (lf_shards s) = num_shards" by (rule lf_invD(1) [OF inv])
  have same: "lf_heap ?s = lf_heap s" "lf_retired ?s = lf_retired s" "lf_tasks ?s = (lf_tasks s)[t := y]"
    "length (lf_shards ?s) = length (lf_shards s)" by (simp_all add: become_def set_head_def)
  have head': "head_of j ?s = (if j = i then p else head_of j s)"
    and len: "sh_len (lf_shards ?s ! j) = sh_len (lf_shards s ! j)" for j
    using l i by (cases "j = i"; simp add: head_of_def become_def set_head_def)+
  obtain as0 where c0: "chain_ok hash i as0 s" using lf_invD(5) [OF inv i] by blast
  obtain bs where as0: "as0 = a # bs" and bs: "path (lf_heap s) p bs None"
    using path_Some [of "lf_heap s" a as0] chain_okD(1) [OF c0] head e by auto
  have a: "a \<in> set as0" by (simp add: as0)
  have xa: "x \<noteq> a" if "x \<in> set bs" for x
    using chain_okD(2) [OF c0] that by (auto simp: as0)
  have held: "held_ok ?s"
    unfolding held_ok_def
  proof (intro allI impI)
    fix t' b assume t': "t' < length (lf_tasks ?s)" and b: "held (lf_tasks ?s ! t') = Some b"
    have nota: "held (lf_tasks s ! t'') \<noteq> Some a" if "t'' < length (lf_tasks s)" for t''
      using chain_okD(5) [OF c0 a] that by simp
    show "lf_heap ?s b \<noteq> None \<and> lf_retired ?s b = None \<and> (\<forall>t'' < length (lf_tasks ?s). t'' \<noteq> t' \<longrightarrow> held (lf_tasks ?s ! t'') \<noteq> Some b)"
    proof (cases "t' = t")
      case True
      with b t new(1) have "b = a" by (simp add: same)
      then show ?thesis using True e(1) chain_okD(4) [OF c0 a] nota by (simp add: same)
    next
      case False
      with b have b': "held (lf_tasks s ! t') = Some b" by (simp add: same)
      from t' have t'': "t' < length (lf_tasks s)" by (simp add: same)
      have "b \<noteq> a" using nota [OF t''] b' by auto
      have "held ((lf_tasks s)[t := y] ! u) \<noteq> Some b" if "u < length (lf_tasks s)" "u \<noteq> t'" for u
        using held_okD(3) [OF lf_invD(4) [OF inv] t'' b' that] that t new(1) \<open>b \<noteq> a\<close> by (cases "u = t") auto
      then show ?thesis
        using held_okD(1,2) [OF lf_invD(4) [OF inv] t'' b'] by (simp add: same)
    qed
  qed
  have "\<exists>as. chain_ok hash j as ?s" if "j < num_shards" for j
  proof (cases "j = i")
    case True
    have "chain_ok hash i bs ?s"
    proof (rule chain_okI)
      show "path (lf_heap ?s) (head_of i ?s) bs None" using bs by (simp add: same head')
      show "distinct (map (key_at (lf_heap ?s)) bs)" using chain_okD(2) [OF c0] by (simp add: same as0)
      show "sh_len (lf_shards ?s ! i) = of_nat (length bs) - sum_list (map (debt hash i) (lf_tasks ?s))"
        using chain_okD(7) [OF c0] t by (simp add: len same as0 sum_list_put old new)
    next
      fix x assume x: "x \<in> set bs"
      then have x0: "x \<in> set as0" by (simp add: as0)
      show "hash_to_shard hash (key_at (lf_heap ?s) x) = i" "lf_retired ?s x = None"
        using chain_okD(3,4) [OF c0 x0] by (simp_all add: same)
      show "held z \<noteq> Some x" if "z \<in> set (lf_tasks ?s)" for z
        using that set_update_subset_insert [of "lf_tasks s" t y] chain_okD(5) [OF c0 x0] new(1) xa [OF x]
        unfolding same by auto
    qed
    with True show ?thesis by blast
  next
    case False
    obtain as where c: "chain_ok hash j as s" using lf_invD(5) [OF inv \<open>j < num_shards\<close>] by blast
    have na: "x \<noteq> a" if "x \<in> set as" for x
      using chain_okD(3) [OF c that] chain_okD(3) [OF c0 a] False by auto
    have "held z \<noteq> Some x" if "x \<in> set as" "z \<in> set (lf_tasks ?s)" for x z
      using that(2) set_update_subset_insert [of "lf_tasks s" t y] chain_okD(5) [OF c that(1)] new(1) na [OF that(1)]
      unfolding same by auto
    then have "chain_ok hash j as ?s"
      using False t by (intro chain_transfer [OF c]) (simp_all add: head' len same sum_list_put old new)
    then show ?thesis by blast
  qed
  moreover have "task_ok (lf_heap ?s) (lf_retired ?s) t' (lf_tasks ?s ! t')" if "t' < length (lf_tasks ?s)" for t'
    using lf_invD(2) [OF inv, of t'] that t new(3) by (cases "t' = t") (simp_all add: same)
  ultimately show ?thesis
    using l lf_invD(3) [OF inv] held by (intro lf_invI) (simp_all add: same)
qed

text \<open>The task retires what it holds.\<close>

lemma inv_defer:
  assumes inv: "lf_inv hash s" and t: "t < length (lf_tasks s)" and old: "held (lf_tasks s ! t) = Some a"
    and new: "held y = None" "\<And>j. debt hash j y = debt hash j (lf_tasks s ! t)" "\<And>h ret. task_ok h ret t y"
  shows "lf_inv hash (become t y (s\<lparr>lf_retired := (lf_retired s)(a \<mapsto> pinned_tasks s)\<rparr>))" (is "lf_inv hash ?s")
proof -
  have same: "lf_heap ?s = lf_heap s" "lf_retired ?s = (lf_retired s)(a \<mapsto> pinned_tasks s)" "lf_tasks ?s = (lf_tasks s)[t := y]"
    "lf_shards ?s = lf_shards s" "head_of j ?s = head_of j s" for j by (simp_all add: become_def head_of_def)
  have h: "held y = held (lf_tasks s ! t) \<or> held y = None" by (simp add: new)
  note a = held_okD [OF lf_invD(4) [OF inv] t old]
  have other: "b \<noteq> a" if "t' < length (lf_tasks s)" "held ((lf_tasks s)[t := y] ! t') = Some b" for t' b
    using that a(3) [of t'] t new(1) by (cases "t' = t") auto
  have held: "held_ok ?s"
    by (rule held_ok_put [OF lf_invD(4) [OF inv] t h same(3)]) (auto simp: same dest: other)
  have "chain_ok hash j as ?s" if c: "chain_ok hash j as s" for j as
  proof -
    have "a \<notin> set as" using chain_okD(5) [OF c, of a "lf_tasks s ! t"] t old by auto
    then show ?thesis
      by (intro chain_transfer [OF c]) (auto simp: same sum_list_put t new(2) chain_held [OF c _ t h])
  qed
  moreover have "task_ok (lf_heap ?s) (lf_retired ?s) t' (lf_tasks ?s ! t')" if t': "t' < length (lf_tasks ?s)" for t'
  proof (cases "t' = t")
    case False
    from t' have t'': "t' < length (lf_tasks s)" by (simp add: same)
    have "task_ok (lf_heap s) ((lf_retired s)(a \<mapsto> pinned_tasks s)) t' (lf_tasks s ! t')"
      by (rule task_ok_mono [OF lf_invD(2) [OF inv t'']]) (use t'' in \<open>auto simp: protected_def pinned_tasks_def\<close>)
    with False show ?thesis by (simp add: same)
  qed (use t new(3) in \<open>simp add: same\<close>)
  ultimately show ?thesis
    using lf_invD(1) [OF inv] held
  proof (intro lf_invI)
    show "lf_retired ?s b = Some T \<Longrightarrow> \<exists>e. lf_heap ?s b = Some e" for b T
      using lf_invD(3) [OF inv, of b] a(1) by (auto simp: same split: if_splits)
    show "j < num_shards \<Longrightarrow> \<exists>as. chain_ok hash j as ?s" for j
      using lf_invD(5) [OF inv, of j] \<open>\<And>j as. chain_ok hash j as s \<Longrightarrow> chain_ok hash j as ?s\<close> by blast
  qed (simp_all add: same)
qed

text \<open>An entry that no task can reach any more is freed.\<close>

lemma inv_collect:
  assumes inv: "lf_inv hash s" and a: "lf_retired s a = Some {}"
  shows "lf_inv hash (lf_collect a s)"
proof -
  let ?s = "lf_collect a s"
  have same: "lf_heap ?s = (lf_heap s)(a := None)" "lf_retired ?s = (lf_retired s)(a := None)" "lf_tasks ?s = lf_tasks s"
    "lf_shards ?s = lf_shards s" "head_of j ?s = head_of j s" for j by (simp_all add: lf_collect_def head_of_def)
  have held: "held_ok ?s"
    using lf_invD(4) [OF inv] a unfolding held_ok_def same by (metis fun_upd_apply option.distinct(1))
  have "chain_ok hash j as ?s" if c: "chain_ok hash j as s" for j as
  proof -
    have "a \<notin> set as" using chain_okD(4) [OF c, of a] a by auto
    then show ?thesis by (intro chain_transfer [OF c]) (auto simp: same dest: chain_okD(5) [OF c])
  qed
  moreover have "task_ok (lf_heap ?s) (lf_retired ?s) t (lf_tasks ?s ! t)" if "t < length (lf_tasks ?s)" for t
    unfolding same
    by (rule task_ok_mono [OF lf_invD(2) [OF inv]]) (use a that in \<open>auto simp: same protected_def\<close>)
  ultimately show ?thesis
    using lf_invD(1) [OF inv] held
  proof (intro lf_invI)
    show "lf_retired ?s b = Some T \<Longrightarrow> \<exists>e. lf_heap ?s b = Some e" for b T
      using lf_invD(3) [OF inv, of b] by (auto simp: same split: if_splits)
    show "j < num_shards \<Longrightarrow> \<exists>as. chain_ok hash j as ?s" for j
      using lf_invD(5) [OF inv, of j] \<open>\<And>j as. chain_ok hash j as s \<Longrightarrow> chain_ok hash j as ?s\<close> by blast
  qed (simp_all add: same)
qed

section \<open>Every step keeps the invariant\<close>

lemma head_safe:
  assumes "lf_inv hash s" "i < num_shards"
  shows "\<exists>as. safe_path (lf_heap s) (lf_retired s) t (head_of i s) as None"
proof -
  obtain as where c: "chain_ok hash i as s" using lf_invD(5) [OF assms] by blast
  then show ?thesis using chain_okD(1,4) [OF c] by (auto simp: safe_path_def protected_def)
qed

lemma safe_path_Some:
  assumes "safe_path h ret t (Some a) as None"
  shows "\<exists>e bs. h a = Some e \<and> as = a # bs \<and> safe_path h ret t (le_next e) bs None \<and> protected ret t a"
  using assms path_Some [of h a as] by (fastforce simp: safe_path_def)

lemmas task_simps = task_ok_def quiet_def held_def debt_def pinned_def

lemma inv_get_step:
  assumes inv: "lf_inv hash s" and t: "t < length (lf_tasks s)" and x: "lf_tasks s ! t = x"
    and op: "x = Get_Load k \<or> x = Get_Scan k p"
  shows "lf_inv hash (get_step hash now t x s)"
  using op
proof
  assume "x = Get_Load k"
  with x head_safe [OF inv, of "hash_to_shard hash k"] show ?thesis
    by (simp add: get_step_def) (intro inv_become [OF inv t]; simp add: task_simps)
next
  assume g: "x = Get_Scan k p"
  have fin: "lf_inv hash (finish t r s)" for r
    by (rule inv_finish [OF inv t]) (simp add: x g debt_def)
  show ?thesis
  proof (cases p)
    case None
    with g fin show ?thesis by (simp add: get_step_def)
  next
    case (Some a)
    obtain as where "safe_path (lf_heap s) (lf_retired s) t (Some a) as None"
      using lf_invD(2) [OF inv t] x g Some by (auto simp: task_ok_def)
    then obtain e bs where e: "lf_heap s a = Some e" "safe_path (lf_heap s) (lf_retired s) t (le_next e) bs None"
      using safe_path_Some by blast
    then have "lf_inv hash (become t (Get_Scan k (le_next e)) s)"
      using x g by (intro inv_become [OF inv t]) (auto simp: task_simps)
    with fin show ?thesis using g Some e by (simp add: get_step_def deref_def split: option.split)
  qed
qed

lemma inv_insert_step:
  assumes inv: "lf_inv hash s" and t: "t < length (lf_tasks s)" and x: "lf_tasks s ! t = x" and fresh: "lf_heap s fresh = None"
  shows "lf_inv hash (insert_step hash now fresh t x s)"
proof (cases x)
  case (Insert_Check k v ttl)
  then have "lf_inv hash (finish t (Flag False) s)" using x by (intro inv_finish [OF inv t]) (simp add: debt_def)
  moreover have "lf_inv hash (become t (Insert_Load (le_new k v ttl now)) s)"
    using x Insert_Check by (intro inv_become [OF inv t]) (simp_all add: task_simps)
  ultimately show ?thesis by (simp add: Insert_Check insert_step_def)
next
  case (Insert_Load e)
  let ?h = "head_of (hash_to_shard hash (le_key e)) s"
  obtain bs where "safe_path (lf_heap s) (lf_retired s) t ?h bs None"
    using head_safe [OF inv hash_to_shard_less, of t hash "le_key e"] by blast
  moreover have "safe_path (lf_heap s) (lf_retired s) t ?h [] ?h" by (simp add: safe_path_def)
  ultimately have "task_ok (lf_heap s) (lf_retired s) t (Insert_Scan e ?h ?h)"
    by (simp add: task_ok_def) (metis empty_iff list.set(1))
  then have "lf_inv hash (become t (Insert_Scan e ?h ?h) s)"
    using x Insert_Load by (intro inv_become [OF inv t]) (simp_all add: quiet_def held_def debt_def)
  then show ?thesis by (simp add: Insert_Load insert_step_def Let_def)
next
  case (Insert_Scan e p q)
  then obtain as bs where ok: "safe_path (lf_heap s) (lf_retired s) t p as q" "safe_path (lf_heap s) (lf_retired s) t q bs None"
    "\<forall>a \<in> set as. key_at (lf_heap s) a \<noteq> le_key e"
    using lf_invD(2) [OF inv t] x by (auto simp: task_ok_def)
  show ?thesis
  proof (cases q)
    case None
    with Insert_Scan x ok show ?thesis
      by (simp add: insert_step_def) (intro inv_become [OF inv t]; auto simp: task_simps)
  next
    case (Some a)
    with ok obtain e' cs where e': "lf_heap s a = Some e'" "safe_path (lf_heap s) (lf_retired s) t (le_next e') cs None"
      "protected (lf_retired s) t a" using safe_path_Some by metis
    have fin: "lf_inv hash (finish t (Flag False) s)"
      using x Insert_Scan by (intro inv_finish [OF inv t]) (simp add: debt_def)
    have "lf_inv hash (become t (Insert_Scan e p (le_next e')) s)" if "le_key e' \<noteq> le_key e"
    proof (rule inv_become [OF inv t])
      have "safe_path (lf_heap s) (lf_retired s) t p (as @ [a]) (le_next e')"
        using ok(1) e' Some by (auto simp: safe_path_def path_append)
      moreover have "\<forall>b \<in> set (as @ [a]). key_at (lf_heap s) b \<noteq> le_key e"
        using ok(3) that e'(1) by (auto simp: key_at_def)
      ultimately show "task_ok (lf_heap s) (lf_retired s) t (Insert_Scan e p (le_next e'))"
        using e'(2) unfolding task_ok_def lf_task.case by blast
    qed (use x Insert_Scan in \<open>simp add: task_simps\<close>)
    with fin show ?thesis using e'(1) by (simp add: Insert_Scan Some insert_step_def deref_def)
  qed
next
  case (Insert_Cas e p)
  then have "lf_inv hash (become t (Insert_Load e) s)"
    using x by (intro inv_become [OF inv t]) (simp_all add: task_simps)
  then show ?thesis
    using inv_link [OF inv t _ _ fresh] x by (simp add: Insert_Cas insert_step_def Let_def)
next
  case (Insert_Count k)
  let ?s = "become t Idle (add_len (hash_to_shard hash k) 1 s)"
  have "lf_inv hash ?s"
    using x Insert_Count by (intro inv_add_len [OF inv t]) (simp_all add: task_simps)
  then have "lf_inv hash (finish t (Flag True) ?s)"
    using t by (intro inv_finish) (simp_all add: become_def add_len_def debt_def)
  then show ?thesis by (simp add: Insert_Count insert_step_def finish_def become_def add_len_def)
qed (use inv in \<open>simp_all add: insert_step_def\<close>)

lemma inv_remove_step:
  assumes inv: "lf_inv hash s" and t: "t < length (lf_tasks s)" and x: "lf_tasks s ! t = x"
  shows "lf_inv hash (remove_step hash t x s)"
proof (cases x)
  case (Remove_Load k)
  obtain as where safe: "safe_path (lf_heap s) (lf_retired s) t (head_of (hash_to_shard hash k) s) as None"
    using head_safe [OF inv hash_to_shard_less, of t hash k] by blast
  show ?thesis
  proof (cases "head_of (hash_to_shard hash k) s")
    case None
    have "lf_inv hash (finish t (Value None) s)" using x Remove_Load by (intro inv_finish [OF inv t]) (simp add: debt_def)
    with None show ?thesis by (simp add: Remove_Load remove_step_def)
  next
    case (Some h)
    with safe have "lf_inv hash (become t (Remove_Head k h) s)"
      using x Remove_Load by (intro inv_become [OF inv t]) (auto simp: task_simps)
    with Some show ?thesis by (simp add: Remove_Load remove_step_def)
  qed
next
  case (Remove_Head k h)
  then obtain e where e: "lf_heap s h = Some e" "protected (lf_retired s) t h"
    using lf_invD(2) [OF inv t] x safe_path_Some by (fastforce simp: task_ok_def)
  then have "lf_inv hash (become t (Remove_Cas k h (le_next e)) s)"
    using x Remove_Head by (intro inv_become [OF inv t]) (auto simp: task_simps)
  moreover have "lf_inv hash (finish t (Value None) s)" using x Remove_Head by (intro inv_finish [OF inv t]) (simp add: debt_def)
  ultimately show ?thesis using e(1) by (simp add: Remove_Head remove_step_def deref_def)
next
  case (Remove_Cas k h p)
  then obtain e where e: "lf_heap s h = Some e" "le_next e = p"
    using lf_invD(2) [OF inv t] x by (auto simp: task_ok_def)
  have "lf_inv hash (become t (Remove_Load k) s)"
    using x Remove_Cas by (intro inv_become [OF inv t]) (simp_all add: task_simps)
  moreover have "lf_inv hash (become t (Remove_Count k h) (set_head (hash_to_shard hash k) p s))"
    if "head_of (hash_to_shard hash k) s = Some h"
    by (rule inv_unlink [OF inv t hash_to_shard_less _ _ _ _ _ that e])
      (use x Remove_Cas in \<open>auto simp: task_simps\<close>)
  ultimately show ?thesis by (simp add: Remove_Cas remove_step_def)
next
  case (Remove_Count k h)
  then have "lf_inv hash (become t (Remove_Defer h) (add_len (hash_to_shard hash k) (- 1) s))"
    using x by (intro inv_add_len [OF inv t]) (simp_all add: task_simps)
  then show ?thesis by (simp add: Remove_Count remove_step_def)
next
  case (Remove_Defer h)
  then have h: "held (lf_tasks s ! t) = Some h" using x by (simp add: held_def)
  then obtain e where e: "lf_heap s h = Some e" "lf_retired s h = None"
    using held_okD(1,2) [OF lf_invD(4) [OF inv] t] by blast
  let ?s = "become t Idle (s\<lparr>lf_retired := (lf_retired s)(h \<mapsto> pinned_tasks s)\<rparr>)"
  have "lf_inv hash ?s"
    using x Remove_Defer by (intro inv_defer [OF inv t h]) (simp_all add: task_simps)
  then have "lf_inv hash (finish t (Value (Some (le_value e))) ?s)"
    using t by (intro inv_finish) (simp_all add: become_def debt_def)
  then show ?thesis
    using e by (simp add: Remove_Defer remove_step_def deref_def defer_destroy_def finish_def become_def)
qed (use inv in \<open>simp_all add: remove_step_def\<close>)

lemma inv_clear_step:
  assumes inv: "lf_inv hash s" and t: "t < length (lf_tasks s)" and x: "lf_tasks s ! t = x"
  shows "lf_inv hash (clear_step t x s)"
proof (cases x)
  case (Clear_Load i)
  have fin: "lf_inv hash (finish t Cleared s)" using x Clear_Load by (intro inv_finish [OF inv t]) (simp add: debt_def)
  have go: "lf_inv hash (become t (Clear_Load (i + 1)) s)"
    using x Clear_Load by (intro inv_become [OF inv t]) (simp_all add: task_simps)
  have "lf_inv hash (become t (Clear_Next i h) s)" if "head_of i s = Some h" "i < num_shards" for h
    using head_safe [OF inv that(2), of t] that x Clear_Load by (intro inv_become [OF inv t]) (simp_all add: task_simps)
  with fin go show ?thesis by (simp add: Clear_Load clear_step_def split: option.split)
next
  case (Clear_Next i h)
  then obtain e where e: "lf_heap s h = Some e" "protected (lf_retired s) t h" "i < num_shards"
    using lf_invD(2) [OF inv t] x safe_path_Some by (fastforce simp: task_ok_def)
  then have "lf_inv hash (become t (Clear_Cas i h (le_next e)) s)"
    using x Clear_Next by (intro inv_become [OF inv t]) (auto simp: task_simps)
  then show ?thesis using e(1) by (simp add: Clear_Next clear_step_def deref_def)
next
  case (Clear_Cas i h p)
  then obtain e where e: "lf_heap s h = Some e" "le_next e = p" and i: "i < num_shards"
    using lf_invD(2) [OF inv t] x by (auto simp: task_ok_def)
  have "lf_inv hash (become t (Clear_Load i) s)"
    using x Clear_Cas by (intro inv_become [OF inv t]) (simp_all add: task_simps)
  moreover have "lf_inv hash (become t (Clear_Defer i h) (set_head i p s))" if "head_of i s = Some h"
    by (rule inv_unlink [OF inv t i _ _ _ _ _ that e]) (use x Clear_Cas i in \<open>auto simp: task_simps\<close>)
  ultimately show ?thesis by (simp add: Clear_Cas clear_step_def)
next
  case (Clear_Defer i h)
  then have h: "held (lf_tasks s ! t) = Some h" using x by (simp add: held_def)
  then obtain e where e: "lf_heap s h = Some e" "lf_retired s h = None"
    using held_okD(1,2) [OF lf_invD(4) [OF inv] t] by blast
  have i: "i < num_shards" using lf_invD(2) [OF inv t] x Clear_Defer by (simp add: task_ok_def)
  have "lf_inv hash (become t (Clear_Count i) (s\<lparr>lf_retired := (lf_retired s)(h \<mapsto> pinned_tasks s)\<rparr>))"
    using x Clear_Defer i by (intro inv_defer [OF inv t h]) (simp_all add: task_simps)
  then show ?thesis using e by (simp add: Clear_Defer clear_step_def defer_destroy_def)
next
  case (Clear_Count i)
  then have "i < num_shards" using lf_invD(2) [OF inv t] x by (simp add: task_ok_def)
  then have "lf_inv hash (become t (Clear_Load i) (add_len i (- 1) s))"
    using x Clear_Count by (intro inv_add_len [OF inv t]) (simp_all add: task_simps)
  then show ?thesis by (simp add: Clear_Count clear_step_def)
qed (use inv in \<open>simp_all add: clear_step_def\<close>)

lemma inv_len_step:
  assumes inv: "lf_inv hash s" and t: "t < length (lf_tasks s)" and x: "lf_tasks s ! t = x"
  shows "lf_inv hash (len_step t x s)"
proof (cases x)
  case (Len_Load i acc)
  then have "lf_inv hash (finish t (Size acc) s)" "\<And>n. lf_inv hash (become t (Len_Load (i + 1) n) s)"
    using x by (auto intro!: inv_finish [OF inv t] inv_become [OF inv t] simp: task_simps)
  then show ?thesis by (simp add: Len_Load len_step_def)
qed (use inv in \<open>simp_all add: len_step_def\<close>)

lemma inv_lf_step:
  assumes inv: "lf_inv hash s" and t: "t < length (lf_tasks s)" and fresh: "lf_heap s fresh = None"
  shows "lf_inv hash (lf_step hash now fresh t s)"
  using inv inv_get_step [OF inv t refl, of _ _ now] inv_insert_step [OF inv t refl fresh] inv_remove_step [OF inv t refl]
    inv_clear_step [OF inv t refl] inv_len_step [OF inv t refl]
  by (cases "lf_tasks s ! t") (simp_all add: lf_step_def Let_def)

lemma inv_new: "lf_inv hash (lf_new cap n)"
proof (rule lf_invI)
  fix i assume i: "i < num_shards"
  have "sum_list (map (debt hash i) (replicate n Idle)) = 0" by (induction n) (simp_all add: debt_def)
  then have "chain_ok hash i [] (lf_new cap n)"
    using i by (intro chain_okI) (simp_all add: lf_new_def head_of_def shard_new_def)
  then show "\<exists>as. chain_ok hash i as (lf_new cap n)" by blast
qed (simp_all add: lf_new_def task_ok_def held_ok_def held_def)

lemma inv_begins:
  assumes "lf_inv hash s" "t < length (lf_tasks s)" "is_free (lf_tasks s ! t)"
  shows "lf_inv hash (become t (start_of c) s)"
  using assms(3) by (intro inv_become [OF assms(1,2)]; cases c; cases "lf_tasks s ! t") (simp_all add: task_simps is_free_def)

lemma length_tasks [simp]:
  "length (lf_tasks (become t x s)) = length (lf_tasks s)" "length (lf_tasks (finish t r s)) = length (lf_tasks s)"
  "length (lf_tasks (set_head i p s)) = length (lf_tasks s)" "length (lf_tasks (add_len i d s)) = length (lf_tasks s)"
  "length (lf_tasks (lf_collect a s)) = length (lf_tasks s)"
  by (simp_all add: become_def finish_def set_head_def add_len_def lf_collect_def)

lemma length_lf_step [simp]: "length (lf_tasks (lf_step hash now fresh t s)) = length (lf_tasks s)"
  by (cases "lf_tasks s ! t")
    (simp_all add: lf_step_def get_step_def insert_step_def remove_step_def len_step_def clear_step_def deref_def
      defer_destroy_def Let_def split: option.split)

lemma run_inv: "lf_run hash cap n s \<Longrightarrow> lf_inv hash s \<and> length (lf_tasks s) = n"
proof (induction rule: lf_run.induct)
  case init
  show ?case using inv_new by (simp add: lf_new_def [of cap n] del: One_nat_def) (simp add: inv_new [unfolded lf_new_def])
qed (simp_all add: inv_begins inv_lf_step inv_collect)

section \<open>What the cache guarantees\<close>

text \<open>A schedule of steps, each with its task and the address that the allocator would give.\<close>

fun lf_exec :: "('k \<Rightarrow> u64) \<Rightarrow> (nat \<times> nat) list \<Rightarrow> ('k, 'v) lf_cache \<Rightarrow> ('k, 'v) lf_cache option" where
  "lf_exec hash [] s = Some s"
| "lf_exec hash ((t, fresh) # ts) s =
     (if t < length (lf_tasks s) \<and> Option.is_none (lf_heap s fresh) then lf_exec hash ts (lf_step hash 0 fresh t s) else None)"

lemma lf_run_exec:
  "lf_exec hash ts s = Some s' \<Longrightarrow> lf_run hash cap n s \<Longrightarrow> lf_run hash cap n s'"
  by (induction hash ts s rule: lf_exec.induct)
    (auto simp: Option.is_none_def dest: run_inv intro: lf_run.steps split: if_splits)

text \<open>C36: No task ever follows a pointer to freed memory and no entry is retired twice, in every interleaving of any
  number of tasks, whenever entries are freed and their addresses are given out again.\<close>

theorem lock_free_memory_safe:
  assumes "lf_run hash cap n s" "t < n"
  shows "lf_tasks s ! t \<noteq> Fault"
  using lf_invD(2) [of hash s t] run_inv [OF assms(1)] assms(2) by (auto simp: task_ok_def)

text \<open>C37: In every interleaving each list holds a key at most once, in the list of its hash, and when no operation runs
  the counter of a list is the number of its entries.\<close>

theorem lock_free_keys_distinct:
  assumes "lf_run hash cap n s" "i < num_shards"
  shows "\<exists>as. path (lf_heap s) (head_of i s) as None
    \<and> distinct (map (key_at (lf_heap s)) as)
    \<and> (\<forall>a \<in> set as. hash_to_shard hash (key_at (lf_heap s) a) = i)
    \<and> ((\<forall>x \<in> set (lf_tasks s). is_free x) \<longrightarrow> sh_len (lf_shards s ! i) = of_nat (length as))"
proof -
  obtain as where c: "chain_ok hash i as s" using lf_invD(5) run_inv assms by blast
  have "sum_list (map (debt hash i) xs) = 0" if "\<forall>x \<in> set xs. is_free x" for xs :: "('a, 'b) lf_task list"
    using that by (induction xs) (auto simp: debt_def is_free_def split: lf_task.splits)
  with c show ?thesis using chain_okD(1,2,3,7) [OF c] by (intro exI [of _ as]) simp
qed

text \<open>Two tasks insert the same key: both find the list empty, the second loses the exchange, finds the key and gives up.\<close>

definition sample_lf :: "(nat, nat) lf_cache option" where
  "sample_lf = lf_exec of_nat [(0, 1), (1, 1), (0, 1), (1, 1), (0, 1), (1, 1), (0, 1), (1, 2), (1, 2), (1, 2), (0, 2)]
     (become 1 (start_of (Insert 5 8 None)) (become 0 (start_of (Insert 5 7 None)) (lf_new 640 2)))"

lemma sample_lf_run:
  obtains s where "sample_lf = Some s" "lf_run of_nat 640 2 s"
proof -
  have "sample_lf \<noteq> None" by code_simp
  then obtain s where s: "sample_lf = Some s" by blast
  have r0: "lf_run of_nat 640 2 (become 0 (start_of (Insert 5 7 None)) (lf_new 640 2 :: (nat, nat) lf_cache))"
    by (intro lf_run.begins lf_run.init) (simp_all add: lf_new_def is_free_def)
  have "lf_run of_nat 640 2 (become 1 (start_of (Insert 5 8 None)) (become 0 (start_of (Insert 5 7 None)) (lf_new 640 2 :: (nat, nat) lf_cache)))"
    by (intro lf_run.begins [OF r0]) (simp_all add: lf_new_def is_free_def become_def)
  with s show thesis by (intro that [OF s] lf_run_exec [OF s [unfolded sample_lf_def]])
qed

lemma sample_lf_result:
  "case sample_lf of None \<Rightarrow> False | Some s \<Rightarrow> lf_tasks s = [Done (Flag True), Done (Flag False)] \<and> head_of 5 s = Some 1"
  by code_simp

lemma lock_free_memory_safe_witness:
  "\<exists>s. sample_lf = Some s \<and> lf_tasks s ! 1 = Done (Flag False) \<and> lf_tasks s ! 1 \<noteq> Fault"
proof -
  obtain s where s: "sample_lf = Some s" "lf_run of_nat 640 2 s" by (rule sample_lf_run)
  have "lf_tasks s ! 1 \<noteq> Fault" by (rule lock_free_memory_safe [OF s(2)]) simp
  then show ?thesis using sample_lf_result unfolding s(1) by simp
qed

lemma lock_free_keys_distinct_witness:
  "\<exists>s as. sample_lf = Some s \<and> head_of 5 s = Some 1 \<and> path (lf_heap s) (head_of 5 s) as None
    \<and> distinct (map (key_at (lf_heap s)) as) \<and> sh_len (lf_shards s ! 5) = of_nat (length as)"
proof -
  obtain s where s: "sample_lf = Some s" "lf_run of_nat 640 2 s" by (rule sample_lf_run)
  have five: "5 < num_shards" by (simp add: num_shards_def)
  have fin: "lf_tasks s = [Done (Flag True), Done (Flag False)]" "head_of 5 s = Some 1"
    using sample_lf_result unfolding s(1) by simp_all
  obtain as where "path (lf_heap s) (head_of 5 s) as None" "distinct (map (key_at (lf_heap s)) as)"
    "(\<forall>x \<in> set (lf_tasks s). is_free x) \<longrightarrow> sh_len (lf_shards s ! 5) = of_nat (length as)"
    using lock_free_keys_distinct [OF s(2) five] by blast
  with s(1) fin show ?thesis by (intro exI [of _ s] exI [of _ as]) (simp add: is_free_def)
qed

text \<open>Only the head of a list is removed: a key behind it is reported as missing.\<close>

lemma remove_only_head:
  assumes "t < length (lf_tasks s)" "lf_tasks s ! t = Remove_Load k" "head_of (hash_to_shard hash k) s = Some a"
    and "lf_heap s a = Some e" "le_key e \<noteq> k"
  shows "lf_tasks (lf_step hash now' f' t (lf_step hash now f t s)) ! t = Done (Value None)"
  using assms by (simp add: lf_step_def remove_step_def deref_def become_def finish_def)

text \<open>An entry that has expired is not returned, and keeps a new one of its key out.\<close>

lemma expired_blocks:
  assumes "lf_heap s a = Some e" "le_key e = k" "le_expires e = Some d" "d < now" "t < length (lf_tasks s)"
  shows "lf_tasks s ! t = Get_Scan k (Some a) \<Longrightarrow> lf_tasks (lf_step hash now f t s) ! t = Done (Value None)"
    and "lf_tasks s ! t = Insert_Scan e' p (Some a) \<Longrightarrow> le_key e' = k \<Longrightarrow> lf_tasks (lf_step hash now f t s) ! t = Done (Flag False)"
  using assms by (simp_all add: lf_step_def get_step_def insert_step_def deref_def finish_def become_def)

text \<open>An entry that is removed before its insertion was counted takes the counter of its empty list below zero, where it
  refuses every insertion.\<close>

definition sample_underflow :: "(nat, nat) lf_cache option" where
  "sample_underflow = lf_exec of_nat [(0, 1), (0, 1), (0, 1), (0, 1), (1, 2), (1, 2), (1, 2), (1, 2), (2, 2)]
     (become 2 (start_of (Insert 69 9 None)) (become 1 (start_of (Remove 5)) (become 0 (start_of (Insert 5 7 None)) (lf_new 640 3))))"

lemma counter_underflow:
  "case sample_underflow of None \<Rightarrow> False
   | Some s \<Rightarrow> head_of 5 s = None \<and> sh_len (lf_shards s ! 5) = -1 \<and> lf_tasks s ! 2 = Done (Flag False)"
  by code_simp

end
