(* ===== verification/Byte_Buffer.thy ===== *)
theory Byte_Buffer
  imports Titan_Prelude
begin

text \<open>
  Buffers that are read and written at an offset, as the system calls of the UDP server and the packet filter of the kernel do it.
\<close>

definition part :: "nat \<Rightarrow> nat \<Rightarrow> bytes \<Rightarrow> bytes" where
  "part at n p = take n (drop at p)"

definition write_at :: "nat \<Rightarrow> bytes \<Rightarrow> bytes \<Rightarrow> bytes" where
  "write_at offset data pool = take offset pool @ data @ drop (offset + length data) pool"

lemma length_part [simp]: "length (part a n p) = min n (length p - a)"
  by (simp add: part_def min.commute)

lemma length_write_at [simp]: "offset + length data \<le> length pool \<Longrightarrow> length (write_at offset data pool) = length pool"
  by (simp add: write_at_def)

lemma write_at_same:
  "offset + length data \<le> length pool \<Longrightarrow> take (length data) (drop offset (write_at offset data pool)) = data"
  by (simp add: write_at_def)

lemma nth_write_at:
  assumes "offset + length data \<le> length pool" "i < length pool" "i < offset \<or> offset + length data \<le> i"
  shows "write_at offset data pool ! i = pool ! i"
  using assms by (auto simp: write_at_def nth_append)

lemma write_at_other:
  assumes "offset + length data \<le> length pool" "a + n \<le> offset \<or> offset + length data \<le> a"
  shows "take n (drop a (write_at offset data pool)) = take n (drop a pool)"
proof (rule nth_equalityI)
  show l: "length (take n (drop a (write_at offset data pool))) = length (take n (drop a pool))"
    by (simp add: length_write_at [OF assms(1)])
  fix i assume "i < length (take n (drop a (write_at offset data pool)))"
  then have i: "i < n" "a + i < length pool" using length_write_at [OF assms(1)] by auto
  then show "take n (drop a (write_at offset data pool)) ! i = take n (drop a pool) ! i"
    using nth_write_at [OF assms(1), of "a + i"] assms(2) by (auto simp: length_write_at [OF assms(1)])
qed

lemma part_write_at:
  "offset + length data \<le> length pool \<Longrightarrow> n = length data \<Longrightarrow> part offset n (write_at offset data pool) = data"
  "offset + length data \<le> length pool \<Longrightarrow> a + n \<le> offset \<or> offset + length data \<le> a
     \<Longrightarrow> part a n (write_at offset data pool) = part a n pool"
  by (simp_all add: part_def write_at_same write_at_other)

lemma drop_write_at:
  assumes "offset + length data \<le> length pool" "offset + length data \<le> a"
  shows "drop a (write_at offset data pool) = drop a pool"
  using assms by (simp add: write_at_def)

lemma take_write_at:
  "offset \<le> length pool \<Longrightarrow> n \<le> offset \<Longrightarrow> take n (write_at offset data pool) = take n pool"
  by (simp add: write_at_def)

end
