(* ===== verification/Udp_Server.thy ===== *)
theory Udp_Server
  imports Server Byte_Buffer
begin

text \<open>
  The loops of the servers (\<open>src/server.rs\<close>) with the batched system calls of the UDP server
  (\<open>src/server/batch_io.rs\<close>, \<open>src/server/batch_sender.rs\<close>), the sockets and cores they use
  (\<open>src/server/affinity.rs\<close>) and the start of the stream servers.

  The batched UDP server is a transition system: the main loop, which receives batches, queues packets for its workers, collects their
  replies and sends them in batches, and the workers run in any order, beside reloads and other tasks.  What the kernel receives and
  how much of a batch it sends are inputs of the steps.
\<close>

section \<open>Sockets\<close>

record socket_opts =
  so_reuseport :: bool
  so_rcvbuf :: nat
  so_sndbuf :: nat
  so_batch_io :: bool
  so_workers :: nat
  so_tcp_read_timeout_ms :: "u64 option"
  so_doh_keep_alive_interval_ms :: "u64 option"
  so_doh_keep_alive_timeout_ms :: "u64 option"

definition buffer_size :: nat where "buffer_size = 4 * 1024 * 1024"

datatype sock_call = Rcvbuf nat | Sndbuf nat | Reuse_Address | Reuse_Port | Busy_Poll nat | Priority nat | Nonblocking | Bind sock_addr

definition socket_calls :: "socket_opts \<Rightarrow> sock_addr \<Rightarrow> sock_call list" where
  "socket_calls opts addr =
     [Rcvbuf (if 0 < so_rcvbuf opts then so_rcvbuf opts else buffer_size),
      Sndbuf (if 0 < so_sndbuf opts then so_sndbuf opts else buffer_size), Reuse_Address]
     @ (if so_reuseport opts then [Reuse_Port] else []) @ [Busy_Poll 50, Priority 6, Nonblocking, Bind addr]"

definition required :: "sock_call \<Rightarrow> bool" where
  "required c = (case c of Nonblocking \<Rightarrow> True | Bind _ \<Rightarrow> True | _ \<Rightarrow> False)"

text \<open>\<open>made\<close> is whether the kernel makes the socket, \<open>takes\<close> whether a call succeeds.  The result are the calls that took effect; only
  the last two must.\<close>

definition create_udp_socket :: "(string \<Rightarrow> sock_addr option) \<Rightarrow> bool \<Rightarrow> (sock_call \<Rightarrow> bool) \<Rightarrow> string \<Rightarrow> socket_opts \<Rightarrow> sock_call list result" where
  "create_udp_socket parse made takes addr_str opts =
     (case parse addr_str of
        None \<Rightarrow> Inl (Error ''invalid socket address'')
      | Some addr \<Rightarrow>
          let calls = socket_calls opts addr in
          if \<not> made then Inl (Error ''socket'')
          else if \<exists>c \<in> set calls. required c \<and> \<not> takes c then Inl (Error ''socket'')
          else Inr (filter takes calls))"

text \<open>The core of a worker.\<close>

definition bind_thread_to_cpu :: "nat \<Rightarrow> 'core list \<Rightarrow> 'core option" where
  "bind_thread_to_cpu worker_index core_ids =
     (if core_ids = [] then None else Some (core_ids ! (worker_index mod length core_ids)))"

definition set_cpu_affinity :: "nat \<Rightarrow> 'core list \<Rightarrow> 'core option" where
  "set_cpu_affinity core_id core_ids = (if core_id < length core_ids then Some (core_ids ! core_id) else None)"

section \<open>Receiving in batches\<close>

definition packet_size :: nat where "packet_size = 4096"
definition max_batch_size :: nat where "max_batch_size = 256"
definition default_batch_size :: nat where "default_batch_size = 64"
definition min_batch_size :: nat where "min_batch_size = 32"

text \<open>The lengths and addresses that the kernel fills in, and the buffers of all packets in one pool.\<close>

record batch_io =
  bi_lens :: "nat list"
  bi_addrs :: "sock_addr option list"
  bi_pool :: bytes
  bi_size :: nat

definition bi_new :: batch_io where
  "bi_new = \<lparr>bi_lens = replicate max_batch_size 0, bi_addrs = replicate max_batch_size None,
             bi_pool = replicate (max_batch_size * packet_size) 0, bi_size = default_batch_size\<rparr>"

definition clamp :: "nat \<Rightarrow> nat \<Rightarrow> nat \<Rightarrow> nat" where
  "clamp lo hi n = min hi (max lo n)"

definition auto_tune_batch_size :: "u64 \<Rightarrow> batch_io \<Rightarrow> batch_io" where
  "auto_tune_batch_size qps b =
     (let new_size = (if 100000 < qps then 256 else if qps < 10000 then 32 else 64)
      in b\<lparr>bi_size := clamp min_batch_size max_batch_size new_size\<rparr>)"

definition current_batch_size :: "batch_io \<Rightarrow> nat" where
  "current_batch_size b = clamp min_batch_size max_batch_size (bi_size b)"

text \<open>The kernel puts a datagram into the buffer of its header, as much of it as fits.\<close>

definition put_datagram :: "nat \<Rightarrow> bytes \<Rightarrow> sock_addr option \<Rightarrow> batch_io \<Rightarrow> batch_io" where
  "put_datagram i d a b =
     b\<lparr>bi_lens := (bi_lens b)[i := min packet_size (length d)], bi_addrs := (bi_addrs b)[i := a],
       bi_pool := write_at (i * packet_size) (take packet_size d) (bi_pool b)\<rparr>"

fun recv_into :: "nat \<Rightarrow> (bytes \<times> sock_addr option) list \<Rightarrow> batch_io \<Rightarrow> batch_io" where
  "recv_into i [] b = b"
| "recv_into i ((d, a) # ds) b = recv_into (i + 1) ds (put_datagram i d a b)"

text \<open>\<open>ds\<close> are the datagrams that wait; the count is what \<open>recvmmsg\<close> returns.\<close>

definition recv_batch :: "(bytes \<times> sock_addr option) list \<Rightarrow> batch_io \<Rightarrow> nat \<times> batch_io" where
  "recv_batch ds b =
     (let batch_size = current_batch_size b;
          ds = take batch_size ds
      in (length ds, recv_into 0 ds (b\<lparr>bi_lens := replicate batch_size 0 @ drop batch_size (bi_lens b)\<rparr>)))"

definition get_packet :: "nat \<Rightarrow> batch_io \<Rightarrow> (bytes \<times> sock_addr) option result" where
  "get_packet i b =
     (if length (bi_lens b) \<le> i then Inr None
      else let len = bi_lens b ! i in
        if len = 0 then Inr None
        else andthen (slice (bi_pool b) (i * packet_size) (i * packet_size + len)) (\<lambda>data.
          Inr (map_option (\<lambda>a. (data, a)) (bi_addrs b ! i))))"

section \<open>Sending in batches\<close>

record batch_sender =
  bs_queue :: "(bytes \<times> sock_addr) list"
  bs_max :: nat

definition bs_new :: "nat \<Rightarrow> batch_sender" where
  "bs_new max_batch = \<lparr>bs_queue = [], bs_max = max_batch\<rparr>"

definition bs_push :: "bytes \<Rightarrow> sock_addr \<Rightarrow> batch_sender \<Rightarrow> bool \<times> batch_sender" where
  "bs_push data addr b =
     (let b = b\<lparr>bs_queue := bs_queue b @ [(data, addr)]\<rparr> in (bs_max b \<le> length (bs_queue b), b))"

text \<open>\<open>res\<close> is what \<open>sendmmsg\<close> returns: how many of the messages it sent, or an error.  The queue is cleared in any
  case.  What went over the wire comes first.\<close>

definition bs_flush :: "nat option \<Rightarrow> batch_sender \<Rightarrow> (bytes \<times> sock_addr) list \<times> nat result \<times> batch_sender" where
  "bs_flush res b =
     (if bs_queue b = [] then ([], Inr 0, b)
      else let cleared = b\<lparr>bs_queue := []\<rparr> in
        (case res of
           None \<Rightarrow> ([], Inl (Error ''sendmmsg''), cleared)
         | Some n \<Rightarrow> (take n (bs_queue b), Inr (min n (length (bs_queue b))), cleared)))"

section \<open>The batched UDP server\<close>

datatype udp_worker = Free | Sending bytes sock_addr | Dead

text \<open>\<open>us_got\<close>, \<open>us_made\<close>, \<open>us_flushed\<close> and \<open>us_wire\<close> record the packets that were queued for the workers, their replies, the
  replies handed to the kernel, and those that it sent.\<close>

record udp_server =
  us_io :: batch_io
  us_tx :: batch_sender
  us_tasks :: "(bytes \<times> sock_addr) list"
  us_resps :: "(bytes \<times> sock_addr) list"
  us_workers :: "udp_worker list"
  us_timer :: "nat option"
  us_tuned :: nat
  us_reload :: hot_reload
  us_world :: world
  us_got :: "(bytes \<times> sock_addr) list"
  us_made :: "(bytes \<times> sock_addr) list"
  us_flushed :: "(bytes \<times> sock_addr) list"
  us_wire :: "(bytes \<times> sock_addr) list"

definition tx_batch_size :: nat where "tx_batch_size = 64"
definition udp_channel :: nat where "udp_channel = 4096"
definition flush_delay :: nat where "flush_delay = from_millis 10"

definition num_udp_workers :: "nat \<Rightarrow> nat \<Rightarrow> nat" where
  "num_udp_workers cpus configured = (if configured = 0 then cpus else configured)"

definition run_udp_linux :: "nat \<Rightarrow> nat \<Rightarrow> nat \<Rightarrow> hot_reload \<Rightarrow> world \<Rightarrow> udp_server" where
  "run_udp_linux now cpus configured h w =
     \<lparr>us_io = bi_new, us_tx = bs_new tx_batch_size, us_tasks = [], us_resps = [],
      us_workers = replicate (num_udp_workers cpus configured) Free, us_timer = None, us_tuned = now,
      us_reload = h, us_world = w, us_got = [], us_made = [], us_flushed = [], us_wire = []\<rparr>"

definition us_flush :: "nat option \<Rightarrow> udp_server \<Rightarrow> udp_server" where
  "us_flush res s =
     (let (wire, r, tx) = bs_flush res (us_tx s) in
      s\<lparr>us_tx := tx, us_flushed := us_flushed s @ bs_queue (us_tx s), us_wire := us_wire s @ wire\<rparr>)"

text \<open>The branches of the main loop.\<close>

definition on_timer :: "nat \<Rightarrow> nat option \<Rightarrow> udp_server \<Rightarrow> udp_server" where
  "on_timer now res s =
     (case us_timer s of
        Some deadline \<Rightarrow>
          if deadline \<le> now
          then (if bs_queue (us_tx s) = [] then s else us_flush res s)\<lparr>us_timer := None\<rparr>
          else s
      | None \<Rightarrow> s)"

definition on_response :: "nat \<Rightarrow> nat option \<Rightarrow> udp_server \<Rightarrow> udp_server" where
  "on_response now res s =
     (case us_resps s of
        [] \<Rightarrow> s
      | (data, dest) # resps \<Rightarrow>
          let (full, tx) = bs_push data dest (us_tx s);
              s = s\<lparr>us_resps := resps, us_tx := tx\<rparr>
          in if full then (us_flush res s)\<lparr>us_timer := None\<rparr>
             else if us_timer s = None then s\<lparr>us_timer := Some (now + flush_delay)\<rparr>
             else s)"

definition queue_task :: "bytes \<times> sock_addr \<Rightarrow> udp_server \<Rightarrow> udp_server" where
  "queue_task p s =
     (if 4096 < length (fst p) \<or> length (fst p) < 12 then s
      else if length (us_tasks s) < udp_channel then s\<lparr>us_tasks := us_tasks s @ [p], us_got := us_got s @ [p]\<rparr>
      else s)"

fun queue_packets :: "nat list \<Rightarrow> udp_server \<Rightarrow> udp_server result" where
  "queue_packets [] s = Inr s"
| "queue_packets (i # js) s =
     andthen (get_packet i (us_io s)) (\<lambda>p. queue_packets js (case p of None \<Rightarrow> s | Some p \<Rightarrow> queue_task p s))"

definition on_packets :: "nat \<Rightarrow> u64 \<Rightarrow> (bytes \<times> sock_addr option) list \<Rightarrow> udp_server \<Rightarrow> udp_server result" where
  "on_packets now qps ds s =
     (let (count, io) = recv_batch ds (us_io s);
          due = from_millis 500 \<le> now - us_tuned s;
          s = s\<lparr>us_io := (if due then auto_tune_batch_size qps io else io), us_tuned := (if due then now else us_tuned s)\<rparr>
      in queue_packets [0 ..< count] s)"

text \<open>The steps of a worker: it takes a packet and processes it; it hands its reply over when there is room.\<close>

definition worker_takes :: "penv \<Rightarrow> string \<Rightarrow> nat \<Rightarrow> udp_server \<Rightarrow> udp_server" where
  "worker_takes E entry_name i s =
     (case us_tasks s of
        [] \<Rightarrow> s
      | (data, src) # tasks \<Rightarrow>
          if \<not> (i < length (us_workers s) \<and> us_workers s ! i = Free) then s
          else let (r, w) = process_request_bytes E (us_reload s) entry_name data src (us_world s);
                   x = (case r of Inr (Some resp_bytes) \<Rightarrow> Sending resp_bytes src | Inr None \<Rightarrow> Free
                        | Inl Panic \<Rightarrow> Dead | Inl (Error _) \<Rightarrow> Free)
               in s\<lparr>us_tasks := tasks, us_workers := (us_workers s)[i := x], us_world := w\<rparr>)"

definition worker_hands_over :: "nat \<Rightarrow> udp_server \<Rightarrow> udp_server" where
  "worker_hands_over i s =
     (if i < length (us_workers s) \<and> length (us_resps s) < udp_channel then
        (case us_workers s ! i of
           Sending resp_bytes src \<Rightarrow>
             s\<lparr>us_resps := us_resps s @ [(resp_bytes, src)], us_made := us_made s @ [(resp_bytes, src)],
               us_workers := (us_workers s)[i := Free]\<rparr>
         | _ \<Rightarrow> s)
      else s)"

inductive udp_run :: "penv \<Rightarrow> string \<Rightarrow> nat \<Rightarrow> nat \<Rightarrow> udp_server \<Rightarrow> bool" for E entry_name n where
  Start: "udp_run E entry_name n now (run_udp_linux now cpus n h w)"
| Timer: "udp_run E entry_name n now s \<Longrightarrow> udp_run E entry_name n now (on_timer now res s)"
| Response: "udp_run E entry_name n now s \<Longrightarrow> udp_run E entry_name n now (on_response now res s)"
| Packets: "udp_run E entry_name n now s \<Longrightarrow> on_packets now qps ds s = Inr s' \<Longrightarrow> udp_run E entry_name n now s'"
| Takes: "udp_run E entry_name n now s \<Longrightarrow> udp_run E entry_name n now (worker_takes E entry_name i s)"
| Hands_Over: "udp_run E entry_name n now s \<Longrightarrow> udp_run E entry_name n now (worker_hands_over i s)"
| Others: "udp_run E entry_name n now s \<Longrightarrow> now \<le> now' \<Longrightarrow> udp_run E entry_name n now' (s\<lparr>us_reload := h, us_world := w\<rparr>)"

section \<open>The plain UDP server\<close>

text \<open>It receives into the free capacity of a buffer, takes the packet out of it and reserves room for the next.  What
  \<open>reserve\<close> promises is room for that many bytes; \<open>grown\<close> is the capacity when it has to allocate.\<close>

definition recv_standard :: "nat \<Rightarrow> nat \<Rightarrow> bytes \<Rightarrow> bytes option \<times> nat" where
  "recv_standard grown capacity datagram =
     (let packet = take capacity datagram; len = length packet in
      if 4096 < len \<or> len < 12 then (None, capacity)
      else let capacity = capacity - len in
        (Some packet,
         if capacity < 4096 then (let additional = 4096 - capacity in if additional \<le> capacity then capacity else max additional grown)
         else capacity))"

text \<open>Binding is tried again five times; \<open>attempts\<close> are the outcomes.\<close>

fun bind_retry :: "nat \<Rightarrow> bool list \<Rightarrow> bool" where
  "bind_retry retries [] = False"
| "bind_retry retries (ok # attempts) = (ok \<or> (case retries of 0 \<Rightarrow> False | Suc r \<Rightarrow> bind_retry r attempts))"

section \<open>The stream servers\<close>

definition tcp_timeout :: "u64 option \<Rightarrow> nat option result" where
  "tcp_timeout conf =
     (case conf of
        Some v \<Rightarrow> if v = 0 then Inl (Error ''tcp_read_timeout_ms must be > 0'') else Inr (Some (from_millis (unat v)))
      | None \<Rightarrow> Inr None)"

definition dot_timeout :: "u64 option \<Rightarrow> nat result" where
  "dot_timeout conf =
     (case conf of
        Some v \<Rightarrow> if v = 0 then Inl (Error ''tcp_read_timeout_ms must be > 0'') else Inr (from_millis (unat v))
      | None \<Rightarrow> Inr (from_secs 5))"

definition doh_keep_alive :: "string \<Rightarrow> u64 option \<Rightarrow> nat option result" where
  "doh_keep_alive what conf =
     (case conf of
        Some v \<Rightarrow> if v = 0 then Inl (Error what) else Inr (Some (from_millis (unat v)))
      | None \<Rightarrow> Inr None)"

text \<open>The start of the stream servers: \<open>tls\<close> is the configuration of TLS, \<open>load\<close> the reading of certificate and key, \<open>bound\<close> whether the
  address could be bound.  An invalid timeout is an error after the address is bound.\<close>

definition start_tcp :: "bool \<Rightarrow> socket_opts \<Rightarrow> nat option result" where
  "start_tcp bound opts = (if bound then tcp_timeout (so_tcp_read_timeout_ms opts) else Inl (Error ''bind''))"

definition start_dot :: "('t \<Rightarrow> bool) \<Rightarrow> bool \<Rightarrow> 't option \<Rightarrow> socket_opts \<Rightarrow> nat result" where
  "start_dot load bound tls opts =
     (case tls of
        None \<Rightarrow> Inl (Error ''TLS config missing for DoT'')
      | Some t \<Rightarrow>
          if \<not> load t then Inl (Error ''tls'')
          else if \<not> bound then Inl (Error ''bind'')
          else dot_timeout (so_tcp_read_timeout_ms opts))"

definition start_doq :: "('t \<Rightarrow> bool) \<Rightarrow> bool \<Rightarrow> 't option \<Rightarrow> unit result" where
  "start_doq load bound tls =
     (case tls of
        None \<Rightarrow> Inl (Error ''TLS config missing for DoQ'')
      | Some t \<Rightarrow> if \<not> load t then Inl (Error ''tls'') else if \<not> bound then Inl (Error ''bind'') else Inr ())"

text \<open>The interval and the timeout of the connections, and whether they run over TLS; the certificate is read last.\<close>

definition start_doh :: "('t \<Rightarrow> bool) \<Rightarrow> bool \<Rightarrow> 't option \<Rightarrow> socket_opts \<Rightarrow> (nat option \<times> nat option \<times> bool) result" where
  "start_doh load bound tls opts =
     (if \<not> bound then Inl (Error ''bind'')
      else andthen (doh_keep_alive ''doh_keep_alive_interval_ms must be > 0'' (so_doh_keep_alive_interval_ms opts)) (\<lambda>interval.
        andthen (doh_keep_alive ''doh_keep_alive_timeout_ms must be > 0'' (so_doh_keep_alive_timeout_ms opts)) (\<lambda>timeout.
          case tls of
            None \<Rightarrow> Inr (interval, timeout, False)
          | Some t \<Rightarrow> if load t then Inr (interval, timeout, True) else Inl (Error ''tls''))))"

text \<open>Whether the UDP server runs with batched calls; \<open>linux\<close> is the platform.\<close>

definition run_udp_batched :: "bool \<Rightarrow> socket_opts \<Rightarrow> bool" where
  "run_udp_batched linux opts = (linux \<and> so_batch_io opts)"

text \<open>Connections as they are accepted; an accept can fail.  TCP and DoT go on after a failure, DoH over TLS ends with it.\<close>

definition accept_tcp :: "'c option list \<Rightarrow> 'c list" where
  "accept_tcp cs = List.map_filter id cs"

fun accept_doh :: "'c option list \<Rightarrow> 'c list \<times> unit result" where
  "accept_doh [] = ([], Inr ())"
| "accept_doh (None # cs) = ([], Inl (Error ''accept''))"
| "accept_doh (Some c # cs) = apfst ((#) c) (accept_doh cs)"

section \<open>The buffers of a batch do not overlap\<close>

definition io_ok :: "batch_io \<Rightarrow> bool" where
  "io_ok b \<longleftrightarrow> length (bi_lens b) = max_batch_size \<and> length (bi_addrs b) = max_batch_size
     \<and> length (bi_pool b) = max_batch_size * packet_size \<and> (\<forall>n \<in> set (bi_lens b). n \<le> packet_size)"

text \<open>The contents of a slot.\<close>

definition slot :: "nat \<Rightarrow> batch_io \<Rightarrow> bytes \<times> sock_addr option" where
  "slot i b = (take (bi_lens b ! i) (drop (i * packet_size) (bi_pool b)), bi_addrs b ! i)"

lemma slot_end: "i < max_batch_size \<Longrightarrow> i * packet_size + packet_size \<le> max_batch_size * packet_size"
  by (simp add: packet_size_def max_batch_size_def)

lemma recv_one:
  assumes b: "io_ok b" and i: "i < max_batch_size"
  shows "io_ok (put_datagram i d a b)" "slot i (put_datagram i d a b) = (take packet_size d, a)"
    "j < max_batch_size \<Longrightarrow> j \<noteq> i \<Longrightarrow> slot j (put_datagram i d a b) = slot j b"
proof -
  let ?d = "take packet_size d"
  have fits: "i * packet_size + length ?d \<le> length (bi_pool b)"
    using b slot_end [OF i] by (simp add: io_ok_def min_def)
  have set: "set ((bi_lens b)[i := min packet_size (length d)]) \<subseteq> insert (min packet_size (length d)) (set (bi_lens b))"
    by (rule set_update_subset_insert)
  show "io_ok (put_datagram i d a b)"
    using b fits set by (auto simp: io_ok_def put_datagram_def length_write_at)
  show "slot i (put_datagram i d a b) = (?d, a)"
    using b i write_at_same [OF fits] by (simp add: slot_def put_datagram_def io_ok_def min.commute)
  assume j: "j < max_batch_size" "j \<noteq> i"
  have n: "bi_lens b ! j \<le> packet_size" using b j(1) by (simp add: io_ok_def)
  have "j * packet_size + bi_lens b ! j \<le> i * packet_size \<or> i * packet_size + length ?d \<le> j * packet_size"
  proof (cases "j < i")
    case True
    then have "Suc j * packet_size \<le> i * packet_size" by (intro mult_le_mono1) simp
    with n show ?thesis by simp
  next
    case False
    with j(2) have "Suc i * packet_size \<le> j * packet_size" by (intro mult_le_mono1) simp
    then show ?thesis by (simp add: min_def)
  qed
  then show "slot j (put_datagram i d a b) = slot j b"
    using j write_at_other [OF fits] by (simp add: slot_def put_datagram_def)
qed

lemma recv_into_slots:
  "io_ok b \<Longrightarrow> i + length ds \<le> max_batch_size \<Longrightarrow> io_ok (recv_into i ds b)
     \<and> (\<forall>j < length ds. slot (i + j) (recv_into i ds b) = apfst (take packet_size) (ds ! j))
     \<and> (\<forall>j < i. slot j (recv_into i ds b) = slot j b)"
proof (induction i ds b rule: recv_into.induct)
  case (2 i d a ds b)
  let ?b = "put_datagram i d a b"
  have i: "i < max_batch_size" using 2(3) by simp
  note one = recv_one [OF 2(2) i, where d = d and a = a]
  have ih: "io_ok (recv_into (i + 1) ds ?b)"
    "\<forall>j < length ds. slot (i + 1 + j) (recv_into (i + 1) ds ?b) = apfst (take packet_size) (ds ! j)"
    "\<forall>j < i + 1. slot j (recv_into (i + 1) ds ?b) = slot j ?b"
    using 2(1) [OF one(1)] 2(3) by auto
  have "slot (i + j) (recv_into (i + 1) ds ?b) = apfst (take packet_size) (((d, a) # ds) ! j)" if "j < length ((d, a) # ds)" for j
    using ih(2,3) one(2) that by (cases j) auto
  moreover have "slot j (recv_into (i + 1) ds ?b) = slot j b" if "j < i" for j
    using ih(3) one(3) [of j] that i by simp
  ultimately show ?case using ih(1) by simp
qed simp

text \<open>A packet of a batch is read from its own buffer: whatever the lengths, the reader gets the datagram, up to
  the size of a buffer, with its sender.\<close>

lemma batch_read:
  assumes "io_ok b" "recv_batch ds b = (k, b')" "i < k"
  shows "io_ok b'" "get_packet i b' = Inr (case ds ! i of (d, a) \<Rightarrow>
    if d = [] then None else map_option (Pair (take packet_size d)) a)"
proof -
  let ?n = "current_batch_size b"
  let ?b = "b\<lparr>bi_lens := replicate ?n 0 @ drop ?n (bi_lens b)\<rparr>"
  have n: "?n \<le> max_batch_size" by (simp add: current_batch_size_def clamp_def)
  have ok: "io_ok ?b" using assms(1) n by (auto simp: io_ok_def dest: in_set_dropD)
  have c: "k = length (take ?n ds)" "b' = recv_into 0 (take ?n ds) ?b"
    using assms(2) by (auto simp: recv_batch_def Let_def)
  have r: "io_ok b'" "slot i b' = apfst (take packet_size) (ds ! i)"
    using recv_into_slots [OF ok, of 0 "take ?n ds"] assms(3) n by (auto simp: c)
  obtain d a where d: "ds ! i = (d, a)" by fastforce
  have i: "i < max_batch_size" using assms(3) n c(1) by simp
  have l: "length (bi_lens b') = max_batch_size" "length (bi_pool b') = max_batch_size * packet_size"
    using r(1) by (simp_all add: io_ok_def)
  have len1: "bi_lens b' ! i \<le> packet_size" using r(1) i l(1) by (simp add: io_ok_def)
  then have len: "bi_lens b' ! i \<le> packet_size" "i * packet_size + bi_lens b' ! i \<le> length (bi_pool b')"
    using slot_end [OF i] l(2) by simp_all
  have s: "take (bi_lens b' ! i) (drop (i * packet_size) (bi_pool b')) = take packet_size d" "bi_addrs b' ! i = a"
    using r(2) d by (auto simp: slot_def)
  then have "length (take packet_size d) = bi_lens b' ! i" using len(2) by (metis add_le_imp_le_diff length_drop length_take min.absorb2 add.commute)
  then have "bi_lens b' ! i = 0 \<longleftrightarrow> d = []" by (auto simp: packet_size_def min_def split: if_splits)
  with r i s len show "io_ok b'" "get_packet i b' = Inr (case ds ! i of (d, a) \<Rightarrow>
      if d = [] then None else map_option (Pair (take packet_size d)) a)"
    by (auto simp: get_packet_def io_ok_def d Let_def option.map_comp)
qed

section \<open>The batched server in every run\<close>

definition reply_to :: "penv \<Rightarrow> (bytes \<times> sock_addr) list \<Rightarrow> bytes \<times> sock_addr \<Rightarrow> bool" where
  "reply_to E got r \<longleftrightarrow> (\<exists>p. (p, snd r) \<in> set got \<and> contract_reply (env_lib E) p (Some (fst r)))"

definition replies_inv :: "penv \<Rightarrow> udp_server \<Rightarrow> bool" where
  "replies_inv E s \<longleftrightarrow> set (us_tasks s) \<subseteq> set (us_got s)
     \<and> (\<forall>b src. Sending b src \<in> set (us_workers s) \<longrightarrow> reply_to E (us_got s) (b, src))
     \<and> (\<forall>r \<in> set (us_made s). reply_to E (us_got s) r)
     \<and> set (us_wire s) \<subseteq> set (us_flushed s)
     \<and> us_flushed s @ bs_queue (us_tx s) @ us_resps s = us_made s"

lemma replies_invD:
  assumes "replies_inv E s"
  shows "p \<in> set (us_tasks s) \<Longrightarrow> p \<in> set (us_got s)" "Sending b src \<in> set (us_workers s) \<Longrightarrow> reply_to E (us_got s) (b, src)"
    "r \<in> set (us_made s) \<Longrightarrow> reply_to E (us_got s) r" "r \<in> set (us_wire s) \<Longrightarrow> r \<in> set (us_flushed s)"
    "us_flushed s @ bs_queue (us_tx s) @ us_resps s = us_made s"
  using assms unfolding replies_inv_def by blast+

lemma replies_invI:
  assumes "\<And>p. p \<in> set (us_tasks s) \<Longrightarrow> p \<in> set (us_got s)"
    and "\<And>b src. Sending b src \<in> set (us_workers s) \<Longrightarrow> reply_to E (us_got s) (b, src)"
    and "\<And>r. r \<in> set (us_made s) \<Longrightarrow> reply_to E (us_got s) r" "\<And>r. r \<in> set (us_wire s) \<Longrightarrow> r \<in> set (us_flushed s)"
    and "us_flushed s @ bs_queue (us_tx s) @ us_resps s = us_made s"
  shows "replies_inv E s"
  using assms unfolding replies_inv_def by blast

definition flush_inv :: "nat \<Rightarrow> udp_server \<Rightarrow> bool" where
  "flush_inv now s \<longleftrightarrow> bs_max (us_tx s) = tx_batch_size \<and> length (bs_queue (us_tx s)) < tx_batch_size
     \<and> (us_timer s = None \<longleftrightarrow> bs_queue (us_tx s) = []) \<and> (\<forall>d. us_timer s = Some d \<longrightarrow> d \<le> now + flush_delay)
     \<and> length (us_tasks s) \<le> udp_channel \<and> length (us_resps s) \<le> udp_channel \<and> io_ok (us_io s)"

lemma us_flush_fields:
  "us_tasks (us_flush res s) = us_tasks s" "us_got (us_flush res s) = us_got s" "us_workers (us_flush res s) = us_workers s"
  "us_made (us_flush res s) = us_made s" "us_resps (us_flush res s) = us_resps s" "us_io (us_flush res s) = us_io s"
  "us_flushed (us_flush res s) = us_flushed s @ bs_queue (us_tx s)" "bs_queue (us_tx (us_flush res s)) = []"
  "bs_max (us_tx (us_flush res s)) = bs_max (us_tx s)" "us_timer (us_flush res s) = us_timer s"
  by (auto simp: us_flush_def bs_flush_def split_beta Let_def split: option.split dest: in_set_takeD)

lemma us_flush_wire: "r \<in> set (us_wire (us_flush res s)) \<Longrightarrow> r \<in> set (us_wire s) \<or> r \<in> set (bs_queue (us_tx s))"
proof -
  have "set (fst (bs_flush res (us_tx s))) \<subseteq> set (bs_queue (us_tx s))"
    using set_take_subset [of _ "bs_queue (us_tx s)"] by (simp add: bs_flush_def Let_def split: option.split)
  then show "r \<in> set (us_wire (us_flush res s)) \<Longrightarrow> r \<in> set (us_wire s) \<or> r \<in> set (bs_queue (us_tx s))"
    by (cases "bs_flush res (us_tx s)") (simp add: us_flush_def split_beta, blast)
qed

lemma replies_flush:
  assumes "replies_inv E s"
  shows "replies_inv E (us_flush res s)"
proof (rule replies_invI)
  note d = replies_invD [OF assms]
  show "r \<in> set (us_wire (us_flush res s)) \<Longrightarrow> r \<in> set (us_flushed (us_flush res s))" for r
    using us_flush_wire [of r res s] d(4) [of r] by (simp add: us_flush_fields) blast
  show "us_flushed (us_flush res s) @ bs_queue (us_tx (us_flush res s)) @ us_resps (us_flush res s) = us_made (us_flush res s)"
    using d(5) by (simp add: us_flush_fields)
qed (simp_all only: us_flush_fields replies_invD [OF assms])

lemma replies_timer: "replies_inv E s \<Longrightarrow> replies_inv E (s\<lparr>us_timer := x\<rparr>)"
  by (simp add: replies_inv_def)

lemma inv_on_timer:
  assumes "replies_inv E s" "flush_inv now s"
  shows "replies_inv E (on_timer now res s)" "flush_inv now (on_timer now res s)"
proof -
  show "replies_inv E (on_timer now res s)"
    using assms(1) by (simp add: on_timer_def replies_flush replies_timer split: option.split)
  show "flush_inv now (on_timer now res s)"
    using assms(2) by (auto simp: on_timer_def flush_inv_def us_flush_fields tx_batch_size_def split: option.split)
qed

lemma inv_on_response:
  assumes "replies_inv E s" "flush_inv now s"
  shows "replies_inv E (on_response now res s)" "flush_inv now (on_response now res s)"
proof -
  have "replies_inv E (on_response now res s) \<and> flush_inv now (on_response now res s)"
  proof (cases "us_resps s")
    case Nil
    with assms show ?thesis by (simp add: on_response_def)
  next
    case (Cons r resps)
    obtain data dest where r: "r = (data, dest)" by (rule prod.exhaust)
    let ?s = "s\<lparr>us_resps := resps, us_tx := (us_tx s)\<lparr>bs_queue := bs_queue (us_tx s) @ [(data, dest)]\<rparr>\<rparr>"
    have "replies_inv E ?s"
      using replies_invD [OF assms(1)] by (intro replies_invI) (simp_all add: Cons r)
    moreover have "flush_inv now (on_response now res s)"
      using assms(2) by (auto simp: on_response_def Cons r bs_push_def Let_def flush_inv_def us_flush_fields tx_batch_size_def)
    ultimately show ?thesis
      by (simp add: on_response_def Cons r bs_push_def Let_def replies_flush replies_timer)
  qed
  then show "replies_inv E (on_response now res s)" "flush_inv now (on_response now res s)" by simp_all
qed

lemma reply_to_mono: "reply_to E got r \<Longrightarrow> set got \<subseteq> set got' \<Longrightarrow> reply_to E got' r"
  by (auto simp: reply_to_def)

lemma queue_task_inv:
  assumes "replies_inv E s" "flush_inv now s"
  shows "replies_inv E (queue_task p s)" "flush_inv now (queue_task p s)" "us_io (queue_task p s) = us_io s"
proof -
  have "replies_inv E (s\<lparr>us_tasks := us_tasks s @ [p], us_got := us_got s @ [p]\<rparr>)"
    (is "replies_inv E ?s")
  proof (rule replies_invI)
    note d = replies_invD [OF assms(1)]
    have m: "reply_to E (us_got s @ [p]) r" if "reply_to E (us_got s) r" for r
      by (rule reply_to_mono [OF that]) auto
    show "q \<in> set (us_tasks ?s) \<Longrightarrow> q \<in> set (us_got ?s)" for q using d(1) [of q] by (simp del: split_paired_All) blast
    show "Sending b src \<in> set (us_workers ?s) \<Longrightarrow> reply_to E (us_got ?s) (b, src)" for b src using d(2) m by simp
    show "r \<in> set (us_made ?s) \<Longrightarrow> reply_to E (us_got ?s) r" for r using d(3) m by simp
    show "r \<in> set (us_wire ?s) \<Longrightarrow> r \<in> set (us_flushed ?s)" for r using d(4) by simp
  qed (use replies_invD(5) [OF assms(1)] in simp)
  with assms show "replies_inv E (queue_task p s)" by (simp add: queue_task_def)
  show "flush_inv now (queue_task p s)" "us_io (queue_task p s) = us_io s"
    using assms(2) by (simp_all add: queue_task_def flush_inv_def)
qed

lemma queue_packets_inv:
  "replies_inv E s \<Longrightarrow> flush_inv now s \<Longrightarrow> (\<And>i. i \<in> set js \<Longrightarrow> \<exists>p. get_packet i (us_io s) = Inr p)
     \<Longrightarrow> \<exists>s'. queue_packets js s = Inr s' \<and> replies_inv E s' \<and> flush_inv now s'"
proof (induction js arbitrary: s)
  case (Cons i js)
  obtain p where p: "get_packet i (us_io s) = Inr p" using Cons.prems(3) by auto
  let ?s = "case p of None \<Rightarrow> s | Some p \<Rightarrow> queue_task p s"
  have "replies_inv E ?s \<and> flush_inv now ?s \<and> us_io ?s = us_io s"
    using Cons.prems(1,2) queue_task_inv by (auto split: option.split)
  then show ?case using Cons.IH [of ?s] Cons.prems(3) p by simp
qed simp

lemma inv_on_packets:
  assumes "replies_inv E s" "flush_inv now s"
  shows "\<exists>s'. on_packets now qps ds s = Inr s' \<and> replies_inv E s' \<and> flush_inv now s'"
proof -
  obtain k io where r: "recv_batch ds (us_io s) = (k, io)" by fastforce
  define io' where "io' = (if from_millis 500 \<le> now - us_tuned s then auto_tune_batch_size qps io else io)"
  define s1 where "s1 = s\<lparr>us_io := io', us_tuned := (if from_millis 500 \<le> now - us_tuned s then now else us_tuned s)\<rparr>"
  have ok: "io_ok (us_io s)" using assms(2) by (simp add: flush_inv_def)
  have slots: "get_packet i io' = get_packet i io" for i
    by (simp add: io'_def get_packet_def auto_tune_batch_size_def Let_def)
  have okio: "io_ok io" if "0 < k" using batch_read(1) [OF ok r that] .
  have "io_ok io"
  proof (cases "k = 0")
    case True
    let ?n = "current_batch_size (us_io s)"
    have "length (take ?n ds) = 0" using r True unfolding recv_batch_def Let_def by blast
    then have "take ?n ds = []" by (simp only: length_0_conv)
    then have "io = us_io s\<lparr>bi_lens := replicate ?n 0 @ drop ?n (bi_lens (us_io s))\<rparr>"
      using r unfolding recv_batch_def Let_def \<open>take ?n ds = []\<close> by simp
    then show ?thesis using ok by (auto simp: io_ok_def current_batch_size_def clamp_def max_batch_size_def dest: in_set_dropD)
  qed (use okio in simp)
  then have "io_ok io'" by (simp add: io'_def io_ok_def auto_tune_batch_size_def Let_def)
  with assms have "replies_inv E s1" "flush_inv now s1" by (simp_all add: replies_inv_def flush_inv_def s1_def)
  moreover have "\<exists>p. get_packet i (us_io s1) = Inr p" if "i \<in> set [0 ..< k]" for i
    using batch_read(2) [OF ok r] that by (simp add: s1_def slots)
  ultimately have "\<exists>s'. queue_packets [0 ..< k] s1 = Inr s' \<and> replies_inv E s' \<and> flush_inv now s'"
    by (rule queue_packets_inv)
  then show ?thesis by (simp add: on_packets_def r Let_def s1_def io'_def)
qed

lemma set_put: "x \<in> set (xs[i := y]) \<Longrightarrow> x = y \<or> x \<in> set xs"
  using set_update_subset_insert [of xs i y] by auto

lemma inv_worker_takes:
  assumes "replies_inv E s" "flush_inv now s"
  shows "replies_inv E (worker_takes E entry_name i s)" "flush_inv now (worker_takes E entry_name i s)"
proof -
  have "replies_inv E (worker_takes E entry_name i s) \<and> flush_inv now (worker_takes E entry_name i s)"
  proof (cases "us_tasks s \<noteq> [] \<and> i < length (us_workers s) \<and> us_workers s ! i = Free")
    case True
    then obtain data src tasks where q: "us_tasks s = (data, src) # tasks" by (cases "us_tasks s") auto
    obtain r w where r: "process_request E (us_reload s) entry_name data src (us_world s) = (r, w)" by fastforce
    have got: "(data, src) \<in> set (us_got s)" using assms(1) by (auto simp: replies_inv_def q)
    have "reply_to E (us_got s) (b, src)" if "r = Inr (Some b)" for b
      using process_request_contract [of "us_reload s" entry_name E data src "us_world s"] r that got
      by (auto simp: reply_to_def)
    then have "replies_inv E (s\<lparr>us_tasks := tasks, us_workers := (us_workers s)[i := x], us_world := w\<rparr>)"
      if "\<And>b src'. x = Sending b src' \<Longrightarrow> src' = src \<and> r = Inr (Some b)" for x
      using replies_invD [OF assms(1)] that by (intro replies_invI) (auto simp: q dest!: set_put)
    moreover have "flush_inv now (s\<lparr>us_tasks := tasks, us_workers := ws, us_world := w\<rparr>)" for ws
      using assms(2) by (simp add: flush_inv_def q)
    moreover define x where "x = (case r of Inr (Some resp_bytes) \<Rightarrow> Sending resp_bytes src | Inr None \<Rightarrow> Free
        | Inl Panic \<Rightarrow> Dead | Inl (Error _) \<Rightarrow> Free)"
    moreover have "src' = src \<and> r = Inr (Some b)" if "x = Sending b src'" for b src'
      using that by (auto simp: x_def split: sum.splits option.splits rust_error.splits)
    moreover have "worker_takes E entry_name i s = s\<lparr>us_tasks := tasks, us_workers := (us_workers s)[i := x], us_world := w\<rparr>"
      using True by (simp add: worker_takes_def q r process_request_bytes_eq x_def)
    ultimately show ?thesis by simp
  qed (use assms in \<open>auto simp: worker_takes_def split: list.split\<close>)
  then show "replies_inv E (worker_takes E entry_name i s)" "flush_inv now (worker_takes E entry_name i s)" by simp_all
qed

lemma inv_worker_hands_over:
  assumes "replies_inv E s" "flush_inv now s"
  shows "replies_inv E (worker_hands_over i s)" "flush_inv now (worker_hands_over i s)"
proof -
  have keep: "replies_inv E (s\<lparr>us_resps := us_resps s @ [(b, src)], us_made := us_made s @ [(b, src)],
      us_workers := (us_workers s)[i := Free]\<rparr>)"
    if "Sending b src \<in> set (us_workers s)" for b src
    using replies_invD(1-4) [OF assms(1)] replies_invD(5) [OF assms(1), symmetric] replies_invD(2) [OF assms(1) that]
    by (intro replies_invI) (auto dest!: set_put)
  have "replies_inv E (worker_hands_over i s) \<and> flush_inv now (worker_hands_over i s)"
  proof (cases "i < length (us_workers s) \<and> length (us_resps s) < udp_channel")
    case True
    then have "us_workers s ! i \<in> set (us_workers s)" by simp
    with keep assms True show ?thesis
      by (cases "us_workers s ! i") (simp_all add: worker_hands_over_def flush_inv_def)
  qed (use assms in \<open>auto simp: worker_hands_over_def\<close>)
  then show "replies_inv E (worker_hands_over i s)" "flush_inv now (worker_hands_over i s)" by simp_all
qed

lemma udp_run_inv: "udp_run E entry_name n now s \<Longrightarrow> replies_inv E s \<and> flush_inv now s"
proof (induction rule: udp_run.induct)
  case (Start now cpus h w)
  show ?case
    by (auto simp: run_udp_linux_def replies_inv_def flush_inv_def bs_new_def tx_batch_size_def bi_new_def io_ok_def)
next
  case (Packets now s qps ds s')
  then show ?case using inv_on_packets [of E s now qps ds] by auto
next
  case (Others now s now' h w)
  then show ?case by (auto simp: replies_inv_def flush_inv_def intro: le_trans)
next
  case Timer
  then show ?case by (simp add: inv_on_timer [of E])
next
  case Response
  then show ?case by (simp add: inv_on_response [of E])
next
  case Takes
  then show ?case using inv_worker_takes by blast
next
  case Hands_Over
  then show ?case using inv_worker_hands_over by blast
qed



section \<open>A run\<close>

definition sample_reply :: bytes where
  "sample_reply = [0x12, 0x34, 0, 0, 0, 0, 0, 0, 0, 0, 0, 0]"

lemma sample_udp_run:
  "\<exists>s. udp_run answering_env ''main'' 1 0 s \<and> us_got s = [(sample_query, (V4 1, 53))] \<and> us_made s = [(sample_reply, (V4 1, 53))]
     \<and> bs_queue (us_tx s) = [(sample_reply, (V4 1, 53))] \<and> us_wire s = [] \<and> us_flushed s = [] \<and> us_timer s = Some flush_delay"
proof -
  let ?src = "(V4 1, 53) :: sock_addr" and ?ds = "[(sample_query, Some (V4 1, 53 :: u16))]"
  let ?s0 = "run_udp_linux 0 1 1 sample_registry sample_world"
  have io0: "io_ok bi_new" by (simp add: io_ok_def bi_new_def)
  obtain k io where r: "recv_batch ?ds bi_new = (k, io)" by fastforce
  have "current_batch_size bi_new = 64"
    by (simp add: current_batch_size_def clamp_def bi_new_def default_batch_size_def min_batch_size_def max_batch_size_def)
  then have k: "k = 1" using r by (auto simp: recv_batch_def Let_def)
  have g: "get_packet 0 io = Inr (Some (sample_query, ?src))"
    using batch_read(2) [OF io0 r, of 0] k by (simp add: sample_query_def packet_size_def)
  let ?s1 = "?s0\<lparr>us_io := io, us_tasks := [(sample_query, ?src)], us_got := [(sample_query, ?src)]\<rparr>"
  have due: "from_millis 500 \<noteq> 0" "length sample_query = 12" by (simp_all add: from_millis_def sample_query_def)
  have "on_packets 0 0 ?ds ?s0 = Inr ?s1"
    by (simp add: on_packets_def run_udp_linux_def r k Let_def due g queue_task_def udp_channel_def)
  from Packets [OF Start this] have r1: "udp_run answering_env ''main'' 1 0 ?s1" .
  obtain w where w: "process_request answering_env sample_registry ''main'' sample_query ?src sample_world = (Inr (Some sample_reply), w)"
    using sample_process by (metis prod.collapse sample_reply_def)
  let ?s2 = "?s1\<lparr>us_tasks := [], us_workers := [Sending sample_reply ?src], us_world := w\<rparr>"
  have "worker_takes answering_env ''main'' 0 ?s1 = ?s2"
    by (simp add: worker_takes_def run_udp_linux_def num_udp_workers_def process_request_bytes_eq w)
  with Takes [OF r1, of 0] have r2: "udp_run answering_env ''main'' 1 0 ?s2" by simp
  let ?s3 = "?s2\<lparr>us_resps := [(sample_reply, ?src)], us_made := [(sample_reply, ?src)], us_workers := [Free]\<rparr>"
  have "worker_hands_over 0 ?s2 = ?s3" by (simp add: worker_hands_over_def run_udp_linux_def udp_channel_def)
  with Hands_Over [OF r2, of 0] have r3: "udp_run answering_env ''main'' 1 0 ?s3" by simp
  let ?s4 = "?s3\<lparr>us_resps := [], us_tx := (bs_new tx_batch_size)\<lparr>bs_queue := [(sample_reply, ?src)]\<rparr>, us_timer := Some flush_delay\<rparr>"
  have "on_response 0 None ?s3 = ?s4"
    by (simp add: on_response_def run_udp_linux_def bs_push_def bs_new_def tx_batch_size_def)
  with Response [OF r3, of None] have "udp_run answering_env ''main'' 1 0 ?s4" by simp
  then show ?thesis by (intro exI [of _ ?s4]) (simp add: run_udp_linux_def)
qed



section \<open>Limits of the transport\<close>

text \<open>A socket that is made is bound and does not block; two servers share a port only if they are configured to.\<close>

lemma socket_bound:
  assumes "create_udp_socket parse made takes addr_str opts = Inr calls"
  shows "\<exists>addr. parse addr_str = Some addr \<and> Bind addr \<in> set calls \<and> Nonblocking \<in> set calls"
    and "Reuse_Port \<in> set calls \<Longrightarrow> so_reuseport opts"
proof -
  obtain addr where addr: "parse addr_str = Some addr"
    using assms by (cases "parse addr_str") (simp_all add: create_udp_socket_def)
  have c: "calls = filter takes (socket_calls opts addr)" "\<not> (\<exists>c \<in> set (socket_calls opts addr). required c \<and> \<not> takes c)"
    using assms unfolding create_udp_socket_def addr Let_def option.case by (simp_all split: if_split_asm)
  have m: "Bind addr \<in> set (socket_calls opts addr)" "Nonblocking \<in> set (socket_calls opts addr)"
    by (simp_all add: socket_calls_def)
  with c(2) have "takes (Bind addr)" "takes Nonblocking" by (auto simp: required_def)
  with c(1) m addr show "\<exists>addr. parse addr_str = Some addr \<and> Bind addr \<in> set calls \<and> Nonblocking \<in> set calls" by simp
  assume "Reuse_Port \<in> set calls"
  then show "so_reuseport opts" by (simp add: c(1) socket_calls_def split: if_split_asm)
qed

text \<open>An invalid timeout stops a stream server at its start.\<close>

lemma zero_timeout_refused:
  "so_tcp_read_timeout_ms opts = Some 0 \<Longrightarrow> \<exists>e. start_tcp bound opts = Inl (Error e)"
  "so_tcp_read_timeout_ms opts = Some 0 \<Longrightarrow> \<exists>e. start_dot load bound tls opts = Inl (Error e)"
  "so_doh_keep_alive_interval_ms opts = Some 0 \<or> so_doh_keep_alive_timeout_ms opts = Some 0 \<Longrightarrow> \<exists>e. start_doh load bound tls opts = Inl (Error e)"
proof -
  show "so_tcp_read_timeout_ms opts = Some 0 \<Longrightarrow> \<exists>e. start_tcp bound opts = Inl (Error e)"
    "so_tcp_read_timeout_ms opts = Some 0 \<Longrightarrow> \<exists>e. start_dot load bound tls opts = Inl (Error e)"
    by (auto simp: start_tcp_def start_dot_def tcp_timeout_def dot_timeout_def split: option.split)
  show "so_doh_keep_alive_interval_ms opts = Some 0 \<or> so_doh_keep_alive_timeout_ms opts = Some 0 \<Longrightarrow> \<exists>e. start_doh load bound tls opts = Inl (Error e)"
    by (cases "so_doh_keep_alive_interval_ms opts")
      (auto simp: start_doh_def doh_keep_alive_def)
qed

text \<open>The kernel may take only a part of a batch; the rest is dropped without an error.\<close>

lemma partial_send_drops_rest:
  "n < length (bs_queue b) \<Longrightarrow> bs_flush (Some n) b = (take n (bs_queue b), Inr n, b\<lparr>bs_queue := []\<rparr>)"
  by (auto simp: bs_flush_def)

text \<open>A datagram that is longer than the buffer is cut to its size and processed as if it were whole: the check of the
  length never fails.\<close>

lemma oversized_is_cut:
  assumes "io_ok b" "recv_batch [(d, Some a)] b = (k, b')" "0 < k" "4096 < length d"
  shows "get_packet 0 b' = Inr (Some (take 4096 d, a))"
  using batch_read(2) [OF assms(1-3)] assms(4) by (auto simp: packet_size_def)

text \<open>The plain server reserves less than it needs: after a packet of 2000 bytes it receives only the first 2096 bytes of the next.\<close>

lemma plain_receive_cuts:
  assumes "length d1 = 2000" "length d2 = 3000"
  shows "recv_standard grown 4096 d1 = (Some d1, 2096) \<and> fst (recv_standard grown 2096 d2) = Some (take 2096 d2)"
  using assms by (simp add: recv_standard_def Let_def)

text \<open>Connections behind a failed accept are served over TCP, but not by the DoH server with TLS.\<close>

lemma accept_ends:
  "accept_tcp (None # cs) = accept_tcp cs" "accept_doh (None # cs) = ([], Inl (Error ''accept''))"
  by (simp_all add: accept_tcp_def List.map_filter_def)

end
