(* ===== verification/Kernel_Filter.thy ===== *)
theory Kernel_Filter
  imports Cache_Plugin Stats Byte_Buffer
begin

text \<open>
  The fast path in the kernel: the XDP program \<open>bpf/titan_filter.c\<close>, which drops or answers packets before they reach
  the server, and \<open>src/bpf.rs\<close>, which loads it and fills and reads its maps.

  A packet is the list of its bytes: an Ethernet header of 14 bytes, an IPv4 header of 20, a UDP header of 8, the DNS message.  The machine
  is little-endian.  The calls of the loader are inputs that say whether they succeed.
\<close>

section \<open>The maps\<close>

text \<open>\<open>km_stats\<close> has a value per processor for each key; the ring holds events of 16 bytes.\<close>

record kernel_maps =
  km_blacklist :: "u32 \<rightharpoonup> u8"
  km_cache :: "u64 \<rightharpoonup> dns_cache_entry"
  km_stats :: "nat \<rightharpoonup> u64 list"
  km_ring :: "bytes list"

definition maps_new :: "nat \<Rightarrow> kernel_maps" where
  "maps_new cpus = \<lparr>km_blacklist = Map.empty, km_cache = Map.empty,
     km_stats = (\<lambda>k. if k < 16 then Some (replicate cpus 0) else None), km_ring = []\<rparr>"

text \<open>The filter of the process: the maps of the program while it is loaded.\<close>

type_synonym kernel_filter = "kernel_maps option"

definition load_and_attach ::
  "kernel_maps option \<Rightarrow> bool \<Rightarrow> bool \<Rightarrow> bool \<Rightarrow> bool \<Rightarrow> kernel_filter \<Rightarrow> unit result \<times> kernel_filter" where
  "load_and_attach file has_program is_xdp verified attached f =
     (case file of
        None \<Rightarrow> (Inl (Error ''Failed to load eBPF file''), f)
      | Some maps \<Rightarrow>
          if \<not> has_program then (Inl (Error ''XDP program 'titan_dns_filter' not found''), f)
          else if \<not> is_xdp then (Inl (Error ''Failed to convert program to XDP''), f)
          else if \<not> verified then (Inl (Error ''Failed to load XDP program into kernel''), f)
          else if \<not> attached then (Inl (Error ''Failed to attach XDP program''), f)
          else (Inr (), Some maps))"

definition detach :: "kernel_filter \<Rightarrow> kernel_filter" where
  "detach f = None"

text \<open>The entries of the configuration, an address and an action.  \<open>parse\<close> is the parser of addresses, and \<open>takes\<close> says
  whether the kernel takes a key.  An error ends the loop; what was inserted stays.\<close>

fun insert_rules :: "(string \<Rightarrow> u32 option) \<Rightarrow> (u32 \<Rightarrow> bool) \<Rightarrow> (string \<times> string) list \<Rightarrow> kernel_maps \<Rightarrow> unit result \<times> kernel_maps" where
  "insert_rules parse takes [] m = (Inr (), m)"
| "insert_rules parse takes ((ip, action) # entries) m =
     (case parse ip of
        None \<Rightarrow> (Inl (Error ''Invalid IP''), m)
      | Some ip_u32 \<Rightarrow>
          let act = (if to_lower action = ''refuse'' then 2 else 1) in
          if takes ip_u32 then insert_rules parse takes entries (m\<lparr>km_blacklist := (km_blacklist m)(ip_u32 \<mapsto> act)\<rparr>)
          else (Inl (Error ''Failed to insert IP''), m))"

definition populate_blacklist ::
  "(string \<Rightarrow> u32 option) \<Rightarrow> (u32 \<Rightarrow> bool) \<Rightarrow> (string \<times> string) list \<Rightarrow> kernel_filter \<Rightarrow> unit result \<times> kernel_filter" where
  "populate_blacklist parse takes entries f =
     (if entries = [] then (Inr (), f)
      else case f of
             None \<Rightarrow> (Inl (Error ''BPF not loaded''), f)
           | Some m \<Rightarrow> apsnd Some (insert_rules parse takes entries m))"

text \<open>The cache entries are written by \<open>update_cache\<close> of the theory of the hashes.\<close>

definition kernel_update_cache ::
  "u64 \<Rightarrow> bool \<Rightarrow> bytes \<Rightarrow> u16 \<Rightarrow> u16 \<Rightarrow> bytes \<Rightarrow> u64 \<Rightarrow> kernel_filter \<Rightarrow> kernel_filter result" where
  "kernel_update_cache now_ns inserted qname_raw qt qclass resp ttl f =
     andthen (update_cache now_ns inserted qname_raw qt qclass resp ttl \<lparr>bpf_maps = map_option km_cache f\<rparr>) (\<lambda>b.
       Inr (case (f, bpf_maps b) of (Some m, Some c) \<Rightarrow> Some (m\<lparr>km_cache := c\<rparr>) | _ \<Rightarrow> f))"

record xdp_cache_stats =
  xs_hits :: u64
  xs_misses :: u64
  xs_expired :: u64
  xs_refreshes :: u64

definition summed :: "nat \<Rightarrow> kernel_maps \<Rightarrow> u64" where
  "summed k m = (case km_stats m k of None \<Rightarrow> 0 | Some vals \<Rightarrow> sum_list vals)"

definition get_cache_stats :: "kernel_filter \<Rightarrow> xdp_cache_stats result" where
  "get_cache_stats f =
     (case f of
        None \<Rightarrow> Inl (Error ''BPF not loaded'')
      | Some m \<Rightarrow> Inr \<lparr>xs_hits = summed 2 m, xs_misses = summed 3 m, xs_expired = 0, xs_refreshes = summed 4 m\<rparr>)"

text \<open>The events of one poll: the hashes that are passed to the callback, and what is left of the ring.  An event that is taken from
  the ring is gone.\<close>

definition max_events_per_poll :: nat where
  "max_events_per_poll = 10"

fun poll_ring :: "nat \<Rightarrow> bytes list \<Rightarrow> u64 list \<times> bytes list" where
  "poll_ring count [] = ([], [])"
| "poll_ring count (item # ring) =
     (if max_events_per_poll \<le> count then ([], ring)
      else if 16 \<le> length item then apfst ((#) (from_le (take 8 item))) (poll_ring (count + 1) ring)
      else poll_ring count ring)"

definition poll_refresh_events :: "kernel_filter \<Rightarrow> u64 list \<times> kernel_filter" where
  "poll_refresh_events f =
     (case f of
        None \<Rightarrow> ([], f)
      | Some m \<Rightarrow> (let (hashes, ring) = poll_ring 0 (km_ring m) in (hashes, Some (m\<lparr>km_ring := ring\<rparr>))))"

text \<open>A second of the task that the cache plugin starts with the filter: it polls the ring, drops the hashes that it handled
  shortly before, and starts a refresh for each of the rest; one instance of the plugin copies the count of hits.\<close>

definition xdp_task_tick ::
  "u64 \<Rightarrow> bool \<Rightarrow> kernel_filter \<Rightarrow> (u64 \<times> u64) list \<Rightarrow> dns_stats \<Rightarrow> u64 list \<times> kernel_filter \<times> (u64 \<times> u64) list \<times> dns_stats" where
  "xdp_task_tick now_epoch should_sync_stats f dedup s =
     (let (hashes, f) = poll_refresh_events f;
          (started, dedup) =
            fold (\<lambda>qhash (started, dedup). let (fresh, dedup) = poll_event now_epoch qhash dedup in
                    (if fresh then started @ [qhash] else started, dedup)) hashes ([], dedup);
          s = (if should_sync_stats then (case get_cache_stats f of Inr x \<Rightarrow> set_xdp_hits (xs_hits x) s | Inl _ \<Rightarrow> s) else s)
      in (started, f, dedup, s))"

definition should_sync :: "string \<Rightarrow> bool" where
  "should_sync plugin_name = (contains_str plugin_name ''domestic'' \<or> plugin_name = ''cache'')"

section \<open>The program\<close>

datatype verdict = Pass | Drop | Tx

definition djb2_hash_byte :: "u64 \<Rightarrow> u8 \<Rightarrow> u64" where
  "djb2_hash_byte hash byte =
     (let byte = (if 65 \<le> byte \<and> byte \<le> 90 then byte + 32 else byte) in (push_bit 5 hash + hash) + ucast byte)"

fun hash_name :: "nat \<Rightarrow> u64 \<Rightarrow> bytes \<Rightarrow> (u64 \<times> bytes) option" where
  "hash_name 0 hash ptr = None"
| "hash_name (Suc n) hash [] = None"
| "hash_name (Suc n) hash (byte # ptr) =
     (if byte = 0 then Some (djb2_hash_byte hash 0, ptr)
      else if byte AND 0xC0 = 0xC0 then None
      else hash_name n (djb2_hash_byte hash byte) ptr)"

text \<open>The hash of the name after the DNS header, and what follows it; a hash of zero stands for a failure.\<close>

definition parse_dns_qname_hash :: "bytes \<Rightarrow> (u64 \<times> bytes) option" where
  "parse_dns_qname_hash payload =
     (case hash_name 128 5381 (drop 12 payload) of
        Some (hash, qname_end) \<Rightarrow> if hash = 0 then None else Some (hash, qname_end)
      | None \<Rightarrow> None)"

definition swap_ethernet :: "bytes \<Rightarrow> bytes" where
  "swap_ethernet p = write_at 6 (part 0 6 p) (write_at 0 (part 6 6 p) p)"

definition swap_ipv4 :: "bytes \<Rightarrow> bytes" where
  "swap_ipv4 p = write_at 24 [0, 0] (write_at 30 (part 26 4 p) (write_at 26 (part 30 4 p) p))"

definition swap_udp :: "bytes \<Rightarrow> bytes" where
  "swap_udp p = write_at 40 [0, 0] (write_at 36 (part 34 2 p) (write_at 34 (part 36 2 p) p))"

lemma unat_halves: "unat (c AND 0xFFFF :: u32) = unat c mod 65536" "unat (drop_bit 16 c :: u32) = unat c div 65536"
proof -
  have "c AND 0xFFFF = c mod 65536"
    using take_bit_eq_mask [of 16 c] take_bit_eq_mod [of 16 c] by (simp add: mask_eq_exp_minus_1)
  then show "unat (c AND 0xFFFF) = unat c mod 65536" by (simp add: unat_mod)
  have "drop_bit 16 c = c div 65536" using drop_bit_eq_div [of 16 c] by simp
  then show "unat (drop_bit 16 c) = unat c div 65536" by (simp add: unat_div)
qed

lemma unat_fold_step: "unat ((c AND 0xFFFF) + drop_bit 16 c :: u32) = unat c mod 65536 + unat c div 65536"
proof -
  have "unat c < 4294967296" using unsigned_less [of c, where ?'a = nat] by simp
  then have "unat c div 65536 < 65536" by (simp add: div_less_iff_less_mult)
  moreover have "unat c mod 65536 < 65536" by simp
  ultimately show ?thesis by (simp add: unat_plus_if_size word_size unat_halves)
qed

lemma carry_zero: "drop_bit 16 c = (0 :: u32) \<longleftrightarrow> unat c < 65536"
proof -
  have "drop_bit 16 c = 0 \<longleftrightarrow> unat (drop_bit 16 c) = 0" by (simp only: unat_eq_zero)
  then show ?thesis by (simp only: unat_halves div_eq_0_iff) simp
qed

function fold_carry :: "u32 \<Rightarrow> u32" where
  "fold_carry csum = (if drop_bit 16 csum = 0 then csum else fold_carry ((csum AND 0xFFFF) + drop_bit 16 csum))"
  by pat_completeness auto

termination fold_carry
proof (relation "measure unat")
  fix c :: u32
  assume "drop_bit 16 c \<noteq> 0"
  then have "65536 \<le> unat c" by (simp add: carry_zero)
  then have "1 \<le> unat c div 65536" by (simp add: Suc_le_eq div_greater_zero_iff)
  then have "unat c mod 65536 + unat c div 65536 < unat c"
    using div_mult_mod_eq [of "unat c" 65536] by linarith
  then show "((c AND 0xFFFF) + drop_bit 16 c, c) \<in> measure unat" by (simp add: unat_fold_step)
qed simp

declare fold_carry.simps [simp del]

definition calc_ip_csum :: "bytes \<Rightarrow> u16" where
  "calc_ip_csum p =
     (let ptr = part 14 20 p;
          csum = fold (\<lambda>i csum. csum + from_le (part (2 * i) 2 ptr)) [0 ..< 10] 0
      in NOT (ucast (fold_carry csum)))"

text \<open>The copy of the answer into the packet, in chunks of 32 bytes and then byte by byte.\<close>

fun copy_tail :: "nat \<Rightarrow> nat \<Rightarrow> nat \<Rightarrow> bytes \<Rightarrow> bytes \<Rightarrow> bytes" where
  "copy_tail 0 payload len resp p = p"
| "copy_tail (Suc j) payload len resp p =
     (if len = 0 \<or> length p < payload + 1 then p
      else copy_tail j (payload + 1) (len - 1) (drop 1 resp) (write_at payload (take 1 resp) p))"

fun copy_chunks :: "nat \<Rightarrow> nat \<Rightarrow> nat \<Rightarrow> bytes \<Rightarrow> bytes \<Rightarrow> bytes" where
  "copy_chunks 0 payload len resp p = p"
| "copy_chunks (Suc i) payload len resp p =
     (if 32 \<le> len
      then (if payload + 32 \<le> length p
            then copy_chunks i (payload + 32) (len - 32) (drop 32 resp) (write_at payload (take 32 resp) p)
            else p)
      else copy_tail 32 payload len resp p)"

text \<open>A counter of this processor.\<close>

definition count_stat :: "nat \<Rightarrow> nat \<Rightarrow> kernel_maps \<Rightarrow> kernel_maps" where
  "count_stat cpu k m =
     (case km_stats m k of
        Some vals \<Rightarrow> m\<lparr>km_stats := (km_stats m)(k \<mapsto> vals[cpu := vals ! cpu + 1])\<rparr>
      | None \<Rightarrow> m)"

definition refresh_threshold_ns :: u64 where
  "refresh_threshold_ns = 10 * 1000000000"

text \<open>The notice that an entry is about to expire, at most one every three seconds for an entry; \<open>room\<close> says whether the ring has room.\<close>

definition notify_refresh :: "u64 \<Rightarrow> nat \<Rightarrow> bool \<Rightarrow> u64 \<Rightarrow> dns_cache_entry \<Rightarrow> kernel_maps \<Rightarrow> kernel_maps" where
  "notify_refresh now cpu room qhash e m =
     (let remaining_ns = xe_expire_ns e - now; now_ts = ucast (now div 1000000000) :: u32 in
      if remaining_ns < refresh_threshold_ns \<and> 0 < remaining_ns \<and> xe_last_refresh_ts e + 3 < now_ts then
        let m = m\<lparr>km_cache := (km_cache m)(qhash \<mapsto> e\<lparr>xe_last_refresh_ts := now_ts\<rparr>)\<rparr> in
        if room then count_stat cpu 4 (m\<lparr>km_ring := km_ring m @ [le_bytes 8 qhash @ le_bytes 8 remaining_ns]\<rparr>) else m
      else m)"

text \<open>The answer from an entry: the packet is resized, filled and sent back with the ID of the query.  \<open>resized\<close> says whether
  the kernel can resize it.\<close>

definition answer_packet :: "bytes \<Rightarrow> bytes \<Rightarrow> dns_cache_entry \<Rightarrow> bytes" where
  "answer_packet orig_id p e =
     (let effective_len = unat (xe_len e);
          new_len = 14 + 20 + 8 + effective_len;
          p = take new_len (p @ replicate new_len 0);
          p = copy_chunks 24 42 effective_len (xe_response e) p;
          p = swap_udp (swap_ipv4 (swap_ethernet p));
          p = write_at 16 (be_bytes 2 (word_of_nat (20 + 8 + effective_len) :: u16)) p;
          p = write_at 24 [0, 0] p;
          p = write_at 24 (le_bytes 2 (calc_ip_csum p)) p;
          p = write_at 38 (be_bytes 2 (word_of_nat (8 + effective_len) :: u16)) p
      in if 44 \<le> length p then write_at 42 orig_id p else p)"

definition cache_lookup ::
  "u64 \<Rightarrow> nat \<Rightarrow> bool \<Rightarrow> bool \<Rightarrow> bytes \<Rightarrow> kernel_maps \<Rightarrow> verdict \<times> bytes \<times> kernel_maps" where
  "cache_lookup now cpu room resized p m =
     (let dns_payload = drop 42 p in
      if length dns_payload < 12 then (Pass, p, m)
      else let orig_id = part 0 2 dns_payload; flags_val = from_be (part 2 2 dns_payload) :: u16 in
        if flags_val AND 0x8000 \<noteq> 0 then (Pass, p, m)
        else case parse_dns_qname_hash dns_payload of
               None \<Rightarrow> (Pass, p, m)
             | Some (qhash, meta_ptr) \<Rightarrow>
                 if length meta_ptr < 4 then (Pass, p, m)
                 else let qhash = foldl djb2_hash_byte qhash (take 4 meta_ptr) in
                   (case km_cache m qhash of
                      None \<Rightarrow> (Pass, p, m)
                    | Some cache_entry \<Rightarrow>
                        if xe_expire_ns cache_entry < now then (Pass, p, m)
                        else if xe_rcode cache_entry \<noteq> 0 then (Pass, p, m)
                        else let m = count_stat cpu 2 (notify_refresh now cpu room qhash cache_entry m) in
                          if xe_len cache_entry = 0 \<or> 768 < xe_len cache_entry then (Pass, p, m)
                          else if \<not> resized then (Pass, p, m)
                          else (Tx, answer_packet orig_id p cache_entry, m)))"

text \<open>The refusal of a listed sender.\<close>

definition reflect :: "bytes \<Rightarrow> verdict \<times> bytes" where
  "reflect p =
     (if p ! 23 = 17 \<and> 42 \<le> length p \<and> 54 \<le> length p
      then let p = swap_udp (swap_ipv4 (swap_ethernet p));
               p = write_at 24 (le_bytes 2 (calc_ip_csum p)) p
           in (Tx, write_at 44 [0x81, 0x05] p)
      else (Drop, p))"

definition titan_dns_filter ::
  "u64 \<Rightarrow> nat \<Rightarrow> bool \<Rightarrow> bool \<Rightarrow> bytes \<Rightarrow> kernel_maps \<Rightarrow> verdict \<times> bytes \<times> kernel_maps" where
  "titan_dns_filter now cpu room resized p m =
     (if length p < 14 then (Pass, p, m)
      else if part 12 2 p \<noteq> [0x08, 0x00] then (Pass, p, m)
      else if length p < 34 then (Pass, p, m)
      else let src_ip = from_le (part 26 4 p) :: u32; rule = km_blacklist m src_ip in
        if rule = Some 1 then (Drop, p, m)
        else if rule = Some 2 then (let (v, p) = reflect p in (v, p, m))
        else if p ! 23 \<noteq> 17 then (Pass, p, m)
        else if length p < 42 then (Pass, p, m)
        else if part 36 2 p \<noteq> [0, 53] then (Pass, p, m)
        else cache_lookup now cpu room resized p m)"

section \<open>The key of a packet\<close>

lemma djb2_hash_byte_eq: "djb2_hash_byte = djb2_byte"
  by (intro ext) (simp add: djb2_hash_byte_def djb2_byte_def Let_def)

text \<open>A name in wire format that the program reads to its end: no byte but the last is zero or looks like a pointer.\<close>

definition plain_name :: "bytes \<Rightarrow> bool" where
  "plain_name q \<longleftrightarrow> q \<noteq> [] \<and> List.last q = 0 \<and> (\<forall>b \<in> set (butlast q). b \<noteq> 0 \<and> b AND 0xC0 \<noteq> 0xC0) \<and> length q \<le> 128"

lemma hash_name_plain:
  "(\<And>b. b \<in> set body \<Longrightarrow> b \<noteq> 0 \<and> b AND 0xC0 \<noteq> 0xC0) \<Longrightarrow> length body < n
     \<Longrightarrow> hash_name n hash (body @ 0 # rest) = Some (foldl djb2_byte hash (body @ [0]), rest)"
proof (induction body arbitrary: n hash)
  case Nil
  then show ?case by (cases n) (simp_all add: djb2_hash_byte_eq)
next
  case (Cons b body)
  from Cons.prems(2) obtain k where n: "n = Suc k" by (cases n) simp_all
  have "b \<noteq> 0 \<and> b AND 0xC0 \<noteq> 0xC0" using Cons.prems(1) [of b] by simp
  moreover have "hash_name k (djb2_byte hash b) (body @ 0 # rest) = Some (foldl djb2_byte (djb2_byte hash b) (body @ [0]), rest)"
    using Cons.prems by (intro Cons.IH) (simp_all add: n)
  ultimately show ?case by (simp add: n djb2_hash_byte_eq)
qed

lemma kernel_key:
  assumes "plain_name q" "length hdr = 12"
  shows "hash_name 128 5381 (drop 12 (hdr @ q @ rest)) = Some (foldl djb2_byte 5381 q, rest)"
proof -
  have q: "q = butlast q @ [0]" using assms(1) by (metis append_butlast_last_id plain_name_def)
  have "length (butlast q) < 128" using assms(1) by (simp add: plain_name_def) (cases q; simp)
  then have "hash_name 128 5381 (butlast q @ 0 # rest) = Some (foldl djb2_byte 5381 (butlast q @ [0]), rest)"
    using assms(1) by (intro hash_name_plain) (simp_all add: plain_name_def)
  then have "hash_name 128 5381 ((butlast q @ [0]) @ rest) = Some (foldl djb2_byte 5381 (butlast q @ [0]), rest)" by simp
  then show ?thesis using assms(2) by (simp add: q [symmetric])
qed

section \<open>The answer\<close>

lemma copy_tail_copies:
  "len \<le> j \<Longrightarrow> length p = payload + len \<Longrightarrow> len \<le> length resp \<Longrightarrow> copy_tail j payload len resp p = take payload p @ take len resp"
proof (induction j payload len resp p rule: copy_tail.induct)
  case (2 j payload len resp p)
  show ?case
  proof (cases "len = 0")
    case False
    then have l: "length (take 1 resp) = 1" "payload + 1 \<le> length p" using 2(3,4) by auto
    have "copy_tail j (payload + 1) (len - 1) (drop 1 resp) (write_at payload (take 1 resp) p)
        = take (payload + 1) (write_at payload (take 1 resp) p) @ take (len - 1) (drop 1 resp)"
      using 2(2-4) False l by (intro 2(1)) auto
    moreover have "take (payload + 1) (write_at payload (take 1 resp) p) = take payload p @ take 1 resp"
      using l by (simp add: write_at_def)
    moreover have "take 1 resp @ take (len - 1) (drop 1 resp) = take len resp"
      using False take_add [of 1 "len - 1" resp] by simp
    ultimately show ?thesis using False 2(3) by simp
  qed (use 2(3) in simp)
qed simp

lemma copy_chunks_copies:
  "len \<le> 32 * i \<Longrightarrow> length p = payload + len \<Longrightarrow> len \<le> length resp
     \<Longrightarrow> copy_chunks i payload len resp p = take payload p @ take len resp"
proof (induction i payload len resp p rule: copy_chunks.induct)
  case (2 i payload len resp p)
  show ?case
  proof (cases "32 \<le> len")
    case True
    then have l: "length (take 32 resp) = 32" "payload + 32 \<le> length p" using 2(3,4) by auto
    have "copy_chunks i (payload + 32) (len - 32) (drop 32 resp) (write_at payload (take 32 resp) p)
        = take (payload + 32) (write_at payload (take 32 resp) p) @ take (len - 32) (drop 32 resp)"
      using 2(2-4) True l by (intro 2(1)) auto
    moreover have "take (payload + 32) (write_at payload (take 32 resp) p) = take payload p @ take 32 resp"
      using l by (simp add: write_at_def)
    moreover have "take 32 resp @ take (len - 32) (drop 32 resp) = take len resp"
      using True take_add [of 32 "len - 32" resp] by simp
    ultimately show ?thesis using True l(2) by simp
  next
    case False
    then show ?thesis using 2(3,4) by (simp add: copy_tail_copies)
  qed
qed simp

section \<open>The checksum of the header\<close>

lemma fold_carry_sum:
  "unat (fold_carry c) < 65536 \<and> unat (fold_carry c) mod 65535 = unat c mod 65535 \<and> (0 < unat c \<longrightarrow> 0 < unat (fold_carry c))"
proof (induction c rule: fold_carry.induct)
  case (1 c)
  show ?case
  proof (cases "drop_bit 16 c = 0")
    case True
    then show ?thesis by (simp add: fold_carry.simps [of c] carry_zero)
  next
    case False
    let ?d = "(c AND 0xFFFF) + drop_bit 16 c"
    have "65536 \<le> unat c" using False by (simp add: carry_zero)
    then have "0 < unat c div 65536" by (simp add: div_greater_zero_iff)
    moreover have "unat c = (unat c mod 65536 + unat c div 65536) + unat c div 65536 * 65535"
      using div_mult_mod_eq [of "unat c" 65536] by linarith
    then have "unat c mod 65535 = (unat c mod 65536 + unat c div 65536) mod 65535" by (metis mod_mult_self1)
    ultimately have "0 < unat ?d" "unat ?d mod 65535 = unat c mod 65535"
      unfolding unat_fold_step by simp_all
    with 1 [OF False] show ?thesis by (simp add: fold_carry.simps [of c] False)
  qed
qed

text \<open>The 16-bit words of the IPv4 header.\<close>

definition ip_word :: "bytes \<Rightarrow> nat \<Rightarrow> u32" where
  "ip_word p i = from_le (part (14 + 2 * i) 2 p)"

definition header_sum :: "bytes \<Rightarrow> nat" where
  "header_sum p = (\<Sum>i\<leftarrow>[0 ..< 10]. unat (ip_word p i))"

lemma from_le_pair: "from_le (le_bytes 2 (x :: u16)) = (ucast x :: u32)"
proof -
  have "le_bytes 2 x = [ucast x, ucast (drop_bit 8 x)]" by (simp add: numeral_2_eq_2)
  moreover have "bit x n \<Longrightarrow> n < 16" for n by (auto dest: bit_imp_le_length)
  ultimately show ?thesis by (intro bit_word_eqI) (force simp: bit_simps)
qed

lemma from_le_two: "unat (from_le (part a 2 p) :: u32) < 65536"
proof -
  let ?w = "from_le (part a 2 p) :: u32"
  have "take_bit 16 ?w = ?w"
    by (intro bit_word_eqI) (auto simp: bit_take_bit_iff dest: bit_from_le)
  then have "?w = ?w mod 65536" by (simp add: take_bit_eq_mod)
  then have "unat ?w = unat ?w mod unat (65536 :: u32)" by (metis unat_mod)
  moreover have "unat ?w mod unat (65536 :: u32) < 65536" by simp
  ultimately show ?thesis by simp
qed

lemma unat_sum_words:
  "(\<And>i. i \<in> set js \<Longrightarrow> unat (f i) < 65536) \<Longrightarrow> unat acc + 65536 * length js < 4294967296
     \<Longrightarrow> unat (fold (\<lambda>i csum. csum + f i) js acc :: u32) = unat acc + (\<Sum>i\<leftarrow>js. unat (f i))"
proof (induction js arbitrary: acc)
  case (Cons i js)
  have f: "unat (f i) < 65536" using Cons.prems(1) by simp
  have u: "unat (acc + f i) = unat acc + unat (f i)"
    using Cons.prems(2) f by (simp add: unat_plus_if_size word_size)
  then have b: "unat (acc + f i) + 65536 * length js < 4294967296" using Cons.prems(2) f by simp
  have "unat (fold (\<lambda>i csum. csum + f i) js (acc + f i)) = unat (acc + f i) + (\<Sum>i\<leftarrow>js. unat (f i))"
    using Cons.prems(1) b by (intro Cons.IH) simp_all
  with u show ?case by simp
qed simp

lemma unat_not16: "unat (NOT (w :: u16)) = 65535 - unat w"
proof -
  have "NOT w = - 1 - w" by (simp add: not_eq_complement)
  moreover have "(- 1 :: u16) = 65535" by simp
  then have "unat (- 1 :: u16) = 65535" by (simp only: unat_numeral) simp
  moreover have "w \<le> - 1" by simp
  ultimately show ?thesis by (simp add: unat_sub)
qed

lemma calc_ip_csum_sum: "\<exists>s. unat s = header_sum p \<and> unat (calc_ip_csum p) = 65535 - unat (fold_carry s)"
proof -
  let ?s = "fold (\<lambda>i csum. csum + ip_word p i) [0 ..< 10] 0 :: u32"
  have w: "part (2 * i) 2 (part 14 20 p) = part (14 + 2 * i) 2 p" if "i < 10" for i
    using that by (simp add: part_def drop_take min_def add.commute)
  have "fold (\<lambda>i csum. csum + from_le (part (2 * i) 2 (part 14 20 p))) [0 ..< 10] 0 = ?s"
    by (intro fold_cong) (simp_all add: w ip_word_def)
  then have c: "calc_ip_csum p = NOT (ucast (fold_carry ?s))" by (simp only: calc_ip_csum_def Let_def)
  have "unat ?s = header_sum p"
    using unat_sum_words [of "[0 ..< 10]" "ip_word p" 0] from_le_two by (simp add: ip_word_def header_sum_def del: upt_Suc)
  moreover have "unat (ucast (fold_carry ?s) :: u16) = unat (fold_carry ?s)"
    using fold_carry_sum [of ?s] by (simp add: unsigned_ucast_eq take_bit_nat_eq_self)
  ultimately show ?thesis unfolding c unat_not16 by metis
qed

lemma ten_words: "header_sum p = (\<Sum>i\<leftarrow>[0, 1, 2, 3, 4, 5, 6, 7, 8, 9]. unat (ip_word p i))"
proof -
  have "[0 ..< 10] = [0, 1, 2, 3, 4, 5, 6, 7, 8, 9 :: nat]" by (simp add: numeral_eq_Suc)
  then show ?thesis by (simp only: header_sum_def)
qed

text \<open>The receiver's check of the header, the complement of the sum of all its words, gives zero.\<close>

lemma checksum_valid:
  assumes "34 \<le> length p" "part 24 2 p = [0, 0]" "0 < header_sum p"
  shows "calc_ip_csum (write_at 24 (le_bytes 2 (calc_ip_csum p)) p) = 0"
proof -
  let ?p = "write_at 24 (le_bytes 2 (calc_ip_csum p)) p"
  obtain s where s: "unat s = header_sum p" "unat (calc_ip_csum p) = 65535 - unat (fold_carry s)"
    using calc_ip_csum_sum by blast
  have w: "ip_word ?p i = ip_word p i" if "i < 5 \<or> 5 < i" for i
    using that assms(1) by (simp add: ip_word_def, subst part_write_at(2)) auto
  have "ip_word ?p 5 = ucast (calc_ip_csum p)"
    using assms(1) by (simp add: ip_word_def part_write_at from_le_pair)
  then have w5: "unat (ip_word ?p 5) = unat (calc_ip_csum p)" by (simp add: unat_ucast_up)
  have w0: "ip_word p 5 = 0" using assms(2) by (simp add: ip_word_def)
  have sum: "header_sum ?p = header_sum p + (65535 - unat (fold_carry s))"
    unfolding ten_words by (simp add: w w5 w0 s(2))
  obtain s' where s': "unat s' = header_sum ?p" "unat (calc_ip_csum ?p) = 65535 - unat (fold_carry s')"
    using calc_ip_csum_sum by blast
  note f = fold_carry_sum [of s] and f' = fold_carry_sum [of s']
  have "header_sum ?p mod 65535 = 0"
    using mod_add_cong [of "unat (fold_carry s)" 65535 "header_sum p" "65535 - unat (fold_carry s)" "65535 - unat (fold_carry s)"] f s(1)
    unfolding sum by simp
  moreover have "0 < header_sum ?p" using assms(3) by (simp add: sum)
  ultimately have "unat (fold_carry s') = 65535" using f' s'(1) by (auto elim!: dvdE simp: mod_eq_0_iff_dvd)
  then have "unat (calc_ip_csum ?p) = 0" using s'(2) by simp
  then show ?thesis by (simp add: unat_eq_zero)
qed

section \<open>The packet that goes back\<close>

lemma swap_ethernet_parts:
  assumes "42 \<le> length p"
  shows "length (swap_ethernet p) = length p" "part 0 6 (swap_ethernet p) = part 6 6 p" "part 6 6 (swap_ethernet p) = part 0 6 p"
    "12 \<le> a \<Longrightarrow> part a n (swap_ethernet p) = part a n p" "drop 42 (swap_ethernet p) = drop 42 p"
  using assms by (simp_all add: swap_ethernet_def part_write_at drop_write_at)

lemma swap_ipv4_parts:
  assumes "42 \<le> length p"
  shows "length (swap_ipv4 p) = length p" "part 26 4 (swap_ipv4 p) = part 30 4 p" "part 30 4 (swap_ipv4 p) = part 26 4 p"
    "part 24 2 (swap_ipv4 p) = [0, 0]" "a + n \<le> 24 \<or> 34 \<le> a \<Longrightarrow> part a n (swap_ipv4 p) = part a n p"
    "drop 42 (swap_ipv4 p) = drop 42 p"
  using assms by (auto simp: swap_ipv4_def part_write_at drop_write_at)

lemma swap_udp_parts:
  assumes "42 \<le> length p"
  shows "length (swap_udp p) = length p" "part 34 2 (swap_udp p) = part 36 2 p" "part 36 2 (swap_udp p) = part 34 2 p"
    "a + n \<le> 34 \<or> 42 \<le> a \<Longrightarrow> part a n (swap_udp p) = part a n p" "drop 42 (swap_udp p) = drop 42 p"
  using assms by (auto simp: swap_udp_def part_write_at drop_write_at)

lemma swapped:
  assumes "42 \<le> length p"
  shows "length (swap_udp (swap_ipv4 (swap_ethernet p))) = length p"
    "part 0 6 (swap_udp (swap_ipv4 (swap_ethernet p))) = part 6 6 p"
    "part 6 6 (swap_udp (swap_ipv4 (swap_ethernet p))) = part 0 6 p"
    "part 26 4 (swap_udp (swap_ipv4 (swap_ethernet p))) = part 30 4 p"
    "part 30 4 (swap_udp (swap_ipv4 (swap_ethernet p))) = part 26 4 p"
    "part 34 2 (swap_udp (swap_ipv4 (swap_ethernet p))) = part 36 2 p"
    "part 36 2 (swap_udp (swap_ipv4 (swap_ethernet p))) = part 34 2 p"
    "part 24 2 (swap_udp (swap_ipv4 (swap_ethernet p))) = [0, 0]"
    "part 22 2 (swap_udp (swap_ipv4 (swap_ethernet p))) = part 22 2 p"
    "drop 42 (swap_udp (swap_ipv4 (swap_ethernet p))) = drop 42 p"
  using assms by (simp_all add: swap_udp_parts swap_ipv4_parts swap_ethernet_parts)

definition answered_back :: "bytes \<Rightarrow> bytes \<Rightarrow> bool" where
  "answered_back p r \<longleftrightarrow> part 0 6 r = part 6 6 p \<and> part 6 6 r = part 0 6 p \<and> part 26 4 r = part 30 4 p \<and> part 30 4 r = part 26 4 p
     \<and> part 34 2 r = part 36 2 p \<and> part 36 2 r = part 34 2 p \<and> calc_ip_csum r = 0"

lemma csum_header: "part 14 20 p = part 14 20 r \<Longrightarrow> calc_ip_csum p = calc_ip_csum r"
  by (simp add: calc_ip_csum_def)

lemma word_in_sum: "i < 10 \<Longrightarrow> ip_word p i \<noteq> 0 \<Longrightarrow> 0 < header_sum p"
  unfolding header_sum_def by (rule ccontr) (auto simp: unat_eq_zero)

lemma from_le_zero: "from_le [a, b] = (0 :: u32) \<longleftrightarrow> a = 0 \<and> b = 0"
proof
  assume z: "from_le [a, b] = (0 :: u32)"
  have "le_bytes (length [a, b]) (from_le [a, b] :: u32) = [a, b]" by (rule le_bytes_from_le) simp
  then show "a = 0 \<and> b = 0" unfolding z by simp
qed simp

lemma answer_packet_fields:
  assumes p: "42 \<le> length p" and n: "unat (xe_len e) = n" "2 \<le> n" "n \<le> 768" "n \<le> length (xe_response e)" and id: "length i = 2"
  shows "length (answer_packet i p e) = 42 + n" "drop 42 (answer_packet i p e) = i @ drop 2 (take n (xe_response e))"
    "part 16 2 (answer_packet i p e) = be_bytes 2 (word_of_nat (28 + n) :: u16)"
    "part 38 2 (answer_packet i p e) = be_bytes 2 (word_of_nat (8 + n) :: u16)"
    "answered_back p (answer_packet i p e)"
proof -
  define p0 where "p0 = take 42 p @ take n (xe_response e)"
  define p1 where "p1 = swap_udp (swap_ipv4 (swap_ethernet p0))"
  define p2 where "p2 = write_at 24 [0, 0] (write_at 16 (be_bytes 2 (word_of_nat (28 + n) :: u16)) p1)"
  define p3 where "p3 = write_at 24 (le_bytes 2 (calc_ip_csum p2)) p2"
  define p4 where "p4 = write_at 38 (be_bytes 2 (word_of_nat (8 + n) :: u16)) p3"
  have "copy_chunks 24 42 n (xe_response e) (take (42 + n) (p @ replicate (42 + n) 0)) = p0"
    using p n by (subst copy_chunks_copies) (simp_all add: p0_def min_def)
  then have a: "answer_packet i p e = (if 44 \<le> length p4 then write_at 42 i p4 else p4)"
    by (simp add: answer_packet_def n(1) Let_def p1_def p2_def p3_def p4_def)
  have l0: "length p0 = 42 + n" using p n by (simp add: p0_def)
  then have p0: "42 \<le> length p0" by simp
  note sw = swapped [OF p0, folded p1_def]
  have l: "length p1 = 42 + n" "length p2 = 42 + n" "length p3 = 42 + n" "length p4 = 42 + n"
    using l0 sw(1) by (simp_all add: p2_def p3_def p4_def)
  have r: "answer_packet i p e = write_at 42 i p4" using a l n by simp
  have same: "part k m p0 = part k m p" if "k + m \<le> 42" for k m
    using that p by (simp add: part_def p0_def drop_take min_def)
  have step: "part k m (answer_packet i p e) = part k m p3" if "k + m \<le> 38 \<or> 40 \<le> k \<and> k + m \<le> 42" for k m
    using that l id n(2) by (auto simp: r p4_def part_write_at)
  have step': "part k m p3 = part k m p1" if "k + m \<le> 16 \<or> 18 \<le> k \<and> k + m \<le> 24 \<or> 26 \<le> k" for k m
    using that l by (auto simp: p2_def p3_def part_write_at)
  show "length (answer_packet i p e) = 42 + n" using l id n(2) by (simp add: r)
  have "drop 42 p4 = take n (xe_response e)"
    using l0 l sw(10) p by (simp add: p4_def p3_def p2_def drop_write_at) (simp add: p0_def)
  then show "drop 42 (answer_packet i p e) = i @ drop 2 (take n (xe_response e))"
    using l id drop_drop [of 2 42 p4] by (simp add: r write_at_def min_def)
  show "part 38 2 (answer_packet i p e) = be_bytes 2 (word_of_nat (8 + n) :: u16)"
    using l id n(2) by (simp add: r p4_def part_write_at)
  have t: "part 16 2 p2 = be_bytes 2 (word_of_nat (28 + n) :: u16)" using l by (simp add: p2_def part_write_at)
  then show "part 16 2 (answer_packet i p e) = be_bytes 2 (word_of_nat (28 + n) :: u16)"
    using l by (subst step) (simp_all add: p3_def part_write_at)
  have "ip_word p2 1 \<noteq> 0"
  proof
    assume "ip_word p2 1 = 0"
    moreover obtain a b where ab: "be_bytes 2 (word_of_nat (28 + n) :: u16) = [a, b]" by (simp only: be_bytes_2)
    ultimately have "from_le [a, b] = (0 :: u32)" using t by (simp add: ip_word_def del: from_le.simps)
    then have z: "be_bytes 2 (word_of_nat (28 + n) :: u16) = [0, 0]" using ab by (simp only: from_le_zero)
    have "from_be (be_bytes 2 (word_of_nat (28 + n) :: u16)) = (word_of_nat (28 + n) :: u16)" by (rule from_be_be_bytes) simp
    then have "(word_of_nat (28 + n) :: u16) = 0" unfolding z by (simp add: from_be_def)
    then have "unat (word_of_nat (28 + n) :: u16) = 0" by simp
    moreover have "unat (word_of_nat (28 + n) :: u16) = 28 + n" by (rule unat_word_of_nat) (use n(3) in simp)
    ultimately show False by simp
  qed
  then have "0 < header_sum p2" using word_in_sum [of 1] by simp
  moreover have "part 24 2 p2 = [0, 0]" using l by (simp add: p2_def part_write_at)
  ultimately have "calc_ip_csum p3 = 0" using checksum_valid [of p2] l by (simp add: p3_def)
  then have "calc_ip_csum (answer_packet i p e) = 0" using csum_header [OF step [of 14 20]] by simp
  then show "answered_back p (answer_packet i p e)"
    by (simp add: answered_back_def step step' sw same)
qed

definition udp_query :: "bytes \<Rightarrow> bytes \<Rightarrow> bytes \<Rightarrow> u16 \<Rightarrow> u16 \<Rightarrow> bool" where
  "udp_query p hdr q qt qclass \<longleftrightarrow> 42 \<le> length p \<and> part 12 2 p = [8, 0] \<and> p ! 23 = 17 \<and> part 36 2 p = [0, 53]
     \<and> length hdr = 12 \<and> from_be (part 2 2 hdr) AND 0x8000 = (0 :: u16)
     \<and> (\<exists>rest. drop 42 p = hdr @ q @ be_bytes 2 qt @ be_bytes 2 qclass @ rest)"

lemma cache_lookup_hit:
  assumes q: "udp_query p hdr q qt qclass" "plain_name q" "foldl djb2_byte 5381 q \<noteq> 0"
    and e: "km_cache m (bpf_qhash q qt qclass) = Some e" "now \<le> xe_expire_ns e" "xe_rcode e = 0" "xe_len e \<noteq> 0" "xe_len e \<le> 768"
  shows "\<exists>m'. cache_lookup now cpu room True p m = (Tx, answer_packet (take 2 hdr) p e, m')"
proof -
  obtain rest where d: "drop 42 p = hdr @ q @ be_bytes 2 qt @ be_bytes 2 qclass @ rest" "length hdr = 12"
    "from_be (part 2 2 hdr) AND 0x8000 = (0 :: u16)" using q(1) by (auto simp: udp_query_def)
  have k: "parse_dns_qname_hash (drop 42 p) = Some (foldl djb2_byte 5381 q, be_bytes 2 qt @ be_bytes 2 qclass @ rest)"
    using kernel_key [OF q(2) d(2)] q(3) by (simp only: parse_dns_qname_hash_def d(1)) simp
  have m: "take 4 (be_bytes 2 qt @ be_bytes 2 qclass @ rest) = be_bytes 2 qt @ be_bytes 2 qclass" by simp
  have h: "foldl djb2_hash_byte (foldl djb2_byte 5381 q) (be_bytes 2 qt @ be_bytes 2 qclass) = bpf_qhash q qt qclass"
    by (simp add: djb2_hash_byte_eq bpf_qhash_def djb2_hash_bytes_def djb2_incremental_foldl)
  have parts: "part 0 2 (drop 42 p) = take 2 hdr" "part 2 2 (drop 42 p) = part 2 2 hdr" "12 \<le> length (drop 42 p)"
    using d(2) by (simp_all add: d(1) part_def)
  show ?thesis
    unfolding cache_lookup_def Let_def k m h option.case prod.case parts
    using parts(3) d(3) e by (simp add: not_less)
qed


definition sample_packet :: bytes where
  "sample_packet = [2, 2, 2, 2, 2, 2, 1, 1, 1, 1, 1, 1, 8, 0] @ [0x45, 0, 0, 47, 0, 0, 0, 0, 64, 17, 0, 0, 10, 0, 0, 9, 10, 0, 0, 1]
     @ [0x30, 0x39, 0, 53, 0, 27, 0, 0] @ [0x12, 0x34, 1, 0, 0, 1, 0, 0, 0, 0, 0, 0] @ [1, 0x41, 0] @ [0, 1] @ [0, 1]"

lemma sample_packet_query: "udp_query sample_packet [0x12, 0x34, 1, 0, 0, 1, 0, 0, 0, 0, 0, 0] [1, 0x41, 0] 1 1"
proof -
  have "from_be (part 2 2 [0x12, 0x34, 1, 0, 0, 1, 0, 0, 0, 0, 0, 0]) AND 0x8000 = (0 :: u16)" "be_bytes 2 (1 :: u16) = [0, 1]"
    by code_simp+
  then show ?thesis by (simp add: udp_query_def sample_packet_def part_def)
qed


section \<open>What else the program does\<close>

text \<open>A packet that is passed on is not changed.\<close>

lemma passed_unchanged: "titan_dns_filter now cpu room resized p m = (Pass, p', m') \<Longrightarrow> p' = p"
  by (auto simp: titan_dns_filter_def cache_lookup_def reflect_def Let_def split: if_splits option.splits prod.splits)

lemma reflect_answers:
  assumes "54 \<le> length p" "p ! 23 = 17"
  shows "\<exists>r. reflect p = (Tx, r) \<and> answered_back p r \<and> length r = length p \<and> drop 42 r = take 2 (drop 42 p) @ [0x81, 0x05] @ drop 46 p"
proof -
  have p: "42 \<le> length p" using assms(1) by simp
  define p1 where "p1 = swap_udp (swap_ipv4 (swap_ethernet p))"
  define p2 where "p2 = write_at 24 (le_bytes 2 (calc_ip_csum p1)) p1"
  note sw = swapped [OF p, folded p1_def]
  have l: "length p1 = length p" "length p2 = length p" using sw(1) p by (simp_all add: p2_def)
  have r: "reflect p = (Tx, write_at 44 [0x81, 0x05] p2)"
    using assms by (simp add: reflect_def Let_def p1_def p2_def)
  have "part 22 2 p = [p ! 22, 17]"
    using assms p by (simp add: part_def take_2_nth nth_drop)
  then have "ip_word p1 4 \<noteq> 0" using sw(9) by (simp add: ip_word_def from_le_zero del: from_le.simps)
  then have "calc_ip_csum p2 = 0" using checksum_valid [of p1] word_in_sum [of 4 p1] sw(8) l p by (simp add: p2_def)
  moreover have step: "part k n (write_at 44 [0x81, 0x05] p2) = part k n p2" if "k + n \<le> 44" for k n
    using that l assms(1) by (simp add: part_write_at)
  moreover have "part k n p2 = part k n p1" if "k + n \<le> 24 \<or> 26 \<le> k" for k n
    using that l p by (auto simp: p2_def part_write_at)
  ultimately have "answered_back p (write_at 44 [0x81, 0x05] p2)"
    using csum_header [OF step [of 14 20]] by (simp add: answered_back_def sw)
  moreover have "drop 42 p2 = drop 42 p" using sw(10) l p by (simp add: p2_def drop_write_at)
  then have "drop 42 (write_at 44 [0x81, 0x05] p2) = take 2 (drop 42 p) @ [0x81, 0x05] @ drop 46 p"
    using l assms(1) drop_drop [of 4 42 p2] drop_drop [of 4 42 p] by (simp add: write_at_def min_def drop_take)
  ultimately show ?thesis using r l assms(1) by simp
qed

text \<open>The blacklist is filled with addresses in the order of the host and read with the order of the network: the address that is blocked is
  the reverse of the one that is configured.\<close>

lemma blacklist_reversed:
  assumes "insert_rules (\<lambda>_. Some (from_be addr)) (\<lambda>_. True) [(ip, ''drop'')] (maps_new cpus) = (Inr (), m)"
    and "length addr = 4" "34 \<le> length p" "part 12 2 p = [8, 0]"
  shows "part 26 4 p = rev addr \<Longrightarrow> titan_dns_filter now cpu room resized p m = (Drop, p, m)"
    and "part 26 4 p = addr \<Longrightarrow> rev addr \<noteq> addr \<Longrightarrow> km_blacklist m (from_le (part 26 4 p)) = None"
proof -
  have n: "to_lower ''drop'' \<noteq> ''refuse''"
  proof
    assume "to_lower ''drop'' = ''refuse''"
    then have "length (to_lower ''drop'') = length ''refuse''" by (simp only:)
    then show False by simp
  qed
  have m: "km_blacklist m = [from_le (rev addr) \<mapsto> 1]"
    using assms(1) n by (auto simp: maps_new_def from_be_def Let_def)
  show "part 26 4 p = rev addr \<Longrightarrow> titan_dns_filter now cpu room resized p m = (Drop, p, m)"
    using assms(3,4) by (simp add: titan_dns_filter_def m)
  assume "part 26 4 p = addr" "rev addr \<noteq> addr"
  moreover from this have "(from_le addr :: u32) \<noteq> from_le (rev addr)"
    using le_bytes_from_le [of addr, where 'a = 32] le_bytes_from_le [of "rev addr", where 'a = 32] assms(2) by auto
  ultimately show "km_blacklist m (from_le (part 26 4 p)) = None" by (simp add: m)
qed

text \<open>The event after the tenth is taken from the ring and not passed on.\<close>

lemma event_lost:
  assumes "length ring = 10" "\<And>item. item \<in> set ring \<Longrightarrow> length item = 16"
  shows "poll_refresh_events (Some (m\<lparr>km_ring := ring @ lost # rest\<rparr>)) = (map (\<lambda>item. from_le (take 8 item)) ring, Some (m\<lparr>km_ring := rest\<rparr>))"
proof -
  have "poll_ring k (xs @ lost # rest) = (map (\<lambda>item. from_le (take 8 item)) xs, rest)"
    if "\<forall>item \<in> set xs. length item = 16" "k + length xs = 10" for k xs
    using that by (induction xs arbitrary: k) (auto simp: max_events_per_poll_def)
  from this [of ring 0] assms show ?thesis by (simp add: poll_refresh_events_def)
qed

text \<open>The counter that is shown as misses is never written.\<close>

lemma other_counter: "k \<noteq> 3 \<Longrightarrow> km_stats (count_stat cpu k m) 3 = km_stats m 3"
  by (simp add: count_stat_def split: option.split)

lemma notify_counter: "km_stats (notify_refresh now cpu room qhash e m) 3 = km_stats m 3"
  by (simp add: notify_refresh_def Let_def other_counter)

lemma no_misses: "km_stats (snd (snd (titan_dns_filter now cpu room resized p m))) 3 = km_stats m 3"
proof -
  have "km_stats (snd (snd (cache_lookup now cpu room resized p m))) 3 = km_stats m 3"
    by (simp add: cache_lookup_def Let_def other_counter notify_counter split: option.split)
  then show ?thesis by (simp add: titan_dns_filter_def Let_def split_beta)
qed

end
