(* ===== verification/Upstream_Setup.thy ===== *)
theory Upstream_Setup
  imports Upstreams
begin

text \<open>
  What \<open>src/plugins/forward.rs\<close> does around an exchange: the HTTP client of a DoH upstream, which is built on its first
  query; the variants of the exchanges that encode the message first; the warm-up of connections.
\<close>

section \<open>The client of a DoH upstream\<close>

text \<open>What the client is built with; \<open>dc_resolve\<close> is a host with the address that is used for it instead of DNS.\<close>

record doh_client =
  dc_pool_idle_timeout :: nat
  dc_pool_max_idle_per_host :: nat
  dc_timeout :: nat
  dc_user_agent :: string
  dc_proxy :: "string option"
  dc_resolve :: "(string \<times> ip_addr \<times> u16) option"

text \<open>\<open>parse_url\<close> gives the host and the port of a URL, as far as they are there; \<open>proxy_ok\<close> is whether the HTTP library takes
  the URL of a proxy.\<close>

definition proxy_url :: "string \<Rightarrow> string" where
  "proxy_url socks5_addr = (if contains_str socks5_addr ''://'' then socks5_addr else ''socks5://'' @ socks5_addr)"

definition build_doh_client ::
  "dns_lib \<Rightarrow> (string \<Rightarrow> (string option \<times> u16 option) option) \<Rightarrow> (string \<Rightarrow> bool) \<Rightarrow> doh_upstream \<Rightarrow> doh_client" where
  "build_doh_client L parse_url proxy_ok u =
     \<lparr>dc_pool_idle_timeout = dh_pool_idle_timeout u, dc_pool_max_idle_per_host = dh_pool_max_idle u, dc_timeout = dh_timeout u,
      dc_user_agent = ''TitanDNS/7.3.9'',
      dc_proxy =
        (case dh_socks5 u of
           Some socks5_addr \<Rightarrow> if proxy_ok (proxy_url socks5_addr) then Some (proxy_url socks5_addr) else None
         | None \<Rightarrow> None),
      dc_resolve =
        (case Option.bind (dh_dial_addr u) (lib_parse_ip L) of
           Some ip \<Rightarrow>
             (case parse_url (dh_url u) of
                Some (Some host, p) \<Rightarrow> Some (host, ip, case p of Some port \<Rightarrow> port | None \<Rightarrow> 443)
              | _ \<Rightarrow> None)
         | None \<Rightarrow> None)\<rparr>"

text \<open>The client is built once and kept; the first query builds it.\<close>

definition get_or_init :: "'c \<Rightarrow> 'c option \<Rightarrow> 'c \<times> 'c option" where
  "get_or_init new_client cell = (case cell of Some c \<Rightarrow> (c, cell) | None \<Rightarrow> (new_client, Some new_client))"

text \<open>\<open>http\<close> is what a POST with a content type and a body comes back with.\<close>

definition raw_doh_bytes ::
  "dns_lib \<Rightarrow> (doh_client \<Rightarrow> string \<Rightarrow> string \<Rightarrow> bytes \<Rightarrow> bytes option) \<Rightarrow> doh_client \<Rightarrow> string \<Rightarrow> doh_client option \<Rightarrow> bytes
     \<Rightarrow> message result \<times> doh_client option" where
  "raw_doh_bytes L http new_client url cell req_bytes =
     (let (client, cell) = get_or_init new_client cell in
      (case http client url ''application/dns-message'' req_bytes of
         None \<Rightarrow> Inl (Error ''http'')
       | Some resp_bytes \<Rightarrow> parse_message L resp_bytes, cell))"

section \<open>Exchanges of a message\<close>

definition encoded :: "dns_lib \<Rightarrow> message \<Rightarrow> (bytes \<Rightarrow> message result) \<Rightarrow> message result" where
  "encoded L req send =
     (case lib_to_vec L req of None \<Rightarrow> Inl (Error ''encode'') | Some req_bytes \<Rightarrow> send req_bytes)"

text \<open>\<open>E\<close> is what the network does when these bytes are sent.\<close>

definition raw_udp :: "dns_lib \<Rightarrow> (bytes \<Rightarrow> udp_env) \<Rightarrow> upstream \<Rightarrow> message \<Rightarrow> message result" where
  "raw_udp L E u req =
     encoded L req (\<lambda>req_bytes.
       let (max_retries, tcp_connect_timeout, tcp_read_timeout) =
             (case u of Udp d \<Rightarrow> (ud_max_retries d, ud_connect_timeout d, ud_read_timeout d) | _ \<Rightarrow> (1, None, None))
       in raw_udp_bytes L (E req_bytes) max_retries tcp_connect_timeout tcp_read_timeout)"

definition raw_tcp :: "dns_lib \<Rightarrow> (bytes \<Rightarrow> tcp_env) \<Rightarrow> nat option \<Rightarrow> nat option \<Rightarrow> message \<Rightarrow> message result" where
  "raw_tcp L E connect_timeout read_timeout req =
     encoded L req (\<lambda>req_bytes. raw_tcp_bytes L (E req_bytes) connect_timeout read_timeout)"

definition raw_doh ::
  "dns_lib \<Rightarrow> (doh_client \<Rightarrow> string \<Rightarrow> string \<Rightarrow> bytes \<Rightarrow> bytes option) \<Rightarrow> doh_client \<Rightarrow> string \<Rightarrow> doh_client option \<Rightarrow> message
     \<Rightarrow> message result \<times> doh_client option" where
  "raw_doh L http new_client url cell req =
     (case lib_to_vec L req of
        None \<Rightarrow> (Inl (Error ''encode''), cell)
      | Some req_bytes \<Rightarrow> raw_doh_bytes L http new_client url cell req_bytes)"

definition raw_dot_pooled :: "dns_lib \<Rightarrow> (bytes \<Rightarrow> stream_env) \<Rightarrow> message \<Rightarrow> message result" where
  "raw_dot_pooled L E req = encoded L req (\<lambda>req_bytes. raw_stream_bytes L (E req_bytes))"

definition raw_doq :: "dns_lib \<Rightarrow> (bytes \<Rightarrow> stream_env) \<Rightarrow> (bytes \<Rightarrow> tunnel_env) \<Rightarrow> doq_upstream \<Rightarrow> message \<Rightarrow> message result" where
  "raw_doq L E T u req =
     encoded L req (\<lambda>req_bytes.
       case dq_socks5 u of
         Some proxy \<Rightarrow> raw_doq_via_socks5_bytes L (T req_bytes) (dq_socks5_timeout u)
       | None \<Rightarrow> raw_stream_bytes L (E req_bytes))"

definition raw_doq_via_socks5 :: "dns_lib \<Rightarrow> (bytes \<Rightarrow> tunnel_env) \<Rightarrow> nat \<Rightarrow> message \<Rightarrow> message result" where
  "raw_doq_via_socks5 L T socks5_timeout req =
     encoded L req (\<lambda>req_bytes. raw_doq_via_socks5_bytes L (T req_bytes) socks5_timeout)"

definition create_doq_connection :: "bool \<Rightarrow> bool \<Rightarrow> 'c \<Rightarrow> 'c result" where
  "create_doq_connection started connected connection =
     (if \<not> started then Inl (Error ''Failed to initiate QUIC connection'')
      else if \<not> connected then Inl (Error ''QUIC connection failed'')
      else Inr connection)"

section \<open>Warm-up\<close>

definition needs_warmup :: "upstream \<Rightarrow> bool" where
  "needs_warmup u = (case u of Doh _ \<Rightarrow> True | Dot _ \<Rightarrow> True | _ \<Rightarrow> False)"

text \<open>The query of the warm-up, and the exchanges that it starts, each under three seconds; their results are dropped.\<close>

definition warmup_query :: "dns_lib \<Rightarrow> message" where
  "warmup_query L =
     add_query \<lparr>q_name = ''localhost'', q_type = 1, q_class = 1\<rparr>
       ((lib_new L)\<lparr>m_id := 0xCAFE, m_type := QueryMsg, m_opcode := OpQuery, m_rd := True\<rparr>)"

definition warmup :: "dns_lib \<Rightarrow> upstream list \<Rightarrow> (upstream \<times> message \<times> nat) list" where
  "warmup L us = map (\<lambda>u. (u, warmup_query L, from_secs 3)) (filter needs_warmup us)"

section \<open>What they promise\<close>

text \<open>Encoding first changes nothing else: an exchange of a message is the exchange of its bytes.\<close>

lemma raw_udp_is_exchange:
  "lib_to_vec L req = Some bs \<Longrightarrow> xe_udp X = E bs \<Longrightarrow> raw_udp L E (Udp d) req = exchange_result L X (Udp d)"
  by (simp add: raw_udp_def encoded_def)

lemma raw_doq_is_exchange:
  "lib_to_vec L req = Some bs \<Longrightarrow> xe_doq X = E bs \<Longrightarrow> xe_tunnel X = T bs \<Longrightarrow> raw_doq L E T u req = exchange_result L X (Doq u)"
  by (simp add: raw_doq_def encoded_def split: option.split)

text \<open>A client is built by the first query and the same for all later ones.\<close>

lemma client_built_once:
  assumes "raw_doh_bytes L http new_client url cell req = (r, cell')"
  shows "cell' = Some (case cell of Some c \<Rightarrow> c | None \<Rightarrow> new_client)"
    and "raw_doh_bytes L http other url cell' req = (r, cell')"
  using assms by (auto simp: raw_doh_bytes_def get_or_init_def split: option.splits)

text \<open>The address of the host is fixed exactly when \<open>dial_addr\<close> is an address; the port is that of the URL.\<close>

lemma client_bootstraps:
  assumes "parse_url (dh_url u) = Some (Some host, p)"
  shows "dc_resolve (build_doh_client L parse_url proxy_ok u)
    = map_option (\<lambda>ip. (host, ip, case p of Some port \<Rightarrow> port | None \<Rightarrow> 443)) (Option.bind (dh_dial_addr u) (lib_parse_ip L))"
  using assms by (simp add: build_doh_client_def split: option.split)

text \<open>A proxy that the HTTP library refuses is left out without an error: the queries go out directly.\<close>

lemma refused_proxy_bypassed:
  "dh_socks5 u = Some s \<Longrightarrow> \<not> proxy_ok (proxy_url s) \<Longrightarrow> dc_proxy (build_doh_client L parse_url proxy_ok u) = None"
  by (simp add: build_doh_client_def)

end
