(* ===== verification/Metrics.thy ===== *)
theory Metrics
  imports Rust_Text Complex_Main
begin

text \<open>
  The counters for Prometheus (\<open>src/core/metrics.rs\<close>): events are sampled, counted in cells of their thread and
  added to the global counters in batches.  The aligned counters (\<open>src/core/aligned.rs\<close>) and the two health trackers
  (\<open>src/core/health.rs\<close>, \<open>src/health.rs\<close>).
\<close>

section \<open>Sampling\<close>

definition sample_bps_max :: u32 where "sample_bps_max = 10000"
definition default_sample_bps :: u32 where "default_sample_bps = 1000"

text \<open>\<open>parse\<close> reads a trimmed number; the arguments are the two variables of the environment.\<close>

definition metrics_sample_bps :: "(string \<Rightarrow> u32 option) \<Rightarrow> string option \<Rightarrow> string option \<Rightarrow> u32" where
  "metrics_sample_bps parse bps_var pct_var =
     (case Option.bind bps_var parse of
        Some bps \<Rightarrow> if sample_bps_max < bps then sample_bps_max else bps
      | None \<Rightarrow>
          (case Option.bind pct_var parse of
             Some pct \<Rightarrow> (if 100 < pct then 100 else pct) * 100
           | None \<Rightarrow> default_sample_bps))"

definition seed_fast_rng :: "u64 \<Rightarrow> u64" where
  "seed_fast_rng nanos = nanos XOR 0x9e3779b97f4a7c15"

definition next_u32 :: "u64 \<Rightarrow> u32 \<times> u64" where
  "next_u32 x = (let x = x * 6364136223846793005 + 1 in (ucast (drop_bit 32 x), x))"

definition should_sample :: "u32 \<Rightarrow> u64 \<Rightarrow> bool \<times> u64" where
  "should_sample bps rng =
     (if sample_bps_max \<le> bps then (True, rng)
      else if bps = 0 then (False, rng)
      else let (n, rng) = next_u32 rng in (n mod sample_bps_max < bps, rng))"

section \<open>Counting\<close>

text \<open>A cell of a thread for each of the counters that are batched.\<close>

datatype lane = Query_Udp | Query_Tcp | Query_Dot | Query_Doh | Query_Doq | Cache_Hit | Cache_Miss

definition lanes :: "lane list" where
  "lanes = [Query_Udp, Query_Tcp, Query_Dot, Query_Doh, Query_Doq, Cache_Hit, Cache_Miss]"

record local_agg =
  la_last_flush_ms :: u64
  la_tick :: u32
  la_cells :: "lane \<Rightarrow> u64"

definition agg_new :: "u64 \<Rightarrow> local_agg" where
  "agg_new now_ms = \<lparr>la_last_flush_ms = now_ms, la_tick = 0, la_cells = (\<lambda>l. 0)\<rparr>"

record prom_registry =
  mr_query :: "string \<Rightarrow> nat"
  mr_hits :: nat
  mr_misses :: nat
  mr_requests :: "string \<Rightarrow> nat"
  mr_errors :: "string \<times> string \<Rightarrow> nat"
  mr_latency :: "string \<Rightarrow> real list"
  mr_rules :: "string \<times> string \<Rightarrow> nat"

definition registry_new :: prom_registry where
  "registry_new = \<lparr>mr_query = (\<lambda>p. 0), mr_hits = 0, mr_misses = 0, mr_requests = (\<lambda>u. 0), mr_errors = (\<lambda>u. 0),
     mr_latency = (\<lambda>u. []), mr_rules = (\<lambda>u. 0)\<rparr>"

definition add_protocol :: "string \<Rightarrow> nat \<Rightarrow> prom_registry \<Rightarrow> prom_registry" where
  "add_protocol protocol n r = r\<lparr>mr_query := (mr_query r)(protocol := mr_query r protocol + n)\<rparr>"

fun add_lane :: "lane \<Rightarrow> nat \<Rightarrow> prom_registry \<Rightarrow> prom_registry" where
  "add_lane Query_Udp n r = add_protocol ''udp'' n r"
| "add_lane Query_Tcp n r = add_protocol ''tcp'' n r"
| "add_lane Query_Dot n r = add_protocol ''dot'' n r"
| "add_lane Query_Doh n r = add_protocol ''doh'' n r"
| "add_lane Query_Doq n r = add_protocol ''doq'' n r"
| "add_lane Cache_Hit n r = r\<lparr>mr_hits := mr_hits r + n\<rparr>"
| "add_lane Cache_Miss n r = r\<lparr>mr_misses := mr_misses r + n\<rparr>"

definition agg_pending :: "local_agg \<Rightarrow> u64" where
  "agg_pending a = sum_list (map (la_cells a) lanes)"

definition flush_lane :: "lane \<Rightarrow> local_agg \<times> prom_registry \<Rightarrow> local_agg \<times> prom_registry" where
  "flush_lane l s =
     (let (a, r) = s; q = la_cells a l in
      if 0 < q then (a\<lparr>la_cells := (la_cells a)(l := 0)\<rparr>, add_lane l (unat q) r) else (a, r))"

definition agg_flush :: "u64 \<Rightarrow> local_agg \<times> prom_registry \<Rightarrow> local_agg \<times> prom_registry" where
  "agg_flush now s = apfst (\<lambda>a. a\<lparr>la_last_flush_ms := now\<rparr>) (fold flush_lane lanes s)"

definition maybe_flush :: "u64 \<Rightarrow> local_agg \<times> prom_registry \<Rightarrow> local_agg \<times> prom_registry" where
  "maybe_flush now_ms s =
     (if 256 \<le> agg_pending (fst s) then agg_flush now_ms s
      else let t = la_tick (fst s) + 1; s = apfst (\<lambda>a. a\<lparr>la_tick := t\<rparr>) s in
        if t AND 0x3F = 0 \<and> 1000 \<le> sat_sub now_ms (la_last_flush_ms (fst s)) then agg_flush now_ms s else s)"

definition bump_lane :: "lane \<Rightarrow> local_agg \<Rightarrow> local_agg" where
  "bump_lane l a = a\<lparr>la_cells := (la_cells a)(l := la_cells a l + 1)\<rparr>"

definition lane_of :: "string \<Rightarrow> lane option" where
  "lane_of = map_of [(''udp'', Query_Udp), (''tcp'', Query_Tcp), (''dot'', Query_Dot), (''doh'', Query_Doh), (''doq'', Query_Doq)]"

definition agg_inc_query :: "u64 \<Rightarrow> string \<Rightarrow> local_agg \<times> prom_registry \<Rightarrow> local_agg \<times> prom_registry" where
  "agg_inc_query now_ms protocol s =
     (case lane_of protocol of
        Some l \<Rightarrow> maybe_flush now_ms (apfst (bump_lane l) s)
      | None \<Rightarrow> apsnd (add_protocol protocol 1) s)"

datatype metric_event =
  Inc_Query string | Inc_Cache_Hit | Inc_Cache_Miss | Inc_Upstream_Request string | Inc_Upstream_Error string string
| Observe_Latency string real | Inc_Rule_Matched string string

definition count_event :: "u64 \<Rightarrow> metric_event \<Rightarrow> local_agg \<times> prom_registry \<Rightarrow> local_agg \<times> prom_registry" where
  "count_event now_ms e s =
     (case e of
        Inc_Query protocol \<Rightarrow> agg_inc_query now_ms protocol s
      | Inc_Cache_Hit \<Rightarrow> maybe_flush now_ms (apfst (bump_lane Cache_Hit) s)
      | Inc_Cache_Miss \<Rightarrow> maybe_flush now_ms (apfst (bump_lane Cache_Miss) s)
      | Inc_Upstream_Request u \<Rightarrow> apsnd (\<lambda>r. r\<lparr>mr_requests := (mr_requests r)(u := mr_requests r u + 1)\<rparr>) s
      | Inc_Upstream_Error u reason \<Rightarrow> apsnd (\<lambda>r. r\<lparr>mr_errors := (mr_errors r)((u, reason) := mr_errors r (u, reason) + 1)\<rparr>) s
      | Observe_Latency u x \<Rightarrow> apsnd (\<lambda>r. r\<lparr>mr_latency := (mr_latency r)(u := mr_latency r u @ [x])\<rparr>) s
      | Inc_Rule_Matched p tag \<Rightarrow> apsnd (\<lambda>r. r\<lparr>mr_rules := (mr_rules r)((p, tag) := mr_rules r (p, tag) + 1)\<rparr>) s)"

text \<open>The threads with their generators and cells, and the shared counters; \<open>ms_sampled\<close> records the events that were sampled.\<close>

record metrics_state =
  ms_threads :: "(u64 \<times> local_agg) list"
  ms_reg :: prom_registry
  ms_sampled :: "metric_event list"

definition metrics_event :: "u32 \<Rightarrow> u64 \<Rightarrow> nat \<Rightarrow> metric_event \<Rightarrow> metrics_state \<Rightarrow> metrics_state" where
  "metrics_event bps now_ms i e s =
     (if i < length (ms_threads s) then
        let (rng, a) = ms_threads s ! i; (sampled, rng) = should_sample bps rng in
        if sampled then
          let (a, r) = count_event now_ms e (a, ms_reg s)
          in s\<lparr>ms_threads := (ms_threads s)[i := (rng, a)], ms_reg := r, ms_sampled := ms_sampled s @ [e]\<rparr>
        else s\<lparr>ms_threads := (ms_threads s)[i := (rng, a)]\<rparr>
      else s)"

definition metrics_new :: "u64 \<Rightarrow> u64 list \<Rightarrow> metrics_state" where
  "metrics_new now_ms seeds =
     \<lparr>ms_threads = map (\<lambda>nanos. (seed_fast_rng nanos, agg_new now_ms)) seeds, ms_reg = registry_new, ms_sampled = []\<rparr>"

inductive metrics_run :: "u32 \<Rightarrow> metrics_state \<Rightarrow> bool" for bps where
  Begin: "metrics_run bps (metrics_new now_ms seeds)"
| Event: "metrics_run bps s \<Longrightarrow> metrics_run bps (metrics_event bps now_ms i e s)"

section \<open>No sampled event is lost\<close>

fun lane_count :: "lane \<Rightarrow> prom_registry \<Rightarrow> nat" where
  "lane_count Query_Udp r = mr_query r ''udp''"
| "lane_count Query_Tcp r = mr_query r ''tcp''"
| "lane_count Query_Dot r = mr_query r ''dot''"
| "lane_count Query_Doh r = mr_query r ''doh''"
| "lane_count Query_Doq r = mr_query r ''doq''"
| "lane_count Cache_Hit r = mr_hits r"
| "lane_count Cache_Miss r = mr_misses r"

definition event_lane :: "metric_event \<Rightarrow> lane option" where
  "event_lane e = (case e of Inc_Query p \<Rightarrow> lane_of p | Inc_Cache_Hit \<Rightarrow> Some Cache_Hit | Inc_Cache_Miss \<Rightarrow> Some Cache_Miss | _ \<Rightarrow> None)"

definition held_in :: "lane \<Rightarrow> local_agg \<Rightarrow> nat" where
  "held_in l a = unat (la_cells a l)"

definition held :: "local_agg \<Rightarrow> nat" where
  "held a = (\<Sum>l\<leftarrow>lanes. held_in l a)"

lemma lane_count_add: "lane_count l (add_lane k n r) = lane_count l r + (if l = k then n else 0)"
  by (cases l; cases k) (simp_all add: add_protocol_def)

lemma flush_lane_keeps:
  "lane_count l (snd (flush_lane k s)) + held_in l (fst (flush_lane k s)) = lane_count l (snd s) + held_in l (fst s)"
  by (cases s) (simp add: flush_lane_def Let_def lane_count_add held_in_def)

lemma flush_lane_cells: "la_cells (fst (flush_lane k s)) l = (if l = k then 0 else la_cells (fst s) l)"
  by (cases s) (auto simp: flush_lane_def Let_def word_gt_0)

lemma fold_flush:
  "lane_count l (snd (fold flush_lane ls s)) + held_in l (fst (fold flush_lane ls s)) = lane_count l (snd s) + held_in l (fst s)"
  "la_cells (fst (fold flush_lane ls s)) l = (if l \<in> set ls then 0 else la_cells (fst s) l)"
  by (induction ls arbitrary: s) (simp_all add: flush_lane_keeps flush_lane_cells)

lemma lanes_all: "set lanes = UNIV"
proof -
  have "l \<in> set lanes" for l by (cases l) (simp_all add: lanes_def)
  then show ?thesis by auto
qed

lemma agg_flush_keeps:
  "lane_count l (snd (agg_flush now s)) + held_in l (fst (agg_flush now s)) = lane_count l (snd s) + held_in l (fst s)"
  using fold_flush(1) [of l lanes s] by (simp add: agg_flush_def held_in_def)

lemma agg_flush_empties: "held (fst (agg_flush now s)) = 0"
  using fold_flush(2) [of lanes s] lanes_all by (simp add: agg_flush_def held_def held_in_def)

lemma unat_sum_list:
  "(\<Sum>x\<leftarrow>xs. unat x) < 18446744073709551616 \<Longrightarrow> unat (sum_list xs :: u64) = (\<Sum>x\<leftarrow>xs. unat x)"
proof (induction xs)
  case (Cons x xs)
  then have "unat (sum_list xs) = (\<Sum>x\<leftarrow>xs. unat x)" by simp
  with Cons.prems show ?case by (simp add: unat_plus_if_size word_size)
qed simp

lemma pending_held:
  assumes "held a < 1000"
  shows "unat (agg_pending a) = held a"
proof -
  have "held a = (\<Sum>x\<leftarrow>map (la_cells a) lanes. unat x)" by (simp add: held_def held_in_def o_def)
  with assms show ?thesis by (simp add: agg_pending_def unat_sum_list)
qed

lemma held_bump:
  assumes "held a < 256"
  shows "held_in l (bump_lane k a) = held_in l a + (if l = k then 1 else 0)" "held (bump_lane k a) = held a + 1"
proof -
  have "held_in k a \<le> held a"
    unfolding held_def by (rule member_le_sum_list) (use lanes_all in auto)
  then have "unat (la_cells a k + 1) = unat (la_cells a k) + 1"
    using assms by (simp add: held_in_def unat_plus_if_size word_size)
  then have b: "held_in l (bump_lane k a) = held_in l a + (if l = k then 1 else 0)" for l
    by (simp add: held_in_def bump_lane_def)
  then show "held_in l (bump_lane k a) = held_in l a + (if l = k then 1 else 0)" .
  have "(\<Sum>l\<leftarrow>lanes. if l = k then 1 else 0) = (1 :: nat)" by (cases k) (simp_all add: lanes_def)
  then show "held (bump_lane k a) = held a + 1" by (simp add: held_def b sum_list_addf)
qed

lemma tick_held: "held (a\<lparr>la_tick := t\<rparr>) = held a" "held_in l (a\<lparr>la_tick := t\<rparr>) = held_in l a"
  by (simp_all add: held_def held_in_def)

lemma maybe_flush_keeps:
  assumes "held (fst s) \<le> 256"
  shows "lane_count l (snd (maybe_flush now s)) + held_in l (fst (maybe_flush now s)) = lane_count l (snd s) + held_in l (fst s)"
    "held (fst (maybe_flush now s)) < 256"
proof -
  have p: "256 \<le> agg_pending (fst s) \<longleftrightarrow> 256 \<le> held (fst s)"
    using pending_held [of "fst s"] assms by (simp add: word_le_nat_alt)
  show "lane_count l (snd (maybe_flush now s)) + held_in l (fst (maybe_flush now s)) = lane_count l (snd s) + held_in l (fst s)"
    by (simp add: maybe_flush_def Let_def agg_flush_keeps tick_held)
  show "held (fst (maybe_flush now s)) < 256"
    using assms by (simp add: maybe_flush_def Let_def p agg_flush_empties tick_held not_le)
qed

lemma lane_of_other: "lane_of p = None \<Longrightarrow> lane_count l (add_protocol p n r) = lane_count l r"
  by (cases l) (auto simp: lane_of_def add_protocol_def split: if_splits)

lemma count_event_keeps:
  assumes "held a < 256"
  shows "lane_count l (snd (count_event now e (a, r))) + held_in l (fst (count_event now e (a, r)))
      = lane_count l r + held_in l a + (if event_lane e = Some l then 1 else 0)"
    "held (fst (count_event now e (a, r))) < 256"
proof -
  have k: "lane_count l (snd (maybe_flush now (bump_lane k a, r))) + held_in l (fst (maybe_flush now (bump_lane k a, r)))
      = lane_count l r + held_in l a + (if k = l then 1 else 0)" "held (fst (maybe_flush now (bump_lane k a, r))) < 256" for k
    using maybe_flush_keeps [of "(bump_lane k a, r)"] held_bump [OF assms] assms by simp_all
  have o: "lane_count l (r\<lparr>mr_requests := x\<rparr>) = lane_count l r" "lane_count l (r\<lparr>mr_errors := y\<rparr>) = lane_count l r"
    "lane_count l (r\<lparr>mr_latency := z\<rparr>) = lane_count l r" "lane_count l (r\<lparr>mr_rules := y\<rparr>) = lane_count l r" for x y z
    by (cases l; simp)+
  show "lane_count l (snd (count_event now e (a, r))) + held_in l (fst (count_event now e (a, r)))
      = lane_count l r + held_in l a + (if event_lane e = Some l then 1 else 0)"
    "held (fst (count_event now e (a, r))) < 256"
    using assms by (cases e; simp add: count_event_def agg_inc_query_def event_lane_def k o lane_of_other split: option.split)+
qed

definition thread_held :: "lane \<Rightarrow> metrics_state \<Rightarrow> nat" where
  "thread_held l s = (\<Sum>t\<leftarrow>ms_threads s. held_in l (snd t))"

lemma sum_list_put_nat:
  "i < length xs \<Longrightarrow> (\<Sum>x\<leftarrow>xs[i := y]. f x) + f (xs ! i) = (\<Sum>x\<leftarrow>xs. f x) + (f y :: nat)"
  by (induction xs arbitrary: i) (auto split: nat.split)

lemma metrics_inv:
  "metrics_run bps s \<Longrightarrow> (\<forall>l. lane_count l (ms_reg s) + thread_held l s = length (filter (\<lambda>e. event_lane e = Some l) (ms_sampled s)))
     \<and> (\<forall>t \<in> set (ms_threads s). held (snd t) < 256)"
proof (induction rule: metrics_run.induct)
  case (Begin now_ms seeds)
  have "lane_count l registry_new = 0" for l by (cases l) (simp_all add: registry_new_def)
  moreover have "thread_held l (metrics_new now_ms seeds) = 0" for l
    by (simp add: thread_held_def metrics_new_def o_def held_in_def agg_new_def)
  ultimately show ?case by (auto simp: metrics_new_def held_def held_in_def agg_new_def)
next
  case (Event s now_ms i e)
  show ?case
  proof (cases "i < length (ms_threads s)")
    case True
    obtain rng a where t: "ms_threads s ! i = (rng, a)" by fastforce
    obtain sampled rng' where g: "should_sample bps rng = (sampled, rng')" by fastforce
    obtain a' r' where c: "count_event now_ms e (a, ms_reg s) = (a', r')" by fastforce
    have a: "held a < 256" using Event.IH True t by (metis nth_mem snd_conv)
    have k: "lane_count l r' + held_in l a' = lane_count l (ms_reg s) + held_in l a + (if event_lane e = Some l then 1 else 0)" for l
      using count_event_keeps(1) [OF a, of l now_ms e "ms_reg s"] by (simp add: c)
    have a': "held a' < 256" using count_event_keeps(2) [OF a, of now_ms e "ms_reg s"] by (simp add: c)
    have h: "(\<Sum>t\<leftarrow>(ms_threads s)[i := (rng', b)]. held_in l (snd t)) + held_in l a = thread_held l s + held_in l b" for l b
      using sum_list_put_nat [OF True, of "\<lambda>t. held_in l (snd t)" "(rng', b)"] by (simp add: t thread_held_def)
    have m: "metrics_event bps now_ms i e s = (if sampled
        then s\<lparr>ms_threads := (ms_threads s)[i := (rng', a')], ms_reg := r', ms_sampled := ms_sampled s @ [e]\<rparr>
        else s\<lparr>ms_threads := (ms_threads s)[i := (rng', a)]\<rparr>)"
      using True by (simp add: metrics_event_def t g c)
    have all: "\<forall>t \<in> set ((ms_threads s)[i := (rng', b)]). held (snd t) < 256" if "held b < 256" for b
      using Event.IH that set_update_subset_insert [of "ms_threads s" i "(rng', b)"] by auto
    have count: "lane_count l (ms_reg (metrics_event bps now_ms i e s)) + thread_held l (metrics_event bps now_ms i e s)
        = length (filter (\<lambda>e. event_lane e = Some l) (ms_sampled (metrics_event bps now_ms i e s)))" for l
    proof -
      have ih: "lane_count l (ms_reg s) + thread_held l s = length (filter (\<lambda>e. event_lane e = Some l) (ms_sampled s))"
        using Event.IH by simp
      show ?thesis
      proof (cases sampled)
        case True
        with ih k [of l] h [of l a'] show ?thesis by (simp add: m thread_held_def split: if_split_asm)
      next
        case False
        with ih h [of l a] show ?thesis by (simp add: m thread_held_def)
      qed
    qed
    moreover have "\<forall>t \<in> set (ms_threads (metrics_event bps now_ms i e s)). held (snd t) < 256"
      using all [OF a'] all [OF a] by (simp add: m)
    ultimately show ?thesis by blast
  next
    case False
    with Event.IH show ?thesis by (simp add: metrics_event_def)
  qed
qed

text \<open>Every sampled event is in the global counter or still in a cell of its thread, in every interleaving of threads; a thread
  holds back fewer than 256 events.\<close>

lemma metrics_conserved:
  assumes "metrics_run bps s"
  shows "lane_count l (ms_reg s) + thread_held l s = length (filter (\<lambda>e. event_lane e = Some l) (ms_sampled s))"
    and "(rng, a) \<in> set (ms_threads s) \<Longrightarrow> held a < 256"
  using metrics_inv [OF assms] by auto

text \<open>With the rate of the default, an event is counted when the generator says so: the counters show a sample, not all events.\<close>

lemma all_sampled_only_at_max: "fst (should_sample bps rng) \<longleftrightarrow> sample_bps_max \<le> bps \<or> fst (next_u32 rng) mod sample_bps_max < bps"
  by (auto simp: should_sample_def split_beta)

section \<open>Aligned counters\<close>

record aligned_stats =
  as_cache_hits :: u64
  as_cache_misses :: u64
  as_queries_total :: u64
  as_errors :: u64

definition aligned_new :: aligned_stats where
  "aligned_new = \<lparr>as_cache_hits = 0, as_cache_misses = 0, as_queries_total = 0, as_errors = 0\<rparr>"

definition aligned_hit :: "aligned_stats \<Rightarrow> aligned_stats" where
  "aligned_hit s = s\<lparr>as_cache_hits := as_cache_hits s + 1, as_queries_total := as_queries_total s + 1\<rparr>"

definition aligned_miss :: "aligned_stats \<Rightarrow> aligned_stats" where
  "aligned_miss s = s\<lparr>as_cache_misses := as_cache_misses s + 1, as_queries_total := as_queries_total s + 1\<rparr>"

definition aligned_error :: "aligned_stats \<Rightarrow> aligned_stats" where
  "aligned_error s = s\<lparr>as_errors := as_errors s + 1\<rparr>"

definition aligned_hit_rate :: "aligned_stats \<Rightarrow> real" where
  "aligned_hit_rate s = (if 0 < as_queries_total s then real (unat (as_cache_hits s)) / real (unat (as_queries_total s)) else 0)"

text \<open>Hits and misses add up to the queries.\<close>

lemma aligned_total:
  "set fs \<subseteq> {aligned_hit, aligned_miss, aligned_error} \<Longrightarrow> as_cache_hits s + as_cache_misses s = as_queries_total s
     \<Longrightarrow> as_cache_hits (fold id fs s) + as_cache_misses (fold id fs s) = as_queries_total (fold id fs s)"
proof (induction fs arbitrary: s)
  case (Cons f fs)
  have "as_cache_hits (f s) + as_cache_misses (f s) = as_queries_total (f s)"
    using Cons.prems by (auto simp: aligned_hit_def aligned_miss_def aligned_error_def algebra_simps)
  with Cons show ?case by simp
qed simp

section \<open>Health of an upstream\<close>

text \<open>The tracker of \<open>core/health.rs\<close>; times in microseconds, rates as reals.\<close>

record upstream_health =
  uh_queries :: u64
  uh_successes :: u64
  uh_failures :: u64
  uh_avg_response_time_us :: u64
  uh_last_success :: "nat option"

definition uh_new :: upstream_health where
  "uh_new = \<lparr>uh_queries = 0, uh_successes = 0, uh_failures = 0, uh_avg_response_time_us = 0, uh_last_success = None\<rparr>"

definition uh_record_success :: "nat \<Rightarrow> u64 \<Rightarrow> upstream_health \<Rightarrow> upstream_health" where
  "uh_record_success now new_time h =
     (let successes = uh_successes h + 1; old_avg = uh_avg_response_time_us h in
      h\<lparr>uh_queries := uh_queries h + 1, uh_successes := successes,
        uh_avg_response_time_us := (if successes \<le> 1 then new_time else (old_avg * 9 + new_time) div 10),
        uh_last_success := Some now\<rparr>)"

definition uh_record_failure :: "upstream_health \<Rightarrow> upstream_health" where
  "uh_record_failure h = h\<lparr>uh_queries := uh_queries h + 1, uh_failures := uh_failures h + 1\<rparr>"

definition uh_success_rate :: "upstream_health \<Rightarrow> real" where
  "uh_success_rate h =
     (if uh_queries h = 0 then 1 else real (unat (uh_successes h)) / real (unat (uh_queries h)))"

definition uh_health_score :: "upstream_health \<Rightarrow> real" where
  "uh_health_score h =
     (let avg_time_ms = real (unat (uh_avg_response_time_us h div 1000));
          time_score = (if avg_time_ms < 50 then 30 else if avg_time_ms < 500 then 30 * (1 - (avg_time_ms - 50) / 450) else 0)
      in uh_success_rate h * 70 + time_score)"

definition uh_is_healthy :: "upstream_health \<Rightarrow> bool" where
  "uh_is_healthy h \<longleftrightarrow> 1 / 2 < uh_success_rate h \<and> 30 < uh_health_score h"

definition uh_reset :: "upstream_health \<Rightarrow> upstream_health" where
  "uh_reset h = h\<lparr>uh_queries := 0, uh_successes := 0, uh_failures := 0, uh_avg_response_time_us := 0\<rparr>"

lemma uh_score_range:
  assumes "uh_successes h \<le> uh_queries h"
  shows "0 \<le> uh_health_score h" "uh_health_score h \<le> 100"
proof -
  let ?t = "real (unat (uh_avg_response_time_us h div 1000))"
  have r: "0 \<le> uh_success_rate h" "uh_success_rate h \<le> 1"
  proof -
    have ratio: "0 \<le> real m / real n \<and> (m \<le> n \<longrightarrow> real m / real n \<le> 1)" for m n :: nat
      by (auto simp: divide_le_eq_1)
    have "unat (uh_successes h) \<le> unat (uh_queries h)" using assms by (simp only: word_le_nat_alt)
    then have "0 \<le> uh_success_rate h \<and> uh_success_rate h \<le> 1"
      using ratio [of "unat (uh_successes h)" "unat (uh_queries h)"]
      unfolding uh_success_rate_def by (cases "uh_queries h = 0") (simp_all only: if_True if_False zero_le_one order_refl simp_thms)
    then show "0 \<le> uh_success_rate h" "uh_success_rate h \<le> 1" by simp_all
  qed
  have "0 \<le> (if t < 50 then 30 else if t < 500 then 30 * (1 - (t - 50) / 450) else 0)
      \<and> (if t < 50 then 30 else if t < 500 then 30 * (1 - (t - 50) / 450) else 0) \<le> (30 :: real)" for t :: real
    by (simp add: field_simps)
  from this [of ?t] r show "0 \<le> uh_health_score h" "uh_health_score h \<le> 100"
    unfolding uh_health_score_def Let_def by linarith+
qed

text \<open>More than half of the queries have to succeed; then the score is above 30 in any case.\<close>

lemma uh_healthy_iff:
  "uh_successes h \<le> uh_queries h \<Longrightarrow> uh_is_healthy h \<longleftrightarrow> 1 / 2 < uh_success_rate h"
proof -
  let ?t = "real (unat (uh_avg_response_time_us h div 1000))"
  have "0 \<le> 30 * (1 - (?t - 50) / 450)" if "?t < 500" using that by (simp add: field_simps)
  then have "uh_success_rate h * 70 \<le> uh_health_score h" by (simp add: uh_health_score_def Let_def)
  then show "uh_is_healthy h \<longleftrightarrow> 1 / 2 < uh_success_rate h" unfolding uh_is_healthy_def by linarith
qed

section \<open>Health checks\<close>

text \<open>The checker of \<open>health.rs\<close>.\<close>

record checked_upstream =
  hc_label :: string
  hc_is_healthy :: bool
  hc_consecutive_failures :: u64
  hc_last_check :: nat
  hc_avg_latency_ms :: u64

definition hc_new :: "nat \<Rightarrow> string \<Rightarrow> checked_upstream" where
  "hc_new now label = \<lparr>hc_label = label, hc_is_healthy = True, hc_consecutive_failures = 0, hc_last_check = now, hc_avg_latency_ms = 0\<rparr>"

definition mark_success :: "u64 \<Rightarrow> checked_upstream \<Rightarrow> checked_upstream" where
  "mark_success latency_ms h =
     (let old = hc_avg_latency_ms h in
      h\<lparr>hc_is_healthy := True, hc_consecutive_failures := 0,
        hc_avg_latency_ms := (if old = 0 then latency_ms else (old * 7 + latency_ms * 3) div 10)\<rparr>)"

definition mark_failure :: "checked_upstream \<Rightarrow> checked_upstream" where
  "mark_failure h =
     (let failures = hc_consecutive_failures h; h = h\<lparr>hc_consecutive_failures := failures + 1\<rparr> in
      if 2 \<le> failures then h\<lparr>hc_is_healthy := False\<rparr> else h)"

definition healthy_upstreams :: "checked_upstream list \<Rightarrow> string list" where
  "healthy_upstreams us = map hc_label (filter hc_is_healthy us)"

definition get_health :: "string \<Rightarrow> checked_upstream list \<Rightarrow> checked_upstream option" where
  "get_health label us = find (\<lambda>u. hc_label u = label) us"

text \<open>A probe: \<open>connects\<close> says for an address whether a connection is made in time.\<close>

definition checker_probe :: "(string \<Rightarrow> 'a option) \<Rightarrow> ('a \<Rightarrow> bool) \<Rightarrow> string \<Rightarrow> bool" where
  "checker_probe parse connects label =
     (let addr_str = trim_start_matches ''https://'' (trim_start_matches ''tls://''
            (trim_start_matches ''tcp://'' (trim_start_matches ''udp://'' label)))
      in if CHR ''/'' \<in> set addr_str then True
         else case parse addr_str of Some addr \<Rightarrow> connects addr | None \<Rightarrow> True)"

text \<open>A round of checks; the upstreams are checked at once, each on its own.  \<open>latency\<close> is the time a check takes in milliseconds.\<close>

definition run_health_checks ::
  "(string \<Rightarrow> 'a option) \<Rightarrow> ('a \<Rightarrow> bool) \<Rightarrow> (string \<Rightarrow> u64) \<Rightarrow> nat \<Rightarrow> checked_upstream list \<Rightarrow> checked_upstream list" where
  "run_health_checks parse connects latency now us =
     map (\<lambda>u. let u = u\<lparr>hc_last_check := now\<rparr> in
       if checker_probe parse connects (hc_label u) then mark_success (latency (hc_label u)) u else mark_failure u) us"

text \<open>An upstream is out exactly from its third failure in a row until its next success, as long as the counter does not wrap.\<close>

fun trailing_failures :: "bool list \<Rightarrow> nat" where
  "trailing_failures [] = 0"
| "trailing_failures (ok # older) = (if ok then 0 else trailing_failures older + 1)"

lemma out_after_third:
  "length marks < 18446744073709551616 \<Longrightarrow>
     (let h = foldr (\<lambda>ok. if ok then mark_success 1 else mark_failure) marks (hc_new now label)
      in unat (hc_consecutive_failures h) = trailing_failures marks \<and> (hc_is_healthy h \<longleftrightarrow> trailing_failures marks < 3))"
proof (induction marks)
  case Nil
  show ?case by (simp add: hc_new_def)
next
  case (Cons ok marks)
  let ?h = "foldr (\<lambda>ok. if ok then mark_success 1 else mark_failure) marks (hc_new now label)"
  have le: "trailing_failures xs \<le> length xs" for xs by (induction xs) simp_all
  have ih: "unat (hc_consecutive_failures ?h) = trailing_failures marks" "hc_is_healthy ?h \<longleftrightarrow> trailing_failures marks < 3"
    using Cons by (simp_all add: Let_def)
  have "unat (hc_consecutive_failures ?h) + 1 < 18446744073709551616" using ih(1) le [of marks] Cons.prems by simp
  then have "unat (hc_consecutive_failures ?h + 1) = trailing_failures marks + 1"
    using ih(1) by (simp add: unat_plus_if_size word_size)
  moreover have "2 \<le> hc_consecutive_failures ?h \<longleftrightarrow> 2 \<le> trailing_failures marks" using ih(1) by (simp add: word_le_nat_alt)
  ultimately show ?case using ih(2) by (auto simp: mark_success_def mark_failure_def Let_def)
qed

text \<open>An upstream whose address is a name or a URL passes every check.\<close>

lemma names_always_pass: "parse = (\<lambda>s. None) \<Longrightarrow> checker_probe parse connects label"
  by (simp add: checker_probe_def Let_def)

end
