(* ===== verification/Stats_Report.thy ===== *)
theory Stats_Report
  imports Stats Complex_Main
begin

text \<open>
  The snapshot of the statistics that the dashboard shows (\<open>src/stats.rs\<close>).  Percentages and averages are reals; the order in which
  a concurrent map is enumerated is that of its list.
\<close>

record dns_snapshot =
  sn_total_queries :: u64
  sn_cache_hits :: u64
  sn_xdp_hits :: u64
  sn_cache_misses :: u64
  sn_cache_hit_rate :: real
  sn_blocked_count :: u64
  sn_avg_latency_ms :: real
  sn_top_domains :: counts
  sn_top_clients :: counts
  sn_rcode_breakdown :: counts
  sn_qtype_breakdown :: counts
  sn_strategy_breakdown :: counts
  sn_recent_blocked :: "(string \<times> string) list"
  sn_cache_entries :: nat
  sn_cache_memory_bytes :: nat
  sn_uptime_seconds :: nat

text \<open>One decimal; the numbers are not negative.\<close>

definition round1 :: "real \<Rightarrow> real" where
  "round1 x = of_int (floor (x * 10 + 1 / 2)) / 10"

definition hit_rate_of :: "dns_stats \<Rightarrow> real" where
  "hit_rate_of s =
     (let total_hits = cache_hits s + xdp_hits s; total_cache = total_hits + cache_misses s in
      if 0 < total_cache then real (unat total_hits) / real (unat total_cache) * 100 else 0)"

definition avg_latency_of :: "dns_stats \<Rightarrow> real" where
  "avg_latency_of s =
     (if latency_samples s = [] then 0
      else real (unat (sum_list (latency_samples s))) / real (length (latency_samples s)) / 1000)"

definition top_ten :: "counts \<Rightarrow> counts" where
  "top_ten m = take 10 (sort_key (\<lambda>(k, c). - int (unat c)) m)"

definition snapshot_of :: "nat \<Rightarrow> dns_stats \<Rightarrow> dns_snapshot" where
  "snapshot_of uptime s =
     \<lparr>sn_total_queries = total_queries s + xdp_hits s, sn_cache_hits = cache_hits s, sn_xdp_hits = xdp_hits s,
      sn_cache_misses = cache_misses s, sn_cache_hit_rate = round1 (hit_rate_of s), sn_blocked_count = blocked_count s,
      sn_avg_latency_ms = round1 (avg_latency_of s), sn_top_domains = top_ten (domain_counts s),
      sn_top_clients = top_ten (client_counts s), sn_rcode_breakdown = rcode_counts s, sn_qtype_breakdown = qtype_counts s,
      sn_strategy_breakdown = strategy_counts s, sn_recent_blocked = take 10 (rev (recent_blocked s)), sn_cache_entries = 0,
      sn_cache_memory_bytes = 0, sn_uptime_seconds = uptime\<rparr>"

text \<open>The shown names are the most frequent ones, at most ten: no name that is left out is more frequent than one that is shown.\<close>

lemma top_ten_most_frequent:
  "length (top_ten m) \<le> 10" "set (top_ten m) \<subseteq> set m"
  "distinct m \<Longrightarrow> x \<in> set (top_ten m) \<Longrightarrow> y \<in> set m \<Longrightarrow> y \<notin> set (top_ten m) \<Longrightarrow> snd y \<le> snd x"
proof -
  let ?f = "\<lambda>(k :: string, c :: u64). - int (unat c)" and ?s = "sort_key (\<lambda>(k, c). - int (unat c)) m"
  show "length (top_ten m) \<le> 10" by (simp add: top_ten_def)
  show "set (top_ten m) \<subseteq> set m" using set_take_subset [of 10 ?s] by (simp add: top_ten_def)
  assume a: "x \<in> set (top_ten m)" "y \<in> set m" "y \<notin> set (top_ten m)"
  have "set ?s = set (take 10 ?s) \<union> set (drop 10 ?s)" by (metis append_take_drop_id set_append)
  with a have "y \<in> set (drop 10 ?s)" "x \<in> set (take 10 ?s)" by (auto simp: top_ten_def)
  have "sorted (map ?f (take 10 ?s @ drop 10 ?s))" by (simp only: append_take_drop_id sorted_sort_key)
  then have "\<forall>a \<in> set (map ?f (take 10 ?s)). \<forall>b \<in> set (map ?f (drop 10 ?s)). a \<le> b"
    unfolding map_append sorted_append by blast
  moreover have "?f x \<in> set (map ?f (take 10 ?s))" "?f y \<in> set (map ?f (drop 10 ?s))"
    using \<open>y \<in> set (drop 10 ?s)\<close> \<open>x \<in> set (take 10 ?s)\<close> by (simp_all only: list.set_map imageI)
  ultimately have "?f x \<le> ?f y" by (meson bspec)
  then show "snd y \<le> snd x" by (simp add: split_beta word_le_def)
qed

text \<open>The rate is a percentage as long as the counters do not wrap.\<close>

lemma hit_rate_range:
  assumes "unat (cache_hits s) + unat (xdp_hits s) + unat (cache_misses s) < 18446744073709551616"
  shows "0 \<le> hit_rate_of s \<and> hit_rate_of s \<le> 100"
proof -
  have "unat (cache_hits s + xdp_hits s) = unat (cache_hits s) + unat (xdp_hits s)"
    using assms by (simp add: unat_plus_if_size word_size)
  moreover from this have "unat (cache_hits s + xdp_hits s + cache_misses s) = unat (cache_hits s) + unat (xdp_hits s) + unat (cache_misses s)"
    using assms by (simp add: unat_plus_if_size word_size)
  ultimately have le: "unat (cache_hits s + xdp_hits s) \<le> unat (cache_hits s + xdp_hits s + cache_misses s)" by simp
  have quotient: "0 \<le> real m / real n \<and> (m \<le> n \<longrightarrow> real m / real n \<le> 1)" for m n :: nat
    by (auto simp: divide_le_eq_1)
  have percent: "0 \<le> r \<and> r \<le> 1 \<Longrightarrow> 0 \<le> r * 100 \<and> r * 100 \<le> 100" for r :: real by linarith
  show ?thesis
  proof (cases "0 < cache_hits s + xdp_hits s + cache_misses s")
    case True
    show ?thesis
      unfolding hit_rate_of_def Let_def if_P [OF True] by (rule percent) (use quotient le in blast)
  next
    case False
    show ?thesis unfolding hit_rate_of_def Let_def if_not_P [OF False] by simp
  qed
qed

text \<open>The blocked names are the last ten, newest first.\<close>

lemma snapshot_blocked: "sn_recent_blocked (snapshot_of uptime (s\<lparr>recent_blocked := older @ newest\<rparr>)) = take 10 (rev newest @ rev older)"
  by (simp add: snapshot_of_def)

end
