(* ===== verification/Http_Api.thy ===== *)
theory Http_Api
  imports Cache_Plugin Query_Log Stats_Report Rust_Text
begin

text \<open>
  The HTTP interface of the dashboard (\<open>src/api.rs\<close>): the handlers that read or change the state of the process.
  Files are a map from paths to contents.  The JSON form of the numbers, the static files and the router are left
  out; the handlers that show the state of the engine are in \<open>Engine_Api\<close>.
\<close>

text \<open>The answers: a JSON value, or a status with a text.\<close>

datatype 'j api_reply = Api_Json 'j | Internal_Error string | Bad_Request string

section \<open>The handlers\<close>

definition health_check_reply :: string where
  "health_check_reply = ''OK''"

definition no_cache_headers :: "(string \<times> string) list" where
  "no_cache_headers = [(''cache-control'', ''no-cache, no-store, must-revalidate''), (''pragma'', ''no-cache''), (''expires'', ''0'')]"

text \<open>The snapshot with the size of the cache, its entries and bytes.\<close>

definition get_dashboard_stats :: "(cache_plugin \<Rightarrow> nat \<times> nat) \<Rightarrow> cache_plugin option \<Rightarrow> nat \<Rightarrow> dns_stats \<Rightarrow> dns_snapshot" where
  "get_dashboard_stats cache_size cache uptime s =
     (let snapshot = snapshot_of uptime s in
      case cache of
        Some c \<Rightarrow> (let (entries, bytes) = cache_size c in snapshot\<lparr>sn_cache_entries := entries, sn_cache_memory_bytes := bytes\<rparr>)
      | None \<Rightarrow> snapshot)"

text \<open>\<open>entry_count\<close> is the number of entries that the cache reports.\<close>

definition get_stats_reply :: "(cache_plugin \<Rightarrow> nat) \<Rightarrow> cache_plugin option \<Rightarrow> string \<times> nat" where
  "get_stats_reply entry_count cache = (''ok'', case cache of Some c \<Rightarrow> entry_count c | None \<Rightarrow> 0)"

definition purge_cache :: "cache_plugin option \<Rightarrow> (string \<times> string) api_reply \<times> cache_plugin option" where
  "purge_cache cache =
     (case cache of
        Some c \<Rightarrow> (Api_Json (''cache_purged'', ''All cache entries invalidated''), Some (cache_purge c))
      | None \<Rightarrow> (Api_Json (''error'', ''No cache plugin active''), None))"

definition get_query_logs :: "nat option \<Rightarrow> query_log \<Rightarrow> query_log_entry list" where
  "get_query_logs limit_param q =
     (let limit = (case limit_param of Some n \<Rightarrow> n | None \<Rightarrow> 100) in get_recent_logs (min limit 1000) q)"

text \<open>\<open>load\<close> reads a configuration from the text of a file, \<open>to_yaml\<close> writes one.\<close>

type_synonym files = "string \<rightharpoonup> string"

definition get_config :: "(string \<Rightarrow> 'c option) \<Rightarrow> string \<Rightarrow> files \<Rightarrow> 'c api_reply" where
  "get_config load config_file fs =
     (case Option.bind (fs config_file) load of
        Some c \<Rightarrow> Api_Json c
      | None \<Rightarrow> Internal_Error ''Failed to load config'')"

text \<open>What a write leaves behind when it fails is in \<open>partial\<close>.\<close>

definition update_config ::
  "('c \<Rightarrow> string option) \<Rightarrow> bool \<Rightarrow> string option \<Rightarrow> bool \<Rightarrow> string \<Rightarrow> 'c \<Rightarrow> files \<Rightarrow> (string \<times> string) api_reply \<times> files" where
  "update_config to_yaml writes partial renames config_file new_config fs =
     (case to_yaml new_config of
        None \<Rightarrow> (Bad_Request ''Invalid config format'', fs)
      | Some yaml \<Rightarrow>
          let tmp_path = with_extension config_file ''tmp'' in
          if \<not> writes then (Internal_Error ''Failed to write config'', fs(tmp_path := partial))
          else let fs = fs(tmp_path \<mapsto> yaml) in
            if \<not> renames then (Internal_Error ''Failed to replace config'', fs)
            else (Api_Json (''ok'', ''Config updated, hot reload triggered''), (fs(tmp_path := None))(config_file \<mapsto> yaml)))"

section \<open>What they promise\<close>

text \<open>The size of the cache is the only thing the dashboard adds to the snapshot, and without a cache it is 0.\<close>

lemma dashboard_adds_size:
  "get_dashboard_stats size_of cache uptime s
     = (snapshot_of uptime s)\<lparr>sn_cache_entries := (case cache of Some c \<Rightarrow> fst (size_of c) | None \<Rightarrow> 0),
                               sn_cache_memory_bytes := (case cache of Some c \<Rightarrow> snd (size_of c) | None \<Rightarrow> 0)\<rparr>"
  by (simp add: get_dashboard_stats_def snapshot_of_def split: option.split prod.split)

text \<open>A request for the log is answered with at most 1000 entries, whatever it asks for.\<close>

lemma logs_capped: "length (get_query_logs limit_param q) \<le> 1000"
  by (simp add: get_query_logs_def get_recent_logs_def Let_def min_def)

text \<open>After a purge the cache answers nothing.\<close>

lemma purge_empties: "purge_cache (Some c) = (r, Some c') \<Longrightarrow> cp_cache c' = Map.empty"
  by (auto simp: purge_cache_def cache_purge_def)

text \<open>An update replaces the file as a whole: when it succeeds the new configuration is what is read next, and when it fails the old one is
  still there.\<close>

lemma update_replaces:
  assumes "update_config to_yaml writes partial renames config_file c fs = (reply, fs')"
    and "\<And>y. to_yaml c = Some y \<Longrightarrow> load y = Some c" and "with_extension config_file ''tmp'' \<noteq> config_file"
  shows "get_config load config_file fs' = (case reply of Api_Json _ \<Rightarrow> Api_Json c | _ \<Rightarrow> get_config load config_file fs)"
proof (cases "to_yaml c")
  case None
  with assms(1) show ?thesis by (auto simp: update_config_def get_config_def)
next
  case (Some yaml)
  with assms show ?thesis by (cases writes; cases renames) (auto simp: update_config_def get_config_def Let_def)
qed

text \<open>A configuration file with the extension of the temporary file is overwritten in place: a write that fails destroys it.\<close>

lemma tmp_file_destroyed:
  assumes "to_yaml c = Some yaml" "with_extension config_file ''tmp'' = config_file"
  shows "snd (update_config to_yaml False partial renames config_file c fs) config_file = partial"
  using assms by (simp add: update_config_def Let_def)

end
