(* ===== verification/Containers.thy ===== *)
theory Containers
  imports Titan_Prelude
begin

text \<open>
  The tables that are fixed at compile time (\<open>src/core/const_map.rs\<close>) and the pool of arenas (\<open>src/core/arena.rs\<close>).  The arena itself is
  a type of another crate; what the pool sees of it is how many bytes are allocated.
\<close>

section \<open>Tables\<close>

definition blocked_ad_domains :: "string list" where
  "blocked_ad_domains = [''ads.google.com'', ''doubleclick.net'', ''googleadservices.com'', ''googlesyndication.com'', ''adservice.google.com'',
     ''pagead2.googlesyndication.com'', ''afs.googlesyndication.com'', ''www.googleadservices.com'', ''www.google-analytics.com'',
     ''ssl.google-analytics.com'', ''stats.g.doubleclick.net'', ''ad.doubleclick.net'', ''static.doubleclick.net'', ''m.doubleclick.net'',
     ''mediavisor.doubleclick.net'', ''pubads.g.doubleclick.net'', ''securepubads.g.doubleclick.net'', ''facebook.com'', ''www.facebook.com'',
     ''connect.facebook.net'', ''graph.facebook.com'', ''pixel.facebook.com'', ''b-api.facebook.com'', ''b-graph.facebook.com'']"

definition blocked_tracker_domains :: "string list" where
  "blocked_tracker_domains = [''analytics.google.com'', ''www.googletagmanager.com'', ''www.googletagservices.com'', ''googletagmanager.com'',
     ''googletagservices.com'', ''google-analytics.com'', ''ssl.google-analytics.com'', ''analytics.twitter.com'', ''scontent.xx.fbcdn.net'',
     ''scontent-lax3-1.xx.fbcdn.net'']"

definition is_ad_domain :: "string \<Rightarrow> bool" where
  "is_ad_domain domain \<longleftrightarrow> domain \<in> set blocked_ad_domains"

definition is_tracker_domain :: "string \<Rightarrow> bool" where
  "is_tracker_domain domain \<longleftrightarrow> domain \<in> set blocked_tracker_domains"

definition is_blocked_domain :: "string \<Rightarrow> bool" where
  "is_blocked_domain domain \<longleftrightarrow> is_ad_domain domain \<or> is_tracker_domain domain"

definition known_nameservers :: "(string \<times> string) list" where
  "known_nameservers = [(''8.8.8.8'', ''Google Public DNS''), (''8.8.4.4'', ''Google Public DNS''), (''1.1.1.1'', ''Cloudflare DNS''),
     (''1.0.0.1'', ''Cloudflare DNS''), (''9.9.9.9'', ''Quad9 DNS''), (''149.112.112.112'', ''Quad9 DNS''), (''208.67.222.222'', ''OpenDNS''),
     (''208.67.220.220'', ''OpenDNS''), (''64.6.64.6'', ''Verisign DNS''), (''64.6.65.6'', ''Verisign DNS'')]"

definition get_nameserver_name :: "string \<Rightarrow> string option" where
  "get_nameserver_name ip = map_of known_nameservers ip"

text \<open>Names are compared as they are: upper case letters or a final dot let a blocked name through.\<close>

lemma blocked_exactly: "is_blocked_domain ''ads.google.com''" "\<not> is_blocked_domain ''Ads.google.com''" "\<not> is_blocked_domain ''ads.google.com.''"
  by code_simp+

section \<open>The pool of arenas\<close>

record arena_pool =
  ap_allocated :: "nat list"
  ap_in_use :: "bool list"

definition arenas_new :: "nat \<Rightarrow> arena_pool" where
  "arenas_new pool_size = \<lparr>ap_allocated = replicate pool_size 0, ap_in_use = replicate pool_size False\<rparr>"

fun first_free :: "nat \<Rightarrow> bool list \<Rightarrow> nat option" where
  "first_free i [] = None"
| "first_free i (used # rest) = (if \<not> used then Some i else first_free (i + 1) rest)"

text \<open>The caller gets the arena, but not its index.\<close>

definition acquire :: "arena_pool \<Rightarrow> nat option \<times> arena_pool" where
  "acquire p =
     (case first_free 0 (ap_in_use p) of
        Some i \<Rightarrow> (Some i, p\<lparr>ap_in_use := (ap_in_use p)[i := True]\<rparr>)
      | None \<Rightarrow> (None, p))"

definition release :: "nat \<Rightarrow> arena_pool \<Rightarrow> arena_pool" where
  "release arena_index p =
     (if arena_index < length (ap_allocated p)
      then p\<lparr>ap_allocated := (ap_allocated p)[arena_index := 0], ap_in_use := (ap_in_use p)[arena_index := False]\<rparr>
      else p)"

record pool_stats =
  ps_total_arenas :: nat
  ps_in_use_arenas :: nat
  ps_free_arenas :: nat
  ps_total_allocated_bytes :: nat

definition pool_stats_of :: "arena_pool \<Rightarrow> pool_stats" where
  "pool_stats_of p =
     (let n = length (ap_allocated p); used = length (filter id (ap_in_use p)) in
      \<lparr>ps_total_arenas = n, ps_in_use_arenas = used, ps_free_arenas = n - used, ps_total_allocated_bytes = sum_list (ap_allocated p)\<rparr>)"

definition pool_ok :: "arena_pool \<Rightarrow> bool" where
  "pool_ok p \<longleftrightarrow> length (ap_in_use p) = length (ap_allocated p)"

lemma pool_ok_operations: "pool_ok (arenas_new n)" "pool_ok p \<Longrightarrow> pool_ok (snd (acquire p))" "pool_ok p \<Longrightarrow> pool_ok (release i p)"
  by (auto simp: pool_ok_def arenas_new_def acquire_def release_def split: option.split)

lemma first_free_Some:
  "first_free k us = Some i \<Longrightarrow> k \<le> i \<and> i - k < length us \<and> \<not> us ! (i - k)"
  by (induction k us rule: first_free.induct) (auto split: if_splits simp: nth_Cons' Suc_diff_Suc)

lemma first_free_None: "first_free k us = None \<longleftrightarrow> (\<forall>u \<in> set us. u)"
  by (induction k us rule: first_free.induct) auto

text \<open>An arena is handed out only while it is free, and one is handed out as long as one is free.\<close>

lemma acquire_exclusive:
  "acquire p = (Some i, p') \<Longrightarrow> i < length (ap_in_use p) \<and> \<not> ap_in_use p ! i \<and> ap_in_use p' = (ap_in_use p)[i := True]"
  "acquire p = (None, p') \<Longrightarrow> \<forall>u \<in> set (ap_in_use p). u"
  using first_free_Some [of 0 "ap_in_use p"] first_free_None [of 0 "ap_in_use p"]
  by (auto simp: acquire_def split: option.splits)

lemma release_frees:
  "pool_ok p \<Longrightarrow> i < length (ap_in_use p) \<Longrightarrow> fst (acquire (release i p)) \<noteq> None"
  using first_free_None [of 0 "(ap_in_use p)[i := False]"] set_update_memI [of i "ap_in_use p" False]
  by (auto simp: acquire_def release_def pool_ok_def split: option.split)

end
