(* ===== verification/Persistence.thy ===== *)
theory Persistence
  imports Smart_Forward Cache_Plugin Autopilot_Engine
begin

text \<open>
  The background tasks that write state to files: what the smart forwarder has learnt (\<open>src/plugins/smart_forward.rs\<close>), the answer
  cache (\<open>src/plugins/cache.rs\<close>) and the snapshot of the engine (\<open>src/autopilot.rs\<close>).  A file is its decoded contents,
  where it can be decoded; encoding and writing may fail, and a write that fails leaves what \<open>partial\<close> says.
\<close>

section \<open>What was learnt\<close>

text \<open>\<open>encodes\<close> is whether the directory is there and the data are encoded, \<open>writes\<close> whether the file is written.\<close>

type_synonym learned_file = "(string \<times> bool) list option"

definition save_learning_cache :: "bool \<Rightarrow> bool \<Rightarrow> learned_file \<Rightarrow> 'n smart_forward \<Rightarrow> learned_file \<Rightarrow> unit result \<times> learned_file" where
  "save_learning_cache encodes writes partial p file =
     (case sm_persist p of
        None \<Rightarrow> (Inr (), file)
      | Some data \<Rightarrow>
          if \<not> encodes then (Inl (Error ''save''), file)
          else if \<not> writes then (Inl (Error ''write''), partial)
          else (Inr (), Some data))"

text \<open>One round of the task, every five minutes: \<open>skip\<close> is whether the load is high.  It remembers how many entries there were.\<close>

definition learning_task_tick ::
  "bool \<Rightarrow> bool \<Rightarrow> bool \<Rightarrow> learned_file \<Rightarrow> 'n smart_forward \<Rightarrow> nat \<times> learned_file \<Rightarrow> nat \<times> learned_file" where
  "learning_task_tick skip encodes writes partial p st =
     (let (last_count, file) = st in
      if sm_persist p = None \<or> skip then st
      else let current_count = (case sm_persist p of Some data \<Rightarrow> length data | None \<Rightarrow> 0) in
        if last_count < current_count then (current_count, snd (save_learning_cache encodes writes partial p file)) else st)"

text \<open>What is saved is what is known after the next start, up to the maximum number of entries.\<close>

lemma fold_load_entry:
  "distinct (map fst es) \<Longrightarrow> sm_learned (fold (load_entry now unix) es p) d
     = (case map_of es d of Some b \<Rightarrow> Some (b, now) | None \<Rightarrow> sm_learned p d)"
proof (induction es arbitrary: p)
  case (Cons e es)
  obtain k b where e: "e = (k, b)" by fastforce
  show ?case
  proof (cases "d = k")
    case True
    then have "map_of es d = None" using Cons.prems by (simp add: e map_of_eq_None_iff)
    with True Cons show ?thesis by (simp add: e load_entry_def)
  next
    case False
    with Cons show ?thesis by (simp add: e load_entry_def split: option.split)
  qed
qed simp

lemma clean_entries_id:
  assumes "length es \<le> n" "\<And>d b. (d, b) \<in> set es \<Longrightarrow> d \<noteq> [] \<and> List.last d \<noteq> CHR ''.'' \<and> \<not> list_ex is_upper d"
  shows "clean_entries n es = es"
proof -
  have "trim_end_matches CHR ''.'' (normalize_domain_lower d) = d" if "(d, b) \<in> set es" for d b
  proof -
    have "trim_end_matches CHR ''.'' d = d" using assms(2) [OF that] by (simp add: trim_end_matches_id)
    with assms(2) [OF that] show ?thesis by (simp add: normalize_domain_lower_def)
  qed
  then have "map (\<lambda>(d, b). (trim_end_matches CHR ''.'' (normalize_domain_lower d), b)) es = es"
    by (intro map_idI) auto
  moreover have "filter (\<lambda>(d, _). d \<noteq> []) es = es" using assms(2) by (intro filter_True) auto
  ultimately show ?thesis using assms(1) by (simp add: clean_entries_def)
qed

lemma learning_roundtrip:
  assumes "sm_persist p = Some data" "distinct (map fst data)" "length data \<le> sm_persist_max q"
    and "\<And>d b. (d, b) \<in> set data \<Longrightarrow> d \<noteq> [] \<and> List.last d \<noteq> CHR ''.'' \<and> \<not> list_ex is_upper d"
    and "learning_task_tick False True True partial p (k, file) = (k', Some saved)" "k < length data"
  shows "sm_learned (load_learning now unix saved q) d = (case map_of data d of Some b \<Rightarrow> Some (b, now) | None \<Rightarrow> sm_learned q d)"
proof -
  have "saved = data" using assms(1,5,6) by (simp add: learning_task_tick_def save_learning_cache_def)
  with clean_entries_id [OF assms(3,4)] fold_load_entry [OF assms(2)] show ?thesis by (simp add: load_learning_def)
qed

text \<open>The task saves only when the number of entries has grown since the last round: once the table is full, nothing is ever saved again,
  although entries go on being replaced; and a changed entry alone is not saved either.\<close>

lemma full_table_never_saved:
  assumes "sm_persist p = Some data" "length data \<le> k"
  shows "learning_task_tick skip encodes writes partial p (k, file) = (k, file)"
  using assms by (simp add: learning_task_tick_def)

text \<open>A failed save counts as done until the table grows again: the rounds after it leave the file as the failure left it.\<close>

lemma failed_save_not_retried:
  assumes "sm_persist p = Some data" "k < length data" "\<not> encodes \<or> \<not> writes"
  shows "learning_task_tick skip' encodes' writes' partial' p (learning_task_tick False encodes writes partial p (k, file))
           = (length data, if encodes then partial else file)"
  using assms by (simp add: learning_task_tick_def save_learning_cache_def)

section \<open>The answer cache\<close>

text \<open>\<open>entries\<close> is the enumeration of the cache, \<open>reaches\<close> what of the written bytes gets into the file, whose errors are ignored; a file
  that can not be created is left as it is.\<close>

definition save_cache_file :: "dns_lib \<Rightarrow> bool \<Rightarrow> (bytes \<Rightarrow> bytes) \<Rightarrow> (query_key \<times> cached_entry) list \<Rightarrow> bytes option \<Rightarrow> bytes option" where
  "save_cache_file L creates reaches entries file = (if creates then Some (reaches (save_to_disk L entries)) else file)"

definition cache_task_runs :: "bool \<Rightarrow> nat \<Rightarrow> bool" where
  "cache_task_runs persist_file persist_interval = (persist_file \<and> persist_interval \<noteq> 0)"

definition cache_task_tick ::
  "dns_lib \<Rightarrow> bool \<Rightarrow> bool \<Rightarrow> (bytes \<Rightarrow> bytes) \<Rightarrow> (query_key \<times> cached_entry) list \<Rightarrow> bytes option \<Rightarrow> bytes option" where
  "cache_task_tick L skip creates reaches entries file = (if skip then file else save_cache_file L creates reaches entries file)"

section \<open>The snapshot of the engine\<close>

text \<open>\<open>parse\<close> and \<open>encode\<close> are the JSON library.\<close>

definition load_autopilot_snapshot :: "(string \<Rightarrow> autopilot_snapshot option) \<Rightarrow> string option \<Rightarrow> autopilot_snapshot option" where
  "load_autopilot_snapshot parse content = Option.bind content parse"

definition save_autopilot_snapshot ::
  "(autopilot_snapshot \<Rightarrow> string option) \<Rightarrow> bool \<Rightarrow> bool \<Rightarrow> string option \<Rightarrow> nat \<Rightarrow> autopilot \<Rightarrow> string option \<Rightarrow> unit result \<times> string option" where
  "save_autopilot_snapshot encode makes_dir writes partial now a file =
     (if \<not> makes_dir then (Inl (Error ''create_dir_all''), file)
      else case encode (build_autopilot_snapshot now a) of
             None \<Rightarrow> (Inl (Error ''to_string_pretty''), file)
           | Some json \<Rightarrow> if writes then (Inr (), Some json) else (Inl (Error ''write''), partial))"

text \<open>A snapshot that is saved is what the next start loads.\<close>

lemma saved_snapshot_loads:
  assumes "save_autopilot_snapshot encode makes_dir writes partial now a file = (Inr (), file')" "\<And>s json. encode s = Some json \<Longrightarrow> parse json = Some s"
  shows "load_autopilot_snapshot parse file' = Some (build_autopilot_snapshot now a)"
proof -
  obtain json where "encode (build_autopilot_snapshot now a) = Some json" "file' = Some json"
    using assms(1) by (auto simp: save_autopilot_snapshot_def split: if_splits option.splits)
  with assms(2) show ?thesis by (simp add: load_autopilot_snapshot_def)
qed

end
