(* ===== verification/Engine_Api.thy ===== *)
theory Engine_Api
  imports Autopilot_Engine
begin

text \<open>
  The handlers of the dashboard that show the state of the engine (\<open>src/api.rs\<close>, under \<open>/api/autopilot\<close>): the values they read, before
  they are put into JSON.  The suggestions are those of \<open>generate_optimization_suggestions\<close> as they are.
\<close>

section \<open>The status\<close>

record autopilot_status =
  as_udp_blocked :: bool
  as_registered :: nat
  as_hot_count :: nat
  as_current_qps :: nat
  as_avg_qps_30s :: real

definition get_autopilot_status :: "autopilot \<Rightarrow> autopilot_status" where
  "get_autopilot_status a =
     \<lparr>as_udp_blocked = h_udp_blocked (ap_health a), as_registered = length (h_upstreams (ap_health a)),
      as_hot_count = length (hd_domains (ap_hot a)), as_current_qps = qt_current (ap_qps a), as_avg_qps_30s = avg_qps 30 (ap_qps a)\<rparr>"

record qps_stats =
  qv_current :: nat
  qv_avg_10s :: real
  qv_avg_30s :: real
  qv_avg_60s :: real
  qv_peak :: nat
  qv_trend :: real

definition get_qps_stats :: "qps_tracker \<Rightarrow> qps_stats" where
  "get_qps_stats q =
     \<lparr>qv_current = qt_current q, qv_avg_10s = avg_qps 10 q, qv_avg_30s = avg_qps 30 q, qv_avg_60s = avg_qps 60 q, qv_peak = peak_qps q,
      qv_trend = qps_trend q\<rparr>"

section \<open>Upstreams\<close>

record upstream_view =
  uv_label :: string
  uv_score :: u64
  uv_avg_rtt :: u64
  uv_min_rtt :: u64
  uv_max_rtt :: u64
  uv_p95_rtt :: u64
  uv_jitter :: u64
  uv_success_rate :: real
  uv_loss_rate :: real
  uv_healthy :: bool

definition view_of :: "nat \<Rightarrow> upstream_metrics \<Rightarrow> upstream_view" where
  "view_of now u =
     \<lparr>uv_label = um_label u, uv_score = um_score u, uv_avg_rtt = um_avg u, uv_min_rtt = min_rtt u, uv_max_rtt = um_max u,
      uv_p95_rtt = p95_latency u, uv_jitter = um_jitter u, uv_success_rate = success_rate u, uv_loss_rate = packet_loss_rate u,
      uv_healthy = is_available now u\<rparr>"

text \<open>The upstreams, the best of them and the labels in the order of their scores.\<close>

definition get_upstream_health :: "nat \<Rightarrow> health \<Rightarrow> upstream_view list \<times> string option \<times> string list" where
  "get_upstream_health now h =
     (let best = get_best_upstreams now h in (map (view_of now) (h_upstreams h), case best of [] \<Rightarrow> None | b # _ \<Rightarrow> Some b, best))"

record ranking_view =
  rv_rank :: nat
  rv_label :: string
  rv_score :: u64
  rv_avg_latency :: u64
  rv_success_rate :: real
  rv_packet_loss :: real
  rv_online :: bool

definition get_upstream_ranking :: "health \<Rightarrow> ranking_view list" where
  "get_upstream_ranking h =
     map (\<lambda>r. \<lparr>rv_rank = ur_rank r, rv_label = ur_label r, rv_score = ur_score r, rv_avg_latency = ur_avg r,
                rv_success_rate = ur_success r, rv_packet_loss = ur_loss r, rv_online = ur_healthy r\<rparr>) (get_upstream_rankings h)"

section \<open>Hot domains\<close>

record hot_reply =
  hr_domains :: "(string \<times> nat) list"
  hr_count :: nat
  hr_prefetch :: "string list"
  hr_prefetch_count :: nat

definition get_hot_domains_reply :: "nat \<Rightarrow> hot_domains \<Rightarrow> hot_reply" where
  "get_hot_domains_reply unix_secs hd_state =
     (let hot = hd_get_top_n 100 hd_state; prefetch = hd_prefetch_candidates unix_secs 0.2 hd_state in
      \<lparr>hr_domains = hot, hr_count = length hot, hr_prefetch = prefetch, hr_prefetch_count = length prefetch\<rparr>)"

section \<open>What they show\<close>

text \<open>The best upstream is one that may be asked, and none that may be asked has a higher score; there is none only if no upstream may be
  asked.\<close>

lemma best_scored_first:
  "case us of [] \<Rightarrow> by_score us = [] | _ \<Rightarrow> (\<exists>u rest. by_score us = u # rest \<and> u \<in> set us \<and> (\<forall>v \<in> set us. um_score v \<le> um_score u))"
proof (cases "by_score us")
  case Nil
  then have "length us = 0" by (metis by_score_def length_sort list.size(3))
  with Nil show ?thesis by simp
next
  case (Cons u rest)
  have all: "set (by_score us) = set us" by (simp add: by_score_def)
  have "sorted (map (\<lambda>u. - int (unat (um_score u))) (by_score us))" by (simp add: by_score_def)
  then have "\<forall>v \<in> set rest. um_score v \<le> um_score u" by (auto simp: Cons word_le_def)
  with all Cons have "u \<in> set us \<and> (\<forall>v \<in> set us. um_score v \<le> um_score u)" by auto
  with Cons show ?thesis by (auto split: list.split)
qed

lemma best_shown:
  assumes "get_upstream_health now h = (views, best, order)"
  shows "case best of
      None \<Rightarrow> \<forall>v \<in> set views. \<not> uv_healthy v
    | Some b \<Rightarrow> \<exists>v \<in> set views. uv_label v = b \<and> uv_healthy v \<and> (\<forall>w \<in> set views. uv_healthy w \<longrightarrow> uv_score w \<le> uv_score v)"
proof -
  define us where "us = filter (is_available now) (h_upstreams h)"
  have views: "views = map (view_of now) (h_upstreams h)" and order: "order = map um_label (by_score us)"
    and best: "best = (case order of [] \<Rightarrow> None | b # _ \<Rightarrow> Some b)"
    using assms by (auto simp: get_upstream_health_def Let_def get_best_upstreams_def us_def)
  show ?thesis
  proof (cases us)
    case Nil
    then have "\<forall>u \<in> set (h_upstreams h). \<not> is_available now u" by (simp add: us_def filter_empty_conv)
    moreover have "best = None" using Nil best_scored_first [of us] by (simp add: best order)
    ultimately show ?thesis by (simp add: views view_of_def)
  next
    case (Cons a rest)
    with best_scored_first [of us] obtain u rest' where u: "by_score us = u # rest'" "u \<in> set us" "\<forall>v \<in> set us. um_score v \<le> um_score u"
      by auto
    then have "best = Some (um_label u)" by (simp add: best order)
    moreover have "view_of now u \<in> set views" "is_available now u" using u(2) by (auto simp: views us_def)
    moreover have "\<forall>w \<in> set views. uv_healthy w \<longrightarrow> uv_score w \<le> um_score u" using u(3) by (auto simp: views us_def view_of_def)
    ultimately show ?thesis by (auto simp: view_of_def intro!: bexI [of _ "view_of now u"])
  qed
qed

text \<open>The two lists of upstreams disagree on one that is down but whose cooldown is over: one calls it healthy and the other offline.\<close>

lemma views_disagree:
  assumes "u \<in> set (h_upstreams h)" "\<not> um_healthy u" "is_available now u"
  shows "(\<exists>v \<in> set (fst (get_upstream_health now h)). uv_label v = um_label u \<and> uv_healthy v)
       \<and> (\<exists>r \<in> set (get_upstream_ranking h). rv_label r = um_label u \<and> \<not> rv_online r)"
proof
  show "\<exists>v \<in> set (fst (get_upstream_health now h)). uv_label v = um_label u \<and> uv_healthy v"
    using assms by (auto simp: get_upstream_health_def Let_def view_of_def intro!: bexI [of _ u])
  let ?s = "sort_key (\<lambda>r. - int (unat (ur_score r))) (map ranking_of (h_upstreams h))"
  have "ranking_of u \<in> set ?s" using assms(1) by simp
  then obtain i where i: "i < length ?s" "?s ! i = ranking_of u" by (metis in_set_conv_nth)
  then have "get_upstream_rankings h ! i = (ranking_of u)\<lparr>ur_rank := i + 1\<rparr>" "i < length (get_upstream_rankings h)"
    by (simp_all add: get_upstream_rankings_def)
  then have "(ranking_of u)\<lparr>ur_rank := i + 1\<rparr> \<in> set (get_upstream_rankings h)" by (metis nth_mem)
  then show "\<exists>r \<in> set (get_upstream_ranking h). rv_label r = um_label u \<and> \<not> rv_online r"
    using assms(2) by (force simp: get_upstream_ranking_def ranking_of_def)
qed

text \<open>No domain is shown twice when none is tracked twice, and every shown count is that of the tracker.\<close>

lemma hot_shown:
  assumes "distinct (map fst (hd_domains h))"
  shows "distinct (map fst (hr_domains (get_hot_domains_reply t h)))"
    "(d, n) \<in> set (hr_domains (get_hot_domains_reply t h)) \<Longrightarrow> map_option ds_count (map_of (hd_domains h) d) = Some n"
proof -
  let ?m = "map (\<lambda>(k, s). (k, ds_count s)) (hd_domains h)"
  let ?s = "sort_key (\<lambda>(_, c). - int c) ?m"
  have shown: "hr_domains (get_hot_domains_reply t h) = take 100 ?s" by (simp add: get_hot_domains_reply_def Let_def hd_get_top_n_def)
  have "map fst ?m = map fst (hd_domains h)" by (simp add: split_beta)
  then have "distinct (map fst ?m)" using assms by (simp only:)
  then have "distinct (map fst ?s)" by (simp only: distinct_map set_sort distinct_sort)
  then show "distinct (map fst (hr_domains (get_hot_domains_reply t h)))" by (simp only: shown take_map [symmetric] distinct_take)
  assume "(d, n) \<in> set (hr_domains (get_hot_domains_reply t h))"
  then have "(d, n) \<in> set ?s" unfolding shown by (rule in_set_takeD)
  then have "(d, n) \<in> set ?m" by simp
  then obtain s where "(d, s) \<in> set (hd_domains h)" "n = ds_count s" by auto
  with assms show "map_option ds_count (map_of (hd_domains h) d) = Some n" by simp
qed

end
