(* ===== verification/Sing_Box.thy ===== *)
theory Sing_Box
  imports Titan_Prelude
begin

text \<open>
  The monitor of a local sing-box (\<open>src/singbox.rs\<close>): it looks for the port of the proxy in the first configuration file that exists, and
  watches whether the port takes connections.  Of the JSON of the file only the listed entries matter.
\<close>

record inbound =
  ib_type :: "string option"
  ib_listen_port :: "u64 option"

text \<open>A file that exists: the list of its entries, or \<open>None\<close> when it can not be read, is not JSON or has no such list.\<close>

type_synonym singbox_file = "inbound list option"

record singbox_monitor =
  sb_config_path :: "string option"
  sb_socks_port :: u16
  sb_is_alive :: bool
  sb_shared_status :: "bool option"

definition singbox_new :: "bool option \<Rightarrow> singbox_monitor" where
  "singbox_new shared_status =
     \<lparr>sb_config_path = None, sb_socks_port = 7891, sb_is_alive = False, sb_shared_status = shared_status\<rparr>"

definition common_paths :: "string list" where
  "common_paths = [''./config.json'', ''C:/Program Files/sing-box/config.json'', ''C:/ProgramData/sing-box/config.json'',
     ''/etc/sing-box/config.json'', ''../sing-box/config.json'', ''../mosdns/sing-box/config.json'']"

fun socks_port_of :: "inbound list \<Rightarrow> u64 option" where
  "socks_port_of [] = None"
| "socks_port_of (i # rest) =
     (let type_str = (case ib_type i of Some t \<Rightarrow> t | None \<Rightarrow> '''') in
      if type_str = ''socks'' \<or> type_str = ''mixed''
      then (case ib_listen_port i of Some port \<Rightarrow> Some port | None \<Rightarrow> socks_port_of rest)
      else socks_port_of rest)"

fun discover_in :: "(string \<Rightarrow> singbox_file option) \<Rightarrow> string list \<Rightarrow> singbox_monitor \<Rightarrow> singbox_monitor" where
  "discover_in files [] m = m"
| "discover_in files (path # paths) m =
     (case files path of
        None \<Rightarrow> discover_in files paths m
      | Some content \<Rightarrow>
          let m = m\<lparr>sb_config_path := Some path\<rparr> in
          (case Option.bind content socks_port_of of
             Some port \<Rightarrow> m\<lparr>sb_socks_port := ucast port\<rparr>
           | None \<Rightarrow> m))"

definition auto_discover :: "(string \<Rightarrow> singbox_file option) \<Rightarrow> singbox_monitor \<Rightarrow> singbox_monitor" where
  "auto_discover files m = discover_in files common_paths m"

text \<open>\<open>connects\<close> says whether a connection to the port of the local host is made within a second.\<close>

definition check_singbox :: "(u16 \<Rightarrow> bool) \<Rightarrow> singbox_monitor \<Rightarrow> bool \<times> singbox_monitor" where
  "check_singbox connects m =
     (if connects (sb_socks_port m) then (True, m\<lparr>sb_is_alive := True\<rparr>) else (False, m\<lparr>sb_is_alive := False\<rparr>))"

definition monitor_tick :: "(u16 \<Rightarrow> bool) \<Rightarrow> singbox_monitor \<Rightarrow> singbox_monitor" where
  "monitor_tick connects m =
     (let (alive, m) = check_singbox connects m in m\<lparr>sb_shared_status := map_option (\<lambda>_. alive) (sb_shared_status m)\<rparr>)"

text \<open>The first file that exists decides: when it names no port the default stays, whatever the others say.\<close>

lemma first_file_decides:
  assumes "files p = Some content" "\<forall>q \<in> set before. files q = None"
  shows "discover_in files (before @ p # paths) m
    = (case Option.bind content socks_port_of of
         Some port \<Rightarrow> m\<lparr>sb_config_path := Some p, sb_socks_port := ucast port\<rparr> | None \<Rightarrow> m\<lparr>sb_config_path := Some p\<rparr>)"
  using assms(2) by (induction before) (simp_all add: assms(1) Let_def split: option.split)

text \<open>A port that does not fit is cut to 16 bits: 67427 becomes 1891.\<close>

lemma port_is_cut:
  "sb_socks_port (discover_in (\<lambda>p. Some (Some [\<lparr>ib_type = Some ''socks'', ib_listen_port = Some 67427\<rparr>])) [''c''] (singbox_new None)) = 1891"
  by (simp add: Let_def singbox_new_def)

text \<open>The shared flag follows the last check.\<close>

lemma monitor_follows:
  "sb_shared_status m \<noteq> None \<Longrightarrow> sb_shared_status (monitor_tick connects m) = Some (connects (sb_socks_port m))"
  by (auto simp: monitor_tick_def check_singbox_def)

end
