(* ===== verification/Config_Load.thy ===== *)
theory Config_Load
  imports Process Udp_Server Kernel_Filter Sing_Box "HOL-Library.Monad_Syntax"
begin

text \<open>
  From the text of the configuration to its value (\<open>src/config.rs\<close>), and what \<open>main.rs\<close> starts of it before the plugins: the logging, the
  discovery of sing-box and the filter in the kernel.

  The format is declared by attributes of \<open>serde\<close>: a field may be required, optional, or have a default, fields that are not declared are
  passed over, a plugin is chosen by its \<open>type\<close>, and a condition is the first of its forms that fits.  How scalars, lists and mappings are
  read is the library's, in the parameter \<open>serde_lib\<close>, over an abstract type of documents.  Error texts are left out.  A \<open>HashMap\<close> is the list of its
  entries.
\<close>

record 'y serde_lib =
  sd_map :: "'y \<Rightarrow> (string \<times> 'y) list option"
  sd_seq :: "'y \<Rightarrow> 'y list option"
  sd_null :: "'y \<Rightarrow> bool"
  sd_bool :: "'y \<Rightarrow> bool option"
  sd_string :: "'y \<Rightarrow> string option"
  sd_u8 :: "'y \<Rightarrow> u8 option"
  sd_u16 :: "'y \<Rightarrow> u16 option"
  sd_u32 :: "'y \<Rightarrow> u32 option"
  sd_u64 :: "'y \<Rightarrow> u64 option"
  sd_usize :: "'y \<Rightarrow> nat option"
  sd_f64 :: "'y \<Rightarrow> real option"
  sd_addr :: "'y \<Rightarrow> string option"

section \<open>Fields\<close>

type_synonym 'y fields = "string \<Rightarrow> 'y option"

definition required_field :: "string \<Rightarrow> ('y \<Rightarrow> 'a option) \<Rightarrow> 'y fields \<Rightarrow> 'a option" where
  "required_field name dec m = Option.bind (m name) dec"

definition defaulted :: "string \<Rightarrow> ('y \<Rightarrow> 'a option) \<Rightarrow> 'a \<Rightarrow> 'y fields \<Rightarrow> 'a option" where
  "defaulted name dec d m = (case m name of None \<Rightarrow> Some d | Some y \<Rightarrow> dec y)"

definition optional :: "'y serde_lib \<Rightarrow> string \<Rightarrow> ('y \<Rightarrow> 'a option) \<Rightarrow> 'y fields \<Rightarrow> 'a option option" where
  "optional S name dec = defaulted name (\<lambda>y. if sd_null S y then Some None else map_option Some (dec y)) None"

definition seq_of :: "'y serde_lib \<Rightarrow> ('y \<Rightarrow> 'a option) \<Rightarrow> 'y \<Rightarrow> 'a list option" where
  "seq_of S dec y = Option.bind (sd_seq S y) (\<lambda>ys. those (map dec ys))"

definition map_entries :: "'y serde_lib \<Rightarrow> ('y \<Rightarrow> 'a option) \<Rightarrow> 'y \<Rightarrow> (string \<times> 'a) list option" where
  "map_entries S dec y = Option.bind (sd_map S y) (\<lambda>es. those (map (\<lambda>(k, v). map_option (Pair k) (dec v)) es))"

definition struct_of :: "'y serde_lib \<Rightarrow> ('y fields \<Rightarrow> 'a option) \<Rightarrow> 'y \<Rightarrow> 'a option" where
  "struct_of S dec y = Option.bind (sd_map S y) (\<lambda>es. dec (map_of es))"

lemma field_simps [simp]:
  "m k = None \<Longrightarrow> required_field k dec m = None" "m k = Some y \<Longrightarrow> required_field k dec m = dec y"
  "m k = None \<Longrightarrow> defaulted k dec d m = Some d" "m k = Some y \<Longrightarrow> defaulted k dec d m = dec y"
  "m k = None \<Longrightarrow> optional S k dec m = Some None"
  "m k = Some y \<Longrightarrow> optional S k dec m = (if sd_null S y then Some None else map_option Some (dec y))"
  by (simp_all add: required_field_def defaulted_def optional_def)

text \<open>A field is read from its own entry alone.\<close>

lemma field_other [simp]:
  "k' \<noteq> k \<Longrightarrow> required_field k dec (m(k' := v)) = required_field k dec m" "k' \<noteq> k \<Longrightarrow> defaulted k dec d (m(k' := v)) = defaulted k dec d m"
  "k' \<noteq> k \<Longrightarrow> optional S k dec (m(k' := v)) = optional S k dec m"
  by (simp_all add: required_field_def defaulted_def optional_def)

section \<open>Upstreams, steps and conditions\<close>

definition decode_upstream :: "'y serde_lib \<Rightarrow> 'y fields \<Rightarrow> upstream_config option" where
  "decode_upstream S m = do {
     addr \<leftarrow> required_field ''addr'' (sd_string S) m;
     dial_addr \<leftarrow> optional S ''dial_addr'' (sd_string S) m;
     socks5 \<leftarrow> optional S ''socks5'' (sd_string S) m;
     idle_timeout \<leftarrow> optional S ''idle_timeout'' (sd_u64 S) m;
     query_timeout_ms \<leftarrow> optional S ''query_timeout_ms'' (sd_u64 S) m;
     so_mark \<leftarrow> optional S ''so_mark'' (sd_u32 S) m;
     tcp_fast_open \<leftarrow> defaulted ''tcp_fast_open'' (sd_bool S) False m;
     Some \<lparr>uc_addr = addr, uc_dial_addr = dial_addr, uc_socks5 = socks5, uc_query_timeout_ms = map_option unat query_timeout_ms,
           uc_so_mark = so_mark, uc_tcp_fast_open = tcp_fast_open\<rparr>
   }"

text \<open>The forms of a condition are tried in the order of the enum.\<close>

definition first_some :: "'a option \<Rightarrow> 'a option \<Rightarrow> 'a option" where
  "first_some a b = (case a of Some x \<Rightarrow> Some x | None \<Rightarrow> b)"

definition decode_condition :: "'y serde_lib \<Rightarrow> 'y fields \<Rightarrow> match_condition option" where
  "decode_condition S m =
     first_some (map_option ByQname (required_field ''qname'' (seq_of S (sd_string S)) m))
    (first_some (map_option ByQtype (required_field ''qtype'' (seq_of S (sd_u16 S)) m))
    (first_some (map_option ByClientIp (required_field ''client_ip'' (seq_of S (sd_string S)) m))
    (first_some (do { tag \<leftarrow> required_field ''has_tag'' (sd_string S) m; negated \<leftarrow> defaulted ''invert'' (sd_bool S) False m; Some (ByTag tag negated) })
       (map_option ByMatcherPlugin (required_field ''match_plugin'' (sd_string S) m)))))"

definition decode_step :: "'y serde_lib \<Rightarrow> 'y fields \<Rightarrow> sequence_step option" where
  "decode_step S m = do {
     matches \<leftarrow> defaulted ''matches'' (seq_of S (struct_of S (decode_condition S))) [] m;
     exec \<leftarrow> required_field ''exec'' (sd_string S) m;
     args \<leftarrow> optional S ''args'' (map_entries S (sd_string S)) m;
     Some \<lparr>st_matches = matches, st_exec = exec\<rparr>
   }"

section \<open>Plugins\<close>

definition decode_tuning :: "'y serde_lib \<Rightarrow> 'y fields \<Rightarrow> tuning_conf option" where
  "decode_tuning S m = do {
     doh_pool_idle_timeout \<leftarrow> optional S ''doh_pool_idle_timeout'' (sd_u64 S) m;
     doh_pool_max_idle_per_host \<leftarrow> optional S ''doh_pool_max_idle_per_host'' (sd_usize S) m;
     doh_timeout \<leftarrow> optional S ''doh_timeout'' (sd_u64 S) m;
     dot_idle_timeout \<leftarrow> optional S ''dot_idle_timeout'' (sd_u64 S) m;
     doq_idle_timeout \<leftarrow> optional S ''doq_idle_timeout'' (sd_u64 S) m;
     doq_socks5_timeout \<leftarrow> optional S ''doq_socks5_timeout'' (sd_u64 S) m;
     tcp_connect_timeout_ms \<leftarrow> optional S ''tcp_connect_timeout_ms'' (sd_u64 S) m;
     tcp_read_timeout_ms \<leftarrow> optional S ''tcp_read_timeout_ms'' (sd_u64 S) m;
     udp_reply_timeout_ms \<leftarrow> optional S ''udp_reply_timeout_ms'' (sd_u64 S) m;
     udp_retries \<leftarrow> optional S ''udp_retries'' (sd_u32 S) m;
     udp_rcvbuf \<leftarrow> optional S ''udp_rcvbuf'' (sd_usize S) m;
     udp_sndbuf \<leftarrow> optional S ''udp_sndbuf'' (sd_usize S) m;
     Some \<lparr>tc_doh_pool_idle_timeout = doh_pool_idle_timeout, tc_doh_pool_max_idle_per_host = doh_pool_max_idle_per_host,
           tc_doh_timeout = doh_timeout, tc_dot_idle_timeout = dot_idle_timeout, tc_doq_idle_timeout = doq_idle_timeout,
           tc_doq_socks5_timeout = doq_socks5_timeout, tc_tcp_connect_timeout_ms = tcp_connect_timeout_ms,
           tc_tcp_read_timeout_ms = tcp_read_timeout_ms, tc_udp_reply_timeout_ms = udp_reply_timeout_ms, tc_udp_retries = udp_retries,
           tc_udp_rcvbuf = udp_rcvbuf, tc_udp_sndbuf = udp_sndbuf\<rparr>
   }"

abbreviation upstream_list :: "'y serde_lib \<Rightarrow> 'y \<Rightarrow> upstream_config list option" where
  "upstream_list S \<equiv> seq_of S (struct_of S (decode_upstream S))"

definition default_persist_interval :: u64 where "default_persist_interval = 300"

definition decode_cache :: "'y serde_lib \<Rightarrow> 'y fields \<Rightarrow> cache_conf option" where
  "decode_cache S m = do {
     sz \<leftarrow> required_field ''size'' (sd_usize S) m;
     dump_file \<leftarrow> optional S ''dump_file'' (sd_string S) m;
     fakeip_protection \<leftarrow> defaulted ''fakeip_protection'' (sd_bool S) False m;
     upstreams \<leftarrow> defaulted ''upstreams'' (upstream_list S) [] m;
     prefetch_if_ttl_less_than \<leftarrow> defaulted ''prefetch_if_ttl_less_than'' (sd_u32 S) 0 m;
     serve_stale_ttl \<leftarrow> defaulted ''serve_stale_ttl'' (sd_u32 S) 0 m;
     recursive_mode \<leftarrow> defaulted ''recursive_mode'' (sd_bool S) False m;
     persist_file \<leftarrow> optional S ''persist_file'' (sd_string S) m;
     persist_interval \<leftarrow> defaulted ''persist_interval'' (sd_u64 S) default_persist_interval m;
     min_ttl \<leftarrow> optional S ''min_ttl'' (sd_u64 S) m;
     max_ttl \<leftarrow> optional S ''max_ttl'' (sd_u64 S) m;
     moka_ttl_secs \<leftarrow> optional S ''moka_ttl_secs'' (sd_u64 S) m;
     xdp_hash_ttl_secs \<leftarrow> optional S ''xdp_hash_ttl_secs'' (sd_u64 S) m;
     prefetch_concurrent \<leftarrow> optional S ''prefetch_concurrent'' (sd_usize S) m;
     prefetch_timeout_ms \<leftarrow> optional S ''prefetch_timeout_ms'' (sd_u64 S) m;
     strategy \<leftarrow> optional S ''strategy'' (sd_string S) m;
     timeout \<leftarrow> optional S ''timeout'' (sd_u64 S) m;
     Some \<lparr>cc_fakeip_protection = fakeip_protection, cc_upstreams = upstreams,
           cc_prefetch_if_ttl_less_than = prefetch_if_ttl_less_than, cc_serve_stale_ttl = serve_stale_ttl,
           cc_recursive_mode = recursive_mode, cc_persist_file = persist_file, cc_persist_interval = persist_interval,
           cc_min_ttl = min_ttl, cc_max_ttl = max_ttl, cc_moka_ttl_secs = moka_ttl_secs, cc_xdp_hash_ttl_secs = xdp_hash_ttl_secs,
           cc_prefetch_concurrent = prefetch_concurrent, cc_prefetch_timeout_ms = prefetch_timeout_ms, cc_strategy = strategy,
           cc_timeout = timeout\<rparr>
   }"

definition decode_forward :: "'y serde_lib \<Rightarrow> 'y fields \<Rightarrow> forward_conf option" where
  "decode_forward S m = do {
     upstreams \<leftarrow> required_field ''upstreams'' (upstream_list S) m;
     concurrent \<leftarrow> optional S ''concurrent'' (sd_usize S) m;
     strategy \<leftarrow> optional S ''strategy'' (sd_string S) m;
     timeout \<leftarrow> defaulted ''timeout'' (sd_u64 S) 5000 m;
     tuning \<leftarrow> decode_tuning S m;
     Some \<lparr>fc_upstreams = upstreams, fc_strategy = strategy, fc_timeout = timeout, fc_tuning = tuning\<rparr>
   }"

definition decode_smart_forward :: "'y serde_lib \<Rightarrow> 'y fields \<Rightarrow> smart_forward_conf option" where
  "decode_smart_forward S m = do {
     loc \<leftarrow> optional S ''local'' (struct_of S (decode_upstream S)) m;
     fakeip \<leftarrow> optional S ''fakeip'' (struct_of S (decode_upstream S)) m;
     local_upstreams \<leftarrow> defaulted ''local_upstreams'' (upstream_list S) [] m;
     fakeip_upstreams \<leftarrow> defaulted ''fakeip_upstreams'' (upstream_list S) [] m;
     local_strategy \<leftarrow> optional S ''local_strategy'' (sd_string S) m;
     fakeip_strategy \<leftarrow> optional S ''fakeip_strategy'' (sd_string S) m;
     local_concurrent \<leftarrow> optional S ''local_concurrent'' (sd_usize S) m;
     fakeip_concurrent \<leftarrow> optional S ''fakeip_concurrent'' (sd_usize S) m;
     local_timeout_ms \<leftarrow> optional S ''local_timeout_ms'' (sd_u64 S) m;
     fakeip_timeout_ms \<leftarrow> optional S ''fakeip_timeout_ms'' (sd_u64 S) m;
     local_fallback_upstreams \<leftarrow> defaulted ''local_fallback_upstreams'' (upstream_list S) [] m;
     local_fallback_strategy \<leftarrow> optional S ''local_fallback_strategy'' (sd_string S) m;
     local_fallback_concurrent \<leftarrow> optional S ''local_fallback_concurrent'' (sd_usize S) m;
     local_fallback_timeout_ms \<leftarrow> optional S ''local_fallback_timeout_ms'' (sd_u64 S) m;
     avoid_fakeip_on_domestic \<leftarrow> defaulted ''avoid_fakeip_on_domestic'' (sd_bool S) False m;
     prefer_local_on_miss \<leftarrow> defaulted ''prefer_local_on_miss'' (sd_bool S) False m;
     domestic_suffixes \<leftarrow> defaulted ''domestic_suffixes'' (seq_of S (sd_string S)) [] m;
     ip_matcher \<leftarrow> optional S ''ip_matcher'' (sd_string S) m;
     geoip \<leftarrow> required_field ''geoip'' (sd_string S) m;
     learning_cache_file \<leftarrow> optional S ''learning_cache_file'' (sd_string S) m;
     learning_cache_max_entries \<leftarrow> optional S ''learning_cache_max_entries'' (sd_usize S) m;
     learning_cache_ttl_secs \<leftarrow> optional S ''learning_cache_ttl_secs'' (sd_u64 S) m;
     tuning \<leftarrow> decode_tuning S m;
     Some \<lparr>sf_local = loc, sf_fakeip = fakeip, sf_local_upstreams = local_upstreams, sf_fakeip_upstreams = fakeip_upstreams,
           sf_local_strategy = local_strategy, sf_fakeip_strategy = fakeip_strategy, sf_local_timeout_ms = local_timeout_ms,
           sf_fakeip_timeout_ms = fakeip_timeout_ms, sf_local_fallback_upstreams = local_fallback_upstreams,
           sf_local_fallback_strategy = local_fallback_strategy, sf_local_fallback_timeout_ms = local_fallback_timeout_ms,
           sf_avoid_fakeip_on_domestic = avoid_fakeip_on_domestic, sf_prefer_local_on_miss = prefer_local_on_miss,
           sf_domestic_suffixes = domestic_suffixes, sf_ip_matcher = ip_matcher, sf_geoip = geoip,
           sf_learning_cache_file = learning_cache_file, sf_learning_cache_max_entries = learning_cache_max_entries,
           sf_learning_cache_ttl_secs = learning_cache_ttl_secs, sf_tuning = tuning\<rparr>
   }"

text \<open>The other plugins, in three groups by the order of the enum; \<open>None\<close> is a type that is not in the group.\<close>

definition decode_matching :: "'y serde_lib \<Rightarrow> string \<Rightarrow> 'y fields \<Rightarrow> plugin_type option option" where
  "decode_matching S t m =
     (if t = ''reject'' then Some (map_option RejectConf (defaulted ''rcode'' (sd_string S) ''nxdomain'' m))
      else if t = ''hosts'' then Some (map_option HostsConf (required_field ''file'' (sd_string S) m))
      else if t = ''query_log'' then Some (map_option QueryLogConf (required_field ''file'' (sd_string S) m))
      else if t = ''geosite'' then Some (do {
        target \<leftarrow> required_field ''target'' (sd_string S) m;
        files \<leftarrow> required_field ''files'' (seq_of S (sd_string S)) m;
        mark \<leftarrow> optional S ''mark'' (sd_string S) m;
        Some (GeoSiteConf target files mark) })
      else if t = ''geoip'' then Some (do {
        file \<leftarrow> required_field ''file'' (sd_string S) m;
        code \<leftarrow> required_field ''code'' (sd_string S) m;
        tag \<leftarrow> required_field ''tag'' (sd_string S) m;
        mode \<leftarrow> defaulted ''mode'' (sd_string S) '''' m;
        negated \<leftarrow> defaulted ''invert'' (sd_bool S) False m;
        Some (GeoIpConf file code tag mode negated) })
      else if t = ''matcher'' then Some (do {
        files \<leftarrow> required_field ''files'' (seq_of S (sd_string S)) m;
        mark \<leftarrow> optional S ''mark'' (sd_string S) m;
        Some (MatcherConf files mark) })
      else if t = ''ip_matcher'' then Some (do {
        files \<leftarrow> required_field ''files'' (seq_of S (sd_string S)) m;
        mark \<leftarrow> optional S ''mark'' (sd_string S) m;
        Some (IpMatcherConf files mark) })
      else None)"

definition decode_passing :: "'y serde_lib \<Rightarrow> string \<Rightarrow> 'y fields \<Rightarrow> plugin_type option option" where
  "decode_passing S t m =
     (if t = ''fallback'' then Some (do {
        primary \<leftarrow> required_field ''primary'' (sd_string S) m;
        secondary \<leftarrow> required_field ''secondary'' (sd_string S) m;
        threshold \<leftarrow> defaulted ''threshold'' (sd_u64 S) 400 m;
        always_standby \<leftarrow> defaulted ''always_standby'' (sd_bool S) False m;
        Some (FallbackConf primary secondary threshold always_standby) })
      else if t = ''ecs'' then Some (do {
        auto \<leftarrow> defaulted ''auto'' (sd_bool S) False m;
        ipv4_netmask \<leftarrow> optional S ''ipv4_netmask'' (sd_u8 S) m;
        ipv6_netmask \<leftarrow> optional S ''ipv6_netmask'' (sd_u8 S) m;
        force_subnet \<leftarrow> optional S ''force_subnet'' (sd_string S) m;
        Some (EcsConf auto ipv4_netmask ipv6_netmask force_subnet) })
      else if t = ''fakeip'' then Some (do {
        inet4_range \<leftarrow> defaulted ''inet4_range'' (sd_string S) ''7.0.0.0/8'' m;
        inet6_range \<leftarrow> defaulted ''inet6_range'' (sd_string S) ''fc00::/18'' m;
        Some (FakeIpConf inet4_range inet6_range) })
      else None)"

definition decode_filtering :: "'y serde_lib \<Rightarrow> string \<Rightarrow> 'y fields \<Rightarrow> plugin_type option option" where
  "decode_filtering S t m =
     (if t = ''dns64'' then Some (do {
        pre \<leftarrow> optional S ''prefix'' (sd_string S) m;
        only_if_no_aaaa \<leftarrow> defaulted ''only_if_no_aaaa'' (sd_bool S) True m;
        Some (Dns64Conf pre only_if_no_aaaa) })
      else if t = ''dnssec'' then Some (map_option DnssecConf (defaulted ''mode'' (sd_string S) ''permissive'' m))
      else if t = ''adblock'' then Some (map_option AdBlockConf (required_field ''files'' (seq_of S (sd_string S)) m))
      else if t = ''ipv6_filter'' then Some (do {
        mode \<leftarrow> defaulted ''mode'' (sd_string S) ''disabled'' m;
        delay_aaaa_ms \<leftarrow> defaulted ''delay_aaaa_ms'' (sd_u64 S) 50 m;
        Some (Ipv6FilterConf mode delay_aaaa_ms) })
      else if t = ''dga'' then Some (do {
        entropy_threshold \<leftarrow> defaulted ''entropy_threshold'' (sd_f64 S) 4.5 m;
        min_len \<leftarrow> defaulted ''min_len'' (sd_usize S) 12 m;
        dry_run \<leftarrow> defaulted ''dry_run'' (sd_bool S) True m;
        Some (DgaConf entropy_threshold min_len dry_run) })
      else if t = ''smart_resolve'' then Some (do {
        upstreams \<leftarrow> required_field ''upstreams'' (upstream_list S) m;
        probe_timeout_ms \<leftarrow> defaulted ''probe_timeout_ms'' (sd_u64 S) 100 m;
        probe_port \<leftarrow> defaulted ''probe_port'' (sd_u16 S) 80 m;
        prefer_ipv4 \<leftarrow> defaulted ''prefer_ipv4'' (sd_bool S) True m;
        max_ips_to_probe \<leftarrow> defaulted ''max_ips_to_probe'' (sd_usize S) 5 m;
        Some (SmartResolveConf upstreams probe_timeout_ms probe_port max_ips_to_probe) })
      else if t = ''ttl'' then Some (do {
        fixed \<leftarrow> optional S ''fixed'' (sd_u32 S) m;
        lower \<leftarrow> optional S ''min'' (sd_u32 S) m;
        upper \<leftarrow> optional S ''max'' (sd_u32 S) m;
        Some (TtlConf fixed lower upper) })
      else if t = ''ratelimit'' then Some (do {
        max_queries \<leftarrow> required_field ''max_queries'' (sd_u32 S) m;
        window_secs \<leftarrow> required_field ''window_secs'' (sd_u64 S) m;
        Some (RateLimitConf max_queries window_secs) })
      else if t = ''aliapi'' then Some (do {
        account_id \<leftarrow> required_field ''account_id'' (sd_string S) m;
        access_key_id \<leftarrow> required_field ''access_key_id'' (sd_string S) m;
        access_key_secret \<leftarrow> required_field ''access_key_secret'' (sd_string S) m;
        timeout_ms \<leftarrow> optional S ''timeout_ms'' (sd_u64 S) m;
        Some (AliApiConf account_id access_key_id access_key_secret timeout_ms) })
      else None)"

text \<open>Every other type is \<open>Unknown\<close>.\<close>

definition decode_plugin :: "'y serde_lib \<Rightarrow> 'y fields \<Rightarrow> plugin_type option" where
  "decode_plugin S m = do {
     t \<leftarrow> required_field ''type'' (sd_string S) m;
     if t = ''cache'' then map_option CacheConf (decode_cache S m)
     else if t = ''forward'' then map_option ForwardConf (decode_forward S m)
     else if t = ''smart_forward'' then map_option SmartForwardConf (decode_smart_forward S m)
     else case first_some (decode_matching S t m) (first_some (decode_passing S t m) (decode_filtering S t m)) of
            Some r \<Rightarrow> r
          | None \<Rightarrow> Some UnknownConf
   }"

section \<open>The other sections\<close>

record log_conf =
  lg_level :: string
  lg_file :: "string option"

record query_log_conf =
  ql_enabled :: bool
  ql_max_size :: nat
  ql_recent_blocked_limit :: nat

record singbox_conf =
  sx_auto_discover :: bool
  sx_socks_port :: "u16 option"
  sx_deadlock_domains :: "string list"
  sx_fallback_dns :: "string option"

record xdp_cache_conf =
  xc_enabled :: bool
  xc_sync_hot_queries :: bool
  xc_max_entries :: nat

text \<open>An entry of the blacklist is an address and an action.\<close>

record ebpf_conf =
  eb_interface :: string
  eb_bpf_path :: "string option"
  eb_blacklist :: "(string \<times> string) list"
  eb_xdp_cache :: "xdp_cache_conf option"

text \<open>A listener, with its socket options and its certificate and key.\<close>

record server_section =
  se_conf :: server_conf
  se_opts :: socket_opts
  se_tls :: "(string \<times> string) option"

record root_config =
  rc_log :: log_conf
  rc_query_log :: query_log_conf
  rc_api :: "string option"
  rc_singbox :: singbox_conf
  rc_plugins :: "(string \<times> plugin_type) list"
  rc_sequences :: "named_sequence list"
  rc_servers :: "server_section list"
  rc_ebpf :: "ebpf_conf option"

text \<open>A section that is left out is the \<open>Default\<close> of its type, which for derived ones is not made of the defaults of the fields.\<close>

definition log_default :: log_conf where
  "log_default = \<lparr>lg_level = '''', lg_file = None\<rparr>"

definition decode_log :: "'y serde_lib \<Rightarrow> 'y fields \<Rightarrow> log_conf option" where
  "decode_log S m = do {
     level \<leftarrow> defaulted ''level'' (sd_string S) ''info'' m;
     file \<leftarrow> optional S ''file'' (sd_string S) m;
     Some \<lparr>lg_level = level, lg_file = file\<rparr>
   }"

definition query_log_default :: query_log_conf where
  "query_log_default = \<lparr>ql_enabled = True, ql_max_size = 5000, ql_recent_blocked_limit = 100\<rparr>"

definition decode_query_log :: "'y serde_lib \<Rightarrow> 'y fields \<Rightarrow> query_log_conf option" where
  "decode_query_log S m = do {
     enabled \<leftarrow> defaulted ''enabled'' (sd_bool S) False m;
     max_size \<leftarrow> defaulted ''max_size'' (sd_usize S) 5000 m;
     recent_blocked_limit \<leftarrow> defaulted ''recent_blocked_limit'' (sd_usize S) 100 m;
     Some \<lparr>ql_enabled = enabled, ql_max_size = max_size, ql_recent_blocked_limit = recent_blocked_limit\<rparr>
   }"

definition singbox_default :: singbox_conf where
  "singbox_default = \<lparr>sx_auto_discover = False, sx_socks_port = None, sx_deadlock_domains = [], sx_fallback_dns = None\<rparr>"

definition decode_singbox :: "'y serde_lib \<Rightarrow> 'y fields \<Rightarrow> singbox_conf option" where
  "decode_singbox S m = do {
     discover \<leftarrow> defaulted ''auto_discover'' (sd_bool S) False m;
     socks_port \<leftarrow> optional S ''socks_port'' (sd_u16 S) m;
     deadlock_domains \<leftarrow> defaulted ''deadlock_domains'' (seq_of S (sd_string S)) [] m;
     fallback_dns \<leftarrow> optional S ''fallback_dns'' (sd_string S) m;
     Some \<lparr>sx_auto_discover = discover, sx_socks_port = socks_port, sx_deadlock_domains = deadlock_domains,
           sx_fallback_dns = fallback_dns\<rparr>
   }"

definition decode_blacklist_entry :: "'y serde_lib \<Rightarrow> 'y fields \<Rightarrow> (string \<times> string) option" where
  "decode_blacklist_entry S m = do {
     ip \<leftarrow> required_field ''ip'' (sd_string S) m;
     action \<leftarrow> defaulted ''action'' (sd_string S) ''drop'' m;
     Some (ip, action)
   }"

definition decode_xdp_cache :: "'y serde_lib \<Rightarrow> 'y fields \<Rightarrow> xdp_cache_conf option" where
  "decode_xdp_cache S m = do {
     enabled \<leftarrow> defaulted ''enabled'' (sd_bool S) False m;
     sync_hot_queries \<leftarrow> defaulted ''sync_hot_queries'' (sd_bool S) False m;
     max_entries \<leftarrow> defaulted ''max_entries'' (sd_usize S) 0 m;
     Some \<lparr>xc_enabled = enabled, xc_sync_hot_queries = sync_hot_queries, xc_max_entries = max_entries\<rparr>
   }"

definition decode_ebpf :: "'y serde_lib \<Rightarrow> 'y fields \<Rightarrow> ebpf_conf option" where
  "decode_ebpf S m = do {
     interface \<leftarrow> required_field ''interface'' (sd_string S) m;
     bpf_path \<leftarrow> optional S ''bpf_path'' (sd_string S) m;
     blacklist \<leftarrow> defaulted ''blacklist'' (seq_of S (struct_of S (decode_blacklist_entry S))) [] m;
     xdp_cache \<leftarrow> optional S ''xdp_cache'' (struct_of S (decode_xdp_cache S)) m;
     Some \<lparr>eb_interface = interface, eb_bpf_path = bpf_path, eb_blacklist = blacklist, eb_xdp_cache = xdp_cache\<rparr>
   }"

definition socket_opts_default :: socket_opts where
  "socket_opts_default =
     \<lparr>so_reuseport = False, so_rcvbuf = 0, so_sndbuf = 0, so_batch_io = False, so_workers = 0, so_tcp_read_timeout_ms = None,
      so_doh_keep_alive_interval_ms = None, so_doh_keep_alive_timeout_ms = None\<rparr>"

definition decode_socket_opts :: "'y serde_lib \<Rightarrow> 'y fields \<Rightarrow> socket_opts option" where
  "decode_socket_opts S m = do {
     reuseport \<leftarrow> defaulted ''so_reuseport'' (sd_bool S) False m;
     rcvbuf \<leftarrow> defaulted ''so_rcvbuf'' (sd_usize S) 0 m;
     sndbuf \<leftarrow> defaulted ''so_sndbuf'' (sd_usize S) 0 m;
     batch_io \<leftarrow> defaulted ''batch_io'' (sd_bool S) False m;
     num_of_workers \<leftarrow> defaulted ''workers'' (sd_usize S) 1 m;
     tcp_read_timeout_ms \<leftarrow> optional S ''tcp_read_timeout_ms'' (sd_u64 S) m;
     doh_keep_alive_interval_ms \<leftarrow> optional S ''doh_keep_alive_interval_ms'' (sd_u64 S) m;
     doh_keep_alive_timeout_ms \<leftarrow> optional S ''doh_keep_alive_timeout_ms'' (sd_u64 S) m;
     Some \<lparr>so_reuseport = reuseport, so_rcvbuf = rcvbuf, so_sndbuf = sndbuf, so_batch_io = batch_io, so_workers = num_of_workers,
           so_tcp_read_timeout_ms = tcp_read_timeout_ms, so_doh_keep_alive_interval_ms = doh_keep_alive_interval_ms,
           so_doh_keep_alive_timeout_ms = doh_keep_alive_timeout_ms\<rparr>
   }"

definition protocol_of :: "string \<Rightarrow> protocol option" where
  "protocol_of name = map_of [(''udp'', Udp), (''tcp'', Tcp), (''doh'', Doh), (''doq'', Doq), (''dot'', Dot)] name"

definition decode_tls :: "'y serde_lib \<Rightarrow> 'y fields \<Rightarrow> (string \<times> string) option" where
  "decode_tls S m = do { cert \<leftarrow> required_field ''cert'' (sd_string S) m; key \<leftarrow> required_field ''key'' (sd_string S) m; Some (cert, key) }"

definition decode_server :: "'y serde_lib \<Rightarrow> 'y fields \<Rightarrow> server_section option" where
  "decode_server S m = do {
     proto \<leftarrow> required_field ''protocol'' (\<lambda>y. Option.bind (sd_string S y) protocol_of) m;
     addr \<leftarrow> required_field ''addr'' (sd_string S) m;
     entry \<leftarrow> required_field ''entry'' (sd_string S) m;
     opts \<leftarrow> defaulted ''socket_opts'' (struct_of S (decode_socket_opts S)) socket_opts_default m;
     tls \<leftarrow> optional S ''tls'' (struct_of S (decode_tls S)) m;
     Some \<lparr>se_conf = \<lparr>sc_protocol = proto, sc_addr = addr, sc_entry = entry, sc_workers = so_workers opts\<rparr>, se_opts = opts, se_tls = tls\<rparr>
   }"

definition decode_config :: "'y serde_lib \<Rightarrow> 'y fields \<Rightarrow> root_config option" where
  "decode_config S m = do {
     log \<leftarrow> defaulted ''log'' (struct_of S (decode_log S)) log_default m;
     ql \<leftarrow> defaulted ''query_log'' (struct_of S (decode_query_log S)) query_log_default m;
     api \<leftarrow> optional S ''api'' (struct_of S (required_field ''http'' (sd_addr S))) m;
     singbox \<leftarrow> defaulted ''singbox'' (struct_of S (decode_singbox S)) singbox_default m;
     plugins \<leftarrow> defaulted ''plugins'' (map_entries S (struct_of S (decode_plugin S))) [] m;
     sequences \<leftarrow> defaulted ''sequences'' (map_entries S (seq_of S (struct_of S (decode_step S)))) [] m;
     servers \<leftarrow> defaulted ''servers'' (seq_of S (struct_of S (decode_server S))) [] m;
     ebpf \<leftarrow> optional S ''ebpf'' (struct_of S (decode_ebpf S)) m;
     Some \<lparr>rc_log = log, rc_query_log = ql, rc_api = api, rc_singbox = singbox, rc_plugins = plugins, rc_sequences = sequences,
           rc_servers = servers, rc_ebpf = ebpf\<rparr>
   }"

text \<open>\<open>content\<close> is the text of the file when it can be read, \<open>parse\<close> the parser of YAML.\<close>

definition load_config_from_file :: "'y serde_lib \<Rightarrow> (string \<Rightarrow> 'y option) \<Rightarrow> string option \<Rightarrow> root_config result" where
  "load_config_from_file S parse content =
     (case content of
        None \<Rightarrow> Inl (Error ''read_to_string'')
      | Some text \<Rightarrow>
          (case Option.bind (parse text) (struct_of S (decode_config S)) of
             None \<Rightarrow> Inl (Error ''from_str'')
           | Some c \<Rightarrow> Inr c))"

section \<open>The start before the plugins\<close>

datatype log_level = Trace_Level | Debug_Level | Info_Level | Warn_Level | Error_Level

text \<open>The level, and the directory and name of the file that takes the log.\<close>

type_synonym log_setup = "log_level \<times> (string \<times> string) option"

definition setup_logging :: "log_level \<Rightarrow> string option \<Rightarrow> log_setup" where
  "setup_logging level log_dir = (level, map_option (\<lambda>dir. (dir, ''titandns.log'')) log_dir)"

definition init_logging :: "bool \<Rightarrow> log_setup" where
  "init_logging verbose = setup_logging (if verbose then Debug_Level else Info_Level) None"

text \<open>\<open>parent\<close> is the directory of a path, if it has one.\<close>

definition init_logging_from_config :: "(string \<Rightarrow> string option) \<Rightarrow> string \<Rightarrow> string option \<Rightarrow> log_setup" where
  "init_logging_from_config parent level_str log_path =
     (let l = to_lower level_str;
          log_level = (if l = ''trace'' then Trace_Level else if l = ''debug'' then Debug_Level else if l = ''info'' then Info_Level
                       else if l = ''warn'' then Warn_Level else if l = ''error'' then Error_Level else Info_Level);
          log_dir = map_option (\<lambda>p. case parent p of Some d \<Rightarrow> d | None \<Rightarrow> ''.'') log_path
      in setup_logging log_level log_dir)"

definition start_logging :: "(string \<Rightarrow> string option) \<Rightarrow> bool \<Rightarrow> root_config \<Rightarrow> log_setup" where
  "start_logging parent verbose c =
     (if verbose then init_logging True else init_logging_from_config parent (lg_level (rc_log c)) (lg_file (rc_log c)))"

text \<open>The port that plugins use and the flag of the proxy, with the monitor that keeps it.\<close>

definition start_singbox :: "(string \<Rightarrow> singbox_file option) \<Rightarrow> root_config \<Rightarrow> u16 option \<times> bool \<times> singbox_monitor option" where
  "start_singbox files c =
     (if sx_auto_discover (rc_singbox c)
      then let sb_monitor = auto_discover files (singbox_new (Some False)) in (Some (sb_socks_port sb_monitor), False, Some sb_monitor)
      else (None, True, None))"

text \<open>\<open>load\<close> is \<open>load_and_attach\<close> for the program at a path.\<close>

definition start_filter ::
  "(string \<Rightarrow> kernel_filter \<Rightarrow> unit result \<times> kernel_filter) \<Rightarrow> (string \<Rightarrow> u32 option) \<Rightarrow> (u32 \<Rightarrow> bool) \<Rightarrow> root_config \<Rightarrow> kernel_filter option" where
  "start_filter load parse takes c =
     (case rc_ebpf c of
        None \<Rightarrow> None
      | Some conf \<Rightarrow>
          let path = (case eb_bpf_path conf of Some p \<Rightarrow> p | None \<Rightarrow> ''titan_dns_filter.o'') in
          (case load path None of
             (Inl e, f) \<Rightarrow> None
           | (Inr u, f) \<Rightarrow> Some (snd (populate_blacklist parse takes (eb_blacklist conf) f))))"

text \<open>The part of the configuration that the rest of the start reads.\<close>

definition start_conf_of :: "root_config \<Rightarrow> start_conf" where
  "start_conf_of c =
     \<lparr>sf_config = \<lparr>cf_plugins = rc_plugins c, cf_sequences = rc_sequences c,
        cf_xdp_cache = Option.bind (rc_ebpf c) (\<lambda>e. map_option xc_enabled (eb_xdp_cache e))\<rparr>,
      sf_servers = map se_conf (rc_servers c), sf_api = rc_api c, sf_log_enabled = ql_enabled (rc_query_log c),
      sf_log_max = ql_max_size (rc_query_log c), sf_blocked_limit = ql_recent_blocked_limit (rc_query_log c)\<rparr>"

section \<open>What a configuration means\<close>

text \<open>A plugin of which only the type and the required fields are given has the documented defaults.\<close>

lemma plugin_defaults:
  assumes "sd_string S y = Some t"
  shows "t = ''reject'' \<Longrightarrow> decode_plugin S [''type'' \<mapsto> y] = Some (RejectConf ''nxdomain'')"
    "t = ''dga'' \<Longrightarrow> decode_plugin S [''type'' \<mapsto> y] = Some (DgaConf 4.5 12 True)"
    "t = ''ipv6_filter'' \<Longrightarrow> decode_plugin S [''type'' \<mapsto> y] = Some (Ipv6FilterConf ''disabled'' 50)"
    "t = ''fakeip'' \<Longrightarrow> decode_plugin S [''type'' \<mapsto> y] = Some (FakeIpConf ''7.0.0.0/8'' ''fc00::/18'')"
    "t = ''dns64'' \<Longrightarrow> decode_plugin S [''type'' \<mapsto> y] = Some (Dns64Conf None True)"
    "t = ''dnssec'' \<Longrightarrow> decode_plugin S [''type'' \<mapsto> y] = Some (DnssecConf ''permissive'')"
    "t = ''forward'' \<Longrightarrow> decode_plugin S [''type'' \<mapsto> y] = None"
  using assms
  by (simp_all add: decode_plugin_def decode_matching_def decode_passing_def decode_filtering_def first_some_def decode_forward_def)

text \<open>A type that is mistyped is accepted; whatever else the plugin says is not read.\<close>

definition plugin_names :: "string list" where
  "plugin_names = [''cache'', ''forward'', ''smart_forward'', ''reject'', ''hosts'', ''query_log'', ''geosite'', ''geoip'', ''matcher'',
     ''ip_matcher'', ''adblock'', ''ipv6_filter'', ''dga'', ''fallback'', ''ecs'', ''fakeip'', ''dns64'', ''dnssec'', ''smart_resolve'', ''ttl'',
     ''ratelimit'', ''aliapi'']"

lemma unknown_accepted:
  assumes "required_field ''type'' (sd_string S) m = Some t" "t \<notin> set plugin_names"
  shows "decode_plugin S m = Some UnknownConf"
  using assms by (simp add: decode_plugin_def plugin_names_def decode_matching_def decode_passing_def decode_filtering_def first_some_def)

text \<open>An entry of an upstream that is not declared is passed over, a mistyped one as well.\<close>

lemma undeclared_ignored:
  assumes "k \<notin> {''addr'', ''dial_addr'', ''socks5'', ''idle_timeout'', ''query_timeout_ms'', ''so_mark'', ''tcp_fast_open''}"
  shows "decode_upstream S (m(k := v)) = decode_upstream S m"
  using assms by (simp add: decode_upstream_def)

text \<open>A condition has one form: beside a name nothing else is looked at, and only tags can be inverted.\<close>

lemma first_form_only:
  assumes "required_field ''qname'' (seq_of S (sd_string S)) m = Some names"
  shows "decode_condition S m = Some (ByQname names)"
  using assms by (simp add: decode_condition_def first_some_def)

lemma matcher_not_inverted:
  assumes "m ''qname'' = None" "m ''qtype'' = None" "m ''client_ip'' = None" "m ''has_tag'' = None"
  shows "decode_condition S (m(''invert'' := v)) = decode_condition S m"
  using assms by (simp add: decode_condition_def first_some_def)

text \<open>A listener without socket options has a worker per processor, one with an empty section of them a single one.\<close>

lemma workers_without_section:
  assumes "decode_server S m = Some s" "m ''socket_opts'' = None"
  shows "num_workers cpus (se_conf s) = cpus"
  using assms by (auto simp: decode_server_def socket_opts_default_def num_workers_def bind_eq_Some_conv)

lemma workers_empty_section:
  assumes "decode_server S m = Some s" "m ''socket_opts'' = Some y" "sd_map S y = Some []"
  shows "num_workers cpus (se_conf s) = 1"
  using assms by (auto simp: decode_server_def struct_of_def decode_socket_opts_def num_workers_def bind_eq_Some_conv)

text \<open>The same with the log of queries: it is on without a section, and off with a section that does not say so.\<close>

lemma query_log_without_section:
  assumes "decode_config S m = Some c" "m ''query_log'' = None"
  shows "sf_log_enabled (start_conf_of c)"
  using assms by (auto simp: decode_config_def start_conf_of_def query_log_default_def bind_eq_Some_conv)

lemma query_log_with_section:
  assumes "decode_config S m = Some c" "m ''query_log'' = Some y" "sd_map S y = Some es" "map_of es ''enabled'' = None"
  shows "\<not> sf_log_enabled (start_conf_of c)"
  using assms by (auto simp: decode_config_def start_conf_of_def struct_of_def decode_query_log_def bind_eq_Some_conv)

text \<open>Of the file of the log only the directory counts.\<close>

lemma log_file_name_ignored:
  assumes "parent p = parent q"
  shows "init_logging_from_config parent level (Some p) = init_logging_from_config parent level (Some q)"
  using assms by (simp add: init_logging_from_config_def)

text \<open>The domains against a deadlock, the port and the server of the section of sing-box are never read.\<close>

lemma singbox_section_ignored:
  assumes "rc_singbox c = \<lparr>sx_auto_discover = auto, sx_socks_port = p, sx_deadlock_domains = ds, sx_fallback_dns = f\<rparr>"
  shows "start_singbox files (c\<lparr>rc_singbox := \<lparr>sx_auto_discover = auto, sx_socks_port = p', sx_deadlock_domains = ds', sx_fallback_dns = f'\<rparr>\<rparr>)
      = start_singbox files c"
    "start_conf_of (c\<lparr>rc_singbox := s'\<rparr>) = start_conf_of c"
  using assms by (simp_all add: start_singbox_def start_conf_of_def)

text \<open>A discovery that finds nothing reports the port 7891 as found.\<close>

lemma discovery_without_file:
  assumes "sx_auto_discover (rc_singbox c)" "\<forall>p \<in> set common_paths. files p = None"
  shows "fst (start_singbox files c) = Some 7891"
  using assms by (simp add: start_singbox_def auto_discover_def common_paths_def singbox_new_def)

text \<open>Rules that are refused do not stop the filter: what was inserted before stays and the filter is on.\<close>

lemma filter_survives_rules:
  assumes "rc_ebpf c = Some conf" "\<And>p. load p None = (Inr (), Some maps)"
  shows "\<exists>maps'. start_filter load parse takes c = Some (Some maps')"
  using assms by (simp add: start_filter_def populate_blacklist_def Let_def apsnd_def split: prod.split)

text \<open>An empty mapping is a configuration: a process without listeners.\<close>

lemma empty_configuration:
  assumes "parse text = Some y" "sd_map S y = Some []"
  shows "\<exists>c. load_config_from_file S parse (Some text) = Inr c \<and> sf_servers (start_conf_of c) = [] \<and> cf_plugins (sf_config (start_conf_of c)) = []"
  using assms by (simp add: load_config_from_file_def struct_of_def decode_config_def start_conf_of_def)

end
