(* ===== verification/Spec2Isabelle.thy ===== *)
theory Spec2Isabelle
  imports Process Single_Flight Cache_Refresh Socks5_Udp Recursive_Backend Autopilot_Engine Lock_Free Udp_Server Kernel_Filter
    Upstream_Setup Metrics Http_Api Containers Persistence Engine_Api
    Config_Load
begin

text \<open>
  A verification of TitanDNS, a DNS forwarder written in Rust: from the bytes of
  a packet, through a chain of configured plugins, to the bytes of the reply.

  \<^bold>\<open>The program.\<close>  A server task (\<open>server.rs\<close>) parses a packet into a packet context
  (\<open>core/context.rs\<close>, \<open>core/zerocopy.rs\<close>), looks up the entry point of the current
  configuration (\<open>core/hot_reload.rs\<close>), runs it, runs the post-process hooks and
  sends what the context then holds.  An entry point is a plugin
  (\<open>plugins/mod.rs\<close>), in general a sequence (\<open>plugins/sequence.rs\<close>) of plugins that
  read and change the context: match it (\<open>matcher\<close>, \<open>geosite\<close>, \<open>geoip\<close>,
  \<open>ip_matcher\<close>), answer it (\<open>cache\<close>, \<open>reject\<close>, \<open>hosts\<close>, \<open>adblock\<close>, \<open>ipv6_filter\<close>, \<open>dga\<close>,
  \<open>ratelimit\<close>), rewrite request or answer (\<open>ecs\<close>, \<open>ttl\<close>, \<open>dns64\<close>, \<open>dnssec\<close>), log it (\<open>query_log\<close>), or ask
  upstreams (\<open>forward\<close>, \<open>smart_forward\<close>, \<open>smart_resolve\<close>, \<open>aliapi\<close>, or two plugins in turn,
  \<open>fallback\<close>).  The forwarders share the engine of \<open>autopilot.rs\<close>, which scores upstreams and learns which
  one answers a domain best.  \<open>core/singleflight.rs\<close> merges equal computations.

  \<^bold>\<open>The theories.\<close>
  \<^item> \<open>Titan_Prelude\<close>: machine integers, results with errors and panics, byte codecs, the
    part of Rust's string library in use, bounded queues.
  \<^item> \<open>Dns_Types\<close>: addresses and messages; the external DNS crate as the parameter
    \<open>dns_lib\<close>, with the laws the code relies on as predicates.
  \<^item> \<open>Zero_Copy\<close>, \<open>Dns_Context\<close>: the raw message with its question parser and ID patch;
    the context, its cached reads, tags and responses.
  \<^item> \<open>Memo_Cache\<close>, \<open>Label_Trie\<close>: two interfaces as locales, a result cache in front of a
    decision, and a trie of reversed domain labels; \<open>Matcher\<close>, \<open>Geo_Site\<close> and
    \<open>Response_Rewrite\<close> interpret them.
  \<^item> \<open>Rate_Limit\<close>, \<open>Matcher\<close>, \<open>Geo_Site\<close>, \<open>Local_Answers\<close> (reject, hosts, adblock,
    ipv6_filter), \<open>Response_Rewrite\<close> (ttl, dns64, dnssec, ecs, fakeip, geoip,
    ip_matcher), \<open>Dga_Filter\<close>: one plugin each or a group of small ones.
  \<^item> \<open>Single_Flight\<close>, \<open>Fallback\<close>: the concurrent parts as transition systems, of interleaved
    tasks and of the events a \<open>select!\<close> loop waits for.
  \<^item> \<open>Stats\<close>, \<open>Stats_Report\<close>, \<open>Query_Log\<close>: the global counters, their snapshot for the dashboard and the log of recent queries.
  \<^item> \<open>Domain_Hash\<close>, \<open>Cache_Plugin\<close>: the hashes of names with the entries of the kernel cache; the answer
    cache with its stale serving, refreshes and both file formats.
  \<^item> \<open>Autopilot_Health\<close>, \<open>Autopilot_Learning\<close>, \<open>Autopilot_Guard\<close>, \<open>Autopilot\<close>: scores, circuit breaker and
    ranking; the memory of domains behind a channel; clients, addresses and generated names; their common state.
  \<^item> \<open>Upstreams\<close>: the construction of upstreams and their exchanges over UDP, TCP, TLS, QUIC and HTTP.
  \<^item> \<open>Upstream_Setup\<close>: the HTTP client of DoH upstreams, the exchanges that encode their message, the warm-up of connections.
  \<^item> \<open>Adaptive_Pool\<close>, \<open>Forward_Race\<close>, \<open>Forward\<close>: the pool tuning, the race of several upstreams, the
    forwarding plugin with all its strategies and its hook.
  \<^item> \<open>Smart_Forward\<close>, \<open>Smart_Resolve\<close>, \<open>Ali_Api\<close>, \<open>Query_Log_Plugin\<close>: one plugin each.
  \<^item> \<open>Pipeline\<close>: the closed type of plugins, its dispatch, sequences and fallbacks, and the contract
    locale that lifts what one plugin keeps to whole pipelines.
  \<^item> \<open>Server\<close>: hot reload, one request from bytes to bytes, stream framings, DoH.
  \<^item> \<open>Byte_Buffer\<close>, \<open>Udp_Server\<close>: buffers written at an offset; the loops of the servers, the UDP server with batched system
    calls and its workers as a transition system (\<open>server/batch_io.rs\<close>, \<open>server/batch_sender.rs\<close>), sockets.
  \<^item> \<open>Kernel_Filter\<close>: the program that answers packets in the kernel (\<open>bpf/titan_filter.c\<close>), with its loader (\<open>bpf.rs\<close>).
  \<^item> \<open>Plugin_Factory\<close>, \<open>Config_Watch\<close>: the configuration (\<open>config.rs\<close>), the plugins a start and a reload make of it
    (\<open>plugin_factory.rs\<close>, \<open>main.rs\<close>), the watcher of its file (\<open>config_watcher.rs\<close>).
  \<^item> \<open>Process\<close>: the start of the process (\<open>main.rs\<close>), its workers and how a reload reaches them, the prefetch.
  \<^item> \<open>Recursive_Backend\<close>, \<open>Cache_Refresh\<close>: the resolver that follows referrals from the roots for the refreshes of the
    cache; the refresh by schedule and the warm-up.
  \<^item> \<open>Socks5_Udp\<close>: the UDP tunnel through a SOCKS5 server.
  \<^item> \<open>Autopilot_Bandit\<close>, \<open>Autopilot_Engine\<close>: the choice of an upstream by sampling; the loop of the engine with its
    probes, its snapshot over restarts, its background tasks and its reports.
  \<^item> \<open>Lock_Free\<close>: the lock-free cache (\<open>core/lockfree.rs\<close>), with every access to shared memory as a step of its own.
  \<^item> \<open>Rust_Text\<close>, \<open>Metrics\<close>: prefixes and paths; the sampled counters with their cells per thread, aligned counters and two health trackers
    (\<open>core/metrics.rs\<close>, \<open>core/aligned.rs\<close>, \<open>core/health.rs\<close>, \<open>health.rs\<close>).
  \<^item> \<open>Http_Api\<close>, \<open>Sing_Box\<close>, \<open>Containers\<close>: the handlers of the dashboard that act on the process (\<open>api.rs\<close>), the monitor of a local
    sing-box (\<open>singbox.rs\<close>), compile-time tables and the pool of arenas (\<open>core/const_map.rs\<close>, \<open>core/arena.rs\<close>).
  \<^item> \<open>Config_Load\<close>: the format of the configuration with its defaults, and what is started before the plugins.
  \<^item> \<open>Engine_Api\<close>: what the dashboard shows of the engine.
  \<^item> \<open>Persistence\<close>: the tasks that save the learnt entries, the answer cache and the snapshot of the engine to files.

  \<^bold>\<open>Correspondence.\<close>  A struct is a record with a prefixed field per field of the code
  that carries state (names and log texts are left out), an enum a datatype, a
  method a definition of the same name where the name is free, else prefixed
  (\<open>rl_\<close>, \<open>mp_\<close>, \<open>gs_\<close>, ...).  Locks and concurrent maps are the value they guard; a
  method is then a function from state to state, and where interleavings
  matter the steps are relations.  \<open>Inl (Error _)\<close> is an \<open>Err\<close>, \<open>Inl Panic\<close> a panic.  Time is a
  natural number of nanoseconds.  Integers keep their width where they can wrap.

  \<^bold>\<open>What is shown.\<close>  Replies carry the ID of the query for every pipeline, contexts stay well-formed in
  every pipeline, and no packet makes a request panic unless the pipeline has one of two plugins that
  can (\<open>Server\<close>, through the contract of \<open>Pipeline\<close>).  The batched UDP server sends only such replies to who asked, and keeps none
  back (\<open>Udp_Server\<close>); the kernel answers a cached question with the reply that was stored (\<open>Kernel_Filter\<close>).  Parsers stay in
  bounds and are exact.  Each matching plugin decides its rule files, whatever
  its caches hold.  Each answering plugin gives the configured answer on every
  branch.  The cache serves what was stored for the key while it may.  Forwarders always answer, in bounded time, and only
  what an upstream answered; the race refines a choice on the list of answers; a protected name
  never gets a fake address.  The breaker, the ranking and the memory of the engine keep their invariants in every
  run, and its snapshot brings the memory back.  The lock-free cache never touches freed memory and holds a key once, in all interleavings.  The limiter's quota and the bounds of the logs and statistics hold for
  all runs.  Calls merged by the singleflight agree in all interleavings, and
  the failover is right for all orders of events.  The start builds exactly the sequences that a
  configuration defines.  The recursive resolver follows a delegation to its answer and ends within a bound of
  datagrams whatever the name servers do.  Some theorems pin down where
  the code does not do what it means to.

  \<^bold>\<open>Parameters.\<close>  The DNS crate (\<open>dns_lib\<close>), what an exchange with an upstream meets and how long it takes (\<open>net_env\<close>,
  \<open>probe_env\<close>, \<open>ali_env\<close>, \<open>rec_env\<close>), the order in which tasks end, clocks, databases, \<open>Display\<close> forms.  Their laws are named
  predicates: \<open>serial_header\<close>, \<open>net_ends_ok\<close> and so on.  Tasks that run beside a request are jobs in the state, run
  by operations of their own.  Two plugins that run at the same time act on the world one after the other.

  \<^bold>\<open>Bounds.\<close>  Loops terminate by measures on the input: the question parser on the bytes
  left, framed streams on their length, retries on their number, referrals on the depth the code counts down.  No fuel is used.  Floating point
  numbers are reals, so results that depend on rounding are not those of \<open>f64\<close>.

  \<^bold>\<open>Not modelled.\<close>  TLS, QUIC and the system calls themselves are I/O, as are the JSON forms of the dashboard and the log.  YAML and the code that \<open>serde\<close> derives for it are in the parameter \<open>serde_lib\<close> and the combinators of \<open>Config_Load\<close>.  The semaphore of the forwarder only delays.  The hedged request of \<open>forward.rs\<close> is behind returns that
  cover every case, and \<open>adaptive_pool_integration.rs\<close> and \<open>metrics.rs\<close> are in no
  module.
\<close>

end
